(* ===== verification/Go_Prelude.thy ===== *)
theory Go_Prelude
  imports Main "HOL-Library.Sublist"
begin

text \<open>
  The prelude of the development: the parts of Go's standard library the modelled packages call
  (package \<open>strings\<close>, \<open>net/textproto\<close>), error results, and generic lemmas on lists and maps.

  A Go \<open>string\<close> is a sequence of bytes and is modelled as HOL's \<open>string\<close>, a list of 8-bit
  characters, so \<open>length\<close> is Go's \<open>len\<close>. Case mapping and white space are modelled on the ASCII
  range: a byte of 128 or more (a part of a UTF-8 sequence) has no case and is no white space. On
  ASCII text the functions below are Go's; Go's Unicode tables beyond ASCII are outside the model.
\<close>

section \<open>Fact collections\<close>

named_theorems go_str \<open>facts on the string functions of the prelude\<close>

section \<open>Error results\<close>

text \<open>A Go result \<open>(T, error)\<close>: \<open>Inl\<close> the error, \<open>Inr\<close> the value of a call with a nil error.\<close>

type_synonym ('e, 'a) result = "'e + 'a"

fun and_then :: "('e, 'a) result \<Rightarrow> ('a \<Rightarrow> ('e, 'b) result) \<Rightarrow> ('e, 'b) result" where
  "and_then (Inl e) f = Inl e"
| "and_then (Inr x) f = f x"

lemma and_then_eq_Inr [simp]: "and_then r f = Inr y \<longleftrightarrow> (\<exists>x. r = Inr x \<and> f x = Inr y)"
  by (cases r) auto

lemma and_then_eq_Inl: "and_then r f = Inl e \<longleftrightarrow> r = Inl e \<or> (\<exists>x. r = Inr x \<and> f x = Inl e)"
  by (cases r) auto

lemma and_then_cong [fundef_cong]:
  "r = r' \<Longrightarrow> (\<And>x. r' = Inr x \<Longrightarrow> f x = g x) \<Longrightarrow> and_then r f = and_then r' g"
  by (cases r') auto

definition is_ok :: "('e, 'a) result \<Rightarrow> bool" where
  "is_ok r = (case r of Inl _ \<Rightarrow> False | Inr _ \<Rightarrow> True)"

lemma is_ok_simps [simp]: "is_ok (Inr x)" "\<not> is_ok (Inl e)"
  by (simp_all add: is_ok_def)

lemma is_ok_iff: "is_ok r \<longleftrightarrow> (\<exists>x. r = Inr x)"
  by (cases r) auto

section \<open>Package strings\<close>

abbreviation byte :: "char \<Rightarrow> nat" where
  "byte c \<equiv> of_char c"

definition is_upper :: "char \<Rightarrow> bool" where
  "is_upper c \<longleftrightarrow> 65 \<le> byte c \<and> byte c \<le> 90"

definition is_lower :: "char \<Rightarrow> bool" where
  "is_lower c \<longleftrightarrow> 97 \<le> byte c \<and> byte c \<le> 122"

definition is_digit :: "char \<Rightarrow> bool" where
  "is_digit c \<longleftrightarrow> 48 \<le> byte c \<and> byte c \<le> 57"

definition lower_char :: "char \<Rightarrow> char" where
  "lower_char c = (if is_upper c then char_of (byte c + 32) else c)"

definition upper_char :: "char \<Rightarrow> char" where
  "upper_char c = (if is_lower c then char_of (byte c - 32) else c)"

definition to_lower :: "string \<Rightarrow> string" where
  "to_lower s = map lower_char s"

definition is_space :: "char \<Rightarrow> bool" where
  "is_space c \<longleftrightarrow> byte c = 32 \<or> 9 \<le> byte c \<and> byte c \<le> 13"

definition trim_space :: "string \<Rightarrow> string" where
  "trim_space s = rev (dropWhile is_space (rev (dropWhile is_space s)))"

definition equal_fold :: "string \<Rightarrow> string \<Rightarrow> bool" where
  "equal_fold s t \<longleftrightarrow> to_lower s = to_lower t"

fun has_prefix :: "string \<Rightarrow> string \<Rightarrow> bool" where
  "has_prefix s [] = True"
| "has_prefix [] (p # ps) = False"
| "has_prefix (c # s) (p # ps) = (c = p \<and> has_prefix s ps)"

fun contains_str :: "string \<Rightarrow> string \<Rightarrow> bool" where
  "contains_str [] sub = (sub = [])"
| "contains_str (c # s) sub = (has_prefix (c # s) sub \<or> contains_str s sub)"

fun join :: "string \<Rightarrow> string list \<Rightarrow> string" where
  "join sep [] = []"
| "join sep [x] = x"
| "join sep (x # y # xs) = x @ sep @ join sep (y # xs)"

subsection \<open>Case\<close>

lemma byte_less [simp]: "byte c < 256"
  using nat_of_char_less_256 by simp

lemma byte_char_of [simp]: "n < 256 \<Longrightarrow> byte (char_of n) = n"
  by simp

lemma byte_inject: "byte c = byte d \<longleftrightarrow> c = d"
  by simp

lemma lower_char_not_upper [simp]: "\<not> is_upper (lower_char c)"
  by (auto simp: lower_char_def is_upper_def)

lemma lower_char_idem [simp]: "lower_char (lower_char c) = lower_char c"
  by (simp add: lower_char_def [of "lower_char c"])

lemma to_lower_idem [simp]: "to_lower (to_lower s) = to_lower s"
  by (simp add: to_lower_def)

lemma to_lower_Nil [simp]: "to_lower [] = []"
  and to_lower_append [simp]: "to_lower (s @ t) = to_lower s @ to_lower t"
  and length_to_lower [simp]: "length (to_lower s) = length s"
  by (simp_all add: to_lower_def)

lemma to_lower_eq_Nil [simp]: "to_lower s = [] \<longleftrightarrow> s = []"
  by (simp add: to_lower_def)

lemma equal_fold_refl [simp]: "equal_fold s s"
  and equal_fold_sym: "equal_fold s t \<Longrightarrow> equal_fold t s"
  and equal_fold_trans: "equal_fold s t \<Longrightarrow> equal_fold t u \<Longrightarrow> equal_fold s u"
  by (simp_all add: equal_fold_def)

lemma equal_fold_to_lower [simp]: "equal_fold (to_lower s) t = equal_fold s t"
  "equal_fold s (to_lower t) = equal_fold s t"
  by (simp_all add: equal_fold_def)

subsection \<open>White space\<close>

lemma trim_space_Nil [simp]: "trim_space [] = []"
  by (simp add: trim_space_def)

lemma trim_space_eq_Nil: "trim_space s = [] \<longleftrightarrow> (\<forall>c \<in> set s. is_space c)"
  unfolding trim_space_def rev_is_Nil_conv dropWhile_eq_Nil_conv set_rev
  by (metis dropWhile_eq_Nil_conv set_dropWhileD hd_dropWhile hd_in_set)

lemma trim_space_id:
  assumes "s \<noteq> [] \<Longrightarrow> \<not> is_space (hd s)" and "s \<noteq> [] \<Longrightarrow> \<not> is_space (last s)"
  shows "trim_space s = s"
proof (cases "s = []")
  case False
  with assms have "dropWhile is_space s = s" and "dropWhile is_space (rev s) = rev s"
    by (simp_all add: dropWhile_eq_self_iff hd_rev)
  then show ?thesis by (simp add: trim_space_def)
qed simp

lemma trim_space_no_space: "\<forall>c \<in> set s. \<not> is_space c \<Longrightarrow> trim_space s = s"
  by (rule trim_space_id) auto

lemma trim_space_ends:
  assumes "trim_space s \<noteq> []"
  shows "\<not> is_space (hd (trim_space s))" and "\<not> is_space (last (trim_space s))"
proof -
  let ?u = "dropWhile is_space s"
  let ?t = "dropWhile is_space (rev ?u)"
  from assms have t: "?t \<noteq> []" by (simp add: trim_space_def)
  then show "\<not> is_space (last (trim_space s))"
    by (simp add: trim_space_def last_rev hd_dropWhile)
  obtain a where "rev ?u = a @ ?t"
    by (metis takeWhile_dropWhile_id)
  then have u: "?u = rev ?t @ rev a"
    by (metis rev_append rev_rev_ident)
  from t have "rev ?t \<noteq> []" by (simp del: dropWhile_eq_Nil_conv)
  then have "hd (rev ?t @ rev a) = hd (rev ?t)" and "rev ?t @ rev a \<noteq> []"
    by (simp_all add: hd_append del: dropWhile_eq_Nil_conv)
  with u have "hd (rev ?t) = hd ?u" and "?u \<noteq> []"
    by metis+
  then show "\<not> is_space (hd (trim_space s))"
    by (simp add: trim_space_def hd_dropWhile)
qed

lemma trim_space_idem [simp]: "trim_space (trim_space s) = trim_space s"
  by (rule trim_space_id) (auto dest: trim_space_ends)

subsection \<open>Substrings\<close>

lemma has_prefix_iff: "has_prefix s p \<longleftrightarrow> prefix p s"
  by (induction s p rule: has_prefix.induct) auto

lemma contains_str_iff: "contains_str s sub \<longleftrightarrow> sublist sub s"
proof (induction s)
  case Nil
  then show ?case by simp
next
  case (Cons c s)
  then show ?case by (simp add: has_prefix_iff sublist_Cons_right)
qed

lemma contains_str_Nil [simp]: "contains_str s []"
  by (simp add: contains_str_iff)

lemma contains_str_self [simp]: "contains_str s s"
  by (simp add: contains_str_iff)

section \<open>Package net/textproto\<close>

text \<open>
  \<open>textproto.CanonicalMIMEHeaderKey\<close>: a name with a byte that is no header-field byte is returned
  unchanged; otherwise the first letter and every letter after a hyphen is upper case, the rest
  lower case.
\<close>

definition valid_header_field_byte :: "char \<Rightarrow> bool" where
  "valid_header_field_byte c \<longleftrightarrow>
     is_upper c \<or> is_lower c \<or> is_digit c \<or> c \<in> set ''!#$%&*+-.^_`|~'' \<or> byte c = 39"

fun canonical_bytes :: "bool \<Rightarrow> string \<Rightarrow> string" where
  "canonical_bytes upper [] = []"
| "canonical_bytes upper (c # s) =
     (if upper then upper_char c else lower_char c) # canonical_bytes (c = CHR ''-'') s"

definition canonical_header_key :: "string \<Rightarrow> string" where
  "canonical_header_key s = (if list_all valid_header_field_byte s then canonical_bytes True s else s)"

lemma upper_char_not_lower [simp]: "\<not> is_lower (upper_char c)"
  by (auto simp: upper_char_def is_lower_def)

lemma upper_char_idem [simp]: "upper_char (upper_char c) = upper_char c"
  by (simp add: upper_char_def [of "upper_char c"])

lemma lower_char_upper_char [simp]: "lower_char (upper_char c) = lower_char c"
  by (auto simp: lower_char_def upper_char_def is_lower_def is_upper_def)

lemma case_char_hyphen [simp]:
  "upper_char c = CHR ''-'' \<longleftrightarrow> c = CHR ''-''" "lower_char c = CHR ''-'' \<longleftrightarrow> c = CHR ''-''"
proof -
  have "byte (CHR ''-'') = 45" by simp
  then show "upper_char c = CHR ''-'' \<longleftrightarrow> c = CHR ''-''" "lower_char c = CHR ''-'' \<longleftrightarrow> c = CHR ''-''"
    unfolding byte_inject [symmetric]
    by (auto simp: upper_char_def lower_char_def is_lower_def is_upper_def)
qed

lemma canonical_bytes_idem [simp]:
  "canonical_bytes b (canonical_bytes b s) = canonical_bytes b s"
  by (induction b s rule: canonical_bytes.induct) auto

lemma to_lower_canonical_bytes [simp]: "to_lower (canonical_bytes b s) = to_lower s"
  by (induction b s rule: canonical_bytes.induct) (auto simp: to_lower_def)

lemma to_lower_canonical_header_key [simp]: "to_lower (canonical_header_key s) = to_lower s"
  by (simp add: canonical_header_key_def)

lemma valid_header_field_byte_case [simp]:
  "valid_header_field_byte c \<Longrightarrow> valid_header_field_byte (upper_char c)"
  "valid_header_field_byte c \<Longrightarrow> valid_header_field_byte (lower_char c)"
  by (auto simp: valid_header_field_byte_def upper_char_def lower_char_def is_lower_def is_upper_def)

lemma canonical_bytes_valid:
  "list_all valid_header_field_byte s \<Longrightarrow> list_all valid_header_field_byte (canonical_bytes b s)"
  by (induction b s rule: canonical_bytes.induct) auto

lemma canonical_header_key_idem [simp]:
  "canonical_header_key (canonical_header_key s) = canonical_header_key s"
  by (auto simp: canonical_header_key_def canonical_bytes_valid)

section \<open>Memo tables\<close>

text \<open>
  The contract of a cache in front of a computation: a call answers what the computation answers and
  keeps the invariant of the table. \<open>run_calls\<close> is a sequence of calls that thread the table.
\<close>

primrec run_calls :: "('k \<Rightarrow> 's \<Rightarrow> 'v \<times> 's) \<Rightarrow> 'k list \<Rightarrow> 's \<Rightarrow> 'v list \<times> 's" where
  "run_calls call [] s = ([], s)"
| "run_calls call (k # ks) s =
     (case call k s of (v, s') \<Rightarrow> (case run_calls call ks s' of (vs, s'') \<Rightarrow> (v # vs, s'')))"

lemma run_calls_Cons:
  "run_calls call (k # ks) s =
     (fst (call k s) # fst (run_calls call ks (snd (call k s))), snd (run_calls call ks (snd (call k s))))"
  by (simp split: prod.splits)

lemma run_calls_append:
  "run_calls call (ks @ ks') s =
     (fst (run_calls call ks s) @ fst (run_calls call ks' (snd (run_calls call ks s))),
      snd (run_calls call ks' (snd (run_calls call ks s))))"
  by (induction ks arbitrary: s) (simp_all add: run_calls_Cons del: run_calls.simps(2))

lemma length_run_calls [simp]: "length (fst (run_calls call ks s)) = length ks"
  by (induction ks arbitrary: s) (simp_all add: run_calls_Cons del: run_calls.simps(2))

locale memo_table =
  fixes call :: "'k \<Rightarrow> 's \<Rightarrow> 'v \<times> 's" and ref :: "'k \<Rightarrow> 'v" and inv :: "'s \<Rightarrow> bool"
  assumes call_ref: "inv s \<Longrightarrow> fst (call k s) = ref k"
    and call_inv: "inv s \<Longrightarrow> inv (snd (call k s))"
begin

lemma call_cases:
  assumes "inv s" obtains s' where "call k s = (ref k, s')" "inv s'"
  using call_ref [OF assms, of k] call_inv [OF assms, of k] that by (cases "call k s") auto

lemma run_calls_ref: "inv s \<Longrightarrow> fst (run_calls call ks s) = map ref ks"
  and run_calls_inv: "inv s \<Longrightarrow> inv (snd (run_calls call ks s))"
proof (induction ks arbitrary: s)
  case (Cons k ks)
  { case 1
    then show ?case by (rule call_cases [of s k]) (simp add: Cons.IH(1) [symmetric] split: prod.splits) }
  { case 2
    then obtain s' where "call k s = (ref k, s')" "inv s'" by (rule call_cases)
    with Cons.IH(2) [of s'] show ?case by (auto split: prod.splits) }
qed simp_all

end

end
