(* ===== verification/Rule_Model.thy ===== *)
theory Rule_Model
  imports Go_Prelude
begin

text \<open>
  The filter-rule data model of \<open>backend/internal/rules/model.go\<close>, the evaluation input and the
  outcome of \<open>engine.go\<close>. A Go pointer to a group is an option; a nil header map is \<open>None\<close>.
\<close>

section \<open>Rules\<close>

datatype match_group =
    MatchGroup (grp_Op: string) (grp_Conditions: "condition list")
and condition =
    Condition (cond_Negate: bool) (cond_Group: "match_group option") (cond_Field: string)
      (cond_Header: string) (cond_Comparator: string) (cond_Value: string)

record action =
  act_Type :: string
  act_Value :: string

record rule_scope =
  scope_Folders :: "string list"

record rule =
  rule_ID :: string
  rule_Name :: string
  rule_Enabled :: bool
  rule_Order :: int
  rule_Scope :: rule_scope
  rule_Match :: match_group
  rule_Actions :: "action list"
  rule_Rev :: int
  rule_CreatedAt :: string
  rule_UpdatedAt :: string

text \<open>A leaf condition, as the composite literals of \<open>sieve.go\<close> build it.\<close>

abbreviation leaf :: "bool \<Rightarrow> string \<Rightarrow> string \<Rightarrow> string \<Rightarrow> string \<Rightarrow> condition" where
  "leaf neg field hdr cmp val \<equiv> Condition neg None field hdr cmp val"

abbreviation group_cond :: "bool \<Rightarrow> match_group \<Rightarrow> condition" where
  "group_cond neg g \<equiv> Condition neg (Some g) [] [] [] []"

section \<open>Messages and outcomes\<close>

record eval_input =
  in_UID :: int
  in_MessageID :: string
  in_From :: string
  in_To :: string
  in_CC :: string
  in_BCC :: string
  in_Subject :: string
  in_Body :: string
  in_Keywords :: "string list"
  in_Folder :: string
  in_Headers :: "(string \<rightharpoonup> string list) option"

record outcome =
  out_Matched :: "string list"
  out_Applied :: "action list"
  out_Stopped :: bool

definition empty_outcome :: outcome where
  "empty_outcome = \<lparr>out_Matched = [], out_Applied = [], out_Stopped = False\<rparr>"

section \<open>Structure of match trees\<close>

text \<open>
  The nesting depth of a group and the number of condition nodes below it, the two quantities the
  validator bounds.
\<close>

fun group_depth :: "match_group \<Rightarrow> nat" and cond_depth :: "condition \<Rightarrow> nat" where
  "group_depth (MatchGroup op cs) = Suc (fold max (map cond_depth cs) 0)"
| "cond_depth (Condition n None f h c v) = 0"
| "cond_depth (Condition n (Some g) f h c v) = group_depth g"

fun group_nodes :: "match_group \<Rightarrow> nat" and cond_nodes :: "condition \<Rightarrow> nat" where
  "group_nodes (MatchGroup op cs) = sum_list (map cond_nodes cs)"
| "cond_nodes (Condition n None f h c v) = 1"
| "cond_nodes (Condition n (Some g) f h c v) = 1 + group_nodes g"

text \<open>Every leaf condition of a tree.\<close>

fun group_leaves :: "match_group \<Rightarrow> condition list" and cond_leaves :: "condition \<Rightarrow> condition list" where
  "group_leaves (MatchGroup op cs) = concat (map cond_leaves cs)"
| "cond_leaves (Condition n None f h c v) = [Condition n None f h c v]"
| "cond_leaves (Condition n (Some g) f h c v) = group_leaves g"

lemma add_fold_max_le:
  "d + fold max xs (a::nat) \<le> b \<longleftrightarrow> d + a \<le> b \<and> (\<forall>x \<in> set xs. d + x \<le> b)"
  by (induction xs arbitrary: a) auto

lemma group_leaves_no_group: "c \<in> set (group_leaves g) \<Longrightarrow> cond_Group c = None"
  and cond_leaves_no_group: "c \<in> set (cond_leaves d) \<Longrightarrow> cond_Group c = None"
  by (induction g and d rule: group_leaves_cond_leaves.induct) auto

end
