(* ===== verification/File_Store.thy ===== *)
theory File_Store
  imports Go_Prelude
begin

text \<open>
  The per-user JSON stores (\<open>rules.json\<close> and its siblings): a process keeps the last content it read,
  re-reads the file under a lock before every operation and writes it back atomically.
  \<open>LoadJSONFile\<close> and \<open>PersistJSONFile\<close> of \<open>backend/internal/fsutil/fsutil.go\<close>.

  The file system's answers are inputs, the record \<open>io\<close>. A JSON file is the value it encodes. A write
  may fail and leave the old file, or replace the file and fail afterwards, when the directory is
  synced.
\<close>

datatype write_outcome = Written | NotWritten | WrittenUnsynced

datatype io_error = LockError | ReadError | WriteError | RandError | StoreFull | RuntimePanic

record io =
  io_lock :: bool
  io_read :: bool
  io_write :: write_outcome
  io_now :: string
  io_uuid :: "string option"

record 'f file_state =
  fs_mem :: 'f
  fs_disk :: "'f option"

text \<open>With a nil \<open>onMissing\<close>: a missing file leaves the content in memory as it is.\<close>

definition refreshFromDisk :: "io \<Rightarrow> 'f file_state \<Rightarrow> (io_error, 'f file_state) result" where
  "refreshFromDisk i s =
     (if \<not> io_read i then Inl ReadError
      else Inr (case fs_disk s of None \<Rightarrow> s | Some f \<Rightarrow> s\<lparr>fs_mem := f\<rparr>))"

definition persist :: "io \<Rightarrow> 'f file_state \<Rightarrow> io_error option \<times> 'f file_state" where
  "persist i s =
     (case io_write i of
        Written \<Rightarrow> (None, s\<lparr>fs_disk := Some (fs_mem s)\<rparr>)
      | NotWritten \<Rightarrow> (Some WriteError, s)
      | WrittenUnsynced \<Rightarrow> (Some WriteError, s\<lparr>fs_disk := Some (fs_mem s)\<rparr>))"

text \<open>
  The shape of every mutation: lock, refresh, change the content in memory, and, unless there is nothing
  to save, persist it.
\<close>

definition mutate ::
  "io \<Rightarrow> ('f \<Rightarrow> (io_error, 'r) result \<times> 'f \<times> bool) \<Rightarrow> 'f file_state \<Rightarrow> (io_error, 'r) result \<times> 'f file_state" where
  "mutate i body s =
     (if \<not> io_lock i then (Inl LockError, s)
      else
        (case refreshFromDisk i s of
           Inl e \<Rightarrow> (Inl e, s)
         | Inr s1 \<Rightarrow>
             (case body (fs_mem s1) of
                (r, f, save) \<Rightarrow>
                  (let s2 = s1\<lparr>fs_mem := f\<rparr> in
                   if \<not> save then (r, s2)
                   else (case persist i s2 of (None, s3) \<Rightarrow> (r, s3) | (Some e, s3) \<Rightarrow> (Inl e, s3))))))"

text \<open>The content an operation works on, and the states it can leave.\<close>

definition current :: "'f file_state \<Rightarrow> 'f" where
  "current s = (case fs_disk s of None \<Rightarrow> fs_mem s | Some f \<Rightarrow> f)"

lemma refreshFromDisk_current: "refreshFromDisk i s = (if io_read i then Inr (s\<lparr>fs_mem := current s\<rparr>) else Inl ReadError)"
  by (auto simp: refreshFromDisk_def current_def split: option.splits)

lemma current_refreshed [simp]: "current (s\<lparr>fs_mem := current s\<rparr>) = current s"
  by (simp add: current_def split: option.splits)

lemma mutate_states:
  "snd (mutate i body s) = s \<or>
   fs_mem (snd (mutate i body s)) = fst (snd (body (current s))) \<and>
     (fs_disk (snd (mutate i body s)) = fs_disk s \<or> fs_disk (snd (mutate i body s)) = Some (fst (snd (body (current s)))))"
  by (auto simp: mutate_def refreshFromDisk_current persist_def Let_def split: prod.splits write_outcome.splits)

lemma mutate_state_cong:
  assumes "\<And>f. snd (b1 f) = snd (b2 f)"
  shows "snd (mutate i b1 s) = snd (mutate i b2 s)"
  using assms [of "current s"]
  by (cases "b1 (current s)"; cases "b2 (current s)")
    (auto simp: mutate_def refreshFromDisk_current persist_def Let_def split: write_outcome.splits)

section \<open>Contents that stay well formed\<close>

definition file_inv :: "('f \<Rightarrow> bool) \<Rightarrow> 'f file_state \<Rightarrow> bool" where
  "file_inv ok s \<longleftrightarrow> ok (fs_mem s) \<and> (\<forall>f. fs_disk s = Some f \<longrightarrow> ok f)"

lemma file_inv_current: "file_inv P s \<Longrightarrow> P (current s)"
  by (simp add: file_inv_def current_def split: option.splits)

text \<open>
  The contract of a store's operations on its content: each keeps the invariant, where the random
  identifier it draws is acceptable. Then every mutation keeps it in memory and on disk, whatever the
  file system does.
\<close>

locale file_store =
  fixes body :: "io \<Rightarrow> 'op \<Rightarrow> 'f \<Rightarrow> (io_error, 'r) result \<times> 'f \<times> bool"
    and inv :: "'f \<Rightarrow> bool" and draw_ok :: "io \<Rightarrow> 'op \<Rightarrow> 'f \<Rightarrow> bool"
  assumes body_inv: "inv f \<Longrightarrow> draw_ok i op f \<Longrightarrow> inv (fst (snd (body i op f)))"
begin

lemma mutate_inv:
  assumes inv: "file_inv inv s" and draw: "draw_ok i op (current s)"
  shows "file_inv inv (snd (mutate i (body i op) s))"
proof -
  have "inv (current s)" using inv by (rule file_inv_current)
  with draw have "inv (fst (snd (body i op (current s))))" by (intro body_inv)
  with inv mutate_states [of i "body i op" s] show ?thesis by (auto simp: file_inv_def)
qed

end

text \<open>A mutation that reports success has saved what it left in memory.\<close>

lemma mutate_Inr:
  assumes "mutate i body s = (Inr r, s')"
  obtains save where "body (current s) = (Inr r, fs_mem s', save)"
    "save \<Longrightarrow> fs_disk s' = Some (fs_mem s')" "\<not> save \<Longrightarrow> fs_disk s' = fs_disk s"
  using assms that
  by (cases "body (current s)")
    (auto simp: mutate_def refreshFromDisk_current persist_def Let_def split: if_splits write_outcome.splits option.splits)

end
