(* ===== verification/Rule_Store.thy ===== *)
theory Rule_Store
  imports Rule_Model File_Store "HOL-Library.Multiset"
begin

text \<open>
  One user's rule list, \<open>backend/internal/rules/store.go\<close>, on the file store of \<open>File_Store\<close>.

  \<open>sort.Slice\<close> is not stable: the order of rules with equal \<open>Order\<close> is not specified, so the sort is a
  parameter of \<open>List\<close>, any function that \<open>sorts_by_order\<close>. The random identifier of \<open>NewUUIDv4\<close> and the
  formatted time are inputs of each call.
\<close>

section \<open>State\<close>

record rules_file =
  rf_Rules :: "rule list"
  rf_Seq :: int

type_synonym rule_store = "rules_file file_state"

definition sorts_by_order :: "(rule list \<Rightarrow> rule list) \<Rightarrow> bool" where
  "sorts_by_order srt \<longleftrightarrow> (\<forall>xs. mset (srt xs) = mset xs \<and> sorted (map rule_Order (srt xs)))"

section \<open>Reading\<close>

definition List_rules :: "(rule list \<Rightarrow> rule list) \<Rightarrow> io \<Rightarrow> rule_store \<Rightarrow> (io_error, rule list) result \<times> rule_store" where
  "List_rules srt i s =
     (case refreshFromDisk i s of
        Inl e \<Rightarrow> (Inl e, s)
      | Inr s' \<Rightarrow> (Inr (srt (rf_Rules (fs_mem s'))), s'))"

definition Get_rule :: "string \<Rightarrow> io \<Rightarrow> rule_store \<Rightarrow> (io_error, rule option) result \<times> rule_store" where
  "Get_rule ident i s =
     (case refreshFromDisk i s of
        Inl e \<Rightarrow> (Inl e, s)
      | Inr s' \<Rightarrow> (Inr (find (\<lambda>r. rule_ID r = ident) (rf_Rules (fs_mem s'))), s'))"

section \<open>Writing\<close>

text \<open>The loop that replaces the first rule with the identifier, \<open>None\<close> when there is none.\<close>

fun replace_rule :: "rule \<Rightarrow> rule list \<Rightarrow> (rule \<times> rule list) option" where
  "replace_rule r [] = None"
| "replace_rule r (x # xs) =
     (if rule_ID x = rule_ID r then
        (let r' = (if rule_CreatedAt r = [] then r\<lparr>rule_CreatedAt := rule_CreatedAt x\<rparr> else r) in Some (r', r' # xs))
      else map_option (\<lambda>(r', ys). (r', x # ys)) (replace_rule r xs))"

definition upsert_body :: "rule \<Rightarrow> io \<Rightarrow> rules_file \<Rightarrow> (io_error, rule) result \<times> rules_file \<times> bool" where
  "upsert_body r0 i f0 =
     (let f = f0\<lparr>rf_Seq := rf_Seq f0 + 1\<rparr>;
          r = r0\<lparr>rule_Rev := rf_Seq f, rule_UpdatedAt := io_now i\<rparr>;
          add = (\<lambda>r. (Inr r, f\<lparr>rf_Rules := rf_Rules f @ [r]\<rparr>, True)) in
      if rule_ID r = [] then
        (case io_uuid i of
           None \<Rightarrow> (Inl RandError, f, False)
         | Some ident \<Rightarrow>
             add (r\<lparr>rule_ID := ident, rule_CreatedAt := io_now i,
                    rule_Order := (if rule_Order r = 0 then int (length (rf_Rules f)) else rule_Order r)\<rparr>))
      else
        (case replace_rule r (rf_Rules f) of
           Some (r', rs) \<Rightarrow> (Inr r', f\<lparr>rf_Rules := rs\<rparr>, True)
         | None \<Rightarrow> add (r\<lparr>rule_CreatedAt := io_now i\<rparr>)))"

definition Upsert :: "rule \<Rightarrow> io \<Rightarrow> rule_store \<Rightarrow> (io_error, rule) result \<times> rule_store" where
  "Upsert r i s = mutate i (upsert_body r i) s"

fun delete_first :: "string \<Rightarrow> rule list \<Rightarrow> rule list option" where
  "delete_first ident [] = None"
| "delete_first ident (r # rs) =
     (if rule_ID r \<noteq> ident then map_option (Cons r) (delete_first ident rs) else Some rs)"

definition delete_body :: "string \<Rightarrow> rules_file \<Rightarrow> (io_error, bool) result \<times> rules_file \<times> bool" where
  "delete_body ident f =
     (case delete_first ident (rf_Rules f) of
        Some rs \<Rightarrow> (Inr True, f\<lparr>rf_Rules := rs\<rparr>, True)
      | None \<Rightarrow> (Inr False, f, False))"

definition Delete_rule :: "string \<Rightarrow> io \<Rightarrow> rule_store \<Rightarrow> (io_error, bool) result \<times> rule_store" where
  "Delete_rule ident i s = mutate i (delete_body ident) s"

text \<open>The map \<open>position\<close>: the last index at which an identifier is named.\<close>

definition position :: "string list \<Rightarrow> string \<rightharpoonup> nat" where
  "position ids = fold (\<lambda>(i, ident) p. p(ident \<mapsto> i)) (enumerate 0 ids) Map.empty"

fun reorder_rules :: "(string \<rightharpoonup> nat) \<Rightarrow> string \<Rightarrow> int \<Rightarrow> rule list \<Rightarrow> int \<times> rule list" where
  "reorder_rules pos now seq [] = (seq, [])"
| "reorder_rules pos now seq (r # rs) =
     (case pos (rule_ID r) of
        None \<Rightarrow> (case reorder_rules pos now seq rs of (seq', rs') \<Rightarrow> (seq', r # rs'))
      | Some p \<Rightarrow>
          (case reorder_rules pos now (seq + 1) rs of
             (seq', rs') \<Rightarrow>
               (seq', r\<lparr>rule_Order := int p, rule_Rev := seq + 1, rule_UpdatedAt := now\<rparr> # rs')))"

definition reorder_body :: "string list \<Rightarrow> io \<Rightarrow> rules_file \<Rightarrow> (io_error, unit) result \<times> rules_file \<times> bool" where
  "reorder_body ids i f =
     (case reorder_rules (position ids) (io_now i) (rf_Seq f) (rf_Rules f) of
        (seq, rs) \<Rightarrow> (Inr (), \<lparr>rf_Rules = rs, rf_Seq = seq\<rparr>, True))"

definition Reorder :: "string list \<Rightarrow> io \<Rightarrow> rule_store \<Rightarrow> (io_error, unit) result \<times> rule_store" where
  "Reorder ids i s = mutate i (reorder_body ids i) s"

section \<open>Well-formed files\<close>

text \<open>
  Identifiers are distinct and non-empty, and no revision is ahead of the file's sequence number.
  \<open>P\<close> is a further property every stored rule has, which may depend on a rule's name, match tree and
  actions only.
\<close>

definition content :: "rule \<Rightarrow> string \<times> match_group \<times> action list" where
  "content r = (rule_Name r, rule_Match r, rule_Actions r)"

definition rules_ok :: "(string \<times> match_group \<times> action list \<Rightarrow> bool) \<Rightarrow> rules_file \<Rightarrow> bool" where
  "rules_ok P f \<longleftrightarrow>
     distinct (map rule_ID (rf_Rules f)) \<and> [] \<notin> set (map rule_ID (rf_Rules f)) \<and>
     (\<forall>r \<in> set (rf_Rules f). rule_Rev r \<le> rf_Seq f \<and> P (content r))"

datatype rule_op = UpsertOp rule | DeleteOp string | ReorderOp "string list"

definition rule_body :: "io \<Rightarrow> rule_op \<Rightarrow> rules_file \<Rightarrow> (io_error, unit) result \<times> rules_file \<times> bool" where
  "rule_body i op f =
     (case op of
        UpsertOp r \<Rightarrow> (case upsert_body r i f of (res, f', save) \<Rightarrow> (map_sum id (\<lambda>_. ()) res, f', save))
      | DeleteOp ident \<Rightarrow> (case delete_body ident f of (res, f', save) \<Rightarrow> (map_sum id (\<lambda>_. ()) res, f', save))
      | ReorderOp ids \<Rightarrow> reorder_body ids i f)"

text \<open>A new rule's identifier is fresh, and what is written has the property.\<close>

definition write_ok :: "(string \<times> match_group \<times> action list \<Rightarrow> bool) \<Rightarrow> io \<Rightarrow> rule_op \<Rightarrow> rules_file \<Rightarrow> bool" where
  "write_ok P i op f \<longleftrightarrow>
     (case op of
        UpsertOp r \<Rightarrow> P (content r) \<and>
          (rule_ID r = [] \<longrightarrow> (\<forall>ident. io_uuid i = Some ident \<longrightarrow> ident \<noteq> [] \<and> ident \<notin> set (map rule_ID (rf_Rules f))))
      | _ \<Rightarrow> True)"

lemma replace_rule_Some:
  assumes "replace_rule r xs = Some (r', ys)"
  obtains us x vs where "xs = us @ x # vs" "ys = us @ r' # vs" "rule_ID x = rule_ID r"
    "rule_ID r \<notin> set (map rule_ID us)" "rule_ID r' = rule_ID r" "content r' = content r" "rule_Rev r' = rule_Rev r"
proof -
  have "\<exists>us x vs. xs = us @ x # vs \<and> ys = us @ r' # vs \<and> rule_ID x = rule_ID r \<and> rule_ID r \<notin> set (map rule_ID us) \<and>
      rule_ID r' = rule_ID r \<and> content r' = content r \<and> rule_Rev r' = rule_Rev r"
    using assms
  proof (induction xs arbitrary: ys)
    case (Cons x xs)
    show ?case
    proof (cases "rule_ID x = rule_ID r")
      case True
      with Cons.prems show ?thesis
        by (intro exI [of _ "[]"] exI [of _ x] exI [of _ xs]) (auto simp: Let_def content_def split: if_splits)
    next
      case False
      with Cons.prems obtain zs where zs: "replace_rule r xs = Some (r', zs)" "ys = x # zs" by auto
      with Cons.IH obtain us x' vs where "xs = us @ x' # vs" "zs = us @ r' # vs" "rule_ID x' = rule_ID r"
        "rule_ID r \<notin> set (map rule_ID us)" "rule_ID r' = rule_ID r" "content r' = content r" "rule_Rev r' = rule_Rev r"
        by blast
      with zs(2) False show ?thesis by (intro exI [of _ "x # us"] exI [of _ x'] exI [of _ vs]) simp
    qed
  qed simp
  with that show thesis by blast
qed

lemma replace_rule_None: "replace_rule r xs = None \<longleftrightarrow> rule_ID r \<notin> set (map rule_ID xs)"
  by (induction xs) (auto simp: Let_def)

lemma delete_first_Some:
  "delete_first ident xs = Some ys \<Longrightarrow> distinct (map rule_ID xs) \<Longrightarrow> ys = filter (\<lambda>r. rule_ID r \<noteq> ident) xs"
proof (induction xs arbitrary: ys)
  case (Cons x xs)
  show ?case
  proof (cases "rule_ID x = ident")
    case True
    with Cons.prems have "ys = xs" "ident \<notin> rule_ID ` set xs" by simp_all
    then have "\<forall>r \<in> set xs. rule_ID r \<noteq> ident" by (metis imageI)
    with True \<open>ys = xs\<close> show ?thesis by simp
  next
    case False
    with Cons show ?thesis by auto
  qed
qed simp

lemma delete_first_None: "delete_first ident xs = None \<longleftrightarrow> ident \<notin> set (map rule_ID xs)"
  by (induction xs) auto

lemma reorder_rules_keeps:
  "map rule_ID (snd (reorder_rules pos now seq rs)) = map rule_ID rs"
  "map content (snd (reorder_rules pos now seq rs)) = map content rs"
  by (induction rs arbitrary: seq) (simp_all add: case_prod_unfold content_def split: option.split)

lemma reorder_rules_seq: "seq \<le> fst (reorder_rules pos now seq rs)"
proof (induction rs arbitrary: seq)
  case (Cons r rs)
  from Cons [of seq] Cons [of "seq + 1"] show ?case by (simp add: case_prod_unfold split: option.split)
qed simp

lemma reorder_rules_rev:
  "\<forall>r \<in> set rs. rule_Rev r \<le> seq \<Longrightarrow> r \<in> set (snd (reorder_rules pos now seq rs)) \<Longrightarrow>
     rule_Rev r \<le> fst (reorder_rules pos now seq rs)"
proof (induction rs arbitrary: seq)
  case (Cons x rs)
  have rs: "\<forall>r \<in> set rs. rule_Rev r \<le> seq" "\<forall>r \<in> set rs. rule_Rev r \<le> seq + 1" using Cons.prems(1) by force+
  show ?case
  proof (cases "pos (rule_ID x)")
    case None
    have "rule_Rev x \<le> fst (reorder_rules pos now seq rs)"
      using Cons.prems(1) reorder_rules_seq [of seq pos now rs] by simp
    with None Cons.prems(2) Cons.IH [OF rs(1)] show ?thesis by (auto simp: case_prod_unfold)
  next
    case (Some p)
    with Cons.prems(2) Cons.IH [OF rs(2)] reorder_rules_seq [of "seq + 1" pos now rs] show ?thesis
      by (auto simp: case_prod_unfold)
  qed
qed simp


lemma find_append: "find P (xs @ ys) = (case find P xs of None \<Rightarrow> find P ys | Some x \<Rightarrow> Some x)"
  by (induction xs) auto

lemma find_ID_None: "find (\<lambda>r. rule_ID r = ident) rs = None \<longleftrightarrow> ident \<notin> set (map rule_ID rs)"
  by (auto simp: find_None_iff)

text \<open>What an upsert does to a well-formed file.\<close>

definition upserted :: "rule \<Rightarrow> rules_file \<Rightarrow> rule \<Rightarrow> rules_file \<Rightarrow> bool" where
  "upserted r f r' f' \<longleftrightarrow>
     find (\<lambda>x. rule_ID x = rule_ID r') (rf_Rules f') = Some r' \<and>
     (\<forall>ident. ident \<noteq> rule_ID r' \<longrightarrow>
        find (\<lambda>x. rule_ID x = ident) (rf_Rules f') = find (\<lambda>x. rule_ID x = ident) (rf_Rules f)) \<and>
     content r' = content r \<and> (rule_ID r \<noteq> [] \<longrightarrow> rule_ID r' = rule_ID r) \<and>
     rule_Rev r' = rf_Seq f + 1 \<and> rf_Seq f' = rf_Seq f + 1"

lemma add_rule_ok:
  assumes "rules_ok P f" and "rule_ID r \<noteq> []" "rule_ID r \<notin> set (map rule_ID (rf_Rules f))" "P (content r)"
    and "rule_Rev r = rf_Seq f + 1"
  shows "rules_ok P \<lparr>rf_Rules = rf_Rules f @ [r], rf_Seq = rf_Seq f + 1\<rparr>"
    and "find (\<lambda>x. rule_ID x = rule_ID r) (rf_Rules f @ [r]) = Some r"
    and "ident \<noteq> rule_ID r \<Longrightarrow> find (\<lambda>x. rule_ID x = ident) (rf_Rules f @ [r]) = find (\<lambda>x. rule_ID x = ident) (rf_Rules f)"
proof -
  have "\<forall>x \<in> set (rf_Rules f). rule_Rev x \<le> rf_Seq f + 1 \<and> P (content x)" using assms(1) by (force simp: rules_ok_def)
  with assms show "rules_ok P \<lparr>rf_Rules = rf_Rules f @ [r], rf_Seq = rf_Seq f + 1\<rparr>" by (simp add: rules_ok_def)
  from assms(3) have "find (\<lambda>x. rule_ID x = rule_ID r) (rf_Rules f) = None" by (simp add: find_ID_None)
  then show "find (\<lambda>x. rule_ID x = rule_ID r) (rf_Rules f @ [r]) = Some r" by (simp add: find_append)
  show "ident \<noteq> rule_ID r \<Longrightarrow> find (\<lambda>x. rule_ID x = ident) (rf_Rules f @ [r]) = find (\<lambda>x. rule_ID x = ident) (rf_Rules f)"
    by (simp add: find_append split: option.split)
qed

lemma replace_rule_ok:
  assumes "rules_ok P f" and "replace_rule r (rf_Rules f) = Some (r', rs)" "P (content r)" "rule_Rev r = rf_Seq f + 1"
  shows "rules_ok P \<lparr>rf_Rules = rs, rf_Seq = rf_Seq f + 1\<rparr>"
    and "find (\<lambda>x. rule_ID x = rule_ID r') rs = Some r'"
    and "ident \<noteq> rule_ID r' \<Longrightarrow> find (\<lambda>x. rule_ID x = ident) rs = find (\<lambda>x. rule_ID x = ident) (rf_Rules f)"
    and "rule_ID r' = rule_ID r" "content r' = content r" "rule_Rev r' = rf_Seq f + 1"
proof -
  obtain us x vs where x: "rf_Rules f = us @ x # vs" "rs = us @ r' # vs" "rule_ID x = rule_ID r"
    "rule_ID r \<notin> set (map rule_ID us)" "rule_ID r' = rule_ID r" "content r' = content r" "rule_Rev r' = rule_Rev r"
    using assms(2) by (rule replace_rule_Some)
  have ids: "map rule_ID rs = map rule_ID (rf_Rules f)" using x by simp
  have "\<forall>y \<in> set rs. rule_Rev y \<le> rf_Seq f + 1 \<and> P (content y)"
  proof
    fix y assume "y \<in> set rs"
    then consider "y = r'" | "y \<in> set (rf_Rules f)" using x(1,2) by auto
    then show "rule_Rev y \<le> rf_Seq f + 1 \<and> P (content y)"
      using assms x(6,7) by cases (auto simp: rules_ok_def)
  qed
  with assms(1) ids show "rules_ok P \<lparr>rf_Rules = rs, rf_Seq = rf_Seq f + 1\<rparr>" by (simp add: rules_ok_def del: set_map)
  from x(4) have "find (\<lambda>y. rule_ID y = rule_ID r) us = None" by (simp add: find_ID_None)
  with x show "find (\<lambda>x. rule_ID x = rule_ID r') rs = Some r'" by (simp add: find_append)
  from x show "ident \<noteq> rule_ID r' \<Longrightarrow> find (\<lambda>x. rule_ID x = ident) rs = find (\<lambda>x. rule_ID x = ident) (rf_Rules f)"
    by (simp add: find_append split: option.split)
  from x assms(4) show "rule_ID r' = rule_ID r" "content r' = content r" "rule_Rev r' = rf_Seq f + 1" by simp_all
qed

lemma upsert_body_ok:
  assumes ok: "rules_ok P f" and w: "write_ok P i (UpsertOp r) f"
  shows "rules_ok P (fst (snd (upsert_body r i f)))"
    and "upsert_body r i f = (Inr r', f', save) \<Longrightarrow> save \<and> upserted r f r' f'"
proof -
  let ?r = "r\<lparr>rule_Rev := rf_Seq f + 1, rule_UpdatedAt := io_now i\<rparr>"
  have "rules_ok P (fst (snd (upsert_body r i f))) \<and>
    (upsert_body r i f = (Inr r', f', save) \<longrightarrow> save \<and> upserted r f r' f')"
  proof (cases "rule_ID r = []")
    case new: True
    show ?thesis
    proof (cases "io_uuid i")
      case None
      with new ok show ?thesis by (force simp: upsert_body_def Let_def rules_ok_def)
    next
      case (Some ident)
      let ?n = "?r\<lparr>rule_ID := ident, rule_CreatedAt := io_now i,
        rule_Order := (if rule_Order r = 0 then int (length (rf_Rules f)) else rule_Order r)\<rparr>"
      have n: "rule_ID ?n \<noteq> []" "rule_ID ?n \<notin> set (map rule_ID (rf_Rules f))" "P (content ?n)" "rule_Rev ?n = rf_Seq f + 1"
        "content ?n = content r"
        using w new Some by (simp_all add: write_ok_def content_def)
      have "upsert_body r i f = (Inr ?n, \<lparr>rf_Rules = rf_Rules f @ [?n], rf_Seq = rf_Seq f + 1\<rparr>, True)"
        using new Some by (simp add: upsert_body_def Let_def)
      with add_rule_ok [OF ok n(1-4)] n new show ?thesis by (auto simp: upserted_def)
    qed
  next
    case old: False
    show ?thesis
    proof (cases "replace_rule ?r (rf_Rules f)")
      case None
      let ?n = "?r\<lparr>rule_CreatedAt := io_now i\<rparr>"
      have n: "rule_ID ?n \<noteq> []" "rule_ID ?n \<notin> set (map rule_ID (rf_Rules f))" "P (content ?n)" "rule_Rev ?n = rf_Seq f + 1"
        "content ?n = content r"
        using w old None by (simp_all add: write_ok_def content_def replace_rule_None)
      have "upsert_body r i f = (Inr ?n, \<lparr>rf_Rules = rf_Rules f @ [?n], rf_Seq = rf_Seq f + 1\<rparr>, True)"
        using old None by (simp add: upsert_body_def Let_def)
      with add_rule_ok [OF ok n(1-4)] n show ?thesis by (auto simp: upserted_def)
    next
      case (Some p)
      then obtain r1 rs where p: "replace_rule ?r (rf_Rules f) = Some (r1, rs)" by (cases p) auto
      have c: "P (content ?r)" "content ?r = content r" using w by (simp_all add: write_ok_def content_def)
      have "upsert_body r i f = (Inr r1, \<lparr>rf_Rules = rs, rf_Seq = rf_Seq f + 1\<rparr>, True)"
        using old p by (simp add: upsert_body_def Let_def)
      with replace_rule_ok [OF ok p c(1)] c(2) show ?thesis by (auto simp: upserted_def)
    qed
  qed
  then show "rules_ok P (fst (snd (upsert_body r i f)))"
    and "upsert_body r i f = (Inr r', f', save) \<Longrightarrow> save \<and> upserted r f r' f'" by simp_all
qed

lemma delete_body_ok: "rules_ok P f \<Longrightarrow> rules_ok P (fst (snd (delete_body ident f)))"
  by (auto simp: rules_ok_def delete_body_def distinct_map_filter dest: delete_first_Some split: option.splits)

lemma reorder_body_ok:
  assumes "rules_ok P f" shows "rules_ok P (fst (snd (reorder_body ids i f)))"
proof -
  let ?x = "reorder_rules (position ids) (io_now i) (rf_Seq f) (rf_Rules f)"
  have "content ` set (snd ?x) = content ` set (rf_Rules f)"
    using reorder_rules_keeps(2) [of "position ids" "io_now i" "rf_Seq f" "rf_Rules f"] by (metis list.set_map)
  with assms have "\<forall>r \<in> set (snd ?x). P (content r)" by (metis (no_types, lifting) image_iff rules_ok_def)
  moreover have "\<forall>r \<in> set (snd ?x). rule_Rev r \<le> fst ?x"
    using reorder_rules_rev [of "rf_Rules f" "rf_Seq f"] assms by (simp add: rules_ok_def)
  ultimately show ?thesis
    using assms reorder_rules_keeps(1) [of "position ids" "io_now i" "rf_Seq f" "rf_Rules f"]
    by (simp add: rules_ok_def reorder_body_def case_prod_unfold del: set_map)
qed

interpretation rule_file: file_store rule_body "rules_ok P" "write_ok P" for P
proof
  fix f i op
  assume "rules_ok P f" "write_ok P i op f"
  then show "rules_ok P (fst (snd (rule_body i op f)))"
    using upsert_body_ok(1) [of P f i] delete_body_ok [of P f] reorder_body_ok [of P f]
    by (cases op) (simp_all add: rule_body_def case_prod_unfold)
qed


lemma Upsert_state: "snd (Upsert r i s) = snd (mutate i (rule_body i (UpsertOp r)) s)"
  and Delete_state: "snd (Delete_rule ident i s) = snd (mutate i (rule_body i (DeleteOp ident)) s)"
  and Reorder_state: "snd (Reorder ids i s) = snd (mutate i (rule_body i (ReorderOp ids)) s)"
  unfolding Upsert_def Delete_rule_def Reorder_def
  by (rule mutate_state_cong; simp add: rule_body_def case_prod_unfold)+

section \<open>Properties\<close>

text \<open>
  A saved rule is what is read back. After an \<open>Upsert\<close> that reports success, \<open>Get\<close> of the rule's
  identifier returns exactly the rule that was returned, with a revision newer than every other's;
  every other identifier reads as before; and the name, match tree and actions are the ones given.
\<close>

theorem upsert_then_get:
  assumes "file_inv (rules_ok (\<lambda>_. True)) s" and "write_ok (\<lambda>_. True) i (UpsertOp r) (current s)"
    and "Upsert r i s = (Inr r', s')" and "io_read i'"
  shows "fst (Get_rule (rule_ID r') i' s') = Inr (Some r') \<and> content r' = content r \<and>
         (\<forall>x \<in> set (rf_Rules (current s)). rule_Rev x < rule_Rev r') \<and>
         (\<forall>ident. ident \<noteq> rule_ID r' \<longrightarrow> fst (Get_rule ident i' s') = fst (Get_rule ident i' s))"
proof -
  have ok: "rules_ok (\<lambda>_. True) (current s)" using assms(1) by (simp add: file_inv_def current_def split: option.splits)
  obtain save where b: "upsert_body r i (current s) = (Inr r', fs_mem s', save)"
    and d: "save \<Longrightarrow> fs_disk s' = Some (fs_mem s')"
    using assms(3) unfolding Upsert_def by (rule mutate_Inr) blast
  have u: "save" "upserted r (current s) r' (fs_mem s')" using upsert_body_ok(2) [OF ok assms(2) b] by simp_all
  have "current s' = fs_mem s'" using d u(1) by (simp add: current_def)
  moreover have "rule_Rev x < rule_Rev r'" if "x \<in> set (rf_Rules (current s))" for x
    using ok u(2) that by (force simp: rules_ok_def upserted_def)
  ultimately show ?thesis
    using u(2) assms(4) by (auto simp: Get_rule_def refreshFromDisk_current upserted_def)
qed

definition good_io :: "string \<Rightarrow> io" where
  "good_io ident = \<lparr>io_lock = True, io_read = True, io_write = Written, io_now = ''2024-01-01T00:00:00Z'', io_uuid = Some ident\<rparr>"

definition empty_store :: rule_store where
  "empty_store = \<lparr>fs_mem = \<lparr>rf_Rules = [], rf_Seq = 0\<rparr>, fs_disk = Some \<lparr>rf_Rules = [], rf_Seq = 0\<rparr>\<rparr>"

definition blank_rule :: rule where
  "blank_rule = \<lparr>rule_ID = [], rule_Name = ''Inbox'', rule_Enabled = True, rule_Order = 0, rule_Scope = \<lparr>scope_Folders = []\<rparr>,
     rule_Match = MatchGroup ''allof'' [], rule_Actions = [], rule_Rev = 0, rule_CreatedAt = [], rule_UpdatedAt = []\<rparr>"

theorem upsert_then_get_witness:
  "\<exists>r'. fst (Upsert blank_rule (good_io ''u1'') empty_store) = Inr r' \<and>
     fst (Get_rule ''u1'' (good_io []) (snd (Upsert blank_rule (good_io ''u1'') empty_store))) = Inr (Some r')"
proof -
  have ok: "file_inv (rules_ok (\<lambda>_. True)) empty_store" by (simp add: file_inv_def rules_ok_def empty_store_def)
  have w: "write_ok (\<lambda>_. True) (good_io ''u1'') (UpsertOp blank_rule) (current empty_store)"
    by (simp add: write_ok_def good_io_def current_def empty_store_def)
  obtain r' s' where u: "Upsert blank_rule (good_io ''u1'') empty_store = (Inr r', s')" and ident: "rule_ID r' = ''u1''"
    by (simp add: Upsert_def mutate_def refreshFromDisk_def good_io_def empty_store_def upsert_body_def blank_rule_def
        persist_def Let_def)
  have "io_read (good_io [])" by (simp add: good_io_def)
  from upsert_then_get [OF ok w u this] ident u show ?thesis by simp
qed

end
