(* ===== verification/Sieve_Lex.thy ===== *)
theory Sieve_Lex
  imports Go_Prelude
begin

text \<open>
  The lexer of \<open>backend/internal/rules/sieve.go\<close>. Its state, the rune buffer with a position and a
  line counter, is the remaining text and the line. The source reads runes; every character it
  distinguishes is ASCII, and a byte of a longer UTF-8 sequence falls in the same branches as its rune
  (copied inside strings and comments, an unexpected character elsewhere).
\<close>

datatype tok_kind =
  TokWord | TokString | TokLBracket | TokRBracket | TokLParen | TokRParen | TokLBrace | TokRBrace
| TokSemicolon | TokComma | TokColonTag | TokEOF

record token =
  tok_kind :: tok_kind
  tok_text :: string
  tok_line :: nat

datatype lex_error = UnterminatedString nat | UnterminatedBlockComment nat | UnexpectedCharacter nat char

abbreviation tok :: "tok_kind \<Rightarrow> string \<Rightarrow> nat \<Rightarrow> token" where
  "tok k t l \<equiv> \<lparr>tok_kind = k, tok_text = t, tok_line = l\<rparr>"

abbreviation newline :: char where "newline \<equiv> CHR 0x0A"
abbreviation dquote :: char where "dquote \<equiv> CHR 0x22"
abbreviation backslash :: char where "backslash \<equiv> CHR 0x5C"

definition isWordRune :: "char \<Rightarrow> bool" where
  "isWordRune r \<longleftrightarrow> r = CHR ''_'' \<or> is_lower r \<or> is_upper r \<or> is_digit r"

text \<open>The line after the rune \<open>r\<close> is consumed (\<open>advance\<close>).\<close>

definition after :: "char \<Rightarrow> nat \<Rightarrow> nat" where
  "after r line = (if r = newline then Suc line else line)"

section \<open>White space and comments\<close>

fun skip_line :: "string \<Rightarrow> nat \<Rightarrow> string \<times> nat" where
  "skip_line [] line = ([], line)"
| "skip_line (c # s) line = (if c = newline then (s, Suc line) else skip_line s line)"

fun skip_block :: "string \<Rightarrow> nat \<Rightarrow> (string \<times> nat) option" where
  "skip_block [] line = None"
| "skip_block (c # s) line =
     (if c = CHR ''*'' \<and> s \<noteq> [] \<and> hd s = CHR ''/'' then Some (tl s, line)
      else skip_block s (after c line))"

lemma length_skip_line: "length (fst (skip_line s line)) \<le> length s"
  by (induction s line rule: skip_line.induct) auto

lemma length_skip_block: "skip_block s line = Some (s', line') \<Longrightarrow> length s' < length s"
  by (induction s line rule: skip_block.induct) (auto split: if_splits)

function skipWhitespaceAndComments :: "string \<Rightarrow> nat \<Rightarrow> (lex_error, string \<times> nat) result" where
  "skipWhitespaceAndComments [] line = Inr ([], line)"
| "skipWhitespaceAndComments (r # s) line =
     (if r = CHR '' '' \<or> r = CHR 0x09 \<or> r = CHR 0x0D \<or> r = newline
        then skipWhitespaceAndComments s (after r line)
      else if r = CHR ''#'' then
        (case skip_line s line of (s', line') \<Rightarrow> skipWhitespaceAndComments s' line')
      else if r = CHR ''/'' \<and> s \<noteq> [] \<and> hd s = CHR ''*'' then
        (case skip_block (tl s) line of
           None \<Rightarrow> Inl (UnterminatedBlockComment line)
         | Some (s', line') \<Rightarrow> skipWhitespaceAndComments s' line')
      else Inr (r # s, line))"
  by pat_completeness auto
termination
proof (relation "measure (\<lambda>(s, line). length s)", goal_cases)
  case (3 r s line x y)
  then show ?case using length_skip_line [of s line] by (metis case_prodI fst_conv in_measure le_imp_less_Suc length_Cons split_conv)
next
  case (4 r s line p x y)
  then show ?case using length_skip_block [of "tl s" line x y] by (auto simp: less_Suc_eq)
qed auto

section \<open>Tokens\<close>

text \<open>The body of a string literal, after its opening quote.\<close>

fun lex_string :: "string \<Rightarrow> nat \<Rightarrow> (string \<times> string \<times> nat) option" where
  "lex_string [] line = None"
| "lex_string (c # s) line =
     (if c = dquote then Some ([], s, line)
      else if c = backslash then
        (case s of
           [] \<Rightarrow> None
         | c2 # s' \<Rightarrow> map_option (\<lambda>(t, r). (c2 # t, r)) (lex_string s' (after c2 line)))
      else map_option (\<lambda>(t, r). (c # t, r)) (lex_string s (after c line)))"

definition punctuation :: "char \<Rightarrow> tok_kind option" where
  "punctuation r =
     (if r = CHR ''['' then Some TokLBracket
      else if r = CHR '']'' then Some TokRBracket
      else if r = CHR ''('' then Some TokLParen
      else if r = CHR '')'' then Some TokRParen
      else if r = CHR ''{'' then Some TokLBrace
      else if r = CHR ''}'' then Some TokRBrace
      else if r = CHR '';'' then Some TokSemicolon
      else if r = CHR '','' then Some TokComma
      else None)"

text \<open>One token, from its first rune \<open>r\<close>: the token and the text and line after it.\<close>

definition lex_token :: "char \<Rightarrow> string \<Rightarrow> nat \<Rightarrow> (lex_error, token \<times> string \<times> nat) result" where
  "lex_token r s line =
     (case punctuation r of
        Some k \<Rightarrow> Inr (tok k [r] line, s, line)
      | None \<Rightarrow>
          if r = dquote then
            (case lex_string s line of
               None \<Rightarrow> Inl (UnterminatedString line)
             | Some (t, s', line') \<Rightarrow> Inr (tok TokString t line, s', line'))
          else if r = CHR '':'' then
            Inr (tok TokColonTag (takeWhile isWordRune s) line, dropWhile isWordRune s, line)
          else if \<not> isWordRune r then Inl (UnexpectedCharacter line r)
          else Inr (tok TokWord (takeWhile isWordRune (r # s)) line, dropWhile isWordRune (r # s), line))"

lemma length_lex_string: "lex_string s line = Some (t, s', line') \<Longrightarrow> length s' < length s"
  by (induction s line arbitrary: t s' line' rule: lex_string.induct)
    (fastforce split: if_splits list.splits)+

lemma length_lex_token: "lex_token r s line = Inr (t, s', line') \<Longrightarrow> length s' \<le> length s"
  by (auto simp: lex_token_def length_dropWhile_le dest!: length_lex_string split: option.splits if_splits)

lemma length_skip:
  "skipWhitespaceAndComments s line = Inr (s', line') \<Longrightarrow> length s' \<le> length s"
proof (induction s line rule: skipWhitespaceAndComments.induct)
  case (2 r s line)
  then show ?case
    using length_skip_line [of s line]
    by (fastforce dest: length_skip_block split: if_splits prod.splits option.splits)
qed simp

function lex_from :: "string \<Rightarrow> nat \<Rightarrow> (lex_error, token list) result" where
  "lex_from s line =
     (case skipWhitespaceAndComments s line of
        Inl e \<Rightarrow> Inl e
      | Inr ([], line') \<Rightarrow> Inr [tok TokEOF [] line']
      | Inr (r # s', line') \<Rightarrow>
         (case lex_token r s' line' of
            Inl e \<Rightarrow> Inl e
          | Inr (t, s'', line'') \<Rightarrow> and_then (lex_from s'' line'') (\<lambda>ts. Inr (t # ts))))"
  by pat_completeness auto
termination
  by (relation "measure (\<lambda>(s, line). length s)")
    (auto dest!: length_skip length_lex_token)

definition lexSieve :: "string \<Rightarrow> (lex_error, token list) result" where
  "lexSieve src = lex_from src 1"

declare lex_from.simps [simp del] skipWhitespaceAndComments.simps(2) [simp del]

end
