(* ===== verification/Rule_Regex.thy ===== *)
theory Rule_Regex
  imports Rule_Model "HOL-Library.AList"
begin

text \<open>
  The pattern layer of the filter rules: \<open>backend/internal/rules/regexcache.go\<close> and the wildcard
  translation of \<open>engine.go\<close>.

  Go's regular-expression engine is a parameter, the record \<open>regexp_lib\<close>: users type arbitrary RE2
  patterns and nothing below depends on what the engine answers for them. The process-wide cache
  \<open>compiled\<close> is an association list from pattern to compiled expression; its entries are read and
  written under \<open>compiledMu\<close>, so a call is one step on it.
\<close>

section \<open>The regular-expression engine\<close>

text \<open>
  \<open>prog_insts p\<close> is \<open>len(prog.Inst)\<close> of \<open>syntax.Compile(parsed.Simplify())\<close> for
  \<open>parsed = syntax.Parse(p, syntax.Perl)\<close>, \<open>None\<close> where either call fails.
\<close>

record 're regexp_lib =
  prog_insts :: "string \<Rightarrow> nat option"
  re_Compile :: "string \<Rightarrow> 're option"
  re_MatchString :: "'re \<Rightarrow> string \<Rightarrow> bool"

type_synonym 're cache = "(string \<times> 're) list"

section \<open>Patterns\<close>

definition maxCompiledPatterns :: nat where
  "maxCompiledPatterns = 4096"

definition maxPatternProgramInsts :: nat where
  "maxPatternProgramInsts = 8192"

text \<open>\<open>regexp.QuoteMeta\<close>: a backslash before each metacharacter.\<close>

definition is_meta :: "char \<Rightarrow> bool" where
  "is_meta c \<longleftrightarrow> c \<in> set ''.+*?()|[]{}^$'' \<or> byte c = 92"

definition quote_meta :: "string \<Rightarrow> string" where
  "quote_meta s = concat (map (\<lambda>c. if is_meta c then [CHR 0x5C, c] else [c]) s)"

fun wildcardToRegexp :: "string \<Rightarrow> string" where
  "wildcardToRegexp [] = []"
| "wildcardToRegexp (r # rs) =
     (if r = CHR ''*'' then ''.*''
      else if r = CHR ''?'' then ''.''
      else quote_meta [r]) @ wildcardToRegexp rs"

definition patternFor :: "string \<Rightarrow> string \<Rightarrow> string \<times> bool" where
  "patternFor comparator val =
     (let c = to_lower (trim_space comparator) in
      if c = ''matches'' then (''(?is)^'' @ wildcardToRegexp val @ ''$'', True)
      else if c = ''regex'' then (''(?is)'' @ val, True)
      else ([], False))"

section \<open>Validation and the compile cache\<close>

datatype pattern_error = NotAValidRegexp | TooManyInstructions nat

definition ValidatePattern ::
  "'re regexp_lib \<Rightarrow> string \<Rightarrow> string \<Rightarrow> pattern_error option" where
  "ValidatePattern lib comparator val =
     (case patternFor comparator val of (pattern, ok) \<Rightarrow>
        if \<not> ok then None
        else (case prog_insts lib pattern of
                None \<Rightarrow> Some NotAValidRegexp
              | Some n \<Rightarrow> if n > maxPatternProgramInsts then Some (TooManyInstructions n) else None))"

definition compilePattern ::
  "'re regexp_lib \<Rightarrow> string \<Rightarrow> 're cache \<Rightarrow> 're option \<times> 're cache" where
  "compilePattern lib pattern compiled =
     (case map_of compiled pattern of
        Some re \<Rightarrow> (Some re, compiled)
      | None \<Rightarrow>
         (case prog_insts lib pattern of
            None \<Rightarrow> (None, compiled)
          | Some n \<Rightarrow>
             if n > maxPatternProgramInsts then (None, compiled)
             else (case re_Compile lib pattern of
                     None \<Rightarrow> (None, compiled)
                   | Some re \<Rightarrow>
                      (Some re,
                       AList.update pattern re
                         (if length compiled \<ge> maxCompiledPatterns then [] else compiled)))))"

section \<open>The cache is transparent and bounded\<close>

text \<open>What a call answers without a cache.\<close>

definition compile_ref :: "'re regexp_lib \<Rightarrow> string \<Rightarrow> 're option" where
  "compile_ref lib pattern =
     (case prog_insts lib pattern of
        None \<Rightarrow> None
      | Some n \<Rightarrow> if n > maxPatternProgramInsts then None else re_Compile lib pattern)"

definition cache_ok :: "'re regexp_lib \<Rightarrow> 're cache \<Rightarrow> bool" where
  "cache_ok lib compiled \<longleftrightarrow>
     distinct (map fst compiled) \<and> length compiled \<le> maxCompiledPatterns \<and>
     (\<forall>(p, re) \<in> set compiled. compile_ref lib p = Some re)"

lemma cache_ok_Nil [simp]: "cache_ok lib []"
  by (simp add: cache_ok_def)

lemma cache_ok_lookup: "cache_ok lib compiled \<Longrightarrow> map_of compiled p = Some re \<Longrightarrow> compile_ref lib p = Some re"
  unfolding cache_ok_def by (blast dest: map_of_SomeD)

lemma update_fresh: "map_of al k = None \<Longrightarrow> AList.update k v al = al @ [(k, v)]"
  by (induction al) (auto split: if_splits)

lemma compilePattern_result:
  assumes "cache_ok lib compiled"
  shows "fst (compilePattern lib p compiled) = compile_ref lib p"
  using assms cache_ok_lookup [OF assms, of p]
  by (auto simp: compilePattern_def compile_ref_def split: option.splits if_splits)

lemma cache_ok_insert:
  assumes "cache_ok lib compiled" and "length compiled < maxCompiledPatterns"
    and "map_of compiled p = None" and "compile_ref lib p = Some re"
  shows "cache_ok lib (AList.update p re compiled)"
  using assms
  by (auto simp: cache_ok_def update_fresh map_of_eq_None_iff)

lemma compilePattern_cache_ok:
  assumes ok: "cache_ok lib compiled"
  shows "cache_ok lib (snd (compilePattern lib p compiled))"
proof (cases "map_of compiled p")
  case (Some re)
  with ok show ?thesis by (simp add: compilePattern_def)
next
  case None
  let ?c = "if length compiled \<ge> maxCompiledPatterns then [] else compiled"
  have "cache_ok lib (AList.update p re ?c)" if "compile_ref lib p = Some re" for re
    by (rule cache_ok_insert) (use ok None that in \<open>auto simp: maxCompiledPatterns_def\<close>)
  with ok None show ?thesis
    by (auto simp: compilePattern_def compile_ref_def split: option.splits)
qed

interpretation pattern_cache: memo_table "compilePattern lib" "compile_ref lib" "cache_ok lib" for lib
  by unfold_locales (simp_all add: compilePattern_result compilePattern_cache_ok)

lemma validated_pattern_compiles:
  assumes "ValidatePattern lib cmp val = None" and "patternFor cmp val = (p, True)"
  shows "compile_ref lib p = re_Compile lib p"
  using assms by (auto simp: ValidatePattern_def compile_ref_def split: option.splits if_splits)

section \<open>Properties\<close>

text \<open>An engine for witnesses: a pattern is matched as a literal substring.\<close>

definition literal_regexp :: "string regexp_lib" where
  "literal_regexp = \<lparr>prog_insts = \<lambda>p. Some (length p), re_Compile = Some, re_MatchString = \<lambda>re s. contains_str s re\<rparr>"

text \<open>
  The compile cache is transparent and bounded. Any sequence of compilations that starts from the
  empty cache answers, for every pattern, exactly what a compilation without a cache answers (refusing
  the patterns whose program is too large), and the cache never holds more than
  \<open>maxCompiledPatterns\<close> entries.
\<close>

theorem compile_cache_transparent:
  "fst (run_calls (compilePattern lib) ps []) = map (compile_ref lib) ps \<and>
   length (snd (run_calls (compilePattern lib) ps [])) \<le> maxCompiledPatterns"
  using pattern_cache.run_calls_ref [of lib "[]" ps] pattern_cache.run_calls_inv [of lib "[]" ps]
  by (simp add: cache_ok_def)

text \<open>
  A pattern the gate accepts is never refused later because of its size: \<open>ValidatePattern\<close> and
  \<open>compilePattern\<close> apply the same bound to the same pattern, so an accepted condition reaches the
  engine's compiler, whatever the state of the cache.
\<close>

theorem validated_pattern_reaches_compiler:
  assumes "ValidatePattern lib cmp val = None" and "patternFor cmp val = (p, True)" and "cache_ok lib cache"
  shows "fst (compilePattern lib p cache) = re_Compile lib p"
  using validated_pattern_compiles [OF assms(1,2)] compilePattern_result [OF assms(3)] by simp

theorem validated_pattern_reaches_compiler_witness:
  "fst (compilePattern literal_regexp ''(?is)invoice'' []) = Some ''(?is)invoice''"
proof -
  have "ValidatePattern literal_regexp ''Regex'' ''invoice'' = None" by code_simp
  moreover have "patternFor ''Regex'' ''invoice'' = (''(?is)invoice'', True)" by code_simp
  ultimately show ?thesis
    using validated_pattern_reaches_compiler [of literal_regexp "''Regex''" "''invoice''" "''(?is)invoice''" "[]"]
    by (simp add: literal_regexp_def)
qed

end
