(* ===== verification/Rule_Engine.thy ===== *)
theory Rule_Engine
  imports Rule_Regex
begin

text \<open>
  The rule evaluator, \<open>backend/internal/rules/engine.go\<close>: \<open>Evaluate\<close>, \<open>matchGroup\<close>,
  \<open>conditionMatches\<close>, \<open>matchesValue\<close>, \<open>HeaderNames\<close>.

  Evaluation threads a state: the compile cache of \<open>Rule_Regex\<close> and the context. A context is seen
  only through \<open>ctx.Err()\<close>, which once non-nil stays so; \<open>ctx_polls = Some n\<close> is the context whose
  next \<open>n\<close> polls answer nil, \<open>None\<close> one that never ends. In \<open>Evaluate\<close> it is the context after the
  deadline of \<open>maxEvaluationBudget\<close> has been added, so \<open>Some n\<close> covers both a caller that goes away and
  a spent budget.
\<close>

section \<open>State\<close>

record 're eval_state =
  ctx_polls :: "nat option"
  compiled :: "'re cache"

fun poll :: "nat option \<Rightarrow> bool \<times> nat option" where
  "poll None = (False, None)"
| "poll (Some 0) = (True, Some 0)"
| "poll (Some (Suc n)) = (False, Some n)"

definition ctx_err :: "'re eval_state \<Rightarrow> bool \<times> 're eval_state" where
  "ctx_err st = (case poll (ctx_polls st) of (ended, p) \<Rightarrow> (ended, st\<lparr>ctx_polls := p\<rparr>))"

section \<open>Evaluation\<close>

definition folderInScope :: "rule_scope \<Rightarrow> string \<Rightarrow> bool" where
  "folderInScope scope folder \<longleftrightarrow>
     scope_Folders scope = [] \<or>
     list_ex (\<lambda>f. equal_fold (trim_space f) (trim_space folder)) (scope_Folders scope)"

definition fieldValue :: "eval_input \<Rightarrow> string \<Rightarrow> string" where
  "fieldValue inp field =
     (let f = to_lower (trim_space field) in
      if f = ''from'' then in_From inp
      else if f = ''to'' then in_To inp
      else if f = ''cc'' then in_CC inp
      else if f = ''bcc'' then in_BCC inp
      else if f = ''subject'' then in_Subject inp
      else if f = ''body'' then in_Body inp
      else [])"

definition matchesValue ::
  "'re regexp_lib \<Rightarrow> string \<Rightarrow> string \<Rightarrow> string \<Rightarrow> 're eval_state \<Rightarrow> (bool \<times> bool) \<times> 're eval_state" where
  "matchesValue lib comparator candidate val st =
     (let c = to_lower (trim_space comparator) in
      if c = ''exists'' then ((trim_space candidate \<noteq> [], True), st)
      else if c = ''is'' then ((equal_fold (trim_space candidate) (trim_space val), True), st)
      else if c = ''matches'' \<or> c = ''regex'' then
        (case compilePattern lib (fst (patternFor comparator val)) (compiled st) of
           (None, cache) \<Rightarrow> ((False, False), st\<lparr>compiled := cache\<rparr>)
         | (Some re, cache) \<Rightarrow> ((re_MatchString lib re candidate, True), st\<lparr>compiled := cache\<rparr>))
      else ((contains_str (to_lower candidate) (to_lower val), True), st))"

text \<open>The loop of \<open>conditionMatches\<close> over the values of a keyword or header condition.\<close>

fun any_value ::
  "'re regexp_lib \<Rightarrow> string \<Rightarrow> string \<Rightarrow> string list \<Rightarrow> 're eval_state \<Rightarrow> (bool \<times> bool) \<times> 're eval_state" where
  "any_value lib comparator val [] st = ((False, True), st)"
| "any_value lib comparator val (v # vs) st =
     (case matchesValue lib comparator v val st of
        ((matched, ok), st') \<Rightarrow>
          if \<not> ok then ((False, False), st')
          else if matched then ((True, True), st')
          else any_value lib comparator val vs st')"

definition leaf_matches ::
  "'re regexp_lib \<Rightarrow> condition \<Rightarrow> eval_input \<Rightarrow> 're eval_state \<Rightarrow> (bool \<times> bool) \<times> 're eval_state" where
  "leaf_matches lib c inp st =
     (let field = to_lower (trim_space (cond_Field c)) in
      if field = ''keyword'' then any_value lib (cond_Comparator c) (cond_Value c) (in_Keywords inp) st
      else if field = ''header'' then
        (case in_Headers inp of
           None \<Rightarrow> ((False, False), st)
         | Some hs \<Rightarrow>
             any_value lib (cond_Comparator c) (cond_Value c)
               (case hs (canonical_header_key (trim_space (cond_Header c))) of None \<Rightarrow> [] | Some vs \<Rightarrow> vs) st)
      else matchesValue lib (cond_Comparator c) (fieldValue inp (cond_Field c)) (cond_Value c) st)"

text \<open>The tail of \<open>conditionMatches\<close>: an unevaluable condition stays unknown, another is negated.\<close>

definition negate_known :: "bool \<Rightarrow> (bool \<times> bool) \<times> 're eval_state \<Rightarrow> (bool \<times> bool) \<times> 're eval_state" where
  "negate_known neg r =
     (case r of ((res, evaluable), st) \<Rightarrow>
        if \<not> evaluable then ((False, False), st) else ((res \<noteq> neg, True), st))"

fun matchGroup ::
    "'re regexp_lib \<Rightarrow> match_group \<Rightarrow> eval_input \<Rightarrow> 're eval_state \<Rightarrow> (bool \<times> bool) \<times> 're eval_state"
  and match_loop ::
    "'re regexp_lib \<Rightarrow> bool \<Rightarrow> bool \<Rightarrow> condition list \<Rightarrow> eval_input \<Rightarrow> 're eval_state \<Rightarrow> (bool \<times> bool) \<times> 're eval_state"
  and conditionMatches ::
    "'re regexp_lib \<Rightarrow> condition \<Rightarrow> eval_input \<Rightarrow> 're eval_state \<Rightarrow> (bool \<times> bool) \<times> 're eval_state" where
  "matchGroup lib (MatchGroup op cs) inp st =
     match_loop lib (to_lower (trim_space op) = ''anyof'') True cs inp st"
| "match_loop lib anyof known [] inp st =
     (if \<not> known then ((False, False), st) else ((\<not> anyof, True), st))"
| "match_loop lib anyof known (c # cs) inp st =
     (case ctx_err st of
        (True, st') \<Rightarrow> ((False, False), st')
      | (False, st') \<Rightarrow>
         (case conditionMatches lib c inp st' of
            ((m, ok), st'') \<Rightarrow>
              if \<not> ok then match_loop lib anyof False cs inp st''
              else if m = anyof then ((m, True), st'')
              else match_loop lib anyof known cs inp st''))"
| "conditionMatches lib (Condition neg None f h cmp v) inp st =
     negate_known neg (leaf_matches lib (Condition neg None f h cmp v) inp st)"
| "conditionMatches lib (Condition neg (Some g) f h cmp v) inp st =
     negate_known neg (matchGroup lib g inp st)"

definition has_stop :: "rule \<Rightarrow> bool" where
  "has_stop r = list_ex (\<lambda>a. act_Type a = ''stop'') (rule_Actions r)"

fun evaluate_loop ::
  "'re regexp_lib \<Rightarrow> eval_input \<Rightarrow> rule list \<Rightarrow> outcome \<Rightarrow> 're eval_state \<Rightarrow> outcome \<times> 're eval_state" where
  "evaluate_loop lib inp [] out st = (out, st)"
| "evaluate_loop lib inp (r # rs) out st =
     (case ctx_err st of
        (True, st') \<Rightarrow> (out, st')
      | (False, st') \<Rightarrow>
          if \<not> rule_Enabled r then evaluate_loop lib inp rs out st'
          else if \<not> folderInScope (rule_Scope r) (in_Folder inp) then evaluate_loop lib inp rs out st'
          else
            (case matchGroup lib (rule_Match r) inp st' of
               ((matched, known), st'') \<Rightarrow>
                 if \<not> matched \<or> \<not> known then evaluate_loop lib inp rs out st''
                 else
                   (let out' = out\<lparr>out_Matched := out_Matched out @ [rule_Name r],
                                   out_Applied := out_Applied out @ rule_Actions r,
                                   out_Stopped := out_Stopped out \<or> has_stop r\<rparr>
                    in if out_Stopped out' then (out', st'') else evaluate_loop lib inp rs out' st'')))"

text \<open>\<open>sort.SliceStable\<close> by \<open>Order\<close> is HOL's stable \<open>sort_key\<close>.\<close>

definition Evaluate ::
  "'re regexp_lib \<Rightarrow> eval_input \<Rightarrow> rule list \<Rightarrow> 're eval_state \<Rightarrow> outcome \<times> 're eval_state" where
  "Evaluate lib inp activeRules st =
     evaluate_loop lib inp (sort_key rule_Order activeRules) empty_outcome st"

section \<open>Reference semantics: Kleene logic\<close>

text \<open>
  The meaning of a match tree, without cache, context or loops: \<open>Some b\<close> a definite answer, \<open>None\<close>
  unknown, groups combined by Kleene's strong connectives.
\<close>

definition k_all :: "bool option list \<Rightarrow> bool option" where
  "k_all xs = (if Some False \<in> set xs then Some False else if None \<in> set xs then None else Some True)"

definition k_any :: "bool option list \<Rightarrow> bool option" where
  "k_any xs = (if Some True \<in> set xs then Some True else if None \<in> set xs then None else Some False)"

definition value_truth :: "'re regexp_lib \<Rightarrow> string \<Rightarrow> string \<Rightarrow> string \<Rightarrow> bool option" where
  "value_truth lib comparator val candidate =
     (let c = to_lower (trim_space comparator) in
      if c = ''exists'' then Some (trim_space candidate \<noteq> [])
      else if c = ''is'' then Some (equal_fold (trim_space candidate) (trim_space val))
      else if c = ''matches'' \<or> c = ''regex'' then
        map_option (\<lambda>re. re_MatchString lib re candidate) (compile_ref lib (fst (patternFor comparator val)))
      else Some (contains_str (to_lower candidate) (to_lower val)))"

definition leaf_truth :: "'re regexp_lib \<Rightarrow> eval_input \<Rightarrow> condition \<Rightarrow> bool option" where
  "leaf_truth lib inp c =
     (let field = to_lower (trim_space (cond_Field c));
          truth = value_truth lib (cond_Comparator c) (cond_Value c) in
      if field = ''keyword'' then k_any (map truth (in_Keywords inp))
      else if field = ''header'' then
        Option.bind (in_Headers inp) (\<lambda>hs.
          k_any (map truth (case hs (canonical_header_key (trim_space (cond_Header c))) of None \<Rightarrow> [] | Some vs \<Rightarrow> vs)))
      else truth (fieldValue inp (cond_Field c)))"

fun group_truth :: "'re regexp_lib \<Rightarrow> eval_input \<Rightarrow> match_group \<Rightarrow> bool option"
  and cond_truth :: "'re regexp_lib \<Rightarrow> eval_input \<Rightarrow> condition \<Rightarrow> bool option" where
  "group_truth lib inp (MatchGroup op cs) =
     (if to_lower (trim_space op) = ''anyof'' then k_any (map (cond_truth lib inp) cs)
      else k_all (map (cond_truth lib inp) cs))"
| "cond_truth lib inp (Condition neg None f h cmp v) =
     map_option (\<lambda>b. b \<noteq> neg) (leaf_truth lib inp (Condition neg None f h cmp v))"
| "cond_truth lib inp (Condition neg (Some g) f h cmp v) =
     map_option (\<lambda>b. b \<noteq> neg) (group_truth lib inp g)"

definition fires :: "'re regexp_lib \<Rightarrow> eval_input \<Rightarrow> rule \<Rightarrow> bool" where
  "fires lib inp r \<longleftrightarrow>
     rule_Enabled r \<and> folderInScope (rule_Scope r) (in_Folder inp) \<and>
     group_truth lib inp (rule_Match r) = Some True"

fun upto_stop :: "rule list \<Rightarrow> rule list" where
  "upto_stop [] = []"
| "upto_stop (r # rs) = (if has_stop r then [r] else r # upto_stop rs)"

definition outcome_of :: "rule list \<Rightarrow> outcome" where
  "outcome_of rs = \<lparr>out_Matched = map rule_Name rs, out_Applied = concat (map rule_Actions rs),
                    out_Stopped = list_ex has_stop rs\<rparr>"

definition evaluate_spec :: "'re regexp_lib \<Rightarrow> eval_input \<Rightarrow> rule list \<Rightarrow> outcome" where
  "evaluate_spec lib inp rs = outcome_of (upto_stop (filter (fires lib inp) (sort_key rule_Order rs)))"

section \<open>The evaluator computes the reference semantics\<close>

text \<open>How \<open>matchGroup\<close> reports a truth value: \<open>(matched, known)\<close>.\<close>

definition decided :: "bool option \<Rightarrow> bool \<times> bool" where
  "decided t = (case t of None \<Rightarrow> (False, False) | Some b \<Rightarrow> (b, True))"

lemma decided_simps [simp]: "decided None = (False, False)" "decided (Some b) = (b, True)"
  by (simp_all add: decided_def)

text \<open>
  \<open>answers lib t st r\<close>: the call that returned \<open>r\<close> from \<open>st\<close> kept the cache sound and answered \<open>t\<close>, or
  unknown because the context had ended.
\<close>

definition answers ::
  "'re regexp_lib \<Rightarrow> bool option \<Rightarrow> 're eval_state \<Rightarrow> (bool \<times> bool) \<times> 're eval_state \<Rightarrow> bool" where
  "answers lib t st r \<longleftrightarrow>
     cache_ok lib (compiled (snd r)) \<and>
     (ctx_polls st = None \<longrightarrow> ctx_polls (snd r) = None) \<and>
     (fst r = decided t \<or> fst r = (False, False) \<and> ctx_polls (snd r) = Some 0)"

lemma ctx_err_cases:
  obtains (ended) "ctx_polls st = Some 0" "ctx_err st = (True, st)"
    | (live) p where "ctx_err st = (False, st\<lparr>ctx_polls := p\<rparr>)" "ctx_polls st = None \<longrightarrow> p = None"
        "ctx_polls st \<noteq> Some 0"
  by (cases "ctx_polls st" rule: poll.cases) (use ended live in \<open>auto simp: ctx_err_def\<close>)

lemma matchesValue_answers:
  assumes "cache_ok lib (compiled st)"
  shows "answers lib (value_truth lib cmp v cand) st (matchesValue lib cmp cand v st)"
    and "ctx_polls (snd (matchesValue lib cmp cand v st)) = ctx_polls st"
    and "fst (matchesValue lib cmp cand v st) = decided (value_truth lib cmp v cand)"
proof -
  let ?p = "fst (patternFor cmp v)"
  obtain cache where c: "compilePattern lib ?p (compiled st) = (compile_ref lib ?p, cache)"
    and ok: "cache_ok lib cache"
    using compilePattern_result [OF assms, of ?p] compilePattern_cache_ok [OF assms, of ?p]
    by (metis prod.collapse)
  show polls: "ctx_polls (snd (matchesValue lib cmp cand v st)) = ctx_polls st"
    and res: "fst (matchesValue lib cmp cand v st) = decided (value_truth lib cmp v cand)"
    by (cases "compile_ref lib ?p"; simp add: matchesValue_def value_truth_def Let_def c)+
  have "cache_ok lib (compiled (snd (matchesValue lib cmp cand v st)))"
    using assms ok by (cases "compile_ref lib ?p") (simp_all add: matchesValue_def Let_def c)
  with polls res show "answers lib (value_truth lib cmp v cand) st (matchesValue lib cmp cand v st)"
    by (simp add: answers_def)
qed

lemma value_truth_None_uniform:
  "value_truth lib cmp v a = None \<Longrightarrow> value_truth lib cmp v b = None"
  by (auto simp: value_truth_def Let_def split: if_splits)

lemma k_any_Nil [simp]: "k_any [] = Some False" and k_all_Nil [simp]: "k_all [] = Some True"
  by (simp_all add: k_any_def k_all_def)

lemma any_value_answers:
  assumes "cache_ok lib (compiled st)"
  shows "answers lib (k_any (map (value_truth lib cmp v) vs)) st (any_value lib cmp v vs st)
    \<and> ctx_polls (snd (any_value lib cmp v vs st)) = ctx_polls st"
  using assms
proof (induction vs arbitrary: st)
  case Nil
  then show ?case by (simp add: answers_def)
next
  case (Cons x vs)
  obtain m ok st' where eq: "matchesValue lib cmp x v st = ((m, ok), st')"
    by (metis surj_pair)
  note mv = matchesValue_answers [OF Cons.prems, where cmp = cmp and v = v and cand = x, unfolded eq]
  have uni: "None \<in> set (map (value_truth lib cmp v) vs) \<longrightarrow> value_truth lib cmp v x = None"
    using value_truth_None_uniform [of lib cmp v _ x] by (metis (no_types, lifting) imageE list.set_map)
  have uni': "value_truth lib cmp v x = None \<longrightarrow> Some True \<notin> set (map (value_truth lib cmp v) vs)"
    using value_truth_None_uniform [of lib cmp v x]
    by (metis (no_types, lifting) imageE list.set_map option.distinct(1))
  have ok': "cache_ok lib (compiled st')" and polls: "ctx_polls st' = ctx_polls st"
    using mv by (simp_all add: answers_def)
  show ?case
  proof (cases "value_truth lib cmp v x")
    case None
    with mv uni' have "k_any (map (value_truth lib cmp v) (x # vs)) = None" and "\<not> ok"
      by (auto simp: k_any_def)
    with eq ok' polls show ?thesis by (simp add: answers_def)
  next
    case (Some b)
    with mv have ok: "ok" "m = b" by auto
    show ?thesis
    proof (cases b)
      case True
      with Some have "k_any (map (value_truth lib cmp v) (x # vs)) = Some True"
        by (simp add: k_any_def)
      with True ok eq ok' polls show ?thesis by (simp add: answers_def)
    next
      case False
      with Some have "k_any (map (value_truth lib cmp v) (x # vs)) = k_any (map (value_truth lib cmp v) vs)"
        by (simp add: k_any_def)
      with False ok eq Cons.IH [OF ok'] polls show ?thesis by (auto simp: answers_def)
    qed
  qed
qed

lemma leaf_matches_answers:
  assumes "cache_ok lib (compiled st)"
  shows "answers lib (leaf_truth lib inp c) st (leaf_matches lib c inp st)"
  using assms any_value_answers [OF assms, THEN conjunct1] matchesValue_answers(1) [OF assms]
  by (cases "in_Headers inp")
    (simp_all add: leaf_matches_def leaf_truth_def Let_def, simp_all add: answers_def)

lemma negate_known_answers:
  "answers lib t st r \<Longrightarrow> answers lib (map_option (\<lambda>b. b \<noteq> neg) t) st (negate_known neg r)"
  by (cases t) (auto simp: answers_def negate_known_def split: prod.splits)

text \<open>One turn of the loop: what the truth of the first condition does to the group's.\<close>

definition k_group :: "bool \<Rightarrow> bool option list \<Rightarrow> bool option" where
  "k_group anyof xs = (if anyof then k_any xs else k_all xs)"

definition pending :: "bool \<Rightarrow> bool option list" where
  "pending known = (if known then [] else [None])"

lemma k_group_step:
  "k_group anyof (pending known @ Some b # xs) =
     (if b = anyof then Some b else k_group anyof (pending known @ xs))"
  "k_group anyof (pending known @ None # xs) = k_group anyof (pending False @ xs)"
  "k_group anyof (pending True) = Some (\<not> anyof)"
  "k_group anyof (pending False) = None"
  by (auto simp: k_group_def k_any_def k_all_def pending_def)

lemma matchGroup_answers_aux:
  "cache_ok lib (compiled st) \<Longrightarrow> answers lib (group_truth lib inp g) st (matchGroup lib g inp st)"
  "cache_ok lib (compiled st) \<Longrightarrow>
     answers lib (k_group anyof (pending known @ map (cond_truth lib inp) cs)) st
       (match_loop lib anyof known cs inp st)"
  "cache_ok lib (compiled st) \<Longrightarrow> answers lib (cond_truth lib inp c) st (conditionMatches lib c inp st)"
proof (induction lib g inp st and lib anyof known cs inp st and lib c inp st
    rule: matchGroup_match_loop_conditionMatches.induct)
  case (1 lib op cs inp st)
  then show ?case by (auto simp: k_group_def pending_def)
next
  case (2 lib anyof known inp st)
  then show ?case by (cases known) (simp_all add: answers_def k_group_step)
next
  case (3 lib anyof known c cs inp st)
  show ?case
  proof (cases st rule: ctx_err_cases)
    case ended
    with "3.prems" show ?thesis by (simp add: answers_def)
  next
    case (live p)
    let ?st = "st\<lparr>ctx_polls := p\<rparr>"
    obtain m ok st2 where eq: "conditionMatches lib c inp ?st = ((m, ok), st2)"
      by (metis surj_pair)
    have c: "answers lib (cond_truth lib inp c) ?st ((m, ok), st2)"
      using "3.IH"(1) [OF live(1) [symmetric] refl] "3.prems" by (simp add: eq)
    then have ok2: "cache_ok lib (compiled st2)" by (simp add: answers_def)
    have polls: "ctx_polls st = None \<longrightarrow> ctx_polls st2 = None"
      using c live by (auto simp: answers_def)
    show ?thesis
    proof (cases "(m, ok) = decided (cond_truth lib inp c)")
      case True
      show ?thesis
      proof (cases "cond_truth lib inp c")
        case None
        with True have "\<not> ok" by simp
        have "answers lib (k_group anyof (pending False @ map (cond_truth lib inp) cs)) st2
            (match_loop lib anyof False cs inp st2)"
          by (rule "3.IH"(2) [OF live(1) [symmetric] _ eq [symmetric] refl]) (use \<open>\<not> ok\<close> ok2 in simp_all)
        with None \<open>\<not> ok\<close> live eq polls show ?thesis
          by (auto simp: answers_def k_group_step)
      next
        case (Some b)
        with True have b: "ok" "m = b" by auto
        show ?thesis
        proof (cases "b = anyof")
          case True
          with Some b live eq polls ok2 show ?thesis
            by (simp add: answers_def k_group_step)
        next
          case False
          have "answers lib (k_group anyof (pending known @ map (cond_truth lib inp) cs)) st2
              (match_loop lib anyof known cs inp st2)"
            by (rule "3.IH"(3) [OF live(1) [symmetric] _ eq [symmetric] refl]) (use b False ok2 in simp_all)
          with False Some b live eq polls show ?thesis
            by (auto simp: answers_def k_group_step)
        qed
      qed
    next
      case False
      with c have e: "\<not> ok" "m = False" "ctx_polls st2 = Some 0" by (auto simp: answers_def)
      then have "match_loop lib anyof False cs inp st2 = ((False, False), st2)"
        by (cases cs) (simp_all add: ctx_err_def)
      with e live eq polls ok2 show ?thesis by (simp add: answers_def)
    qed
  qed
next
  case (4 lib neg f h cmp v inp st)
  then show ?case
    unfolding conditionMatches.simps cond_truth.simps
    by (intro negate_known_answers leaf_matches_answers)
next
  case (5 lib neg g f h cmp v inp st)
  then show ?case
    unfolding conditionMatches.simps cond_truth.simps by (intro negate_known_answers)
qed

lemmas matchGroup_answers = matchGroup_answers_aux(1)

section \<open>The walk over the rules\<close>

definition add_outcome :: "outcome \<Rightarrow> outcome \<Rightarrow> outcome" where
  "add_outcome a b =
     \<lparr>out_Matched = out_Matched a @ out_Matched b, out_Applied = out_Applied a @ out_Applied b,
      out_Stopped = (out_Stopped a \<or> out_Stopped b)\<rparr>"

lemma add_outcome_Nil [simp]: "add_outcome out (outcome_of []) = out"
  by (simp add: add_outcome_def outcome_of_def)

lemma add_outcome_empty [simp]: "add_outcome empty_outcome out = out"
  by (simp add: add_outcome_def empty_outcome_def)

lemma add_outcome_Cons:
  "add_outcome out (outcome_of (r # rs)) = add_outcome (add_outcome out (outcome_of [r])) (outcome_of rs)"
  by (simp add: add_outcome_def outcome_of_def)

text \<open>
  \<open>walked lib out fs st r\<close>: the walk that returned \<open>r\<close> from \<open>st\<close> kept the cache sound and appended to
  \<open>out\<close> the outcome of an initial part of the rules \<open>fs\<close>, of all of them if the context never ends.
\<close>

definition walked ::
  "'re regexp_lib \<Rightarrow> outcome \<Rightarrow> rule list \<Rightarrow> 're eval_state \<Rightarrow> outcome \<times> 're eval_state \<Rightarrow> bool" where
  "walked lib out fs st r \<longleftrightarrow>
     cache_ok lib (compiled (snd r)) \<and>
     (\<exists>gs. prefix gs fs \<and> fst r = add_outcome out (outcome_of gs) \<and> (ctx_polls st = None \<longrightarrow> gs = fs))"

lemma walked_ended: "cache_ok lib (compiled st') \<Longrightarrow> ctx_polls st \<noteq> None \<Longrightarrow> walked lib out fs st (out, st')"
  by (auto simp: walked_def intro: exI [of _ "[]"])

lemma walked_later:
  "walked lib out fs st' r \<Longrightarrow> (ctx_polls st = None \<longrightarrow> ctx_polls st' = None) \<Longrightarrow> walked lib out fs st r"
  by (auto simp: walked_def)

lemma walked_fire:
  assumes "walked lib (add_outcome out (outcome_of [f])) fs st r"
  shows "walked lib out (f # fs) st r"
proof -
  from assms obtain gs where "prefix gs fs"
    "fst r = add_outcome (add_outcome out (outcome_of [f])) (outcome_of gs)"
    "ctx_polls st = None \<longrightarrow> gs = fs" "cache_ok lib (compiled (snd r))"
    by (auto simp: walked_def)
  then show ?thesis
    unfolding walked_def by (intro conjI exI [of _ "f # gs"]) (simp_all add: add_outcome_Cons [of out f gs])
qed

lemma walked_stop: "cache_ok lib (compiled st') \<Longrightarrow> walked lib out [f] st (add_outcome out (outcome_of [f]), st')"
  by (auto simp: walked_def intro: exI [of _ "[f]"])

lemma evaluate_loop_walked:
  assumes "cache_ok lib (compiled st)" and "\<not> out_Stopped out"
  shows "walked lib out (upto_stop (filter (fires lib inp) rs)) st (evaluate_loop lib inp rs out st)"
  using assms
proof (induction rs arbitrary: out st)
  case Nil
  then show ?case by (simp add: walked_def)
next
  case (Cons r rs)
  let ?fs = "upto_stop (filter (fires lib inp) rs)"
  show ?case
  proof (cases st rule: ctx_err_cases)
    case ended
    with Cons.prems show ?thesis by (simp add: walked_ended)
  next
    case (live p)
    let ?st = "st\<lparr>ctx_polls := p\<rparr>"
    have skip: "walked lib out ?fs st (evaluate_loop lib inp rs out st')"
      if "cache_ok lib (compiled st')" "ctx_polls st = None \<longrightarrow> ctx_polls st' = None" for st'
      by (rule walked_later [OF Cons.IH]) (use that Cons.prems in simp_all)
    show ?thesis
    proof (cases "rule_Enabled r \<and> folderInScope (rule_Scope r) (in_Folder inp)")
      case False
      then have "\<not> fires lib inp r" by (auto simp: fires_def)
      with skip [of ?st] Cons.prems live False show ?thesis by auto
    next
      case True
      obtain m ok st2 where eq: "matchGroup lib (rule_Match r) inp ?st = ((m, ok), st2)"
        by (metis surj_pair)
      have g: "answers lib (group_truth lib inp (rule_Match r)) ?st ((m, ok), st2)"
        using matchGroup_answers [of lib ?st inp "rule_Match r"] Cons.prems by (simp add: eq)
      then have ok2: "cache_ok lib (compiled st2)"
        and polls: "ctx_polls st = None \<longrightarrow> ctx_polls st2 = None"
        using live by (auto simp: answers_def)
      let ?out = "add_outcome out (outcome_of [r])"
      have out: "out\<lparr>out_Matched := out_Matched out @ [rule_Name r],
          out_Applied := out_Applied out @ rule_Actions r, out_Stopped := out_Stopped out \<or> has_stop r\<rparr> = ?out"
        by (simp add: add_outcome_def outcome_of_def)
      show ?thesis
      proof (cases "m \<and> ok")
        case True
        with g have "group_truth lib inp (rule_Match r) = Some True"
          by (auto simp: answers_def decided_def split: option.splits)
        with \<open>rule_Enabled r \<and> _\<close> have "fires lib inp r" by (simp add: fires_def)
        moreover have "walked lib ?out ?fs st (evaluate_loop lib inp rs ?out st2)" if "\<not> has_stop r"
          by (rule walked_later [OF Cons.IH])
            (use that Cons.prems ok2 polls in \<open>auto simp: add_outcome_def outcome_of_def\<close>)
        moreover have "out_Stopped ?out = has_stop r"
          using Cons.prems by (simp add: add_outcome_def outcome_of_def)
        ultimately show ?thesis
          using True \<open>rule_Enabled r \<and> _\<close> live eq ok2
          by (simp add: out Let_def walked_fire walked_stop)
      next
        case False
        show ?thesis
        proof (cases "group_truth lib inp (rule_Match r) = Some True")
          case True
          with False g have "ctx_polls st2 = Some 0" by (auto simp: answers_def)
          then have "evaluate_loop lib inp rs out st2 = (out, st2)"
            by (cases rs) (simp_all add: ctx_err_def)
          moreover have "ctx_polls st \<noteq> None" using polls \<open>ctx_polls st2 = Some 0\<close> by auto
          ultimately show ?thesis
            using \<open>\<not> (m \<and> ok)\<close> \<open>rule_Enabled r \<and> _\<close> live eq ok2 by (auto simp: walked_ended)
        next
          case False
          then have "\<not> fires lib inp r" by (simp add: fires_def)
          with skip [OF ok2 polls] \<open>\<not> (m \<and> ok)\<close> \<open>rule_Enabled r \<and> _\<close> live eq show ?thesis by auto
        qed
      qed
    qed
  qed
qed

lemma Evaluate_walked:
  assumes "cache_ok lib (compiled st)"
  shows "walked lib empty_outcome (upto_stop (filter (fires lib inp) (sort_key rule_Order rs))) st
           (Evaluate lib inp rs st)"
  unfolding Evaluate_def by (rule evaluate_loop_walked [OF assms]) (simp add: empty_outcome_def)

lemma Evaluate_spec:
  assumes "cache_ok lib (compiled st)" and "ctx_polls st = None"
  shows "fst (Evaluate lib inp rs st) = evaluate_spec lib inp rs"
    and "cache_ok lib (compiled (snd (Evaluate lib inp rs st)))"
  using Evaluate_walked [OF assms(1), of inp rs] assms(2) by (auto simp: walked_def evaluate_spec_def)

abbreviation fresh_state :: "'re eval_state" where
  "fresh_state \<equiv> \<lparr>ctx_polls = None, compiled = []\<rparr>"

section \<open>Properties\<close>

definition demo_rule :: rule where
  "demo_rule = \<lparr>rule_ID = ''r1'', rule_Name = ''Invoices'', rule_Enabled = True, rule_Order = 1,
     rule_Scope = \<lparr>scope_Folders = [''INBOX'']\<rparr>,
     rule_Match = MatchGroup ''allof'' [leaf False ''subject'' [] ''contains'' ''invoice''],
     rule_Actions = [\<lparr>act_Type = ''keyword'', act_Value = ''Bills''\<rparr>, \<lparr>act_Type = ''stop'', act_Value = []\<rparr>],
     rule_Rev = 1, rule_CreatedAt = [], rule_UpdatedAt = []\<rparr>"

definition demo_input :: eval_input where
  "demo_input = \<lparr>in_UID = 7, in_MessageID = ''7'', in_From = ''a@b.example'', in_To = [], in_CC = [], in_BCC = [],
     in_Subject = ''Your Invoice'', in_Body = [], in_Keywords = [], in_Folder = ''inbox'', in_Headers = None\<rparr>"

text \<open>
  C1: The evaluator is correct. With a context that never ends and a sound compile cache, \<open>Evaluate\<close>
  returns exactly the outcome of the reference semantics: the enabled rules in scope whose match tree
  is definitely true (Kleene's three-valued logic over the leaves), in order of \<open>Order\<close> with ties in
  the order given, up to and including the first one that carries a \<open>stop\<close>; and it leaves the cache
  sound.
\<close>

theorem evaluate_correct:
  assumes "cache_ok lib (compiled st)" and "ctx_polls st = None"
  shows "fst (Evaluate lib inp rs st) = evaluate_spec lib inp rs \<and>
         cache_ok lib (compiled (snd (Evaluate lib inp rs st)))"
  using Evaluate_spec [OF assms, of inp rs] by (rule conjI)

theorem evaluate_correct_witness:
  "out_Matched (fst (Evaluate literal_regexp demo_input [demo_rule] \<lparr>ctx_polls = None, compiled = []\<rparr>)) = [''Invoices'']"
proof -
  have "out_Matched (evaluate_spec literal_regexp demo_input [demo_rule]) = [''Invoices'']" by code_simp
  then show ?thesis
    using evaluate_correct [of literal_regexp "\<lparr>ctx_polls = None, compiled = []\<rparr>" demo_input "[demo_rule]"] by simp
qed

text \<open>
  A context that ends never makes the evaluator invent a match. Whatever the number of polls after
  which the context ends, the outcome is that of an initial part of the rules the full evaluation
  would report, in the same order.
\<close>

theorem evaluate_cancelled_prefix:
  assumes "cache_ok lib (compiled st)"
  shows "\<exists>gs. prefix gs (upto_stop (filter (fires lib inp) (sort_key rule_Order rs))) \<and>
           fst (Evaluate lib inp rs st) = outcome_of gs"
  using Evaluate_walked [OF assms, of inp rs] by (auto simp: walked_def)

theorem evaluate_cancelled_prefix_witness:
  "\<exists>gs. prefix gs (upto_stop (filter (fires literal_regexp demo_input) (sort_key rule_Order [demo_rule]))) \<and>
     fst (Evaluate literal_regexp demo_input [demo_rule] \<lparr>ctx_polls = Some 1, compiled = []\<rparr>) = outcome_of gs"
  by (rule evaluate_cancelled_prefix) simp

text \<open>
  A definite answer of \<open>matchGroup\<close> is the Kleene truth value of the tree, however many polls the
  context survives: an ended context can only turn an answer into "unknown", and an unknown answer is
  never reported as a match.
\<close>

theorem matchGroup_definite:
  assumes "cache_ok lib (compiled st)" and "matchGroup lib g inp st = ((m, known), st')"
  shows "(known \<longrightarrow> group_truth lib inp g = Some m) \<and> (\<not> known \<longrightarrow> \<not> m)"
  using matchGroup_answers [OF assms(1), of inp g] assms(2)
  by (cases "group_truth lib inp g") (auto simp: answers_def)

theorem matchGroup_definite_witness:
  "group_truth literal_regexp demo_input (rule_Match demo_rule) = Some True"
proof -
  have "matchGroup literal_regexp (rule_Match demo_rule) demo_input \<lparr>ctx_polls = Some 2, compiled = []\<rparr> =
      ((True, True), \<lparr>ctx_polls = Some 1, compiled = []\<rparr>)"
    by code_simp
  from matchGroup_definite [OF _ this] show ?thesis by simp
qed

end
