(* ===== verification/Rule_Apply.thy ===== *)
theory Rule_Apply
  imports Rule_Engine "HOL-Library.List_Lexorder" "HOL-Library.Char_ord"
begin

text \<open>
  What surrounds an evaluation: \<open>HeaderNames\<close> (which headers a caller fetches before it),
  \<open>conditionsUseBody\<close> of \<open>backend/internal/api/rules_handlers.go\<close> (whether it fetches bodies) and
  \<open>ApplyOutcome\<close> (what happens to the mailbox after it).

  The mail client is the Go interface \<open>imapadapter.Client\<close>: a record of the three operations
  \<open>ApplyOutcome\<close> calls, each a step on the mail server's state \<open>'s\<close> that may fail.
\<close>

section \<open>Headers and bodies an evaluation needs\<close>

fun group_headers :: "match_group \<Rightarrow> string list" and cond_headers :: "condition \<Rightarrow> string list" where
  "group_headers (MatchGroup op cs) = concat (map cond_headers cs)"
| "cond_headers (Condition n (Some g) f h c v) = group_headers g"
| "cond_headers (Condition n None f h c v) =
     (if equal_fold (trim_space f) ''header'' then [canonical_header_key (trim_space h)] else [])"

definition HeaderNames :: "rule list \<Rightarrow> string list" where
  "HeaderNames rs = sort (remdups (concat (map (group_headers \<circ> rule_Match) (filter rule_Enabled rs))))"

fun conditionsUseBody :: "match_group \<Rightarrow> bool" and cond_uses_body :: "condition \<Rightarrow> bool" where
  "conditionsUseBody (MatchGroup op cs) = list_ex cond_uses_body cs"
| "cond_uses_body (Condition n (Some g) f h c v) = conditionsUseBody g"
| "cond_uses_body (Condition n None f h c v) = equal_fold f ''body''"

lemma fieldValue_in_Headers [simp]: "fieldValue (inp\<lparr>in_Headers := hs\<rparr>) f = fieldValue inp f"
  by (simp add: fieldValue_def Let_def)

lemma leaf_truth_headers:
  assumes "\<forall>n \<in> set (cond_headers (leaf neg f h cmp v)). hs n = hs' n"
  shows "leaf_truth lib (inp\<lparr>in_Headers := Some hs\<rparr>) (leaf neg f h cmp v) =
         leaf_truth lib (inp\<lparr>in_Headers := Some hs'\<rparr>) (leaf neg f h cmp v)"
proof (cases "to_lower (trim_space f) = ''header''")
  case True
  moreover have "to_lower ''header'' = ''header''" by code_simp
  ultimately have "equal_fold (trim_space f) ''header''" by (simp add: equal_fold_def)
  with assms show ?thesis by (simp add: leaf_truth_def Let_def)
qed (simp add: leaf_truth_def Let_def)

lemma group_truth_headers:
  "\<forall>n \<in> set (group_headers g). hs n = hs' n \<Longrightarrow>
     group_truth lib (inp\<lparr>in_Headers := Some hs\<rparr>) g = group_truth lib (inp\<lparr>in_Headers := Some hs'\<rparr>) g"
  "\<forall>n \<in> set (cond_headers c). hs n = hs' n \<Longrightarrow>
     cond_truth lib (inp\<lparr>in_Headers := Some hs\<rparr>) c = cond_truth lib (inp\<lparr>in_Headers := Some hs'\<rparr>) c"
proof (induction g and c rule: group_headers_cond_headers.induct)
  case (1 op cs)
  then have "map (cond_truth lib (inp\<lparr>in_Headers := Some hs\<rparr>)) cs =
      map (cond_truth lib (inp\<lparr>in_Headers := Some hs'\<rparr>)) cs"
    by (intro map_cong refl) auto
  then show ?case by (simp only: group_truth.simps)
next
  case (3 n f h c v)
  show ?case
    unfolding cond_truth.simps using leaf_truth_headers [OF "3.prems"] by (rule arg_cong)
qed simp

lemma set_HeaderNames:
  "set (HeaderNames rs) = (\<Union>r \<in> {r \<in> set rs. rule_Enabled r}. set (group_headers (rule_Match r)))"
  by (auto simp: HeaderNames_def)

lemma fires_headers:
  assumes "\<forall>n \<in> set (HeaderNames rs). hs n = hs' n" and "r \<in> set rs"
  shows "fires lib (inp\<lparr>in_Headers := Some hs\<rparr>) r = fires lib (inp\<lparr>in_Headers := Some hs'\<rparr>) r"
proof (cases "rule_Enabled r")
  case True
  with assms have "\<forall>n \<in> set (group_headers (rule_Match r)). hs n = hs' n"
    by (auto simp: set_HeaderNames)
  from group_truth_headers(1) [OF this, of lib inp] show ?thesis by (simp add: fires_def)
qed (simp add: fires_def)

lemma evaluate_spec_cong:
  assumes "\<And>r. r \<in> set rs \<Longrightarrow> fires lib inp r = fires lib inp' r"
  shows "evaluate_spec lib inp rs = evaluate_spec lib inp' rs"
proof -
  have "filter (fires lib inp) (sort_key rule_Order rs) = filter (fires lib inp') (sort_key rule_Order rs)"
    by (rule filter_cong) (use assms in auto)
  then show ?thesis by (simp add: evaluate_spec_def)
qed

text \<open>
  The body matters only to a group that \<open>conditionsUseBody\<close> reports, provided no field name carries
  white space around it: \<open>fieldValue\<close> trims the name, \<open>conditionsUseBody\<close> does not.
\<close>

fun fields_trimmed :: "match_group \<Rightarrow> bool" and cond_field_trimmed :: "condition \<Rightarrow> bool" where
  "fields_trimmed (MatchGroup op cs) = list_all cond_field_trimmed cs"
| "cond_field_trimmed (Condition n (Some g) f h c v) = fields_trimmed g"
| "cond_field_trimmed (Condition n None f h c v) = (trim_space f = f)"

lemma fieldValue_in_Body:
  "to_lower (trim_space f) \<noteq> ''body'' \<Longrightarrow> fieldValue (inp\<lparr>in_Body := b\<rparr>) f = fieldValue inp f"
  by (simp add: fieldValue_def Let_def)

lemma leaf_truth_body:
  assumes "to_lower (trim_space f) \<noteq> ''body''"
  shows "leaf_truth lib (inp\<lparr>in_Body := b\<rparr>) (leaf neg f h cmp v) = leaf_truth lib inp (leaf neg f h cmp v)"
  using assms by (simp add: leaf_truth_def Let_def fieldValue_in_Body)

lemma group_truth_body:
  "\<not> conditionsUseBody g \<Longrightarrow> fields_trimmed g \<Longrightarrow>
     group_truth lib (inp\<lparr>in_Body := b\<rparr>) g = group_truth lib inp g"
  "\<not> cond_uses_body c \<Longrightarrow> cond_field_trimmed c \<Longrightarrow>
     cond_truth lib (inp\<lparr>in_Body := b\<rparr>) c = cond_truth lib inp c"
proof (induction g and c rule: conditionsUseBody_cond_uses_body.induct)
  case (1 op cs)
  then have "map (cond_truth lib (inp\<lparr>in_Body := b\<rparr>)) cs = map (cond_truth lib inp) cs"
    by (intro map_cong refl) (auto simp: list_all_iff list_ex_iff)
  then show ?case by (simp only: group_truth.simps)
next
  case (3 n f h c v)
  have "to_lower ''body'' = ''body''" by code_simp
  with "3.prems" have "to_lower (trim_space f) \<noteq> ''body''" by (simp add: equal_fold_def)
  from leaf_truth_body [OF this] show ?case unfolding cond_truth.simps by (rule arg_cong)
qed simp

section \<open>Applying an outcome\<close>

datatype apply_error = CtxErr | UnsupportedActionType string | ClientError string

record 's imap_client =
  ApplyLabel :: "string \<Rightarrow> string \<Rightarrow> 's \<Rightarrow> string option \<times> 's"
  RemoveLabel :: "string \<Rightarrow> string \<Rightarrow> 's \<Rightarrow> string option \<times> 's"
  ApplyInboxAction :: "string \<Rightarrow> string \<Rightarrow> string \<Rightarrow> string \<Rightarrow> 's \<Rightarrow> string option \<times> 's"

record action_result =
  ar_Action :: action
  ar_Err :: "apply_error option"

definition client_call :: "string option \<times> 's \<Rightarrow> apply_error option \<times> 's" where
  "client_call r = (map_option ClientError (fst r), snd r)"

definition run_action ::
  "'s imap_client \<Rightarrow> string \<Rightarrow> string \<Rightarrow> action \<Rightarrow> 's \<Rightarrow> apply_error option \<times> 's" where
  "run_action c mailbox messageID a s =
     (let t = act_Type a in
      if t = ''keyword'' then client_call (ApplyLabel c messageID (act_Value a) s)
      else if t = ''unkeyword'' then client_call (RemoveLabel c messageID (act_Value a) s)
      else if t = ''move'' then client_call (ApplyInboxAction c messageID ''move'' mailbox (act_Value a) s)
      else if t = ''read'' then client_call (ApplyInboxAction c messageID ''read'' mailbox [] s)
      else if t = ''archive'' then client_call (ApplyInboxAction c messageID ''archive'' mailbox [] s)
      else if t = ''spam'' then client_call (ApplyInboxAction c messageID ''spam'' mailbox [] s)
      else if t = ''delete'' then client_call (ApplyInboxAction c messageID ''delete'' mailbox [] s)
      else if t = ''stop'' then (None, s)
      else (Some (UnsupportedActionType t), s))"

fun apply_loop ::
  "'s imap_client \<Rightarrow> string \<Rightarrow> string \<Rightarrow> action list \<Rightarrow> action_result list \<Rightarrow> nat option \<Rightarrow> 's
     \<Rightarrow> action_result list \<times> nat option \<times> 's" where
  "apply_loop c mailbox mid [] results p s = (results, p, s)"
| "apply_loop c mailbox mid (a # as) results p s =
     (case poll p of
        (True, p') \<Rightarrow> (results @ [\<lparr>ar_Action = a, ar_Err = Some CtxErr\<rparr>], p', s)
      | (False, p') \<Rightarrow>
         (case run_action c mailbox mid a s of
            (err, s') \<Rightarrow>
              (let results' = results @ [\<lparr>ar_Action = a, ar_Err = err\<rparr>] in
               if err \<noteq> None then (results', p', s') else apply_loop c mailbox mid as results' p' s')))"

definition ApplyOutcome ::
  "'s imap_client \<Rightarrow> string \<Rightarrow> eval_input \<Rightarrow> outcome \<Rightarrow> nat option \<Rightarrow> 's
     \<Rightarrow> action_result list \<times> nat option \<times> 's" where
  "ApplyOutcome c mailbox inp out p s =
     apply_loop c mailbox (in_MessageID inp) (out_Applied out) [] p s"

subsection \<open>Execution stops at the first failure\<close>

text \<open>
  The results of a run over the actions \<open>as\<close>: one per action from the front, none failed before the
  last, and a run that ends early ends in a failure.
\<close>

definition stops_at_failure :: "action list \<Rightarrow> action_result list \<Rightarrow> bool" where
  "stops_at_failure as rs \<longleftrightarrow>
     map ar_Action rs = take (length rs) as \<and>
     (\<forall>r \<in> set (butlast rs). ar_Err r = None) \<and>
     (length rs < length as \<longrightarrow> rs \<noteq> [] \<and> ar_Err (last rs) \<noteq> None)"

text \<open>The state of the mailbox after the calls of the listed actions.\<close>

definition run_actions :: "'s imap_client \<Rightarrow> string \<Rightarrow> string \<Rightarrow> action list \<Rightarrow> 's \<Rightarrow> 's" where
  "run_actions c mailbox mid as s = fold (\<lambda>a s. snd (run_action c mailbox mid a s)) as s"

lemma stops_at_failure_Cons:
  assumes "stops_at_failure as rs" and "ar_Err r = None"
  shows "stops_at_failure (ar_Action r # as) (r # rs)"
  using assms by (cases rs) (auto simp: stops_at_failure_def)

lemma stops_at_failure_single: "ar_Err r \<noteq> None \<Longrightarrow> stops_at_failure (ar_Action r # as) [r]"
  by (simp add: stops_at_failure_def)

text \<open>The results a run appends, and the actions whose call was made.\<close>

definition applied :: "'s imap_client \<Rightarrow> string \<Rightarrow> string \<Rightarrow> action list \<Rightarrow> 's \<Rightarrow> action_result list \<Rightarrow> 's \<Rightarrow> bool" where
  "applied c mailbox mid as s rs s' \<longleftrightarrow>
     stops_at_failure as rs \<and>
     s' = run_actions c mailbox mid (map ar_Action (filter (\<lambda>r. ar_Err r \<noteq> Some CtxErr) rs)) s"

lemma run_action_not_CtxErr: "fst (run_action c mailbox mid a s) \<noteq> Some CtxErr"
  by (auto simp: run_action_def client_call_def Let_def)

lemma apply_loop_applied:
  "\<exists>rs p' s'. apply_loop c mailbox mid as results p s = (results @ rs, p', s') \<and> applied c mailbox mid as s rs s'"
proof (induction as arbitrary: results p s)
  case Nil
  then show ?case by (simp add: applied_def stops_at_failure_def run_actions_def)
next
  case (Cons a as)
  obtain ended p' where poll: "poll p = (ended, p')" by (metis surj_pair)
  obtain err s' where run: "run_action c mailbox mid a s = (err, s')" by (metis surj_pair)
  let ?r = "\<lparr>ar_Action = a, ar_Err = err\<rparr>"
  have err: "err \<noteq> Some CtxErr" using run_action_not_CtxErr [of c mailbox mid a s] by (simp add: run)
  show ?case
  proof (cases "ended \<or> err \<noteq> None")
    case True
    then show ?thesis
      using poll run err stops_at_failure_single [of "\<lparr>ar_Action = a, ar_Err = Some CtxErr\<rparr>" as]
        stops_at_failure_single [of ?r as]
      by (cases ended) (auto simp: applied_def run_actions_def Let_def)
  next
    case False
    then obtain rs p'' s'' where
      "apply_loop c mailbox mid as (results @ [?r]) p' s' = (results @ [?r] @ rs, p'', s'')"
      and rs: "applied c mailbox mid as s' rs s''"
      using Cons.IH [of "results @ [?r]" p' s'] by auto
    moreover have "applied c mailbox mid (a # as) s (?r # rs) s''"
      using rs False run stops_at_failure_Cons [of as rs ?r] by (simp add: applied_def run_actions_def)
    ultimately show ?thesis using False poll run by (auto simp: Let_def)
  qed
qed

section \<open>Properties\<close>

text \<open>
  Fetching the headers \<open>HeaderNames\<close> lists is enough. An evaluation that sees only those headers of a
  message, under their canonical names, has the same outcome as one that sees them all.
\<close>

theorem HeaderNames_sufficient:
  "fst (Evaluate lib (inp\<lparr>in_Headers := Some (hs |` set (HeaderNames rs))\<rparr>) rs fresh_state) =
   fst (Evaluate lib (inp\<lparr>in_Headers := Some hs\<rparr>) rs fresh_state)"
proof -
  have "evaluate_spec lib (inp\<lparr>in_Headers := Some (hs |` set (HeaderNames rs))\<rparr>) rs =
      evaluate_spec lib (inp\<lparr>in_Headers := Some hs\<rparr>) rs"
    by (rule evaluate_spec_cong, rule fires_headers) simp_all
  then show ?thesis by (simp add: Evaluate_spec)
qed

text \<open>
  Leaving the bodies unfetched is safe where \<open>conditionsUseBody\<close> says so. When no rule uses the body
  and no field name is padded with white space, the outcome does not depend on the body.
\<close>

theorem unused_body_irrelevant:
  assumes "\<forall>r \<in> set rs. \<not> conditionsUseBody (rule_Match r) \<and> fields_trimmed (rule_Match r)"
  shows "fst (Evaluate lib (inp\<lparr>in_Body := b\<rparr>) rs fresh_state) = fst (Evaluate lib inp rs fresh_state)"
proof -
  have "evaluate_spec lib (inp\<lparr>in_Body := b\<rparr>) rs = evaluate_spec lib inp rs"
    by (rule evaluate_spec_cong) (use assms in \<open>auto simp: fires_def group_truth_body(1)\<close>)
  then show ?thesis by (simp add: Evaluate_spec)
qed

theorem unused_body_irrelevant_witness:
  "fst (Evaluate literal_regexp (demo_input\<lparr>in_Body := ''text''\<rparr>) [demo_rule] fresh_state) =
   fst (Evaluate literal_regexp demo_input [demo_rule] fresh_state)"
proof -
  have "\<not> conditionsUseBody (rule_Match demo_rule) \<and> fields_trimmed (rule_Match demo_rule)" by code_simp
  then show ?thesis by (intro unused_body_irrelevant) simp
qed

text \<open>
  The trimming matters: a padded field name reads the body although \<open>conditionsUseBody\<close> denies it, so
  such a rule, negated, matches a message whose body was not fetched and whose real body would not
  match.
\<close>

lemma padded_body_field_unnoticed:
  "let g = MatchGroup ''allof'' [leaf True '' body'' [] ''contains'' ''unsubscribe'']
   in \<not> conditionsUseBody g \<and>
      group_truth literal_regexp demo_input g = Some True \<and>
      group_truth literal_regexp (demo_input\<lparr>in_Body := ''click to unsubscribe''\<rparr>) g = Some False"
  by code_simp

text \<open>
  Actions are applied in order and the first failure ends the run. The results are one per action
  from the front, only the last of them can be a failure, a run shorter than the action list ends in
  a failure, and the mailbox is in the state after exactly the calls whose results are listed.
\<close>

theorem apply_stops_at_first_failure:
  "case ApplyOutcome c mailbox inp out p s of (results, _, s') \<Rightarrow>
     stops_at_failure (out_Applied out) results \<and>
     s' = run_actions c mailbox (in_MessageID inp)
            (map ar_Action (filter (\<lambda>r. ar_Err r \<noteq> Some CtxErr) results)) s"
  using apply_loop_applied [of c mailbox "in_MessageID inp" "out_Applied out" "[]" p s]
  by (auto simp: ApplyOutcome_def applied_def)

end
