(* ===== verification/Protocol_Safety.thy ===== *)
theory Protocol_Safety
  imports Go_Prelude
begin

text \<open>
  The input guards of \<open>backend/internal/adapters/imap/protocol_safety.go\<close>: which keywords, mailbox
  names and header names may be written into an IMAP command.

  The guards range over the runes of the value. A rune beyond ASCII is at least 128 and is encoded by
  bytes of 128 or more, so a test that refuses runes above 0x7E refuses those bytes, and a test that
  names only ASCII runes answers the same for bytes.
\<close>

datatype safety_error =
  KeywordRequired | KeywordNotPrintable | KeywordAtomSpecial
| MailboxRequired | MailboxControlChar | MailboxQuoteOrBackslash
| HeaderLength | HeaderChar

definition atomSpecials :: string where
  "atomSpecials = ''(){ %*'' @ [CHR 0x22, CHR 0x5C] @ '']''"

fun keyword_chars :: "string \<Rightarrow> safety_error option" where
  "keyword_chars [] = None"
| "keyword_chars (r # rs) =
     (if byte r < 0x21 \<or> byte r > 0x7E then Some KeywordNotPrintable
      else if r \<in> set atomSpecials then Some KeywordAtomSpecial
      else keyword_chars rs)"

definition ValidateKeyword :: "string \<Rightarrow> safety_error option" where
  "ValidateKeyword label =
     (let l = trim_space label in if l = [] then Some KeywordRequired else keyword_chars l)"

fun mailbox_chars :: "string \<Rightarrow> safety_error option" where
  "mailbox_chars [] = None"
| "mailbox_chars (r # rs) =
     (if byte r < 0x20 \<or> byte r = 0x7F then Some MailboxControlChar
      else if r = CHR 0x5C \<or> r = CHR 0x22 then Some MailboxQuoteOrBackslash
      else mailbox_chars rs)"

definition ValidateMailboxName :: "string \<Rightarrow> safety_error option" where
  "ValidateMailboxName name = (if trim_space name = [] then Some MailboxRequired else mailbox_chars name)"

definition maxHeaderFieldNameLen :: nat where
  "maxHeaderFieldNameLen = 76"

definition bad_header_char :: "char \<Rightarrow> bool" where
  "bad_header_char r \<longleftrightarrow> byte r < 0x21 \<or> byte r > 0x7E \<or> r = CHR '':'' \<or> r \<in> set atomSpecials"

definition ValidateHeaderFieldName :: "string \<Rightarrow> safety_error option" where
  "ValidateHeaderFieldName name =
     (if name = [] \<or> length name > maxHeaderFieldNameLen then Some HeaderLength
      else if list_ex bad_header_char name then Some HeaderChar
      else None)"

definition validateOptionalMailboxName :: "string \<Rightarrow> safety_error option" where
  "validateOptionalMailboxName name = (if trim_space name = [] then None else ValidateMailboxName name)"

section \<open>What the guards accept\<close>

definition atom_char :: "char \<Rightarrow> bool" where
  "atom_char r \<longleftrightarrow> 0x21 \<le> byte r \<and> byte r \<le> 0x7E \<and> r \<notin> set atomSpecials"

definition quotable_char :: "char \<Rightarrow> bool" where
  "quotable_char r \<longleftrightarrow> 0x20 \<le> byte r \<and> byte r \<noteq> 0x7F \<and> r \<noteq> CHR 0x5C \<and> r \<noteq> CHR 0x22"

lemma keyword_chars_None: "keyword_chars s = None \<longleftrightarrow> (\<forall>r \<in> set s. atom_char r)"
  by (induction s) (auto simp: atom_char_def not_less)

lemma mailbox_chars_None: "mailbox_chars s = None \<longleftrightarrow> (\<forall>r \<in> set s. quotable_char r)"
  by (induction s) (auto simp: quotable_char_def not_less)

lemma ValidateKeyword_None:
  "ValidateKeyword s = None \<longleftrightarrow> trim_space s \<noteq> [] \<and> (\<forall>r \<in> set (trim_space s). atom_char r)"
  by (auto simp: ValidateKeyword_def Let_def keyword_chars_None)

lemma ValidateMailboxName_None:
  "ValidateMailboxName s = None \<longleftrightarrow> trim_space s \<noteq> [] \<and> (\<forall>r \<in> set s. quotable_char r)"
  by (auto simp: ValidateMailboxName_def mailbox_chars_None)

lemma bad_header_char_iff: "bad_header_char r \<longleftrightarrow> \<not> (atom_char r \<and> r \<noteq> CHR '':'')"
  by (simp add: bad_header_char_def atom_char_def not_less not_le) argo

lemma ValidateHeaderFieldName_None:
  "ValidateHeaderFieldName s = None \<longleftrightarrow>
     s \<noteq> [] \<and> length s \<le> maxHeaderFieldNameLen \<and> (\<forall>r \<in> set s. atom_char r \<and> r \<noteq> CHR '':'')"
  by (simp add: ValidateHeaderFieldName_def bad_header_char_iff list_ex_iff not_less)

text \<open>Header names stay acceptable when put in canonical form.\<close>

lemma in_atomSpecials:
  "c \<in> set atomSpecials \<longleftrightarrow> byte c \<in> {40, 41, 123, 32, 37, 42, 34, 92, 93}"
proof -
  have "c \<in> set atomSpecials \<longleftrightarrow> byte c \<in> of_char ` set atomSpecials"
    by (simp add: inj_image_mem_iff inj_on_def)
  also have "of_char ` set atomSpecials = {40, 41, 123, 32, 37, 42, 34, 92, 93 :: nat}"
    by (simp add: atomSpecials_def)
  finally show ?thesis .
qed

lemma atom_char_letter:
  assumes "is_upper c \<or> is_lower c" shows "atom_char c" and "c \<noteq> CHR '':''"
proof -
  from assms have b: "65 \<le> byte c" "byte c \<le> 122" "byte c \<noteq> 92" "byte c \<noteq> 93"
    by (auto simp: is_upper_def is_lower_def)
  then show "atom_char c" by (auto simp: atom_char_def in_atomSpecials)
  show "c \<noteq> CHR '':''" using b by auto
qed

lemma case_letter:
  "lower_char c \<noteq> c \<Longrightarrow> is_lower (lower_char c)" "upper_char c \<noteq> c \<Longrightarrow> is_upper (upper_char c)"
  by (auto simp: lower_char_def upper_char_def is_lower_def is_upper_def split: if_splits)

lemma header_char_case:
  assumes "atom_char c \<and> c \<noteq> CHR '':''"
  shows "atom_char (lower_char c) \<and> lower_char c \<noteq> CHR '':''"
    and "atom_char (upper_char c) \<and> upper_char c \<noteq> CHR '':''"
  using assms case_letter [of c] atom_char_letter [of "lower_char c"] atom_char_letter [of "upper_char c"]
  by metis+

lemma canonical_bytes_header_chars:
  "\<forall>r \<in> set s. atom_char r \<and> r \<noteq> CHR '':'' \<Longrightarrow>
     \<forall>r \<in> set (canonical_bytes b s). atom_char r \<and> r \<noteq> CHR '':''"
  by (induction b s rule: canonical_bytes.induct) (auto simp: header_char_case)

lemma length_canonical_bytes [simp]: "length (canonical_bytes b s) = length s"
  by (induction b s rule: canonical_bytes.induct) auto

lemma canonical_header_key_safe:
  assumes "ValidateHeaderFieldName s = None"
  shows "ValidateHeaderFieldName (canonical_header_key s) = None"
proof -
  have "canonical_bytes True s = [] \<longleftrightarrow> s = []" by (cases s) auto
  with assms canonical_bytes_header_chars [of s True] show ?thesis
    by (auto simp: ValidateHeaderFieldName_None canonical_header_key_def)
qed

section \<open>Mailbox names in a quoted argument\<close>

text \<open>
  How a name reaches the wire: \<open>AddSlashes\<close> of \<open>backend/third_party/go-imap/vars.go\<close> puts a backslash
  before each double quote, and the command writes the result between double quotes. \<open>read_quoted\<close>
  is a server's reader of an RFC 3501 quoted string: it fails on CR, LF or NUL, takes the character
  after a backslash literally, and returns what follows the closing quote.
\<close>

definition AddSlashes :: "string \<Rightarrow> string" where
  "AddSlashes s = concat (map (\<lambda>c. if c = CHR 0x22 then [CHR 0x5C, CHR 0x22] else [c]) s)"

definition quoted_arg :: "string \<Rightarrow> string" where
  "quoted_arg s = CHR 0x22 # AddSlashes s @ [CHR 0x22]"

fun read_quoted :: "string \<Rightarrow> (string \<times> string) option" where
  "read_quoted [] = None"
| "read_quoted (c # s) =
     (if c = CHR 0x22 then Some ([], s)
      else if byte c = 0 \<or> byte c = 10 \<or> byte c = 13 then None
      else if c = CHR 0x5C then
        (case s of
           [] \<Rightarrow> None
         | d # s' \<Rightarrow> map_option (map_prod (Cons d) id) (read_quoted s'))
      else map_option (map_prod (Cons c) id) (read_quoted s))"

lemma AddSlashes_quotable: "\<forall>r \<in> set s. quotable_char r \<Longrightarrow> AddSlashes s = s"
  by (induction s) (auto simp: AddSlashes_def quotable_char_def)

lemma read_quoted_quotable:
  "\<forall>r \<in> set s. quotable_char r \<Longrightarrow> read_quoted (s @ CHR 0x22 # rest) = Some (s, rest)"
  by (induction s) (auto simp: quotable_char_def)

section \<open>Keywords in a flag list\<close>

text \<open>
  The flag list of a \<open>STORE\<close> command is written as \<open>(keyword)\<close>. \<open>read_atom\<close> is a server's reader of an
  RFC 3501 atom: the longest run of atom characters, at least one.
\<close>

definition read_atom :: "string \<Rightarrow> (string \<times> string) option" where
  "read_atom s = (if takeWhile atom_char s = [] then None else Some (takeWhile atom_char s, dropWhile atom_char s))"

lemma closing_paren_not_atom: "\<not> atom_char CHR '')''"
  by code_simp

lemma read_atom_chars:
  "s \<noteq> [] \<Longrightarrow> \<forall>r \<in> set s. atom_char r \<Longrightarrow> read_atom (s @ CHR '')'' # rest) = Some (s, CHR '')'' # rest)"
  by (simp add: read_atom_def closing_paren_not_atom takeWhile_append2 dropWhile_append2)

section \<open>Properties\<close>

text \<open>
  A mailbox name the guard accepts cannot break out of its quoted argument. Written the way the
  client writes it, it is read back by the server as exactly that name, and what follows the closing
  quote is untouched.
\<close>

theorem mailbox_name_roundtrip:
  assumes "ValidateMailboxName name = None"
  shows "read_quoted (tl (quoted_arg name) @ rest) = Some (name, rest)"
  using assms
  by (simp add: ValidateMailboxName_None quoted_arg_def AddSlashes_quotable read_quoted_quotable)

theorem mailbox_name_roundtrip_witness:
  "read_quoted (tl (quoted_arg ''Work/2024 Q1'') @ '' NEXT'') = Some (''Work/2024 Q1'', '' NEXT'')"
  by (rule mailbox_name_roundtrip) code_simp

text \<open>
  The guard is needed: \<open>AddSlashes\<close> leaves a backslash alone, so a name that ends in one would swallow
  the closing quote.
\<close>

lemma backslash_would_escape_quote:
  "read_quoted (tl (quoted_arg [CHR ''a'', CHR 0x5C]) @ '' x'') \<noteq> Some ([CHR ''a'', CHR 0x5C], '' x'')"
  by code_simp

text \<open>
  A keyword the guard accepts is one atom of the flag list: the server reads the trimmed keyword
  back whole and stops at the closing parenthesis.
\<close>

theorem keyword_is_one_atom:
  assumes "ValidateKeyword label = None"
  shows "read_atom (trim_space label @ CHR '')'' # rest) = Some (trim_space label, CHR '')'' # rest)"
  using assms by (simp add: ValidateKeyword_None read_atom_chars)

theorem keyword_is_one_atom_witness:
  "read_atom (trim_space '' $Label1 '' @ '') x'') = Some (''$Label1'', '') x'')"
proof -
  have "ValidateKeyword '' $Label1 '' = None" and t: "trim_space '' $Label1 '' = ''$Label1''" by code_simp+
  from keyword_is_one_atom [OF this(1), of "'' x''"] show ?thesis by (simp add: t)
qed

end
