(* ===== verification/Rule_Validate.thy ===== *)
theory Rule_Validate
  imports Rule_Apply Protocol_Safety
begin

text \<open>
  The gate every rule passes before it is stored or run: \<open>backend/internal/rules/validate.go\<close> and the
  match-shape check of \<open>sieve.go\<close>.
\<close>

datatype rule_error =
  NameRequired | NameTooLong
| DepthExceeded | TooManyConditions | InvalidHeaderName string | ConditionValueTooLong
| BadPattern pattern_error
| TooManyActions | UnsupportedType string | ActionValueTooLong string | ActionValueRequired string
| TwoVisibilityChanges string string | VisibilityChangeNotLast string

section \<open>Match trees\<close>

definition maxTestNestingDepth :: nat where "maxTestNestingDepth = 32"
definition maxMatchConditions :: nat where "maxMatchConditions = 300"
definition maxConditionValueBytes :: nat where "maxConditionValueBytes = 512"

definition normalizeField :: "string \<Rightarrow> string" where
  "normalizeField f = to_lower (trim_space f)"

definition validHeaderAddressFields :: "string list" where
  "validHeaderAddressFields = [''from'', ''to'', ''cc'', ''bcc'', ''subject'']"

definition validCustomHeader :: "string \<Rightarrow> bool" where
  "validCustomHeader f \<longleftrightarrow>
     (let n = normalizeField f in
      n \<noteq> ''body'' \<and> n \<noteq> ''keyword'' \<and> n \<notin> set validHeaderAddressFields \<and>
      ValidateHeaderFieldName (trim_space f) = None)"

text \<open>The counter the Go function increments through a pointer is threaded through the walk.\<close>

fun validateMatchGroupShape ::
    "'re regexp_lib \<Rightarrow> match_group \<Rightarrow> nat \<Rightarrow> nat \<Rightarrow> (rule_error, nat) result"
  and validate_conditions ::
    "'re regexp_lib \<Rightarrow> condition list \<Rightarrow> nat \<Rightarrow> nat \<Rightarrow> (rule_error, nat) result"
  and validate_condition ::
    "'re regexp_lib \<Rightarrow> condition \<Rightarrow> nat \<Rightarrow> nat \<Rightarrow> (rule_error, nat) result" where
  "validateMatchGroupShape lib (MatchGroup op cs) depth count =
     (if depth > maxTestNestingDepth then Inl DepthExceeded else validate_conditions lib cs depth count)"
| "validate_conditions lib [] depth count = Inr count"
| "validate_conditions lib (c # cs) depth count =
     (if Suc count > maxMatchConditions then Inl TooManyConditions
      else and_then (validate_condition lib c depth (Suc count))
             (\<lambda>count'. validate_conditions lib cs depth count'))"
| "validate_condition lib (Condition n (Some g) f h cmp v) depth count =
     validateMatchGroupShape lib g (Suc depth) count"
| "validate_condition lib (Condition n None f h cmp v) depth count =
     (if equal_fold (trim_space f) ''header'' \<and> \<not> validCustomHeader h then Inl (InvalidHeaderName h)
      else if length v > maxConditionValueBytes then Inl ConditionValueTooLong
      else (case ValidatePattern lib cmp v of Some e \<Rightarrow> Inl (BadPattern e) | None \<Rightarrow> Inr count))"

definition ValidateMatchShape :: "'re regexp_lib \<Rightarrow> match_group \<Rightarrow> rule_error option" where
  "ValidateMatchShape lib m =
     (case validateMatchGroupShape lib m 1 0 of Inl e \<Rightarrow> Some e | Inr _ \<Rightarrow> None)"

section \<open>Actions\<close>

definition maxActionsPerRule :: nat where "maxActionsPerRule = 20"
definition maxRuleNameBytes :: nat where "maxRuleNameBytes = 200"
definition maxActionValueBytes :: nat where "maxActionValueBytes = 512"

definition knownActionTypes :: "string list" where
  "knownActionTypes =
     [''keyword'', ''unkeyword'', ''move'', ''read'', ''archive'', ''spam'', ''delete'', ''stop'']"

definition actionsNeedingValue :: "string list" where
  "actionsNeedingValue = [''keyword'', ''unkeyword'', ''move'']"

definition IsVisibilityChanging :: "string \<Rightarrow> bool" where
  "IsVisibilityChanging actionType \<longleftrightarrow>
     to_lower (trim_space actionType) \<in> set [''read'', ''move'', ''archive'', ''spam'', ''delete'']"

text \<open>
  The loop over the actions, from index \<open>i\<close>: \<open>visibilityAt\<close> is the Go variable, \<open>None\<close> its \<open>-1\<close>,
  with the type of the action at that index.
\<close>

fun validate_actions ::
  "action list \<Rightarrow> nat \<Rightarrow> (nat \<times> string) option \<Rightarrow> (rule_error, (nat \<times> string) option) result" where
  "validate_actions [] i visibilityAt = Inr visibilityAt"
| "validate_actions (a # as) i visibilityAt =
     (if act_Type a \<notin> set knownActionTypes then Inl (UnsupportedType (act_Type a))
      else if length (act_Value a) > maxActionValueBytes then Inl (ActionValueTooLong (act_Type a))
      else if act_Type a \<in> set actionsNeedingValue \<and> trim_space (act_Value a) = []
        then Inl (ActionValueRequired (act_Type a))
      else if \<not> IsVisibilityChanging (act_Type a) then validate_actions as (Suc i) visibilityAt
      else (case visibilityAt of
              Some (j, t) \<Rightarrow> Inl (TwoVisibilityChanges t (act_Type a))
            | None \<Rightarrow> validate_actions as (Suc i) (Some (i, act_Type a))))"

definition visibility_last :: "action list \<Rightarrow> nat \<Rightarrow> bool" where
  "visibility_last as at \<longleftrightarrow>
     Suc at = length as \<or> (Suc (Suc at) = length as \<and> act_Type (last as) = ''stop'')"

definition ValidateRule :: "'re regexp_lib \<Rightarrow> rule \<Rightarrow> rule_error option" where
  "ValidateRule lib r =
     (if trim_space (rule_Name r) = [] then Some NameRequired
      else if length (rule_Name r) > maxRuleNameBytes then Some NameTooLong
      else (case ValidateMatchShape lib (rule_Match r) of
        Some e \<Rightarrow> Some e
      | None \<Rightarrow>
          if length (rule_Actions r) > maxActionsPerRule then Some TooManyActions
          else (case validate_actions (rule_Actions r) 0 None of
                  Inl e \<Rightarrow> Some e
                | Inr None \<Rightarrow> None
                | Inr (Some (at, t)) \<Rightarrow>
                    if visibility_last (rule_Actions r) at then None
                    else Some (VisibilityChangeNotLast t))))"

definition ruleLabel :: "rule \<Rightarrow> string" where
  "ruleLabel r =
     (if trim_space (rule_Name r) \<noteq> [] then trim_space (rule_Name r)
      else if trim_space (rule_ID r) \<noteq> [] then ''rule '' @ trim_space (rule_ID r)
      else ''(unnamed rule)'')"

definition FilterRunnable :: "'re regexp_lib \<Rightarrow> rule list \<Rightarrow> rule list \<times> (string \<times> rule_error) list" where
  "FilterRunnable lib list =
     (filter (\<lambda>r. ValidateRule lib r = None) list,
      concat (map (\<lambda>r. case ValidateRule lib r of None \<Rightarrow> [] | Some e \<Rightarrow> [(ruleLabel r, e)]) list))"

section \<open>What the gate accepts\<close>

subsection \<open>Match trees\<close>

definition leaf_ok :: "'re regexp_lib \<Rightarrow> condition \<Rightarrow> bool" where
  "leaf_ok lib c \<longleftrightarrow>
     (equal_fold (trim_space (cond_Field c)) ''header'' \<longrightarrow> validCustomHeader (cond_Header c)) \<and>
     length (cond_Value c) \<le> maxConditionValueBytes \<and>
     ValidatePattern lib (cond_Comparator c) (cond_Value c) = None"

lemma cond_nodes_pos: "cond_nodes c = Suc (cond_nodes c - 1)"
  by (cases c rule: cond_nodes.cases) auto

lemma validate_shape_iff_aux:
  "count \<le> maxMatchConditions \<Longrightarrow>
     validateMatchGroupShape lib g depth count = Inr n \<longleftrightarrow>
       depth + group_depth g \<le> Suc maxTestNestingDepth \<and> n = count + group_nodes g \<and>
       n \<le> maxMatchConditions \<and> list_all (leaf_ok lib) (group_leaves g)"
  "count \<le> maxMatchConditions \<Longrightarrow> depth \<le> maxTestNestingDepth \<Longrightarrow>
     validate_conditions lib cs depth count = Inr n \<longleftrightarrow>
       (\<forall>c \<in> set cs. depth + cond_depth c \<le> maxTestNestingDepth) \<and>
       n = count + sum_list (map cond_nodes cs) \<and> n \<le> maxMatchConditions \<and>
       list_all (leaf_ok lib) (concat (map cond_leaves cs))"
  "count \<le> maxMatchConditions \<Longrightarrow> depth \<le> maxTestNestingDepth \<Longrightarrow>
     validate_condition lib c depth count = Inr n \<longleftrightarrow>
       depth + cond_depth c \<le> maxTestNestingDepth \<and> n = count + (cond_nodes c - 1) \<and>
       n \<le> maxMatchConditions \<and> list_all (leaf_ok lib) (cond_leaves c)"
proof (induction lib g depth count and lib cs depth count and lib c depth count arbitrary: n and n and n
    rule: validateMatchGroupShape_validate_conditions_validate_condition.induct)
  case (1 lib op cs depth count)
  then show ?case
    by (cases "depth \<le> maxTestNestingDepth") (auto simp: not_le add_fold_max_le)
next
  case (2 lib depth count)
  then show ?case by auto
next
  case (3 lib c cs depth count)
  show ?case
  proof (cases "Suc count \<le> maxMatchConditions")
    case True
    have c: "validate_condition lib c depth (Suc count) = Inr k \<longleftrightarrow>
        depth + cond_depth c \<le> maxTestNestingDepth \<and> k = count + cond_nodes c \<and>
        k \<le> maxMatchConditions \<and> list_all (leaf_ok lib) (cond_leaves c)" for k
      using "3.IH"(1) [of k] "3.prems" True cond_nodes_pos [of c] by (auto simp: not_less)
    have cs: "validate_conditions lib cs depth k = Inr n \<longleftrightarrow>
        (\<forall>c \<in> set cs. depth + cond_depth c \<le> maxTestNestingDepth) \<and>
        n = k + sum_list (map cond_nodes cs) \<and> n \<le> maxMatchConditions \<and>
        list_all (leaf_ok lib) (concat (map cond_leaves cs))"
      if "validate_condition lib c depth (Suc count) = Inr k" for k
      using "3.IH"(2) [of k n] that c [of k] "3.prems" True by (simp add: not_less)
    show ?thesis
      using True c cs by (auto simp: not_less)
  next
    case False
    with "3.prems" cond_nodes_pos [of c] show ?thesis by auto
  qed
next
  case (4 lib n' g f h cmp v depth count)
  then show ?case by auto
next
  case (5 lib n' f h cmp v depth count)
  then show ?case by (auto simp: leaf_ok_def split: option.splits)
qed

lemma ValidateMatchShape_iff:
  "ValidateMatchShape lib m = None \<longleftrightarrow>
     group_depth m \<le> maxTestNestingDepth \<and> group_nodes m \<le> maxMatchConditions \<and>
     list_all (leaf_ok lib) (group_leaves m)"
proof -
  have "ValidateMatchShape lib m = None \<longleftrightarrow> (\<exists>n. validateMatchGroupShape lib m 1 0 = Inr n)"
    by (auto simp: ValidateMatchShape_def split: sum.splits)
  then show ?thesis by (simp add: validate_shape_iff_aux(1))
qed

subsection \<open>Actions\<close>

definition action_ok :: "action \<Rightarrow> bool" where
  "action_ok a \<longleftrightarrow>
     act_Type a \<in> set knownActionTypes \<and> length (act_Value a) \<le> maxActionValueBytes \<and>
     (act_Type a \<in> set actionsNeedingValue \<longrightarrow> trim_space (act_Value a) \<noteq> [])"

text \<open>Every visibility-changing action is last, or last but for a trailing stop.\<close>

definition visibility_ok :: "action list \<Rightarrow> bool" where
  "visibility_ok as \<longleftrightarrow>
     (\<forall>i < length as. IsVisibilityChanging (act_Type (as ! i)) \<longrightarrow> visibility_last as i)"

lemma stop_not_visible: "\<not> IsVisibilityChanging ''stop''"
  by code_simp

lemma visibility_ok_unique:
  assumes "visibility_ok as" "i < j" "j < length as" "IsVisibilityChanging (act_Type (as ! i))"
  shows "\<not> IsVisibilityChanging (act_Type (as ! j))"
proof -
  from assms have "visibility_last as i" by (simp add: visibility_ok_def)
  with assms(2,3) have "Suc j = length as" "act_Type (last as) = ''stop''"
    by (auto simp: visibility_last_def)
  then have "act_Type (as ! j) = ''stop''"
    using assms(3) by (metis diff_Suc_1 last_conv_nth list.size(3) not_less_zero)
  then show ?thesis by (simp add: stop_not_visible)
qed

lemma validate_actions_Some:
  "validate_actions as i (Some (j, t)) = Inr v \<longleftrightarrow>
     list_all action_ok as \<and> list_all (\<lambda>a. \<not> IsVisibilityChanging (act_Type a)) as \<and> v = Some (j, t)"
  by (induction as arbitrary: i) (auto simp: action_ok_def not_less)

abbreviation visible :: "action \<Rightarrow> bool" where
  "visible a \<equiv> IsVisibilityChanging (act_Type a)"

lemma validate_actions_None_None:
  "validate_actions as i None = Inr None \<longleftrightarrow> list_all action_ok as \<and> \<not> list_ex visible as"
  by (induction as arbitrary: i)
    (auto simp: action_ok_def not_less validate_actions_Some list_all_iff list_ex_iff)

lemma ex_split_Cons:
  "(\<exists>pre b post. x # xs = pre @ b # post \<and> P pre b post) \<longleftrightarrow>
     P [] x xs \<or> (\<exists>pre b post. xs = pre @ b # post \<and> P (x # pre) b post)"
  (is "?l \<longleftrightarrow> ?r")
proof
  assume ?l
  then obtain pre b post where "x # xs = pre @ b # post" "P pre b post" by blast
  then show ?r by (cases pre) auto
next
  assume ?r
  then show ?l by (metis append_Cons append_Nil)
qed

lemma validate_actions_None_Some:
  "validate_actions as i None = Inr (Some (j, t)) \<longleftrightarrow>
     list_all action_ok as \<and>
     (\<exists>pre a post. as = pre @ a # post \<and> j = i + length pre \<and> t = act_Type a \<and> visible a \<and>
        \<not> list_ex visible pre \<and> \<not> list_ex visible post)"
proof (induction as arbitrary: i)
  case Nil
  then show ?case by simp
next
  case (Cons a as)
  show ?case
  proof (cases "visible a")
    case True
    have "(\<exists>pre b post. a # as = pre @ b # post \<and> j = i + length pre \<and> t = act_Type b \<and> visible b \<and>
        \<not> list_ex visible pre \<and> \<not> list_ex visible post) \<longleftrightarrow>
      j = i \<and> t = act_Type a \<and> \<not> list_ex visible as"
      using True by (subst ex_split_Cons) auto
    with True show ?thesis
      by (auto simp: validate_actions_Some action_ok_def not_less list_all_iff list_ex_iff)
  next
    case False
    have "(\<exists>pre b post. a # as = pre @ b # post \<and> j = i + length pre \<and> t = act_Type b \<and> visible b \<and>
        \<not> list_ex visible pre \<and> \<not> list_ex visible post) \<longleftrightarrow>
      (\<exists>pre b post. as = pre @ b # post \<and> j = Suc i + length pre \<and> t = act_Type b \<and> visible b \<and>
        \<not> list_ex visible pre \<and> \<not> list_ex visible post)"
      using False by (subst ex_split_Cons) simp
    with False Cons.IH [of "Suc i"] show ?thesis
      by (auto simp: action_ok_def not_less)
  qed
qed

lemma visibility_ok_no_visible: "\<not> list_ex visible as \<Longrightarrow> visibility_ok as"
  by (auto simp: visibility_ok_def list_ex_iff)

lemma visibility_ok_split:
  assumes "visible a" "\<not> list_ex visible pre" "\<not> list_ex visible post"
  shows "visibility_ok (pre @ a # post) \<longleftrightarrow> visibility_last (pre @ a # post) (length pre)"
proof
  assume "visibility_ok (pre @ a # post)"
  then show "visibility_last (pre @ a # post) (length pre)"
    using assms(1) by (simp add: visibility_ok_def)
next
  let ?as = "pre @ a # post"
  assume l: "visibility_last ?as (length pre)"
  have "i = length pre" if "i < length ?as" "visible (?as ! i)" for i
  proof (rule ccontr)
    assume "i \<noteq> length pre"
    with that(1) have "?as ! i \<in> set pre \<union> set post"
      by (auto simp: nth_append nth_Cons split: nat.splits)
    with that(2) assms show False by (auto simp: list_ex_iff)
  qed
  with l show "visibility_ok ?as" by (auto simp: visibility_ok_def)
qed

lemma ValidateRule_iff:
  "ValidateRule lib r = None \<longleftrightarrow>
     trim_space (rule_Name r) \<noteq> [] \<and> length (rule_Name r) \<le> maxRuleNameBytes \<and>
     ValidateMatchShape lib (rule_Match r) = None \<and> length (rule_Actions r) \<le> maxActionsPerRule \<and>
     list_all action_ok (rule_Actions r) \<and> visibility_ok (rule_Actions r)"
proof -
  let ?as = "rule_Actions r"
  have "(case validate_actions ?as 0 None of Inl e \<Rightarrow> Some e | Inr None \<Rightarrow> None
      | Inr (Some (at, t)) \<Rightarrow> if visibility_last ?as at then None else Some (VisibilityChangeNotLast t)) = None \<longleftrightarrow>
    list_all action_ok ?as \<and> visibility_ok ?as" (is "?l \<longleftrightarrow> ?r")
  proof (cases "list_ex visible ?as")
    case False
    then have "validate_actions ?as 0 None = Inr None \<longleftrightarrow> list_all action_ok ?as"
      by (simp add: validate_actions_None_None)
    moreover have "validate_actions ?as 0 None \<noteq> Inr (Some (at, t))" for at t
      using False by (auto simp: validate_actions_None_Some)
    ultimately show ?thesis
      using False visibility_ok_no_visible [of ?as] by (auto split: sum.splits option.splits)
  next
    case True
    then have no: "validate_actions ?as 0 None \<noteq> Inr None"
      by (simp add: validate_actions_None_None)
    show ?thesis
    proof
      assume ?l
      with no obtain at t where "validate_actions ?as 0 None = Inr (Some (at, t))" "visibility_last ?as at"
        by (auto split: sum.splits option.splits if_splits)
      then show ?r
        unfolding validate_actions_None_Some using visibility_ok_split by fastforce
    next
      assume r: ?r
      from True obtain pre a post where as: "?as = pre @ a # post" "visible a" "\<not> list_ex visible pre"
        using split_list_first_prop [of ?as visible] by (auto simp: list_ex_iff)
      have "\<not> visible b" if "b \<in> set post" for b
      proof -
        from that obtain k where "k < length post" "post ! k = b" by (auto simp: in_set_conv_nth)
        then show ?thesis
          using visibility_ok_unique [of ?as "length pre" "Suc (length pre + k)"] r as
          by (simp add: nth_append)
      qed
      then have post: "\<not> list_ex visible post" by (auto simp: list_ex_iff)
      then have "validate_actions ?as 0 None = Inr (Some (length pre, act_Type a))"
        unfolding validate_actions_None_Some using r as by auto
      with r as post show ?l by (simp add: visibility_ok_split)
    qed
  qed
  then show ?thesis
    by (auto simp: ValidateRule_def not_less split: option.splits)
qed

section \<open>Header names of accepted rules\<close>

lemma group_headers_leaves:
  "h \<in> set (group_headers g) \<Longrightarrow>
     \<exists>c \<in> set (group_leaves g). equal_fold (trim_space (cond_Field c)) ''header'' \<and>
       h = canonical_header_key (trim_space (cond_Header c))"
  "h \<in> set (cond_headers d) \<Longrightarrow>
     \<exists>c \<in> set (cond_leaves d). equal_fold (trim_space (cond_Field c)) ''header'' \<and>
       h = canonical_header_key (trim_space (cond_Header c))"
proof (induction g and d rule: group_leaves_cond_leaves.induct)
  case (1 op cs)
  then obtain d where "d \<in> set cs" "h \<in> set (cond_headers d)" by auto
  with "1.IH" show ?case by fastforce
qed (simp_all split: if_splits)

lemma valid_group_headers_safe:
  assumes "ValidateMatchShape lib m = None" and "h \<in> set (group_headers m)"
  shows "ValidateHeaderFieldName h = None"
proof -
  from assms(2) obtain c where c: "h = canonical_header_key (trim_space (cond_Header c))"
    "c \<in> set (group_leaves m)" "equal_fold (trim_space (cond_Field c)) ''header''"
    using group_headers_leaves(1) by blast
  with assms(1) have "validCustomHeader (cond_Header c)"
    by (auto simp: ValidateMatchShape_iff list_all_iff leaf_ok_def)
  with c(1) show ?thesis by (simp add: validCustomHeader_def Let_def canonical_header_key_safe)
qed

section \<open>Failing actions of accepted rules\<close>

lemma known_action_supported:
  assumes "act_Type a \<in> set knownActionTypes"
  shows "fst (run_action c mailbox mid a s) \<noteq> Some (UnsupportedActionType t)"
proof -
  let ?t = "act_Type a"
  consider "?t = ''keyword''" | "?t = ''unkeyword''" | "?t = ''move''" | "?t = ''read''" | "?t = ''archive''"
    | "?t = ''spam''" | "?t = ''delete''" | "?t = ''stop''"
    using assms unfolding knownActionTypes_def by (simp only: set_simps insert_iff empty_iff) blast
  then show ?thesis by cases (auto simp: run_action_def client_call_def Let_def)
qed

lemma apply_loop_supported:
  assumes "list_all (\<lambda>a. act_Type a \<in> set knownActionTypes) as"
    and "\<forall>r \<in> set results. ar_Err r \<noteq> Some (UnsupportedActionType t)"
  shows "\<forall>r \<in> set (fst (apply_loop c mailbox mid as results p s)). ar_Err r \<noteq> Some (UnsupportedActionType t)"
  using assms
proof (induction as arbitrary: results p s)
  case (Cons a as)
  obtain err s' where run: "run_action c mailbox mid a s = (err, s')" by (metis surj_pair)
  then have "err \<noteq> Some (UnsupportedActionType t)"
    using known_action_supported [of a c mailbox mid s t] Cons.prems(1) by simp
  then have "\<forall>r \<in> set (results @ [\<lparr>ar_Action = a, ar_Err = err\<rparr>]). ar_Err r \<noteq> Some (UnsupportedActionType t)"
    and "\<forall>r \<in> set (results @ [\<lparr>ar_Action = a, ar_Err = Some CtxErr\<rparr>]). ar_Err r \<noteq> Some (UnsupportedActionType t)"
    using Cons.prems(2) by simp_all
  with Cons.IH [OF _ this(1)] Cons.prems(1) run show ?case
    by (cases "poll p"; cases "fst (poll p)") (simp_all add: Let_def)
qed simp

text \<open>
  In a run over actions that pass the gate, a failure of anything but a trailing \<open>stop\<close> comes before
  every visibility change.
\<close>

lemma failure_before_visibility:
  assumes ok: "visibility_ok as" and st: "stops_at_failure as rs" and r: "r \<in> set rs" "ar_Err r \<noteq> None"
    and ns: "act_Type (ar_Action r) \<noteq> ''stop''"
  shows "\<forall>q \<in> set (butlast rs). \<not> visible (ar_Action q)"
proof
  fix q assume q: "q \<in> set (butlast rs)"
  then obtain i where i: "i < length rs - 1" "butlast rs ! i = q"
    by (auto simp: in_set_conv_nth)
  have map: "map ar_Action rs = take (length rs) as" and len: "length rs \<le> length as"
    and pre: "\<forall>r \<in> set (butlast rs). ar_Err r = None"
    using st by (auto simp: stops_at_failure_def) (metis length_map length_take min.cobounded1)
  have nth: "ar_Action (rs ! k) = as ! k" if "k < length rs" for k
    using arg_cong [OF map, of "\<lambda>xs. xs ! k"] that by simp
  have last: "r = last rs"
  proof -
    have "rs = butlast rs @ [last rs]" using r(1) by (metis append_butlast_last_id empty_iff list.set(1))
    with r pre show ?thesis by (metis Un_iff empty_iff insert_iff list.set set_append)
  qed
  let ?n = "length rs - 1"
  from i have n: "?n < length rs" "i < ?n" by simp_all
  have "rs ! i = q" using i n nth_butlast [of i rs] by simp
  moreover have "rs ! ?n = r" using last r(1) last_conv_nth [of rs] by (cases rs) auto
  ultimately have acts: "as ! i = ar_Action q" "as ! ?n = ar_Action r" using nth [of i] nth [of ?n] n by auto
  show "\<not> visible (ar_Action q)"
  proof
    assume "visible (ar_Action q)"
    with ok acts n len have "visibility_last as i" by (auto simp: visibility_ok_def)
    with n len have "Suc ?n = length as" "act_Type (last as) = ''stop''"
      by (auto simp: visibility_last_def)
    then have "as ! ?n = last as" by (metis diff_Suc_1 last_conv_nth list.size(3) nat.distinct(1))
    with acts ns \<open>act_Type (last as) = ''stop''\<close> show False by simp
  qed
qed

section \<open>Properties\<close>

text \<open>
  What the gate accepts. \<open>ValidateRule\<close> accepts a rule exactly when its name is non-blank and
  within its bound; its match tree is at most 32 groups deep and has at most 300 condition nodes, every
  leaf within the value bound, with an acceptable pattern and, for a custom header, an acceptable
  header name; it has at most 20 actions, each of a known type, within the value bound and with a
  value where it needs one; and a visibility-changing action is last, or last but for a trailing stop.
\<close>

theorem ValidateRule_accepts:
  "ValidateRule lib r = None \<longleftrightarrow>
     trim_space (rule_Name r) \<noteq> [] \<and> length (rule_Name r) \<le> maxRuleNameBytes \<and>
     group_depth (rule_Match r) \<le> maxTestNestingDepth \<and> group_nodes (rule_Match r) \<le> maxMatchConditions \<and>
     list_all (leaf_ok lib) (group_leaves (rule_Match r)) \<and>
     length (rule_Actions r) \<le> maxActionsPerRule \<and> list_all action_ok (rule_Actions r) \<and>
     visibility_ok (rule_Actions r)"
  by (simp add: ValidateRule_iff ValidateMatchShape_iff)

text \<open>
  The header names of runnable rules may be written into a \<open>FETCH\<close> command raw. Whatever rules are
  stored, every name \<open>HeaderNames\<close> reports for those \<open>FilterRunnable\<close> keeps passes the header-name guard:
  only atom characters, no colon, at most 76 bytes.
\<close>

theorem runnable_headers_safe:
  "list_all (\<lambda>h. ValidateHeaderFieldName h = None) (HeaderNames (fst (FilterRunnable lib rs)))"
  by (auto simp: list_all_iff set_HeaderNames FilterRunnable_def ValidateRule_iff
      intro: valid_group_headers_safe)

text \<open>
  A failure while a validated rule is applied leaves the message where it can be found again. If an
  action other than a trailing \<open>stop\<close> fails, none of the actions executed before it was one that marks
  the message read or takes it out of its folder; and no action is refused as unsupported.
\<close>

theorem validated_failure_retryable:
  assumes "ValidateRule lib rl = None"
    and "ApplyOutcome c mailbox inp (outcome_of [rl]) p s = (results, p', s')"
    and "r \<in> set results" and "ar_Err r \<noteq> None" and "act_Type (ar_Action r) \<noteq> ''stop''"
  shows "list_all (\<lambda>q. \<not> IsVisibilityChanging (act_Type (ar_Action q))) (butlast results) \<and>
         (\<forall>t. ar_Err r \<noteq> Some (UnsupportedActionType t))"
proof
  let ?run = "apply_loop c mailbox (in_MessageID inp) (rule_Actions rl) [] p s"
  have run: "?run = (results, p', s')" using assms(2) by (simp add: ApplyOutcome_def outcome_of_def)
  then have "stops_at_failure (rule_Actions rl) results"
    using apply_loop_applied [of c mailbox "in_MessageID inp" "rule_Actions rl" "[]" p s] by (auto simp: applied_def)
  with assms show "list_all (\<lambda>q. \<not> IsVisibilityChanging (act_Type (ar_Action q))) (butlast results)"
    unfolding list_all_iff by (intro failure_before_visibility [of "rule_Actions rl" results r]) (auto simp: ValidateRule_iff)
  have "list_all (\<lambda>a. act_Type a \<in> set knownActionTypes) (rule_Actions rl)"
    using assms(1) by (auto simp: ValidateRule_iff action_ok_def list_all_iff)
  then show "\<forall>t. ar_Err r \<noteq> Some (UnsupportedActionType t)"
    using apply_loop_supported [of "rule_Actions rl" "[]" _ c mailbox "in_MessageID inp" p s] run assms(3) by simp
qed

text \<open>A mail client that counts its calls and fails every move.\<close>

definition no_move_client :: "nat imap_client" where
  "no_move_client = \<lparr>ApplyLabel = \<lambda>mid l s. (None, Suc s), RemoveLabel = \<lambda>mid l s. (None, Suc s),
     ApplyInboxAction = \<lambda>mid a mb t s. (if a = ''move'' then Some ''NO'' else None, Suc s)\<rparr>"

definition filing_rule :: rule where
  "filing_rule = demo_rule\<lparr>rule_Actions := [\<lparr>act_Type = ''keyword'', act_Value = ''Bills''\<rparr>,
     \<lparr>act_Type = ''move'', act_Value = ''Archive/Bills''\<rparr>]\<rparr>"

theorem validated_failure_retryable_witness:
  "list_all (\<lambda>q. \<not> IsVisibilityChanging (act_Type (ar_Action q)))
     (butlast (fst (ApplyOutcome no_move_client ''INBOX'' demo_input (outcome_of [filing_rule]) None 0)))"
proof -
  let ?k = "\<lparr>act_Type = ''keyword'', act_Value = ''Bills''\<rparr>"
  let ?m = "\<lparr>act_Type = ''move'', act_Value = ''Archive/Bills''\<rparr>"
  let ?r = "\<lparr>ar_Action = ?m, ar_Err = Some (ClientError ''NO'')\<rparr>"
  have valid: "ValidateRule literal_regexp filing_rule = None" by code_simp
  have run: "ApplyOutcome no_move_client ''INBOX'' demo_input (outcome_of [filing_rule]) None 0 =
      ([\<lparr>ar_Action = ?k, ar_Err = None\<rparr>, ?r], None, 2)" by code_simp
  from validated_failure_retryable [OF valid run, of ?r] show ?thesis unfolding run by simp
qed

end
