(* ===== verification/Sieve_Parse.thy ===== *)
theory Sieve_Parse
  imports Sieve_Lex Rule_Validate
begin

text \<open>
  The recursive-descent parser of \<open>backend/internal/rules/sieve.go\<close>, \<open>ParseRuleText\<close> and below.

  The parser state \<open>(toks, pos)\<close> is the list of the tokens from \<open>pos\<close> on. \<open>next\<close> never moves past the
  last token, so the list never becomes empty. \<open>depth\<close> is kept as the budget
  \<open>maxTestNestingDepth - depth\<close>, on which \<open>parseTest\<close> recurses: \<open>enterTest\<close> fails when it is spent. The
  three \<open>for\<close> loops take fuel; \<open>parse_never_out_of_fuel\<close> below shows that the number of tokens is enough.
\<close>

datatype parse_error =
  LexError lex_error
| ExpectedToken nat string string
| ExpectedTest nat string
| ExpectedAction nat string
| UnsupportedCapability nat string
| UnsupportedComparatorTag nat string
| UnsupportedField nat string
| FieldRequired nat
| UnknownTest nat string
| UnknownAction nat string
| NestingTooDeep nat
| UnbalancedBraces nat
| ContentAfterRule nat
| OutOfFuel

type_synonym 'a parser = "token list \<Rightarrow> (parse_error, 'a \<times> token list) result"

section \<open>The token cursor\<close>

definition peek :: "token list \<Rightarrow> token" where
  "peek ts = (case ts of [] \<Rightarrow> tok TokEOF [] 0 | t # _ \<Rightarrow> t)"

fun next_tok :: "token list \<Rightarrow> token list" where
  "next_tok (t # t' # ts) = t' # ts"
| "next_tok ts = ts"

definition tokenDisplay :: "token \<Rightarrow> string" where
  "tokenDisplay t = (if tok_kind t = TokEOF then ''end of input'' else tok_text t)"

definition expect :: "tok_kind \<Rightarrow> string \<Rightarrow> token parser" where
  "expect kind what ts =
     (let t = peek ts in
      if tok_kind t \<noteq> kind then Inl (ExpectedToken (tok_line t) what (tokenDisplay t))
      else Inr (t, next_tok ts))"

definition expectWord :: "string \<Rightarrow> unit parser" where
  "expectWord w ts =
     (let t = peek ts in
      if tok_kind t \<noteq> TokWord \<or> \<not> equal_fold (tok_text t) w
      then Inl (ExpectedToken (tok_line t) w (tokenDisplay t))
      else Inr ((), next_tok ts))"

definition expectSemicolon :: "unit parser" where
  "expectSemicolon ts = and_then (expect TokSemicolon '';'' ts) (\<lambda>(_, ts'). Inr ((), ts'))"

section \<open>Loops\<close>

text \<open>
  \<open>sep_loop stop item\<close>: items separated by commas, leaving off where no comma follows or where
  \<open>stop\<close> holds before an item. \<open>while_loop go item\<close>: items as long as \<open>go\<close> holds.
\<close>

fun sep_loop :: "(token \<Rightarrow> bool) \<Rightarrow> 'a parser \<Rightarrow> nat \<Rightarrow> 'a list parser" where
  "sep_loop stop item 0 ts = Inl OutOfFuel"
| "sep_loop stop item (Suc n) ts =
     (if stop (peek ts) then Inr ([], ts)
      else and_then (item ts) (\<lambda>(x, ts1).
        if tok_kind (peek ts1) = TokComma
        then and_then (sep_loop stop item n (next_tok ts1)) (\<lambda>(xs, ts2). Inr (x # xs, ts2))
        else Inr ([x], ts1)))"

fun while_loop :: "(token \<Rightarrow> bool) \<Rightarrow> 'a parser \<Rightarrow> nat \<Rightarrow> 'a list parser" where
  "while_loop go item 0 ts = Inl OutOfFuel"
| "while_loop go item (Suc n) ts =
     (if \<not> go (peek ts) then Inr ([], ts)
      else and_then (item ts) (\<lambda>(x, ts1).
        and_then (while_loop go item n ts1) (\<lambda>(xs, ts2). Inr (x # xs, ts2))))"

section \<open>Lists, tags and fields\<close>

definition parse_string_item :: "string parser" where
  "parse_string_item ts = and_then (expect TokString ''string'' ts) (\<lambda>(s, ts'). Inr (tok_text s, ts'))"

definition parseStringList :: "string list parser" where
  "parseStringList ts =
     and_then (expect TokLBracket ''['' ts) (\<lambda>(_, ts1).
       and_then (sep_loop (\<lambda>t. tok_kind t = TokRBracket) parse_string_item (length ts1) ts1) (\<lambda>(out, ts2).
         and_then (expect TokRBracket '']'' ts2) (\<lambda>(_, ts3). Inr (out, ts3))))"

definition parseComparatorTag :: "string \<Rightarrow> string parser" where
  "parseComparatorTag defaultComparator ts =
     (let t = peek ts in
      if tok_kind t \<noteq> TokColonTag then Inr (defaultComparator, ts)
      else if to_lower (tok_text t) \<in> set [''contains'', ''is'', ''matches'', ''regex'']
        then Inr (to_lower (tok_text t), next_tok ts)
      else Inl (UnsupportedComparatorTag (tok_line t) (tok_text t)))"

definition field_leaf :: "string \<Rightarrow> string \<Rightarrow> string \<Rightarrow> condition" where
  "field_leaf comparator val f =
     (if normalizeField f \<in> set validHeaderAddressFields
      then leaf False (normalizeField f) [] comparator val
      else leaf False ''header'' (canonical_header_key (trim_space f)) comparator val)"

definition fieldsToCondition :: "string list \<Rightarrow> string \<Rightarrow> string \<Rightarrow> condition" where
  "fieldsToCondition flds comparator val =
     (case flds of
        [f] \<Rightarrow> field_leaf comparator val f
      | _ \<Rightarrow> group_cond False (MatchGroup ''anyof'' (map (field_leaf comparator val) flds)))"

text \<open>The first field the \<open>for\<close> loop refuses.\<close>

definition bad_field :: "bool \<Rightarrow> string list \<Rightarrow> string option" where
  "bad_field allowCustom flds =
     find (\<lambda>f. normalizeField f \<notin> set validHeaderAddressFields \<and> \<not> (allowCustom \<and> validCustomHeader f)) flds"

definition set_negate :: "condition \<Rightarrow> condition" where
  "set_negate c =
     Condition (\<not> cond_Negate c) (cond_Group c) (cond_Field c) (cond_Header c) (cond_Comparator c) (cond_Value c)"

section \<open>Tests\<close>

definition parse_header_test :: "nat \<Rightarrow> bool \<Rightarrow> condition parser" where
  "parse_header_test line isHeader ts =
     and_then (parseComparatorTag ''is'' ts) (\<lambda>(comparator, ts1).
       and_then (parseStringList ts1) (\<lambda>(flds, ts2).
         and_then (expect TokString ''string value'' ts2) (\<lambda>(valueTok, ts3).
           if flds = [] then Inl (FieldRequired line)
           else (case bad_field isHeader flds of
                   Some f \<Rightarrow> Inl (UnsupportedField line f)
                 | None \<Rightarrow> Inr (fieldsToCondition flds comparator (tok_text valueTok), ts3)))))"

definition parse_exists_test :: "nat \<Rightarrow> condition parser" where
  "parse_exists_test line ts =
     and_then (parseStringList ts) (\<lambda>(flds, ts1).
       if flds = [] then Inl (FieldRequired line)
       else (case bad_field True flds of
               Some f \<Rightarrow> Inl (UnsupportedField line f)
             | None \<Rightarrow> Inr (fieldsToCondition flds ''exists'' [], ts1)))"

definition parse_value_test :: "string \<Rightarrow> string \<Rightarrow> condition parser" where
  "parse_value_test field defaultComparator ts =
     and_then (parseComparatorTag defaultComparator ts) (\<lambda>(comparator, ts1).
       and_then (expect TokString ''string value'' ts1) (\<lambda>(valueTok, ts2).
         Inr (leaf False field [] comparator (tok_text valueTok), ts2)))"

text \<open>
  One level of \<open>parseTest\<close>. \<open>sub\<close> is \<open>parseTest\<close> one level deeper, \<open>None\<close> when \<open>enterTest\<close> refuses.
\<close>

definition enterTest :: "nat \<Rightarrow> condition parser option \<Rightarrow> (parse_error, condition parser) result" where
  "enterTest line sub = (case sub of None \<Rightarrow> Inl (NestingTooDeep line) | Some p \<Rightarrow> Inr p)"

definition parse_group_test :: "string \<Rightarrow> condition parser \<Rightarrow> condition parser" where
  "parse_group_test op p ts =
     and_then (expect TokLParen ''('' ts) (\<lambda>(_, ts1).
       and_then (sep_loop (\<lambda>_. False) p (length ts1) ts1) (\<lambda>(conds, ts2).
         and_then (expect TokRParen '')'' ts2) (\<lambda>(_, ts3).
           Inr (group_cond False (MatchGroup op conds), ts3))))"

definition parse_test_level :: "condition parser option \<Rightarrow> condition parser" where
  "parse_test_level sub ts =
     (let t = peek ts; w = tok_text t; line = tok_line t; ts' = next_tok ts in
      if tok_kind t \<noteq> TokWord then Inl (ExpectedTest line (tokenDisplay t))
      else if equal_fold w ''not'' then
        and_then (enterTest line sub) (\<lambda>p. and_then (p ts') (\<lambda>(inner, ts1). Inr (set_negate inner, ts1)))
      else if equal_fold w ''allof'' \<or> equal_fold w ''anyof'' then
        and_then (enterTest line sub) (\<lambda>p. parse_group_test (to_lower w) p ts')
      else if equal_fold w ''header'' \<or> equal_fold w ''address'' then
        parse_header_test line (equal_fold w ''header'') ts'
      else if equal_fold w ''exists'' then parse_exists_test line ts'
      else if equal_fold w ''body'' then parse_value_test ''body'' ''contains'' ts'
      else if equal_fold w ''hasflag'' then parse_value_test ''keyword'' ''is'' ts'
      else Inl (UnknownTest line w))"

fun parseTest :: "nat \<Rightarrow> condition parser" where
  "parseTest 0 ts = parse_test_level None ts"
| "parseTest (Suc k) ts = parse_test_level (Some (parseTest k)) ts"

section \<open>Actions\<close>

text \<open>\<open>keep\<close> is the action the parser recognises and \<open>ParseRuleText\<close> drops.\<close>

definition act :: "string \<Rightarrow> string \<Rightarrow> action" where
  "act t v = \<lparr>act_Type = t, act_Value = v\<rparr>"

definition plain_action :: "string \<Rightarrow> action parser" where
  "plain_action t ts = and_then (expectSemicolon ts) (\<lambda>(_, ts1). Inr (act t [], ts1))"

definition value_action :: "string \<Rightarrow> string \<Rightarrow> action parser" where
  "value_action t what ts =
     and_then (expect TokString what ts) (\<lambda>(v, ts1).
       and_then (expectSemicolon ts1) (\<lambda>(_, ts2). Inr (act t (tok_text v), ts2)))"

definition parseAction :: "action parser" where
  "parseAction ts =
     (let t = peek ts; name = to_lower (tok_text t); ts' = next_tok ts in
      if tok_kind t \<noteq> TokWord then Inl (ExpectedAction (tok_line t) (tokenDisplay t))
      else if name = ''fileinto'' then value_action ''move'' ''folder string'' ts'
      else if name = ''discard'' then plain_action ''delete'' ts'
      else if name = ''keep'' then plain_action ''keep'' ts'
      else if name = ''stop'' then plain_action ''stop'' ts'
      else if name = ''addflag'' then value_action ''keyword'' ''keyword string'' ts'
      else if name = ''removeflag'' then value_action ''unkeyword'' ''keyword string'' ts'
      else if name = ''markread'' then plain_action ''read'' ts'
      else if name = ''archive'' then plain_action ''archive'' ts'
      else if name = ''markspam'' then plain_action ''spam'' ts'
      else Inl (UnknownAction (tok_line t) name))"

text \<open>A turn of the action loop: the end of input before the closing brace is an error.\<close>

definition action_item :: "action parser" where
  "action_item ts =
     (if tok_kind (peek ts) = TokEOF then Inl (UnbalancedBraces (tok_line (peek ts))) else parseAction ts)"

section \<open>Scripts\<close>

definition allowedCapabilities :: "string list" where
  "allowedCapabilities = [''fileinto'', ''body'', ''regex'', ''imap4flags'', ''kymail'']"

definition require_item :: "unit parser" where
  "require_item ts =
     (let line = tok_line (peek ts) in
      and_then (parseStringList (next_tok ts)) (\<lambda>(caps, ts1).
        and_then (expectSemicolon ts1) (\<lambda>(_, ts2).
          case find (\<lambda>c. to_lower (trim_space c) \<notin> set allowedCapabilities) caps of
            Some c \<Rightarrow> Inl (UnsupportedCapability line c)
          | None \<Rightarrow> Inr ((), ts2))))"

definition is_require :: "token \<Rightarrow> bool" where
  "is_require t \<longleftrightarrow> tok_kind t = TokWord \<and> equal_fold (tok_text t) ''require''"

definition root_match :: "condition \<Rightarrow> match_group" where
  "root_match rootCond =
     (case cond_Group rootCond of Some g \<Rightarrow> g | None \<Rightarrow> MatchGroup ''allof'' [rootCond])"

definition parse_script :: "token list \<Rightarrow> (parse_error, match_group \<times> action list) result" where
  "parse_script ts =
     and_then (while_loop is_require require_item (length ts) ts) (\<lambda>(_, ts1).
     and_then (expectWord ''if'' ts1) (\<lambda>(_, ts2).
     and_then (parseTest maxTestNestingDepth ts2) (\<lambda>(rootCond, ts3).
     and_then (expect TokLBrace ''{'' ts3) (\<lambda>(_, ts4).
     and_then (while_loop (\<lambda>t. tok_kind t \<noteq> TokRBrace) action_item (length ts4) ts4) (\<lambda>(actions, ts5).
     and_then (expect TokRBrace ''}'' ts5) (\<lambda>(_, ts6).
       if tok_kind (peek ts6) \<noteq> TokEOF then Inl (ContentAfterRule (tok_line (peek ts6)))
       else Inr (root_match rootCond, filter (\<lambda>a. act_Type a \<noteq> ''keep'') actions)))))))"

definition ParseRuleText :: "string \<Rightarrow> rule \<Rightarrow> (parse_error, rule) result" where
  "ParseRuleText src existing =
     (case lexSieve src of
        Inl e \<Rightarrow> Inl (LexError e)
      | Inr toks \<Rightarrow>
          and_then (parse_script toks) (\<lambda>(match, actions).
            Inr (existing\<lparr>rule_Match := match, rule_Actions := actions\<rparr>)))"

end
