(* ===== verification/Sieve_Total.thy ===== *)
theory Sieve_Total
  imports Sieve_Parse
begin

text \<open>
  The Sieve parser is total: on a token list that ends in the end-of-input token, as the lexer
  produces it, every loop gets by with as much fuel as there are tokens. Parsers are graded by what
  they do to the cursor, \<open>consumes\<close> (at least one token) and \<open>keeps\<close> (none or more), and the grades
  compose; the interface a loop needs of its item is the locale \<open>token_item\<close>.
\<close>

section \<open>Token streams\<close>

definition eof_terminated :: "token list \<Rightarrow> bool" where
  "eof_terminated ts \<longleftrightarrow> ts \<noteq> [] \<and> tok_kind (last ts) = TokEOF"

lemma lex_from_eof: "lex_from s line = Inr ts \<Longrightarrow> eof_terminated ts"
proof (induction s line arbitrary: ts rule: lex_from.induct)
  case (1 s line)
  show ?case
  proof (cases "\<exists>r s' line' t s'' line''. skipWhitespaceAndComments s line = Inr (r # s', line') \<and>
      lex_token r s' line' = Inr (t, s'', line'')")
    case True
    then obtain r s' line' t s'' line'' where
      a: "skipWhitespaceAndComments s line = Inr (r # s', line')" "lex_token r s' line' = Inr (t, s'', line'')"
      by blast
    with "1.prems" obtain us where us: "lex_from s'' line'' = Inr us" "ts = t # us"
      by (subst (asm) lex_from.simps) auto
    with "1.IH" a have "eof_terminated us" by simp
    with us show ?thesis by (simp add: eof_terminated_def)
  next
    case False
    with "1.prems" show ?thesis
      by (subst (asm) lex_from.simps)
        (auto simp: eof_terminated_def split: sum.splits prod.splits list.splits)
  qed
qed

lemma next_tok_eof:
  assumes "eof_terminated ts" and "tok_kind (peek ts) \<noteq> TokEOF"
  shows "eof_terminated (next_tok ts)" and "length (next_tok ts) < length ts"
  using assms by (cases ts rule: next_tok.cases; simp add: eof_terminated_def peek_def)+

lemma next_tok_length: "length (next_tok ts) \<le> length ts"
  by (cases ts rule: next_tok.cases) simp_all

section \<open>Grades\<close>

text \<open>\<open>advances d ts r\<close>: \<open>r\<close> is no lack of fuel, and a success leaves at least \<open>d\<close> tokens behind.\<close>

definition advances :: "nat \<Rightarrow> token list \<Rightarrow> (parse_error, 'a \<times> token list) result \<Rightarrow> bool" where
  "advances d ts r =
     (case r of Inl e \<Rightarrow> e \<noteq> OutOfFuel | Inr (x, ts') \<Rightarrow> eof_terminated ts' \<and> length ts' + d \<le> length ts)"

definition keeps :: "'a parser \<Rightarrow> bool" where
  "keeps p \<longleftrightarrow> (\<forall>ts. eof_terminated ts \<longrightarrow> advances 0 ts (p ts))"

definition consumes :: "'a parser \<Rightarrow> bool" where
  "consumes p \<longleftrightarrow> (\<forall>ts. eof_terminated ts \<longrightarrow> advances 1 ts (p ts))"

named_theorems grade \<open>composition of parser grades\<close>

lemma advances_simps [simp]:
  "advances d ts (Inl e) \<longleftrightarrow> e \<noteq> OutOfFuel"
  "advances d ts (Inr (x, ts')) \<longleftrightarrow> eof_terminated ts' \<and> length ts' + d \<le> length ts"
  by (simp_all add: advances_def)

lemma advances_mono: "advances d ts r \<Longrightarrow> d' \<le> d \<Longrightarrow> length ts \<le> length ts' \<Longrightarrow> advances d' ts' r"
  by (auto simp: advances_def split: sum.splits)

lemma advances_bind:
  assumes "advances d ts r" and "\<And>x ts'. r = Inr (x, ts') \<Longrightarrow> eof_terminated ts' \<Longrightarrow> advances e ts' (f x ts')"
  shows "advances (d + e) ts (and_then r (\<lambda>(x, ts'). f x ts'))"
proof (cases r)
  case (Inr y)
  then obtain x ts' where "r = Inr (x, ts')" by (cases y) auto
  with assms(1) assms(2) [OF this] show ?thesis
    by (cases "f x ts'") auto
qed (use assms in simp)

lemma consumes_keeps: "consumes p \<Longrightarrow> keeps p"
  unfolding consumes_def keeps_def using advances_mono [where d' = 0 and d = 1] by blast

lemma keeps_return [grade]: "keeps (\<lambda>ts. Inr (x, ts))"
  by (simp add: keeps_def)

lemma consumes_fail [grade]: "e \<noteq> OutOfFuel \<Longrightarrow> consumes (\<lambda>ts. Inl e)"
  by (simp add: consumes_def)

lemma keeps_fail [grade]: "e \<noteq> OutOfFuel \<Longrightarrow> keeps (\<lambda>ts. Inl e)"
  by (simp add: keeps_def)

lemma consumes_bind [grade]:
  "consumes p \<Longrightarrow> (\<And>x. keeps (f x)) \<Longrightarrow> consumes (\<lambda>ts. and_then (p ts) (\<lambda>(x, ts'). f x ts'))"
  unfolding consumes_def keeps_def using advances_bind [where d = 1 and e = 0] by fastforce

lemma keeps_bind [grade]:
  "keeps p \<Longrightarrow> (\<And>x. keeps (f x)) \<Longrightarrow> keeps (\<lambda>ts. and_then (p ts) (\<lambda>(x, ts'). f x ts'))"
  unfolding keeps_def using advances_bind [where d = 0 and e = 0] by fastforce

lemma keeps_bind_consumes:
  "keeps p \<Longrightarrow> (\<And>x. consumes (f x)) \<Longrightarrow> consumes (\<lambda>ts. and_then (p ts) (\<lambda>(x, ts'). f x ts'))"
  unfolding consumes_def keeps_def using advances_bind [where d = 0 and e = 1] by fastforce

lemma keeps_if [grade]: "keeps p \<Longrightarrow> keeps q \<Longrightarrow> keeps (\<lambda>ts. if b then p ts else q ts)"
  by (simp add: keeps_def)

lemma keeps_case [grade]:
  "keeps p \<Longrightarrow> (\<And>y. keeps (q y)) \<Longrightarrow> keeps (\<lambda>ts. case o' of None \<Rightarrow> p ts | Some y \<Rightarrow> q y ts)"
  by (cases o') (simp_all add: keeps_def)

lemma next_tok_advances:
  "eof_terminated ts \<Longrightarrow> tok_kind (peek ts) \<noteq> TokEOF \<Longrightarrow> Suc (length (next_tok ts)) \<le> length ts"
  using next_tok_eof(2) by (simp add: Suc_le_eq)

lemma consumes_expect [grade]: "kind \<noteq> TokEOF \<Longrightarrow> consumes (expect kind what)"
  by (simp add: consumes_def expect_def Let_def next_tok_eof next_tok_advances)

lemma consumes_expectWord [grade]: "consumes (expectWord w)"
  by (simp add: consumes_def expectWord_def Let_def next_tok_eof next_tok_advances)

lemma consumes_expectSemicolon [grade]: "consumes expectSemicolon"
proof -
  have "consumes (\<lambda>ts. and_then (expect TokSemicolon '';'' ts) (\<lambda>(_, ts'). Inr ((), ts')))"
    by (intro grade) simp
  then show ?thesis by (simp add: expectSemicolon_def [abs_def])
qed

section \<open>Loops\<close>

locale token_item =
  fixes item :: "'a parser"
  assumes item_consumes: "consumes item"
begin

lemma item_advances: "eof_terminated ts \<Longrightarrow> advances 1 ts (item ts)"
  using item_consumes by (simp add: consumes_def)

lemma sep_loop_total: "eof_terminated ts \<Longrightarrow> length ts \<le> n \<Longrightarrow> advances 0 ts (sep_loop stop item n ts)"
proof (induction n arbitrary: ts)
  case 0
  then show ?case by (simp add: eof_terminated_def)
next
  case (Suc n)
  show ?case
  proof (cases "item ts")
    case (Inl e)
    with item_advances [OF Suc.prems(1)] Suc.prems(1) show ?thesis by simp
  next
    case (Inr y)
    then obtain x ts1 where it: "item ts = Inr (x, ts1)" by (cases y) auto
    with item_advances [OF Suc.prems(1)] have ts1: "eof_terminated ts1" "length ts1 < length ts" by auto
    have "advances 0 (next_tok ts1) (sep_loop stop item n (next_tok ts1))" if "tok_kind (peek ts1) = TokComma"
      by (rule Suc.IH) (use next_tok_eof [OF ts1(1)] that ts1 Suc.prems(2) in auto)
    then have "advances 0 ts (sep_loop stop item n (next_tok ts1))" if "tok_kind (peek ts1) = TokComma"
      by (rule advances_mono) (use that next_tok_length [of ts1] ts1 in auto)
    with it ts1 Suc.prems(1) show ?thesis
      by (cases "sep_loop stop item n (next_tok ts1)") auto
  qed
qed

lemma keeps_sep_loop: "keeps (\<lambda>ts. sep_loop stop item (length ts) ts)"
  by (simp add: keeps_def sep_loop_total)

lemma while_loop_total: "eof_terminated ts \<Longrightarrow> length ts \<le> n \<Longrightarrow> advances 0 ts (while_loop go item n ts)"
proof (induction n arbitrary: ts)
  case 0
  then show ?case by (simp add: eof_terminated_def)
next
  case (Suc n)
  show ?case
  proof (cases "item ts")
    case (Inl e)
    with item_advances [OF Suc.prems(1)] Suc.prems(1) show ?thesis by simp
  next
    case (Inr y)
    then obtain x ts1 where it: "item ts = Inr (x, ts1)" by (cases y) auto
    with item_advances [OF Suc.prems(1)] have ts1: "eof_terminated ts1" "length ts1 < length ts" by auto
    then have "advances 0 ts (while_loop go item n ts1)"
      using Suc.IH [of ts1] Suc.prems(2) by (auto elim: advances_mono)
    with it ts1 Suc.prems(1) show ?thesis
      by (cases "while_loop go item n ts1") auto
  qed
qed

lemma keeps_while_loop: "keeps (\<lambda>ts. while_loop go item (length ts) ts)"
  by (simp add: keeps_def while_loop_total)

end

section \<open>The parsers of the grammar\<close>

lemma consumes_parse_string_item [grade]: "consumes parse_string_item"
proof -
  have "consumes (\<lambda>ts. and_then (expect TokString ''string'' ts) (\<lambda>(s, ts'). Inr (tok_text s, ts')))"
    by (intro grade) simp
  then show ?thesis by (simp add: parse_string_item_def [abs_def])
qed

interpretation string_item: token_item parse_string_item
  by unfold_locales (rule consumes_parse_string_item)

lemma consumes_parseStringList [grade]: "consumes parseStringList"
  unfolding parseStringList_def [abs_def]
  by (intro grade string_item.keeps_sep_loop consumes_expect [THEN consumes_keeps]) simp_all

lemma keeps_parseComparatorTag [grade]: "keeps (parseComparatorTag d)"
  using next_tok_length by (auto simp: keeps_def parseComparatorTag_def Let_def next_tok_eof)

lemma consumes_parse_header_test [grade]: "consumes (parse_header_test line b)"
  unfolding parse_header_test_def [abs_def]
  by (intro keeps_bind_consumes keeps_parseComparatorTag consumes_bind consumes_parseStringList
      consumes_expect [THEN consumes_keeps] grade) simp_all

lemma consumes_parse_exists_test [grade]: "consumes (parse_exists_test line)"
  unfolding parse_exists_test_def [abs_def] by (intro grade) simp_all

lemma consumes_parse_value_test [grade]: "consumes (parse_value_test f d)"
  unfolding parse_value_test_def [abs_def]
  by (intro keeps_bind_consumes grade) simp_all

lemma consumes_parse_group_test:
  assumes "consumes p" shows "consumes (parse_group_test op p)"
proof -
  have "token_item p" by unfold_locales (rule assms)
  then show ?thesis
    unfolding parse_group_test_def [abs_def]
    by (intro grade token_item.keeps_sep_loop consumes_expect [THEN consumes_keeps]) simp_all
qed

text \<open>After a word, whatever keeps the cursor in order has consumed a token.\<close>

lemma consumes_word:
  assumes "\<And>t. keeps (p t)" and e: "\<And>t. e t \<noteq> OutOfFuel"
  shows "consumes (\<lambda>ts. if tok_kind (peek ts) \<noteq> TokWord then Inl (e (peek ts)) else p (peek ts) (next_tok ts))"
proof -
  have "advances 1 ts (p (peek ts) (next_tok ts))" if "eof_terminated ts" "tok_kind (peek ts) = TokWord" for ts
  proof -
    have "eof_terminated (next_tok ts)" "Suc (length (next_tok ts)) \<le> length ts"
      using that by (simp_all add: next_tok_eof next_tok_advances)
    moreover from this have "advances 0 (next_tok ts) (p (peek ts) (next_tok ts))"
      using assms by (simp add: keeps_def)
    ultimately show ?thesis by (auto simp: advances_def split: sum.splits)
  qed
  with e show ?thesis by (simp add: consumes_def)
qed

lemma consumes_enterTest:
  assumes "\<And>p. sub = Some p \<Longrightarrow> consumes (f p)"
  shows "keeps (\<lambda>ts. and_then (enterTest line sub) (\<lambda>p. f p ts))"
  using assms by (cases sub) (auto simp: enterTest_def consumes_keeps grade)

lemma consumes_parse_test_level:
  assumes sub: "\<And>p. sub = Some p \<Longrightarrow> consumes p"
  shows "consumes (parse_test_level sub)"
proof -
  let ?body = "\<lambda>t ts'.
      if equal_fold (tok_text t) ''not'' then
        and_then (enterTest (tok_line t) sub) (\<lambda>p. and_then (p ts') (\<lambda>(inner, ts1). Inr (set_negate inner, ts1)))
      else if equal_fold (tok_text t) ''allof'' \<or> equal_fold (tok_text t) ''anyof'' then
        and_then (enterTest (tok_line t) sub) (\<lambda>p. parse_group_test (to_lower (tok_text t)) p ts')
      else if equal_fold (tok_text t) ''header'' \<or> equal_fold (tok_text t) ''address'' then
        parse_header_test (tok_line t) (equal_fold (tok_text t) ''header'') ts'
      else if equal_fold (tok_text t) ''exists'' then parse_exists_test (tok_line t) ts'
      else if equal_fold (tok_text t) ''body'' then parse_value_test ''body'' ''contains'' ts'
      else if equal_fold (tok_text t) ''hasflag'' then parse_value_test ''keyword'' ''is'' ts'
      else Inl (UnknownTest (tok_line t) (tok_text t))"
  have "keeps (?body t)" for t
    by (intro keeps_if consumes_enterTest consumes_bind consumes_parse_group_test sub
        consumes_parse_header_test [THEN consumes_keeps] consumes_parse_exists_test [THEN consumes_keeps]
        consumes_parse_value_test [THEN consumes_keeps] keeps_fail keeps_return) simp_all
  from consumes_word [where p = ?body and e = "\<lambda>t. ExpectedTest (tok_line t) (tokenDisplay t)", OF this]
  show ?thesis by (simp add: parse_test_level_def [abs_def] Let_def)
qed

lemma consumes_parseTest [grade]: "consumes (parseTest k)"
proof (induction k)
  case 0
  have "parseTest 0 = parse_test_level None" by (rule ext) simp
  with consumes_parse_test_level [of None] show ?case by simp
next
  case (Suc k)
  have "parseTest (Suc k) = parse_test_level (Some (parseTest k))" by (rule ext) simp
  with Suc consumes_parse_test_level [of "Some (parseTest k)"] show ?case by simp
qed

lemma keeps_plain_action [grade]: "keeps (plain_action t)"
  unfolding plain_action_def [abs_def]
  by (intro keeps_bind consumes_expectSemicolon [THEN consumes_keeps] grade)

lemma keeps_value_action [grade]: "keeps (value_action t what)"
  unfolding value_action_def [abs_def]
  by (intro keeps_bind consumes_expectSemicolon [THEN consumes_keeps] consumes_expect [THEN consumes_keeps]
      keeps_return) simp

lemma consumes_parseAction [grade]: "consumes parseAction"
proof -
  let ?body = "\<lambda>t ts'.
      if to_lower (tok_text t) = ''fileinto'' then value_action ''move'' ''folder string'' ts'
      else if to_lower (tok_text t) = ''discard'' then plain_action ''delete'' ts'
      else if to_lower (tok_text t) = ''keep'' then plain_action ''keep'' ts'
      else if to_lower (tok_text t) = ''stop'' then plain_action ''stop'' ts'
      else if to_lower (tok_text t) = ''addflag'' then value_action ''keyword'' ''keyword string'' ts'
      else if to_lower (tok_text t) = ''removeflag'' then value_action ''unkeyword'' ''keyword string'' ts'
      else if to_lower (tok_text t) = ''markread'' then plain_action ''read'' ts'
      else if to_lower (tok_text t) = ''archive'' then plain_action ''archive'' ts'
      else if to_lower (tok_text t) = ''markspam'' then plain_action ''spam'' ts'
      else Inl (UnknownAction (tok_line t) (to_lower (tok_text t)))"
  have "keeps (?body t)" for t
    by (intro keeps_if keeps_plain_action keeps_value_action keeps_fail) simp
  from consumes_word [where p = ?body and e = "\<lambda>t. ExpectedAction (tok_line t) (tokenDisplay t)", OF this]
  show ?thesis by (simp add: parseAction_def [abs_def] Let_def)
qed

lemma consumes_action_item: "consumes action_item"
  using consumes_parseAction by (simp add: consumes_def action_item_def)

interpretation action_item: token_item action_item
  by unfold_locales (rule consumes_action_item)

text \<open>
  The require loop runs its item only on the word \<open>require\<close>, where it consumes; the parser below is
  the item as the loop sees it.
\<close>

definition guarded_require :: "unit parser" where
  "guarded_require ts = (if tok_kind (peek ts) \<noteq> TokWord then Inl (ExpectedTest 0 []) else require_item ts)"

lemma consumes_guarded_require: "consumes guarded_require"
proof -
  let ?body = "\<lambda>t. \<lambda>ts'. and_then (parseStringList ts') (\<lambda>(caps, ts1).
        and_then (expectSemicolon ts1) (\<lambda>(_, ts2).
          case find (\<lambda>c. to_lower (trim_space c) \<notin> set allowedCapabilities) caps of
            Some c \<Rightarrow> Inl (UnsupportedCapability (tok_line t) c)
          | None \<Rightarrow> Inr ((), ts2)))"
  have "keeps (?body t)" for t
    by (intro keeps_bind consumes_parseStringList [THEN consumes_keeps]
        consumes_expectSemicolon [THEN consumes_keeps] keeps_case keeps_fail keeps_return) simp
  from consumes_word [where p = ?body and e = "\<lambda>_. ExpectedTest 0 []", OF this]
  show ?thesis unfolding guarded_require_def [abs_def] require_item_def Let_def by simp
qed

interpretation require_item: token_item guarded_require
  by unfold_locales (rule consumes_guarded_require)

lemma while_loop_require: "while_loop is_require require_item n ts = while_loop is_require guarded_require n ts"
  by (induction n arbitrary: ts) (auto simp: is_require_def guarded_require_def intro!: arg_cong2 [where f = and_then])

lemma keeps_require_loop: "keeps (\<lambda>ts. while_loop is_require require_item (length ts) ts)"
  using require_item.keeps_while_loop by (simp add: while_loop_require)

text \<open>
  \<open>parse_script\<close> returns no cursor; the same parser with its final cursor is graded instead.
\<close>

lemma parse_script_total:
  assumes "eof_terminated ts" shows "parse_script ts \<noteq> Inl OutOfFuel"
proof -
  let ?p = "\<lambda>ts. and_then (while_loop is_require require_item (length ts) ts) (\<lambda>(_, ts1).
     and_then (expectWord ''if'' ts1) (\<lambda>(_, ts2).
     and_then (parseTest maxTestNestingDepth ts2) (\<lambda>(rootCond, ts3).
     and_then (expect TokLBrace ''{'' ts3) (\<lambda>(_, ts4).
     and_then (while_loop (\<lambda>t. tok_kind t \<noteq> TokRBrace) action_item (length ts4) ts4) (\<lambda>(actions, ts5).
     and_then (expect TokRBrace ''}'' ts5) (\<lambda>(_, ts6). Inr ((rootCond, actions), ts6)))))))"
  have "keeps ?p"
    by (intro keeps_bind keeps_require_loop consumes_expectWord [THEN consumes_keeps]
        consumes_parseTest [THEN consumes_keeps] consumes_expect [THEN consumes_keeps]
        action_item.keeps_while_loop keeps_return) simp_all
  with assms have "?p ts \<noteq> Inl OutOfFuel" by (auto simp: keeps_def advances_def split: sum.splits)
  then show ?thesis
    unfolding parse_script_def and_then_eq_Inl by (auto simp: and_then_eq_Inl split: if_splits)
qed

end
