(* ===== verification/Sieve_Print.thy ===== *)
theory Sieve_Print
  imports Rule_Model
begin

text \<open>
  \<open>CompileRule\<close> of \<open>backend/internal/rules/sieve.go\<close>: a rule printed as a Sieve-subset script.
\<close>

datatype compile_error = UnsupportedConditionField string | UnsupportedCompileAction string

section \<open>Quoting\<close>

definition sieveEscaper :: "string \<Rightarrow> string" where
  "sieveEscaper s =
     concat (map (\<lambda>c. if c = CHR 0x5C then [CHR 0x5C, CHR 0x5C]
                      else if c = CHR 0x22 then [CHR 0x5C, CHR 0x22] else [c]) s)"

definition sieveQuote :: "string \<Rightarrow> string" where
  "sieveQuote s = [CHR 0x22] @ sieveEscaper s @ [CHR 0x22]"

section \<open>Capabilities\<close>

fun matchGroupUsesField :: "match_group \<Rightarrow> string \<Rightarrow> bool" and cond_uses_field :: "condition \<Rightarrow> string \<Rightarrow> bool" where
  "matchGroupUsesField (MatchGroup op cs) field = list_ex (\<lambda>c. cond_uses_field c field) cs"
| "cond_uses_field (Condition n (Some g) f h cmp v) field = matchGroupUsesField g field"
| "cond_uses_field (Condition n None f h cmp v) field = equal_fold f field"

fun matchGroupUsesComparator :: "match_group \<Rightarrow> string \<Rightarrow> bool" and cond_uses_comparator :: "condition \<Rightarrow> string \<Rightarrow> bool" where
  "matchGroupUsesComparator (MatchGroup op cs) comparator = list_ex (\<lambda>c. cond_uses_comparator c comparator) cs"
| "cond_uses_comparator (Condition n (Some g) f h cmp v) comparator = matchGroupUsesComparator g comparator"
| "cond_uses_comparator (Condition n None f h cmp v) comparator = (cmp = comparator)"

definition usesCapability :: "rule \<Rightarrow> string \<Rightarrow> bool" where
  "usesCapability r capability =
     (let types = map act_Type (rule_Actions r) in
      if capability = ''fileinto'' then ''move'' \<in> set types
      else if capability = ''imap4flags'' then
        ''keyword'' \<in> set types \<or> ''unkeyword'' \<in> set types \<or> matchGroupUsesField (rule_Match r) ''keyword''
      else if capability = ''kymail'' then
        ''read'' \<in> set types \<or> ''archive'' \<in> set types \<or> ''spam'' \<in> set types
      else if capability = ''body'' then matchGroupUsesField (rule_Match r) ''body''
      else if capability = ''regex'' then matchGroupUsesComparator (rule_Match r) ''regex''
      else False)"

section \<open>Tests and actions\<close>

definition comparatorTag :: "string \<Rightarrow> string" where
  "comparatorTag comparator =
     (if to_lower (trim_space comparator) \<in> set [''contains'', ''is'', ''matches'', ''regex'']
      then to_lower comparator else ''is'')"

definition compileLeafCondition :: "string \<Rightarrow> string \<Rightarrow> string \<Rightarrow> string \<Rightarrow> (compile_error, string) result" where
  "compileLeafCondition field0 hdr comparator val =
     (let field = to_lower (trim_space field0) in
      if field \<in> set [''from'', ''to'', ''cc'', ''bcc'', ''subject''] then
        (if equal_fold comparator ''exists'' then Inr (''exists ['' @ sieveQuote field @ '']'')
         else Inr (''header :'' @ comparatorTag comparator @ '' ['' @ sieveQuote field @ ''] '' @ sieveQuote val))
      else if field = ''header'' then
        (let name = sieveQuote (canonical_header_key (trim_space hdr)) in
         if equal_fold comparator ''exists'' then Inr (''exists ['' @ name @ '']'')
         else Inr (''header :'' @ comparatorTag comparator @ '' ['' @ name @ ''] '' @ sieveQuote val))
      else if field = ''body'' then Inr (''body :'' @ comparatorTag comparator @ '' '' @ sieveQuote val)
      else if field = ''keyword'' then Inr (''hasflag :'' @ comparatorTag comparator @ '' '' @ sieveQuote val)
      else Inl (UnsupportedConditionField field0))"

definition group_op :: "string \<Rightarrow> string" where
  "group_op op0 =
     (let op = to_lower (trim_space op0) in if op \<noteq> ''anyof'' \<and> op \<noteq> ''allof'' then ''allof'' else op)"

fun compileMatchGroup :: "match_group \<Rightarrow> (compile_error, string) result"
  and compile_conditions :: "condition list \<Rightarrow> (compile_error, string list) result"
  and compileCondition :: "condition \<Rightarrow> (compile_error, string) result" where
  "compileMatchGroup (MatchGroup op cs) =
     and_then (compile_conditions cs) (\<lambda>parts. Inr (group_op op @ ''('' @ join '', '' parts @ '')''))"
| "compile_conditions [] = Inr []"
| "compile_conditions (c # cs) =
     and_then (compileCondition c) (\<lambda>part. and_then (compile_conditions cs) (\<lambda>parts. Inr (part # parts)))"
| "compileCondition (Condition neg (Some g) f h cmp v) =
     and_then (compileMatchGroup g) (\<lambda>inner. Inr (if neg then ''not '' @ inner else inner))"
| "compileCondition (Condition neg None f h cmp v) =
     and_then (compileLeafCondition f h cmp v) (\<lambda>inner. Inr (if neg then ''not '' @ inner else inner))"

definition compileAction :: "action \<Rightarrow> (compile_error, string) result" where
  "compileAction a =
     (let t = act_Type a in
      if t = ''keyword'' then Inr (''addflag '' @ sieveQuote (act_Value a) @ '';'')
      else if t = ''unkeyword'' then Inr (''removeflag '' @ sieveQuote (act_Value a) @ '';'')
      else if t = ''move'' then Inr (''fileinto '' @ sieveQuote (act_Value a) @ '';'')
      else if t = ''read'' then Inr ''markread;''
      else if t = ''archive'' then Inr ''archive;''
      else if t = ''spam'' then Inr ''markspam;''
      else if t = ''delete'' then Inr ''discard;''
      else if t = ''stop'' then Inr ''stop;''
      else Inl (UnsupportedCompileAction t))"

fun compile_actions :: "action list \<Rightarrow> (compile_error, string) result" where
  "compile_actions [] = Inr []"
| "compile_actions (a # as) =
     and_then (compileAction a) (\<lambda>line.
       and_then (compile_actions as) (\<lambda>rest. Inr (''    '' @ line @ [CHR 0x0A] @ rest)))"

definition rule_capabilities :: "rule \<Rightarrow> string list" where
  "rule_capabilities r =
     filter (usesCapability r) [''fileinto'', ''body'', ''regex'', ''imap4flags'', ''kymail'']"

definition require_line :: "string list \<Rightarrow> string" where
  "require_line caps =
     (if caps = [] then []
      else ''require ['' @ join '', '' (map sieveQuote caps) @ ''];'' @ [CHR 0x0A, CHR 0x0A])"

definition CompileRule :: "rule \<Rightarrow> (compile_error, string) result" where
  "CompileRule r =
     and_then (compileMatchGroup (rule_Match r)) (\<lambda>testSrc.
       and_then (compile_actions (rule_Actions r)) (\<lambda>acts.
         Inr (require_line (rule_capabilities r) @ ''if '' @ testSrc @ '' {'' @ [CHR 0x0A] @
              (if rule_Actions r = [] then ''    keep;'' @ [CHR 0x0A] else []) @
              acts @ ''}'' @ [CHR 0x0A])))"

end
