(* ===== verification/Sieve_Text.thy ===== *)
theory Sieve_Text
  imports Sieve_Total Sieve_Print
begin

text \<open>
  The text \<open>CompileRule\<close> prints, token by token: which rules are canonical (the form the parser itself
  produces), the tokens of a canonical rule, and that the lexer reads exactly these tokens from the
  printed script, up to line numbers.
\<close>

section \<open>Canonical rules\<close>

abbreviation comparator_tags :: "string list" where
  "comparator_tags \<equiv> [''contains'', ''is'', ''matches'', ''regex'']"

definition canonical_test :: "string \<Rightarrow> string \<Rightarrow> bool" where
  "canonical_test cmp v \<longleftrightarrow> cmp \<in> set comparator_tags \<or> cmp = ''exists'' \<and> v = []"

definition canonical_leaf :: "string \<Rightarrow> string \<Rightarrow> string \<Rightarrow> string \<Rightarrow> bool" where
  "canonical_leaf f h cmp v \<longleftrightarrow>
     f \<in> set validHeaderAddressFields \<and> h = [] \<and> canonical_test cmp v \<or>
     f = ''header'' \<and> validCustomHeader h \<and> canonical_header_key (trim_space h) = h \<and> canonical_test cmp v \<or>
     (f = ''body'' \<or> f = ''keyword'') \<and> h = [] \<and> cmp \<in> set comparator_tags"

fun canonical_group :: "match_group \<Rightarrow> bool" and canonical_cond :: "condition \<Rightarrow> bool" where
  "canonical_group (MatchGroup op cs) =
     ((op = ''allof'' \<or> op = ''anyof'') \<and> cs \<noteq> [] \<and> list_all canonical_cond cs)"
| "canonical_cond (Condition neg (Some g) f h cmp v) =
     (f = [] \<and> h = [] \<and> cmp = [] \<and> v = [] \<and> canonical_group g)"
| "canonical_cond (Condition neg None f h cmp v) = canonical_leaf f h cmp v"

definition canonical_action :: "action \<Rightarrow> bool" where
  "canonical_action a \<longleftrightarrow>
     act_Type a \<in> set knownActionTypes \<and> (act_Type a \<notin> set actionsNeedingValue \<longrightarrow> act_Value a = [])"

definition canonical_rule :: "rule \<Rightarrow> bool" where
  "canonical_rule r \<longleftrightarrow> canonical_group (rule_Match r) \<and> list_all canonical_action (rule_Actions r)"

text \<open>The nesting the parser needs: every \<open>not\<close>, \<open>allof\<close> and \<open>anyof\<close> is one level.\<close>

fun group_nesting :: "match_group \<Rightarrow> nat" and cond_nesting :: "condition \<Rightarrow> nat" where
  "group_nesting (MatchGroup op cs) = Suc (fold max (map cond_nesting cs) 0)"
| "cond_nesting (Condition neg (Some g) f h cmp v) = (if neg then 1 else 0) + group_nesting g"
| "cond_nesting (Condition neg None f h cmp v) = (if neg then 1 else 0)"

section \<open>Lexing printed text\<close>

type_synonym lexeme = "tok_kind \<times> string"

definition lexeme :: "token \<Rightarrow> lexeme" where
  "lexeme t = (tok_kind t, tok_text t)"

definition ends_word :: "string \<Rightarrow> bool" where
  "ends_word rest \<longleftrightarrow> rest = [] \<or> \<not> isWordRune (hd rest)"

text \<open>
  \<open>lexes s ks\<close>: the text \<open>s\<close> gives the tokens \<open>ks\<close>, whatever follows it; \<open>lexes_word\<close>: when what
  follows does not continue a word.
\<close>

definition lexes_to :: "string \<Rightarrow> lexeme list \<Rightarrow> string \<Rightarrow> bool" where
  "lexes_to s ks rest \<longleftrightarrow>
     (\<forall>line. \<exists>ts line'. map lexeme ts = ks \<and>
        lex_from (s @ rest) line = and_then (lex_from rest line') (\<lambda>us. Inr (ts @ us)))"

definition lexes :: "string \<Rightarrow> lexeme list \<Rightarrow> bool" where
  "lexes s ks \<longleftrightarrow> (\<forall>rest. lexes_to s ks rest)"

definition lexes_word :: "string \<Rightarrow> lexeme list \<Rightarrow> bool" where
  "lexes_word s ks \<longleftrightarrow> (\<forall>rest. ends_word rest \<longrightarrow> lexes_to s ks rest)"

lemma lexes_to_append:
  assumes "lexes_to s ks (s' @ rest)" and "lexes_to s' ks' rest"
  shows "lexes_to (s @ s') (ks @ ks') rest"
  unfolding lexes_to_def
proof
  fix line
  from assms(1) obtain ts l1 where 1: "map lexeme ts = ks"
    "lex_from (s @ s' @ rest) line = and_then (lex_from (s' @ rest) l1) (\<lambda>us. Inr (ts @ us))"
    unfolding lexes_to_def by blast
  from assms(2) obtain ts' l2 where 2: "map lexeme ts' = ks'"
    "lex_from (s' @ rest) l1 = and_then (lex_from rest l2) (\<lambda>us. Inr (ts' @ us))"
    unfolding lexes_to_def by blast
  from 1 2 show "\<exists>ts line'. map lexeme ts = ks @ ks' \<and>
      lex_from ((s @ s') @ rest) line = and_then (lex_from rest line') (\<lambda>us. Inr (ts @ us))"
    by (intro exI [of _ "ts @ ts'"] exI [of _ l2]) (cases "lex_from rest l2", auto)
qed

named_theorems lexing \<open>composition of lexed text\<close>

lemma lexes_append [lexing]: "lexes s ks \<Longrightarrow> lexes s' ks' \<Longrightarrow> lexes (s @ s') (ks @ ks')"
  by (simp add: lexes_def lexes_to_append)

lemma lexes_word_append:
  "lexes_word s ks \<Longrightarrow> lexes s' ks' \<Longrightarrow> s' \<noteq> [] \<Longrightarrow> \<not> isWordRune (hd s') \<Longrightarrow> lexes (s @ s') (ks @ ks')"
  by (auto simp: lexes_def lexes_word_def ends_word_def intro!: lexes_to_append)

lemma and_then_Inr_id [simp]: "and_then r (\<lambda>x. Inr x) = r"
  by (cases r) simp_all

lemma lexes_Nil [lexing]: "lexes [] []"
  by (auto simp: lexes_def lexes_to_def)

lemma lex_from_token:
  assumes "skipWhitespaceAndComments (r # s) line = Inr (r # s, line)" and "lex_token r s line = Inr (t, s', line')"
  shows "lex_from (r # s) line = and_then (lex_from s' line') (\<lambda>us. Inr ([t] @ us))"
  by (subst lex_from.simps) (simp add: assms)

definition plain_start :: "char \<Rightarrow> bool" where
  "plain_start r \<longleftrightarrow> r \<noteq> CHR '' '' \<and> r \<noteq> CHR 0x09 \<and> r \<noteq> CHR 0x0D \<and> r \<noteq> newline \<and> r \<noteq> CHR ''#'' \<and> r \<noteq> CHR ''/''"

lemma skip_plain_start: "plain_start r \<Longrightarrow> skipWhitespaceAndComments (r # s) line = Inr (r # s, line)"
  by (simp add: plain_start_def skipWhitespaceAndComments.simps)

lemma lexes_space [lexing]: "lexes '' '' []"
  unfolding lexes_def lexes_to_def
proof (intro allI)
  fix rest line
  have "lex_from ('' '' @ rest) line = lex_from rest line"
    by (subst (1 2) lex_from.simps) (simp add: after_def skipWhitespaceAndComments.simps)
  then show "\<exists>ts line'. map lexeme ts = [] \<and>
      lex_from ('' '' @ rest) line = and_then (lex_from rest line') (\<lambda>us. Inr (ts @ us))"
    by auto
qed

lemma lexes_newline [lexing]: "lexes [newline] []"
  unfolding lexes_def lexes_to_def
proof (intro allI)
  fix rest line
  have "lex_from ([newline] @ rest) line = lex_from rest (Suc line)"
    by (subst (1 2) lex_from.simps) (simp add: after_def skipWhitespaceAndComments.simps)
  then show "\<exists>ts line'. map lexeme ts = [] \<and>
      lex_from ([newline] @ rest) line = and_then (lex_from rest line') (\<lambda>us. Inr (ts @ us))"
    by auto
qed

lemma lexes_punctuation:
  assumes "punctuation r = Some k" shows "lexes [r] [(k, [r])]"
proof -
  have "plain_start r" using assms by (auto simp: punctuation_def plain_start_def split: if_splits)
  then have "lex_from ([r] @ rest) line = and_then (lex_from rest line) (\<lambda>us. Inr ([tok k [r] line] @ us))"
    for rest line
    using lex_from_token [OF skip_plain_start, of r rest line "tok k [r] line" rest line] assms
    by (simp add: lex_token_def)
  moreover have "map lexeme [tok k [r] line] = [(k, [r])]" for line by (simp add: lexeme_def)
  ultimately show ?thesis unfolding lexes_def lexes_to_def by blast
qed

lemma lex_string_escaped:
  "\<exists>line'. lex_string (sieveEscaper s @ dquote # rest) line = Some (s, rest, line')"
proof (induction s arbitrary: line)
  case Nil
  then show ?case by (simp add: sieveEscaper_def)
next
  case (Cons c s)
  then show ?case
    by (auto simp: sieveEscaper_def)
qed

lemma lexes_quote [lexing]: "lexes (sieveQuote s) [(TokString, s)]"
  unfolding lexes_def lexes_to_def
proof (intro allI)
  fix rest line
  obtain line' where "lex_string (sieveEscaper s @ dquote # rest) line = Some (s, rest, line')"
    using lex_string_escaped by blast
  then have "lex_from (sieveQuote s @ rest) line =
      and_then (lex_from rest line') (\<lambda>us. Inr ([tok TokString s line] @ us))"
    using lex_from_token [OF skip_plain_start, of dquote "sieveEscaper s @ dquote # rest" line]
    by (simp add: sieveQuote_def plain_start_def lex_token_def punctuation_def)
  then show "\<exists>ts line'. map lexeme ts = [(TokString, s)] \<and>
      lex_from (sieveQuote s @ rest) line = and_then (lex_from rest line') (\<lambda>us. Inr (ts @ us))"
    by (intro exI [of _ "[tok TokString s line]"] exI [of _ line']) (simp add: lexeme_def)
qed

lemma span_word:
  assumes "list_all isWordRune w" and "ends_word rest"
  shows "takeWhile isWordRune (w @ rest) = w" and "dropWhile isWordRune (w @ rest) = rest"
  using assms by (cases rest; simp add: list_all_iff ends_word_def)+

lemma not_word_runes:
  "list_all (\<lambda>c. \<not> isWordRune c) ([CHR 0x09, CHR 0x0D, newline, dquote] @ '' #/[](){};,:'')"
  by code_simp

lemma isWordRune_start:
  assumes "isWordRune r" shows "plain_start r" and "punctuation r = None" and "r \<noteq> dquote" and "r \<noteq> CHR '':''"
proof -
  have "r \<notin> set ([CHR 0x09, CHR 0x0D, newline, dquote] @ '' #/[](){};,:'')"
    using assms not_word_runes unfolding list_all_iff by blast
  then show "plain_start r" and "punctuation r = None" and "r \<noteq> dquote" and "r \<noteq> CHR '':''"
    by (simp_all add: plain_start_def punctuation_def)
qed

lemma lexes_word_word:
  assumes "list_all isWordRune w" and "w \<noteq> []" shows "lexes_word w [(TokWord, w)]"
  unfolding lexes_word_def lexes_to_def
proof (intro allI impI)
  fix rest line
  assume "ends_word rest"
  with assms obtain r w' where w: "w = r # w'" "isWordRune r" by (cases w) auto
  have "lex_token r (w' @ rest) line = Inr (tok TokWord w line, rest, line)"
    using span_word [OF assms(1) \<open>ends_word rest\<close>] isWordRune_start [OF w(2)] w by (simp add: lex_token_def)
  then have "lex_from (w @ rest) line = and_then (lex_from rest line) (\<lambda>us. Inr ([tok TokWord w line] @ us))"
    using lex_from_token [OF skip_plain_start] isWordRune_start(1) [OF w(2)] w by simp
  then show "\<exists>ts line'. map lexeme ts = [(TokWord, w)] \<and>
      lex_from (w @ rest) line = and_then (lex_from rest line') (\<lambda>us. Inr (ts @ us))"
    by (intro exI [of _ "[tok TokWord w line]"] exI [of _ line]) (simp add: lexeme_def)
qed

lemma lexes_word_tag:
  assumes "list_all isWordRune w" shows "lexes_word (CHR '':'' # w) [(TokColonTag, w)]"
  unfolding lexes_word_def lexes_to_def
proof (intro allI impI)
  fix rest line
  assume "ends_word rest"
  then have "lex_token (CHR '':'') (w @ rest) line = Inr (tok TokColonTag w line, rest, line)"
    using span_word [OF assms] by (simp add: lex_token_def punctuation_def)
  then have "lex_from ((CHR '':'' # w) @ rest) line =
      and_then (lex_from rest line) (\<lambda>us. Inr ([tok TokColonTag w line] @ us))"
    using lex_from_token [OF skip_plain_start] by (simp add: plain_start_def)
  then show "\<exists>ts line'. map lexeme ts = [(TokColonTag, w)] \<and>
      lex_from ((CHR '':'' # w) @ rest) line = and_then (lex_from rest line') (\<lambda>us. Inr (ts @ us))"
    by (intro exI [of _ "[tok TokColonTag w line]"] exI [of _ line]) (simp add: lexeme_def)
qed

section \<open>The tokens of a rule\<close>

abbreviation W :: "string \<Rightarrow> lexeme" where "W w \<equiv> (TokWord, w)"
abbreviation S :: "string \<Rightarrow> lexeme" where "S s \<equiv> (TokString, s)"
abbreviation Tag :: "string \<Rightarrow> lexeme" where "Tag w \<equiv> (TokColonTag, w)"
abbreviation LBrk :: lexeme where "LBrk \<equiv> (TokLBracket, ''['')"
abbreviation RBrk :: lexeme where "RBrk \<equiv> (TokRBracket, '']'')"
abbreviation LPar :: lexeme where "LPar \<equiv> (TokLParen, ''('')"
abbreviation RPar :: lexeme where "RPar \<equiv> (TokRParen, '')'')"
abbreviation LBrc :: lexeme where "LBrc \<equiv> (TokLBrace, ''{'')"
abbreviation RBrc :: lexeme where "RBrc \<equiv> (TokRBrace, ''}'')"
abbreviation Semi :: lexeme where "Semi \<equiv> (TokSemicolon, '';'')"
abbreviation Com :: lexeme where "Com \<equiv> (TokComma, '','')"

definition field_toks :: "string \<Rightarrow> string \<Rightarrow> string \<Rightarrow> lexeme list" where
  "field_toks name cmp v =
     (if cmp = ''exists'' then [W ''exists'', LBrk, S name, RBrk]
      else [W ''header'', Tag cmp, LBrk, S name, RBrk, S v])"

definition leaf_toks :: "string \<Rightarrow> string \<Rightarrow> string \<Rightarrow> string \<Rightarrow> lexeme list" where
  "leaf_toks f h cmp v =
     (if f = ''body'' then [W ''body'', Tag cmp, S v]
      else if f = ''keyword'' then [W ''hasflag'', Tag cmp, S v]
      else field_toks (if f = ''header'' then h else f) cmp v)"

fun commas :: "lexeme list list \<Rightarrow> lexeme list" where
  "commas [] = []"
| "commas [ks] = ks"
| "commas (ks # ks' # kss) = ks @ [Com] @ commas (ks' # kss)"

fun group_toks :: "match_group \<Rightarrow> lexeme list" and cond_toks :: "condition \<Rightarrow> lexeme list" where
  "group_toks (MatchGroup op cs) = [W op, LPar] @ commas (map cond_toks cs) @ [RPar]"
| "cond_toks (Condition neg (Some g) f h cmp v) = (if neg then [W ''not''] else []) @ group_toks g"
| "cond_toks (Condition neg None f h cmp v) = (if neg then [W ''not''] else []) @ leaf_toks f h cmp v"

definition action_toks :: "action \<Rightarrow> lexeme list" where
  "action_toks a =
     (let t = act_Type a in
      if t = ''keyword'' then [W ''addflag'', S (act_Value a), Semi]
      else if t = ''unkeyword'' then [W ''removeflag'', S (act_Value a), Semi]
      else if t = ''move'' then [W ''fileinto'', S (act_Value a), Semi]
      else if t = ''read'' then [W ''markread'', Semi]
      else if t = ''spam'' then [W ''markspam'', Semi]
      else if t = ''delete'' then [W ''discard'', Semi]
      else [W t, Semi])"

definition script_toks :: "rule \<Rightarrow> lexeme list" where
  "script_toks r =
     (if rule_capabilities r = [] then []
      else [W ''require'', LBrk] @ commas (map (\<lambda>c. [S c]) (rule_capabilities r)) @ [RBrk, Semi]) @
     [W ''if''] @ group_toks (rule_Match r) @ [LBrc] @
     (if rule_Actions r = [] then [W ''keep'', Semi] else []) @
     concat (map action_toks (rule_Actions r)) @ [RBrc]"

subsection \<open>The printed text has these tokens\<close>

lemma punctuation_lexes [lexing]:
  "lexes ''['' [LBrk]" "lexes '']'' [RBrk]" "lexes ''('' [LPar]" "lexes '')'' [RPar]" "lexes ''{'' [LBrc]"
  "lexes ''}'' [RBrc]" "lexes '';'' [Semi]" "lexes '','' [Com]"
  by (rule lexes_punctuation, simp add: punctuation_def)+

lemma lexes_word_space:
  assumes "list_all isWordRune w" and "w \<noteq> []" shows "lexes (w @ '' '') [W w]"
proof -
  have "\<not> isWordRune (CHR '' '')" by code_simp
  with lexes_word_append [OF lexes_word_word [OF assms] lexes_space] show ?thesis by simp
qed

lemma lexes_word_punct:
  assumes "list_all isWordRune w" and "w \<noteq> []" and "punctuation c = Some k"
  shows "lexes (w @ [c]) [W w, (k, [c])]"
proof -
  have "\<not> isWordRune c" using isWordRune_start(2) assms(3) by fastforce
  with lexes_word_append [OF lexes_word_word [OF assms(1,2)] lexes_punctuation [OF assms(3)]]
  show ?thesis by simp
qed

lemma lexes_tag_space:
  assumes "list_all isWordRune w" shows "lexes (CHR '':'' # w @ '' '') [Tag w]"
proof -
  have "\<not> isWordRune (CHR '' '')" by code_simp
  with lexes_word_append [OF lexes_word_tag [OF assms] lexes_space] show ?thesis by simp
qed

lemma tags_are_words: "cmp \<in> set comparator_tags \<Longrightarrow> list_all isWordRune cmp"
proof -
  have "list_all (list_all isWordRune) comparator_tags" by code_simp
  then show "cmp \<in> set comparator_tags \<Longrightarrow> list_all isWordRune cmp" by (auto simp: list_all_iff)
qed

lemma comparatorTag_canonical: "cmp \<in> set comparator_tags \<Longrightarrow> comparatorTag cmp = cmp"
proof -
  have "list_all (\<lambda>cmp. comparatorTag cmp = cmp) comparator_tags" by code_simp
  then show "cmp \<in> set comparator_tags \<Longrightarrow> comparatorTag cmp = cmp" unfolding list_all_iff by blast
qed

lemma tag_not_exists: "cmp \<in> set comparator_tags \<Longrightarrow> \<not> equal_fold cmp ''exists'' \<and> cmp \<noteq> ''exists''"
proof -
  have "list_all (\<lambda>cmp. \<not> equal_fold cmp ''exists'' \<and> cmp \<noteq> ''exists'') comparator_tags" by code_simp
  then show "cmp \<in> set comparator_tags \<Longrightarrow> \<not> equal_fold cmp ''exists'' \<and> cmp \<noteq> ''exists''"
    unfolding list_all_iff by blast
qed

lemma lexes_header_text:
  assumes "cmp \<in> set comparator_tags"
  shows "lexes (''header :'' @ cmp @ '' ['' @ sieveQuote name @ ''] '' @ sieveQuote v)
           [W ''header'', Tag cmp, LBrk, S name, RBrk, S v]"
proof -
  have "list_all isWordRune ''header''" by code_simp
  then have "lexes (''header'' @ '' '') [W ''header'']" by (rule lexes_word_space) simp
  from lexes_append [OF this lexes_append [OF lexes_tag_space [OF tags_are_words [OF assms]]
    lexes_append [OF punctuation_lexes(1) lexes_append [OF lexes_quote [of name]
    lexes_append [OF punctuation_lexes(2) lexes_append [OF lexes_space lexes_quote [of v]]]]]]]
  show ?thesis by simp
qed

lemma lexes_exists_text: "lexes (''exists ['' @ sieveQuote name @ '']'') [W ''exists'', LBrk, S name, RBrk]"
proof -
  have "list_all isWordRune ''exists''" by code_simp
  then have "lexes (''exists'' @ '' '') [W ''exists'']" by (rule lexes_word_space) simp
  from lexes_append [OF this lexes_append [OF punctuation_lexes(1) lexes_append [OF lexes_quote [of name] punctuation_lexes(2)]]]
  show ?thesis by simp
qed

lemma lexes_value_text:
  assumes "cmp \<in> set comparator_tags" and "list_all isWordRune w" and "w \<noteq> []"
  shows "lexes (w @ '' :'' @ cmp @ '' '' @ sieveQuote v) [W w, Tag cmp, S v]"
  using lexes_append [OF lexes_word_space [OF assms(2,3)] lexes_append [OF lexes_tag_space [OF tags_are_words [OF assms(1)]]
    lexes_quote [of v]]]
  by simp

lemma address_field_canonical:
  assumes "f \<in> set validHeaderAddressFields"
  shows "to_lower (trim_space f) = f" and "f \<noteq> ''header''" and "f \<noteq> ''body''" and "f \<noteq> ''keyword''"
    and "f \<in> set [''from'', ''to'', ''cc'', ''bcc'', ''subject'']"
proof -
  have "list_all (\<lambda>f. to_lower (trim_space f) = f \<and> f \<noteq> ''header'' \<and> f \<noteq> ''body'' \<and> f \<noteq> ''keyword'')
      validHeaderAddressFields"
    by code_simp
  with assms show "to_lower (trim_space f) = f" and "f \<noteq> ''header''" and "f \<noteq> ''body''" and "f \<noteq> ''keyword''"
    and "f \<in> set [''from'', ''to'', ''cc'', ''bcc'', ''subject'']"
    unfolding list_all_iff validHeaderAddressFields_def by blast+
qed

lemma field_text:
  assumes "canonical_test cmp v"
  shows "\<exists>src. (if equal_fold cmp ''exists'' then Inr (''exists ['' @ sieveQuote name @ '']'')
      else Inr (''header :'' @ comparatorTag cmp @ '' ['' @ sieveQuote name @ ''] '' @ sieveQuote v)) = Inr src \<and>
    lexes src (field_toks name cmp v)"
proof (cases "cmp \<in> set comparator_tags")
  case True
  from lexes_header_text [OF True, of name v] comparatorTag_canonical [OF True] tag_not_exists [OF True]
  show ?thesis by (simp add: field_toks_def)
next
  case False
  with assms lexes_exists_text [of name] show ?thesis by (simp add: canonical_test_def field_toks_def)
qed

lemma leaf_text:
  assumes "canonical_leaf f h cmp v"
  shows "\<exists>src. compileLeafCondition f h cmp v = Inr src \<and> lexes src (leaf_toks f h cmp v)"
proof -
  consider (address) "f \<in> set validHeaderAddressFields" "canonical_test cmp v"
    | (header) "f = ''header''" "canonical_header_key (trim_space h) = h" "canonical_test cmp v"
    | (body) "f = ''body''" "cmp \<in> set comparator_tags"
    | (keyword) "f = ''keyword''" "cmp \<in> set comparator_tags"
    using assms unfolding canonical_leaf_def by blast
  then show ?thesis
  proof cases
    case address
    from field_text [OF address(2), of f] address_field_canonical [OF address(1)] show ?thesis
      by (simp add: compileLeafCondition_def leaf_toks_def)
  next
    case header
    have "to_lower (trim_space ''header'') = ''header''" by code_simp
    with field_text [OF header(3), of h] header show ?thesis
      by (simp add: compileLeafCondition_def leaf_toks_def Let_def)
  next
    case body
    have w: "to_lower (trim_space ''body'') = ''body''" "list_all isWordRune ''body''" by code_simp+
    from lexes_value_text [OF body(2) w(2), of v] body(1) w(1) comparatorTag_canonical [OF body(2)] show ?thesis
      by (simp add: compileLeafCondition_def leaf_toks_def Let_def)
  next
    case keyword
    have w: "to_lower (trim_space ''keyword'') = ''keyword''" "list_all isWordRune ''hasflag''" by code_simp+
    from lexes_value_text [OF keyword(2) w(2), of v] keyword(1) w(1) comparatorTag_canonical [OF keyword(2)] show ?thesis
      by (simp add: compileLeafCondition_def leaf_toks_def Let_def)
  qed
qed

lemma lexes_join:
  "list_all2 lexes parts kss \<Longrightarrow> lexes (join '', '' parts) (commas kss)"
proof (induction parts kss rule: list_all2_induct)
  case (Cons p ps ks kss)
  have sep: "lexes '', '' [Com]" using lexes_append [OF punctuation_lexes(8) lexes_space] by simp
  show ?case
  proof (cases ps)
    case (Cons q qs)
    with Cons.hyps obtain ks' kss' where "kss = ks' # kss'" by (auto simp: list_all2_Cons1)
    with \<open>ps = q # qs\<close> Cons lexes_append [OF Cons.hyps(1) lexes_append [OF sep Cons.IH]] show ?thesis by simp
  next
    case Nil
    with Cons.hyps show ?thesis by simp
  qed
qed (simp add: lexes_Nil)

lemma lexes_not:
  assumes "lexes src ks" shows "lexes (if neg then ''not '' @ src else src) ((if neg then [W ''not''] else []) @ ks)"
proof -
  have "list_all isWordRune ''not''" by code_simp
  then have "lexes (''not'' @ '' '') [W ''not'']" by (rule lexes_word_space) simp
  from lexes_append [OF this assms] assms show ?thesis by simp
qed

lemma group_op_canonical: "op = ''allof'' \<or> op = ''anyof'' \<Longrightarrow> group_op op = op"
proof -
  have "group_op ''allof'' = ''allof''" "group_op ''anyof'' = ''anyof''" by code_simp+
  then show "op = ''allof'' \<or> op = ''anyof'' \<Longrightarrow> group_op op = op" by auto
qed

lemma group_text:
  "canonical_group g \<Longrightarrow> \<exists>src. compileMatchGroup g = Inr src \<and> lexes src (group_toks g)"
  "list_all canonical_cond cs \<Longrightarrow> \<exists>parts. compile_conditions cs = Inr parts \<and> list_all2 lexes parts (map cond_toks cs)"
  "canonical_cond c \<Longrightarrow> \<exists>src. compileCondition c = Inr src \<and> lexes src (cond_toks c)"
proof (induction g and cs and c rule: compileMatchGroup_compile_conditions_compileCondition.induct)
  case (1 op cs)
  then obtain parts where parts: "compile_conditions cs = Inr parts" "list_all2 lexes parts (map cond_toks cs)"
    by auto
  have "list_all isWordRune ''allof''" "list_all isWordRune ''anyof''" by code_simp+
  with 1 have "lexes (op @ ''('') [W op, LPar]"
    by (auto intro!: lexes_word_punct simp: punctuation_def)
  from lexes_append [OF this lexes_append [OF lexes_join [OF parts(2)] punctuation_lexes(4)]] parts(1) 1
  show ?case by (auto simp: group_op_canonical)
next
  case 2
  then show ?case by simp
next
  case (3 c cs)
  then show ?case by auto
next
  case (4 neg g f h cmp v)
  then obtain src where "compileMatchGroup g = Inr src" "lexes src (group_toks g)" by auto
  with lexes_not [of src "group_toks g" neg] show ?case by simp
next
  case (5 neg f h cmp v)
  then obtain src where "compileLeafCondition f h cmp v = Inr src" "lexes src (leaf_toks f h cmp v)"
    using leaf_text [of f h cmp v] by auto
  with lexes_not [of src "leaf_toks f h cmp v" neg] show ?case by simp
qed

lemma lexes_plain_action: "list_all isWordRune w \<Longrightarrow> w \<noteq> [] \<Longrightarrow> lexes (w @ '';'') [W w, Semi]"
  by (rule lexes_word_punct) (simp_all add: punctuation_def)

lemma lexes_value_action:
  assumes "list_all isWordRune w" "w \<noteq> []" shows "lexes (w @ '' '' @ sieveQuote v @ '';'') [W w, S v, Semi]"
  using lexes_append [OF lexes_word_space [OF assms] lexes_append [OF lexes_quote [of v] punctuation_lexes(7)]]
  by simp

lemma action_text:
  assumes "canonical_action a"
  shows "\<exists>line. compileAction a = Inr line \<and> lexes line (action_toks a)"
proof -
  have w: "list_all isWordRune ''addflag''" "list_all isWordRune ''removeflag''" "list_all isWordRune ''fileinto''"
    "list_all isWordRune ''markread''" "list_all isWordRune ''archive''" "list_all isWordRune ''markspam''"
    "list_all isWordRune ''discard''" "list_all isWordRune ''stop''"
    by code_simp+
  from assms have "act_Type a \<in> set knownActionTypes" by (simp add: canonical_action_def)
  then consider "act_Type a = ''keyword''" | "act_Type a = ''unkeyword''" | "act_Type a = ''move''"
    | "act_Type a = ''read''" | "act_Type a = ''archive''" | "act_Type a = ''spam''"
    | "act_Type a = ''delete''" | "act_Type a = ''stop''"
    by (auto simp: knownActionTypes_def)
  then show ?thesis
    using w [THEN lexes_plain_action] w [THEN lexes_value_action, of "act_Value a"]
    by cases (simp_all add: compileAction_def action_toks_def)
qed

lemma lexes_indent: "lexes ''    '' []"
  using lexes_append [OF lexes_append [OF lexes_space lexes_space] lexes_append [OF lexes_space lexes_space]]
  by simp

lemma actions_text:
  "list_all canonical_action as \<Longrightarrow>
     \<exists>src. compile_actions as = Inr src \<and> lexes src (concat (map action_toks as))"
proof (induction as)
  case Nil
  then show ?case by (simp add: lexes_Nil)
next
  case (Cons a as)
  then obtain src where src: "compile_actions as = Inr src" "lexes src (concat (map action_toks as))" by auto
  obtain line where line: "compileAction a = Inr line" "lexes line (action_toks a)"
    using action_text Cons.prems by auto
  from lexes_append [OF lexes_indent lexes_append [OF line(2) lexes_append [OF lexes_newline src(2)]]] src(1) line(1)
  show ?case by simp
qed

lemma require_text:
  assumes "list_all (list_all isWordRune) caps"
  shows "lexes (require_line caps)
    (if caps = [] then [] else [W ''require'', LBrk] @ commas (map (\<lambda>c. [S c]) caps) @ [RBrk, Semi])"
proof (cases "caps = []")
  case True
  then show ?thesis by (simp add: require_line_def lexes_Nil)
next
  case False
  have "list_all isWordRune ''require''" by code_simp
  then have req: "lexes (''require'' @ '' '') [W ''require'']" by (rule lexes_word_space) simp
  have "list_all2 lexes (map sieveQuote caps) (map (\<lambda>c. [S c]) caps)"
    by (simp add: list_all2_conv_all_nth lexes_quote)
  from lexes_append [OF req lexes_append [OF punctuation_lexes(1) lexes_append [OF lexes_join [OF this]
    lexes_append [OF punctuation_lexes(2) lexes_append [OF punctuation_lexes(7)
    lexes_append [OF lexes_newline lexes_newline]]]]]]
  show ?thesis using False by (simp add: require_line_def)
qed

lemma script_text:
  assumes "canonical_rule r"
  shows "\<exists>src. CompileRule r = Inr src \<and> lexes src (script_toks r)"
proof -
  from assms obtain test acts where test: "compileMatchGroup (rule_Match r) = Inr test" "lexes test (group_toks (rule_Match r))"
    and acts: "compile_actions (rule_Actions r) = Inr acts" "lexes acts (concat (map action_toks (rule_Actions r)))"
    using group_text(1) actions_text unfolding canonical_rule_def by blast
  have w: "list_all isWordRune ''if''" "list_all isWordRune ''keep''" by code_simp+
  have "list_all (list_all isWordRune) [''fileinto'', ''body'', ''regex'', ''imap4flags'', ''kymail'']" by code_simp
  then have caps: "list_all (list_all isWordRune) (rule_capabilities r)"
    unfolding rule_capabilities_def list_all_iff set_filter by blast
  have keep: "lexes (if rule_Actions r = [] then ''    keep;'' @ [newline] else [])
      (if rule_Actions r = [] then [W ''keep'', Semi] else [])"
    using lexes_append [OF lexes_indent lexes_append [OF lexes_plain_action [OF w(2)] lexes_newline]]
    by (simp add: lexes_Nil)
  have "lexes (''if'' @ '' '') [W ''if'']" using w(1) by (rule lexes_word_space) simp
  from lexes_append [OF require_text [OF caps] lexes_append [OF this lexes_append [OF test(2)
    lexes_append [OF lexes_space lexes_append [OF punctuation_lexes(5) lexes_append [OF lexes_newline
    lexes_append [OF keep lexes_append [OF acts(2) lexes_append [OF punctuation_lexes(6) lexes_newline]]]]]]]]]
  show ?thesis using test(1) acts(1) by (simp add: CompileRule_def script_toks_def)
qed

lemma lexSieve_lexes:
  assumes "lexes src ks"
  shows "\<exists>ts. lexSieve src = Inr ts \<and> map lexeme ts = ks @ [(TokEOF, [])]"
proof -
  obtain ts line where ts: "map lexeme ts = ks" "lex_from (src @ []) 1 = and_then (lex_from [] line) (\<lambda>us. Inr (ts @ us))"
    using assms unfolding lexes_def lexes_to_def by blast
  have "lex_from [] line = Inr [tok TokEOF [] line]" by (subst lex_from.simps) simp
  with ts show ?thesis
    by (intro exI [of _ "ts @ [tok TokEOF [] line]"]) (simp add: lexSieve_def lexeme_def)
qed

end
