(* ===== verification/Sieve_Roundtrip.thy ===== *)
theory Sieve_Roundtrip
  imports Sieve_Text
begin

text \<open>
  The parser on the tokens of a printed rule gives the rule back, and with the text lemmas of
  \<open>Sieve_Text\<close> so does \<open>ParseRuleText\<close> on the script \<open>CompileRule\<close> prints.
\<close>

section \<open>Parsing known tokens\<close>

text \<open>\<open>parses p ks Q\<close>: on tokens with the lexemes \<open>ks\<close>, and more to come, \<open>p\<close> takes these and returns a \<open>Q\<close>.\<close>

definition parses :: "'a parser \<Rightarrow> lexeme list \<Rightarrow> ('a \<Rightarrow> bool) \<Rightarrow> bool" where
  "parses p ks Q \<longleftrightarrow>
     (\<forall>ts us. map lexeme ts = ks \<longrightarrow> us \<noteq> [] \<longrightarrow> (\<exists>x. p (ts @ us) = Inr (x, us) \<and> Q x))"

lemma parsesD: "parses p ks Q \<Longrightarrow> map lexeme ts = ks \<Longrightarrow> us \<noteq> [] \<Longrightarrow> \<exists>x. p (ts @ us) = Inr (x, us) \<and> Q x"
  unfolding parses_def by blast

lemma parses_return: "Q x \<Longrightarrow> parses (\<lambda>ts. Inr (x, ts)) [] Q"
  by (simp add: parses_def)

lemma parses_bind:
  assumes "parses p ks Q" and "\<And>x. Q x \<Longrightarrow> parses (f x) ks' R"
  shows "parses (\<lambda>ts. and_then (p ts) (\<lambda>(x, ts'). f x ts')) (ks @ ks') R"
  unfolding parses_def
proof (intro allI impI)
  fix ts us :: "token list"
  assume m: "map lexeme ts = ks @ ks'" and us: "us \<noteq> []"
  then obtain ts1 ts2 where ts: "ts = ts1 @ ts2" "map lexeme ts1 = ks" "map lexeme ts2 = ks'"
    by (auto simp: map_eq_append_conv)
  with us parsesD [OF assms(1), of ts1 "ts2 @ us"] obtain x where x: "p (ts1 @ ts2 @ us) = Inr (x, ts2 @ us)" "Q x"
    by auto
  with parsesD [OF assms(2) [OF x(2)] ts(3) us] ts(1)
  show "\<exists>y. and_then (p (ts @ us)) (\<lambda>(x, ts'). f x ts') = Inr (y, us) \<and> R y" by simp
qed

lemma lexeme_eq: "lexeme t = (k, w) \<longleftrightarrow> tok_kind t = k \<and> tok_text t = w"
  by (simp add: lexeme_def)

lemma next_tok_Cons: "us \<noteq> [] \<Longrightarrow> next_tok (t # us) = us"
  by (cases us) simp_all

lemma peek_Cons [simp]: "peek (t # ts) = t"
  by (simp add: peek_def)

lemma parses_expect: "parses (expect k what) [(k, w)] (\<lambda>t. tok_text t = w)"
  by (auto simp: parses_def expect_def Let_def lexeme_eq next_tok_Cons)

lemma parses_semicolon: "parses expectSemicolon [Semi] (\<lambda>_. True)"
  unfolding expectSemicolon_def [abs_def]
  using parses_bind [OF parses_expect [of TokSemicolon "'';''" "'';''"] parses_return [of "\<lambda>_. True"]] by simp

lemma parses_string_item: "parses parse_string_item [S s] (\<lambda>x. x = s)"
  unfolding parse_string_item_def [abs_def]
  using parses_bind [OF parses_expect [of TokString "''string''" s] parses_return [where Q = "\<lambda>x. x = s"]] by simp

text \<open>A comma-separated list, up to the token that closes it.\<close>

lemma length_commas: "list_all (\<lambda>ks. ks \<noteq> []) kss \<Longrightarrow> length kss \<le> length (commas kss)"
  by (induction kss rule: commas.induct) (auto simp: Suc_le_eq)

lemma sep_loop_parses:
  assumes "list_all2 (\<lambda>ks x. parses p ks (\<lambda>y. y = x) \<and> ks \<noteq> [] \<and> (\<forall>t. lexeme t = hd ks \<longrightarrow> \<not> stop t)) kss xs"
    and "kss \<noteq> []" and "map lexeme ts = commas kss" and "tok_kind u \<noteq> TokComma" and "length kss \<le> n"
  shows "sep_loop stop p n (ts @ u # us) = Inr (xs, u # us)"
  using assms
proof (induction kss xs arbitrary: ts n rule: list_all2_induct)
  case Nil
  then show ?case by simp
next
  case (Cons ks kss x xs)
  from Cons.prems obtain n' where n: "n = Suc n'" by (cases n) auto
  obtain ts1 ts2 where ts: "ts = ts1 @ ts2" "map lexeme ts1 = ks"
    using Cons.prems(2) by (cases kss) (auto simp: map_eq_append_conv map_eq_Cons_conv)
  then obtain t ts1' where t: "ts1 = t # ts1'" "lexeme t = hd ks" using Cons.hyps(1) by (cases ts1) auto
  with Cons.hyps(1) have "\<not> stop t" by blast
  have p: "p (ts1 @ ts2 @ u # us) = Inr (x, ts2 @ u # us)"
    using parsesD [of p ks "\<lambda>y. y = x" ts1 "ts2 @ u # us"] Cons.hyps(1) ts(2) by auto
  show ?case
  proof (cases kss)
    case Nil
    with Cons.hyps Cons.prems ts have "ts2 = []" "xs = []" by auto
    with p ts(1) t \<open>\<not> stop t\<close> Cons.prems(3) n show ?thesis by simp
  next
    case (Cons ks' kss')
    with Cons.prems(2) ts obtain c ts3 where c: "ts2 = c # ts3" "lexeme c = Com" "map lexeme ts3 = commas kss"
      by auto
    have "sep_loop stop p n' (ts3 @ u # us) = Inr (xs, u # us)"
      using Cons.IH [of ts3 n'] \<open>kss = ks' # kss'\<close> c Cons.prems n by simp
    with p ts(1) t \<open>\<not> stop t\<close> c n show ?thesis
      by (simp add: lexeme_eq next_tok_Cons)
  qed
qed

text \<open>A list between brackets, as \<open>parseStringList\<close> and the groups read it.\<close>

lemma parses_sep_list:
  assumes items: "list_all2 (\<lambda>ks x. parses p ks (\<lambda>y. y = x) \<and> ks \<noteq> [] \<and> (\<forall>t. lexeme t = hd ks \<longrightarrow> \<not> stop t)) kss xs"
    and "kss \<noteq> []" and "close \<noteq> TokComma"
  shows "parses (\<lambda>ts. and_then (sep_loop stop p (length ts) ts) (\<lambda>(ys, ts2).
           and_then (expect close what ts2) (\<lambda>(_, ts3). Inr (f ys, ts3)))) (commas kss @ [(close, w)]) (\<lambda>y. y = f xs)"
  unfolding parses_def
proof (intro allI impI)
  fix ts us :: "token list"
  assume "map lexeme ts = commas kss @ [(close, w)]" and us: "us \<noteq> []"
  then obtain ts1 u where ts: "ts = ts1 @ [u]" "map lexeme ts1 = commas kss" "lexeme u = (close, w)"
    by (auto simp: map_eq_append_conv map_eq_Cons_conv)
  have "list_all (\<lambda>ks. ks \<noteq> []) kss"
    using items by (auto simp: list_all_length list_all2_conv_all_nth)
  then have "length kss \<le> length ts1" using length_commas ts(2) by (metis length_map)
  then have "length kss \<le> length (ts @ us)" using ts(1) by simp
  moreover have "tok_kind u \<noteq> TokComma" using ts(3) assms(3) by (simp add: lexeme_eq)
  ultimately have "sep_loop stop p (length (ts @ us)) (ts1 @ u # us) = Inr (xs, u # us)"
    by (intro sep_loop_parses [OF items assms(2) ts(2)])
  with ts us show "\<exists>x. and_then (sep_loop stop p (length (ts @ us)) (ts @ us)) (\<lambda>(ys, ts2).
      and_then (expect close what ts2) (\<lambda>(_, ts3). Inr (f ys, ts3))) = Inr (x, us) \<and> x = f xs"
    by (simp add: expect_def Let_def lexeme_eq next_tok_Cons del: sep_loop.simps)
qed

lemma parses_parseStringList:
  assumes "names \<noteq> []"
  shows "parses parseStringList ([LBrk] @ commas (map (\<lambda>s. [S s]) names) @ [RBrk]) (\<lambda>x. x = names)"
  unfolding parseStringList_def [abs_def]
proof (rule parses_bind [OF parses_expect])
  fix t :: token
  show "parses (\<lambda>ts1. and_then (sep_loop (\<lambda>t. tok_kind t = TokRBracket) parse_string_item (length ts1) ts1)
      (\<lambda>(out, ts2). and_then (expect TokRBracket '']'' ts2) (\<lambda>(_, ts3). Inr (out, ts3))))
      (commas (map (\<lambda>s. [S s]) names) @ [RBrk]) (\<lambda>x. x = names)"
    by (rule parses_sep_list [where f = "\<lambda>x. x"])
      (use assms in \<open>auto simp: list_all2_conv_all_nth parses_string_item lexeme_eq\<close>)
qed

lemma parses_tag:
  assumes "cmp \<in> set comparator_tags"
  shows "parses (parseComparatorTag d) [Tag cmp] (\<lambda>x. x = cmp)"
proof -
  have "list_all (\<lambda>c. to_lower c = c) comparator_tags" by code_simp
  with assms have "to_lower cmp = cmp" unfolding list_all_iff by blast
  with assms show ?thesis
    unfolding parses_def parseComparatorTag_def Let_def
    by (auto simp: map_eq_Cons_conv lexeme_eq next_tok_Cons simp del: set_simps)
qed

section \<open>Tests\<close>

lemma parse_test_level_word:
  assumes "lexeme t = W w" and "us \<noteq> []"
  shows "parse_test_level sub (t # us) =
     (if equal_fold w ''not'' then
        and_then (enterTest (tok_line t) sub) (\<lambda>p. and_then (p us) (\<lambda>(inner, ts1). Inr (set_negate inner, ts1)))
      else if equal_fold w ''allof'' \<or> equal_fold w ''anyof'' then
        and_then (enterTest (tok_line t) sub) (\<lambda>p. parse_group_test (to_lower w) p us)
      else if equal_fold w ''header'' \<or> equal_fold w ''address'' then
        parse_header_test (tok_line t) (equal_fold w ''header'') us
      else if equal_fold w ''exists'' then parse_exists_test (tok_line t) us
      else if equal_fold w ''body'' then parse_value_test ''body'' ''contains'' us
      else if equal_fold w ''hasflag'' then parse_value_test ''keyword'' ''is'' us
      else Inl (UnknownTest (tok_line t) w))"
  using assms by (simp add: parse_test_level_def Let_def lexeme_eq next_tok_Cons)

lemma test_words [simp]:
  "equal_fold ''not'' ''not''" "to_lower ''allof'' = ''allof''" "to_lower ''anyof'' = ''anyof''"
  "\<not> equal_fold ''allof'' ''not''" "\<not> equal_fold ''anyof'' ''not''"
  "\<not> equal_fold ''header'' ''not''" "\<not> equal_fold ''header'' ''allof''" "\<not> equal_fold ''header'' ''anyof''"
  "\<not> equal_fold ''exists'' ''not''" "\<not> equal_fold ''exists'' ''allof''" "\<not> equal_fold ''exists'' ''anyof''"
  "\<not> equal_fold ''exists'' ''header''" "\<not> equal_fold ''exists'' ''address''"
  "\<not> equal_fold ''body'' ''not''" "\<not> equal_fold ''body'' ''allof''" "\<not> equal_fold ''body'' ''anyof''"
  "\<not> equal_fold ''body'' ''header''" "\<not> equal_fold ''body'' ''address''" "\<not> equal_fold ''body'' ''exists''"
  "\<not> equal_fold ''hasflag'' ''not''" "\<not> equal_fold ''hasflag'' ''allof''" "\<not> equal_fold ''hasflag'' ''anyof''"
  "\<not> equal_fold ''hasflag'' ''header''" "\<not> equal_fold ''hasflag'' ''address''" "\<not> equal_fold ''hasflag'' ''exists''"
  "\<not> equal_fold ''hasflag'' ''body''"
  by code_simp+

text \<open>A test that starts with the word \<open>w\<close> is parsed by what follows it.\<close>

lemma parses_test_word:
  assumes "\<And>line. parses (q line) ks Q"
    and "\<And>t us. lexeme t = W w \<Longrightarrow> us \<noteq> [] \<Longrightarrow> parse_test_level sub (t # us) = q (tok_line t) us"
  shows "parses (parse_test_level sub) (W w # ks) Q"
  unfolding parses_def
proof (intro allI impI)
  fix ts us :: "token list"
  assume "map lexeme ts = W w # ks" and us: "us \<noteq> []"
  then obtain t ts' where t: "ts = t # ts'" "lexeme t = W w" "map lexeme ts' = ks" by auto
  with us parsesD [OF assms(1) t(3) us, of "tok_line t"] assms(2) [OF t(2), of "ts' @ us"]
  show "\<exists>x. parse_test_level sub (ts @ us) = Inr (x, us) \<and> Q x" by simp
qed

lemma field_leaf_canonical:
  assumes "f \<in> set validHeaderAddressFields \<and> name = f \<and> h = [] \<or>
    f = ''header'' \<and> name = h \<and> validCustomHeader h \<and> canonical_header_key (trim_space h) = h"
  shows "fieldsToCondition [name] cmp v = leaf False f h cmp v" and "bad_field True [name] = None"
proof -
  have "normalizeField f = f \<and> normalizeField f \<in> set validHeaderAddressFields" if "f \<in> set validHeaderAddressFields"
    using address_field_canonical(1) [OF that] that by (simp add: normalizeField_def)
  moreover have "normalizeField h \<notin> set validHeaderAddressFields" if "validCustomHeader h"
    using that unfolding validCustomHeader_def Let_def by blast
  ultimately show "fieldsToCondition [name] cmp v = leaf False f h cmp v" and "bad_field True [name] = None"
    using assms by (auto simp: fieldsToCondition_def field_leaf_def bad_field_def)
qed

lemma parses_field_test:
  assumes f: "f \<in> set validHeaderAddressFields \<and> name = f \<and> h = [] \<or>
      f = ''header'' \<and> name = h \<and> validCustomHeader h \<and> canonical_header_key (trim_space h) = h"
    and cmp: "canonical_test cmp v"
  shows "parses (parse_test_level sub) (field_toks name cmp v) (\<lambda>x. x = leaf False f h cmp v)"
proof (cases "cmp \<in> set comparator_tags")
  case True
  have "parses (parse_header_test line True) ([Tag cmp] @ ([LBrk] @ commas (map (\<lambda>s. [S s]) [name]) @ [RBrk]) @ [S v] @ [])
      (\<lambda>x. x = leaf False f h cmp v)" for line
    unfolding parse_header_test_def [abs_def]
    by (rule parses_bind [OF parses_tag [OF True]], rule parses_bind [OF parses_parseStringList [of "[name]"]],
        simp, rule parses_bind [OF parses_expect])
      (simp add: field_leaf_canonical [OF f] parses_return)
  then have "parses (parse_test_level sub) (W ''header'' # [Tag cmp, LBrk, S name, RBrk, S v]) (\<lambda>x. x = leaf False f h cmp v)"
    by (intro parses_test_word [where q = "\<lambda>line. parse_header_test line True"]) (simp_all add: parse_test_level_word)
  then show ?thesis using tag_not_exists [OF True] by (simp add: field_toks_def)
next
  case False
  with cmp have e: "cmp = ''exists''" "v = []" by (auto simp: canonical_test_def)
  have "parses (parse_exists_test line) (([LBrk] @ commas (map (\<lambda>s. [S s]) [name]) @ [RBrk]) @ [])
      (\<lambda>x. x = leaf False f h cmp v)" for line
    unfolding parse_exists_test_def [abs_def]
    by (rule parses_bind [OF parses_parseStringList [of "[name]"]])
      (simp_all add: field_leaf_canonical [OF f] parses_return e)
  then have "parses (parse_test_level sub) (W ''exists'' # [LBrk, S name, RBrk]) (\<lambda>x. x = leaf False f h cmp v)"
    by (intro parses_test_word [where q = parse_exists_test]) (simp_all add: parse_test_level_word)
  then show ?thesis by (simp add: field_toks_def e)
qed

lemma parses_value_test:
  assumes "cmp \<in> set comparator_tags"
  shows "parses (parse_value_test f d) [Tag cmp, S v] (\<lambda>x. x = leaf False f [] cmp v)"
proof -
  have "parses (parse_value_test f d) ([Tag cmp] @ [S v] @ []) (\<lambda>x. x = leaf False f [] cmp v)"
    unfolding parse_value_test_def [abs_def]
    by (rule parses_bind [OF parses_tag [OF assms]], rule parses_bind [OF parses_expect])
      (simp add: parses_return)
  then show ?thesis by simp
qed

lemma parses_leaf:
  assumes "canonical_leaf f h cmp v"
  shows "parses (parse_test_level sub) (leaf_toks f h cmp v) (\<lambda>x. x = leaf False f h cmp v)"
proof -
  consider (address) "f \<in> set validHeaderAddressFields" "h = []" "canonical_test cmp v"
    | (header) "f = ''header''" "validCustomHeader h" "canonical_header_key (trim_space h) = h" "canonical_test cmp v"
    | (body) "f = ''body''" "h = []" "cmp \<in> set comparator_tags"
    | (keyword) "f = ''keyword''" "h = []" "cmp \<in> set comparator_tags"
    using assms unfolding canonical_leaf_def by blast
  then show ?thesis
  proof cases
    case address
    with address_field_canonical [OF address(1)] parses_field_test [of f f h cmp v sub] show ?thesis
      by (simp add: leaf_toks_def)
  next
    case header
    with parses_field_test [of f h h cmp v sub] show ?thesis by (simp add: leaf_toks_def)
  next
    case body
    have "parses (parse_test_level sub) (W ''body'' # [Tag cmp, S v]) (\<lambda>x. x = leaf False ''body'' [] cmp v)"
      by (rule parses_test_word [where q = "\<lambda>_. parse_value_test ''body'' ''contains''"])
        (use parses_value_test [OF body(3)] in \<open>simp_all add: parse_test_level_word\<close>)
    with body(1,2) show ?thesis by (simp add: leaf_toks_def)
  next
    case keyword
    have "parses (parse_test_level sub) (W ''hasflag'' # [Tag cmp, S v]) (\<lambda>x. x = leaf False ''keyword'' [] cmp v)"
      by (rule parses_test_word [where q = "\<lambda>_. parse_value_test ''keyword'' ''is''"])
        (use parses_value_test [OF keyword(3)] in \<open>simp_all add: parse_test_level_word\<close>)
    with keyword(1,2) show ?thesis by (simp add: leaf_toks_def)
  qed
qed

lemma parses_not:
  assumes "parses p ks (\<lambda>x. x = c)"
  shows "parses (parse_test_level (Some p)) (W ''not'' # ks) (\<lambda>x. x = set_negate c)"
proof (rule parses_test_word [where q = "\<lambda>_ us. and_then (p us) (\<lambda>(inner, ts1). Inr (set_negate inner, ts1))"])
  have "parses (\<lambda>us. and_then (p us) (\<lambda>(inner, ts1). Inr (set_negate inner, ts1))) (ks @ []) (\<lambda>x. x = set_negate c)"
    by (rule parses_bind [OF assms]) (simp add: parses_return)
  then show "parses (\<lambda>us. and_then (p us) (\<lambda>(inner, ts1). Inr (set_negate inner, ts1))) ks (\<lambda>x. x = set_negate c)"
    by simp
qed (simp add: parse_test_level_word enterTest_def)

lemma commas_hd:
  "list_all (\<lambda>ks. ks \<noteq> []) kss \<Longrightarrow> kss \<noteq> [] \<Longrightarrow> commas kss \<noteq> []"
  by (cases kss rule: commas.cases) auto

lemma leaf_toks_not_Nil: "leaf_toks f h cmp v \<noteq> []"
  by (simp add: leaf_toks_def field_toks_def)

lemma cond_toks_not_Nil: "cond_toks c \<noteq> []"
proof (cases c)
  case (Condition neg g f h cmp v)
  have "group_toks m \<noteq> []" for m by (cases m) simp
  with Condition show ?thesis by (cases g) (simp_all add: leaf_toks_not_Nil)
qed

lemma parses_group:
  assumes "op = ''allof'' \<or> op = ''anyof''" and "cs \<noteq> []"
    and "\<And>c. c \<in> set cs \<Longrightarrow> parses p (cond_toks c) (\<lambda>x. x = c)"
  shows "parses (parse_test_level (Some p)) (group_toks (MatchGroup op cs)) (\<lambda>x. x = group_cond False (MatchGroup op cs))"
proof -
  have "parses (parse_group_test op p) ([LPar] @ (commas (map cond_toks cs) @ [RPar]))
      (\<lambda>x. x = group_cond False (MatchGroup op cs))"
    unfolding parse_group_test_def [abs_def]
    by (rule parses_bind [OF parses_expect],
        rule parses_sep_list [where f = "\<lambda>cs. group_cond False (MatchGroup op cs)"])
      (use assms in \<open>auto simp: list_all2_conv_all_nth cond_toks_not_Nil\<close>)
  then have "parses (parse_test_level (Some p)) (W op # ([LPar] @ (commas (map cond_toks cs) @ [RPar])))
      (\<lambda>x. x = group_cond False (MatchGroup op cs))"
    by (intro parses_test_word [where q = "\<lambda>_. parse_group_test op p"])
      (use assms(1) in \<open>auto simp: parse_test_level_word enterTest_def\<close>)
  then show ?thesis by simp
qed

text \<open>Negation in front of a test that is parsed at the next level down.\<close>

lemma parses_cond_neg:
  assumes "\<And>j. n \<le> j \<Longrightarrow> parses (parseTest j) ks (\<lambda>x. x = Condition False g f h cmp v)"
    and "(if neg then 1 else 0) + n \<le> k"
  shows "parses (parseTest k) ((if neg then [W ''not''] else []) @ ks) (\<lambda>x. x = Condition neg g f h cmp v)"
proof (cases neg)
  case True
  with assms(2) obtain k' where k: "k = Suc k'" "n \<le> k'" by (cases k) auto
  have "parseTest (Suc k') = parse_test_level (Some (parseTest k'))" by (rule ext) simp
  with parses_not [OF assms(1) [OF k(2)]] True k(1) show ?thesis by (simp add: set_negate_def)
qed (use assms in simp)

lemma parseTest_level: "\<exists>sub. parseTest k = parse_test_level sub"
proof (cases k)
  case 0
  have "parseTest 0 = parse_test_level None" by (rule ext) simp
  with 0 show ?thesis by blast
next
  case (Suc j)
  have "parseTest (Suc j) = parse_test_level (Some (parseTest j))" by (rule ext) simp
  with Suc show ?thesis by blast
qed

lemma Suc_fold_max_le: "Suc (fold max xs (0::nat)) \<le> k \<longleftrightarrow> (\<exists>j. k = Suc j \<and> (\<forall>x \<in> set xs. x \<le> j))"
  using add_fold_max_le [of 0 xs 0] by (cases k) auto

lemma parses_tests:
  "canonical_group g \<Longrightarrow> group_nesting g \<le> k \<Longrightarrow>
     parses (parseTest k) (group_toks g) (\<lambda>x. x = group_cond False g)"
  "canonical_cond c \<Longrightarrow> cond_nesting c \<le> k \<Longrightarrow> parses (parseTest k) (cond_toks c) (\<lambda>x. x = c)"
proof (induction g and c arbitrary: k and k rule: canonical_group_canonical_cond.induct)
  case (1 op cs)
  from "1.prems"(2) obtain j where j: "k = Suc j" "\<forall>c \<in> set cs. cond_nesting c \<le> j"
    by (auto simp: Suc_fold_max_le)
  have "parseTest (Suc j) = parse_test_level (Some (parseTest j))" by (rule ext) simp
  moreover have "parses (parse_test_level (Some (parseTest j))) (group_toks (MatchGroup op cs))
      (\<lambda>x. x = group_cond False (MatchGroup op cs))"
    by (rule parses_group) (use 1 j in \<open>auto simp: list_all_iff\<close>)
  ultimately show ?case using j(1) by simp
next
  case (2 neg g f h cmp v)
  then have e: "f = []" "h = []" "cmp = []" "v = []" "canonical_group g" by simp_all
  have "parses (parseTest k) ((if neg then [W ''not''] else []) @ group_toks g)
      (\<lambda>x. x = Condition neg (Some g) [] [] [] [])"
    by (rule parses_cond_neg [where n = "group_nesting g"]) (use 2 e in auto)
  with e show ?case by simp
next
  case (3 neg f h cmp v)
  have "parses (parseTest k) ((if neg then [W ''not''] else []) @ leaf_toks f h cmp v)
      (\<lambda>x. x = leaf neg f h cmp v)"
    by (rule parses_cond_neg [where n = 0]) (use 3 parses_leaf parseTest_level in \<open>auto, metis\<close>)
  then show ?case by simp
qed

section \<open>Actions and scripts\<close>

lemma action_words [simp]:
  "to_lower ''addflag'' = ''addflag''" "to_lower ''removeflag'' = ''removeflag''" "to_lower ''fileinto'' = ''fileinto''"
  "to_lower ''markread'' = ''markread''" "to_lower ''archive'' = ''archive''" "to_lower ''markspam'' = ''markspam''"
  "to_lower ''discard'' = ''discard''" "to_lower ''stop'' = ''stop''" "to_lower ''keep'' = ''keep''"
  by code_simp+

lemma parses_plain_action: "parses (plain_action t) [Semi] (\<lambda>x. x = act t [])"
  unfolding plain_action_def [abs_def]
  using parses_bind [OF parses_semicolon parses_return [where Q = "\<lambda>x. x = act t []"], of "\<lambda>_. act t []"] by simp

lemma parses_value_action: "parses (value_action t what) [S v, Semi] (\<lambda>x. x = act t v)"
proof -
  have "parses (value_action t what) ([S v] @ [Semi] @ []) (\<lambda>x. x = act t v)"
    unfolding value_action_def [abs_def]
    by (rule parses_bind [OF parses_expect], rule parses_bind [OF parses_semicolon]) (simp add: parses_return)
  then show ?thesis by simp
qed

lemma parses_action_word:
  assumes "parses q ks Q"
    and "\<And>t us. lexeme t = W w \<Longrightarrow> us \<noteq> [] \<Longrightarrow> parseAction (t # us) = q us"
  shows "parses action_item (W w # ks) Q"
  unfolding parses_def
proof (intro allI impI)
  fix ts us :: "token list"
  assume "map lexeme ts = W w # ks" and us: "us \<noteq> []"
  then obtain t ts' where t: "ts = t # ts'" "lexeme t = W w" "map lexeme ts' = ks" by auto
  with us parsesD [OF assms(1) t(3) us] assms(2) [OF t(2), of "ts' @ us"]
  show "\<exists>x. action_item (ts @ us) = Inr (x, us) \<and> Q x" by (auto simp: action_item_def lexeme_eq)
qed

lemma act_eta: "a = act (act_Type a) (act_Value a)"
  by (simp add: act_def)

lemma parses_keep: "parses action_item [W ''keep'', Semi] (\<lambda>x. x = act ''keep'' [])"
  by (rule parses_action_word [OF parses_plain_action])
    (simp add: parseAction_def Let_def lexeme_eq next_tok_Cons)

lemma parses_action:
  assumes "canonical_action a"
  shows "parses action_item (action_toks a) (\<lambda>x. x = a)"
proof -
  note eval = parseAction_def Let_def lexeme_eq next_tok_Cons
  have v: "parses action_item (W w # [S (act_Value a), Semi]) (\<lambda>x. x = act t (act_Value a))"
    if "\<And>tk us. lexeme tk = W w \<Longrightarrow> us \<noteq> [] \<Longrightarrow> parseAction (tk # us) = value_action t what us" for w t what
    by (rule parses_action_word [OF parses_value_action that])
  have p: "parses action_item (W w # [Semi]) (\<lambda>x. x = act t [])"
    if "\<And>tk us. lexeme tk = W w \<Longrightarrow> us \<noteq> [] \<Longrightarrow> parseAction (tk # us) = plain_action t us" for w t
    by (rule parses_action_word [OF parses_plain_action that])
  from assms have "act_Type a \<in> set knownActionTypes" by (simp add: canonical_action_def)
  then consider (k) "act_Type a = ''keyword''" | (u) "act_Type a = ''unkeyword''" | (m) "act_Type a = ''move''"
    | (r) "act_Type a = ''read''" | (ar) "act_Type a = ''archive''" | (s) "act_Type a = ''spam''"
    | (d) "act_Type a = ''delete''" | (st) "act_Type a = ''stop''"
    by (auto simp: knownActionTypes_def)
  then have "parses action_item (action_toks a) (\<lambda>x. x = act (act_Type a) (act_Value a))"
  proof cases
    case k
    with v [of "''addflag''" "''keyword''" "''keyword string''"] show ?thesis by (simp add: action_toks_def eval)
  next
    case u
    with v [of "''removeflag''" "''unkeyword''" "''keyword string''"] show ?thesis by (simp add: action_toks_def eval)
  next
    case m
    with v [of "''fileinto''" "''move''" "''folder string''"] show ?thesis by (simp add: action_toks_def eval)
  next
    case r
    with assms p [of "''markread''" "''read''"] show ?thesis
      by (simp add: action_toks_def eval canonical_action_def actionsNeedingValue_def)
  next
    case ar
    with assms p [of "''archive''" "''archive''"] show ?thesis
      by (simp add: action_toks_def eval canonical_action_def actionsNeedingValue_def)
  next
    case s
    with assms p [of "''markspam''" "''spam''"] show ?thesis
      by (simp add: action_toks_def eval canonical_action_def actionsNeedingValue_def)
  next
    case d
    with assms p [of "''discard''" "''delete''"] show ?thesis
      by (simp add: action_toks_def eval canonical_action_def actionsNeedingValue_def)
  next
    case st
    with assms p [of "''stop''" "''stop''"] show ?thesis
      by (simp add: action_toks_def eval canonical_action_def actionsNeedingValue_def)
  qed
  then show ?thesis by (simp flip: act_eta)
qed

lemma while_loop_parses:
  assumes "list_all2 (\<lambda>ks x. parses p ks (\<lambda>y. y = x) \<and> ks \<noteq> [] \<and> (\<forall>t. lexeme t = hd ks \<longrightarrow> go t)) kss xs"
    and "map lexeme ts = concat kss" and "\<not> go u" and "length kss < n"
  shows "while_loop go p n (ts @ u # us) = Inr (xs, u # us)"
  using assms
proof (induction kss xs arbitrary: ts n rule: list_all2_induct)
  case Nil
  then show ?case by (cases n) simp_all
next
  case (Cons ks kss x xs)
  from Cons.prems obtain n' where n: "n = Suc n'" by (cases n) auto
  from Cons.prems(1) obtain ts1 ts2 where ts: "ts = ts1 @ ts2" "map lexeme ts1 = ks" "map lexeme ts2 = concat kss"
    by (auto simp: map_eq_append_conv)
  then obtain t ts1' where t: "ts1 = t # ts1'" "lexeme t = hd ks" using Cons.hyps(1) by (cases ts1) auto
  have "p (ts1 @ ts2 @ u # us) = Inr (x, ts2 @ u # us)"
    using parsesD [of p ks "\<lambda>y. y = x" ts1 "ts2 @ u # us"] Cons.hyps(1) ts(2) by auto
  with Cons.IH [OF ts(3) Cons.prems(2), of n'] Cons.prems(3) Cons.hyps(1) n ts(1) t show ?case by simp
qed

lemma length_concat_not_Nil: "list_all (\<lambda>ks. ks \<noteq> []) kss \<Longrightarrow> length kss \<le> length (concat kss)"
  by (induction kss) (auto simp: Suc_le_eq neq_Nil_conv)

lemma while_loop_list:
  assumes items: "list_all2 (\<lambda>ks x. parses p ks (\<lambda>y. y = x) \<and> ks \<noteq> [] \<and> (\<forall>t. lexeme t = hd ks \<longrightarrow> go t)) kss xs"
    and "map lexeme ts = concat kss" and "\<not> go u"
  shows "while_loop go p (length (ts @ u # us)) (ts @ u # us) = Inr (xs, u # us)"
proof (rule while_loop_parses [OF items assms(2,3)])
  have "list_all (\<lambda>ks. ks \<noteq> []) kss"
    using items by (auto simp: list_all_length list_all2_conv_all_nth)
  then show "length kss < length (ts @ u # us)"
    using length_concat_not_Nil assms(2) by (metis length_map length_append length_Cons less_Suc_eq_le trans_le_add1 add_Suc_right)
qed

lemma map_split_append:
  assumes "map f xs = ys @ zs"
  obtains us vs where "xs = us @ vs" "map f us = ys" "map f vs = zs"
  using assms by (auto simp: map_eq_append_conv)

lemma map_split_script:
  assumes "map f xs = as @ k1 # bs @ k2 # cs @ k3 # [k4]"
  obtains xs1 x1 xs2 x2 xs3 x3 x4 where "xs = xs1 @ x1 # xs2 @ x2 # xs3 @ x3 # [x4]"
    "map f xs1 = as" "f x1 = k1" "map f xs2 = bs" "f x2 = k2" "map f xs3 = cs" "f x3 = k3" "f x4 = k4"
proof -
  from assms obtain xs1 r1 where 1: "xs = xs1 @ r1" "map f xs1 = as" "map f r1 = k1 # bs @ k2 # cs @ k3 # [k4]"
    by (rule map_split_append)
  from 1(3) obtain x1 r2 where 2: "r1 = x1 # r2" "f x1 = k1" "map f r2 = bs @ k2 # cs @ k3 # [k4]"
    by (auto simp: map_eq_Cons_conv)
  from 2(3) obtain xs2 r3 where 3: "r2 = xs2 @ r3" "map f xs2 = bs" "map f r3 = k2 # cs @ k3 # [k4]"
    by (rule map_split_append)
  from 3(3) obtain x2 r4 where 4: "r3 = x2 # r4" "f x2 = k2" "map f r4 = cs @ k3 # [k4]"
    by (auto simp: map_eq_Cons_conv)
  from 4(3) obtain xs3 r5 where 5: "r4 = xs3 @ r5" "map f xs3 = cs" "map f r5 = k3 # [k4]"
    by (rule map_split_append)
  from 5(3) obtain x3 x4 where "r5 = [x3, x4]" "f x3 = k3" "f x4 = k4"
    by (auto simp: map_eq_Cons_conv)
  with 1 2 3 4 5 that show ?thesis by auto
qed

lemma parses_require:
  assumes "caps \<noteq> []" and "set caps \<subseteq> set allowedCapabilities"
  shows "parses require_item (W ''require'' # ([LBrk] @ commas (map (\<lambda>s. [S s]) caps) @ [RBrk]) @ [Semi]) (\<lambda>x. x = ())"
  unfolding parses_def
proof (intro allI impI)
  fix ts us :: "token list"
  assume m: "map lexeme ts = W ''require'' # ([LBrk] @ commas (map (\<lambda>s. [S s]) caps) @ [RBrk]) @ [Semi]" and us: "us \<noteq> []"
  from m obtain t ts0 where t0: "ts = t # ts0"
      "map lexeme ts0 = ([LBrk] @ commas (map (\<lambda>s. [S s]) caps) @ [RBrk]) @ [Semi]"
    unfolding map_eq_Cons_conv by blast
  from t0(2) obtain ts1 ts2 where "ts0 = ts1 @ ts2"
    and t12: "map lexeme ts1 = [LBrk] @ commas (map (\<lambda>s. [S s]) caps) @ [RBrk]" "map lexeme ts2 = [Semi]"
    by (rule map_split_append)
  with t0 have t: "ts = t # ts1 @ ts2" "map lexeme ts1 = [LBrk] @ commas (map (\<lambda>s. [S s]) caps) @ [RBrk]"
      "map lexeme ts2 = [Semi]" by simp_all
  have "list_all (\<lambda>c. to_lower (trim_space c) \<in> set allowedCapabilities) allowedCapabilities" by code_simp
  with assms(2) have find: "find (\<lambda>c. to_lower (trim_space c) \<notin> set allowedCapabilities) caps = None"
    by (auto simp: find_None_iff list_all_iff)
  have "parseStringList (ts1 @ ts2 @ us) = Inr (caps, ts2 @ us)"
    using parsesD [OF parses_parseStringList [OF assms(1)] t(2), of "ts2 @ us"] us by auto
  moreover have "expectSemicolon (ts2 @ us) = Inr ((), us)"
    using parsesD [OF parses_semicolon t(3) us] by auto
  ultimately show "\<exists>x. require_item (ts @ us) = Inr (x, us) \<and> x = ()"
    using t(1) us find by (simp add: require_item_def Let_def next_tok_Cons)
qed

lemma rule_capabilities_allowed: "set (rule_capabilities r) \<subseteq> set allowedCapabilities"
  unfolding rule_capabilities_def allowedCapabilities_def by (rule filter_is_subset)

lemma script_parses:
  assumes "canonical_rule r" and "group_nesting (rule_Match r) \<le> maxTestNestingDepth"
    and m: "map lexeme ts = script_toks r @ [(TokEOF, [])]"
  shows "parse_script ts = Inr (rule_Match r, rule_Actions r)"
proof -
  let ?caps = "rule_capabilities r" and ?as = "rule_Actions r"
  let ?reqs = "if ?caps = [] then [] else [W ''require'' # ([LBrk] @ commas (map (\<lambda>s. [S s]) ?caps) @ [RBrk]) @ [Semi]]"
  let ?acts = "(if ?as = [] then [[W ''keep'', Semi]] else []) @ map action_toks ?as"
  let ?xs = "(if ?as = [] then [act ''keep'' []] else []) @ ?as"
  have "map lexeme ts = concat ?reqs @ W ''if'' # group_toks (rule_Match r) @ LBrc # concat ?acts @ RBrc # [(TokEOF, [])]"
    unfolding m script_toks_def by simp
  then obtain ts1 i ts2 lb ts3 rb e where ts: "ts = ts1 @ i # ts2 @ lb # ts3 @ rb # [e]"
    and l: "map lexeme ts1 = concat ?reqs" "lexeme i = W ''if''" "map lexeme ts2 = group_toks (rule_Match r)"
      "lexeme lb = LBrc" "map lexeme ts3 = concat ?acts" "lexeme rb = RBrc" "lexeme e = (TokEOF, [])"
    by (rule map_split_script)
  have eq: "equal_fold ''require'' ''require''" "\<not> equal_fold ''if'' ''require''" "equal_fold ''if'' ''if''" by code_simp+
  have req: "while_loop is_require require_item (length ts) ts = Inr (if ?caps = [] then [] else [()], i # ts2 @ lb # ts3 @ rb # [e])"
    unfolding ts
    by (rule while_loop_list [where kss = ?reqs])
      (use parses_require [of ?caps] rule_capabilities_allowed [of r] l(1,2) eq in \<open>auto simp: is_require_def lexeme_eq\<close>)
  have test: "parseTest maxTestNestingDepth (ts2 @ lb # ts3 @ rb # [e]) = Inr (group_cond False (rule_Match r), lb # ts3 @ rb # [e])"
    using parsesD [OF parses_tests(1) l(3)] assms(1,2) by (auto simp: canonical_rule_def)
  have items: "list_all2 (\<lambda>ks x. parses action_item ks (\<lambda>y. y = x) \<and> ks \<noteq> [] \<and> (\<forall>t. lexeme t = hd ks \<longrightarrow> tok_kind t \<noteq> TokRBrace)) ?acts ?xs"
  proof -
    have h: "action_toks a \<noteq> [] \<and> fst (hd (action_toks a)) = TokWord" for a
      by (simp add: action_toks_def Let_def)
    then have "tok_kind t \<noteq> TokRBrace" if "lexeme t = hd (action_toks a)" for t a
      using that by (metis lexeme_def fst_conv tok_kind.distinct)
    with h assms(1) show ?thesis
      by (auto simp: canonical_rule_def list_all2_conv_all_nth list_all_length parses_action parses_keep lexeme_eq)
  qed
  have acts: "while_loop (\<lambda>t. tok_kind t \<noteq> TokRBrace) action_item (length (ts3 @ rb # [e])) (ts3 @ rb # [e]) = Inr (?xs, rb # [e])"
    by (rule while_loop_list [OF items l(5)]) (use l(6) in \<open>simp add: lexeme_eq\<close>)
  have keep: "filter (\<lambda>a. act_Type a \<noteq> ''keep'') ?xs = ?as"
  proof -
    have "''keep'' \<notin> set knownActionTypes" by code_simp
    with assms(1) have "\<forall>a \<in> set ?as. act_Type a \<noteq> ''keep''"
      by (auto simp: canonical_rule_def list_all_iff canonical_action_def)
    then show ?thesis by (auto simp: filter_id_conv act_def)
  qed
  show ?thesis
    using test acts keep l eq
    by (simp add: parse_script_def req expectWord_def expect_def Let_def lexeme_eq next_tok_Cons root_match_def
        del: while_loop.simps)
qed

end
