(* ===== verification/Sieve_Canonical.thy ===== *)
theory Sieve_Canonical
  imports Sieve_Roundtrip
begin

text \<open>
  What the parser builds is canonical, so every rule that came out of a script can be printed and
  parsed again.
\<close>

section \<open>Results of parsers\<close>

text \<open>\<open>yields p Q\<close>: whatever \<open>p\<close> returns satisfies \<open>Q\<close>.\<close>

definition yields :: "'a parser \<Rightarrow> ('a \<Rightarrow> bool) \<Rightarrow> bool" where
  "yields p Q \<longleftrightarrow> (\<forall>ts x ts'. p ts = Inr (x, ts') \<longrightarrow> Q x)"

lemma yieldsD: "yields p Q \<Longrightarrow> p ts = Inr (x, ts') \<Longrightarrow> Q x"
  unfolding yields_def by blast

lemma yields_bind:
  assumes "yields p Q" and "\<And>x. Q x \<Longrightarrow> yields (f x) R"
  shows "yields (\<lambda>ts. and_then (p ts) (\<lambda>(x, ts'). f x ts')) R"
  using assms unfolding yields_def by fastforce

lemma yields_top: "yields p (\<lambda>_. True)"
  by (simp add: yields_def)

lemma yields_return: "Q x \<Longrightarrow> yields (\<lambda>ts. Inr (x, ts)) Q"
  by (simp add: yields_def)

lemma yields_fail: "yields (\<lambda>ts. Inl e) Q"
  by (simp add: yields_def)

lemma yields_if: "(b \<Longrightarrow> yields p Q) \<Longrightarrow> (\<not> b \<Longrightarrow> yields q Q) \<Longrightarrow> yields (\<lambda>ts. if b then p ts else q ts) Q"
  by (cases b) simp_all

lemma yields_case:
  "(o' = None \<Longrightarrow> yields p Q) \<Longrightarrow> (\<And>y. yields (q y) Q) \<Longrightarrow>
     yields (\<lambda>ts. case o' of None \<Rightarrow> p ts | Some y \<Rightarrow> q y ts) Q"
  by (cases o') simp_all

lemma sep_loop_yields:
  assumes "yields p Q"
  shows "sep_loop stop p n ts = Inr (xs, ts') \<Longrightarrow> list_all Q xs \<and> (xs = [] \<longrightarrow> stop (peek ts))"
proof (induction n arbitrary: ts xs ts')
  case (Suc n)
  then show ?case
    by (auto split: if_splits dest!: yieldsD [OF assms])
qed simp

lemma while_loop_yields:
  assumes "yields p Q"
  shows "while_loop go p n ts = Inr (xs, ts') \<Longrightarrow> list_all Q xs"
proof (induction n arbitrary: ts xs ts')
  case (Suc n)
  then show ?case
    by (auto split: if_splits dest!: yieldsD [OF assms])
qed simp

section \<open>Tests\<close>

lemma yields_tag: "d \<in> set comparator_tags \<Longrightarrow> yields (parseComparatorTag d) (\<lambda>c. c \<in> set comparator_tags)"
  unfolding yields_def parseComparatorTag_def Let_def by (auto simp del: set_simps split: if_splits)

lemma atom_char_not_space: "atom_char c \<Longrightarrow> \<not> is_space c"
  unfolding atom_char_def is_space_def by linarith

lemma custom_header_canonical:
  assumes "validCustomHeader f"
  defines "h \<equiv> canonical_header_key (trim_space f)"
  shows "validCustomHeader h" and "canonical_header_key (trim_space h) = h"
proof -
  from assms(1) have f: "ValidateHeaderFieldName (trim_space f) = None" "normalizeField f \<noteq> ''body''"
    "normalizeField f \<noteq> ''keyword''" "normalizeField f \<notin> set validHeaderAddressFields"
    unfolding validCustomHeader_def Let_def by blast+
  from canonical_header_key_safe [OF f(1)] have h: "ValidateHeaderFieldName h = None" by (simp add: h_def)
  have trim: "trim_space h = h"
    by (rule trim_space_no_space) (use h atom_char_not_space in \<open>unfold ValidateHeaderFieldName_None, blast\<close>)
  then have "normalizeField h = normalizeField f" by (simp add: normalizeField_def h_def)
  with f h trim show "validCustomHeader h" unfolding validCustomHeader_def Let_def by simp
  show "canonical_header_key (trim_space h) = h" unfolding trim by (simp add: h_def)
qed

lemma field_leaf_is_canonical:
  assumes "normalizeField f \<in> set validHeaderAddressFields \<or> validCustomHeader f" and "canonical_test cmp v"
  shows "canonical_cond (field_leaf cmp v f)"
  using assms custom_header_canonical [of f] by (auto simp: field_leaf_def canonical_leaf_def simp del: set_simps)

lemma fieldsToCondition_canonical:
  assumes "bad_field b flds = None" and "flds \<noteq> []" and "canonical_test cmp v"
  shows "canonical_cond (fieldsToCondition flds cmp v)"
proof -
  have "canonical_cond (field_leaf cmp v f)" if "f \<in> set flds" for f
    by (rule field_leaf_is_canonical [OF _ assms(3)])
      (use assms(1) that in \<open>auto simp: bad_field_def find_None_iff\<close>)
  with assms(2) show ?thesis
    by (auto simp: fieldsToCondition_def list_all_iff split: list.splits)
qed

lemma yields_header_test: "yields (parse_header_test line b) canonical_cond"
  unfolding parse_header_test_def [abs_def]
proof (rule yields_bind [OF yields_tag])
  show "''is'' \<in> set comparator_tags" by simp
next
  fix cmp
  assume "cmp \<in> set comparator_tags"
  then show "yields (\<lambda>ts1. and_then (parseStringList ts1) (\<lambda>(flds, ts2).
         and_then (expect TokString ''string value'' ts2) (\<lambda>(valueTok, ts3).
           if flds = [] then Inl (FieldRequired line)
           else (case bad_field b flds of
                   Some f \<Rightarrow> Inl (UnsupportedField line f)
                 | None \<Rightarrow> Inr (fieldsToCondition flds cmp (tok_text valueTok), ts3))))) canonical_cond"
    by (intro yields_bind [OF yields_top] yields_if yields_fail yields_case yields_return
        fieldsToCondition_canonical) (simp_all add: canonical_test_def)
qed

lemma yields_exists_test: "yields (parse_exists_test line) canonical_cond"
  unfolding parse_exists_test_def [abs_def]
  by (intro yields_bind [OF yields_top] yields_if yields_fail yields_case yields_return
      fieldsToCondition_canonical) (simp_all add: canonical_test_def)

lemma yields_value_test:
  assumes "f = ''body'' \<or> f = ''keyword''" and "d \<in> set comparator_tags"
  shows "yields (parse_value_test f d) canonical_cond"
  unfolding parse_value_test_def [abs_def]
proof (rule yields_bind [OF yields_tag [OF assms(2)]])
  fix cmp
  assume "cmp \<in> set comparator_tags"
  with assms(1) show "yields (\<lambda>ts1. and_then (expect TokString ''string value'' ts1) (\<lambda>(valueTok, ts2).
         Inr (leaf False f [] cmp (tok_text valueTok), ts2))) canonical_cond"
    by (intro yields_bind [OF yields_top] yields_return) (simp add: canonical_leaf_def)
qed

lemma yields_group_test:
  assumes "yields p canonical_cond" and "op = ''allof'' \<or> op = ''anyof''"
  shows "yields (parse_group_test op p) canonical_cond"
  unfolding parse_group_test_def [abs_def]
proof (rule yields_bind [OF yields_top])
  have "yields (\<lambda>ts1. sep_loop (\<lambda>_. False) p (length ts1) ts1) (\<lambda>cs. cs \<noteq> [] \<and> list_all canonical_cond cs)"
    using sep_loop_yields [OF assms(1), where stop = "\<lambda>_. False"] unfolding yields_def by blast
  then show "yields (\<lambda>ts1. and_then (sep_loop (\<lambda>_. False) p (length ts1) ts1) (\<lambda>(conds, ts2).
         and_then (expect TokRParen '')'' ts2) (\<lambda>(_, ts3).
           Inr (group_cond False (MatchGroup op conds), ts3)))) canonical_cond"
    by (rule yields_bind) (intro yields_bind [OF yields_top] yields_return, use assms(2) in simp)
qed

lemma set_negate_canonical: "canonical_cond c \<Longrightarrow> canonical_cond (set_negate c)"
  by (cases c; cases "cond_Group c") (auto simp: set_negate_def)

lemma group_word:
  "equal_fold w ''allof'' \<or> equal_fold w ''anyof'' \<Longrightarrow> to_lower w = ''allof'' \<or> to_lower w = ''anyof''"
proof -
  have "to_lower ''allof'' = ''allof''" "to_lower ''anyof'' = ''anyof''" by code_simp+
  then show "equal_fold w ''allof'' \<or> equal_fold w ''anyof'' \<Longrightarrow> to_lower w = ''allof'' \<or> to_lower w = ''anyof''"
    by (simp add: equal_fold_def)
qed

lemma parse_test_level_canonical:
  assumes sub: "\<And>p. sub = Some p \<Longrightarrow> yields p canonical_cond" and ok: "parse_test_level sub ts = Inr (c, ts')"
  shows "canonical_cond c"
proof -
  let ?t = "peek ts" and ?us = "next_tok ts"
  let ?w = "tok_text ?t" and ?l = "tok_line ?t"
  from ok have word: "tok_kind ?t = TokWord" by (auto simp: parse_test_level_def Let_def split: if_splits)
  consider (neg) p inner where "sub = Some p" "p ?us = Inr (inner, ts')" "c = set_negate inner"
    | (group) p where "sub = Some p" "equal_fold ?w ''allof'' \<or> equal_fold ?w ''anyof''"
        "parse_group_test (to_lower ?w) p ?us = Inr (c, ts')"
    | (header) b where "parse_header_test ?l b ?us = Inr (c, ts')"
    | (ex) "parse_exists_test ?l ?us = Inr (c, ts')"
    | (body) "parse_value_test ''body'' ''contains'' ?us = Inr (c, ts')"
    | (flag) "parse_value_test ''keyword'' ''is'' ?us = Inr (c, ts')"
    using ok word unfolding parse_test_level_def Let_def enterTest_def
    by (auto split: if_splits option.splits)
  then show ?thesis
  proof cases
    case neg
    with sub show ?thesis by (auto dest: yieldsD intro: set_negate_canonical)
  next
    case group
    show ?thesis by (rule yieldsD [OF yields_group_test group(3)]) (use sub group group_word in auto)
  next
    case header
    then show ?thesis by (rule yieldsD [OF yields_header_test])
  next
    case ex
    then show ?thesis by (rule yieldsD [OF yields_exists_test])
  next
    case body
    show ?thesis by (rule yieldsD [OF yields_value_test body]) simp_all
  next
    case flag
    show ?thesis by (rule yieldsD [OF yields_value_test flag]) simp_all
  qed
qed

lemma yields_parseTest: "yields (parseTest k) canonical_cond"
proof (induction k)
  case 0
  then show ?case by (auto simp: yields_def intro: parse_test_level_canonical [where sub = None])
next
  case (Suc k)
  have "canonical_cond c" if "parse_test_level (Some (parseTest k)) ts = Inr (c, ts')" for ts c ts'
    by (rule parse_test_level_canonical [OF _ that]) (use Suc in simp)
  then show ?case by (simp add: yields_def)
qed

section \<open>Actions\<close>

lemma yields_plain_action: "yields (plain_action t) (\<lambda>a. a = act t [])"
  unfolding plain_action_def [abs_def] by (intro yields_bind [OF yields_top] yields_return) simp

lemma yields_value_action: "yields (value_action t what) (\<lambda>a. act_Type a = t)"
  unfolding value_action_def [abs_def] by (intro yields_bind [OF yields_top] yields_return) (simp add: act_def)

definition parsed_action :: "action \<Rightarrow> bool" where
  "parsed_action a \<longleftrightarrow> act_Type a = ''keep'' \<or> canonical_action a"

lemma yields_plain:
  "t \<in> set (''keep'' # knownActionTypes) \<Longrightarrow> yields (plain_action t) parsed_action"
  using yields_plain_action [of t] unfolding yields_def parsed_action_def canonical_action_def act_def
  by fastforce

lemma yields_valued: "t \<in> set actionsNeedingValue \<Longrightarrow> yields (value_action t what) parsed_action"
proof -
  assume t: "t \<in> set actionsNeedingValue"
  have "list_all (\<lambda>t. t \<in> set knownActionTypes) actionsNeedingValue" by code_simp
  with t have "t \<in> set knownActionTypes" by (auto simp: list_all_iff)
  with t yields_value_action [of t what] show ?thesis
    unfolding yields_def parsed_action_def canonical_action_def by fastforce
qed

lemma yields_parseAction: "yields parseAction parsed_action"
proof -
  let ?body = "\<lambda>t ts'.
      if tok_kind t \<noteq> TokWord then Inl (ExpectedAction (tok_line t) (tokenDisplay t))
      else if to_lower (tok_text t) = ''fileinto'' then value_action ''move'' ''folder string'' ts'
      else if to_lower (tok_text t) = ''discard'' then plain_action ''delete'' ts'
      else if to_lower (tok_text t) = ''keep'' then plain_action ''keep'' ts'
      else if to_lower (tok_text t) = ''stop'' then plain_action ''stop'' ts'
      else if to_lower (tok_text t) = ''addflag'' then value_action ''keyword'' ''keyword string'' ts'
      else if to_lower (tok_text t) = ''removeflag'' then value_action ''unkeyword'' ''keyword string'' ts'
      else if to_lower (tok_text t) = ''markread'' then plain_action ''read'' ts'
      else if to_lower (tok_text t) = ''archive'' then plain_action ''archive'' ts'
      else if to_lower (tok_text t) = ''markspam'' then plain_action ''spam'' ts'
      else Inl (UnknownAction (tok_line t) (to_lower (tok_text t)))"
  have body: "yields (?body t) parsed_action" for t
    by (intro yields_if yields_fail yields_plain yields_valued) code_simp+
  have unfold: "parseAction ts = ?body (peek ts) (next_tok ts)" for ts
    unfolding parseAction_def Let_def by (rule refl)
  show ?thesis
    unfolding yields_def
  proof (intro allI impI)
    fix ts a ts'
    assume "parseAction ts = Inr (a, ts')"
    then show "parsed_action a" unfolding unfold by (rule yieldsD [OF body])
  qed
qed

lemma yields_action_item: "yields action_item parsed_action"
  using yields_parseAction by (auto simp: yields_def action_item_def)

section \<open>Scripts\<close>

lemma root_match_canonical: "canonical_cond c \<Longrightarrow> canonical_group (root_match c)"
  by (cases c; cases "cond_Group c") (auto simp: root_match_def)

lemma parse_script_canonical:
  assumes "parse_script ts = Inr (m, as)"
  shows "canonical_group m \<and> list_all canonical_action as"
proof -
  from assms obtain root acts ts2 ts3 ts4 ts5 where
    t: "parseTest maxTestNestingDepth ts2 = Inr (root, ts3)" "m = root_match root"
    and a: "while_loop (\<lambda>t. tok_kind t \<noteq> TokRBrace) action_item (length ts4) ts4 = Inr (acts, ts5)"
      "as = filter (\<lambda>a. act_Type a \<noteq> ''keep'') acts"
    by (auto simp: parse_script_def split: if_splits)
  from t have "canonical_group m" by (auto dest: yieldsD [OF yields_parseTest] intro: root_match_canonical)
  moreover from while_loop_yields [OF yields_action_item a(1)] a(2) have "list_all canonical_action as"
    by (auto simp: list_all_iff parsed_action_def)
  ultimately show ?thesis by simp
qed

lemma ParseRuleText_canonical:
  assumes "ParseRuleText src existing = Inr r"
  shows "canonical_rule r" and "r = existing\<lparr>rule_Match := rule_Match r, rule_Actions := rule_Actions r\<rparr>"
  using assms by (auto simp: ParseRuleText_def canonical_rule_def dest: parse_script_canonical split: sum.splits)

lemma canonical_rule_roundtrip:
  assumes "canonical_rule r" and "group_nesting (rule_Match r) \<le> maxTestNestingDepth"
  shows "\<exists>src. CompileRule r = Inr src \<and>
           ParseRuleText src existing = Inr (existing\<lparr>rule_Match := rule_Match r, rule_Actions := rule_Actions r\<rparr>)"
proof -
  from script_text [OF assms(1)] obtain src where src: "CompileRule r = Inr src" "lexes src (script_toks r)" by blast
  from lexSieve_lexes [OF src(2)] obtain ts where "lexSieve src = Inr ts" "map lexeme ts = script_toks r @ [(TokEOF, [])]"
    by blast
  with script_parses [OF assms this(2)] src(1) show ?thesis by (simp add: ParseRuleText_def)
qed

section \<open>Properties\<close>


definition nested_rule :: rule where
  "nested_rule = demo_rule\<lparr>
     rule_Match := MatchGroup ''anyof''
       [leaf True ''header'' ''List-Id'' ''exists'' [],
        group_cond False (MatchGroup ''allof'' [leaf False ''from'' [] ''is'' [CHR 0x22, CHR 0x5C],
                                               leaf False ''body'' [] ''regex'' ''a+''])],
     rule_Actions := [act ''keyword'' ''Lists'', act ''archive'' [], act ''stop'' []]\<rparr>"


text \<open>
  What the parser returns can be edited again. A rule obtained from a script keeps every field of the
  existing rule but its match tree and actions, is in canonical form with known action types only, and,
  unless its tests nest deeper than the parser allows, it is printed and parsed back to itself.
\<close>

theorem parsed_rule_stable:
  assumes "ParseRuleText src existing = Inr r"
  shows "r = existing\<lparr>rule_Match := rule_Match r, rule_Actions := rule_Actions r\<rparr> \<and> canonical_rule r \<and>
         (group_nesting (rule_Match r) \<le> maxTestNestingDepth \<longrightarrow>
            (\<exists>src'. CompileRule r = Inr src' \<and> ParseRuleText src' r = Inr r))"
  using ParseRuleText_canonical [OF assms] canonical_rule_roundtrip [of r r] by (cases r) simp

theorem parsed_rule_stable_witness:
  "\<exists>r src'. ParseRuleText (''if not body '' @ sieveQuote ''x'' @ '' { keep; discard; }'') demo_rule = Inr r \<and>
     CompileRule r = Inr src' \<and> ParseRuleText src' r = Inr r"
proof -
  let ?src = "''if not body '' @ sieveQuote ''x'' @ '' { keep; discard; }''"
  let ?r = "demo_rule\<lparr>rule_Match := MatchGroup ''allof'' [leaf True ''body'' [] ''contains'' ''x''],
      rule_Actions := [act ''delete'' []]\<rparr>"
  have parsed: "ParseRuleText ?src demo_rule = Inr ?r" by code_simp
  have nest: "group_nesting (rule_Match ?r) \<le> maxTestNestingDepth" by code_simp
  from parsed nest parsed_rule_stable [OF parsed] show ?thesis by blast
qed

text \<open>
  C39: The parser always returns. On every input text it ends in a rule or in one of the parser's own
  errors; the bound the model puts on its loops, the number of tokens left, is never reached.
\<close>

theorem parse_never_out_of_fuel: "ParseRuleText src existing \<noteq> Inl OutOfFuel"
  using lex_from_eof parse_script_total
  by (fastforce simp: ParseRuleText_def lexSieve_def and_then_eq_Inl split: sum.splits)

section \<open>Where meaning is lost\<close>

text \<open>
  A negated group at the root loses its negation: the two scripts below give the same rule, although
  they ask for opposite conditions.
\<close>

lemma root_negation_dropped:
  "ParseRuleText (''if not anyof(exists '' @ sieveQuote ''from'' @ '') { stop; }'') demo_rule =
   ParseRuleText (''if anyof(exists '' @ sieveQuote ''from'' @ '') { stop; }'') demo_rule"
  by code_simp

text \<open>A rule without conditions is printed as a test the parser refuses.\<close>

lemma empty_group_not_reparsed:
  "case CompileRule (demo_rule\<lparr>rule_Match := MatchGroup ''allof'' []\<rparr>) of
     Inl _ \<Rightarrow> False | Inr src \<Rightarrow> \<not> is_ok (ParseRuleText src demo_rule)"
  by code_simp

text \<open>A comparator padded with white space passes for its trimmed form everywhere but in the printed tag.\<close>

lemma padded_comparator_not_reparsed:
  "case CompileRule (demo_rule\<lparr>rule_Match := MatchGroup ''allof'' [leaf False ''subject'' [] '' is '' ''x'']\<rparr>) of
     Inl _ \<Rightarrow> False | Inr src \<Rightarrow> \<not> is_ok (ParseRuleText src demo_rule)"
  by code_simp

end
