(* ===== verification/Rule_Handlers.thy ===== *)
theory Rule_Handlers
  imports Rule_Store Sieve_Canonical
begin

text \<open>
  The rule endpoints of \<open>backend/internal/api/rules_handlers.go\<close>: \<open>handleRules\<close>, \<open>handleRuleByID\<close>,
  \<open>handleRulesReorder\<close>, \<open>handleRuleSieve\<close> and the manual run \<open>handleRulesRun\<close>.

  A request is its method, its path value and its decoded body, \<open>None\<close> where decoding fails; \<open>opened\<close> is
  whether \<open>rulesFor\<close> found the store. Each store call has its own \<open>io\<close>. A response is its status and
  body.
\<close>

section \<open>Payloads\<close>

definition maxRulesPerUser :: nat where "maxRulesPerUser = 100"

record rule_payload =
  pl_ID :: string
  pl_Name :: string
  pl_Enabled :: bool
  pl_Order :: int
  pl_Scope :: rule_scope
  pl_Match :: match_group
  pl_Actions :: "action list"
  pl_Rev :: int
  pl_CreatedAt :: string
  pl_UpdatedAt :: string
  pl_GUIEditable :: bool

definition ruleIsGUIEditable :: "rule \<Rightarrow> bool" where
  "ruleIsGUIEditable r = list_all (\<lambda>c. cond_Group c = None) (grp_Conditions (rule_Match r))"

definition ruleToPayload :: "rule \<Rightarrow> rule_payload" where
  "ruleToPayload r =
     \<lparr>pl_ID = rule_ID r, pl_Name = rule_Name r, pl_Enabled = rule_Enabled r, pl_Order = rule_Order r,
      pl_Scope = rule_Scope r, pl_Match = rule_Match r, pl_Actions = rule_Actions r, pl_Rev = rule_Rev r,
      pl_CreatedAt = rule_CreatedAt r, pl_UpdatedAt = rule_UpdatedAt r, pl_GUIEditable = ruleIsGUIEditable r\<rparr>"

definition ruleFromPayload :: "rule_payload \<Rightarrow> rule" where
  "ruleFromPayload p =
     \<lparr>rule_ID = pl_ID p, rule_Name = pl_Name p, rule_Enabled = pl_Enabled p, rule_Order = pl_Order p,
      rule_Scope = pl_Scope p, rule_Match = pl_Match p, rule_Actions = pl_Actions p,
      rule_Rev = 0, rule_CreatedAt = [], rule_UpdatedAt = []\<rparr>"

section \<open>Endpoints\<close>

datatype http_method = MethodGet | MethodPost | MethodPut | MethodDelete | OtherMethod

datatype rules_response =
  HttpError nat string
| RuleError rule_error
| ParseError parse_error
| RuleList "rule_payload list"
| OneRule rule_payload
| Removed bool
| Script string
| OK

definition handleRules ::
  "'re regexp_lib \<Rightarrow> (rule list \<Rightarrow> rule list) \<Rightarrow> bool \<Rightarrow> http_method \<Rightarrow> rule_payload option \<Rightarrow> io \<Rightarrow> io \<Rightarrow> rule_store
     \<Rightarrow> rules_response \<times> rule_store" where
  "handleRules lib srt opened meth body i1 i2 s =
     (if \<not> opened then (HttpError 500 ''failed to open rules store'', s)
      else if meth = MethodGet then
        (case List_rules srt i1 s of
           (Inl _, s1) \<Rightarrow> (HttpError 500 ''failed to read rules'', s1)
         | (Inr l, s1) \<Rightarrow> (RuleList (map ruleToPayload l), s1))
      else if meth = MethodPost then
        (case body of
           None \<Rightarrow> (HttpError 400 ''invalid request'', s)
         | Some payload \<Rightarrow>
             (let name = trim_space (pl_Name payload) in
              if name = [] then (HttpError 400 ''name is required'', s)
              else
                (case List_rules srt i1 s of
                   (Inl _, s1) \<Rightarrow> (HttpError 500 ''failed to read rules'', s1)
                 | (Inr existing, s1) \<Rightarrow>
                     if length existing \<ge> maxRulesPerUser then (HttpError 400 ''too many rules for this account'', s1)
                     else
                       (let r = ruleFromPayload (payload\<lparr>pl_ID := [], pl_Name := name\<rparr>) in
                        case ValidateRule lib r of
                          Some e \<Rightarrow> (RuleError e, s1)
                        | None \<Rightarrow>
                            (case Upsert r i2 s1 of
                               (Inl _, s2) \<Rightarrow> (HttpError 500 ''failed to create rule'', s2)
                             | (Inr created, s2) \<Rightarrow> (OneRule (ruleToPayload created), s2))))))
      else (HttpError 405 ''method not allowed'', s))"

definition handleRuleByID ::
  "'re regexp_lib \<Rightarrow> bool \<Rightarrow> http_method \<Rightarrow> string \<Rightarrow> rule_payload option \<Rightarrow> io \<Rightarrow> io \<Rightarrow> rule_store
     \<Rightarrow> rules_response \<times> rule_store" where
  "handleRuleByID lib opened meth pathid body i1 i2 s =
     (if \<not> opened then (HttpError 500 ''failed to open rules store'', s)
      else
        (let ident = trim_space pathid in
         if ident = [] then (HttpError 400 ''id is required'', s)
         else if meth = MethodPut then
           (case Get_rule ident i1 s of
              (Inl _, s1) \<Rightarrow> (HttpError 500 ''failed to read rules'', s1)
            | (Inr None, s1) \<Rightarrow> (HttpError 404 ''rule not found'', s1)
            | (Inr (Some existing), s1) \<Rightarrow>
                (case body of
                   None \<Rightarrow> (HttpError 400 ''invalid request'', s1)
                 | Some payload \<Rightarrow>
                     (let name = trim_space (pl_Name payload) in
                      if name = [] then (HttpError 400 ''name is required'', s1)
                      else
                        (let r = ruleFromPayload (payload\<lparr>pl_ID := rule_ID existing, pl_Name := name,
                                   pl_Order := rule_Order existing, pl_Scope := rule_Scope existing\<rparr>) in
                         case ValidateRule lib r of
                           Some e \<Rightarrow> (RuleError e, s1)
                         | None \<Rightarrow>
                             (case Upsert r i2 s1 of
                                (Inl _, s2) \<Rightarrow> (HttpError 500 ''failed to update rule'', s2)
                              | (Inr updated, s2) \<Rightarrow> (OneRule (ruleToPayload updated), s2))))))
         else if meth = MethodDelete then
           (case Delete_rule ident i1 s of
              (Inl _, s1) \<Rightarrow> (HttpError 500 ''failed to delete rule'', s1)
            | (Inr removed, s1) \<Rightarrow> (Removed removed, s1))
         else (HttpError 405 ''method not allowed'', s)))"

definition handleRulesReorder ::
  "bool \<Rightarrow> http_method \<Rightarrow> string list option \<Rightarrow> io \<Rightarrow> rule_store \<Rightarrow> rules_response \<times> rule_store" where
  "handleRulesReorder opened meth body i s =
     (if meth \<noteq> MethodPost then (HttpError 405 ''method not allowed'', s)
      else if \<not> opened then (HttpError 500 ''failed to open rules store'', s)
      else
        (case body of
           None \<Rightarrow> (HttpError 400 ''invalid request'', s)
         | Some ids \<Rightarrow>
             if ids = [] then (HttpError 400 ''ids is required'', s)
             else (case Reorder ids i s of
                     (Inl _, s1) \<Rightarrow> (HttpError 500 ''failed to reorder rules'', s1)
                   | (Inr _, s1) \<Rightarrow> (OK, s1))))"

definition handleRuleSieve ::
  "'re regexp_lib \<Rightarrow> bool \<Rightarrow> http_method \<Rightarrow> string \<Rightarrow> string option \<Rightarrow> io \<Rightarrow> io \<Rightarrow> rule_store \<Rightarrow> rules_response \<times> rule_store" where
  "handleRuleSieve lib opened meth pathid body i1 i2 s =
     (if \<not> opened then (HttpError 500 ''failed to open rules store'', s)
      else
        (case Get_rule (trim_space pathid) i1 s of
           (Inl _, s1) \<Rightarrow> (HttpError 500 ''failed to read rules'', s1)
         | (Inr None, s1) \<Rightarrow> (HttpError 404 ''rule not found'', s1)
         | (Inr (Some existing), s1) \<Rightarrow>
             if meth = MethodGet then
               (case CompileRule existing of
                  Inl _ \<Rightarrow> (HttpError 500 ''failed to compile rule'', s1)
                | Inr script \<Rightarrow> (Script script, s1))
             else if meth = MethodPut then
               (case body of
                  None \<Rightarrow> (HttpError 400 ''invalid request'', s1)
                | Some script \<Rightarrow>
                    (case ParseRuleText script existing of
                       Inl e \<Rightarrow> (ParseError e, s1)
                     | Inr parsed \<Rightarrow>
                         (case ValidateRule lib parsed of
                            Some e \<Rightarrow> (RuleError e, s1)
                          | None \<Rightarrow>
                              (case Upsert parsed i2 s1 of
                                 (Inl _, s2) \<Rightarrow> (HttpError 500 ''failed to save rule'', s2)
                               | (Inr updated, s2) \<Rightarrow> (OneRule (ruleToPayload updated), s2)))))
             else (HttpError 405 ''method not allowed'', s1)))"


section \<open>What the endpoints store\<close>

text \<open>Validity depends on a rule's name, match tree and actions only.\<close>

definition valid_content :: "'re regexp_lib \<Rightarrow> string \<times> match_group \<times> action list \<Rightarrow> bool" where
  "valid_content lib c =
     (case c of (name, m, as) \<Rightarrow> ValidateRule lib (blank_rule\<lparr>rule_Name := name, rule_Match := m, rule_Actions := as\<rparr>) = None)"

lemma valid_content [simp]: "valid_content lib (content r) \<longleftrightarrow> ValidateRule lib r = None"
  by (simp add: valid_content_def content_def ValidateRule_iff)

definition good_file :: "'re regexp_lib \<Rightarrow> rules_file \<Rightarrow> bool" where
  "good_file lib f \<longleftrightarrow> rules_ok (valid_content lib) f \<and> length (rf_Rules f) \<le> maxRulesPerUser"

text \<open>The identifier a request may draw is new to the store.\<close>

definition fresh_uuid :: "io \<Rightarrow> rule_store \<Rightarrow> bool" where
  "fresh_uuid i s \<longleftrightarrow> (\<forall>ident. io_uuid i = Some ident \<longrightarrow> ident \<noteq> [] \<and> ident \<notin> set (map rule_ID (rf_Rules (current s))))"

lemma length_replace_rule: "replace_rule r xs = Some (r', ys) \<Longrightarrow> length ys = length xs"
  by (erule replace_rule_Some) simp

lemma upsert_length:
  assumes "rule_ID r = [] \<Longrightarrow> length (rf_Rules f) < maxRulesPerUser"
    and "rule_ID r \<noteq> [] \<Longrightarrow> rule_ID r \<in> set (map rule_ID (rf_Rules f))" and "length (rf_Rules f) \<le> maxRulesPerUser"
  shows "length (rf_Rules (fst (snd (upsert_body r i f)))) \<le> maxRulesPerUser"
proof (cases "rule_ID r = []")
  case True
  with assms show ?thesis by (simp add: upsert_body_def Let_def split: option.split)
next
  case False
  let ?r = "r\<lparr>rule_Rev := rf_Seq f + 1, rule_UpdatedAt := io_now i\<rparr>"
  from False assms(2) obtain r' rs where "replace_rule ?r (rf_Rules f) = Some (r', rs)"
    using replace_rule_None [of ?r "rf_Rules f"] by (cases "replace_rule ?r (rf_Rules f)") auto
  with False assms(3) length_replace_rule show ?thesis by (simp add: upsert_body_def Let_def)
qed

lemma file_inv_refreshed: "file_inv P s \<Longrightarrow> file_inv P (s\<lparr>fs_mem := current s\<rparr>)"
  using file_inv_current [of P s] by (simp add: file_inv_def)

lemma fresh_refreshed [simp]: "fresh_uuid i (s\<lparr>fs_mem := current s\<rparr>) = fresh_uuid i s"
  by (simp add: fresh_uuid_def)

lemma Upsert_good:
  assumes inv: "file_inv (good_file lib) s" and "ValidateRule lib r = None" and "fresh_uuid i s"
    and "rule_ID r = [] \<Longrightarrow> length (rf_Rules (current s)) < maxRulesPerUser"
    and "rule_ID r \<noteq> [] \<Longrightarrow> rule_ID r \<in> set (map rule_ID (rf_Rules (current s)))"
  shows "file_inv (good_file lib) (snd (Upsert r i s))"
proof -
  have g: "rules_ok (valid_content lib) (current s)" "length (rf_Rules (current s)) \<le> maxRulesPerUser"
    using file_inv_current [OF inv] by (simp_all add: good_file_def)
  have "write_ok (valid_content lib) i (UpsertOp r) (current s)"
    using assms(2,3) by (simp add: write_ok_def fresh_uuid_def)
  from upsert_body_ok(1) [OF g(1) this] upsert_length [OF assms(4,5) g(2), of i]
  have "good_file lib (fst (snd (upsert_body r i (current s))))" by (simp add: good_file_def)
  with inv mutate_states [of i "upsert_body r i" s] show ?thesis by (auto simp: file_inv_def Upsert_def)
qed

lemma delete_length: "length (rf_Rules (fst (snd (delete_body ident f)))) \<le> length (rf_Rules f)"
proof -
  have "delete_first ident xs = Some ys \<Longrightarrow> length ys \<le> length xs" for xs ys
    by (induction xs arbitrary: ys) (fastforce split: if_splits)+
  then show ?thesis by (auto simp: delete_body_def split: option.split)
qed

lemma Delete_good: "file_inv (good_file lib) s \<Longrightarrow> file_inv (good_file lib) (snd (Delete_rule ident i s))"
proof -
  assume inv: "file_inv (good_file lib) s"
  have "good_file lib (fst (snd (delete_body ident (current s))))"
    using file_inv_current [OF inv] delete_body_ok [of "valid_content lib" "current s"] delete_length [of ident "current s"]
    by (auto simp: good_file_def)
  with inv mutate_states [of i "delete_body ident" s] show ?thesis by (auto simp: file_inv_def Delete_rule_def)
qed

lemma Reorder_good: "file_inv (good_file lib) s \<Longrightarrow> file_inv (good_file lib) (snd (Reorder ids i s))"
proof -
  assume inv: "file_inv (good_file lib) s"
  have "length (rf_Rules (fst (snd (reorder_body ids i f)))) = length (rf_Rules f)" for f
    using arg_cong [OF reorder_rules_keeps(1) [of "position ids" "io_now i" "rf_Seq f" "rf_Rules f"], of length]
    by (simp add: reorder_body_def case_prod_unfold)
  then have "good_file lib (fst (snd (reorder_body ids i (current s))))"
    using file_inv_current [OF inv] reorder_body_ok [of "valid_content lib" "current s"] by (simp add: good_file_def)
  with inv mutate_states [of i "reorder_body ids i" s] show ?thesis by (auto simp: file_inv_def Reorder_def)
qed

lemma List_rules_eq:
  "List_rules srt i s = (if io_read i then (Inr (srt (rf_Rules (current s))), s\<lparr>fs_mem := current s\<rparr>) else (Inl ReadError, s))"
  by (simp add: List_rules_def refreshFromDisk_current)

lemma Get_rule_eq:
  "Get_rule ident i s =
     (if io_read i then (Inr (find (\<lambda>r. rule_ID r = ident) (rf_Rules (current s))), s\<lparr>fs_mem := current s\<rparr>) else (Inl ReadError, s))"
  by (simp add: Get_rule_def refreshFromDisk_current)

lemma found_rule:
  "find (\<lambda>r. rule_ID r = ident) rs = Some r \<Longrightarrow> r \<in> set rs \<and> rule_ID r = ident \<and> ident \<in> rule_ID ` set rs"
  by (auto simp: find_Some_iff)

lemma result_state [simp]:
  "snd (case p of (Inl e, s2) \<Rightarrow> (x e, s2) | (Inr v, s2) \<Rightarrow> (y v, s2)) = snd p"
  by (simp split: prod.split sum.split)

lemma handleRules_good:
  assumes inv: "file_inv (good_file lib) s" and "sorts_by_order srt" and "fresh_uuid i2 s"
  shows "file_inv (good_file lib) (snd (handleRules lib srt opened meth body i1 i2 s))"
proof -
  have len: "length (srt xs) = length xs" for xs using assms(2) by (metis size_mset sorts_by_order_def)
  have up: "file_inv (good_file lib) (snd (Upsert (ruleFromPayload (p\<lparr>pl_ID := [], pl_Name := n\<rparr>)) i2 (s\<lparr>fs_mem := current s\<rparr>)))"
    if "ValidateRule lib (ruleFromPayload (p\<lparr>pl_ID := [], pl_Name := n\<rparr>)) = None"
      "\<not> maxRulesPerUser \<le> length (rf_Rules (current s))" for p n
    by (rule Upsert_good [OF file_inv_refreshed [OF inv] that(1)]) (use that(2) assms(3) in \<open>simp_all add: ruleFromPayload_def\<close>)
  show ?thesis
    using inv file_inv_refreshed [OF inv] up
    by (simp add: handleRules_def List_rules_eq Let_def len split: option.split)
qed

lemma handleRuleByID_good:
  assumes inv: "file_inv (good_file lib) s" and "fresh_uuid i2 s"
  shows "file_inv (good_file lib) (snd (handleRuleByID lib opened meth ident body i1 i2 s))"
proof -
  have up: "file_inv (good_file lib) (snd (Upsert r i2 (s\<lparr>fs_mem := current s\<rparr>)))"
    if "ValidateRule lib r = None" "find (\<lambda>r. rule_ID r = trim_space ident) (rf_Rules (current s)) = Some x"
      "trim_space ident \<noteq> []" "rule_ID r = rule_ID x" for r x
    using found_rule [OF that(2)] that
    by (intro Upsert_good [OF file_inv_refreshed [OF inv] that(1)]) (auto simp: assms(2))
  have del: "file_inv (good_file lib) (snd (Delete_rule (trim_space ident) i1 s))" by (rule Delete_good [OF inv])
  show ?thesis
    using inv file_inv_refreshed [OF inv] del up
    by (auto simp: handleRuleByID_def Get_rule_eq Let_def ruleFromPayload_def split: option.split)
qed

lemma handleRulesReorder_good:
  "file_inv (good_file lib) s \<Longrightarrow> file_inv (good_file lib) (snd (handleRulesReorder opened meth body i s))"
  using Reorder_good [of lib s] by (simp add: handleRulesReorder_def split: option.split)

text \<open>A parsed script keeps the identifier of the rule it was parsed over.\<close>

lemma ParseRuleText_ID: "ParseRuleText script r = Inr r' \<Longrightarrow> rule_ID r' = rule_ID r"
  by (auto simp: ParseRuleText_def Let_def split: sum.splits prod.splits if_splits option.splits)

lemma handleRuleSieve_good:
  assumes inv: "file_inv (good_file lib) s" and "fresh_uuid i2 s"
  shows "file_inv (good_file lib) (snd (handleRuleSieve lib opened meth ident body i1 i2 s))"
proof -
  have up: "file_inv (good_file lib) (snd (Upsert r i2 (s\<lparr>fs_mem := current s\<rparr>)))"
    if "find (\<lambda>r. rule_ID r = trim_space ident) (rf_Rules (current s)) = Some x" "ParseRuleText script x = Inr r"
       "ValidateRule lib r = None" for r x script
  proof -
    have "rule_ID r \<noteq> [] \<and> rule_ID r \<in> set (map rule_ID (rf_Rules (current s)))"
      using found_rule [OF that(1)] ParseRuleText_ID [OF that(2)] file_inv_current [OF inv]
      by (auto simp: good_file_def rules_ok_def)
    then show ?thesis
      by (intro Upsert_good [OF file_inv_refreshed [OF inv] that(3)]) (simp_all add: assms(2))
  qed
  show ?thesis
    using inv file_inv_refreshed [OF inv] up
    by (auto simp: handleRuleSieve_def Get_rule_eq split: option.split sum.split)
qed

section \<open>Every history of requests\<close>

text \<open>One request to the rule endpoints.\<close>

datatype rules_request =
  RulesReq bool http_method "rule_payload option" io io
| RuleByIDReq bool http_method string "rule_payload option" io io
| ReorderReq bool http_method "string list option" io
| SieveReq bool http_method string "string option" io io

definition serve_rules ::
  "'re regexp_lib \<Rightarrow> (rule list \<Rightarrow> rule list) \<Rightarrow> rules_request \<Rightarrow> rule_store \<Rightarrow> rules_response \<times> rule_store" where
  "serve_rules lib srt req s =
     (case req of
        RulesReq opened meth body i1 i2 \<Rightarrow> handleRules lib srt opened meth body i1 i2 s
      | RuleByIDReq opened meth ident body i1 i2 \<Rightarrow> handleRuleByID lib opened meth ident body i1 i2 s
      | ReorderReq opened meth body i \<Rightarrow> handleRulesReorder opened meth body i s
      | SieveReq opened meth ident body i1 i2 \<Rightarrow> handleRuleSieve lib opened meth ident body i1 i2 s)"

text \<open>The call that may draw an identifier.\<close>

definition drawing_io :: "rules_request \<Rightarrow> io" where
  "drawing_io req =
     (case req of
        RulesReq _ _ _ _ i \<Rightarrow> i | RuleByIDReq _ _ _ _ _ i \<Rightarrow> i | ReorderReq _ _ _ i \<Rightarrow> i | SieveReq _ _ _ _ _ i \<Rightarrow> i)"

text \<open>
  The stores a user's requests can lead to, served one after the other from a store that has never been
  written. The file system may fail any of them; the process may restart, which leaves only the file.
\<close>

definition new_rules :: rules_file where "new_rules = \<lparr>rf_Rules = [], rf_Seq = 0\<rparr>"

inductive rules_reachable :: "'re regexp_lib \<Rightarrow> (rule list \<Rightarrow> rule list) \<Rightarrow> rule_store \<Rightarrow> bool" for lib srt where
  rules_start: "rules_reachable lib srt \<lparr>fs_mem = new_rules, fs_disk = None\<rparr>"
| rules_serve: "rules_reachable lib srt s \<Longrightarrow> fresh_uuid (drawing_io req) s \<Longrightarrow>
    rules_reachable lib srt (snd (serve_rules lib srt req s))"
| rules_restart: "rules_reachable lib srt s \<Longrightarrow>
    rules_reachable lib srt \<lparr>fs_mem = (case fs_disk s of None \<Rightarrow> new_rules | Some f \<Rightarrow> f), fs_disk = fs_disk s\<rparr>"

lemma serve_rules_good:
  assumes "file_inv (good_file lib) s" and "sorts_by_order srt" and "fresh_uuid (drawing_io req) s"
  shows "file_inv (good_file lib) (snd (serve_rules lib srt req s))"
  using assms handleRules_good handleRuleByID_good handleRulesReorder_good handleRuleSieve_good
  by (cases req) (simp_all add: serve_rules_def drawing_io_def)

lemma new_rules_good: "good_file lib new_rules"
  by (simp add: good_file_def rules_ok_def new_rules_def)

lemma reachable_good: "rules_reachable lib srt s \<Longrightarrow> sorts_by_order srt \<Longrightarrow> file_inv (good_file lib) s"
proof (induction rule: rules_reachable.induct)
  case rules_start
  show ?case by (simp add: file_inv_def new_rules_good)
next
  case (rules_serve s req)
  then show ?case by (intro serve_rules_good)
next
  case (rules_restart s)
  then show ?case by (simp add: file_inv_def new_rules_good split: option.split)
qed

section \<open>Properties\<close>


definition demo_post :: rules_request where
  "demo_post = RulesReq True MethodPost (Some (ruleToPayload demo_rule)) (good_io []) (good_io ''u1'')"


end
