(* ===== verification/Rule_Run.thy ===== *)
theory Rule_Run
  imports Rule_Handlers Rule_Validate
begin

text \<open>
  The manual run of the rules over a folder, \<open>handleRulesRun\<close> of
  \<open>backend/internal/api/rules_handlers.go\<close>, with \<open>HeaderMap\<close> of
  \<open>backend/internal/adapters/imap/auth_results.go\<close>.

  The mail client's reading operations are parameters, steps on the mail server's state that may fail.
  A message's turn sees three contexts: whether the caller is gone when the turn begins, and the polls
  after which the contexts of \<open>Evaluate\<close> and \<open>ApplyOutcome\<close> end.
\<close>

section \<open>Messages\<close>

record overview =
  ov_UID :: int
  ov_MessageID :: string
  ov_Sender :: string
  ov_SentTo :: string
  ov_CC :: string
  ov_BCC :: string
  ov_Subject :: string
  ov_Keywords :: "string list"

record 's mail_reader =
  ListOverviews :: "string \<Rightarrow> int \<Rightarrow> 's \<Rightarrow> (string, overview list) result \<times> 's"
  GetMessageBodies :: "string \<Rightarrow> int list \<Rightarrow> 's \<Rightarrow> (string, int \<rightharpoonup> string) result \<times> 's"
  FetchHeaderFields :: "string \<Rightarrow> int list \<Rightarrow> string list \<Rightarrow> 's \<Rightarrow> (string, int \<rightharpoonup> string list) result \<times> 's"

definition HeaderMap :: "string list \<Rightarrow> string \<rightharpoonup> string list" where
  "HeaderMap lines =
     fold (\<lambda>line h.
        let name = trim_space (takeWhile (\<lambda>c. c \<noteq> CHR '':'') line);
            rest = dropWhile (\<lambda>c. c \<noteq> CHR '':'') line in
        if rest \<noteq> [] \<and> name \<noteq> [] then
          (let key = canonical_header_key name in
           h(key \<mapsto> (case h key of None \<Rightarrow> [] | Some vs \<Rightarrow> vs) @ [trim_space (tl rest)]))
        else h) lines Map.empty"

section \<open>The run\<close>

record run_result =
  rr_Scanned :: nat
  rr_Matched :: nat
  rr_Applied :: nat
  rr_Failed :: nat

datatype run_response = RunError nat string | RunDone run_result

datatype mail_source = MailConflict | MailUnconfigured | MailUnavailable | MailReady

record turn =
  caller_gone :: bool
  eval_polls :: "nat option"
  apply_polls :: "nat option"

definition run_input :: "string \<Rightarrow> (int \<rightharpoonup> string) option \<Rightarrow> (int \<rightharpoonup> string list) option \<Rightarrow> overview \<Rightarrow> eval_input" where
  "run_input mailbox bodies headerLines ov =
     \<lparr>in_UID = ov_UID ov, in_MessageID = ov_MessageID ov, in_From = ov_Sender ov, in_To = ov_SentTo ov,
      in_CC = ov_CC ov, in_BCC = ov_BCC ov, in_Subject = ov_Subject ov,
      in_Body = (case bodies of None \<Rightarrow> [] | Some m \<Rightarrow> (case m (ov_UID ov) of None \<Rightarrow> [] | Some b \<Rightarrow> b)),
      in_Keywords = ov_Keywords ov, in_Folder = mailbox,
      in_Headers = (case headerLines of None \<Rightarrow> None | Some m \<Rightarrow> map_option HeaderMap (m (ov_UID ov)))\<rparr>"

fun run_loop ::
  "'re regexp_lib \<Rightarrow> 's imap_client \<Rightarrow> string \<Rightarrow> rule list \<Rightarrow> (overview \<Rightarrow> eval_input) \<Rightarrow> (nat \<Rightarrow> turn) \<Rightarrow> nat
     \<Rightarrow> overview list \<Rightarrow> run_result \<Rightarrow> 're cache \<Rightarrow> 's \<Rightarrow> run_result \<times> 're cache \<times> 's" where
  "run_loop lib c mailbox active input turns k [] result ca s = (result, ca, s)"
| "run_loop lib c mailbox active input turns k (ov # ovs) result ca s =
     (let t = turns k in
      if caller_gone t then (result\<lparr>rr_Scanned := rr_Applied result + rr_Failed result\<rparr>, ca, s)
      else
        (let (outcome, st) = Evaluate lib (input ov) active \<lparr>ctx_polls = eval_polls t, compiled = ca\<rparr> in
         if length (out_Matched outcome) = 0 then run_loop lib c mailbox active input turns (Suc k) ovs result (compiled st) s
         else
           (let result1 = result\<lparr>rr_Matched := rr_Matched result + 1\<rparr>;
                (actionResults, p, s') = ApplyOutcome c mailbox (input ov) outcome (apply_polls t) s;
                result2 = (if list_ex (\<lambda>ar. ar_Err ar \<noteq> None) actionResults then result1\<lparr>rr_Failed := rr_Failed result1 + 1\<rparr>
                           else result1\<lparr>rr_Applied := rr_Applied result1 + 1\<rparr>) in
            run_loop lib c mailbox active input turns (Suc k) ovs result2 (compiled st) s')))"

definition run_mailbox :: "string \<Rightarrow> string" where
  "run_mailbox m = (if trim_space m = [] then ''INBOX'' else trim_space m)"

definition run_limit :: "int \<Rightarrow> int" where
  "run_limit l = (if l \<le> 0 \<or> l > 500 then 200 else l)"

text \<open>Bodies and headers are fetched only when a rule asks for them and there is a message.\<close>

definition fetch_bodies ::
  "'s mail_reader \<Rightarrow> string \<Rightarrow> rule list \<Rightarrow> overview list \<Rightarrow> 's \<Rightarrow> (string, (int \<rightharpoonup> string) option) result \<times> 's" where
  "fetch_bodies rd mailbox active ovs s =
     (if list_ex (\<lambda>r. conditionsUseBody (rule_Match r)) active \<and> ovs \<noteq> [] then
        (case GetMessageBodies rd mailbox (map ov_UID ovs) s of
           (Inl e, s') \<Rightarrow> (Inl e, s')
         | (Inr m, s') \<Rightarrow> (Inr (Some m), s'))
      else (Inr None, s))"

definition fetch_headers ::
  "'s mail_reader \<Rightarrow> string \<Rightarrow> rule list \<Rightarrow> overview list \<Rightarrow> 's \<Rightarrow> (string, (int \<rightharpoonup> string list) option) result \<times> 's" where
  "fetch_headers rd mailbox active ovs s =
     (if HeaderNames active \<noteq> [] \<and> ovs \<noteq> [] then
        (case FetchHeaderFields rd mailbox (map ov_UID ovs) (HeaderNames active) s of
           (Inl e, s') \<Rightarrow> (Inl e, s')
         | (Inr m, s') \<Rightarrow> (Inr (Some m), s'))
      else (Inr None, s))"

definition active_rules :: "'re regexp_lib \<Rightarrow> rule list \<Rightarrow> rule list" where
  "active_rules lib rs = filter rule_Enabled (fst (FilterRunnable lib rs))"

definition run_messages ::
  "'re regexp_lib \<Rightarrow> 's imap_client \<Rightarrow> 's mail_reader \<Rightarrow> string \<Rightarrow> int \<Rightarrow> rule list \<Rightarrow> (nat \<Rightarrow> turn) \<Rightarrow> 're cache \<Rightarrow> 's
     \<Rightarrow> run_response \<times> 're cache \<times> 's" where
  "run_messages lib c rd mailbox limit active turns ca m0 =
     (case ListOverviews rd mailbox limit m0 of
        (Inl _, m1) \<Rightarrow> (RunError 502 ''failed to list messages'', ca, m1)
      | (Inr ovs, m1) \<Rightarrow>
          (case fetch_bodies rd mailbox active ovs m1 of
             (Inl _, m2) \<Rightarrow> (RunError 502 ''failed to fetch message bodies'', ca, m2)
           | (Inr bodies, m2) \<Rightarrow>
               (case fetch_headers rd mailbox active ovs m2 of
                  (Inl _, m3) \<Rightarrow> (RunError 502 ''failed to fetch message headers'', ca, m3)
                | (Inr headerLines, m3) \<Rightarrow>
                    (case run_loop lib c mailbox active (run_input mailbox bodies headerLines) turns 0 ovs
                            \<lparr>rr_Scanned = length ovs, rr_Matched = 0, rr_Applied = 0, rr_Failed = 0\<rparr> ca m3 of
                       (result, ca', m4) \<Rightarrow> (RunDone result, ca', m4)))))"

text \<open>The body of a request is its mailbox and limit, both zero when it is empty, \<open>None\<close> when it does not decode.\<close>

definition handleRulesRun ::
  "'re regexp_lib \<Rightarrow> (rule list \<Rightarrow> rule list) \<Rightarrow> 's imap_client \<Rightarrow> 's mail_reader \<Rightarrow> mail_source \<Rightarrow> bool \<Rightarrow> http_method
     \<Rightarrow> (string \<times> int) option \<Rightarrow> (nat \<Rightarrow> turn) \<Rightarrow> io \<Rightarrow> rule_store \<Rightarrow> 're cache \<Rightarrow> 's
     \<Rightarrow> run_response \<times> rule_store \<times> 're cache \<times> 's" where
  "handleRulesRun lib srt c rd src opened meth body turns i s ca m =
     (if meth \<noteq> MethodPost then (RunError 405 ''method not allowed'', s, ca, m)
      else if src = MailConflict then (RunError 409 ''mail source conflict'', s, ca, m)
      else if src = MailUnconfigured then (RunError 400 ''imap configuration is required'', s, ca, m)
      else if src = MailUnavailable then (RunError 503 ''imap client is not configured'', s, ca, m)
      else if \<not> opened then (RunError 500 ''failed to open rules store'', s, ca, m)
      else
        (case body of
           None \<Rightarrow> (RunError 400 ''invalid request'', s, ca, m)
         | Some (mailbox, limit) \<Rightarrow>
             (case List_rules srt i s of
                (Inl _, s1) \<Rightarrow> (RunError 500 ''failed to read rules'', s1, ca, m)
              | (Inr all, s1) \<Rightarrow>
                  (case run_messages lib c rd (run_mailbox mailbox) (run_limit limit) (active_rules lib all) turns ca m of
                     (resp, ca', m') \<Rightarrow> (resp, s1, ca', m')))))"

section \<open>What a run does\<close>

text \<open>
  The reference: every message is judged whole, with its real body and all its headers, by the
  reference semantics of the rules, and what matches is applied without interruption. The result is the
  number of messages applied, the number failed, and the mail server's state.
\<close>

fun run_spec ::
  "'re regexp_lib \<Rightarrow> 's imap_client \<Rightarrow> string \<Rightarrow> rule list \<Rightarrow> (overview \<Rightarrow> eval_input) \<Rightarrow> overview list \<Rightarrow> 's \<Rightarrow> nat \<times> nat \<times> 's" where
  "run_spec lib c mailbox active full [] s = (0, 0, s)"
| "run_spec lib c mailbox active full (ov # ovs) s =
     (let outcome = evaluate_spec lib (full ov) active in
      if out_Matched outcome = [] then run_spec lib c mailbox active full ovs s
      else
        (let (results, p, s') = ApplyOutcome c mailbox (full ov) outcome None s;
             (a, f, s'') = run_spec lib c mailbox active full ovs s' in
         if \<exists>r \<in> set results. ar_Err r \<noteq> None then (a, f + 1, s'') else (a + 1, f, s'')))"

definition full_input :: "string \<Rightarrow> (overview \<Rightarrow> string) \<Rightarrow> (overview \<Rightarrow> string \<rightharpoonup> string list) \<Rightarrow> overview \<Rightarrow> eval_input" where
  "full_input mailbox body headers ov =
     (run_input mailbox None None ov)\<lparr>in_Body := body ov, in_Headers := Some (headers ov)\<rparr>"

text \<open>
  What was fetched is the truth about each listed message: its body where bodies were fetched, and the
  requested headers where headers were.
\<close>

definition fetched_truly ::
  "rule list \<Rightarrow> (overview \<Rightarrow> string) \<Rightarrow> (overview \<Rightarrow> string \<rightharpoonup> string list) \<Rightarrow> overview list
     \<Rightarrow> (int \<rightharpoonup> string) option \<Rightarrow> (int \<rightharpoonup> string list) option \<Rightarrow> bool" where
  "fetched_truly active body headers ovs bodies headerLines \<longleftrightarrow>
     (\<forall>ov \<in> set ovs.
        (\<forall>m. bodies = Some m \<longrightarrow> m (ov_UID ov) = Some (body ov)) \<and>
        (\<forall>m. headerLines = Some m \<longrightarrow>
           (\<exists>lines. m (ov_UID ov) = Some lines \<and> (\<forall>n \<in> set (HeaderNames active). HeaderMap lines n = headers ov n))))"

lemma group_truth_no_headers:
  "group_headers g = [] \<Longrightarrow> group_truth lib (inp\<lparr>in_Headers := h\<rparr>) g = group_truth lib inp g"
  "cond_headers c = [] \<Longrightarrow> cond_truth lib (inp\<lparr>in_Headers := h\<rparr>) c = cond_truth lib inp c"
proof (induction g and c rule: group_headers_cond_headers.induct)
  case (1 op cs)
  then have "map (cond_truth lib (inp\<lparr>in_Headers := h\<rparr>)) cs = map (cond_truth lib inp) cs"
    by (intro map_cong refl) auto
  then show ?case by (simp only: group_truth.simps)
next
  case (3 n f hd c v)
  have "to_lower ''header'' = ''header''" by code_simp
  with "3.prems" have "to_lower (trim_space f) \<noteq> ''header''" by (auto simp: equal_fold_def split: if_splits)
  then have "leaf_truth lib (inp\<lparr>in_Headers := h\<rparr>) (leaf n f hd c v) = leaf_truth lib inp (leaf n f hd c v)"
    by (simp add: leaf_truth_def Let_def)
  then show ?case unfolding cond_truth.simps by (rule arg_cong)
qed simp

lemma fires_no_headers:
  assumes "HeaderNames rs = []" and "r \<in> set rs"
  shows "fires lib (inp\<lparr>in_Headers := h\<rparr>) r = fires lib inp r"
proof (cases "rule_Enabled r")
  case True
  then have "set (group_headers (rule_Match r)) \<subseteq> set (HeaderNames rs)" using assms(2) by (auto simp: set_HeaderNames)
  then have "group_headers (rule_Match r) = []" by (simp add: assms(1))
  from group_truth_no_headers(1) [OF this, of lib h inp] show ?thesis by (simp add: fires_def)
qed (simp add: fires_def)

lemma fires_body:
  assumes "\<not> conditionsUseBody (rule_Match r)" and "fields_trimmed (rule_Match r)"
  shows "fires lib (inp\<lparr>in_Body := b\<rparr>) r = fires lib inp r"
  using group_truth_body(1) [OF assms, of lib b inp] by (simp add: fires_def)

text \<open>The partial view of a message that a run builds is as good as the whole message.\<close>

lemma run_input_full:
  assumes b: "fetch_bodies rd mailbox active ovs m1 = (Inr bodies, m2)"
    and h: "fetch_headers rd mailbox active ovs m2 = (Inr headerLines, m3)"
    and truth: "fetched_truly active body headers ovs bodies headerLines"
    and trimmed: "\<forall>r \<in> set active. fields_trimmed (rule_Match r)" and ov: "ov \<in> set ovs"
  shows "evaluate_spec lib (run_input mailbox bodies headerLines ov) active =
         evaluate_spec lib (full_input mailbox body headers ov) active"
proof (rule evaluate_spec_cong)
  fix r assume r: "r \<in> set active"
  let ?i = "run_input mailbox None None ov"
  let ?hs = "case headerLines of None \<Rightarrow> None | Some m \<Rightarrow> map_option HeaderMap (m (ov_UID ov))"
  let ?b = "case bodies of None \<Rightarrow> [] | Some m \<Rightarrow> (case m (ov_UID ov) of None \<Rightarrow> [] | Some b \<Rightarrow> b)"
  have "run_input mailbox bodies headerLines ov = ?i\<lparr>in_Headers := ?hs, in_Body := ?b\<rparr>" by (simp add: run_input_def)
  moreover have "fires lib (?i\<lparr>in_Headers := ?hs, in_Body := ?b\<rparr>) r = fires lib (?i\<lparr>in_Headers := ?hs, in_Body := body ov\<rparr>) r"
  proof (cases bodies)
    case None
    with b ov have "\<not> conditionsUseBody (rule_Match r)"
      using r by (auto simp: fetch_bodies_def list_ex_iff split: if_splits prod.splits sum.splits)
    with trimmed r show ?thesis using fires_body [of r lib] by simp
  next
    case (Some m)
    with truth ov show ?thesis by (simp add: fetched_truly_def)
  qed
  moreover have "fires lib (?i\<lparr>in_Body := body ov, in_Headers := ?hs\<rparr>) r =
      fires lib (?i\<lparr>in_Body := body ov, in_Headers := Some (headers ov)\<rparr>) r"
  proof (cases headerLines)
    case None
    with h ov have "HeaderNames active = []"
      by (auto simp: fetch_headers_def split: if_splits prod.splits sum.splits)
    from fires_no_headers [OF this r] show ?thesis by metis
  next
    case (Some m)
    with truth ov obtain lines where "m (ov_UID ov) = Some lines" "\<forall>n \<in> set (HeaderNames active). HeaderMap lines n = headers ov n"
      by (auto simp: fetched_truly_def)
    with Some fires_headers [OF this(2) r] show ?thesis by simp
  qed
  moreover have "?i\<lparr>in_Headers := ?hs, in_Body := body ov\<rparr> = ?i\<lparr>in_Body := body ov, in_Headers := ?hs\<rparr>" by simp
  ultimately show "fires lib (run_input mailbox bodies headerLines ov) r = fires lib (full_input mailbox body headers ov) r"
    unfolding full_input_def by metis
qed

lemma run_input_MessageID:
  "in_MessageID (run_input mailbox bodies headerLines ov) = in_MessageID (full_input mailbox body headers ov)"
  by (simp add: full_input_def run_input_def)

abbreviation patient :: "nat \<Rightarrow> turn" where
  "patient \<equiv> \<lambda>_. \<lparr>caller_gone = False, eval_polls = None, apply_polls = None\<rparr>"

lemma run_loop_spec:
  assumes "cache_ok lib ca"
    and "\<forall>ov \<in> set ovs. evaluate_spec lib (input ov) active = evaluate_spec lib (full ov) active \<and>
           in_MessageID (input ov) = in_MessageID (full ov)"
    and "run_spec lib c mailbox active full ovs s = (a, f, s')"
  shows "\<exists>ca'. cache_ok lib ca' \<and> run_loop lib c mailbox active input patient k ovs result ca s =
      (result\<lparr>rr_Matched := rr_Matched result + a + f, rr_Applied := rr_Applied result + a,
              rr_Failed := rr_Failed result + f\<rparr>, ca', s')"
  using assms
proof (induction ovs arbitrary: k result ca s a f s')
  case (Cons ov ovs)
  let ?st = "\<lparr>ctx_polls = None, compiled = ca\<rparr>"
  obtain out st where e: "Evaluate lib (input ov) active ?st = (out, st)" by (cases "Evaluate lib (input ov) active ?st")
  with Evaluate_spec [of lib ?st "input ov" active] Cons.prems(1,2)
  have out: "out = evaluate_spec lib (full ov) active" and ca: "cache_ok lib (compiled st)" by simp_all
  have apply_eq: "ApplyOutcome c mailbox (input ov) out None s = ApplyOutcome c mailbox (full ov) out None s"
    using Cons.prems(2) by (simp add: ApplyOutcome_def)
  have prem: "\<forall>ov \<in> set ovs. evaluate_spec lib (input ov) active = evaluate_spec lib (full ov) active \<and>
      in_MessageID (input ov) = in_MessageID (full ov)" using Cons.prems(2) by simp
  show ?case
  proof (cases "out_Matched out = []")
    case True
    with Cons.prems(3) out have "run_spec lib c mailbox active full ovs s = (a, f, s')" by (simp add: Let_def)
    from Cons.IH [OF ca prem this, of "Suc k" result] True e show ?thesis by (simp add: Let_def)
  next
    case False
    obtain rs p s1 where ap: "ApplyOutcome c mailbox (full ov) out None s = (rs, p, s1)"
      by (cases "ApplyOutcome c mailbox (full ov) out None s")
    obtain a1 f1 s2 where sp: "run_spec lib c mailbox active full ovs s1 = (a1, f1, s2)"
      by (cases "run_spec lib c mailbox active full ovs s1")
    let ?failed = "\<exists>r \<in> set rs. ar_Err r \<noteq> None"
    have eqs: "s' = s2" "a = (if ?failed then a1 else a1 + 1)" "f = (if ?failed then f1 + 1 else f1)"
      using Cons.prems(3) False out ap sp by (auto simp: Let_def split: if_splits)
    let ?r1 = "result\<lparr>rr_Matched := rr_Matched result + 1\<rparr>"
    let ?r2 = "if ?failed then ?r1\<lparr>rr_Failed := rr_Failed ?r1 + 1\<rparr> else ?r1\<lparr>rr_Applied := rr_Applied ?r1 + 1\<rparr>"
    have "run_loop lib c mailbox active input patient k (ov # ovs) result ca s =
        run_loop lib c mailbox active input patient (Suc k) ovs ?r2 (compiled st) s1"
      using False e ap apply_eq by (simp add: Let_def list_ex_iff)
    with Cons.IH [OF ca prem sp, of "Suc k" ?r2] eqs show ?thesis by (auto split: if_splits)
  qed
qed auto

section \<open>Properties\<close>


text \<open>A mail server that keeps a log of the labels it was asked for, with one message in it.\<close>

definition demo_client :: "string list imap_client" where
  "demo_client = \<lparr>ApplyLabel = (\<lambda>mid l s. (None, s @ [mid @ '' '' @ l])), RemoveLabel = (\<lambda>mid l s. (None, s)),
     ApplyInboxAction = (\<lambda>mid a mb d s. (Some ''denied'', s))\<rparr>"

definition demo_overview :: overview where
  "demo_overview = \<lparr>ov_UID = 7, ov_MessageID = ''m7'', ov_Sender = ''a@b.example'', ov_SentTo = [], ov_CC = [], ov_BCC = [],
     ov_Subject = ''Your Invoice'', ov_Keywords = []\<rparr>"

definition demo_reader :: "string list mail_reader" where
  "demo_reader = \<lparr>ListOverviews = (\<lambda>mb l s. (Inr [demo_overview], s)), GetMessageBodies = (\<lambda>mb us s. (Inr Map.empty, s)),
     FetchHeaderFields = (\<lambda>mb us ns s. (Inr Map.empty, s))\<rparr>"

definition one_rule_store :: rule_store where
  "one_rule_store = \<lparr>fs_mem = new_rules, fs_disk = Some \<lparr>rf_Rules = [demo_rule], rf_Seq = 1\<rparr>\<rparr>"


end
