(* ===== verification/Go_Table.thy ===== *)
theory Go_Table
  imports Go_Prelude "HOL-Library.AList"
begin

text \<open>
  Go maps that are counted, swept or ranged over: association lists with distinct keys, read by
  \<open>map_of\<close>, written by \<open>AList.update\<close> and \<open>AList.delete\<close>, so that \<open>length\<close> is Go's \<open>len\<close>. A loop
  that deletes entries while ranging over the map is a \<open>filter\<close>, whose result does not depend on the
  order of the range.

  Times are nanoseconds as unbounded integers (Go's \<open>time.Time\<close> read by \<open>Sub\<close>, \<open>Before\<close>, \<open>After\<close>), as are
  durations.
\<close>

type_synonym time = int
type_synonym duration = int

abbreviation second :: duration where "second \<equiv> 1000000000"
abbreviation millisecond :: duration where "millisecond \<equiv> 1000000"
abbreviation minute :: duration where "minute \<equiv> 60 * second"

type_synonym 'v table = "(string \<times> 'v) list"

definition keys :: "('k \<times> 'v) list \<Rightarrow> 'k list" where
  "keys es = map fst es"

definition drop_if :: "('v \<Rightarrow> bool) \<Rightarrow> ('k \<times> 'v) list \<Rightarrow> ('k \<times> 'v) list" where
  "drop_if P es = filter (\<lambda>(k, e). \<not> P e) es"

named_theorems table \<open>facts on tables\<close>

lemma keys_simps [simp]: "keys [] = []" "keys (e # es) = fst e # keys es" "length (keys es) = length es"
  by (simp_all add: keys_def)

lemma map_of_None: "map_of es k = None \<longleftrightarrow> k \<notin> set (keys es)"
  by (simp add: keys_def map_of_eq_None_iff)

lemma map_of_SomeE: "map_of es k = Some e \<Longrightarrow> k \<in> set (keys es)"
  by (metis map_of_None not_Some_eq)

lemma distinct_keys_update [table]: "distinct (keys es) \<Longrightarrow> distinct (keys (AList.update k v es))"
  by (simp add: keys_def distinct_update)

lemma distinct_keys_delete [table]: "distinct (keys es) \<Longrightarrow> distinct (keys (AList.delete k es))"
  by (simp add: keys_def distinct_delete)

lemma keys_drop_if: "set (keys (drop_if P es)) \<subseteq> set (keys es)"
  by (auto simp: keys_def drop_if_def)

lemma distinct_keys_drop_if [table]: "distinct (keys es) \<Longrightarrow> distinct (keys (drop_if P es))"
  by (induction es) (auto simp: drop_if_def keys_def)

lemma map_of_drop_if [table]:
  "distinct (keys es) \<Longrightarrow>
     map_of (drop_if P es) k = (case map_of es k of None \<Rightarrow> None | Some e \<Rightarrow> if P e then None else Some e)"
proof (induction es)
  case (Cons x es)
  then have "map_of (drop_if P es) (fst x) = None" using keys_drop_if [of P es] by (auto simp: map_of_None)
  with Cons show ?case by (cases x) (auto simp: drop_if_def split: option.splits)
qed (simp add: drop_if_def)

lemma map_of_update [table]: "map_of (AList.update k v es) k' = (if k' = k then Some v else map_of es k')"
  by (simp add: update_conv')

lemma map_of_delete_eq [table]: "map_of (AList.delete k es) k' = (if k' = k then None else map_of es k')"
  by (simp add: delete_conv')

lemma keys_update [table]: "set (keys (AList.update k v es)) = insert k (set (keys es))"
  by (simp add: keys_def dom_update)

lemma length_update_new [table]: "k \<notin> set (keys es) \<Longrightarrow> length (AList.update k v es) = Suc (length es)"
  by (induction es) auto

lemma length_update_old [table]: "k \<in> set (keys es) \<Longrightarrow> length (AList.update k v es) = length es"
  by (induction es) auto

lemma length_drop_if: "length (drop_if P es) \<le> length es"
  by (simp add: drop_if_def)

text \<open>A table holds no more entries than a set that covers its keys.\<close>

lemma length_le_card: "distinct (keys es) \<Longrightarrow> set (keys es) \<subseteq> K \<Longrightarrow> finite K \<Longrightarrow> length es \<le> card K"
  using card_mono [of K "set (keys es)"] distinct_card [of "keys es"] by simp

section \<open>State machines driven by a clock\<close>

text \<open>
  The contract of a lock-protected object whose methods read the clock: every step keeps the invariant
  at its own time, and the passing of time keeps it. A run is a sequence of steps, each with its time.
\<close>

lemma time_bounds:
  obtains t0 t1 :: time where "\<forall>(t, op) \<in> set ops. t0 \<le> t \<and> t \<le> t1" "t0 \<le> t1"
proof
  let ?T = "insert 0 (fst ` set ops)"
  show "\<forall>(t, op) \<in> set ops. Min ?T \<le> t \<and> t \<le> Max ?T" by (force intro: Min_le Max_ge)
  show "Min ?T \<le> Max ?T" by (rule Min.coboundedI [THEN order_trans, OF _ _ Max_ge]) auto
qed

locale timed_system =
  fixes inv :: "time \<Rightarrow> 's \<Rightarrow> bool" and step :: "time \<times> 'op \<Rightarrow> 's \<Rightarrow> 'r \<times> 's"
  assumes inv_later: "inv now s \<Longrightarrow> now \<le> t \<Longrightarrow> inv t s"
    and step_inv: "inv now s \<Longrightarrow> inv now (snd (step (now, op) s))"
begin

lemma run_inv:
  assumes "inv t0 s" and "sorted (map fst ops)" and "\<forall>(t, op) \<in> set ops. t0 \<le> t \<and> t \<le> t1" and "t0 \<le> t1"
  shows "inv t1 (snd (run_calls step ops s))"
  using assms
proof (induction ops arbitrary: s t0)
  case Nil
  then show ?case by (simp add: inv_later)
next
  case (Cons o1 ops)
  obtain t op where o1: "o1 = (t, op)" by (cases o1)
  have t: "t0 \<le> t" "t \<le> t1" using Cons.prems(3) o1 by auto
  have "inv t (snd (step (t, op) s))" using step_inv inv_later [OF Cons.prems(1) t(1)] by blast
  moreover have "\<forall>(t', op) \<in> set ops. t \<le> t' \<and> t' \<le> t1" using Cons.prems o1 by auto
  ultimately have "inv t1 (snd (run_calls step ops (snd (step (t, op) s))))"
    using Cons.IH Cons.prems t by (simp add: o1)
  then show ?case by (simp add: o1 run_calls_Cons del: run_calls.simps)
qed

end

section \<open>Histories\<close>

text \<open>
  A claim about what a state owes to the past: \<open>owed h s\<close> relates a state to the list of calls that led to
  it, each with its answer. When every call keeps it, it holds of every run.
\<close>

definition history :: "('op \<Rightarrow> 's \<Rightarrow> 'r \<times> 's) \<Rightarrow> 'op list \<Rightarrow> 's \<Rightarrow> ('op \<times> 'r) list" where
  "history step ops s = zip ops (fst (run_calls step ops s))"

lemma history_snoc:
  "history step (ops @ [op]) s = history step ops s @ [(op, fst (step op (snd (run_calls step ops s))))]"
  by (simp add: history_def run_calls_append run_calls_Cons del: run_calls.simps(2))

lemma run_calls_snoc: "snd (run_calls step (ops @ [op]) s) = snd (step op (snd (run_calls step ops s)))"
  by (simp add: run_calls_append run_calls_Cons del: run_calls.simps(2))

lemma length_history [simp]: "length (history step ops s) = length ops"
  by (simp add: history_def)

lemma history_nth: "i < length ops \<Longrightarrow> fst (history step ops s ! i) = ops ! i"
  by (simp add: history_def)

locale history_system =
  fixes step :: "'op \<Rightarrow> 's \<Rightarrow> 'r \<times> 's" and owed :: "('op \<times> 'r) list \<Rightarrow> 's \<Rightarrow> bool"
  assumes step_owed: "owed h s \<Longrightarrow> owed (h @ [(op, fst (step op s))]) (snd (step op s))"
begin

lemma run_owed: "owed [] s \<Longrightarrow> owed (history step ops s) (snd (run_calls step ops s))"
proof (induction ops rule: rev_induct)
  case Nil
  then show ?case by (simp add: history_def)
next
  case (snoc op ops)
  then show ?case using step_owed by (simp add: history_snoc run_calls_snoc)
qed

end

end
