(* ===== verification/Keyed_Limiter.thy ===== *)
theory Keyed_Limiter
  imports Complex_Main Go_Table
begin

text \<open>
  The per-key token bucket of \<open>backend/internal/api/keyed_limiter.go\<close> and the limiters built from it
  (\<open>cooldown.go\<close>, \<open>mfa_push_limiter.go\<close>, \<open>pow_challenge_limit.go\<close>, the login budget of
  \<open>login_lockout.go\<close>).

  Every method runs under the limiter's lock, so a call is one step on the state. \<open>float64\<close> balances
  are modelled by rational numbers: rounding is outside the model. The clock \<open>l.now()\<close> is an argument.
\<close>

section \<open>State\<close>

record rate_bucket =
  bkt_tokens :: rat
  bkt_last :: time

record keyed_limiter =
  lim_burst :: rat
  lim_refillPerSec :: rat
  lim_sweepThreshold :: nat
  lim_entries :: "rate_bucket table"

definition keyedLimiterSweepThreshold :: nat where
  "keyedLimiterSweepThreshold = 10000"

definition newKeyedLimiter :: "rat \<Rightarrow> rat \<Rightarrow> keyed_limiter" where
  "newKeyedLimiter burst refillPerSec =
     \<lparr>lim_burst = burst, lim_refillPerSec = refillPerSec, lim_sweepThreshold = keyedLimiterSweepThreshold,
      lim_entries = []\<rparr>"

section \<open>Operations\<close>

definition seconds :: "duration \<Rightarrow> rat" where
  "seconds d = of_int d / of_int second"

text \<open>The balance both \<open>refillLocked\<close> and \<open>sweepLocked\<close> compute for a bucket.\<close>

definition refilled :: "keyed_limiter \<Rightarrow> time \<Rightarrow> rate_bucket \<Rightarrow> rat" where
  "refilled l now e =
     (let elapsed = seconds (now - bkt_last e) in
      if elapsed > 0 then min (lim_burst l) (bkt_tokens e + elapsed * lim_refillPerSec l) else bkt_tokens e)"

definition sweepLocked :: "time \<Rightarrow> keyed_limiter \<Rightarrow> keyed_limiter" where
  "sweepLocked now l = l\<lparr>lim_entries := drop_if (\<lambda>e. refilled l now e \<ge> lim_burst l) (lim_entries l)\<rparr>"

definition put :: "string \<Rightarrow> rate_bucket \<Rightarrow> keyed_limiter \<Rightarrow> keyed_limiter" where
  "put key e l = l\<lparr>lim_entries := AList.update key e (lim_entries l)\<rparr>"

definition refillLocked :: "string \<Rightarrow> time \<Rightarrow> keyed_limiter \<Rightarrow> rate_bucket \<times> keyed_limiter" where
  "refillLocked key now l =
     (case map_of (lim_entries l) key of
        None \<Rightarrow>
          (let l' = (if length (lim_entries l) \<ge> lim_sweepThreshold l then sweepLocked now l else l);
               e = \<lparr>bkt_tokens = lim_burst l, bkt_last = now\<rparr> in (e, put key e l'))
      | Some e \<Rightarrow>
          (let e' = \<lparr>bkt_tokens = refilled l now e, bkt_last = now\<rparr> in (e', put key e' l)))"

definition duration_of :: "rat \<Rightarrow> duration" where
  "duration_of secs = (let ns = secs * of_int second in if ns \<ge> 0 then \<lfloor>ns\<rfloor> else \<lceil>ns\<rceil>)"

definition allow_locked :: "string \<Rightarrow> time \<Rightarrow> keyed_limiter \<Rightarrow> (bool \<times> duration) \<times> keyed_limiter" where
  "allow_locked key now l =
     (case refillLocked key now l of (e, l') \<Rightarrow>
        if bkt_tokens e \<ge> 1 then ((True, 0), put key (e\<lparr>bkt_tokens := bkt_tokens e - 1\<rparr>) l')
        else if lim_refillPerSec l \<le> 0 then ((False, second), l')
        else ((False, duration_of ((1 - bkt_tokens e) / lim_refillPerSec l) + millisecond), l'))"

text \<open>A nil limiter allows everything.\<close>

definition allow :: "string \<Rightarrow> time \<Rightarrow> keyed_limiter option \<Rightarrow> (bool \<times> duration) \<times> keyed_limiter option" where
  "allow key now lo =
     (case lo of None \<Rightarrow> ((True, 0), None)
      | Some l \<Rightarrow> (case allow_locked key now l of (r, l') \<Rightarrow> (r, Some l')))"

definition admitCost :: "string \<Rightarrow> rat \<Rightarrow> time \<Rightarrow> keyed_limiter \<Rightarrow> (bool \<times> duration) \<times> keyed_limiter" where
  "admitCost key reserve now l =
     (case refillLocked key now l of (e, l') \<Rightarrow>
        if bkt_tokens e > 0
        then ((True, 0), put key (e\<lparr>bkt_tokens := max (bkt_tokens e - reserve) (- lim_burst l)\<rparr>) l')
        else if lim_refillPerSec l \<le> 0 then ((False, second), l')
        else ((False, duration_of (- bkt_tokens e / lim_refillPerSec l) + millisecond), l'))"

definition settleCost :: "string \<Rightarrow> rat \<Rightarrow> time \<Rightarrow> keyed_limiter \<Rightarrow> keyed_limiter" where
  "settleCost key delta now l =
     (case refillLocked key now l of (e, l') \<Rightarrow>
        put key (e\<lparr>bkt_tokens := max (min (lim_burst l) (bkt_tokens e - delta)) (- lim_burst l)\<rparr>) l')"

definition sweep :: "time \<Rightarrow> keyed_limiter \<Rightarrow> keyed_limiter" where
  "sweep now l = sweepLocked now l"

section \<open>The limiters of the server\<close>

definition newCooldown :: "duration \<Rightarrow> keyed_limiter" where
  "newCooldown every = newKeyedLimiter 1 (1 / seconds every)"

definition sendAsVerificationCooldownFor :: duration where "sendAsVerificationCooldownFor = 5 * minute"
definition notificationTestCooldownFor :: duration where "notificationTestCooldownFor = 10 * second"

definition mfaPushWindow :: duration where "mfaPushWindow = 5 * minute"
definition mfaPushBurst :: rat where "mfaPushBurst = 3"

definition newMfaPushLimiter :: keyed_limiter where
  "newMfaPushLimiter = newKeyedLimiter mfaPushBurst (1 / seconds mfaPushWindow)"

definition powChallengeBurst :: rat where "powChallengeBurst = 30"
definition powChallengeWindowLen :: duration where "powChallengeWindowLen = minute"

definition newPowChallengeLimiter :: keyed_limiter where
  "newPowChallengeLimiter = newKeyedLimiter powChallengeBurst (powChallengeBurst / seconds powChallengeWindowLen)"

section \<open>Token buckets\<close>

text \<open>
  The contract of a keyed token bucket. A step carries its time and, when it asks for a token, its
  key; \<open>bal s t k\<close> is what the key holds at time \<open>t\<close>. Balances refill at \<open>rate\<close> up to \<open>burst\<close>, a step
  answers yes exactly when its key holds a whole token and takes it, and touches no other key.
\<close>

datatype 'k bucket_op = Take 'k | Idle

locale token_bucket = timed_system inv step
  for inv :: "time \<Rightarrow> 's \<Rightarrow> bool" and step :: "time \<times> 'k bucket_op \<Rightarrow> 's \<Rightarrow> bool \<times> 's" +
  fixes bal :: "'s \<Rightarrow> time \<Rightarrow> 'k \<Rightarrow> rat" and burst rate :: rat
  assumes rate_nonneg: "inv now s \<Longrightarrow> 0 \<le> rate"
    and bal_range: "inv now s \<Longrightarrow> 0 \<le> bal s now k \<and> bal s now k \<le> burst"
    and bal_aging: "inv now s \<Longrightarrow> now \<le> t \<Longrightarrow> bal s t k = min burst (bal s now k + seconds (t - now) * rate)"
    and step_take: "inv now s \<Longrightarrow> fst (step (now, Take k) s) \<longleftrightarrow> 1 \<le> bal s now k"
    and step_idle: "inv now s \<Longrightarrow> \<not> fst (step (now, Idle) s)"
    and step_bal: "inv now s \<Longrightarrow>
      bal (snd (step (now, op) s)) now k = bal s now k - (if op = Take k \<and> fst (step (now, op) s) then 1 else 0)"
begin

definition granted :: "'k \<Rightarrow> (time \<times> 'k bucket_op) list \<Rightarrow> 's \<Rightarrow> nat" where
  "granted k ops s = length (filter (\<lambda>((t, op), b). op = Take k \<and> b) (zip ops (fst (run_calls step ops s))))"

lemma granted_simps:
  "granted k [] s = 0"
  "granted k ((t, op) # ops) s =
     (if op = Take k \<and> fst (step (t, op) s) then 1 else 0) + granted k ops (snd (step (t, op) s))"
  by (simp_all add: granted_def split: prod.splits)

lemma seconds_mono: "a \<le> b \<Longrightarrow> seconds a \<le> seconds b" and seconds_add: "seconds (a + b) = seconds a + seconds b"
  by (simp_all add: seconds_def divide_right_mono add_divide_distrib)

text \<open>The tokens granted in a window are covered by the balance at its start and the refill during it.\<close>

lemma granted_bound:
  assumes "inv t0 s" and "sorted (map fst ops)" and "\<forall>(t, op) \<in> set ops. t0 \<le> t \<and> t \<le> t1" and "t0 \<le> t1"
  shows "of_nat (granted k ops s) \<le> bal s t0 k + seconds (t1 - t0) * rate"
  using assms
proof (induction ops arbitrary: s t0)
  case Nil
  have "0 \<le> seconds (t1 - t0)" using Nil seconds_mono [of 0 "t1 - t0"] by (simp add: seconds_def)
  with rate_nonneg [OF Nil.prems(1)] bal_range [OF Nil.prems(1), of k] show ?case
    by (simp add: granted_simps)
next
  case (Cons o1 ops)
  obtain t op where o1: "o1 = (t, op)" by (cases o1)
  let ?s = "snd (step (t, op) s)"
  have t: "t0 \<le> t" "t \<le> t1" using Cons.prems(3) o1 by auto
  have inv: "inv t s" using inv_later [OF Cons.prems(1) t(1)] .
  have "of_nat (granted k ops ?s) \<le> bal ?s t k + seconds (t1 - t) * rate"
    by (rule Cons.IH) (use Cons.prems o1 step_inv [OF inv] t in auto)
  moreover have "bal s t k \<le> bal s t0 k + seconds (t - t0) * rate"
    using bal_aging [OF Cons.prems(1) t(1), of k] by simp
  moreover have "seconds (t1 - t0) = seconds (t - t0) + seconds (t1 - t)"
    using seconds_add [of "t - t0" "t1 - t"] by simp
  moreover define g :: nat where "g = (if op = Take k \<and> fst (step (t, op) s) then 1 else 0)"
  then have "granted k (o1 # ops) s = g + granted k ops ?s" and "bal ?s t k = bal s t k - of_nat g"
    using step_bal [OF inv, of op k] by (cases "op = Take k"; simp add: o1 granted_simps)+
  ultimately show ?case by (simp add: distrib_right)
qed

end

section \<open>The limiter implements the contract\<close>

definition balance :: "keyed_limiter \<Rightarrow> time \<Rightarrow> string \<Rightarrow> rat" where
  "balance l t key = (case map_of (lim_entries l) key of None \<Rightarrow> lim_burst l | Some e \<Rightarrow> refilled l t e)"

text \<open>\<open>low\<close> is the least balance a bucket may reach: 0 for request rates, \<open>-burst\<close> for the work budget.\<close>

definition limiter_inv :: "rat \<Rightarrow> rat \<Rightarrow> rat \<Rightarrow> time \<Rightarrow> keyed_limiter \<Rightarrow> bool" where
  "limiter_inv low burst rate now l \<longleftrightarrow>
     lim_burst l = burst \<and> lim_refillPerSec l = rate \<and> 0 \<le> rate \<and> low \<le> 0 \<and> 0 \<le> burst \<and>
     distinct (keys (lim_entries l)) \<and>
     (\<forall>key e. map_of (lim_entries l) key = Some e \<longrightarrow>
        bkt_last e \<le> now \<and> low \<le> bkt_tokens e \<and> bkt_tokens e \<le> burst)"

lemma refilled_min:
  assumes "bkt_tokens e \<le> lim_burst l" and "bkt_last e \<le> now"
  shows "refilled l now e = min (lim_burst l) (bkt_tokens e + seconds (now - bkt_last e) * lim_refillPerSec l)"
  using assms by (cases "now = bkt_last e") (auto simp: refilled_def Let_def seconds_def)

lemma refilled_range:
  assumes "bkt_tokens e \<le> lim_burst l" and "0 \<le> lim_refillPerSec l"
  shows "bkt_tokens e \<le> refilled l now e" and "refilled l now e \<le> lim_burst l"
  using assms by (simp_all add: refilled_def Let_def)

lemma refilled_entries [simp]: "refilled (l\<lparr>lim_entries := es\<rparr>) now e = refilled l now e"
  by (simp add: refilled_def Let_def)

lemma refilled_now [simp]: "bkt_last e = now \<Longrightarrow> refilled l now e = bkt_tokens e"
  by (simp add: refilled_def seconds_def)

lemma refilled_aging:
  assumes "bkt_tokens e \<le> lim_burst l" "bkt_last e \<le> now" "now \<le> t" "0 \<le> lim_refillPerSec l"
  shows "refilled l t e = min (lim_burst l) (refilled l now e + seconds (t - now) * lim_refillPerSec l)"
proof -
  have "seconds (t - bkt_last e) = seconds (now - bkt_last e) + seconds (t - now)" and "0 \<le> seconds (t - now)"
    using assms by (simp_all add: seconds_def add_divide_distrib [symmetric])
  moreover from this(2) assms(4) have "0 \<le> seconds (t - now) * lim_refillPerSec l" by (rule mult_nonneg_nonneg)
  ultimately show ?thesis
    using assms by (auto simp: refilled_min min_def distrib_right simp del: mult_nonneg_nonneg)
qed

lemma balance_aging:
  assumes "limiter_inv low burst rate now l" and "now \<le> t"
  shows "balance l t k = min burst (balance l now k + seconds (t - now) * rate)"
proof (cases "map_of (lim_entries l) k")
  case None
  have "0 \<le> seconds (t - now) * rate" using assms by (simp add: limiter_inv_def seconds_def)
  with None assms show ?thesis by (simp add: balance_def limiter_inv_def)
next
  case (Some e)
  with assms show ?thesis
    using refilled_aging [of e l now t] by (auto simp: balance_def limiter_inv_def)
qed

lemma balance_range:
  assumes "limiter_inv low burst rate now l"
  shows "low \<le> balance l now k" and "balance l now k \<le> burst"
  using assms refilled_range [of _ l now]
  by (force simp: balance_def limiter_inv_def split: option.splits)+

lemma limiter_inv_later: "limiter_inv low burst rate now l \<Longrightarrow> now \<le> t \<Longrightarrow> limiter_inv low burst rate t l"
  by (fastforce simp: limiter_inv_def)

lemma sweepLocked_balance:
  assumes "limiter_inv low burst rate now l"
  shows "balance (sweepLocked now l) now k = balance l now k" and "limiter_inv low burst rate now (sweepLocked now l)"
proof -
  have d: "distinct (keys (lim_entries l))" using assms by (simp add: limiter_inv_def)
  show "limiter_inv low burst rate now (sweepLocked now l)"
    using assms by (auto simp: limiter_inv_def sweepLocked_def table split: option.splits if_splits)
  show "balance (sweepLocked now l) now k = balance l now k"
    using assms d refilled_range(2) [of _ l now]
    by (fastforce simp: balance_def sweepLocked_def table limiter_inv_def split: option.splits)
qed

lemma put_balance:
  assumes "limiter_inv low burst rate now l" and "bkt_last e = now" "low \<le> bkt_tokens e" "bkt_tokens e \<le> burst"
  shows "balance (put k e l) now k' = (if k' = k then bkt_tokens e else balance l now k')"
    and "limiter_inv low burst rate now (put k e l)"
  using assms by (auto simp: balance_def put_def table limiter_inv_def split: option.splits)

lemma refillLocked_balance:
  assumes "limiter_inv low burst rate now l"
  obtains l' where "refillLocked k now l = (\<lparr>bkt_tokens = balance l now k, bkt_last = now\<rparr>, l')"
    "limiter_inv low burst rate now l'" "\<And>k'. balance l' now k' = balance l now k'"
    "lim_burst l' = burst" "lim_refillPerSec l' = rate"
proof -
  let ?l = "case map_of (lim_entries l) k of Some e \<Rightarrow> l
    | None \<Rightarrow> if length (lim_entries l) \<ge> lim_sweepThreshold l then sweepLocked now l else l"
  let ?e = "\<lparr>bkt_tokens = balance l now k, bkt_last = now\<rparr>"
  have l: "limiter_inv low burst rate now ?l" "balance ?l now k' = balance l now k'" for k'
    using assms sweepLocked_balance [OF assms] by (auto split: option.splits)
  have e: "bkt_last ?e = now" "low \<le> bkt_tokens ?e" "bkt_tokens ?e \<le> burst"
    using balance_range [OF assms] by simp_all
  note p = put_balance [OF l(1) e, of k]
  have "refillLocked k now l = (?e, put k ?e ?l)"
    by (auto simp: refillLocked_def balance_def Let_def split: option.splits)
  with p l that [of "put k ?e ?l"] show thesis by (auto simp: limiter_inv_def put_def)
qed

lemma allow_locked_balance:
  assumes inv: "limiter_inv 0 burst rate now l"
  shows "fst (fst (allow_locked k now l)) \<longleftrightarrow> 1 \<le> balance l now k"
    and "limiter_inv 0 burst rate now (snd (allow_locked k now l))"
    and "balance (snd (allow_locked k now l)) now k' =
           balance l now k' - (if k' = k \<and> 1 \<le> balance l now k then 1 else 0)"
    and "1 \<le> balance l now k \<or> rate \<le> 0 \<or>
           snd (fst (allow_locked k now l)) = duration_of ((1 - balance l now k) / rate) + millisecond"
proof -
  obtain l' where l': "refillLocked k now l = (\<lparr>bkt_tokens = balance l now k, bkt_last = now\<rparr>, l')"
    "limiter_inv 0 burst rate now l'" "\<And>k'. balance l' now k' = balance l now k'" by (rule refillLocked_balance [OF inv, of k]) blast
  have "lim_refillPerSec l = rate" "balance l now k \<le> burst"
    using inv balance_range [OF inv] by (simp_all add: limiter_inv_def)
  with l' put_balance [OF l'(2), of "\<lparr>bkt_tokens = balance l now k - 1, bkt_last = now\<rparr>" k]
  show "fst (fst (allow_locked k now l)) \<longleftrightarrow> 1 \<le> balance l now k"
    and "limiter_inv 0 burst rate now (snd (allow_locked k now l))"
    and "balance (snd (allow_locked k now l)) now k' =
           balance l now k' - (if k' = k \<and> 1 \<le> balance l now k then 1 else 0)"
    and "1 \<le> balance l now k \<or> rate \<le> 0 \<or>
           snd (fst (allow_locked k now l)) = duration_of ((1 - balance l now k) / rate) + millisecond"
    by (auto simp: allow_locked_def)
qed

definition limiter_step :: "time \<times> string bucket_op \<Rightarrow> keyed_limiter \<Rightarrow> bool \<times> keyed_limiter" where
  "limiter_step x l =
     (case x of (now, Take k) \<Rightarrow> (case allow_locked k now l of ((ok, _), l') \<Rightarrow> (ok, l'))
      | (now, Idle) \<Rightarrow> (False, sweep now l))"

lemma limiter_step_simps [simp]:
  "limiter_step (now, Take k) l = (fst (fst (allow_locked k now l)), snd (allow_locked k now l))"
  "limiter_step (now, Idle) l = (False, sweepLocked now l)"
  by (simp_all add: limiter_step_def sweep_def split: prod.splits)

interpretation bucket: token_bucket "limiter_inv 0 burst rate" limiter_step balance burst rate for burst rate
proof
  fix now s k t op
  assume inv: "limiter_inv 0 burst rate now s"
  show "0 \<le> rate" using inv by (simp add: limiter_inv_def)
  show "0 \<le> balance s now k \<and> balance s now k \<le> burst" using balance_range [OF inv] by simp
  show "limiter_inv 0 burst rate now (snd (limiter_step (now, op) s))"
    using allow_locked_balance(2) [OF inv] sweepLocked_balance(2) [OF inv] by (cases op) simp_all
  show "fst (limiter_step (now, Take k) s) \<longleftrightarrow> 1 \<le> balance s now k"
    using allow_locked_balance(1) [OF inv] by simp
  show "\<not> fst (limiter_step (now, Idle) s)" by simp
  show "balance (snd (limiter_step (now, op) s)) now k =
      balance s now k - (if op = Take k \<and> fst (limiter_step (now, op) s) then 1 else 0)"
    using allow_locked_balance(1,3) [OF inv] sweepLocked_balance(1) [OF inv] by (cases op) simp_all
  show "now \<le> t \<Longrightarrow> balance s t k = min burst (balance s now k + seconds (t - now) * rate)"
    using balance_aging [OF inv] .
  show "now \<le> t \<Longrightarrow> limiter_inv 0 burst rate t s" using limiter_inv_later [OF inv] .
qed

section \<open>The work budget\<close>

lemma admitCost_balance:
  assumes inv: "limiter_inv (- burst) burst rate now l" and "0 \<le> reserve"
  shows "fst (fst (admitCost k reserve now l)) \<longleftrightarrow> 0 < balance l now k"
    and "limiter_inv (- burst) burst rate now (snd (admitCost k reserve now l))"
    and "balance (snd (admitCost k reserve now l)) now k' =
           (if k' = k \<and> 0 < balance l now k then max (balance l now k - reserve) (- burst) else balance l now k')"
    and "0 < balance l now k \<or> rate \<le> 0 \<or>
           snd (fst (admitCost k reserve now l)) = duration_of (- balance l now k / rate) + millisecond"
proof -
  obtain l' where l': "refillLocked k now l = (\<lparr>bkt_tokens = balance l now k, bkt_last = now\<rparr>, l')"
    "limiter_inv (- burst) burst rate now l'" "\<And>k'. balance l' now k' = balance l now k'"
    by (rule refillLocked_balance [OF inv, of k]) blast
  have "lim_refillPerSec l = rate" "lim_burst l = burst" "0 \<le> burst" "balance l now k \<le> burst"
    using inv balance_range [OF inv] by (simp_all add: limiter_inv_def)
  with l' assms(2)
    put_balance [OF l'(2), of "\<lparr>bkt_tokens = max (balance l now k - reserve) (- burst), bkt_last = now\<rparr>" k]
  show "fst (fst (admitCost k reserve now l)) \<longleftrightarrow> 0 < balance l now k"
    and "limiter_inv (- burst) burst rate now (snd (admitCost k reserve now l))"
    and "balance (snd (admitCost k reserve now l)) now k' =
           (if k' = k \<and> 0 < balance l now k then max (balance l now k - reserve) (- burst) else balance l now k')"
    and "0 < balance l now k \<or> rate \<le> 0 \<or>
           snd (fst (admitCost k reserve now l)) = duration_of (- balance l now k / rate) + millisecond"
    by (auto simp: admitCost_def)
qed

lemma settleCost_balance:
  assumes inv: "limiter_inv (- burst) burst rate now l"
  shows "limiter_inv (- burst) burst rate now (settleCost k delta now l)"
    and "balance (settleCost k delta now l) now k' =
           (if k' = k then max (min burst (balance l now k - delta)) (- burst) else balance l now k')"
proof -
  obtain l' where l': "refillLocked k now l = (\<lparr>bkt_tokens = balance l now k, bkt_last = now\<rparr>, l')"
    "limiter_inv (- burst) burst rate now l'" "\<And>k'. balance l' now k' = balance l now k'"
    by (rule refillLocked_balance [OF inv, of k]) blast
  have "lim_burst l = burst" "0 \<le> burst" using inv by (simp_all add: limiter_inv_def)
  with l' put_balance [OF l'(2), of "\<lparr>bkt_tokens = max (min burst (balance l now k - delta)) (- burst), bkt_last = now\<rparr>" k]
  show "limiter_inv (- burst) burst rate now (settleCost k delta now l)"
    and "balance (settleCost k delta now l) now k' =
           (if k' = k then max (min burst (balance l now k - delta)) (- burst) else balance l now k')"
    by (auto simp: settleCost_def)
qed

datatype budget_op = Admit string nat | Settle string duration | SweepBudget

text \<open>A run of the budget, costs in nanoseconds; a refused admission answers its \<open>retryAfter\<close>.\<close>

definition budget_step :: "time \<times> budget_op \<Rightarrow> keyed_limiter \<Rightarrow> duration option \<times> keyed_limiter" where
  "budget_step x l =
     (case x of
        (now, Admit k r) \<Rightarrow>
          (case admitCost k (seconds (int r)) now l of ((ok, d), l') \<Rightarrow> (if ok then None else Some d, l'))
      | (now, Settle k d) \<Rightarrow> (None, settleCost k (seconds d) now l)
      | (now, SweepBudget) \<Rightarrow> (None, sweep now l))"

lemma budget_step_simps [simp]:
  "budget_step (now, Admit k r) l =
     (if fst (fst (admitCost k (seconds (int r)) now l)) then None else Some (snd (fst (admitCost k (seconds (int r)) now l))),
      snd (admitCost k (seconds (int r)) now l))"
  "budget_step (now, Settle k d) l = (None, settleCost k (seconds d) now l)"
  "budget_step (now, SweepBudget) l = (None, sweepLocked now l)"
  by (simp_all add: budget_step_def sweep_def split: prod.splits)

lemma seconds_int [simp]: "0 \<le> seconds (int n)"
  by (simp add: seconds_def)

interpretation budget: timed_system "limiter_inv (- burst) burst rate" budget_step for burst rate
proof
  fix now s t op
  assume inv: "limiter_inv (- burst) burst rate now s"
  show "now \<le> t \<Longrightarrow> limiter_inv (- burst) burst rate t s" using limiter_inv_later [OF inv] .
  show "limiter_inv (- burst) burst rate now (snd (budget_step (now, op) s))"
    using admitCost_balance(2) [OF inv] settleCost_balance(1) [OF inv] sweepLocked_balance(2) [OF inv]
    by (cases op) simp_all
qed

lemma new_limiter_inv: "0 \<le> burst \<Longrightarrow> 0 \<le> rate \<Longrightarrow> low \<le> 0 \<Longrightarrow> limiter_inv low burst rate t (newKeyedLimiter burst rate)"
  by (simp add: limiter_inv_def newKeyedLimiter_def)

lemma duration_of_nonneg:
  assumes "0 \<le> x"
  shows "0 \<le> duration_of x" and "x * of_int second < of_int (duration_of x + 1)"
    and "of_int (duration_of x) \<le> x * of_int second"
proof -
  have n: "0 \<le> x * of_int second" using assms by simp
  then show "0 \<le> duration_of x" by (simp add: duration_of_def Let_def)
  from n show "x * of_int second < of_int (duration_of x + 1)"
    unfolding duration_of_def Let_def by (simp only: if_True) (use floor_correct [of "x * of_int second"] in simp)
  from n show "of_int (duration_of x) \<le> x * of_int second"
    unfolding duration_of_def Let_def by (simp only: if_True of_int_floor_le)
qed

lemma refund_balance:
  assumes "limiter_inv (- burst) burst rate now l" and "0 \<le> reserve" and "reserve \<le> burst" and "now \<le> t"
    and "admitCost k reserve now l = ((True, wait), l')"
  shows "balance (settleCost k (- reserve) t l') t k' = balance l t k'"
proof -
  note a = admitCost_balance [OF assms(1,2), of k, unfolded assms(5), simplified]
  note inv = limiter_inv_later [OF a(2) assms(4)]
  have rate: "0 \<le> seconds (t - now) * rate" using assms(1,4) by (simp add: limiter_inv_def seconds_def)
  have "balance l' t k' = min burst (balance l' now k' + seconds (t - now) * rate)"
    and "balance l t k' = min burst (balance l now k' + seconds (t - now) * rate)"
    using balance_aging [OF a(2) assms(4)] balance_aging [OF assms(1,4)] by simp_all
  moreover have "balance l' now k' = balance l now k' - (if k' = k then reserve else 0)"
    using a(1) a(3) [of k'] assms(3) by simp
  moreover have "- burst \<le> balance l' t k'" and "balance l t k' \<le> burst"
    using balance_range [OF inv] balance_range [OF limiter_inv_later [OF assms(1,4)]] by simp_all
  ultimately show ?thesis
    using settleCost_balance(2) [OF inv, of k "- reserve" k'] assms(2) rate
    by (cases "k' = k") (simp_all add: min_def max_def split: if_splits)
qed

section \<open>Properties\<close>

text \<open>Requests for a key among the answers of a run.\<close>

definition admitted :: "string \<Rightarrow> (time \<times> string bucket_op) list \<Rightarrow> bool list \<Rightarrow> nat" where
  "admitted k ops answers = length (filter (\<lambda>((t, op), b). op = Take k \<and> b) (zip ops answers))"

lemma admitted_window:
  assumes "sorted (map fst (before @ window))" and "\<forall>(t, op) \<in> set window. t0 \<le> t \<and> t \<le> t1"
    and "\<forall>(t, op) \<in> set before. t \<le> t0" and "t0 \<le> t1" and "0 \<le> burst" and "0 \<le> rate"
  shows "of_nat (admitted k window
           (drop (length before) (fst (run_calls limiter_step (before @ window) (newKeyedLimiter burst rate)))))
         \<le> burst + seconds (t1 - t0) * rate"
proof -
  let ?l0 = "newKeyedLimiter burst rate"
  let ?l = "snd (run_calls limiter_step before ?l0)"
  define t where "t = (if before = [] then t0 else fst (hd before))"
  have t: "t \<le> t0" "\<forall>(t', op) \<in> set before. t \<le> t' \<and> t' \<le> t0"
    using assms(1,3) by (cases before; force simp: t_def sorted_append)+
  have inv: "limiter_inv 0 burst rate t0 ?l"
    by (rule bucket.run_inv [OF new_limiter_inv _ t(2) t(1)]) (use assms in \<open>simp_all add: sorted_append\<close>)
  have "of_nat (bucket.granted k window ?l) \<le> balance ?l t0 k + seconds (t1 - t0) * rate"
    by (rule bucket.granted_bound [OF inv]) (use assms in \<open>simp_all add: sorted_append\<close>)
  with balance_range(2) [OF inv, of k] show ?thesis
    by (simp add: bucket.granted_def admitted_def run_calls_append)
qed

text \<open>
  C37: A limiter bounds the rate of every key. In any run of a fresh limiter, requests for any keys and
  sweeps interleaved in time order, the requests for one key admitted during a window number at most
  the burst plus what refills during the window.
\<close>

theorem limiter_rate_bound:
  assumes "sorted (map fst (before @ window))" and "\<forall>(t, op) \<in> set window. t0 \<le> t \<and> t \<le> t1"
    and "\<forall>(t, op) \<in> set before. t \<le> t0" and "t0 \<le> t1" and "0 \<le> burst" and "0 \<le> rate"
  shows "of_nat (admitted k window
           (drop (length before) (fst (run_calls limiter_step (before @ window) (newKeyedLimiter burst rate)))))
         \<le> burst + seconds (t1 - t0) * rate"
  using assms by (rule admitted_window)

theorem limiter_rate_bound_witness:
  "of_nat (admitted ''u'' [(second, Take ''u''), (second, Take ''u'')]
     (drop 1 (fst (run_calls limiter_step ([(0, Take ''u'')] @ [(second, Take ''u''), (second, Take ''u'')])
        (newKeyedLimiter 2 (1 / 2)))))) \<le> (2 :: rat) + seconds (second - 0) * (1 / 2)"
  using limiter_rate_bound [of "[(0, Take ''u'')]" "[(second, Take ''u''), (second, Take ''u'')]" 0 second 2 "1 / 2" "''u''"]
  by simp

text \<open>
  No window shorter than five minutes ever holds more than three MFA pushes for one account, however
  sign-in attempts are timed and whatever happens for other accounts.
\<close>

theorem mfa_push_cap:
  assumes "sorted (map fst (before @ window))" and "\<forall>(t, op) \<in> set window. t0 \<le> t \<and> t \<le> t1"
    and "\<forall>(t, op) \<in> set before. t \<le> t0" and "t0 \<le> t1" and "t1 - t0 < mfaPushWindow"
  shows "admitted user window
           (drop (length before) (fst (run_calls limiter_step (before @ window) newMfaPushLimiter))) \<le> 3"
proof -
  have pos: "0 < seconds mfaPushWindow" by (simp add: seconds_def mfaPushWindow_def)
  have "seconds (t1 - t0) < seconds mfaPushWindow"
    using assms(5) by (simp add: seconds_def divide_strict_right_mono)
  with pos have "seconds (t1 - t0) * (1 / seconds mfaPushWindow) < 1" by (simp add: field_simps)
  moreover have "(of_nat (admitted user window
      (drop (length before) (fst (run_calls limiter_step (before @ window) newMfaPushLimiter)))) :: rat)
      \<le> 3 + seconds (t1 - t0) * (1 / seconds mfaPushWindow)"
    unfolding newMfaPushLimiter_def mfaPushBurst_def by (rule admitted_window [OF assms(1-4)]) (use pos in simp_all)
  ultimately have "(of_nat (admitted user window
      (drop (length before) (fst (run_calls limiter_step (before @ window) newMfaPushLimiter)))) :: rat) < of_nat 4"
    by linarith
  then show ?thesis unfolding of_nat_less_iff by linarith
qed

theorem mfa_push_cap_witness:
  "admitted ''u'' (replicate 5 (0, Take ''u'')) (fst (run_calls limiter_step (replicate 5 (0, Take ''u'')) newMfaPushLimiter)) \<le> 3"
  using mfa_push_cap [of "[]" "replicate 5 (0, Take ''u'')" 0 0 "''u''"]
  by (simp add: mfaPushWindow_def sorted_replicate)

text \<open>
  Retry-After is honest. A refused request that waits for the advertised time is admitted, unless
  another request for the same key comes first.
\<close>

theorem retry_after_honest:
  assumes "limiter_inv 0 burst rate now l" and "1 \<le> burst" and "0 < rate"
    and "allow_locked k now l = ((False, wait), l')"
  shows "0 \<le> wait \<and> fst (fst (allow_locked k (now + wait) l'))"
proof -
  note a = allow_locked_balance [OF assms(1), of k, unfolded assms(4), simplified]
  let ?x = "(1 - balance l now k) / rate"
  from a assms(3) have b: "balance l now k < 1" and wait: "wait = duration_of ?x + millisecond" by auto
  with assms(3) have x: "0 \<le> ?x" by simp
  then have w: "0 \<le> wait" using wait duration_of_nonneg(1) by simp
  have "?x * of_int second < of_int wait" using duration_of_nonneg(2) [OF x] wait by simp
  then have "?x < seconds wait" by (simp add: seconds_def)
  then have "1 < balance l now k + seconds wait * rate" using assms(3) by (simp add: field_simps)
  moreover have "balance l' now k = balance l now k" using a(3) [of k] b by simp
  moreover have "balance l' (now + wait) k = min burst (balance l' now k + seconds wait * rate)"
    using balance_aging [OF a(2), of "now + wait" k] w by simp
  ultimately have "1 \<le> balance l' (now + wait) k" using assms(2) by simp
  with allow_locked_balance(1) [OF limiter_inv_later [OF a(2), of "now + wait"], of k] w show ?thesis by simp
qed

theorem retry_after_honest_witness:
  "fst (fst (allow_locked ''u'' (5 * second + millisecond) (snd (allow_locked ''u'' 0 (snd (allow_locked ''u'' 0 (newCooldown (5 * second))))))))"
proof -
  let ?l = "snd (allow_locked ''u'' 0 (newCooldown (5 * second)))"
  have inv: "limiter_inv 0 1 (1 / 5) 0 ?l"
    using allow_locked_balance(2) [OF new_limiter_inv [of 1 "1 / 5" 0 0], of "''u''"]
    by (simp add: newCooldown_def seconds_def)
  obtain wait l' where r: "allow_locked ''u'' 0 ?l = ((False, wait), l')" and w: "wait = 5 * second + millisecond"
    by (simp add: allow_locked_def newCooldown_def newKeyedLimiter_def refillLocked_def put_def refilled_def
        seconds_def Let_def duration_of_def keyedLimiterSweepThreshold_def)
  from retry_after_honest [OF inv _ _ r] show ?thesis unfolding r by (simp add: w)
qed

text \<open>
  The login budget can never be driven further into debt than one burst, whatever is reserved and
  billed and in whatever order, so a refused caller is never told to wait longer than the time one
  burst takes to refill, plus a millisecond.
\<close>

theorem budget_debt_floored:
  assumes "0 < burst" and "0 < rate" and "sorted (map fst ops)" and "\<forall>(t, op) \<in> set ops. t0 \<le> t \<and> t \<le> t1" and "t0 \<le> t1"
    and "snd (run_calls budget_step ops (newKeyedLimiter burst rate)) = l"
  shows "- burst \<le> balance l t1 k \<and> balance l t1 k \<le> burst \<and>
         (case admitCost k (seconds (int r)) t1 l of ((ok, wait), _) \<Rightarrow>
            ok \<or> of_int wait \<le> burst / rate * of_int second + of_int millisecond)"
proof -
  have inv: "limiter_inv (- burst) burst rate t1 l"
    unfolding assms(6) [symmetric]
    by (rule budget.run_inv [OF new_limiter_inv _ assms(4,5)]) (use assms in simp_all)
  note range = balance_range [OF inv, of k]
  let ?x = "- balance l t1 k / rate"
  have "of_int wait \<le> burst / rate * of_int second + of_int millisecond"
    if r: "admitCost k (seconds (int r)) t1 l = ((False, wait), l')" for wait l'
  proof -
    from admitCost_balance(1,4) [OF inv, of "seconds (int r)" k] r assms(2)
    have b: "balance l t1 k \<le> 0" and wait: "wait = duration_of ?x + millisecond" by auto
    with assms(2) have x: "0 \<le> ?x" by (simp add: divide_nonpos_pos)
    then have "of_int (duration_of ?x) \<le> ?x * of_int second" by (rule duration_of_nonneg(3))
    also have "\<dots> \<le> burst / rate * of_int second"
      using range assms(2) by (intro mult_right_mono divide_right_mono) simp_all
    finally show ?thesis unfolding wait by simp
  qed
  moreover obtain ok wait l' where r: "admitCost k (seconds (int r)) t1 l = ((ok, wait), l')" by (metis surj_pair)
  ultimately show ?thesis using range by (cases ok) (simp_all only: r prod.case simp_thms)
qed

theorem budget_debt_floored_witness:
  "- 3 \<le> balance (snd (run_calls budget_step [(0, Settle ''instance'' (9 * second)), (0, Settle ''instance'' (9 * second))]
      (newKeyedLimiter 3 (1 / 5)))) 0 ''instance''"
  using budget_debt_floored [of 3 "1 / 5" "[(0, Settle ''instance'' (9 * second)), (0, Settle ''instance'' (9 * second))]" 0 0 _ "''instance''", OF _ _ _ _ _ refl]
  by simp

text \<open>
  A refunded reservation leaves no trace. An attempt that was admitted, derived nothing and gives
  its reservation back leaves every balance what it would have been without the attempt.
\<close>

theorem refund_restores_budget:
  assumes "limiter_inv (- burst) burst rate now l" and "0 \<le> reserve" and "reserve \<le> burst" and "now \<le> t"
    and "admitCost k reserve now l = ((True, wait), l')"
  shows "balance (settleCost k (- reserve) t l') t k' = balance l t k'"
  using assms by (rule refund_balance)

theorem refund_restores_budget_witness:
  "balance (settleCost ''instance'' (- 1 / 5) (2 * second) (snd (admitCost ''instance'' (1 / 5) second (newKeyedLimiter 3 (1 / 5)))))
     (2 * second) ''instance'' = 3"
proof -
  let ?l = "newKeyedLimiter 3 (1 / 5)"
  have inv: "limiter_inv (- 3) 3 (1 / 5) second ?l" by (rule new_limiter_inv) simp_all
  obtain wait l' where r: "admitCost ''instance'' (1 / 5) second ?l = ((True, wait), l')"
    by (simp add: admitCost_def newKeyedLimiter_def refillLocked_def put_def Let_def)
  have "balance ?l (2 * second) ''instance'' = 3" by (simp add: balance_def newKeyedLimiter_def)
  with refund_restores_budget [OF inv _ _ _ r, of "2 * second" "''instance''"] show ?thesis unfolding r by simp
qed

end
