(* ===== verification/Failure_Lockout.thy ===== *)
theory Failure_Lockout
  imports Go_Table "HOL-Library.Multiset"
begin

text \<open>
  The strike/cooldown tables of \<open>backend/internal/api/login_lockout.go\<close>: \<open>tryAttempt\<close>,
  \<open>cancelAttempt\<close>, \<open>recordSuccess\<close>, the crowded-table sweep and the eviction at the hard cap.

  Every method runs under the table's lock, so a call is one step. The zero \<open>time.Time\<close> is \<open>None\<close>; a
  \<open>Sub\<close> from it saturates at the largest duration, so it counts as arbitrarily old. Go ranges over a
  map in an unspecified order: where the order can matter, in the eviction, an argument \<open>rank\<close> says in
  which order the keys come.
\<close>

section \<open>State\<close>

record lockout_entry =
  ent_strikes :: "time list"
  ent_lockedUntil :: "time option"

record failure_lockout =
  lk_maxFailures :: nat
  lk_lockoutFor :: duration
  lk_entries :: "lockout_entry table"
  lk_lastSweep :: "time option"
  lk_saturated :: bool
  lk_sweepThreshold :: nat
  lk_hardCap :: nat

record lockout_reservation =
  res_key :: string
  res_at :: time

definition loginMaxFailures :: nat where "loginMaxFailures = 3"
definition loginLockoutFor :: duration where "loginLockoutFor = 15 * minute"
definition loginLockoutSweepThreshold :: nat where "loginLockoutSweepThreshold = 10000"
definition loginLockoutHardCap :: nat where "loginLockoutHardCap = 50000"
definition maxLockoutKeyComponentBytes :: nat where "maxLockoutKeyComponentBytes = 128"
definition sweepMinInterval :: duration where "sweepMinInterval = second"
definition loginIPMaxFailures :: nat where "loginIPMaxFailures = 50"
definition loginIPLockoutFor :: duration where "loginIPLockoutFor = 15 * minute"

definition clampLockoutKeyComponent :: "string \<Rightarrow> string" where
  "clampLockoutKeyComponent s =
     (if length s \<le> maxLockoutKeyComponentBytes then s else take maxLockoutKeyComponentBytes s)"

definition newFailureLockoutSized :: "nat \<Rightarrow> duration \<Rightarrow> nat \<Rightarrow> nat \<Rightarrow> failure_lockout" where
  "newFailureLockoutSized maxFailures lockoutFor sweepThreshold hardCap =
     \<lparr>lk_maxFailures = maxFailures, lk_lockoutFor = lockoutFor, lk_entries = [], lk_lastSweep = None,
      lk_saturated = False, lk_sweepThreshold = sweepThreshold, lk_hardCap = hardCap\<rparr>"

definition newFailureLockout :: "nat \<Rightarrow> duration \<Rightarrow> failure_lockout" where
  "newFailureLockout maxFailures lockoutFor =
     newFailureLockoutSized maxFailures lockoutFor loginLockoutSweepThreshold loginLockoutHardCap"

definition newLoginLockout :: failure_lockout where
  "newLoginLockout = newFailureLockout loginMaxFailures loginLockoutFor"

section \<open>Operations\<close>

definition lastStrike :: "lockout_entry \<Rightarrow> time option" where
  "lastStrike e = (if ent_strikes e = [] then None else Some (last (ent_strikes e)))"

text \<open>\<open>now.Sub(t) >= d\<close>, \<open>now.Before(t)\<close> and \<open>t.Before(u)\<close>.\<close>

definition elapsed :: "time \<Rightarrow> time option \<Rightarrow> duration \<Rightarrow> bool" where
  "elapsed now t d = (case t of None \<Rightarrow> True | Some s \<Rightarrow> now - s \<ge> d)"

definition now_before :: "time \<Rightarrow> time option \<Rightarrow> bool" where
  "now_before now t = (case t of None \<Rightarrow> False | Some u \<Rightarrow> now < u)"

fun time_before :: "time option \<Rightarrow> time option \<Rightarrow> bool" where
  "time_before None (Some _) = True"
| "time_before (Some a) (Some b) = (a < b)"
| "time_before _ None = False"

definition sweepIfCrowdedLocked :: "time \<Rightarrow> failure_lockout \<Rightarrow> failure_lockout" where
  "sweepIfCrowdedLocked now l =
     (if length (lk_entries l) < lk_sweepThreshold l then l
      else if length (lk_entries l) < lk_hardCap l \<and> \<not> elapsed now (lk_lastSweep l) sweepMinInterval then l
      else
        (let es = drop_if (\<lambda>e. \<not> now_before now (ent_lockedUntil e) \<and> elapsed now (lastStrike e) (lk_lockoutFor l))
                    (lk_entries l) in
         l\<lparr>lk_lastSweep := Some now, lk_entries := es,
           lk_saturated := (if length es < lk_hardCap l then False else lk_saturated l)\<rparr>))"

fun oldest_unlocked ::
  "time \<Rightarrow> (string \<times> lockout_entry) list \<Rightarrow> (string \<times> time option) option \<Rightarrow> (string \<times> time option) option" where
  "oldest_unlocked now [] found = found"
| "oldest_unlocked now ((k, e) # es) found =
     oldest_unlocked now es
       (if now_before now (ent_lockedUntil e) then found
        else (case found of
                None \<Rightarrow> Some (k, lastStrike e)
              | Some (victim, oldest) \<Rightarrow>
                  if time_before (lastStrike e) oldest then Some (k, lastStrike e) else found))"

definition evictOldestUnlockedLocked :: "(string \<Rightarrow> nat) \<Rightarrow> time \<Rightarrow> failure_lockout \<Rightarrow> bool \<times> failure_lockout" where
  "evictOldestUnlockedLocked rank now l =
     (case oldest_unlocked now (sort_key (rank \<circ> fst) (lk_entries l)) None of
        None \<Rightarrow> (False, l)
      | Some (victim, _) \<Rightarrow> (True, l\<lparr>lk_entries := AList.delete victim (lk_entries l)\<rparr>))"

text \<open>The tail of \<open>tryAttempt\<close>: the strike is spent, and locks the key when it is the last one.\<close>

definition spend :: "string \<Rightarrow> time \<Rightarrow> lockout_entry \<Rightarrow> failure_lockout \<Rightarrow> failure_lockout" where
  "spend key now e l =
     (let strikes = ent_strikes e @ [now] in
      l\<lparr>lk_entries := AList.update key
          \<lparr>ent_strikes = strikes,
           ent_lockedUntil = (if length strikes \<ge> lk_maxFailures l then Some (now + lk_lockoutFor l)
                              else ent_lockedUntil e)\<rparr> (lk_entries l)\<rparr>)"

type_synonym attempt_result = "(bool \<times> duration \<times> lockout_reservation option)"

definition granted_attempt :: "string \<Rightarrow> time \<Rightarrow> attempt_result" where
  "granted_attempt key now = (True, 0, Some \<lparr>res_key = key, res_at = now\<rparr>)"

definition tryAttempt :: "(string \<Rightarrow> nat) \<Rightarrow> string \<Rightarrow> time \<Rightarrow> failure_lockout \<Rightarrow> attempt_result \<times> failure_lockout" where
  "tryAttempt rank username now l0 =
     (let l = sweepIfCrowdedLocked now l0; fresh = \<lparr>ent_strikes = [], ent_lockedUntil = None\<rparr> in
      case map_of (lk_entries l) username of
        None \<Rightarrow>
          (if length (lk_entries l) \<ge> lk_hardCap l then
             (case evictOldestUnlockedLocked rank now (l\<lparr>lk_saturated := True\<rparr>) of
                (False, l') \<Rightarrow> ((False, lk_lockoutFor l, None), l')
              | (True, l') \<Rightarrow> (granted_attempt username now, spend username now fresh l'))
           else (granted_attempt username now, spend username now fresh l))
      | Some e \<Rightarrow>
          (if now_before now (ent_lockedUntil e) then
             ((False, the (ent_lockedUntil e) - now, None), l)
           else if ent_lockedUntil e \<noteq> None then (granted_attempt username now, spend username now fresh l)
           else if elapsed now (lastStrike e) (lk_lockoutFor l)
             then (granted_attempt username now, spend username now (e\<lparr>ent_strikes := []\<rparr>) l)
           else (granted_attempt username now, spend username now e l)))"

definition lockedFor :: "string \<Rightarrow> time \<Rightarrow> failure_lockout \<Rightarrow> duration" where
  "lockedFor key now l =
     (case map_of (lk_entries l) key of
        None \<Rightarrow> 0
      | Some e \<Rightarrow> (case ent_lockedUntil e of None \<Rightarrow> 0 | Some u \<Rightarrow> max (u - now) 0))"

text \<open>The loop that drops everything before the newest gap of \<open>lockoutFor\<close>, from the newest strike down.\<close>

fun recent_rev :: "duration \<Rightarrow> time list \<Rightarrow> time list" where
  "recent_rev w (x # y # xs) = (if x - y \<ge> w then [x] else x # recent_rev w (y # xs))"
| "recent_rev w xs = xs"

definition recent :: "duration \<Rightarrow> time list \<Rightarrow> time list" where
  "recent w strikes = rev (recent_rev w (rev strikes))"

definition cancelAttempt :: "lockout_reservation \<Rightarrow> failure_lockout \<Rightarrow> failure_lockout" where
  "cancelAttempt res l =
     (case map_of (lk_entries l) (res_key res) of
        None \<Rightarrow> l
      | Some e \<Rightarrow>
          if res_at res \<notin> set (ent_strikes e) then l
          else
            (let strikes = recent (lk_lockoutFor l) (remove1 (res_at res) (ent_strikes e));
                 e' = \<lparr>ent_strikes = strikes,
                       ent_lockedUntil = (if length strikes < lk_maxFailures l then None else ent_lockedUntil e)\<rparr> in
             if strikes = [] then l\<lparr>lk_entries := AList.delete (res_key res) (lk_entries l)\<rparr>
             else l\<lparr>lk_entries := AList.update (res_key res) e' (lk_entries l)\<rparr>))"

definition recordSuccess :: "string \<Rightarrow> failure_lockout \<Rightarrow> failure_lockout" where
  "recordSuccess username l = l\<lparr>lk_entries := AList.delete username (lk_entries l)\<rparr>"

definition Saturated :: "failure_lockout \<Rightarrow> bool" where "Saturated l = lk_saturated l"
definition HardCap :: "failure_lockout \<Rightarrow> nat" where "HardCap l = lk_hardCap l"

section \<open>The invariant\<close>

text \<open>
  The strikes of an entry are in time order, none further than the window from the next, at most
  \<open>maxFailures\<close> of them; the entry is locked exactly when it has that many, for a window from the
  newest one.
\<close>

definition strikes_ok :: "duration \<Rightarrow> time \<Rightarrow> time list \<Rightarrow> bool" where
  "strikes_ok w now xs \<longleftrightarrow> sorted xs \<and> (\<forall>s \<in> set xs. s \<le> now) \<and> successively (\<lambda>x y. y - x < w) xs"

definition entry_ok :: "nat \<Rightarrow> duration \<Rightarrow> time \<Rightarrow> lockout_entry \<Rightarrow> bool" where
  "entry_ok m w now e \<longleftrightarrow>
     ent_strikes e \<noteq> [] \<and> strikes_ok w now (ent_strikes e) \<and> length (ent_strikes e) \<le> m \<and>
     ent_lockedUntil e = (if length (ent_strikes e) = m then Some (last (ent_strikes e) + w) else None)"

definition table_ok :: "nat \<Rightarrow> duration \<Rightarrow> time \<Rightarrow> lockout_entry table \<Rightarrow> bool" where
  "table_ok m w now es \<longleftrightarrow> distinct (keys es) \<and> (\<forall>k e. map_of es k = Some e \<longrightarrow> entry_ok m w now e)"

definition lockout_inv :: "nat \<Rightarrow> duration \<Rightarrow> nat \<Rightarrow> time \<Rightarrow> failure_lockout \<Rightarrow> bool" where
  "lockout_inv m w cap now l \<longleftrightarrow>
     lk_maxFailures l = m \<and> lk_lockoutFor l = w \<and> lk_hardCap l = cap \<and> 0 < m \<and> 0 < w \<and> 0 < cap \<and>
     table_ok m w now (lk_entries l) \<and> length (lk_entries l) \<le> cap"

lemma table_ok_update:
  "table_ok m w now es \<Longrightarrow> entry_ok m w now e \<Longrightarrow> table_ok m w now (AList.update k e es)"
  by (simp add: table_ok_def table)

lemma table_ok_delete: "table_ok m w now es \<Longrightarrow> table_ok m w now (AList.delete k es)"
  by (simp add: table_ok_def table)

lemma table_ok_drop_if: "table_ok m w now es \<Longrightarrow> table_ok m w now (drop_if P es)"
  by (auto simp: table_ok_def table split: option.splits if_splits)

lemma entry_ok_later: "entry_ok m w now e \<Longrightarrow> now \<le> t \<Longrightarrow> entry_ok m w t e"
  by (force simp: entry_ok_def strikes_ok_def)

lemma lockout_inv_later: "lockout_inv m w cap now l \<Longrightarrow> now \<le> t \<Longrightarrow> lockout_inv m w cap t l"
  by (auto simp: lockout_inv_def table_ok_def intro: entry_ok_later)

subsection \<open>Sweep and eviction\<close>

lemma sweep_inv:
  assumes "lockout_inv m w cap now l"
  shows "lockout_inv m w cap now (sweepIfCrowdedLocked now l)"
  using assms length_drop_if
  by (auto simp: sweepIfCrowdedLocked_def lockout_inv_def Let_def table_ok_drop_if intro: order_trans)

text \<open>What a sweep leaves of an entry: all of it, unless it is unlocked and stale.\<close>

definition stale :: "duration \<Rightarrow> time \<Rightarrow> lockout_entry \<Rightarrow> bool" where
  "stale w now e \<longleftrightarrow> \<not> now_before now (ent_lockedUntil e) \<and> elapsed now (lastStrike e) w"

lemma sweep_entry:
  assumes "lockout_inv m w cap now l"
  shows "map_of (lk_entries (sweepIfCrowdedLocked now l)) k = map_of (lk_entries l) k \<or>
         map_of (lk_entries (sweepIfCrowdedLocked now l)) k = None \<and>
           (\<exists>e. map_of (lk_entries l) k = Some e \<and> stale w now e)"
  using assms
  by (auto simp: sweepIfCrowdedLocked_def Let_def table lockout_inv_def table_ok_def stale_def split: option.splits)

lemma sweep_keys: "set (keys (lk_entries (sweepIfCrowdedLocked now l))) \<subseteq> set (keys (lk_entries l))"
  by (auto simp: sweepIfCrowdedLocked_def Let_def dest: subsetD [OF keys_drop_if])

lemma sweep_fields [simp]:
  "lk_maxFailures (sweepIfCrowdedLocked now l) = lk_maxFailures l"
  "lk_lockoutFor (sweepIfCrowdedLocked now l) = lk_lockoutFor l"
  "lk_hardCap (sweepIfCrowdedLocked now l) = lk_hardCap l"
  by (simp_all add: sweepIfCrowdedLocked_def Let_def)

lemma oldest_unlocked_Some:
  assumes "oldest_unlocked now es found = Some (v, t)"
  shows "found = Some (v, t) \<or> (\<exists>e. (v, e) \<in> set es \<and> \<not> now_before now (ent_lockedUntil e))"
  using assms
proof (induction now es found rule: oldest_unlocked.induct)
  case (2 now k e es found)
  then show ?case by (fastforce split: if_splits option.splits prod.splits)
qed simp

lemma oldest_unlocked_None:
  assumes "oldest_unlocked now es found = None"
  shows "found = None" and "\<forall>(k, e) \<in> set es. now_before now (ent_lockedUntil e)"
  using assms
  by (induction now es found rule: oldest_unlocked.induct) (auto split: if_splits option.splits prod.splits)

text \<open>An eviction removes one entry, an unlocked one; it fails only when every entry is locked.\<close>

lemma evict_cases:
  assumes "distinct (keys (lk_entries l))"
  obtains (none) "evictOldestUnlockedLocked rank now l = (False, l)"
      "\<forall>(k, e) \<in> set (lk_entries l). now_before now (ent_lockedUntil e)"
    | (one) v e where "evictOldestUnlockedLocked rank now l = (True, l\<lparr>lk_entries := AList.delete v (lk_entries l)\<rparr>)"
      "map_of (lk_entries l) v = Some e" "\<not> now_before now (ent_lockedUntil e)"
proof (cases "oldest_unlocked now (sort_key (rank \<circ> fst) (lk_entries l)) None")
  case None
  with none oldest_unlocked_None(2) [OF None] show thesis by (simp add: evictOldestUnlockedLocked_def)
next
  case (Some vt)
  obtain v t where vt: "vt = (v, t)" by (cases vt)
  from oldest_unlocked_Some [OF Some [unfolded vt]] obtain e
    where e: "(v, e) \<in> set (lk_entries l)" "\<not> now_before now (ent_lockedUntil e)" by auto
  with assms have "map_of (lk_entries l) v = Some e" by (simp add: keys_def)
  with e Some vt one show thesis by (simp add: evictOldestUnlockedLocked_def)
qed

lemma length_delete_present: "distinct (keys es) \<Longrightarrow> k \<in> set (keys es) \<Longrightarrow> Suc (length (AList.delete k es)) = length es"
  by (induction es) (auto simp: keys_def delete_id)

subsection \<open>Spending a strike\<close>

lemma entry_ok_spend:
  assumes "0 < m" "0 < w" and "strikes_ok w now xs" and "length xs < m" and "xs \<noteq> [] \<Longrightarrow> now - last xs < w"
  shows "entry_ok m w now \<lparr>ent_strikes = xs @ [now],
           ent_lockedUntil = (if length (xs @ [now]) \<ge> m then Some (now + w) else None)\<rparr>"
  using assms by (auto simp: entry_ok_def strikes_ok_def sorted_append successively_append_iff)

lemma spend_inv:
  assumes inv: "lockout_inv m w cap now l" and "strikes_ok w now (ent_strikes e)" and "length (ent_strikes e) < m"
    and "ent_strikes e \<noteq> [] \<Longrightarrow> now - last (ent_strikes e) < w" and "ent_lockedUntil e = None"
    and room: "key \<in> set (keys (lk_entries l)) \<or> length (lk_entries l) < cap"
  shows "lockout_inv m w cap now (spend key now e l)"
proof -
  have l: "0 < m" "0 < w" "lk_maxFailures l = m" "lk_lockoutFor l = w" "table_ok m w now (lk_entries l)"
    using inv by (simp_all add: lockout_inv_def)
  note table_ok_update [OF l(5) entry_ok_spend [OF l(1,2) assms(2-4)], of key]
  moreover have "length (AList.update key x (lk_entries l)) \<le> cap" for x
    using room inv by (cases "key \<in> set (keys (lk_entries l))") (auto simp: table lockout_inv_def)
  ultimately show ?thesis using inv l(3,4) assms(5) by (auto simp: lockout_inv_def spend_def Let_def)
qed


subsection \<open>Live strikes\<close>

text \<open>
  The abstract state of a key: the strikes that still count at a time. A stale entry counts for
  nothing, whether or not it has been swept.
\<close>

definition live_strikes :: "duration \<Rightarrow> time \<Rightarrow> lockout_entry option \<Rightarrow> time list" where
  "live_strikes w now eo =
     (case eo of None \<Rightarrow> [] | Some e \<Rightarrow> if elapsed now (lastStrike e) w then [] else ent_strikes e)"

definition live :: "failure_lockout \<Rightarrow> time \<Rightarrow> string \<Rightarrow> time list" where
  "live l now k = live_strikes (lk_lockoutFor l) now (map_of (lk_entries l) k)"

lemma entry_ok_locked:
  assumes "entry_ok m w now e"
  shows "now_before now (ent_lockedUntil e) \<longleftrightarrow> length (ent_strikes e) = m \<and> \<not> elapsed now (lastStrike e) w"
    and "stale w now e \<longleftrightarrow> elapsed now (lastStrike e) w"
    and "ent_lockedUntil e \<noteq> None \<longleftrightarrow> length (ent_strikes e) = m"
  using assms by (auto simp: entry_ok_def now_before_def elapsed_def lastStrike_def stale_def)

lemma sweep_live:
  assumes "lockout_inv m w cap now l"
  shows "live (sweepIfCrowdedLocked now l) now k = live l now k"
proof -
  have "entry_ok m w now e" if "map_of (lk_entries l) k = Some e" for e
    using assms that by (simp add: lockout_inv_def table_ok_def)
  then show ?thesis
    using sweep_entry [OF assms, of k] assms entry_ok_locked(2)
    by (fastforce simp: live_def live_strikes_def lockout_inv_def)
qed

lemma live_ok:
  assumes "lockout_inv m w cap now l"
  shows "strikes_ok w now (live l now k)" and "length (live l now k) \<le> m"
    and "live l now k \<noteq> [] \<Longrightarrow> now - last (live l now k) < w"
  using assms
  by (auto simp: live_def live_strikes_def lockout_inv_def table_ok_def entry_ok_def strikes_ok_def
      elapsed_def lastStrike_def split: option.splits)

text \<open>
  The three ways an attempt ends: refused because its key is locked, refused because the table is full
  of locked keys, or granted, in a table that may have lost one unlocked entry to make room.
\<close>

lemma tryAttempt_cases:
  assumes inv: "lockout_inv m w cap now l0"
  obtains (locked) l u where "tryAttempt rank k now l0 = ((False, u - now, None), l)" "now < u"
      "lockout_inv m w cap now l" "length (live l0 now k) = m" "\<And>k'. live l now k' = live l0 now k'"
    | (full) l where "tryAttempt rank k now l0 = ((False, w, None), l)" "lockout_inv m w cap now l"
      "live l0 now k = []" "\<And>k'. live l now k' = live l0 now k'"
      "k \<notin> set (keys (lk_entries (sweepIfCrowdedLocked now l0)))"
      "cap \<le> length (lk_entries (sweepIfCrowdedLocked now l0))"
    | (grant) l e where "tryAttempt rank k now l0 = (granted_attempt k now, spend k now e l)"
      "lockout_inv m w cap now l" "ent_strikes e = live l0 now k" "length (live l0 now k) < m" "ent_lockedUntil e = None"
      "k \<in> set (keys (lk_entries l)) \<or> length (lk_entries l) < cap"
      "\<And>k'. live l now k' = live l0 now k' \<or> live l now k' = [] \<and> length (live l0 now k') < m \<and> k' \<noteq> k \<and>
           k \<notin> set (keys (lk_entries (sweepIfCrowdedLocked now l0))) \<and>
           cap \<le> length (lk_entries (sweepIfCrowdedLocked now l0))"
proof -
  let ?l = "sweepIfCrowdedLocked now l0"
  let ?fresh = "\<lparr>ent_strikes = [], ent_lockedUntil = None\<rparr>"
  note inv' = sweep_inv [OF inv] and live = sweep_live [OF inv]
  have f: "lk_hardCap ?l = cap" "lk_lockoutFor ?l = w" and tab: "table_ok m w now (lk_entries ?l)" and m: "0 < m"
    and lf: "lk_lockoutFor l0 = w"
    using inv inv' by (simp_all add: lockout_inv_def)
  show thesis
  proof (cases "map_of (lk_entries ?l) k")
    case None
    then have "live ?l now k = []" by (simp add: live_def live_strikes_def)
    with None have k: "live l0 now k = []" "k \<notin> set (keys (lk_entries ?l))"
      using live [of k] by (simp_all add: map_of_None)
    show thesis
    proof (cases "length (lk_entries ?l) \<ge> cap")
      case False
      with None k m f show thesis
        by (intro grant [of ?fresh ?l]) (simp_all add: tryAttempt_def Let_def inv' live)
    next
      case True
      let ?s = "?l\<lparr>lk_saturated := True\<rparr>"
      have d: "distinct (keys (lk_entries ?s))" using tab by (simp add: table_ok_def)
      have s: "lockout_inv m w cap now ?s" "\<And>k'. live ?s now k' = live l0 now k'"
        using inv' live by (simp_all add: lockout_inv_def live_def)
      show thesis
      proof (cases rule: evict_cases [OF d, of rank now])
        case 1
        with True None k f s show thesis
          by (intro full [of ?s]) (simp_all add: tryAttempt_def Let_def)
      next
        case (2 v e)
        let ?d = "?s\<lparr>lk_entries := AList.delete v (lk_entries ?s)\<rparr>"
        have v: "v \<in> set (keys (lk_entries ?s))" using 2(2) map_of_SomeE by metis
        then have len: "length (AList.delete v (lk_entries ?l)) < cap"
          using length_delete_present [OF d v] s(1) by (simp add: lockout_inv_def)
        then have "lockout_inv m w cap now ?d"
          using s(1) table_ok_delete by (simp add: lockout_inv_def)
        moreover have "entry_ok m w now e" using 2(2) tab by (simp add: table_ok_def)
        then have "length (live l0 now v) < m"
          using s(2) [of v] 2(2,3) m f lf entry_ok_locked [of m w now e]
          by (auto simp: live_def live_strikes_def entry_ok_def)
        ultimately show thesis
          using True None k f 2 m len s(2) v
          by (intro grant [of ?fresh ?d]) (auto simp: tryAttempt_def Let_def live_def live_strikes_def table)
      qed
    qed
  next
    case (Some e)
    then have e: "entry_ok m w now e" using tab by (simp add: table_ok_def)
    have "live ?l now k = (if elapsed now (lastStrike e) w then [] else ent_strikes e)"
      using Some f by (simp add: live_def live_strikes_def)
    with Some have k: "live l0 now k = (if elapsed now (lastStrike e) w then [] else ent_strikes e)"
      "k \<in> set (keys (lk_entries ?l))"
      using live [of k] map_of_SomeE [of "lk_entries ?l"] by auto
    show thesis
    proof (cases "now_before now (ent_lockedUntil e)")
      case True
      then obtain u where u: "ent_lockedUntil e = Some u" "now < u" by (auto simp: now_before_def split: option.splits)
      from True entry_ok_locked(1) [OF e] k have "length (live l0 now k) = m" by simp
      with Some True u show thesis
        by (intro locked [of u ?l]) (simp_all add: tryAttempt_def Let_def inv' live)
    next
      case False
      note el = entry_ok_locked [OF e]
      let ?e = "if ent_lockedUntil e \<noteq> None then ?fresh
        else if elapsed now (lastStrike e) w then e\<lparr>ent_strikes := []\<rparr> else e"
      have "tryAttempt rank k now l0 = (granted_attempt k now, spend k now ?e ?l)"
        using Some False f by (simp add: tryAttempt_def Let_def)
      moreover have "ent_strikes ?e = live l0 now k" "ent_lockedUntil ?e = None" "length (live l0 now k) < m"
        using False el k m e by (auto simp: entry_ok_def)
      ultimately show thesis using k by (intro grant [of ?e ?l]) (simp_all add: inv' live)
    qed
  qed
qed


lemma spend_live:
  "0 < lk_lockoutFor l \<Longrightarrow> live (spend k now e l) now k' = (if k' = k then ent_strikes e @ [now] else live l now k')"
  by (simp add: live_def live_strikes_def spend_def Let_def table elapsed_def lastStrike_def)

lemma grant_inv:
  assumes "lockout_inv m w cap now l0" "lockout_inv m w cap now l" and "ent_strikes e = live l0 now k"
    and "length (live l0 now k) < m" and "ent_lockedUntil e = None"
    and "k \<in> set (keys (lk_entries l)) \<or> length (lk_entries l) < cap"
  shows "lockout_inv m w cap now (spend k now e l)"
  by (rule spend_inv [OF assms(2)]) (use assms live_ok [OF assms(1), of k] in auto)

lemma tryAttempt_inv:
  assumes inv: "lockout_inv m w cap now l0"
  shows "lockout_inv m w cap now (snd (tryAttempt rank k now l0))"
  using inv by (rule tryAttempt_cases [where rank = rank and k = k]) (simp_all add: grant_inv [OF inv])

subsection \<open>Refunds\<close>

lemma recent_rev_props:
  "successively (\<lambda>x y. x - y < w) (recent_rev w xs)" "prefix (recent_rev w xs) xs" "recent_rev w xs = [] \<longleftrightarrow> xs = []"
proof -
  have hd: "\<exists>ys. recent_rev w (y # xs) = y # ys" for w y xs by (cases xs) auto
  show "successively (\<lambda>x y. x - y < w) (recent_rev w xs)"
  proof (induction w xs rule: recent_rev.induct)
    case (1 w x y xs)
    moreover obtain ys where "recent_rev w (y # xs) = y # ys" using hd by blast
    ultimately show ?case by simp
  qed simp_all
qed (induction w xs rule: recent_rev.induct; auto)+

lemma recent_rev_id: "successively (\<lambda>x y. x - y < w) xs \<Longrightarrow> recent_rev w xs = xs"
  by (induction w xs rule: recent_rev.induct) auto

lemma recent_ok:
  assumes "sorted xs" "\<forall>s \<in> set xs. s \<le> now"
  shows "strikes_ok w now (recent w xs)" and "length (recent w xs) \<le> length xs" and "recent w xs = [] \<longleftrightarrow> xs = []"
proof -
  have suf: "suffix (recent w xs) xs"
    using recent_rev_props(2) [of w "rev xs"] by (simp add: recent_def suffix_to_prefix)
  then obtain zs where zs: "xs = zs @ recent w xs" by (auto simp: suffix_def)
  have "successively (\<lambda>x y. y - x < w) (recent w xs)"
    using recent_rev_props(1) [of w "rev xs"] by (simp add: recent_def successively_rev)
  moreover have "sorted (recent w xs)" "\<forall>s \<in> set (recent w xs). s \<le> now"
    using assms zs by (metis sorted_append, metis UnCI set_append)
  ultimately show "strikes_ok w now (recent w xs)" by (simp add: strikes_ok_def)
  show "length (recent w xs) \<le> length xs" using suf by (rule suffix_length_le)
  show "recent w xs = [] \<longleftrightarrow> xs = []" using recent_rev_props(3) [of w "rev xs"] by (simp add: recent_def)
qed

lemma recent_id: "strikes_ok w now xs \<Longrightarrow> recent w xs = xs"
  using recent_rev_id [of w "rev xs"] by (simp add: recent_def strikes_ok_def successively_rev)

lemma cancelAttempt_inv:
  assumes inv: "lockout_inv m w cap now l"
  shows "lockout_inv m w cap now (cancelAttempt res l)"
proof (cases "map_of (lk_entries l) (res_key res)")
  case None
  with inv show ?thesis by (simp add: cancelAttempt_def)
next
  case (Some e)
  have e: "entry_ok m w now e" using inv Some by (simp add: lockout_inv_def table_ok_def)
  show ?thesis
  proof (cases "res_at res \<in> set (ent_strikes e)")
    case False
    with inv Some show ?thesis by (simp add: cancelAttempt_def)
  next
    case True
    let ?xs = "remove1 (res_at res) (ent_strikes e)"
    let ?e = "\<lparr>ent_strikes = recent w ?xs, ent_lockedUntil = None\<rparr>"
    have xs: "sorted ?xs" "\<forall>s \<in> set ?xs. s \<le> now"
      using e set_remove1_subset [of "res_at res" "ent_strikes e"]
      by (auto simp: entry_ok_def strikes_ok_def sorted_remove1)
    note r = recent_ok [OF xs, of w]
    have len: "length (recent w ?xs) < m"
    proof -
      have "Suc (length ?xs) = length (ent_strikes e)"
        using True length_pos_if_in_set [OF True] by (simp add: length_remove1)
      with r(2) e show ?thesis by (simp add: entry_ok_def)
    qed
    have l: "lk_lockoutFor l = w" "lk_maxFailures l = m" using inv by (simp_all add: lockout_inv_def)
    have c: "cancelAttempt res l = (if recent w ?xs = [] then l\<lparr>lk_entries := AList.delete (res_key res) (lk_entries l)\<rparr>
        else l\<lparr>lk_entries := AList.update (res_key res) ?e (lk_entries l)\<rparr>)"
      using Some True len l by (simp add: cancelAttempt_def Let_def)
    have "entry_ok m w now ?e" if "recent w ?xs \<noteq> []"
      using that r len by (simp add: entry_ok_def)
    moreover have "length (AList.update (res_key res) ?e (lk_entries l)) = length (lk_entries l)"
      using Some by (simp add: length_update_old map_of_SomeE)
    moreover have "length (AList.delete (res_key res) (lk_entries l)) \<le> length (lk_entries l)"
      by (rule length_delete_le)
    ultimately show ?thesis
      unfolding c using inv by (auto simp: lockout_inv_def table_ok_update table_ok_delete)
  qed
qed

section \<open>Runs\<close>

datatype lockout_op = Attempt "string \<Rightarrow> nat" string | Cancel lockout_reservation | Success string

definition lockout_step :: "time \<times> lockout_op \<Rightarrow> failure_lockout \<Rightarrow> bool \<times> failure_lockout" where
  "lockout_step x l =
     (case x of
        (now, Attempt rank k) \<Rightarrow> (case tryAttempt rank k now l of ((ok, _), l') \<Rightarrow> (ok, l'))
      | (now, Cancel res) \<Rightarrow> (False, cancelAttempt res l)
      | (now, Success k) \<Rightarrow> (False, recordSuccess k l))"

lemma lockout_step_simps [simp]:
  "lockout_step (now, Attempt rank k) l = (fst (fst (tryAttempt rank k now l)), snd (tryAttempt rank k now l))"
  "lockout_step (now, Cancel res) l = (False, cancelAttempt res l)"
  "lockout_step (now, Success k) l = (False, recordSuccess k l)"
  by (simp_all add: lockout_step_def split: prod.splits)

lemma recordSuccess_inv: "lockout_inv m w cap now l \<Longrightarrow> lockout_inv m w cap now (recordSuccess k l)"
  using length_delete_le [of k "lk_entries l"] by (auto simp: lockout_inv_def recordSuccess_def table_ok_delete)

interpretation lockout: timed_system "lockout_inv m w cap" lockout_step for m w cap
proof
  fix now s t op
  assume inv: "lockout_inv m w cap now s"
  show "now \<le> t \<Longrightarrow> lockout_inv m w cap t s" using lockout_inv_later [OF inv] .
  show "lockout_inv m w cap now (snd (lockout_step (now, op) s))"
    using tryAttempt_inv [OF inv] cancelAttempt_inv [OF inv] recordSuccess_inv [OF inv] by (cases op) simp_all
qed

lemma new_lockout_inv:
  "0 < m \<Longrightarrow> 0 < w \<Longrightarrow> 0 < cap \<Longrightarrow> lockout_inv m w cap t (newFailureLockoutSized m w th cap)"
  by (simp add: lockout_inv_def newFailureLockoutSized_def table_ok_def)


section \<open>The strike budget\<close>

subsection \<open>Keys of the table\<close>

lemma keys_delete_subset: "set (keys (AList.delete k es)) \<subseteq> set (keys es)"
  using dom_delete_subset [of k es] by (simp add: keys_def)

lemma spend_keys: "set (keys (lk_entries (spend k now e l))) = insert k (set (keys (lk_entries l)))"
  by (simp add: spend_def Let_def table)

lemma tryAttempt_keys:
  assumes inv: "lockout_inv m w cap now l"
  shows "set (keys (lk_entries (snd (tryAttempt rank k now l)))) \<subseteq> insert k (set (keys (lk_entries l)))"
proof -
  let ?l = "sweepIfCrowdedLocked now l"
  have d: "distinct (keys (lk_entries (?l\<lparr>lk_saturated := True\<rparr>)))"
    using sweep_inv [OF inv] by (simp add: lockout_inv_def table_ok_def)
  show ?thesis
    using sweep_keys [of now l] keys_delete_subset [of _ "lk_entries ?l"]
    by (cases rule: evict_cases [OF d, of rank now])
      (auto simp: tryAttempt_def Let_def spend_keys split: option.splits dest: subsetD)
qed

lemma step_keys:
  assumes "lockout_inv m w cap now l"
  shows "set (keys (lk_entries (snd (lockout_step (now, op) l)))) \<subseteq>
    set (keys (lk_entries l)) \<union> (case op of Attempt _ k \<Rightarrow> {k} | _ \<Rightarrow> {})"
proof (cases op)
  case (Attempt rank k)
  with tryAttempt_keys [OF assms] show ?thesis by auto
next
  case (Cancel res)
  have "set (keys (lk_entries (cancelAttempt res l))) \<subseteq> set (keys (lk_entries l))"
    using keys_delete_subset [of _ "lk_entries l"]
    by (auto simp: cancelAttempt_def Let_def table map_of_SomeE split: option.splits dest: subsetD)
  with Cancel show ?thesis by simp
next
  case (Success k)
  then show ?thesis using keys_delete_subset by (simp add: recordSuccess_def)
qed

text \<open>With room for every key there is no eviction, and a step touches the strikes of its own key only.\<close>

definition op_key :: "lockout_op \<Rightarrow> string" where
  "op_key op = (case op of Attempt _ k \<Rightarrow> k | Cancel res \<Rightarrow> res_key res | Success k \<Rightarrow> k)"

lemma attempt_with_room:
  assumes inv: "lockout_inv m w cap now l" and K: "set (keys (lk_entries l)) \<subseteq> K" "k \<in> K" "finite K" "card K \<le> cap"
  shows "fst (fst (tryAttempt rank k now l)) \<longleftrightarrow> length (live l now k) < m"
    and "live (snd (tryAttempt rank k now l)) now k' =
           (if k' = k \<and> length (live l now k) < m then live l now k @ [now] else live l now k')"
proof -
  let ?l = "sweepIfCrowdedLocked now l"
  have sub: "set (keys (lk_entries ?l)) \<subseteq> K" using sweep_keys K(1) by blast
  have d: "distinct (keys (lk_entries ?l))" using sweep_inv [OF inv] by (simp add: lockout_inv_def table_ok_def)
  have room: "length (lk_entries ?l) < cap" if "k \<notin> set (keys (lk_entries ?l))"
  proof -
    have "length (lk_entries ?l) \<le> card (K - {k})" using length_le_card [OF d, of "K - {k}"] sub that K(3) by auto
    with K show ?thesis by (metis card_Diff1_less order_less_le_trans order_le_less_trans)
  qed
  have w: "0 < w" "0 < m" using inv by (simp_all add: lockout_inv_def)
  have "(fst (fst (tryAttempt rank k now l)) \<longleftrightarrow> length (live l now k) < m) \<and>
    live (snd (tryAttempt rank k now l)) now k' =
           (if k' = k \<and> length (live l now k) < m then live l now k @ [now] else live l now k')"
    using inv
  proof (rule tryAttempt_cases [where rank = rank and k = k])
    fix l' e
    assume g: "tryAttempt rank k now l = (granted_attempt k now, spend k now e l')" "lockout_inv m w cap now l'"
      "ent_strikes e = live l now k" "length (live l now k) < m"
      and other: "\<And>k'. live l' now k' = live l now k' \<or> live l' now k' = [] \<and> length (live l now k') < m \<and> k' \<noteq> k \<and>
           k \<notin> set (keys (lk_entries ?l)) \<and> cap \<le> length (lk_entries ?l)"
    from other [of k'] room have "live l' now k' = live l now k'" by auto
    with g w show ?thesis by (simp add: spend_live granted_attempt_def lockout_inv_def)
  qed (use room in auto)
  then show "fst (fst (tryAttempt rank k now l)) \<longleftrightarrow> length (live l now k) < m"
    and "live (snd (tryAttempt rank k now l)) now k' =
           (if k' = k \<and> length (live l now k) < m then live l now k @ [now] else live l now k')" by simp_all
qed


lemma other_key_live:
  assumes inv: "lockout_inv m w cap now l" and K: "set (keys (lk_entries l)) \<subseteq> K" "op_key op \<in> K" "finite K" "card K \<le> cap"
    and "op_key op \<noteq> k"
  shows "live (snd (lockout_step (now, op) l)) now k = live l now k"
proof (cases op)
  case (Attempt rank k')
  with assms attempt_with_room(2) [OF inv K(1), of k' rank k] show ?thesis by (simp add: op_key_def)
next
  case (Cancel res)
  with assms show ?thesis
    by (auto simp: cancelAttempt_def Let_def live_def table op_key_def split: option.splits)
next
  case (Success k')
  with assms show ?thesis by (simp add: recordSuccess_def live_def table op_key_def)
qed

subsection \<open>Histories\<close>

text \<open>
  \<open>h\<close> are the times of all granted attempts of a key: the live strikes are its newest part, and what
  came before is at least a window older.
\<close>

definition hist_ok :: "duration \<Rightarrow> time \<Rightarrow> time list \<Rightarrow> time list \<Rightarrow> bool" where
  "hist_ok w now h s \<longleftrightarrow>
     sorted h \<and> (\<forall>x \<in> set h. x \<le> now) \<and>
     (\<exists>old. h = old @ s \<and> (old \<noteq> [] \<longrightarrow> last old + w \<le> (if s = [] then now else hd s)))"

definition spaced :: "nat \<Rightarrow> duration \<Rightarrow> time list \<Rightarrow> bool" where
  "spaced m w h \<longleftrightarrow> (\<forall>i. i + m < length h \<longrightarrow> h ! i + w \<le> h ! (i + m))"

lemma hist_grant: "hist_ok w now h s \<Longrightarrow> hist_ok w now (h @ [now]) (s @ [now])"
  unfolding hist_ok_def by (cases s) (auto simp: sorted_append)

lemma spaced_grant:
  assumes "hist_ok w now h s" and "spaced m w h" and "length s < m"
  shows "spaced m w (h @ [now])"
  unfolding spaced_def
proof (intro allI impI)
  fix i assume i: "i + m < length (h @ [now])"
  show "(h @ [now]) ! i + w \<le> (h @ [now]) ! (i + m)"
  proof (cases "i + m < length h")
    case True
    with assms(2) show ?thesis by (simp add: spaced_def nth_append)
  next
    case False
    with i have im: "i + m = length h" by simp
    from assms(1) obtain old where old: "h = old @ s" "old \<noteq> [] \<longrightarrow> last old + w \<le> (if s = [] then now else hd s)"
      and h: "sorted h" "\<forall>x \<in> set h. x \<le> now" by (auto simp: hist_ok_def)
    from im old(1) assms(3) have "i < length old" by simp
    then have "old ! i \<le> last old"
      using h(1) old(1) sorted_nth_mono [of old i "length old - 1"] by (cases old) (auto simp: sorted_append last_conv_nth)
    moreover have "last old + w \<le> now"
      using old h(2) \<open>i < length old\<close> by (cases s) (auto split: if_splits)
    ultimately show ?thesis using im \<open>i < length old\<close> old(1) by (simp add: nth_append)
  qed
qed

lemma live_later:
  assumes "lockout_inv m w cap now l" and "now \<le> t"
  shows "live l t k = live l now k \<or> live l t k = [] \<and> last (live l now k) + w \<le> t"
  using assms
  by (auto simp: live_def live_strikes_def elapsed_def lastStrike_def lockout_inv_def table_ok_def entry_ok_def
      split: option.splits)

lemma hist_later:
  assumes "hist_ok w now h (live l now k)" and "lockout_inv m w cap now l" and "now \<le> t"
  shows "hist_ok w t h (live l t k)"
proof (cases "live l t k = live l now k")
  case True
  with assms(1,3) show ?thesis by (fastforce simp: hist_ok_def split: if_splits)
next
  case False
  with live_later [OF assms(2,3), of k] have n: "live l t k = []" "last (live l now k) + w \<le> t" "live l now k \<noteq> []"
    by auto
  from assms(1) have "h \<noteq> [] \<longrightarrow> last h + w \<le> t" using n by (auto simp: hist_ok_def)
  with assms(1,3) n(1) show ?thesis unfolding hist_ok_def by force
qed

definition is_attempt :: "string \<Rightarrow> lockout_op \<Rightarrow> bool" where
  "is_attempt k op = (case op of Attempt _ k' \<Rightarrow> k' = k | _ \<Rightarrow> False)"

lemma is_attempt_iff: "is_attempt k op \<longleftrightarrow> (\<exists>rank. op = Attempt rank k)"
  by (auto simp: is_attempt_def split: lockout_op.splits)

definition accepted :: "string \<Rightarrow> (time \<times> lockout_op) list \<Rightarrow> bool list \<Rightarrow> time list" where
  "accepted k ops answers =
     map (fst \<circ> fst) (filter (\<lambda>((t, op), b). is_attempt k op \<and> b) (zip ops answers))"

definition attempts_only :: "string \<Rightarrow> lockout_op \<Rightarrow> bool" where
  "attempts_only k op \<longleftrightarrow> op_key op = k \<longrightarrow> (case op of Attempt _ _ \<Rightarrow> True | _ \<Rightarrow> False)"

lemma run_spaced:
  assumes "lockout_inv m w cap t0 l" and "set (keys (lk_entries l)) \<subseteq> K" "finite K" "card K \<le> cap" "k \<in> K"
    and "sorted (map fst ops)" "\<forall>(t, op) \<in> set ops. t0 \<le> t \<and> op_key op \<in> K \<and> attempts_only k op"
    and "hist_ok w t0 h (live l t0 k)" "spaced m w h"
  shows "spaced m w (h @ accepted k ops (fst (run_calls lockout_step ops l)))"
  using assms
proof (induction ops arbitrary: l t0 h)
  case Nil
  then show ?case by (simp add: accepted_def)
next
  case (Cons o1 ops)
  obtain t op where o1: "o1 = (t, op)" by (cases o1)
  have t: "t0 \<le> t" "op_key op \<in> K" "attempts_only k op" using Cons.prems(7) o1 by auto
  note inv = lockout_inv_later [OF Cons.prems(1) t(1)]
  let ?l = "snd (lockout_step (t, op) l)" and ?b = "fst (lockout_step (t, op) l)"
  let ?h = "h @ (if (\<exists>rank. op = Attempt rank k) \<and> ?b then [t] else [])"
  have hist: "hist_ok w t h (live l t k)" by (rule hist_later [OF Cons.prems(8,1) t(1)])
  have "hist_ok w t ?h (live ?l t k) \<and> spaced m w ?h"
  proof (cases "op_key op = k")
    case True
    with t(3) obtain rank where op: "op = Attempt rank k" by (auto simp: attempts_only_def op_key_def split: lockout_op.splits)
    note a = attempt_with_room [OF inv Cons.prems(2,5,3,4), of rank]
    show ?thesis
      using a(1) a(2) [of k] hist hist_grant [OF hist] spaced_grant [OF hist Cons.prems(9)] Cons.prems(9)
      by (cases "length (live l t k) < m") (simp_all add: op)
  next
    case False
    then have "\<not> (\<exists>rank. op = Attempt rank k)" by (auto simp: op_key_def)
    with other_key_live [OF inv Cons.prems(2) t(2) Cons.prems(3,4) False] hist Cons.prems(9) show ?thesis by simp
  qed
  moreover have "set (keys (lk_entries ?l)) \<subseteq> K"
    using step_keys [OF inv, of op] Cons.prems(2) t(2) by (auto simp: op_key_def split: lockout_op.splits)
  moreover have "\<forall>(t', op) \<in> set ops. t \<le> t' \<and> op_key op \<in> K \<and> attempts_only k op"
    using Cons.prems(6,7) o1 by auto
  ultimately have "spaced m w (?h @ accepted k ops (fst (run_calls lockout_step ops ?l)))"
    using Cons.IH [of t ?l ?h] lockout.step_inv [OF inv] Cons.prems(3-6) by (simp add: o1)
  moreover have "accepted k (o1 # ops) (fst (run_calls lockout_step (o1 # ops) l)) =
      (if (\<exists>rank. op = Attempt rank k) \<and> ?b then [t] else []) @ accepted k ops (fst (run_calls lockout_step ops ?l))"
    by (simp add: accepted_def run_calls_Cons is_attempt_iff o1 del: run_calls.simps lockout_step_simps)
  ultimately show ?case by (simp del: lockout_step_simps)
qed


subsection \<open>Locked keys\<close>

lemma lockedFor_entry:
  assumes "lockout_inv m w cap now l"
  shows "0 < lockedFor k now l \<longleftrightarrow> (\<exists>e. map_of (lk_entries l) k = Some e \<and> now_before now (ent_lockedUntil e))"
  by (auto simp: lockedFor_def now_before_def split: option.splits)

lemma locked_entry_kept:
  assumes inv: "lockout_inv m w cap now l" and e: "map_of (lk_entries l) k = Some e" "now_before now (ent_lockedUntil e)"
    and op: "attempts_only k op"
  shows "map_of (lk_entries (snd (lockout_step (now, op) l))) k = Some e"
    and "op_key op = k \<Longrightarrow> \<not> fst (lockout_step (now, op) l)"
proof -
  let ?l = "sweepIfCrowdedLocked now l"
  have sw: "map_of (lk_entries ?l) k = Some e" using sweep_entry [OF inv, of k] e by (auto simp: stale_def)
  have d: "distinct (keys (lk_entries (?l\<lparr>lk_saturated := True\<rparr>)))"
    using sweep_inv [OF inv] by (simp add: lockout_inv_def table_ok_def)
  show "map_of (lk_entries (snd (lockout_step (now, op) l))) k = Some e"
  proof (cases op)
    case (Attempt rank k')
    then show ?thesis
      using sw e by (cases rule: evict_cases [OF d, of rank now])
        (auto simp: tryAttempt_def Let_def spend_def table split: option.splits)
  next
    case (Cancel res)
    with op e show ?thesis
      by (auto simp: attempts_only_def op_key_def cancelAttempt_def Let_def table split: option.splits)
  next
    case (Success k')
    with op e show ?thesis by (simp add: attempts_only_def op_key_def recordSuccess_def table)
  qed
  show "\<not> fst (lockout_step (now, op) l)" if "op_key op = k"
    using that op sw e by (cases op) (auto simp: attempts_only_def op_key_def tryAttempt_def Let_def)
qed

subsection \<open>Refunded attempts\<close>

definition still :: "duration \<Rightarrow> time \<Rightarrow> time list \<Rightarrow> time list" where
  "still w t s = (if s = [] \<or> t - last s \<ge> w then [] else s)"

lemma live_still:
  assumes "lockout_inv m w cap now l" and "now \<le> t"
  shows "live l t k = still w t (live l now k)"
  using assms
  by (auto simp: still_def live_def live_strikes_def elapsed_def lastStrike_def lockout_inv_def table_ok_def entry_ok_def
      split: option.splits)

lemma remove1_newest: "sorted xs \<Longrightarrow> \<forall>x \<in> set xs. x \<le> now \<Longrightarrow> remove1 now (xs @ [now]) = (xs :: time list)"
  using properties_for_sort [of "remove1 now (xs @ [now])" xs] sorted_remove1 [of "xs @ [now]" now]
  by (simp add: sorted_append sorted_sort_id)

lemma cancel_spent_live:
  assumes inv: "lockout_inv m w cap now l" and s: "live l now k = xs @ [now]" and xs: "strikes_ok w now xs"
    and fresh: "xs \<noteq> [] \<Longrightarrow> now - last xs < w"
  shows "live (cancelAttempt \<lparr>res_key = k, res_at = now\<rparr> l) now k' = (if k' = k then xs else live l now k')"
proof -
  from s obtain e where e: "map_of (lk_entries l) k = Some e" "ent_strikes e = xs @ [now]"
    by (auto simp: live_def live_strikes_def split: option.splits if_splits)
  have l: "lk_lockoutFor l = w" using inv by (simp add: lockout_inv_def)
  have r: "recent w (remove1 now (ent_strikes e)) = xs"
    using xs e(2) by (simp add: remove1_newest strikes_ok_def recent_id [OF xs])
  show ?thesis
  proof (cases "k' = k")
    case True
    with e r fresh l show ?thesis
      by (cases "xs = []") (auto simp: cancelAttempt_def Let_def live_def live_strikes_def table elapsed_def lastStrike_def)
  next
    case False
    with e l show ?thesis by (auto simp: cancelAttempt_def Let_def live_def table)
  qed
qed

lemma recordSuccess_live: "live (recordSuccess k l) t k' = (if k' = k then [] else live l t k')"
  by (simp add: recordSuccess_def live_def live_strikes_def table)

lemma granted_live:
  assumes inv: "lockout_inv m w cap now l" and "length (lk_entries l) < cap"
    and "tryAttempt rank k now l = (granted_attempt k now, l')"
  shows "live l' now k = live l now k @ [now]"
proof -
  let ?K = "insert k (set (keys (lk_entries l)))"
  have dist: "distinct (keys (lk_entries l))" using inv by (simp add: lockout_inv_def table_ok_def)
  then have "card ?K \<le> cap" using assms(2) distinct_card [OF dist] by (simp add: card_insert_if)
  from attempt_with_room [OF inv subset_insertI insertI1 _ this, where rank = rank] assms(3)
  show ?thesis by (simp add: granted_attempt_def)
qed

lemma refund_live:
  assumes "lockout_inv m w cap now l" and "length (lk_entries l) < cap" and "now \<le> t"
    and "tryAttempt rank k now l = ((True, d, Some res), l')"
  shows "live (cancelAttempt res l') t k' = live l t k'"
proof -
  let ?K = "insert k (set (keys (lk_entries l)))"
  have dist: "distinct (keys (lk_entries l))" using assms(1) by (simp add: lockout_inv_def table_ok_def)
  then have "card ?K \<le> cap" using assms(2) distinct_card [OF dist] by (simp add: card_insert_if)
  note room = attempt_with_room [OF assms(1) subset_insertI insertI1 _ this, where rank = rank, unfolded assms(4), simplified]
  have res: "res = \<lparr>res_key = k, res_at = now\<rparr>"
    using assms(1,4) by (rule_tac tryAttempt_cases [of m w cap now l rank k]) (auto simp: granted_attempt_def)
  have inv': "lockout_inv m w cap now l'" using tryAttempt_inv [OF assms(1), of rank k] assms(4) by simp
  have "live (cancelAttempt res l') now k' = live l now k'"
    unfolding res using room cancel_spent_live [OF inv' _ live_ok(1,3) [OF assms(1), of k]] by simp
  with live_still [OF cancelAttempt_inv [OF inv', of res] assms(3), of k'] live_still [OF assms(1,3), of k']
  show ?thesis by simp
qed

section \<open>Properties\<close>

text \<open>
  C22: The strike budget holds against any timing. In any run of a fresh table, attempts on any keys in
  time order interleaved with refunds and successes of other keys, the granted attempts on a key that
  are neither refunded nor successful are spaced so that any \<open>maxFailures + 1\<close> of them span at least
  \<open>lockoutFor\<close>, as long as the run uses no more keys than the table's hard cap. So no window of that
  length ever sees more than \<open>maxFailures\<close> guesses.
\<close>

theorem lockout_budget:
  assumes "0 < m" and "0 < w" and "0 < cap" and "sorted (map fst ops)"
    and "card (op_key ` snd ` set ops) \<le> cap" and "\<forall>(t, op) \<in> set ops. attempts_only k op"
    and "i + m < length (accepted k ops (fst (run_calls lockout_step ops (newFailureLockoutSized m w th cap))))"
  shows "accepted k ops (fst (run_calls lockout_step ops (newFailureLockoutSized m w th cap))) ! i + w
         \<le> accepted k ops (fst (run_calls lockout_step ops (newFailureLockoutSized m w th cap))) ! (i + m)"
proof (cases "k \<in> op_key ` snd ` set ops")
  case True
  let ?l = "newFailureLockoutSized m w th cap" and ?K = "op_key ` snd ` set ops"
  obtain t0 t1 where "\<forall>(t, op) \<in> set ops. t0 \<le> t \<and> t \<le> t1" by (rule time_bounds)
  with assms(6) have "\<forall>(t, op) \<in> set ops. t0 \<le> t \<and> op_key op \<in> ?K \<and> attempts_only k op" by force
  moreover have "live ?l t0 k = []" by (simp add: live_def live_strikes_def newFailureLockoutSized_def)
  ultimately have "spaced m w ([] @ accepted k ops (fst (run_calls lockout_step ops ?l)))"
    using assms True
    by (intro run_spaced [of m w cap t0 ?l ?K k ops "[]"] new_lockout_inv)
      (simp_all add: hist_ok_def spaced_def newFailureLockoutSized_def)
  with assms(7) show ?thesis by (simp add: spaced_def)
next
  case False
  have "filter (\<lambda>((t, op), b). is_attempt k op \<and> b) (zip ops bs) = []" for bs
  proof (rule ccontr)
    assume "\<not> ?thesis"
    then obtain t op b where "((t, op), b) \<in> set (zip ops bs)" "\<exists>rank. op = Attempt rank k"
      by (auto simp: filter_empty_conv is_attempt_iff)
    then have "(t, op) \<in> set ops" "op_key op = k" by (auto simp: op_key_def dest: set_zip_leftD)
    with False show False by force
  qed
  with assms(7) show ?thesis by (simp add: accepted_def)
qed

abbreviation any_rank :: "string \<Rightarrow> nat" where "any_rank \<equiv> \<lambda>_. 0"

definition guesses :: "(time \<times> lockout_op) list" where
  "guesses = [(0, Attempt any_rank ''a''), (1, Attempt any_rank ''b''), (5, Attempt any_rank ''a''), (6, Attempt any_rank ''a''),
              (20, Attempt any_rank ''a''), (21, Success ''b'')]"

theorem lockout_budget_witness:
  "accepted ''a'' guesses (fst (run_calls lockout_step guesses (newFailureLockoutSized 2 10 4 4))) ! 0 + 10
   \<le> accepted ''a'' guesses (fst (run_calls lockout_step guesses (newFailureLockoutSized 2 10 4 4))) ! (0 + 2)"
proof -
  let ?as = "accepted ''a'' guesses (fst (run_calls lockout_step guesses (newFailureLockoutSized 2 10 4 4)))"
  have acc: "?as = [0, 5, 20]"
    by code_simp
  have "card (op_key ` snd ` set guesses) \<le> 4" by (simp add: guesses_def op_key_def card_insert_if)
  moreover have "sorted (map fst guesses)" "\<forall>(t, op) \<in> set guesses. attempts_only ''a'' op"
    by (simp_all add: guesses_def attempts_only_def op_key_def)
  ultimately show ?thesis by (intro lockout_budget) (simp_all only: acc, simp_all)
qed

text \<open>
  A live lockout is never forgiven. As long as a key is locked, no attempt, sweep, eviction, refund
  or success of another key shortens its lockout, and every attempt on the key itself is refused.
\<close>

theorem live_lockout_persists:
  assumes "lockout_inv m w cap now l" and "0 < lockedFor k now l" and "attempts_only k op"
  shows "lockedFor k now (snd (lockout_step (now, op) l)) = lockedFor k now l \<and>
         (op_key op = k \<longrightarrow> \<not> fst (lockout_step (now, op) l))"
proof -
  from assms(2) obtain e where e: "map_of (lk_entries l) k = Some e" "now_before now (ent_lockedUntil e)"
    using lockedFor_entry [OF assms(1)] by blast
  from locked_entry_kept [OF assms(1) e assms(3)] e(1) show ?thesis by (simp add: lockedFor_def)
qed

definition locked_table :: failure_lockout where
  "locked_table = snd (tryAttempt any_rank ''a'' 5 (snd (tryAttempt any_rank ''a'' 0 (newFailureLockoutSized 2 10 4 4))))"

lemma locked_table_inv: "lockout_inv 2 10 4 5 locked_table"
  unfolding locked_table_def
  by (intro tryAttempt_inv lockout_inv_later [OF tryAttempt_inv [OF new_lockout_inv]]) simp_all

theorem live_lockout_persists_witness: "\<not> fst (lockout_step (5, Attempt any_rank ''a'') locked_table)"
proof -
  have "0 < lockedFor ''a'' 5 locked_table"
    by (simp add: locked_table_def newFailureLockoutSized_def tryAttempt_def sweepIfCrowdedLocked_def Let_def spend_def
        granted_attempt_def now_before_def elapsed_def lastStrike_def lockedFor_def)
  moreover have "attempts_only ''a'' (Attempt any_rank ''a'')" by (simp add: attempts_only_def)
  ultimately show ?thesis using live_lockout_persists [OF locked_table_inv, of "''a''" "Attempt any_rank ''a''"] by (simp add: op_key_def)
qed

text \<open>
  A refund takes back exactly its own strike. When a granted attempt is cancelled before the key is
  used again, every key counts at every later time the strikes it would count had the attempt not been
  made.
\<close>

theorem refund_exact:
  assumes "lockout_inv m w cap now l" and "length (lk_entries l) < cap" and "now \<le> t"
    and "tryAttempt rank k now l = ((True, d, Some res), l')"
  shows "live (cancelAttempt res l') t k' = live l t k'"
  using assms by (rule refund_live)

theorem refund_exact_witness:
  "live (cancelAttempt \<lparr>res_key = ''b'', res_at = 5\<rparr> (snd (tryAttempt any_rank ''b'' 5 locked_table))) 9 ''a'' = live locked_table 9 ''a''"
proof -
  have len: "length (lk_entries locked_table) < 4" and
    "\<exists>l'. tryAttempt any_rank ''b'' 5 locked_table = ((True, 0, Some \<lparr>res_key = ''b'', res_at = 5\<rparr>), l')"
    by (simp_all add: locked_table_def newFailureLockoutSized_def tryAttempt_def sweepIfCrowdedLocked_def Let_def spend_def
        granted_attempt_def now_before_def elapsed_def lastStrike_def)
  then obtain l' where r: "tryAttempt any_rank ''b'' 5 locked_table = ((True, 0, Some \<lparr>res_key = ''b'', res_at = 5\<rparr>), l')" by blast
  from refund_exact [OF locked_table_inv len _ r, of 9 "''a''"] show ?thesis unfolding r by simp
qed

text \<open>
  The table is bounded. After any run of a fresh table it holds at most \<open>hardCap\<close> keys, and no key
  has more than \<open>maxFailures\<close> strikes.
\<close>

theorem lockout_table_bounded:
  assumes "0 < m" and "0 < w" and "0 < cap" and "sorted (map fst ops)"
    and "snd (run_calls lockout_step ops (newFailureLockoutSized m w th cap)) = l"
  shows "length (lk_entries l) \<le> cap \<and>
         (\<forall>k e. map_of (lk_entries l) k = Some e \<longrightarrow> length (ent_strikes e) \<le> m)"
proof -
  obtain t0 t1 where "\<forall>(t, op) \<in> set ops. t0 \<le> t \<and> t \<le> t1" "t0 \<le> t1" by (rule time_bounds)
  from lockout.run_inv [OF new_lockout_inv assms(4) this] assms have "lockout_inv m w cap t1 l" by blast
  then show ?thesis by (auto simp: lockout_inv_def table_ok_def entry_ok_def)
qed


theorem lockout_table_bounded_witness:
  "length (lk_entries (snd (run_calls lockout_step guesses (newFailureLockoutSized 2 10 4 4)))) \<le> 4"
  using lockout_table_bounded [of 2 10 4 guesses 4, OF _ _ _ _ refl] by (simp add: guesses_def)

end
