(* ===== verification/Pow_Escalation.thy ===== *)
theory Pow_Escalation
  imports Go_Table
begin

text \<open>
  The per-address proof-of-work price of \<open>backend/internal/api/pow_escalation.go\<close>. Every method runs
  under the lock, so a call is one step. The zero \<open>time.Time\<close> is \<open>None\<close>, before every time.
\<close>

section \<open>State and operations\<close>

record pow_entry =
  pe_byAccount :: "nat table"
  pe_expiresAt :: "time option"

record pow_escalation =
  pw_entries :: "pow_entry table"
  pw_sweepThreshold :: nat

definition powEscalationFactor :: int where "powEscalationFactor = 4"
definition powMaxNumberCeiling :: int where "powMaxNumberCeiling = 1000000"
definition powEscalationDecay :: duration where "powEscalationDecay = 15 * minute"
definition powEscalationSweepThreshold :: nat where "powEscalationSweepThreshold = 10000"
definition maxPowEscalationAccountsPerIP :: nat where "maxPowEscalationAccountsPerIP = 256"

definition newPowEscalation :: pow_escalation where
  "newPowEscalation = \<lparr>pw_entries = [], pw_sweepThreshold = powEscalationSweepThreshold\<rparr>"

definition now_after :: "time \<Rightarrow> time option \<Rightarrow> bool" where
  "now_after now t = (case t of None \<Rightarrow> True | Some u \<Rightarrow> now > u)"

definition entry_total :: "pow_entry \<Rightarrow> nat" where
  "entry_total e = sum_list (map snd (pe_byAccount e))"

definition sweepExpiredLocked :: "time \<Rightarrow> pow_escalation \<Rightarrow> pow_escalation" where
  "sweepExpiredLocked now p = p\<lparr>pw_entries := drop_if (\<lambda>e. now_after now (pe_expiresAt e)) (pw_entries p)\<rparr>"

definition sweepExpired :: "time \<Rightarrow> pow_escalation \<Rightarrow> pow_escalation" where
  "sweepExpired now p = sweepExpiredLocked now p"

text \<open>The entry a failure is counted in: the live one, or a new one, after a sweep if the table is crowded.\<close>

definition live_entry :: "string \<Rightarrow> time \<Rightarrow> pow_escalation \<Rightarrow> pow_entry option" where
  "live_entry ip now p =
     (case map_of (pw_entries p) ip of
        None \<Rightarrow> None
      | Some e \<Rightarrow> if now_after now (pe_expiresAt e) then None else Some e)"

definition count_failure :: "string \<Rightarrow> time \<Rightarrow> pow_entry \<Rightarrow> pow_entry" where
  "count_failure account now e =
     \<lparr>pe_byAccount =
        (case map_of (pe_byAccount e) account of
           Some n \<Rightarrow> AList.update account (Suc n) (pe_byAccount e)
         | None \<Rightarrow> if length (pe_byAccount e) < maxPowEscalationAccountsPerIP
                   then AList.update account 1 (pe_byAccount e) else pe_byAccount e),
      pe_expiresAt = (if pe_expiresAt e = None then Some (now + powEscalationDecay) else pe_expiresAt e)\<rparr>"

definition recordFailure :: "string \<Rightarrow> string \<Rightarrow> time \<Rightarrow> pow_escalation \<Rightarrow> pow_escalation" where
  "recordFailure ip account now p =
     (let fresh = \<lparr>pe_byAccount = [], pe_expiresAt = None\<rparr>;
          p' = (if map_of (pw_entries p) ip = None \<and> length (pw_entries p) \<ge> pw_sweepThreshold p
                then sweepExpiredLocked now p else p);
          e = (case live_entry ip now p of None \<Rightarrow> fresh | Some e \<Rightarrow> e) in
      p'\<lparr>pw_entries := AList.update ip (count_failure account now e) (pw_entries p')\<rparr>)"

definition clearAccount :: "string \<Rightarrow> string \<Rightarrow> pow_escalation \<Rightarrow> pow_escalation" where
  "clearAccount ip account p =
     (case map_of (pw_entries p) ip of
        None \<Rightarrow> p
      | Some e \<Rightarrow>
          (let by = AList.delete account (pe_byAccount e) in
           if by = [] then p\<lparr>pw_entries := AList.delete ip (pw_entries p)\<rparr>
           else p\<lparr>pw_entries := AList.update ip (e\<lparr>pe_byAccount := by\<rparr>) (pw_entries p)\<rparr>))"

text \<open>The loop of \<open>maxNumberFor\<close>, \<open>n\<close> turns left.\<close>

fun escalate :: "nat \<Rightarrow> int \<Rightarrow> int" where
  "escalate 0 maxNumber = (if maxNumber > powMaxNumberCeiling then powMaxNumberCeiling else maxNumber)"
| "escalate (Suc n) maxNumber =
     (if maxNumber \<ge> powMaxNumberCeiling div powEscalationFactor then powMaxNumberCeiling
      else escalate n (maxNumber * powEscalationFactor))"

definition maxNumberFor :: "string \<Rightarrow> int \<Rightarrow> time \<Rightarrow> pow_escalation \<Rightarrow> int" where
  "maxNumberFor ip base now p =
     (case map_of (pw_entries p) ip of
        None \<Rightarrow> base
      | Some e \<Rightarrow> if now_after now (pe_expiresAt e) then base else escalate (entry_total e) base)"

section \<open>The price\<close>

lemma escalate_eq:
  assumes "0 < base" shows "escalate n base = min powMaxNumberCeiling (base * powEscalationFactor ^ n)"
  using assms
proof (induction n arbitrary: base)
  case 0
  then show ?case by simp
next
  case (Suc n)
  show ?case
  proof (cases "base \<ge> powMaxNumberCeiling div powEscalationFactor")
    case True
    then have "250000 \<le> base" by (simp add: powMaxNumberCeiling_def powEscalationFactor_def)
    moreover have "(1 :: int) \<le> 4 ^ n" by simp
    ultimately have "250000 * 1 \<le> base * 4 ^ n" by (intro mult_mono) simp_all
    with True show ?thesis by (simp add: powMaxNumberCeiling_def powEscalationFactor_def)
  next
    case False
    with Suc show ?thesis by (simp add: powEscalationFactor_def mult.assoc)
  qed
qed

text \<open>The failures that count for an address at a time, of all accounts and of one.\<close>

definition failures :: "string \<Rightarrow> time \<Rightarrow> pow_escalation \<Rightarrow> nat" where
  "failures ip now p = (case live_entry ip now p of None \<Rightarrow> 0 | Some e \<Rightarrow> entry_total e)"

definition account_failures :: "string \<Rightarrow> string \<Rightarrow> time \<Rightarrow> pow_escalation \<Rightarrow> nat" where
  "account_failures ip account now p =
     (case live_entry ip now p of None \<Rightarrow> 0
      | Some e \<Rightarrow> (case map_of (pe_byAccount e) account of None \<Rightarrow> 0 | Some n \<Rightarrow> n))"

lemma maxNumberFor_failures:
  assumes "0 < base" "base \<le> powMaxNumberCeiling"
  shows "maxNumberFor ip base now p = min powMaxNumberCeiling (base * powEscalationFactor ^ failures ip now p)"
  using assms by (auto simp: maxNumberFor_def failures_def live_entry_def escalate_eq split: option.splits)

text \<open>Every counted account has failed at least once, and no account is counted twice.\<close>

definition pow_inv :: "pow_escalation \<Rightarrow> bool" where
  "pow_inv p \<longleftrightarrow>
     distinct (keys (pw_entries p)) \<and>
     (\<forall>ip e. map_of (pw_entries p) ip = Some e \<longrightarrow>
        distinct (keys (pe_byAccount e)) \<and> list_all (\<lambda>n. 0 < n) (map snd (pe_byAccount e)) \<and>
        pe_byAccount e \<noteq> [] \<and> length (pe_byAccount e) \<le> maxPowEscalationAccountsPerIP \<and> pe_expiresAt e \<noteq> None)"

lemma sum_update:
  "distinct (keys es) \<Longrightarrow> map_of es k = Some n \<Longrightarrow> sum_list (map snd (AList.update k v es)) + n = sum_list (map snd es) + (v :: nat)"
  by (induction es) (auto simp: keys_def dest: map_of_SomeD)

lemma sum_update_new: "map_of es k = None \<Longrightarrow> sum_list (map snd (AList.update k v es)) = sum_list (map snd es) + (v :: nat)"
  by (induction es) (auto split: if_splits)

lemma sum_delete:
  "distinct (keys es) \<Longrightarrow>
     sum_list (map snd (AList.delete k es)) + (case map_of es k of None \<Rightarrow> 0 | Some n \<Rightarrow> n) = sum_list (map snd es :: nat list)"
  by (induction es) (auto simp: keys_def delete_id map_of_eq_None_iff split: option.splits)

lemma positive_update: "list_all (\<lambda>n. 0 < n) (map snd es) \<Longrightarrow> 0 < v \<Longrightarrow> list_all (\<lambda>n. 0 < n) (map snd (AList.update k (v :: nat) es))"
  by (induction es) auto

lemma positive_delete: "list_all (\<lambda>n. 0 < n) (map snd es) \<Longrightarrow> list_all (\<lambda>n. 0 < n) (map snd (AList.delete k (es :: nat table)))"
  by (induction es) auto

lemma length_le_sum: "list_all (\<lambda>n. 0 < n) (map snd es) \<Longrightarrow> length es \<le> sum_list (map snd (es :: nat table))"
  by (induction es) auto


definition pow_entry_ok :: "pow_entry \<Rightarrow> bool" where
  "pow_entry_ok e \<longleftrightarrow>
     distinct (keys (pe_byAccount e)) \<and> list_all (\<lambda>n. 0 < n) (map snd (pe_byAccount e)) \<and>
     length (pe_byAccount e) \<le> maxPowEscalationAccountsPerIP"

lemma pow_inv_entry: "pow_inv p \<Longrightarrow> map_of (pw_entries p) ip = Some e \<Longrightarrow> pow_entry_ok e"
  by (simp add: pow_inv_def pow_entry_ok_def)

lemma count_failure_ok:
  assumes "pow_entry_ok e"
  shows "pow_entry_ok (count_failure account now e)" and "pe_byAccount (count_failure account now e) \<noteq> []"
    and "pe_expiresAt (count_failure account now e) \<noteq> None"
    and "entry_total (count_failure account now e) = Suc (entry_total e) \<or>
         entry_total (count_failure account now e) = entry_total e \<and> maxPowEscalationAccountsPerIP \<le> entry_total e"
proof -
  let ?by = "pe_byAccount e"
  have e: "distinct (keys ?by)" "list_all (\<lambda>n. 0 < n) (map snd ?by)" "length ?by \<le> maxPowEscalationAccountsPerIP"
    using assms by (simp_all add: pow_entry_ok_def)
  have full: "?by \<noteq> []" if "\<not> length ?by < maxPowEscalationAccountsPerIP"
    using that by (auto simp: maxPowEscalationAccountsPerIP_def)
  show "pe_byAccount (count_failure account now e) \<noteq> []" "pe_expiresAt (count_failure account now e) \<noteq> None"
    using full by (auto simp: count_failure_def split: option.splits)
  show "pow_entry_ok (count_failure account now e)"
    using e by (auto simp: pow_entry_ok_def count_failure_def positive_update table map_of_None map_of_SomeE split: option.splits)
  show "entry_total (count_failure account now e) = Suc (entry_total e) \<or>
         entry_total (count_failure account now e) = entry_total e \<and> maxPowEscalationAccountsPerIP \<le> entry_total e"
  proof (cases "map_of ?by account")
    case None
    then show ?thesis
      using sum_update_new [OF None, of 1] length_le_sum [OF e(2)] by (auto simp: count_failure_def entry_total_def)
  next
    case (Some n)
    then show ?thesis using sum_update [OF e(1) Some, of "Suc n"] by (simp add: count_failure_def entry_total_def)
  qed
qed

lemma pow_inv_update:
  "pow_inv p \<Longrightarrow> pow_entry_ok e \<Longrightarrow> pe_byAccount e \<noteq> [] \<Longrightarrow> pe_expiresAt e \<noteq> None \<Longrightarrow>
     pow_inv (p\<lparr>pw_entries := AList.update ip e (pw_entries p)\<rparr>)"
  by (auto simp: pow_inv_def pow_entry_ok_def table)

lemma fresh_entry_ok: "pow_entry_ok \<lparr>pe_byAccount = [], pe_expiresAt = None\<rparr>"
  by (simp add: pow_entry_ok_def)

lemma sweepExpired_entry:
  assumes "pow_inv p"
  shows "live_entry ip now (sweepExpiredLocked now p) = live_entry ip now p" and "pow_inv (sweepExpiredLocked now p)"
  using assms
  by (auto simp: pow_inv_def live_entry_def sweepExpiredLocked_def table split: option.splits if_splits)

lemma recordFailure_entry:
  assumes inv: "pow_inv p"
  shows "pow_inv (recordFailure ip account now p)"
    and "live_entry ip' now (recordFailure ip account now p) =
      (if ip' = ip then
         Some (count_failure account now
           (case live_entry ip now p of None \<Rightarrow> \<lparr>pe_byAccount = [], pe_expiresAt = None\<rparr> | Some e \<Rightarrow> e))
       else live_entry ip' now p)"
proof -
  let ?p = "if map_of (pw_entries p) ip = None \<and> length (pw_entries p) \<ge> pw_sweepThreshold p
    then sweepExpiredLocked now p else p"
  let ?e = "case live_entry ip now p of None \<Rightarrow> \<lparr>pe_byAccount = [], pe_expiresAt = None\<rparr> | Some e \<Rightarrow> e"
  have p: "pow_inv ?p" "live_entry ip' now ?p = live_entry ip' now p" for ip'
    using sweepExpired_entry [OF inv] inv by auto
  have e: "pow_entry_ok ?e"
    using pow_inv_entry [OF inv] fresh_entry_ok by (auto simp: live_entry_def split: option.splits)
  have alive: "\<not> now_after now (pe_expiresAt (count_failure account now ?e))"
    by (auto simp: count_failure_def now_after_def powEscalationDecay_def live_entry_def split: option.splits if_splits)
  have r: "recordFailure ip account now p = ?p\<lparr>pw_entries := AList.update ip (count_failure account now ?e) (pw_entries ?p)\<rparr>"
    by (simp add: recordFailure_def Let_def)
  show "pow_inv (recordFailure ip account now p)"
    unfolding r by (rule pow_inv_update [OF p(1) count_failure_ok(1,2,3) [OF e]])
  show "live_entry ip' now (recordFailure ip account now p) = (if ip' = ip then Some (count_failure account now ?e) else live_entry ip' now p)"
    unfolding r using alive p(2) [of ip'] by (auto simp: live_entry_def table)
qed

lemma recordFailure_failures:
  assumes inv: "pow_inv p"
  shows "failures ip now (recordFailure ip account now p) = Suc (failures ip now p) \<or>
         failures ip now (recordFailure ip account now p) = failures ip now p \<and>
         maxPowEscalationAccountsPerIP \<le> failures ip now p"
    and "ip' \<noteq> ip \<Longrightarrow> failures ip' now (recordFailure ip account now p) = failures ip' now p"
proof -
  let ?e = "case live_entry ip now p of None \<Rightarrow> \<lparr>pe_byAccount = [], pe_expiresAt = None\<rparr> | Some e \<Rightarrow> e"
  have e: "pow_entry_ok ?e"
    using pow_inv_entry [OF inv] fresh_entry_ok by (auto simp: live_entry_def split: option.splits)
  have "entry_total ?e = failures ip now p" by (simp add: failures_def entry_total_def split: option.splits)
  with count_failure_ok(4) [OF e, of account now] recordFailure_entry(2) [OF inv, of ip now ip account]
  show "failures ip now (recordFailure ip account now p) = Suc (failures ip now p) \<or>
         failures ip now (recordFailure ip account now p) = failures ip now p \<and>
         maxPowEscalationAccountsPerIP \<le> failures ip now p" by (simp add: failures_def)
  show "ip' \<noteq> ip \<Longrightarrow> failures ip' now (recordFailure ip account now p) = failures ip' now p"
    using recordFailure_entry(2) [OF inv, of ip' now ip account] by (simp add: failures_def)
qed

lemma clearAccount_inv:
  assumes inv: "pow_inv p" shows "pow_inv (clearAccount ip account p)"
proof (cases "map_of (pw_entries p) ip")
  case None
  with inv show ?thesis by (simp add: clearAccount_def)
next
  case (Some e)
  with inv have "length (AList.delete account (pe_byAccount e)) \<le> maxPowEscalationAccountsPerIP"
    using length_delete_le [of account "pe_byAccount e"] unfolding pow_inv_def by (meson order_trans)
  with inv Some show ?thesis
    by (auto simp: clearAccount_def Let_def pow_inv_def table positive_delete)
qed

lemma clearAccount_failures:
  assumes inv: "pow_inv p"
  shows "failures ip now (clearAccount ip account p) + account_failures ip account now p = failures ip now p"
    and "ip' \<noteq> ip \<Longrightarrow> failures ip' now (clearAccount ip account p) = failures ip' now p"
proof -
  show "failures ip now (clearAccount ip account p) + account_failures ip account now p = failures ip now p"
  proof (cases "map_of (pw_entries p) ip")
    case None
    then show ?thesis by (simp add: clearAccount_def failures_def account_failures_def live_entry_def)
  next
    case (Some e)
    then have d: "distinct (keys (pe_byAccount e))" using inv by (simp add: pow_inv_def)
    show ?thesis
      using Some sum_delete [OF d, of account]
      by (auto simp: clearAccount_def Let_def failures_def account_failures_def live_entry_def table entry_total_def)
  qed
  show "ip' \<noteq> ip \<Longrightarrow> failures ip' now (clearAccount ip account p) = failures ip' now p"
    by (auto simp: clearAccount_def Let_def failures_def live_entry_def table split: option.splits)
qed

lemma power_cap: "(1 :: int) \<le> base \<Longrightarrow> maxPowEscalationAccountsPerIP \<le> n \<Longrightarrow> powMaxNumberCeiling \<le> base * powEscalationFactor ^ n"
proof -
  assume "1 \<le> base" "maxPowEscalationAccountsPerIP \<le> n"
  then have "(4 :: int) ^ 10 \<le> 4 ^ n" by (intro power_increasing) (simp_all add: maxPowEscalationAccountsPerIP_def)
  also have "\<dots> \<le> base * 4 ^ n" using \<open>1 \<le> base\<close> by simp
  finally show ?thesis by (simp add: powMaxNumberCeiling_def powEscalationFactor_def)
qed

section \<open>Properties\<close>

text \<open>
  Every failed sign-in makes the next challenge for its address four times as expensive, up to the
  ceiling, whatever account it targeted and however many accounts are already counted; the price of
  every other address stays what it was.
\<close>

theorem failure_quadruples_price:
  assumes "pow_inv p" and "0 < base" and "base \<le> powMaxNumberCeiling"
  shows "maxNumberFor ip base now (recordFailure ip account now p) =
           min powMaxNumberCeiling (powEscalationFactor * maxNumberFor ip base now p) \<and>
         (ip' \<noteq> ip \<longrightarrow> maxNumberFor ip' base now (recordFailure ip account now p) = maxNumberFor ip' base now p)"
proof
  note price = maxNumberFor_failures [OF assms(2,3)]
  let ?n = "failures ip now p"
  have q: "min powMaxNumberCeiling (powEscalationFactor * min powMaxNumberCeiling x) =
      min powMaxNumberCeiling (powEscalationFactor * x)" if "0 < x" for x
    using that by (simp add: powEscalationFactor_def powMaxNumberCeiling_def min_def)
  have pos: "0 < base * powEscalationFactor ^ ?n" using assms(2) by (simp add: powEscalationFactor_def)
  from recordFailure_failures(1) [OF assms(1), of ip now account]
  have "min powMaxNumberCeiling (base * powEscalationFactor ^ failures ip now (recordFailure ip account now p)) =
      min powMaxNumberCeiling (powEscalationFactor * (base * powEscalationFactor ^ ?n))"
  proof
    assume "failures ip now (recordFailure ip account now p) = Suc ?n"
    then show ?thesis by (simp add: mult.left_commute)
  next
    assume "failures ip now (recordFailure ip account now p) = ?n \<and> maxPowEscalationAccountsPerIP \<le> ?n"
    with power_cap [of base ?n] assms(2) show ?thesis
      by (simp add: min_absorb1 powEscalationFactor_def powMaxNumberCeiling_def)
  qed
  with q [OF pos] show "maxNumberFor ip base now (recordFailure ip account now p) =
      min powMaxNumberCeiling (powEscalationFactor * maxNumberFor ip base now p)" by (simp add: price)
  show "ip' \<noteq> ip \<longrightarrow> maxNumberFor ip' base now (recordFailure ip account now p) = maxNumberFor ip' base now p"
    using recordFailure_failures(2) [OF assms(1)] by (simp add: price)
qed

theorem failure_quadruples_price_witness:
  "maxNumberFor ''10.0.0.1'' 50000 7 (recordFailure ''10.0.0.1'' ''bob'' 7 newPowEscalation) = 200000"
proof -
  have "pow_inv newPowEscalation" by (simp add: pow_inv_def newPowEscalation_def)
  from failure_quadruples_price [OF this, of 50000 "''10.0.0.1''" 7 "''bob''"] show ?thesis
    by (simp add: powMaxNumberCeiling_def powEscalationFactor_def maxNumberFor_def newPowEscalation_def)
qed

text \<open>
  A success forgives only the account it proved. After \<open>clearAccount\<close> the address pays exactly for
  its failures against the other accounts, so an attacker cannot reset the price of guessing at one
  account by signing in to another.
\<close>

theorem success_forgives_one_account:
  assumes "pow_inv p" and "0 < base" and "base \<le> powMaxNumberCeiling"
  shows "maxNumberFor ip base now (clearAccount ip account p) =
           min powMaxNumberCeiling (base * powEscalationFactor ^ (failures ip now p - account_failures ip account now p))"
proof -
  have "failures ip now (clearAccount ip account p) = failures ip now p - account_failures ip account now p"
    using clearAccount_failures(1) [OF assms(1), of ip now account] by simp
  then show ?thesis by (simp add: maxNumberFor_failures [OF assms(2,3)])
qed

theorem success_forgives_one_account_witness:
  "maxNumberFor ''ip'' 50000 9 (clearAccount ''ip'' ''me'' (recordFailure ''ip'' ''me'' 8 (recordFailure ''ip'' ''bob'' 7 newPowEscalation)))
   = 200000"
proof -
  let ?p = "recordFailure ''ip'' ''me'' 8 (recordFailure ''ip'' ''bob'' 7 newPowEscalation)"
  have "pow_inv ?p" by (intro recordFailure_entry(1)) (simp add: pow_inv_def newPowEscalation_def)
  moreover have "failures ''ip'' 9 ?p = 2" "account_failures ''ip'' ''me'' 9 ?p = 1" by code_simp+
  ultimately show ?thesis
    using success_forgives_one_account [of ?p 50000 "''ip''" 9 "''me''"]
    by (simp add: powMaxNumberCeiling_def powEscalationFactor_def)
qed

end
