(* ===== verification/Login_Verify.thy ===== *)
theory Login_Verify
  imports Keyed_Limiter Failure_Lockout Pow_Escalation
begin

text \<open>
  The unauthenticated credential check \<open>verifyLogin\<close> of \<open>backend/internal/api/server_auth_session.go\<close>,
  with \<open>chargeLoginKDF\<close> and \<open>loginBudget\<close> of \<open>login_lockout.go\<close>: how the instance-wide work budget, the
  per-address and per-account lockouts and the proof-of-work price are charged and refunded on every
  path of a sign-in attempt.

  What the handler asks of other parts is the record \<open>login_env\<close>: the CAPTCHA verdict, the account the
  username resolves to, the outcome of the key derivation (with the time it took, or that no slot was
  free) and the clock at each call. \<open>le_ipKey\<close> is \<open>lockoutKeyForIP(clientIP(r))\<close>. The hash upgrade after
  a success (\<open>RehashPassword\<close>) writes the user store only, best-effort, and is left out.
\<close>

section \<open>State\<close>

record login_state =
  ls_budget :: "keyed_limiter option"
  ls_ip :: failure_lockout
  ls_account :: failure_lockout
  ls_pow :: pow_escalation

datatype captcha_result = CaptchaExpired | CaptchaWrongClient | CaptchaUnavailable | CaptchaRejected | CaptchaOK

record login_user =
  lu_ID :: string
  lu_Active :: bool
  lu_UsesDerivedAuth :: bool
  lu_RestoreReleased :: bool
  lu_Admitted :: bool

record login_env =
  le_username :: string
  le_ipKey :: string
  le_captcha :: "captcha_result option"
  le_user :: "login_user option"
  le_kdf :: "(bool \<times> duration) option"
  le_rank :: "string \<Rightarrow> nat"
  at_admit :: time
  at_ip_check :: time
  at_ip_try :: time
  at_account_try :: time
  at_settle :: time
  at_record :: time
  at_return :: time

datatype login_response =
  BudgetExhausted int | AddressLocked int | AccountLocked int
| CaptchaRefused captcha_result | KDFBusy | InvalidCredentials | Verified login_user

definition loginRateLimitKey :: string where "loginRateLimitKey = ''instance''"
definition loginKDFReserveSeconds :: rat where "loginKDFReserveSeconds = 200 / 1000"
definition loginKDFDutyCycle :: rat where "loginKDFDutyCycle = 2 / 10"
definition loginRateBurst :: rat where "loginRateBurst = 15"
definition loginKDFBurstSeconds :: rat where "loginKDFBurstSeconds = loginRateBurst * loginKDFReserveSeconds"

definition newLoginState :: login_state where
  "newLoginState =
     \<lparr>ls_budget = Some (newKeyedLimiter loginKDFBurstSeconds loginKDFDutyCycle),
      ls_ip = newFailureLockout loginIPMaxFailures loginIPLockoutFor,
      ls_account = newLoginLockout, ls_pow = newPowEscalation\<rparr>"

section \<open>Operations\<close>

definition NormalizeUsername :: "string \<Rightarrow> string" where
  "NormalizeUsername username = to_lower (trim_space username)"

text \<open>\<open>loginBudget\<close>: a reservation is held or not; settling it releases it.\<close>

definition budget_settle :: "rat \<Rightarrow> time \<Rightarrow> bool \<times> login_state \<Rightarrow> bool \<times> login_state" where
  "budget_settle delta now b =
     (case b of (held, st) \<Rightarrow>
        if \<not> held then (held, st)
        else (False, st\<lparr>ls_budget := map_option (settleCost loginRateLimitKey delta now) (ls_budget st)\<rparr>))"

definition budget_refund :: "time \<Rightarrow> bool \<times> login_state \<Rightarrow> bool \<times> login_state" where
  "budget_refund now b = budget_settle (- loginKDFReserveSeconds) now b"

text \<open>\<open>None\<close> is \<open>users.ErrKDFBusy\<close>.\<close>

definition chargeLoginKDF :: "login_env \<Rightarrow> bool \<times> login_state \<Rightarrow> bool option \<times> bool \<times> login_state" where
  "chargeLoginKDF env b =
     (case le_kdf env of
        None \<Rightarrow> (None, budget_refund (at_settle env) b)
      | Some (ok, took) \<Rightarrow> (Some ok, budget_settle (seconds took - loginKDFReserveSeconds) (at_settle env) b))"

definition retry_seconds :: "duration \<Rightarrow> int" where
  "retry_seconds d = d div second + 1"

definition lockoutKey :: "login_env \<Rightarrow> string" where
  "lockoutKey env = clampLockoutKeyComponent (NormalizeUsername (le_username env)) @ [CHR 0x00] @ le_ipKey env"

definition powAccount :: "login_env \<Rightarrow> string" where
  "powAccount env = clampLockoutKeyComponent (NormalizeUsername (le_username env))"

text \<open>The part after both strikes are reserved: the derivation and what its verdict does.\<close>

definition check_credential ::
  "login_env \<Rightarrow> lockout_reservation \<Rightarrow> lockout_reservation \<Rightarrow> bool \<times> login_state \<Rightarrow> login_response \<times> bool \<times> login_state" where
  "check_credential env strike ipStrike b =
     (case chargeLoginKDF env b of
        (None, held, st) \<Rightarrow>
          (KDFBusy, held, st\<lparr>ls_account := cancelAttempt strike (ls_account st),
                             ls_ip := cancelAttempt ipStrike (ls_ip st)\<rparr>)
      | (Some verdict, held, st) \<Rightarrow>
          (case le_user env of
             Some u \<Rightarrow>
               if lu_Active u \<and> lu_UsesDerivedAuth u \<and> lu_RestoreReleased u \<and> lu_Admitted u \<and> verdict
               then (Verified u, held,
                     st\<lparr>ls_account := recordSuccess (lockoutKey env) (ls_account st),
                        ls_ip := cancelAttempt ipStrike (ls_ip st),
                        ls_pow := clearAccount (le_ipKey env) (powAccount env) (ls_pow st)\<rparr>)
               else (InvalidCredentials, held,
                     st\<lparr>ls_pow := recordFailure (le_ipKey env) (powAccount env) (at_record env) (ls_pow st)\<rparr>)
           | None \<Rightarrow>
               (InvalidCredentials, held,
                st\<lparr>ls_pow := recordFailure (le_ipKey env) (powAccount env) (at_record env) (ls_pow st)\<rparr>)))"

definition after_captcha :: "login_env \<Rightarrow> bool \<times> login_state \<Rightarrow> login_response \<times> bool \<times> login_state" where
  "after_captcha env b =
     (case b of (held, st) \<Rightarrow>
      case tryAttempt (le_rank env) (le_ipKey env) (at_ip_try env) (ls_ip st) of
        ((allowed, wait, ipStrike), ip) \<Rightarrow>
          if \<not> allowed then (AddressLocked (retry_seconds wait), held, st\<lparr>ls_ip := ip\<rparr>)
          else
            (case tryAttempt (le_rank env) (lockoutKey env) (at_account_try env) (ls_account st) of
               ((allowed', wait', strike), acc) \<Rightarrow>
                 if \<not> allowed' then (AccountLocked (retry_seconds wait'), held, st\<lparr>ls_ip := ip, ls_account := acc\<rparr>)
                 else check_credential env (the strike) (the ipStrike) (held, st\<lparr>ls_ip := ip, ls_account := acc\<rparr>)))"

definition after_admission :: "login_env \<Rightarrow> bool \<times> login_state \<Rightarrow> login_response \<times> bool \<times> login_state" where
  "after_admission env b =
     (case b of (held, st) \<Rightarrow>
      let wait = lockedFor (le_ipKey env) (at_ip_check env) (ls_ip st) in
      if wait > 0 then (AddressLocked (retry_seconds wait), held, st)
      else
        (case le_captcha env of
           Some CaptchaRejected \<Rightarrow>
             (CaptchaRefused CaptchaRejected, held,
              st\<lparr>ls_ip := snd (tryAttempt (le_rank env) (le_ipKey env) (at_ip_try env) (ls_ip st))\<rparr>)
         | Some CaptchaExpired \<Rightarrow> (CaptchaRefused CaptchaExpired, held, st)
         | Some CaptchaWrongClient \<Rightarrow> (CaptchaRefused CaptchaWrongClient, held, st)
         | Some CaptchaUnavailable \<Rightarrow> (CaptchaRefused CaptchaUnavailable, held, st)
         | _ \<Rightarrow> after_captcha env (held, st)))"

definition verifyLogin :: "login_env \<Rightarrow> login_state \<Rightarrow> login_response \<times> login_state" where
  "verifyLogin env st =
     (case ls_budget st of
        None \<Rightarrow> (case after_admission env (False, st) of (r, held, st') \<Rightarrow> (r, snd (budget_refund (at_return env) (held, st'))))
      | Some l \<Rightarrow>
          (case admitCost loginRateLimitKey loginKDFReserveSeconds (at_admit env) l of
             ((ok, wait), l') \<Rightarrow>
               if \<not> ok then (BudgetExhausted (retry_seconds wait), st\<lparr>ls_budget := Some l'\<rparr>)
               else (case after_admission env (True, st\<lparr>ls_budget := Some l'\<rparr>) of
                       (r, held, st') \<Rightarrow> (r, snd (budget_refund (at_return env) (held, st'))))))"


section \<open>What an attempt leaves behind\<close>

lemma tryAttempt_granted:
  "fst (fst (tryAttempt rank k now l)) \<Longrightarrow> fst (tryAttempt rank k now l) = granted_attempt k now"
  by (auto simp: tryAttempt_def Let_def split: option.splits prod.splits bool.splits)

lemma budget_settle_simps [simp]:
  "budget_settle d t (False, st) = (False, st)"
  "budget_settle d t (True, st) = (False, st\<lparr>ls_budget := map_option (settleCost loginRateLimitKey d t) (ls_budget st)\<rparr>)"
  by (simp_all add: budget_settle_def)

text \<open>An attempt reaches the derivation exactly with these three answers.\<close>

definition examined :: "login_response \<Rightarrow> bool" where
  "examined r = (case r of KDFBusy \<Rightarrow> True | InvalidCredentials \<Rightarrow> True | Verified _ \<Rightarrow> True | _ \<Rightarrow> False)"

lemma check_credential_examined: "examined (fst (check_credential env s1 s2 b))"
  by (auto simp: check_credential_def examined_def split: option.splits prod.splits)

lemma after_captcha_cases:
  obtains (refused) "\<not> examined (fst (after_captcha env (held, st)))" "fst (snd (after_captcha env (held, st))) = held"
      "ls_budget (snd (snd (after_captcha env (held, st)))) = ls_budget st"
    | (examined) ip acc where
      "tryAttempt (le_rank env) (le_ipKey env) (at_ip_try env) (ls_ip st) = (granted_attempt (le_ipKey env) (at_ip_try env), ip)"
      "tryAttempt (le_rank env) (lockoutKey env) (at_account_try env) (ls_account st) =
         (granted_attempt (lockoutKey env) (at_account_try env), acc)"
      "after_captcha env (held, st) =
         check_credential env \<lparr>res_key = lockoutKey env, res_at = at_account_try env\<rparr>
           \<lparr>res_key = le_ipKey env, res_at = at_ip_try env\<rparr> (held, st\<lparr>ls_ip := ip, ls_account := acc\<rparr>)"
proof -
  let ?ip = "tryAttempt (le_rank env) (le_ipKey env) (at_ip_try env) (ls_ip st)"
  let ?acc = "tryAttempt (le_rank env) (lockoutKey env) (at_account_try env) (ls_account st)"
  show thesis
  proof (cases "fst (fst ?ip) \<and> fst (fst ?acc)")
    case True
    then obtain l1 l2 where ip: "?ip = (granted_attempt (le_ipKey env) (at_ip_try env), l1)"
      and acc: "?acc = (granted_attempt (lockoutKey env) (at_account_try env), l2)"
      using tryAttempt_granted by (metis prod.collapse)
    show thesis
      by (rule examined [OF ip acc]) (simp add: after_captcha_def ip acc granted_attempt_def)
  next
    case False
    then show thesis
      by (intro refused) (auto simp: after_captcha_def examined_def split: prod.splits)
  qed
qed

lemma after_admission_cases:
  obtains (refused) "\<not> examined (fst (after_admission env (held, st)))" "fst (snd (after_admission env (held, st))) = held"
      "ls_budget (snd (snd (after_admission env (held, st)))) = ls_budget st"
    | (examined) ip acc where
      "tryAttempt (le_rank env) (le_ipKey env) (at_ip_try env) (ls_ip st) = (granted_attempt (le_ipKey env) (at_ip_try env), ip)"
      "tryAttempt (le_rank env) (lockoutKey env) (at_account_try env) (ls_account st) =
         (granted_attempt (lockoutKey env) (at_account_try env), acc)"
      "after_admission env (held, st) =
         check_credential env \<lparr>res_key = lockoutKey env, res_at = at_account_try env\<rparr>
           \<lparr>res_key = le_ipKey env, res_at = at_ip_try env\<rparr> (held, st\<lparr>ls_ip := ip, ls_account := acc\<rparr>)"
proof (cases "lockedFor (le_ipKey env) (at_ip_check env) (ls_ip st) > 0 \<or> le_captcha env \<notin> {None, Some CaptchaOK}")
  case True
  show thesis
  proof (cases "le_captcha env")
    case None
    with True refused show thesis by (simp add: after_admission_def examined_def)
  next
    case (Some c)
    with True refused show thesis by (cases c) (auto simp: after_admission_def examined_def Let_def)
  qed
next
  case False
  then have "after_admission env (held, st) = after_captcha env (held, st)"
    by (auto simp: after_admission_def)
  then show thesis
    by (cases rule: after_captcha_cases [of env held st]) (use refused examined in auto)
qed


abbreviation ip_strike :: "login_env \<Rightarrow> lockout_reservation" where
  "ip_strike env \<equiv> \<lparr>res_key = le_ipKey env, res_at = at_ip_try env\<rparr>"

abbreviation account_strike :: "login_env \<Rightarrow> lockout_reservation" where
  "account_strike env \<equiv> \<lparr>res_key = lockoutKey env, res_at = at_account_try env\<rparr>"

text \<open>How an answer of the credential check settles the two strikes and the price.\<close>

definition settled :: "login_env \<Rightarrow> login_response \<Rightarrow> failure_lockout \<Rightarrow> failure_lockout \<Rightarrow> pow_escalation \<Rightarrow> login_state \<Rightarrow> bool" where
  "settled env r ip acc pow st' \<longleftrightarrow>
     (case r of
        KDFBusy \<Rightarrow> ls_ip st' = cancelAttempt (ip_strike env) ip \<and> ls_account st' = cancelAttempt (account_strike env) acc \<and>
                   ls_pow st' = pow
      | InvalidCredentials \<Rightarrow> ls_ip st' = ip \<and> ls_account st' = acc \<and>
                   ls_pow st' = recordFailure (le_ipKey env) (powAccount env) (at_record env) pow
      | Verified u \<Rightarrow> ls_ip st' = cancelAttempt (ip_strike env) ip \<and> ls_account st' = recordSuccess (lockoutKey env) acc \<and>
                   ls_pow st' = clearAccount (le_ipKey env) (powAccount env) pow \<and> le_user env = Some u
      | _ \<Rightarrow> False)"

lemma budget_settle_fields [simp]:
  "ls_ip (snd (budget_settle d t b)) = ls_ip (snd b)" "ls_account (snd (budget_settle d t b)) = ls_account (snd b)"
  "ls_pow (snd (budget_settle d t b)) = ls_pow (snd b)"
  by (cases b; simp add: budget_settle_def)+

lemma chargeLoginKDF_fields [simp]:
  "ls_ip (snd (snd (chargeLoginKDF env b))) = ls_ip (snd b)" "ls_account (snd (snd (chargeLoginKDF env b))) = ls_account (snd b)"
  "ls_pow (snd (snd (chargeLoginKDF env b))) = ls_pow (snd b)"
  by (simp_all add: chargeLoginKDF_def budget_refund_def split: option.splits prod.splits)

lemma check_credential_settled:
  "settled env (fst (check_credential env (account_strike env) (ip_strike env) b)) (ls_ip (snd b)) (ls_account (snd b))
     (ls_pow (snd b)) (snd (snd (check_credential env (account_strike env) (ip_strike env) b)))"
proof -
  obtain v held st where c: "chargeLoginKDF env b = (v, held, st)" by (metis surj_pair)
  with chargeLoginKDF_fields [of env b] show ?thesis
    by (auto simp: check_credential_def settled_def split: option.splits)
qed

lemma verifyLogin_after_admission:
  obtains (exhausted) wait where "fst (verifyLogin env st) = BudgetExhausted wait"
      "ls_ip (snd (verifyLogin env st)) = ls_ip st" "ls_account (snd (verifyLogin env st)) = ls_account st"
    | (admitted) held b r held' st' where "after_admission env (held, st\<lparr>ls_budget := b\<rparr>) = (r, held', st')"
      "verifyLogin env st = (r, snd (budget_refund (at_return env) (held', st')))"
proof (cases "ls_budget st")
  case None
  then have "st\<lparr>ls_budget := None\<rparr> = st" by simp
  with None admitted [of False None] show thesis
    by (cases "after_admission env (False, st)") (auto simp: verifyLogin_def)
next
  case (Some l)
  obtain ok wait l' where a: "admitCost loginRateLimitKey loginKDFReserveSeconds (at_admit env) l = ((ok, wait), l')"
    by (metis surj_pair)
  show thesis
  proof (cases ok)
    case True
    with Some a admitted [of True "Some l'"] show thesis
      by (cases "after_admission env (True, st\<lparr>ls_budget := Some l'\<rparr>)") (auto simp: verifyLogin_def)
  next
    case False
    with Some a exhausted show thesis by (simp add: verifyLogin_def)
  qed
qed

lemma verifyLogin_settled:
  assumes "examined (fst (verifyLogin env st))"
  obtains ip acc where
    "tryAttempt (le_rank env) (le_ipKey env) (at_ip_try env) (ls_ip st) = (granted_attempt (le_ipKey env) (at_ip_try env), ip)"
    "tryAttempt (le_rank env) (lockoutKey env) (at_account_try env) (ls_account st) =
       (granted_attempt (lockoutKey env) (at_account_try env), acc)"
    "settled env (fst (verifyLogin env st)) ip acc (ls_pow st) (snd (verifyLogin env st))"
proof (cases rule: verifyLogin_after_admission [of env st])
  case (exhausted wait)
  with assms show thesis by (simp add: examined_def)
next
  case (admitted held b r held' st')
  show thesis
  proof (cases rule: after_admission_cases [of env held "st\<lparr>ls_budget := b\<rparr>"])
    case refused
    with admitted assms show thesis by simp
  next
    case (examined ip acc)
    let ?b = "(held, st\<lparr>ls_budget := b, ls_ip := ip, ls_account := acc\<rparr>)"
    have "check_credential env (account_strike env) (ip_strike env) ?b = (r, held', st')"
      using examined(3) admitted(1) by simp
    then have "settled env r ip acc (ls_pow st) st'"
      using check_credential_settled [of env ?b] by simp
    then have "settled env r ip acc (ls_pow st) (snd (budget_refund (at_return env) (held', st')))"
      by (simp add: settled_def budget_refund_def split: login_response.splits)
    with examined(1,2) admitted(2) that show thesis by simp
  qed
qed

text \<open>The budget after an attempt that derived nothing: the reservation is returned, once.\<close>

lemma check_credential_budget:
  "case fst (check_credential env s1 s2 (True, st)) of
     KDFBusy \<Rightarrow> fst (snd (check_credential env s1 s2 (True, st))) = False \<and>
       ls_budget (snd (snd (check_credential env s1 s2 (True, st)))) =
         map_option (settleCost loginRateLimitKey (- loginKDFReserveSeconds) (at_settle env)) (ls_budget st)
   | InvalidCredentials \<Rightarrow> True | Verified _ \<Rightarrow> True | _ \<Rightarrow> False"
  by (simp add: check_credential_def chargeLoginKDF_def budget_refund_def split: option.splits prod.splits)

lemma refund_balance_later:
  assumes inv: "limiter_inv (- burst) burst rate now l" and "0 \<le> reserve" "reserve \<le> burst" "now \<le> t" "t \<le> t'"
    and "admitCost k reserve now l = ((True, wait), l')"
  shows "balance (settleCost k (- reserve) t l') t' k' = balance l t' k'"
proof -
  have "limiter_inv (- burst) burst rate t l'"
    using limiter_inv_later [OF admitCost_balance(2) [OF inv assms(2), of k] assms(4)] assms(6) by simp
  from balance_aging [OF settleCost_balance(1) [OF this] assms(5), of k "- reserve" k']
    balance_aging [OF limiter_inv_later [OF inv assms(4)] assms(5), of k'] refund_balance [OF inv assms(2-4,6), of k']
  show ?thesis by simp
qed

lemma budget_refund_budget:
  "ls_budget (snd (budget_refund t (held, st))) =
     (if held then map_option (settleCost loginRateLimitKey (- loginKDFReserveSeconds) t) (ls_budget st) else ls_budget st)"
  by (cases held) (simp_all add: budget_refund_def)

lemma unexamined_budget:
  assumes a: "admitCost loginRateLimitKey loginKDFReserveSeconds (at_admit env) l = ((True, wait), l')"
    and b: "ls_budget st = Some l" and r: "verifyLogin env st = (r, st')" "\<forall>u. r \<noteq> Verified u" "r \<noteq> InvalidCredentials"
  shows "ls_budget st' = Some (settleCost loginRateLimitKey (- loginKDFReserveSeconds) (at_settle env) l') \<or>
         ls_budget st' = Some (settleCost loginRateLimitKey (- loginKDFReserveSeconds) (at_return env) l')"
proof -
  let ?st = "st\<lparr>ls_budget := Some l'\<rparr>"
  obtain held' st1 where adm: "after_admission env (True, ?st) = (r, held', st1)"
    and st': "st' = snd (budget_refund (at_return env) (held', st1))"
    using r(1) a b by (auto simp: verifyLogin_def split: prod.splits)
  show ?thesis
  proof (cases rule: after_admission_cases [of env True ?st])
    case refused
    with adm st' show ?thesis by (simp add: budget_refund_budget)
  next
    case (examined ip acc)
    let ?b = "?st\<lparr>ls_ip := ip, ls_account := acc\<rparr>"
    have c: "check_credential env (account_strike env) (ip_strike env) (True, ?b) = (r, held', st1)"
      using examined(3) adm by simp
    from check_credential_budget [of env "account_strike env" "ip_strike env" ?b] r(2,3)
    have "r = KDFBusy \<and> \<not> held' \<and>
        ls_budget st1 = Some (settleCost loginRateLimitKey (- loginKDFReserveSeconds) (at_settle env) l')"
      unfolding c by (cases r) simp_all
    then show ?thesis unfolding st' by (simp add: budget_refund_budget)
  qed
qed

section \<open>Properties\<close>

text \<open>The clock readings of an attempt are in order.\<close>

definition clock_ok :: "login_env \<Rightarrow> bool" where
  "clock_ok env \<longleftrightarrow>
     at_admit env \<le> at_ip_check env \<and> at_ip_check env \<le> at_ip_try env \<and> at_ip_try env \<le> at_account_try env \<and>
     at_account_try env \<le> at_settle env \<and> at_settle env \<le> at_record env \<and> at_record env \<le> at_return env"

text \<open>
  A shed derivation costs nobody a strike. When the slots were full and the answer is "busy", every
  address and every account counts, from then on, exactly the strikes it counted before the attempt,
  and the proof-of-work price is unchanged.
\<close>

theorem busy_login_spends_no_strike:
  assumes "fst (verifyLogin env st) = KDFBusy" and "clock_ok env"
    and "lockout_inv m w cap (at_ip_try env) (ls_ip st)" and "length (lk_entries (ls_ip st)) < cap"
    and "lockout_inv m' w' cap' (at_account_try env) (ls_account st)" and "length (lk_entries (ls_account st)) < cap'"
    and "at_return env \<le> t"
  shows "live (ls_ip (snd (verifyLogin env st))) t k = live (ls_ip st) t k \<and>
         live (ls_account (snd (verifyLogin env st))) t k = live (ls_account st) t k \<and>
         ls_pow (snd (verifyLogin env st)) = ls_pow st"
proof -
  have t: "at_ip_try env \<le> t" "at_account_try env \<le> t" using assms(2,7) by (simp_all add: clock_ok_def)
  from assms(1) obtain ip acc where
    "tryAttempt (le_rank env) (le_ipKey env) (at_ip_try env) (ls_ip st) = (granted_attempt (le_ipKey env) (at_ip_try env), ip)"
    "tryAttempt (le_rank env) (lockoutKey env) (at_account_try env) (ls_account st) =
       (granted_attempt (lockoutKey env) (at_account_try env), acc)"
    "settled env KDFBusy ip acc (ls_pow st) (snd (verifyLogin env st))"
    by (rule_tac verifyLogin_settled [of env st]) (simp_all add: examined_def)
  then show ?thesis
    using refund_live [OF assms(3,4) t(1)] refund_live [OF assms(5,6) t(2)]
    by (simp add: settled_def granted_attempt_def)
qed

text \<open>
  What a sign-in leaves behind. A verified credential clears the strikes of its account key, leaves
  the strikes of its address (and of every other key) as they were, and forgives the address only the
  failures against that account. A wrong credential leaves one strike on the address and one on the
  account key, and is counted in the price.
\<close>

theorem login_verdict_effects:
  assumes "clock_ok env"
    and "lockout_inv m w cap (at_ip_try env) (ls_ip st)" and "length (lk_entries (ls_ip st)) < cap"
    and "lockout_inv m' w' cap' (at_account_try env) (ls_account st)" and "length (lk_entries (ls_account st)) < cap'"
    and "verifyLogin env st = (r, st')"
  shows "case r of
      Verified u \<Rightarrow>
        le_user env = Some u \<and> live (ls_account st') (at_return env) (lockoutKey env) = [] \<and>
        (\<forall>k. live (ls_ip st') (at_return env) k = live (ls_ip st) (at_return env) k) \<and>
        ls_pow st' = clearAccount (le_ipKey env) (powAccount env) (ls_pow st)
    | InvalidCredentials \<Rightarrow>
        live (ls_ip st') (at_ip_try env) (le_ipKey env) = live (ls_ip st) (at_ip_try env) (le_ipKey env) @ [at_ip_try env] \<and>
        live (ls_account st') (at_account_try env) (lockoutKey env) =
          live (ls_account st) (at_account_try env) (lockoutKey env) @ [at_account_try env] \<and>
        ls_pow st' = recordFailure (le_ipKey env) (powAccount env) (at_record env) (ls_pow st)
    | _ \<Rightarrow> True"
proof (cases "examined r")
  case False
  then show ?thesis by (simp add: examined_def split: login_response.splits)
next
  case True
  with assms(6) obtain ip acc where
    tries: "tryAttempt (le_rank env) (le_ipKey env) (at_ip_try env) (ls_ip st) = (granted_attempt (le_ipKey env) (at_ip_try env), ip)"
    "tryAttempt (le_rank env) (lockoutKey env) (at_account_try env) (ls_account st) =
       (granted_attempt (lockoutKey env) (at_account_try env), acc)"
    and s: "settled env r ip acc (ls_pow st) st'"
    by (rule_tac verifyLogin_settled [of env st]) simp_all
  have t: "at_ip_try env \<le> at_return env" using assms(1) by (simp add: clock_ok_def)
  note ip = granted_live [OF assms(2,3) tries(1)] and acc = granted_live [OF assms(4,5) tries(2)]
  show ?thesis
    using s ip acc refund_live [OF assms(2,3) t, of "le_rank env" "le_ipKey env" 0 "ip_strike env" ip] tries(1)
    by (simp add: settled_def granted_attempt_def recordSuccess_live split: login_response.splits)
qed


text \<open>
  Only examined credentials are paid for. An attempt that is turned away by the budget, a lockout or
  the CAPTCHA, or shed for want of a slot, leaves the instance-wide work budget, from the moment it
  returns, exactly as it would be without the attempt.
\<close>

theorem unexamined_login_free:
  assumes "ls_budget st = Some l" and "limiter_inv (- burst) burst rate (at_admit env) l"
    and "loginKDFReserveSeconds \<le> burst" and "clock_ok env" and "verifyLogin env st = (r, st')"
    and "\<forall>u. r \<noteq> Verified u" and "r \<noteq> InvalidCredentials" and "at_return env \<le> t"
  shows "map_option (\<lambda>l'. balance l' t k) (ls_budget st') = Some (balance l t k)"
proof -
  have res: "0 \<le> loginKDFReserveSeconds" by (simp add: loginKDFReserveSeconds_def)
  have t: "at_admit env \<le> at_settle env" "at_settle env \<le> t" "at_admit env \<le> at_return env" "at_admit env \<le> t"
    using assms(4,8) by (simp_all add: clock_ok_def)
  obtain ok wait l' where a: "admitCost loginRateLimitKey loginKDFReserveSeconds (at_admit env) l = ((ok, wait), l')"
    by (metis surj_pair)
  note adm = admitCost_balance [OF assms(2) res, of loginRateLimitKey, unfolded a, simplified]
  show ?thesis
  proof (cases ok)
    case False
    with assms(1,5) a have "ls_budget st' = Some l'" by (auto simp: verifyLogin_def)
    moreover have "balance l' t k = balance l t k"
      using balance_aging [OF adm(2) t(4), of k] balance_aging [OF assms(2) t(4), of k] adm(1) adm(3) [of k] False by simp
    ultimately show ?thesis by simp
  next
    case True
    from a True have a': "admitCost loginRateLimitKey loginKDFReserveSeconds (at_admit env) l = ((True, wait), l')" by simp
    from unexamined_budget [OF a' assms(1,5-7)] show ?thesis
      using refund_balance_later [OF assms(2) res assms(3) t(1,2) a', of k]
        refund_balance_later [OF assms(2) res assms(3) t(3) assms(8) a', of k] by auto
  qed
qed

text \<open>
  A locked address or account gets no credential examined: whatever password is presented and
  whatever the derivation would say, the attempt is turned away before the derivation.
\<close>

theorem locked_login_refused:
  assumes "lockout_inv m w cap (at_ip_try env) (ls_ip st)" and "lockout_inv m' w' cap' (at_account_try env) (ls_account st)"
    and "0 < lockedFor (le_ipKey env) (at_ip_try env) (ls_ip st) \<or>
         0 < lockedFor (lockoutKey env) (at_account_try env) (ls_account st)"
  shows "\<not> examined (fst (verifyLogin env st))"
proof
  assume "examined (fst (verifyLogin env st))"
  then obtain ip acc where
    "tryAttempt (le_rank env) (le_ipKey env) (at_ip_try env) (ls_ip st) = (granted_attempt (le_ipKey env) (at_ip_try env), ip)"
    "tryAttempt (le_rank env) (lockoutKey env) (at_account_try env) (ls_account st) =
       (granted_attempt (lockoutKey env) (at_account_try env), acc)" by (rule verifyLogin_settled)
  moreover have no: "\<not> fst (fst (tryAttempt rank k now l))"
    if inv: "lockout_inv n v c now l" and pos: "0 < lockedFor k now l" for rank k now l n v c
  proof -
    from pos obtain e where "map_of (lk_entries l) k = Some e" "now_before now (ent_lockedUntil e)"
      using lockedFor_entry [OF inv] by blast
    from locked_entry_kept(2) [OF inv this, of "Attempt rank k"] show ?thesis
      by (simp add: attempts_only_def op_key_def)
  qed
  ultimately show False
    using assms(3) no [OF assms(1), of "le_ipKey env" "le_rank env"] no [OF assms(2), of "lockoutKey env" "le_rank env"]
    by (auto simp: granted_attempt_def)
qed

section \<open>Witnesses\<close>

definition demo_env :: "(bool \<times> duration) option \<Rightarrow> login_env" where
  "demo_env kdf = \<lparr>le_username = '' Bob'', le_ipKey = ''10.0.0.1'', le_captcha = None,
     le_user = Some \<lparr>lu_ID = ''u1'', lu_Active = True, lu_UsesDerivedAuth = True, lu_RestoreReleased = True, lu_Admitted = True\<rparr>,
     le_kdf = kdf, le_rank = any_rank, at_admit = 1, at_ip_check = 2, at_ip_try = 3, at_account_try = 4, at_settle = 5,
     at_record = 6, at_return = 7\<rparr>"

lemma demo_clock [simp]: "clock_ok (demo_env kdf)"
  by (simp add: clock_ok_def demo_env_def)

text \<open>A state with small tables, every component fresh.\<close>

definition demo_state :: login_state where
  "demo_state = \<lparr>ls_budget = Some ((newKeyedLimiter 3 (1 / 5))\<lparr>lim_sweepThreshold := 4\<rparr>), ls_ip = newFailureLockoutSized 50 10 4 4,
     ls_account = newFailureLockoutSized 3 10 4 4, ls_pow = newPowEscalation\<lparr>pw_sweepThreshold := 4\<rparr>\<rparr>"

lemma demo_lockouts: "lockout_inv 50 10 4 t (ls_ip demo_state)" "lockout_inv 3 10 4 t (ls_account demo_state)"
  by (simp_all add: demo_state_def new_lockout_inv)

lemma demo_room: "length (lk_entries (ls_ip demo_state)) < 4" "length (lk_entries (ls_account demo_state)) < 4"
  and demo_live: "live (ls_account demo_state) t k = []"
  by (simp_all add: demo_state_def newFailureLockoutSized_def live_def live_strikes_def)

lemma demo_verdicts:
  "fst (verifyLogin (demo_env None) demo_state) = KDFBusy"
  "fst (verifyLogin (demo_env (Some (False, second))) demo_state) = InvalidCredentials"
  by (simp_all add: verifyLogin_def after_admission_def after_captcha_def check_credential_def chargeLoginKDF_def
      demo_env_def demo_state_def admitCost_def refillLocked_def newKeyedLimiter_def put_def newFailureLockoutSized_def
      lockedFor_def tryAttempt_def sweepIfCrowdedLocked_def granted_attempt_def Let_def split: prod.splits)

theorem busy_login_spends_no_strike_witness:
  "live (ls_account (snd (verifyLogin (demo_env None) demo_state))) 9 (lockoutKey (demo_env None)) = []"
  using busy_login_spends_no_strike [OF demo_verdicts(1) demo_clock demo_lockouts(1) demo_room(1) demo_lockouts(2) demo_room(2), of 9]
  by (simp add: demo_env_def demo_live)

theorem login_verdict_effects_witness:
  "live (ls_account (snd (verifyLogin (demo_env (Some (False, second))) demo_state))) 4 (lockoutKey (demo_env (Some (False, second)))) = [4]"
proof -
  let ?env = "demo_env (Some (False, second))"
  have "verifyLogin ?env demo_state = (InvalidCredentials, snd (verifyLogin ?env demo_state))"
    using demo_verdicts(2) by (metis prod.collapse)
  from login_verdict_effects [OF demo_clock demo_lockouts(1) demo_room(1) demo_lockouts(2) demo_room(2) this] show ?thesis
    by (simp add: demo_live) (simp add: demo_env_def)
qed

theorem unexamined_login_free_witness:
  "map_option (\<lambda>l'. balance l' 8 ''instance'') (ls_budget (snd (verifyLogin (demo_env None) demo_state))) = Some 3"
proof -
  let ?l = "(newKeyedLimiter 3 (1 / 5))\<lparr>lim_sweepThreshold := 4\<rparr>"
  have v: "verifyLogin (demo_env None) demo_state = (KDFBusy, snd (verifyLogin (demo_env None) demo_state))"
    using demo_verdicts(1) by (metis prod.collapse)
  have inv: "limiter_inv (- 3) 3 (1 / 5) (at_admit (demo_env None)) ?l"
    by (simp add: limiter_inv_def newKeyedLimiter_def)
  have b: "ls_budget demo_state = Some ?l" by (simp add: demo_state_def)
  have bal: "balance ?l 8 ''instance'' = 3" by (simp add: balance_def newKeyedLimiter_def)
  have t: "at_return (demo_env None) \<le> 8" by (simp add: demo_env_def)
  from unexamined_login_free [OF b inv _ demo_clock v, of 8 "''instance''"] t show ?thesis
    by (simp only: bal) (simp add: loginKDFReserveSeconds_def)
qed

theorem locked_login_refused_witness:
  "\<not> examined (fst (verifyLogin (demo_env (Some (True, second)))
     (demo_state\<lparr>ls_account := newFailureLockoutSized 1 loginLockoutFor 4 4\<lparr>lk_entries :=
        [(lockoutKey (demo_env None), \<lparr>ent_strikes = [0], ent_lockedUntil = Some loginLockoutFor\<rparr>)]\<rparr>\<rparr>)))"
proof -
  let ?acc = "newFailureLockoutSized 1 loginLockoutFor 4 4\<lparr>lk_entries :=
        [(lockoutKey (demo_env None), \<lparr>ent_strikes = [0], ent_lockedUntil = Some loginLockoutFor\<rparr>)]\<rparr>"
  have k: "lockoutKey (demo_env (Some (True, second))) = lockoutKey (demo_env None)" by (simp add: lockoutKey_def demo_env_def)
  have "lockout_inv 1 loginLockoutFor 4 4 ?acc"
    by (simp add: lockout_inv_def newFailureLockoutSized_def table_ok_def entry_ok_def strikes_ok_def loginLockoutFor_def)
  moreover have "0 < lockedFor (lockoutKey (demo_env None)) 4 ?acc"
    by (simp add: lockedFor_def loginLockoutFor_def)
  ultimately show ?thesis
    using locked_login_refused [of 50 10 4 "demo_env (Some (True, second))"
        "demo_state\<lparr>ls_account := ?acc\<rparr>" 1 loginLockoutFor 4] demo_lockouts(1)
    by (simp add: k) (simp add: demo_env_def)
qed

end
