(* ===== verification/Mfa_Challenge.thy ===== *)
theory Mfa_Challenge
  imports Go_Table
begin

text \<open>
  The second-factor challenges of \<open>backend/internal/mfa/mfa.go\<close> and the number match of
  \<open>backend/internal/mfa/number_match.go\<close>.

  Every method runs under the store's lock, so a call is one step on the table. The clock and the answers
  of \<open>crypto/rand\<close> are inputs, a random answer \<open>None\<close> being an error. \<open>newNumberMatch\<close> draws until it has
  two decoys: it gets a list of answers and returns \<open>None\<close> when they are used up.
\<close>

section \<open>State\<close>

datatype mfa_error =
  ErrChallengeNotFound | ErrTooManyAttempts | ErrChallengeAlreadyUsed | ErrChallengeAlreadyResolved |
  ErrPushNotApproved | ErrMatchAttemptsExhausted | MfaRandError

definition MaxTOTPAttempts :: nat where "MaxTOTPAttempts = 5"

definition challengeTTL :: duration where "challengeTTL = 5 * minute"

definition PushPending :: string where "PushPending = ''pending''"
definition PushApproved :: string where "PushApproved = ''approved''"
definition PushDenied :: string where "PushDenied = ''denied''"
definition PushLocked :: string where "PushLocked = ''locked''"

lemmas push_states = PushPending_def PushApproved_def PushDenied_def PushLocked_def

record challenge =
  ch_ID :: string
  ch_UserID :: string
  ch_Fence :: nat
  ch_CreatedAt :: time
  ch_ExpiresAt :: time
  ch_TOTPAttempts :: nat
  ch_UsedTOTPStep :: int
  ch_PushStatus :: string
  ch_RespondedBy :: string
  ch_MatchDigits :: string
  ch_DecoyDigits :: "string list"
  ch_MatchAttempts :: nat
  ch_FinishSecret :: string

type_synonym challenges = "challenge table"

definition isPushResolved :: "string \<Rightarrow> bool" where
  "isPushResolved status \<longleftrightarrow> status = PushApproved \<or> status = PushDenied \<or> status = PushLocked"

section \<open>The number match\<close>

definition matchDigitCount :: nat where "matchDigitCount = 2"

definition decoyCount :: nat where "decoyCount = 2"

text \<open>\<open>fmt.Sprintf\<close> with a width of two and zero padding, below a hundred.\<close>

definition two_digits :: "nat \<Rightarrow> string" where
  "two_digits n = [char_of (48 + n div 10), char_of (48 + n mod 10)]"

text \<open>\<open>rand.Int\<close> answers below its bound, 100.\<close>

definition randomTwoDigits :: "nat option \<Rightarrow> (mfa_error, string) result" where
  "randomTwoDigits draw = (case draw of None \<Rightarrow> Inl MfaRandError | Some n \<Rightarrow> Inr (two_digits (n mod 100)))"

fun decoy_loop :: "string \<Rightarrow> string list \<Rightarrow> nat option list \<Rightarrow> (mfa_error, string \<times> string list) result option" where
  "decoy_loop m decoys draws =
     (if length decoys < decoyCount then
        (case draws of
           [] \<Rightarrow> None
         | d # ds \<Rightarrow>
             (case randomTwoDigits d of
                Inl e \<Rightarrow> Some (Inl e)
              | Inr candidate \<Rightarrow>
                  if candidate \<in> set (m # decoys) then decoy_loop m decoys ds
                  else decoy_loop m (decoys @ [candidate]) ds))
      else Some (Inr (m, decoys)))"

declare decoy_loop.simps [simp del]

definition newNumberMatch :: "nat option list \<Rightarrow> (mfa_error, string \<times> string list) result option" where
  "newNumberMatch draws =
     (case draws of
        [] \<Rightarrow> None
      | d # ds \<Rightarrow> (case randomTwoDigits d of Inl e \<Rightarrow> Some (Inl e) | Inr m \<Rightarrow> decoy_loop m [] ds))"

section \<open>Operations\<close>

definition NewStore :: challenges where "NewStore = []"

definition SweepExpired :: "time \<Rightarrow> challenges \<Rightarrow> nat \<times> challenges" where
  "SweepExpired now m =
     (length (filter (\<lambda>(k, ch). now > ch_ExpiresAt ch) m), drop_if (\<lambda>ch. now > ch_ExpiresAt ch) m)"

text \<open>The random identifier and secret are the hexadecimal strings of the bytes drawn.\<close>

definition CreateFenced ::
  "string \<Rightarrow> nat \<Rightarrow> string option \<Rightarrow> string option \<Rightarrow> nat option list \<Rightarrow> time \<Rightarrow> challenges
     \<Rightarrow> ((mfa_error, challenge) result \<times> challenges) option" where
  "CreateFenced userID fence idBytes secretBytes draws now m =
     (case idBytes of
        None \<Rightarrow> Some (Inl MfaRandError, m)
      | Some ident \<Rightarrow>
          (case secretBytes of
             None \<Rightarrow> Some (Inl MfaRandError, m)
           | Some secret \<Rightarrow>
               (case newNumberMatch draws of
                  None \<Rightarrow> None
                | Some (Inl e) \<Rightarrow> Some (Inl e, m)
                | Some (Inr (matchDigits, decoyDigits)) \<Rightarrow>
                    (let ch = \<lparr>ch_ID = ident, ch_UserID = userID, ch_Fence = fence, ch_CreatedAt = now,
                               ch_ExpiresAt = now + challengeTTL, ch_TOTPAttempts = 0, ch_UsedTOTPStep = 0,
                               ch_PushStatus = [], ch_RespondedBy = [], ch_MatchDigits = matchDigits,
                               ch_DecoyDigits = decoyDigits, ch_MatchAttempts = 0, ch_FinishSecret = secret\<rparr>
                     in Some (Inr ch, AList.update ident ch m)))))"

text \<open>The test that opens every access: a missing or expired challenge is dropped.\<close>

definition with_live ::
  "string \<Rightarrow> time \<Rightarrow> challenges \<Rightarrow> 'r \<Rightarrow> (challenge \<Rightarrow> 'r \<times> challenges) \<Rightarrow> 'r \<times> challenges" where
  "with_live ident now m missing k =
     (case map_of m ident of
        None \<Rightarrow> (missing, AList.delete ident m)
      | Some ch \<Rightarrow> if now > ch_ExpiresAt ch then (missing, AList.delete ident m) else k ch)"

definition Get_challenge :: "string \<Rightarrow> time \<Rightarrow> challenges \<Rightarrow> challenge option \<times> challenges" where
  "Get_challenge ident now m = with_live ident now m None (\<lambda>ch. (Some ch, m))"

definition RecordTOTPAttempt :: "string \<Rightarrow> time \<Rightarrow> challenges \<Rightarrow> mfa_error option \<times> challenges" where
  "RecordTOTPAttempt ident now m =
     with_live ident now m (Some ErrChallengeNotFound) (\<lambda>ch0.
       let ch = ch0\<lparr>ch_TOTPAttempts := ch_TOTPAttempts ch0 + 1\<rparr> in
       if ch_TOTPAttempts ch > MaxTOTPAttempts then (Some ErrTooManyAttempts, AList.delete ident m)
       else (None, AList.update ident ch m))"

definition ConsumeTOTPStep :: "string \<Rightarrow> int \<Rightarrow> time \<Rightarrow> challenges \<Rightarrow> mfa_error option \<times> challenges" where
  "ConsumeTOTPStep ident step now m =
     with_live ident now m (Some ErrChallengeNotFound) (\<lambda>ch.
       if ch_UsedTOTPStep ch \<noteq> 0 then (Some ErrChallengeAlreadyUsed, m)
       else (None, AList.update ident (ch\<lparr>ch_UsedTOTPStep := step\<rparr>) m))"

definition Delete_challenge :: "string \<Rightarrow> challenges \<Rightarrow> challenges" where
  "Delete_challenge ident m = AList.delete ident m"

definition DeleteByUser :: "string \<Rightarrow> challenges \<Rightarrow> challenges" where
  "DeleteByUser userID m = drop_if (\<lambda>ch. ch_UserID ch = userID) m"

definition SupersedeUnansweredPush :: "string \<Rightarrow> string \<Rightarrow> challenges \<Rightarrow> nat \<times> challenges" where
  "SupersedeUnansweredPush userID exceptID m =
     (let gone = (\<lambda>(ident, ch). ch_UserID ch = userID \<and> ident \<noteq> exceptID \<and> \<not> isPushResolved (ch_PushStatus ch)) in
      (length (filter gone m), filter (\<lambda>e. \<not> gone e) m))"

definition PushStatus :: "string \<Rightarrow> time \<Rightarrow> challenges \<Rightarrow> string option \<times> challenges" where
  "PushStatus ident now m =
     with_live ident now m None (\<lambda>ch.
       (Some (if ch_PushStatus ch = [] then PushPending else ch_PushStatus ch), m))"

definition ConsumePushApproval :: "string \<Rightarrow> string \<Rightarrow> time \<Rightarrow> challenges \<Rightarrow> (mfa_error, string) result \<times> challenges" where
  "ConsumePushApproval ident secret now m =
     with_live ident now m (Inl ErrChallengeNotFound) (\<lambda>ch.
       if secret \<noteq> ch_FinishSecret ch then (Inl ErrChallengeNotFound, m)
       else if ch_PushStatus ch \<noteq> PushApproved then (Inl ErrPushNotApproved, m)
       else (Inr (ch_UserID ch), AList.delete ident m))"

text \<open>The status is returned beside the error.\<close>

definition ResolvePushWithMatch ::
  "string \<Rightarrow> string \<Rightarrow> bool \<Rightarrow> string \<Rightarrow> time \<Rightarrow> challenges \<Rightarrow> (string \<times> mfa_error option) \<times> challenges" where
  "ResolvePushWithMatch ident deviceID approve matchDigits now m =
     with_live ident now m ([], Some ErrChallengeNotFound) (\<lambda>ch.
       if isPushResolved (ch_PushStatus ch) then
         (if ch_PushStatus ch = PushLocked then ((ch_PushStatus ch, Some ErrMatchAttemptsExhausted), m)
          else ((ch_PushStatus ch, Some ErrChallengeAlreadyResolved), m))
       else if approve \<and> matchDigits \<noteq> ch_MatchDigits ch then
         ((PushLocked, Some ErrMatchAttemptsExhausted),
          AList.update ident (ch\<lparr>ch_MatchAttempts := ch_MatchAttempts ch + 1, ch_PushStatus := PushLocked,
                                  ch_RespondedBy := deviceID\<rparr>) m)
       else
         (let status = (if approve then PushApproved else PushDenied) in
          ((status, None), AList.update ident (ch\<lparr>ch_PushStatus := status, ch_RespondedBy := deviceID\<rparr>) m)))"

section \<open>Runs\<close>

datatype mfa_op =
  CreateCh string nat "string option" "string option" "nat option list"
| GetCh string | FailTOTP string | UseTOTP string int | DropCh string | DropUser string | Supersede string string
| AskStatus string | Answer string string bool string | FinishPush string string | SweepCh

datatype mfa_answer = Created challenge | Resolved string | SignedIn string | Done | Refused

definition done_or :: "mfa_error option \<times> challenges \<Rightarrow> mfa_answer \<times> challenges" where
  "done_or r = ((if fst r = None then Done else Refused), snd r)"

fun mfa_step :: "time \<times> mfa_op \<Rightarrow> challenges \<Rightarrow> mfa_answer \<times> challenges" where
  "mfa_step (now, CreateCh u f i s ds) m =
     (case CreateFenced u f i s ds now m of
        Some (Inr ch, m') \<Rightarrow> (Created ch, m') | Some (Inl _, m') \<Rightarrow> (Refused, m') | None \<Rightarrow> (Refused, m))"
| "mfa_step (now, GetCh i) m = (Done, snd (Get_challenge i now m))"
| "mfa_step (now, FailTOTP i) m = done_or (RecordTOTPAttempt i now m)"
| "mfa_step (now, UseTOTP i st) m = done_or (ConsumeTOTPStep i st now m)"
| "mfa_step (now, DropCh i) m = (Done, Delete_challenge i m)"
| "mfa_step (now, DropUser u) m = (Done, DeleteByUser u m)"
| "mfa_step (now, Supersede u i) m = (Done, snd (SupersedeUnansweredPush u i m))"
| "mfa_step (now, AskStatus i) m = (Done, snd (PushStatus i now m))"
| "mfa_step (now, Answer i dev ap d) m =
     (let r = ResolvePushWithMatch i dev ap d now m in (if snd (fst r) = None then Resolved (fst (fst r)) else Refused, snd r))"
| "mfa_step (now, FinishPush i s) m =
     (let r = ConsumePushApproval i s now m in (case fst r of Inr u \<Rightarrow> SignedIn u | Inl _ \<Rightarrow> Refused, snd r))"
| "mfa_step (now, SweepCh) m = (Done, snd (SweepExpired now m))"

text \<open>What no operation changes in a challenge once it is created.\<close>

definition ticket :: "challenge \<Rightarrow> string \<times> string \<times> string \<times> time" where
  "ticket ch = (ch_UserID ch, ch_MatchDigits ch, ch_FinishSecret ch, ch_ExpiresAt ch)"

definition answered :: "time \<times> mfa_op \<Rightarrow> mfa_answer \<Rightarrow> string \<Rightarrow> challenge \<Rightarrow> challenge \<Rightarrow> bool" where
  "answered x a ident ch0 ch \<longleftrightarrow>
     (\<exists>now dev ap d. x = (now, Answer ident dev ap d) \<and> now \<le> ch_ExpiresAt ch0 \<and> \<not> isPushResolved (ch_PushStatus ch0) \<and>
        isPushResolved (ch_PushStatus ch) \<and>
        (ch_PushStatus ch = PushApproved \<longrightarrow> ap \<and> d = ch_MatchDigits ch0 \<and> a = Resolved PushApproved))"

text \<open>Where an entry of the table after a call comes from.\<close>

definition stems :: "time \<times> mfa_op \<Rightarrow> mfa_answer \<Rightarrow> challenges \<Rightarrow> string \<Rightarrow> challenge \<Rightarrow> bool" where
  "stems x a m ident ch \<longleftrightarrow>
     (\<exists>now u f s ds. x = (now, CreateCh u f (Some ident) (Some s) ds) \<and> a = Created ch \<and>
        ch_UserID ch = u \<and> ch_FinishSecret ch = s \<and> ch_ExpiresAt ch = now + challengeTTL \<and> ch_PushStatus ch = []) \<or>
     (\<exists>ch0. map_of m ident = Some ch0 \<and> ticket ch = ticket ch0 \<and>
        (ch_PushStatus ch = ch_PushStatus ch0 \<or> answered x a ident ch0 ch))"

lemma stems_old: "map_of m ident = Some ch \<Longrightarrow> stems x a m ident ch"
  by (auto simp: stems_def)

lemma distinct_keys_filter: "distinct (keys es) \<Longrightarrow> distinct (keys (filter P es))"
  by (induction es) (auto simp: keys_def)

lemma map_of_filterD: "map_of (filter P es) k = Some v \<Longrightarrow> distinct (keys es) \<Longrightarrow> map_of es k = Some v"
  by (auto simp: keys_def distinct_map_filter dest!: map_of_SomeD intro!: map_of_is_SomeI)

lemma deleted_entry: "map_of (AList.delete i m) ident = Some ch \<Longrightarrow> map_of m ident = Some ch"
  by (simp add: table split: if_splits)

lemma CreateFenced_Created:
  assumes "CreateFenced u f i s ds now m = Some (Inr ch, m')"
  shows "m' = AList.update (ch_ID ch) ch m" "i = Some (ch_ID ch)" "s = Some (ch_FinishSecret ch)" "ch_UserID ch = u"
    "ch_ExpiresAt ch = now + challengeTTL" "ch_PushStatus ch = []" "ch_TOTPAttempts ch = 0" "ch_UsedTOTPStep ch = 0"
  using assms by (auto simp: CreateFenced_def Let_def split: option.splits sum.splits)

lemma CreateFenced_Refused: "CreateFenced u f i s ds now m = Some (Inl e, m') \<Longrightarrow> m' = m"
  by (auto simp: CreateFenced_def Let_def split: option.splits sum.splits)

lemma create_cases:
  obtains (created) ch where "mfa_step (now, CreateCh u f i s ds) m = (Created ch, AList.update (ch_ID ch) ch m)"
      "i = Some (ch_ID ch)" "s = Some (ch_FinishSecret ch)" "ch_UserID ch = u" "ch_ExpiresAt ch = now + challengeTTL"
      "ch_PushStatus ch = []" "ch_TOTPAttempts ch = 0" "ch_UsedTOTPStep ch = 0"
  | (refused) "mfa_step (now, CreateCh u f i s ds) m = (Refused, m)"
proof (cases "CreateFenced u f i s ds now m")
  case None
  then show thesis using refused by simp
next
  case (Some p)
  then obtain r m' where p: "CreateFenced u f i s ds now m = Some (r, m')" by (cases p) auto
  show thesis
  proof (cases r)
    case (Inl e)
    with p CreateFenced_Refused show thesis using refused by simp
  next
    case (Inr ch)
    note c = CreateFenced_Created [OF p [unfolded Inr]]
    have "mfa_step (now, CreateCh u f i s ds) m = (Created ch, AList.update (ch_ID ch) ch m)"
      using p Inr c(1) by simp
    then show thesis using c(2-8) by (rule created)
  qed
qed

lemma mfa_step_distinct: "distinct (keys m) \<Longrightarrow> distinct (keys (snd (mfa_step (now, op) m)))"
proof -
  assume d: "distinct (keys m)"
  show ?thesis
  proof (cases op)
    case (CreateCh u f i s ds)
    with d show ?thesis by (cases rule: create_cases [of now u f i s ds m]) (simp_all add: table)
  next
    case (Answer i dev ap dg)
    with d show ?thesis by (auto simp: ResolvePushWithMatch_def with_live_def Let_def table split: option.split)
  next
    case (FinishPush i s)
    with d show ?thesis by (auto simp: ConsumePushApproval_def with_live_def Let_def table split: option.split)
  qed (use d in \<open>simp_all add: done_or_def Get_challenge_def RecordTOTPAttempt_def ConsumeTOTPStep_def Delete_challenge_def
         DeleteByUser_def SupersedeUnansweredPush_def PushStatus_def SweepExpired_def with_live_def Let_def table distinct_keys_filter
         split: option.split\<close>)
qed

lemma stems_update:
  assumes "map_of m i = Some ch0" and "ticket ch' = ticket ch0"
    and "ch_PushStatus ch' = ch_PushStatus ch0 \<or> answered x a i ch0 ch'"
    and "map_of (AList.update i ch' m) ident = Some ch"
  shows "stems x a m ident ch"
  using assms by (cases "ident = i") (simp_all add: table stems_def)

text \<open>What an access to a challenge leaves behind.\<close>

definition accessed :: "time \<times> mfa_op \<Rightarrow> mfa_answer \<Rightarrow> string \<Rightarrow> challenges \<Rightarrow> challenges \<Rightarrow> bool" where
  "accessed x a i m m' \<longleftrightarrow>
     m' = m \<or> m' = AList.delete i m \<or>
     (\<exists>ch0 ch'. map_of m i = Some ch0 \<and> m' = AList.update i ch' m \<and> ticket ch' = ticket ch0 \<and>
        (ch_PushStatus ch' = ch_PushStatus ch0 \<or> answered x a i ch0 ch'))"

lemma accessed_stems: "accessed x a i m m' \<Longrightarrow> map_of m' ident = Some ch \<Longrightarrow> stems x a m ident ch"
  unfolding accessed_def by (auto intro: stems_old deleted_entry stems_update)

lemma accessed_update:
  "map_of m i = Some ch0 \<Longrightarrow> ticket ch' = ticket ch0 \<Longrightarrow>
     ch_PushStatus ch' = ch_PushStatus ch0 \<or> answered x a i ch0 ch' \<Longrightarrow> accessed x a i m (AList.update i ch' m)"
  by (auto simp: accessed_def)

lemma with_live_accessed:
  assumes "\<And>ch. map_of m i = Some ch \<Longrightarrow> now \<le> ch_ExpiresAt ch \<Longrightarrow> accessed x a i m (snd (k ch))"
  shows "accessed x a i m (snd (with_live i now m miss k))"
  using assms by (auto simp: with_live_def accessed_def split: option.split)

lemma RecordTOTPAttempt_accessed: "accessed x a i m (snd (RecordTOTPAttempt i now m))"
  unfolding RecordTOTPAttempt_def
  by (rule with_live_accessed) (auto simp: accessed_def Let_def ticket_def)

lemma ConsumeTOTPStep_accessed: "accessed x a i m (snd (ConsumeTOTPStep i st now m))"
  unfolding ConsumeTOTPStep_def
  by (rule with_live_accessed) (auto simp: accessed_def ticket_def)

lemma Get_challenge_accessed: "accessed x a i m (snd (Get_challenge i now m))"
  and PushStatus_accessed: "accessed x a i m (snd (PushStatus i now m))"
  and ConsumePushApproval_accessed: "accessed x a i m (snd (ConsumePushApproval i s now m))"
  unfolding Get_challenge_def PushStatus_def ConsumePushApproval_def
  by (rule with_live_accessed; simp add: accessed_def)+

lemma push_states_resolved [simp]:
  "isPushResolved PushApproved" "isPushResolved PushDenied" "isPushResolved PushLocked"
  "PushLocked \<noteq> PushApproved" "PushDenied \<noteq> PushApproved" "PushApproved \<noteq> PushLocked" "PushApproved \<noteq> PushDenied"
  "\<not> isPushResolved []" "PushApproved \<noteq> []"
  by (simp_all add: isPushResolved_def push_states)

lemma Resolve_cases:
  assumes "map_of m i = Some ch" and "now \<le> ch_ExpiresAt ch"
  obtains (answered_before) "isPushResolved (ch_PushStatus ch)" "snd (ResolvePushWithMatch i dev ap d now m) = m"
    "snd (fst (ResolvePushWithMatch i dev ap d now m)) \<noteq> None"
  | (wrong) "\<not> isPushResolved (ch_PushStatus ch)" "ap" "d \<noteq> ch_MatchDigits ch"
    "ResolvePushWithMatch i dev ap d now m = ((PushLocked, Some ErrMatchAttemptsExhausted),
       AList.update i (ch\<lparr>ch_MatchAttempts := ch_MatchAttempts ch + 1, ch_PushStatus := PushLocked, ch_RespondedBy := dev\<rparr>) m)"
  | (denied) "\<not> isPushResolved (ch_PushStatus ch)" "\<not> ap"
    "ResolvePushWithMatch i dev ap d now m = ((PushDenied, None),
       AList.update i (ch\<lparr>ch_PushStatus := PushDenied, ch_RespondedBy := dev\<rparr>) m)"
  | (approved) "\<not> isPushResolved (ch_PushStatus ch)" "ap" "d = ch_MatchDigits ch"
    "ResolvePushWithMatch i dev ap d now m = ((PushApproved, None),
       AList.update i (ch\<lparr>ch_PushStatus := PushApproved, ch_RespondedBy := dev\<rparr>) m)"
proof -
  have r: "ResolvePushWithMatch i dev ap d now m =
      (if isPushResolved (ch_PushStatus ch) then
         (if ch_PushStatus ch = PushLocked then ((ch_PushStatus ch, Some ErrMatchAttemptsExhausted), m)
          else ((ch_PushStatus ch, Some ErrChallengeAlreadyResolved), m))
       else if ap \<and> d \<noteq> ch_MatchDigits ch then
         ((PushLocked, Some ErrMatchAttemptsExhausted),
          AList.update i (ch\<lparr>ch_MatchAttempts := ch_MatchAttempts ch + 1, ch_PushStatus := PushLocked, ch_RespondedBy := dev\<rparr>) m)
       else ((if ap then PushApproved else PushDenied, None),
          AList.update i (ch\<lparr>ch_PushStatus := if ap then PushApproved else PushDenied, ch_RespondedBy := dev\<rparr>) m))"
    using assms by (simp add: ResolvePushWithMatch_def with_live_def Let_def)
  consider (a) "isPushResolved (ch_PushStatus ch)" | (b) "\<not> isPushResolved (ch_PushStatus ch)" "ap" "d \<noteq> ch_MatchDigits ch"
    | (c) "\<not> isPushResolved (ch_PushStatus ch)" "\<not> ap" | (d) "\<not> isPushResolved (ch_PushStatus ch)" "ap" "d = ch_MatchDigits ch"
    by blast
  then show thesis
  proof cases
    case a
    then show thesis using r by (intro answered_before) simp_all
  next
    case b
    then show thesis using r by (intro wrong) simp_all
  next
    case c
    then show thesis using r by (intro denied) simp_all
  next
    case d
    then show thesis using r by (intro approved) simp_all
  qed
qed

lemma Answer_accessed:
  "accessed (now, Answer i dev ap d) (fst (mfa_step (now, Answer i dev ap d) m)) i m
     (snd (ResolvePushWithMatch i dev ap d now m))"
proof (cases "\<exists>ch. map_of m i = Some ch \<and> now \<le> ch_ExpiresAt ch")
  case True
  then obtain ch where ch: "map_of m i = Some ch" "now \<le> ch_ExpiresAt ch" by blast
  from ch show ?thesis
  proof (cases rule: Resolve_cases [where dev = dev and ap = ap and d = d])
    case answered_before
    then show ?thesis by (simp add: accessed_def)
  qed (use ch in \<open>auto simp: answered_def ticket_def Let_def intro!: accessed_update\<close>)
next
  case False
  then show ?thesis by (auto simp: ResolvePushWithMatch_def with_live_def accessed_def split: option.split)
qed

lemma mfa_step_stems:
  assumes d: "distinct (keys m)" and e: "map_of (snd (mfa_step (now, op) m)) ident = Some ch"
  shows "stems (now, op) (fst (mfa_step (now, op) m)) m ident ch"
proof (cases op)
  case (CreateCh u f i s ds)
  show ?thesis
  proof (cases rule: create_cases [of now u f i s ds m])
    case (created ch')
    with CreateCh e show ?thesis by (cases "ident = ch_ID ch'") (auto simp: table stems_def)
  next
    case refused
    with CreateCh e show ?thesis by (simp add: stems_old)
  qed
next
  case (GetCh i)
  with e accessed_stems [OF Get_challenge_accessed] show ?thesis by simp
next
  case (FailTOTP i)
  with e accessed_stems [OF RecordTOTPAttempt_accessed] show ?thesis by (simp add: done_or_def)
next
  case (UseTOTP i st)
  with e accessed_stems [OF ConsumeTOTPStep_accessed] show ?thesis by (simp add: done_or_def)
next
  case (DropCh i)
  with e show ?thesis by (auto simp: Delete_challenge_def intro: stems_old dest: deleted_entry)
next
  case (DropUser u)
  with e d show ?thesis by (auto simp: DeleteByUser_def table stems_old split: option.splits if_splits)
next
  case (Supersede u i)
  with e d show ?thesis by (auto simp: SupersedeUnansweredPush_def Let_def intro: stems_old dest: map_of_filterD)
next
  case (AskStatus i)
  with e accessed_stems [OF PushStatus_accessed] show ?thesis by simp
next
  case (Answer i dev ap dg)
  with e accessed_stems [OF Answer_accessed] show ?thesis by (simp add: Let_def)
next
  case (FinishPush i s)
  with e accessed_stems [OF ConsumePushApproval_accessed] show ?thesis by (simp add: Let_def)
next
  case SweepCh
  with e d show ?thesis by (auto simp: SweepExpired_def table stems_old split: option.splits if_splits)
qed

section \<open>What an approval owes to the past\<close>

text \<open>
  \<open>backed h ident ch\<close>: the challenge was created by a call of the history that drew this identifier,
  with the same user, digits, secret and lifetime; and an approval was given after that by a device
  that sent the challenge's own digits while it was live.
\<close>

definition backed :: "((time \<times> mfa_op) \<times> mfa_answer) list \<Rightarrow> string \<Rightarrow> challenge \<Rightarrow> bool" where
  "backed h ident ch \<longleftrightarrow>
     (\<exists>i now f ds ch0. i < length h \<and>
        h ! i = ((now, CreateCh (ch_UserID ch) f (Some ident) (Some (ch_FinishSecret ch)) ds), Created ch0) \<and>
        ticket ch = ticket ch0 \<and> ch_ExpiresAt ch = now + challengeTTL \<and>
        (ch_PushStatus ch = PushApproved \<longrightarrow>
           (\<exists>j t dev. i < j \<and> j < length h \<and> t \<le> ch_ExpiresAt ch \<and>
              h ! j = ((t, Answer ident dev True (ch_MatchDigits ch)), Resolved PushApproved))))"

definition all_backed :: "((time \<times> mfa_op) \<times> mfa_answer) list \<Rightarrow> challenges \<Rightarrow> bool" where
  "all_backed h m \<longleftrightarrow> distinct (keys m) \<and> (\<forall>ident ch. map_of m ident = Some ch \<longrightarrow> backed h ident ch)"

lemma backed_later: "backed h ident ch \<Longrightarrow> backed (h @ [x]) ident ch"
  unfolding backed_def by (metis (no_types, lifting) less_Suc_eq length_append_singleton nth_append_left)

lemma backed_same:
  assumes "backed h ident ch0" and "ticket ch = ticket ch0" and "ch_PushStatus ch = PushApproved \<Longrightarrow> ch_PushStatus ch0 = PushApproved"
  shows "backed h ident ch"
proof -
  have eqs: "ch_UserID ch = ch_UserID ch0" "ch_MatchDigits ch = ch_MatchDigits ch0" "ch_FinishSecret ch = ch_FinishSecret ch0"
    "ch_ExpiresAt ch = ch_ExpiresAt ch0" using assms(2) by (simp_all add: ticket_def)
  show ?thesis using assms(1,3) unfolding backed_def assms(2) eqs by blast
qed

lemma backed_created:
  assumes "x = (now, CreateCh u f (Some ident) (Some s) ds)" and "ch_UserID ch = u" "ch_FinishSecret ch = s"
    "ch_ExpiresAt ch = now + challengeTTL" "ch_PushStatus ch = []"
  shows "backed (h @ [(x, Created ch)]) ident ch"
proof -
  have "ch_PushStatus ch \<noteq> PushApproved" using assms(5) by (simp add: push_states)
  with assms show ?thesis
    unfolding backed_def by (intro exI [of _ "length h"] exI [of _ now] exI [of _ f] exI [of _ ds] exI [of _ ch]) simp
qed

lemma backed_answered:
  assumes "backed h ident ch0" and "ticket ch = ticket ch0" and "answered x a ident ch0 ch"
  shows "backed (h @ [(x, a)]) ident ch"
proof (cases "ch_PushStatus ch = PushApproved")
  case True
  with assms(3) obtain t dev where x: "x = (t, Answer ident dev True (ch_MatchDigits ch0))" "t \<le> ch_ExpiresAt ch0"
    "a = Resolved PushApproved" by (auto simp: answered_def)
  from assms(1) obtain i now f ds c where i: "i < length h"
    "h ! i = ((now, CreateCh (ch_UserID ch0) f (Some ident) (Some (ch_FinishSecret ch0)) ds), Created c)"
    "ticket ch0 = ticket c" "ch_ExpiresAt ch0 = now + challengeTTL" unfolding backed_def by blast
  have "(h @ [(x, a)]) ! i = h ! i" "(h @ [(x, a)]) ! length h = (x, a)" using i(1) by (simp_all add: nth_append)
  with i x assms(2) show ?thesis
    unfolding backed_def
    by (intro exI [of _ i] exI [of _ now] exI [of _ f] exI [of _ ds] exI [of _ c])
      (auto simp: ticket_def intro!: exI [of _ "length h"])
next
  case False
  then have "backed h ident ch" by (intro backed_same [OF assms(1,2)]) simp
  then show ?thesis by (rule backed_later)
qed

interpretation mfa: history_system mfa_step all_backed
proof
  fix h m and x :: "time \<times> mfa_op"
  assume h: "all_backed h m"
  obtain now op where x: "x = (now, op)" by (cases x)
  let ?a = "fst (mfa_step x m)"
  have "backed (h @ [(x, ?a)]) ident ch" if "map_of (snd (mfa_step x m)) ident = Some ch" for ident ch
  proof -
    have "stems x ?a m ident ch" using h that mfa_step_stems by (simp add: all_backed_def x)
    then consider now u f s ds where "x = (now, CreateCh u f (Some ident) (Some s) ds)" "?a = Created ch" "ch_UserID ch = u"
        "ch_FinishSecret ch = s" "ch_ExpiresAt ch = now + challengeTTL" "ch_PushStatus ch = []"
      | ch0 where "map_of m ident = Some ch0" "ticket ch = ticket ch0" "ch_PushStatus ch = ch_PushStatus ch0"
      | ch0 where "map_of m ident = Some ch0" "ticket ch = ticket ch0" "answered x ?a ident ch0 ch"
      unfolding stems_def by blast
    then show ?thesis
    proof cases
      case 1
      from backed_created [OF 1(1,3-6), of h] 1(2) show ?thesis by simp
    next
      case 2
      with h have "backed h ident ch0" by (simp add: all_backed_def)
      with 2 have "backed h ident ch" by (metis backed_same)
      then show ?thesis by (rule backed_later)
    next
      case 3
      with h have "backed h ident ch0" by (simp add: all_backed_def)
      from backed_answered [OF this 3(2,3)] show ?thesis .
    qed
  qed
  moreover have "distinct (keys (snd (mfa_step x m)))" using h mfa_step_distinct by (simp add: all_backed_def x)
  ultimately show "all_backed (h @ [(x, ?a)]) (snd (mfa_step x m))" by (simp add: all_backed_def)
qed

lemma FinishPush_SignedIn:
  assumes "fst (mfa_step (now, FinishPush ident secret) m) = SignedIn u"
  obtains ch where "map_of m ident = Some ch" "now \<le> ch_ExpiresAt ch" "ch_FinishSecret ch = secret"
    "ch_PushStatus ch = PushApproved" "ch_UserID ch = u"
  using assms by (auto simp: ConsumePushApproval_def with_live_def Let_def split: option.splits if_splits)

section \<open>Final answers and budgets\<close>

definition creates :: "string \<Rightarrow> time \<times> mfa_op \<Rightarrow> bool" where
  "creates ident x \<longleftrightarrow> (\<exists>now u f s ds. x = (now, CreateCh u f (Some ident) s ds))"

text \<open>A resolved challenge keeps its status until it is gone.\<close>

lemma resolved_kept:
  assumes "distinct (keys m)" and "\<not> creates ident (now, op)"
    and "\<And>ch. map_of m ident = Some ch \<Longrightarrow> isPushResolved (ch_PushStatus ch) \<and> ch_PushStatus ch = st"
    and "map_of (snd (mfa_step (now, op) m)) ident = Some ch"
  shows "isPushResolved (ch_PushStatus ch) \<and> ch_PushStatus ch = st"
  using mfa_step_stems [OF assms(1,4)] assms(2,3) unfolding stems_def creates_def answered_def by metis

lemma unapproved_no_sign_in:
  assumes "distinct (keys m)" and "\<forall>x \<in> set ops. \<not> creates ident x" and "st \<noteq> PushApproved"
    and "\<And>ch. map_of m ident = Some ch \<Longrightarrow> isPushResolved (ch_PushStatus ch) \<and> ch_PushStatus ch = st"
  shows "((t, FinishPush ident secret), SignedIn u) \<notin> set (history mfa_step ops m)"
  using assms
proof (induction ops arbitrary: m)
  case (Cons x ops)
  obtain now op where x: "x = (now, op)" by (cases x)
  have "distinct (keys (snd (mfa_step x m)))" using mfa_step_distinct [OF Cons.prems(1)] by (simp add: x)
  moreover have "isPushResolved (ch_PushStatus ch) \<and> ch_PushStatus ch = st" if "map_of (snd (mfa_step x m)) ident = Some ch" for ch
  proof (rule resolved_kept [OF Cons.prems(1) _ Cons.prems(4)])
    show "\<not> creates ident (now, op)" using Cons.prems(2) by (simp add: x)
    show "map_of (snd (mfa_step (now, op) m)) ident = Some ch" using that by (simp add: x)
  qed
  ultimately have "((t, FinishPush ident secret), SignedIn u) \<notin> set (history mfa_step ops (snd (mfa_step x m)))"
    using Cons.prems(2,3) by (intro Cons.IH) auto
  moreover have "fst (mfa_step x m) \<noteq> SignedIn u" if "x = (t, FinishPush ident secret)"
    using FinishPush_SignedIn [of t ident secret m u] Cons.prems(3,4) that by metis
  ultimately show ?case by (auto simp: history_def run_calls_Cons simp del: run_calls.simps(2))
qed (simp add: history_def)

text \<open>
  A live challenge has five failed codes to spend and one good one. What is left of a budget never grows
  while the identifier is not drawn again.
\<close>

definition totp_left :: "challenges \<Rightarrow> string \<Rightarrow> nat" where
  "totp_left m ident = (case map_of m ident of None \<Rightarrow> 0 | Some ch \<Rightarrow> MaxTOTPAttempts - ch_TOTPAttempts ch)"

lemma totp_left_update [simp]:
  "totp_left (AList.update i ch m) ident = (if ident = i then MaxTOTPAttempts - ch_TOTPAttempts ch else totp_left m ident)"
  "totp_left (AList.delete i m) ident = (if ident = i then 0 else totp_left m ident)"
  by (simp_all add: totp_left_def table)

lemma totp_left_smaller:
  assumes "\<And>ch. map_of m' ident = Some ch \<Longrightarrow> map_of m ident = Some ch"
  shows "totp_left m' ident \<le> totp_left m ident"
  using assms by (simp add: totp_left_def split: option.split)

lemma FailTOTP_left:
  "totp_left (snd (mfa_step (now, FailTOTP i) m)) ident + (if fst (mfa_step (now, FailTOTP i) m) = Done \<and> i = ident then 1 else 0)
     \<le> totp_left m ident"
proof (cases "\<exists>ch. map_of m i = Some ch \<and> now \<le> ch_ExpiresAt ch")
  case True
  then obtain ch where "map_of m i = Some ch" "now \<le> ch_ExpiresAt ch" by blast
  then show ?thesis by (auto simp: done_or_def RecordTOTPAttempt_def with_live_def Let_def totp_left_def [of m])
next
  case False
  then have "RecordTOTPAttempt i now m = (Some ErrChallengeNotFound, AList.delete i m)"
    by (auto simp: RecordTOTPAttempt_def with_live_def split: option.split)
  then show ?thesis by (simp add: done_or_def)
qed

lemma with_live_left:
  assumes "\<And>ch. map_of m i = Some ch \<Longrightarrow> now \<le> ch_ExpiresAt ch \<Longrightarrow> totp_left (snd (k ch)) ident \<le> totp_left m ident"
  shows "totp_left (snd (with_live i now m miss k)) ident \<le> totp_left m ident"
  using assms by (auto simp: with_live_def split: option.split)

lemma mfa_step_left:
  assumes "distinct (keys m)" and "\<not> creates ident (now, op)" and "\<nexists>i. op = FailTOTP i"
  shows "totp_left (snd (mfa_step (now, op) m)) ident \<le> totp_left m ident"
proof (cases op)
  case (CreateCh u f i s ds)
  show ?thesis
    by (cases rule: create_cases [of now u f i s ds m]) (use assms(2) CreateCh in \<open>auto simp: creates_def\<close>)
next
  case (Answer i dev ap d)
  then show ?thesis
    by (auto simp: ResolvePushWithMatch_def Let_def intro!: with_live_left) (auto simp: totp_left_def)
next
  case (UseTOTP i st)
  then show ?thesis
    by (auto simp: done_or_def ConsumeTOTPStep_def intro!: with_live_left) (auto simp: totp_left_def)
next
  case (Supersede u i)
  with assms(1) show ?thesis
    by (auto simp: SupersedeUnansweredPush_def Let_def intro!: totp_left_smaller dest: map_of_filterD)
next
  case (FinishPush i s)
  then show ?thesis by (auto simp: ConsumePushApproval_def Let_def intro!: with_live_left)
next
  case (GetCh i)
  then show ?thesis by (simp add: Get_challenge_def with_live_left)
next
  case (AskStatus i)
  then show ?thesis by (simp add: PushStatus_def with_live_left)
qed (use assms in \<open>auto simp: Delete_challenge_def DeleteByUser_def SweepExpired_def table
       intro!: totp_left_smaller split: option.splits if_splits\<close>)

lemma totp_failures_bounded:
  assumes "distinct (keys m)" and "\<forall>x \<in> set ops. \<not> creates ident x"
  shows "length (filter (\<lambda>(x, a). snd x = FailTOTP ident \<and> a = Done) (history mfa_step ops m)) \<le> totp_left m ident"
  using assms
proof (induction ops arbitrary: m)
  case (Cons x ops)
  obtain now op where x: "x = (now, op)" by (cases x)
  let ?m = "snd (mfa_step x m)"
  have h: "history mfa_step (x # ops) m = (x, fst (mfa_step x m)) # history mfa_step ops ?m"
    by (simp add: history_def run_calls_Cons del: run_calls.simps(2))
  have "length (filter (\<lambda>(x, a). snd x = FailTOTP ident \<and> a = Done) (history mfa_step ops ?m)) \<le> totp_left ?m ident"
    using Cons.prems mfa_step_distinct by (intro Cons.IH) (simp_all add: x)
  moreover have "totp_left ?m ident + (if snd x = FailTOTP ident \<and> fst (mfa_step x m) = Done then 1 else 0) \<le> totp_left m ident"
  proof (cases "\<exists>i. op = FailTOTP i")
    case True
    then obtain i where "op = FailTOTP i" ..
    then show ?thesis using FailTOTP_left [of now i m ident] by (auto simp: x simp del: mfa_step.simps split: if_splits)
  next
    case False
    then show ?thesis using mfa_step_left [OF Cons.prems(1) _ False, of ident now] Cons.prems(2) by (auto simp: x simp del: mfa_step.simps)
  qed
  ultimately show ?case by (auto simp: h simp del: mfa_step.simps split: if_splits)
qed (simp add: history_def)

text \<open>The options shown on the device are distinct two-digit numbers, and three distinct draws are enough.\<close>

lemma decoy_loop_distinct:
  "decoy_loop m ds draws = Some (Inr (m', ds')) \<Longrightarrow> distinct (m # ds) \<Longrightarrow> length ds \<le> decoyCount \<Longrightarrow>
     m' = m \<and> distinct (m' # ds') \<and> length ds' = decoyCount"
proof (induction m ds draws rule: decoy_loop.induct)
  case (1 m ds draws)
  show ?case
  proof (cases "length ds < decoyCount")
    case False
    with "1.prems" show ?thesis by (subst (asm) decoy_loop.simps) auto
  next
    case short: True
    with "1.prems"(1) obtain d draws' where d: "draws = d # draws'"
      by (subst (asm) decoy_loop.simps) (auto split: list.splits)
    with "1.prems"(1) short obtain c where c: "randomTwoDigits d = Inr c"
      by (subst (asm) decoy_loop.simps) (auto split: sum.splits)
    note IH = "1.IH" [OF short d c]
    show ?thesis
    proof (cases "c \<in> set (m # ds)")
      case True
      with "1.prems" short d c have "decoy_loop m ds draws' = Some (Inr (m', ds'))" by (subst (asm) decoy_loop.simps) simp
      with IH(1) [OF True] "1.prems" show ?thesis by blast
    next
      case False
      with "1.prems" short d c have "decoy_loop m (ds @ [c]) draws' = Some (Inr (m', ds'))" by (subst (asm) decoy_loop.simps) auto
      with IH(2) [OF False] "1.prems" False short show ?thesis by auto
    qed
  qed
qed

section \<open>Properties\<close>

text \<open>
  C23: A sign-in by push was asked for and answered. If a run from the empty store ends in a push sign-in
  of a user, then the run created a challenge for that user with exactly the presented identifier and
  secret at most five minutes before, and after that a device approved it by sending back the digits
  the challenge had drawn.
\<close>

theorem push_sign_in_was_approved:
  assumes "fst (mfa_step (now, FinishPush ident secret) (snd (run_calls mfa_step ops NewStore))) = SignedIn u"
  shows "\<exists>i j t0 t1 f ds ch dev. i < j \<and> j < length ops \<and>
    history mfa_step ops NewStore ! i = ((t0, CreateCh u f (Some ident) (Some secret) ds), Created ch) \<and>
    history mfa_step ops NewStore ! j = ((t1, Answer ident dev True (ch_MatchDigits ch)), Resolved PushApproved) \<and>
    now \<le> t0 + challengeTTL \<and> t1 \<le> t0 + challengeTTL"
proof -
  let ?m = "snd (run_calls mfa_step ops NewStore)" and ?h = "history mfa_step ops NewStore"
  obtain ch where ch: "map_of ?m ident = Some ch" "now \<le> ch_ExpiresAt ch" "ch_FinishSecret ch = secret"
    "ch_PushStatus ch = PushApproved" "ch_UserID ch = u" using FinishPush_SignedIn [OF assms] .
  have "all_backed ?h ?m" by (rule mfa.run_owed) (simp add: all_backed_def NewStore_def)
  then have "backed ?h ident ch" using ch(1) by (simp add: all_backed_def)
  then obtain i t0 f ds ch0 where i: "?h ! i = ((t0, CreateCh u f (Some ident) (Some secret) ds), Created ch0)"
      "ch_MatchDigits ch = ch_MatchDigits ch0" "ch_ExpiresAt ch = t0 + challengeTTL"
    and "\<exists>j t dev. i < j \<and> j < length ?h \<and> t \<le> ch_ExpiresAt ch \<and>
      ?h ! j = ((t, Answer ident dev True (ch_MatchDigits ch)), Resolved PushApproved)"
    using ch(3-5) unfolding backed_def ticket_def by blast
  with ch(2) show ?thesis by (metis length_history)
qed

text \<open>
  The first wrong number locks the push channel. When a device answers a live, unanswered challenge
  with other digits than it shows, the challenge is locked, and no later sequence of calls, however
  many devices answer with whatever digits, signs in by push with that challenge's identifier, unless
  the identifier is drawn again.
\<close>

theorem wrong_number_locks_push:
  assumes "distinct (keys m)" and "map_of m ident = Some ch" and "now \<le> ch_ExpiresAt ch"
    and "\<not> isPushResolved (ch_PushStatus ch)" and "digits \<noteq> ch_MatchDigits ch"
    and "\<forall>x \<in> set ops. \<not> creates ident x"
  shows "fst (ResolvePushWithMatch ident dev True digits now m) = (PushLocked, Some ErrMatchAttemptsExhausted) \<and>
         ((t, FinishPush ident secret), SignedIn u)
           \<notin> set (history mfa_step ops (snd (ResolvePushWithMatch ident dev True digits now m)))"
proof -
  let ?ch = "ch\<lparr>ch_MatchAttempts := ch_MatchAttempts ch + 1, ch_PushStatus := PushLocked, ch_RespondedBy := dev\<rparr>"
  have r: "ResolvePushWithMatch ident dev True digits now m =
      ((PushLocked, Some ErrMatchAttemptsExhausted), AList.update ident ?ch m)"
    using assms(2-5) by (simp add: ResolvePushWithMatch_def with_live_def)
  have "((t, FinishPush ident secret), SignedIn u) \<notin> set (history mfa_step ops (AList.update ident ?ch m))"
    by (rule unapproved_no_sign_in [where st = PushLocked]) (use assms(1,6) in \<open>auto simp: table\<close>)
  with r show ?thesis by simp
qed

definition demo_create :: mfa_op where
  "demo_create = CreateCh ''alice'' 0 (Some ''c1'') (Some ''s1'') [Some 42, Some 7, Some 42, Some 15]"

theorem push_sign_in_was_approved_witness:
  "\<exists>i j t0 t1 f ds ch dev. i < j \<and> j < 2 \<and>
     history mfa_step [(0, demo_create), (1, Answer ''c1'' ''phone'' True ''42'')] NewStore ! i =
       ((t0, CreateCh ''alice'' f (Some ''c1'') (Some ''s1'') ds), Created ch) \<and>
     history mfa_step [(0, demo_create), (1, Answer ''c1'' ''phone'' True ''42'')] NewStore ! j =
       ((t1, Answer ''c1'' dev True (ch_MatchDigits ch)), Resolved PushApproved) \<and>
     2 \<le> t0 + challengeTTL \<and> t1 \<le> t0 + challengeTTL"
proof -
  let ?ops = "[(0, demo_create), (1, Answer ''c1'' ''phone'' True ''42'')]"
  have "fst (mfa_step (2, FinishPush ''c1'' ''s1'') (snd (run_calls mfa_step ?ops NewStore))) = SignedIn ''alice''"
    by code_simp
  moreover have "length ?ops = 2" by simp
  ultimately show ?thesis using push_sign_in_was_approved [of 2 "''c1''" "''s1''" ?ops "''alice''"] by metis
qed

definition demo_challenge :: challenge where
  "demo_challenge = \<lparr>ch_ID = ''c1'', ch_UserID = ''alice'', ch_Fence = 0, ch_CreatedAt = 0, ch_ExpiresAt = 10, ch_TOTPAttempts = 0,
     ch_UsedTOTPStep = 0, ch_PushStatus = [], ch_RespondedBy = [], ch_MatchDigits = ''42'', ch_DecoyDigits = [''07'', ''15''],
     ch_MatchAttempts = 0, ch_FinishSecret = ''s1''\<rparr>"

theorem wrong_number_locks_push_witness:
  "((2, FinishPush ''c1'' ''s1''), SignedIn ''alice'') \<notin>
     set (history mfa_step [(2, Answer ''c1'' ''phone'' True ''42''), (2, FinishPush ''c1'' ''s1'')]
       (snd (ResolvePushWithMatch ''c1'' ''phone'' True ''07'' 1 [(''c1'', demo_challenge)])))"
proof -
  have "((2, FinishPush ''c1'' ''s1''), SignedIn ''alice'') \<notin>
      set (history mfa_step [(2, Answer ''c1'' ''phone'' True ''42''), (2, FinishPush ''c1'' ''s1'')]
        (snd (ResolvePushWithMatch ''c1'' ''phone'' True ''07'' 1 [(''c1'', demo_challenge)])))"
    using wrong_number_locks_push [of "[(''c1'', demo_challenge)]" "''c1''" demo_challenge 1 "''07''"
        "[(2, Answer ''c1'' ''phone'' True ''42''), (2, FinishPush ''c1'' ''s1'')]" "''phone''" 2 "''s1''" "''alice''"]
    by (simp add: demo_challenge_def creates_def)
  then show ?thesis .
qed

end
