(* ===== verification/Single_Use.thy ===== *)
theory Single_Use
  imports Go_Table
begin

text \<open>
  The one-time tokens of \<open>backend/internal/api/single_use.go\<close>. The digest \<open>sha256\<close>, in hexadecimal, is a
  parameter; that a token is refused while it is spent needs nothing of it. \<open>consume\<close> runs under a lock,
  so a call is one step.
\<close>

section \<open>State and operations\<close>

type_synonym spent = "time table"

definition singleUseSweepThreshold :: nat where "singleUseSweepThreshold = 10000"

definition qrTokenSingleUseTTL :: duration where "qrTokenSingleUseTTL = 5 * minute"

definition newSingleUseTokens :: spent where "newSingleUseTokens = []"

definition sweep_spent :: "time \<Rightarrow> spent \<Rightarrow> spent" where
  "sweep_spent now seen = (if length seen \<ge> singleUseSweepThreshold then drop_if (\<lambda>exp. now > exp) seen else seen)"

definition consume :: "(string \<Rightarrow> string) \<Rightarrow> string \<Rightarrow> duration \<Rightarrow> time \<Rightarrow> spent \<Rightarrow> bool \<times> spent" where
  "consume sha256 token ttl now seen0 =
     (let ident = sha256 token; seen = sweep_spent now seen0 in
      case map_of seen ident of
        Some exp \<Rightarrow> if now < exp then (False, seen) else (True, AList.update ident (now + ttl) seen)
      | None \<Rightarrow> (True, AList.update ident (now + ttl) seen))"

definition consumeQRToken :: "(string \<Rightarrow> string) \<Rightarrow> string \<Rightarrow> time \<Rightarrow> spent \<Rightarrow> bool \<times> spent" where
  "consumeQRToken sha256 token now seen = consume sha256 (''qr:'' @ token) qrTokenSingleUseTTL now seen"

definition consumeNativePairingNonce :: "(string \<Rightarrow> string) \<Rightarrow> string \<Rightarrow> duration \<Rightarrow> time \<Rightarrow> spent \<Rightarrow> bool \<times> spent" where
  "consumeNativePairingNonce sha256 nonce ttl now seen = consume sha256 (''pair:'' @ nonce) ttl now seen"

datatype redemption = RedeemQR string | RedeemPairing string duration

fun redeem :: "(string \<Rightarrow> string) \<Rightarrow> time \<times> redemption \<Rightarrow> spent \<Rightarrow> bool \<times> spent" where
  "redeem sha256 (now, RedeemQR token) seen = consumeQRToken sha256 token now seen"
| "redeem sha256 (now, RedeemPairing nonce ttl) seen = consumeNativePairingNonce sha256 nonce ttl now seen"

fun redeemed_token :: "redemption \<Rightarrow> string" where
  "redeemed_token (RedeemQR token) = ''qr:'' @ token"
| "redeemed_token (RedeemPairing nonce ttl) = ''pair:'' @ nonce"

fun redeemed_ttl :: "redemption \<Rightarrow> duration" where
  "redeemed_ttl (RedeemQR token) = qrTokenSingleUseTTL"
| "redeemed_ttl (RedeemPairing nonce ttl) = ttl"

lemma redeem_consume: "redeem sha256 (now, r) seen = consume sha256 (redeemed_token r) (redeemed_ttl r) now seen"
  by (cases r) (simp_all add: consumeQRToken_def consumeNativePairingNonce_def)

section \<open>A spent token stays spent\<close>

definition spent_until :: "time \<Rightarrow> string \<Rightarrow> spent \<Rightarrow> bool" where
  "spent_until t ident seen \<longleftrightarrow> distinct (keys seen) \<and> (\<exists>exp. map_of seen ident = Some exp \<and> t \<le> exp)"

lemma sweep_spent_distinct: "distinct (keys seen) \<Longrightarrow> distinct (keys (sweep_spent now seen))"
  by (simp add: sweep_spent_def table)

lemma sweep_spent_until: "spent_until t ident seen \<Longrightarrow> now \<le> t \<Longrightarrow> spent_until t ident (sweep_spent now seen)"
  by (auto simp: spent_until_def sweep_spent_def table)

lemma consume_distinct: "distinct (keys seen) \<Longrightarrow> distinct (keys (snd (consume sha256 token ttl now seen)))"
  using sweep_spent_distinct [of seen now] by (auto simp: consume_def Let_def table split: option.split)

lemma consume_marks:
  assumes "distinct (keys seen)" and "fst (consume sha256 token ttl now seen)"
  shows "spent_until (now + ttl) (sha256 token) (snd (consume sha256 token ttl now seen))"
  using assms consume_distinct [OF assms(1), of sha256 token ttl now]
  by (auto simp: spent_until_def consume_def Let_def table split: option.splits if_splits)

lemma consume_spent:
  assumes "spent_until t ident seen" and "now < t"
  shows "spent_until t ident (snd (consume sha256 token ttl now seen))"
    and "sha256 token = ident \<Longrightarrow> \<not> fst (consume sha256 token ttl now seen)"
proof -
  have s: "spent_until t ident (sweep_spent now seen)" using sweep_spent_until [OF assms(1)] assms(2) by simp
  have d: "distinct (keys (snd (consume sha256 token ttl now seen)))"
    using assms(1) by (simp add: spent_until_def consume_distinct)
  from s d assms(2) show "spent_until t ident (snd (consume sha256 token ttl now seen))"
    by (auto simp: spent_until_def consume_def Let_def table split: option.splits if_splits)
  from s assms(2) show "sha256 token = ident \<Longrightarrow> \<not> fst (consume sha256 token ttl now seen)"
    by (auto simp: spent_until_def consume_def Let_def)
qed

lemma redeem_refused_while_spent:
  assumes "spent_until t (sha256 (redeemed_token r)) seen" and "\<forall>(now, r') \<in> set ops. now < t"
    and "redeemed_token r' = redeemed_token r"
  shows "((now', r'), True) \<notin> set (history (redeem sha256) ops seen)"
  using assms
proof (induction ops arbitrary: seen)
  case (Cons x ops)
  obtain now r1 where x: "x = (now, r1)" by (cases x)
  then have t: "now < t" using Cons.prems(2) by auto
  let ?s = "snd (redeem sha256 x seen)"
  have "spent_until t (sha256 (redeemed_token r)) ?s"
    using consume_spent(1) [OF Cons.prems(1) t] by (simp add: x redeem_consume)
  with Cons have "((now', r'), True) \<notin> set (history (redeem sha256) ops ?s)" by simp
  moreover have "\<not> fst (redeem sha256 x seen)" if "x = (now', r')"
    using consume_spent(2) [OF Cons.prems(1) t] that Cons.prems(3) by (simp add: x redeem_consume)
  ultimately show ?case by (auto simp: history_def run_calls_Cons simp del: run_calls.simps(2))
qed (simp add: history_def)

text \<open>
  The two token systems do not touch each other, where the digest has no collision between a QR token
  and a pairing nonce.
\<close>

lemma qr_leaves_pairing:
  assumes "distinct (keys seen)" and "sha256 (''qr:'' @ token) \<noteq> sha256 (''pair:'' @ nonce)" and "length seen < singleUseSweepThreshold"
  shows "map_of (snd (consumeQRToken sha256 token t seen)) (sha256 (''pair:'' @ nonce)) = map_of seen (sha256 (''pair:'' @ nonce))"
  using assms by (auto simp: consumeQRToken_def consume_def sweep_spent_def Let_def table split: option.split)

section \<open>Properties\<close>

text \<open>
  C40: A one-time token works once. After a redemption that succeeded, the same token is refused in every
  sequence of redemptions before its time to live is over, whatever else is redeemed, swept or
  presented in between, and whatever the digest does.
\<close>

theorem token_redeemed_once:
  assumes "distinct (keys seen)" and "fst (redeem sha256 (t, r) seen)"
    and "\<forall>(now, r') \<in> set ops. now < t + redeemed_ttl r" and "redeemed_token r' = redeemed_token r"
  shows "((now', r'), True) \<notin> set (history (redeem sha256) ops (snd (redeem sha256 (t, r) seen)))"
  using redeem_refused_while_spent [OF _ assms(3,4)] consume_marks [OF assms(1)] assms(2)
  by (simp add: redeem_consume)

theorem token_redeemed_once_witness:
  "((60, RedeemQR ''k''), True) \<notin>
     set (history (redeem rev) [(30, RedeemPairing ''k'' 5), (60, RedeemQR ''k'')] (snd (redeem rev (0, RedeemQR ''k'') newSingleUseTokens)))"
proof -
  have "fst (redeem rev (0, RedeemQR ''k'') newSingleUseTokens)"
    by (simp add: consumeQRToken_def consume_def newSingleUseTokens_def sweep_spent_def singleUseSweepThreshold_def Let_def)
  then show ?thesis
    by (intro token_redeemed_once) (simp_all add: newSingleUseTokens_def qrTokenSingleUseTTL_def)
qed

end
