(* ===== verification/Send_Ledger.thy ===== *)
theory Send_Ledger
  imports Go_Table "HOL-Library.Multiset"
begin

text \<open>
  Sending quotas: the ledger of \<open>backend/internal/state/send_ledger.go\<close> and the quota of
  \<open>backend/internal/api/send_quota.go\<close>.

  The table \<open>send_ledger\<close> is the list of its rows. Each SQL statement is one function on it, atomic as the
  database makes it, and may fail: the answers of the database are inputs. Times are whole seconds.
  Among rows with equal time the order of \<open>ORDER BY at\<close> is not specified; the result does not depend on
  it, and the model keeps the order of insertion.
\<close>

section \<open>The ledger\<close>

record ledger_row =
  row_id :: string
  row_user :: string
  row_at :: int
  row_recipients :: int

type_synonym ledger = "ledger_row list"

definition sendHour :: int where "sendHour = 3600"

definition sendDay :: int where "sendDay = 86400"

datatype admission = Admitted | LedgerError | ErrSendTooLarge | ErrSendQuota int | IndexPanic

record db_answers =
  db_delete :: bool
  db_insert :: bool
  db_affected :: bool
  db_exists :: bool
  db_select :: bool

definition recent_rows :: "string \<Rightarrow> int \<Rightarrow> ledger \<Rightarrow> ledger" where
  "recent_rows userID since l = filter (\<lambda>r. row_user r = userID \<and> row_at r > since) l"

definition delete_old :: "string \<Rightarrow> int \<Rightarrow> ledger \<Rightarrow> ledger" where
  "delete_old userID until l = filter (\<lambda>r. \<not> (row_user r = userID \<and> row_at r \<le> until)) l"

text \<open>The loop over the rows of the day, oldest first.\<close>

fun day_wait :: "int \<Rightarrow> int \<Rightarrow> ledger \<Rightarrow> int" where
  "day_wait excess until [] = until"
| "day_wait excess until (r # rs) =
     (if excess \<le> 0 then until else day_wait (excess - row_recipients r) (max until (row_at r + sendDay)) rs)"

text \<open>\<open>None\<close> is the run-time panic of an index out of range.\<close>

definition sendQuotaWait :: "string \<Rightarrow> int \<Rightarrow> int \<Rightarrow> int \<Rightarrow> int \<Rightarrow> ledger \<Rightarrow> int option" where
  "sendQuotaWait userID recipients messagesPerHour recipientsPerDay now l =
     (let day = sort_key row_at (recent_rows userID (now - sendDay) l);
          hour = map row_at (filter (\<lambda>r. row_at r > now - sendHour) day);
          total = sum_list (map row_recipients day);
          over = int (length hour) - messagesPerHour;
          excess = total + recipients - recipientsPerDay in
      if over \<ge> 0 \<and> over \<ge> int (length hour) then None
      else
        (let until = (if over \<ge> 0 then max now (hour ! nat over + sendHour) else now) in
         Some (max (day_wait excess until day - now) 1)))"

definition AdmitSend ::
  "db_answers \<Rightarrow> string \<Rightarrow> string \<Rightarrow> int \<Rightarrow> int \<Rightarrow> int \<Rightarrow> int \<Rightarrow> ledger \<Rightarrow> admission \<times> ledger" where
  "AdmitSend db ident userID recipients messagesPerHour recipientsPerDay now l0 =
     (if \<not> db_delete db then (LedgerError, l0)
      else
        (let l = delete_old userID (now - sendDay) l0;
             rs = recent_rows userID (now - sendDay) l;
             n = int (length (filter (\<lambda>r. row_at r > now - sendHour) rs));
             r = sum_list (map row_recipients rs);
             charged = (\<exists>x \<in> set l. row_id x = ident) in
         if \<not> db_insert db then (LedgerError, l)
         else if n < messagesPerHour \<and> r + recipients \<le> recipientsPerDay \<and> \<not> charged then
           (if db_affected db then Admitted else LedgerError,
            l @ [\<lparr>row_id = ident, row_user = userID, row_at = now, row_recipients = recipients\<rparr>])
         else if \<not> db_affected db then (LedgerError, l)
         else if \<not> db_exists db then (LedgerError, l)
         else if charged then (Admitted, l)
         else if recipients > recipientsPerDay then (ErrSendTooLarge, l)
         else if \<not> db_select db then (LedgerError, l)
         else (case sendQuotaWait userID recipients messagesPerHour recipientsPerDay now l of
                 None \<Rightarrow> (IndexPanic, l) | Some wait \<Rightarrow> (ErrSendQuota wait, l))))"

section \<open>The quota\<close>

record send_quota =
  q_MessagesPerHour :: int
  q_RecipientsPerDay :: int

definition Valid :: "send_quota \<Rightarrow> bool" where
  "Valid q \<longleftrightarrow> q_MessagesPerHour q > 0 \<and> q_RecipientsPerDay q > 0"

definition default_quota :: send_quota where
  "default_quota = \<lparr>q_MessagesPerHour = 60, q_RecipientsPerDay = 1000\<rparr>"

text \<open>\<open>override\<close> is what the users store answers: \<open>None\<close> where the user is unknown.\<close>

definition sendQuotaFor :: "(string \<Rightarrow> send_quota option option) \<Rightarrow> send_quota \<Rightarrow> string \<Rightarrow> send_quota option" where
  "sendQuotaFor override cfg userID =
     (case override userID of
        None \<Rightarrow> None
      | Some (Some q) \<Rightarrow> Some (if Valid q then q else if Valid cfg then cfg else default_quota)
      | Some None \<Rightarrow> Some (if Valid cfg then cfg else default_quota))"

datatype charge_answer = Charged admission | QuotaUnavailable | UserNotFound

text \<open>\<open>global\<close> is whether the server has its install-wide store.\<close>

definition chargeSend ::
  "(string \<Rightarrow> send_quota option option) \<Rightarrow> send_quota \<Rightarrow> bool \<Rightarrow> db_answers \<Rightarrow> string \<Rightarrow> string \<Rightarrow> int \<Rightarrow> int \<Rightarrow> ledger
     \<Rightarrow> charge_answer \<times> ledger" where
  "chargeSend override cfg global db ident userID recipients now l =
     (if \<not> global then (QuotaUnavailable, l)
      else
        (case sendQuotaFor override cfg userID of
           None \<Rightarrow> (UserNotFound, l)
         | Some q \<Rightarrow>
             (case AdmitSend db ident userID recipients (q_MessagesPerHour q) (q_RecipientsPerDay q) now l of
                (a, l') \<Rightarrow> (Charged a, l'))))"

datatype send_answer = SendOn | Status nat | RetryAfter int

definition admitSend ::
  "(string \<Rightarrow> send_quota option option) \<Rightarrow> send_quota \<Rightarrow> bool \<Rightarrow> db_answers \<Rightarrow> string option \<Rightarrow> string \<Rightarrow> int \<Rightarrow> int \<Rightarrow> ledger
     \<Rightarrow> send_answer \<times> ledger" where
  "admitSend override cfg global db uuid userID recipients now l =
     (case uuid of
        None \<Rightarrow> (Status 503, l)
      | Some ident \<Rightarrow>
          (case chargeSend override cfg global db ident userID recipients now l of
             (Charged Admitted, l') \<Rightarrow> (SendOn, l')
           | (Charged (ErrSendQuota wait), l') \<Rightarrow> (RetryAfter wait, l')
           | (Charged ErrSendTooLarge, l') \<Rightarrow> (Status 422, l')
           | (UserNotFound, l') \<Rightarrow> (Status 401, l')
           | (_, l') \<Rightarrow> (Status 503, l')))"

lemma sendQuotaFor_Valid: "sendQuotaFor override cfg userID = Some q \<Longrightarrow> Valid q"
  by (auto simp: sendQuotaFor_def Valid_def default_quota_def split: option.splits if_splits)

section \<open>The quota holds\<close>

text \<open>What a user has charged in the hour and in the day that end at \<open>t\<close>.\<close>

definition hour_count :: "string \<Rightarrow> int \<Rightarrow> ledger \<Rightarrow> int" where
  "hour_count u t l = int (length (filter (\<lambda>r. row_user r = u \<and> t - sendHour < row_at r \<and> row_at r \<le> t) l))"

definition day_recipients :: "string \<Rightarrow> int \<Rightarrow> ledger \<Rightarrow> int" where
  "day_recipients u t l =
     sum_list (map row_recipients (filter (\<lambda>r. row_user r = u \<and> t - sendDay < row_at r \<and> row_at r \<le> t) l))"

definition within_quota :: "(string \<Rightarrow> send_quota) \<Rightarrow> time \<Rightarrow> ledger \<Rightarrow> bool" where
  "within_quota q now l \<longleftrightarrow>
     (\<forall>r \<in> set l. row_at r \<le> now \<and> 0 \<le> row_recipients r) \<and>
     (\<forall>u t. hour_count u t l \<le> q_MessagesPerHour (q u) \<and> day_recipients u t l \<le> q_RecipientsPerDay (q u))"

lemma sum_list_filter_le:
  "(\<forall>r \<in> set l. 0 \<le> f r) \<Longrightarrow> (\<And>r. r \<in> set l \<Longrightarrow> P r \<Longrightarrow> Q r) \<Longrightarrow>
     sum_list (map f (filter P l)) \<le> sum_list (map f (filter Q l))" for f :: "'a \<Rightarrow> int"
proof (induction l)
  case (Cons r l)
  then have "sum_list (map f (filter P l)) \<le> sum_list (map f (filter Q l))" by simp
  with Cons.prems show ?case by (auto simp: add_increasing)
qed simp

lemma length_filter_le_imp: "(\<And>r. r \<in> set l \<Longrightarrow> P r \<Longrightarrow> Q r) \<Longrightarrow> length (filter P l) \<le> length (filter Q l)"
  by (induction l) auto

lemma delete_old_within: "within_quota q now l \<Longrightarrow> within_quota q now (delete_old u t l)"
proof -
  assume w: "within_quota q now l"
  have "hour_count u' t' (delete_old u t l) \<le> hour_count u' t' l" for u' t'
    unfolding hour_count_def delete_old_def filter_filter of_nat_le_iff by (rule length_filter_le_imp) simp
  moreover have "day_recipients u' t' (delete_old u t l) \<le> day_recipients u' t' l" for u' t'
    unfolding day_recipients_def delete_old_def filter_filter
    by (rule sum_list_filter_le) (use w in \<open>auto simp: within_quota_def\<close>)
  moreover have "\<forall>r \<in> set (delete_old u t l). row_at r \<le> now \<and> 0 \<le> row_recipients r"
    using w by (simp add: within_quota_def delete_old_def)
  ultimately show ?thesis
    using w unfolding within_quota_def by (metis order_trans)
qed

lemma insert_within:
  assumes w: "within_quota q now l" and "0 \<le> recipients"
    and n: "int (length (filter (\<lambda>r. row_at r > now - sendHour) (recent_rows u (now - sendDay) l))) < q_MessagesPerHour (q u)"
    and r: "sum_list (map row_recipients (recent_rows u (now - sendDay) l)) + recipients \<le> q_RecipientsPerDay (q u)"
  shows "within_quota q now (l @ [\<lparr>row_id = ident, row_user = u, row_at = now, row_recipients = recipients\<rparr>])"
    (is "within_quota q now (l @ [?x])")
proof -
  have old: "\<forall>r \<in> set l. row_at r \<le> now \<and> 0 \<le> row_recipients r" using w by (simp add: within_quota_def)
  have "hour_count u' t (l @ [?x]) \<le> q_MessagesPerHour (q u') \<and> day_recipients u' t (l @ [?x]) \<le> q_RecipientsPerDay (q u')" for u' t
  proof (cases "u' = u \<and> now \<le> t")
    case True
    have "hour_count u t l \<le> int (length (filter (\<lambda>r. row_at r > now - sendHour) (recent_rows u (now - sendDay) l)))"
      unfolding hour_count_def recent_rows_def filter_filter of_nat_le_iff
      by (rule length_filter_le_imp) (use True in \<open>auto simp: sendHour_def sendDay_def\<close>)
    moreover have "day_recipients u t l \<le> sum_list (map row_recipients (recent_rows u (now - sendDay) l))"
      unfolding day_recipients_def recent_rows_def
      by (rule sum_list_filter_le) (use True old in auto)
    moreover have "hour_count u t (l @ [?x]) \<le> hour_count u t l + 1" "day_recipients u t (l @ [?x]) \<le> day_recipients u t l + recipients"
      using assms(2) by (simp_all add: hour_count_def day_recipients_def)
    ultimately show ?thesis using n r True by simp
  next
    case False
    then have "hour_count u' t (l @ [?x]) = hour_count u' t l" "day_recipients u' t (l @ [?x]) = day_recipients u' t l"
      by (auto simp: hour_count_def day_recipients_def)
    with w show ?thesis by (simp add: within_quota_def)
  qed
  with old assms(2) show ?thesis by (simp add: within_quota_def)
qed

lemma AdmitSend_within:
  assumes "within_quota q now l" and "0 \<le> recipients"
  shows "within_quota q now (snd (AdmitSend db ident u recipients (q_MessagesPerHour (q u)) (q_RecipientsPerDay (q u)) now l))"
  using insert_within [OF delete_old_within [OF assms(1)] assms(2), of u u] delete_old_within [OF assms(1)] assms(1)
  by (simp add: AdmitSend_def Let_def split: option.split)

section \<open>Runs\<close>

datatype send_op = SendOp db_answers string string nat

fun send_step ::
  "(string \<Rightarrow> send_quota option option) \<Rightarrow> send_quota \<Rightarrow> time \<times> send_op \<Rightarrow> ledger \<Rightarrow> charge_answer \<times> ledger" where
  "send_step override cfg (now, SendOp db ident u recipients) l = chargeSend override cfg True db ident u (int recipients) now l"

definition quota_of :: "(string \<Rightarrow> send_quota option option) \<Rightarrow> send_quota \<Rightarrow> string \<Rightarrow> send_quota" where
  "quota_of override cfg u = (case sendQuotaFor override cfg u of None \<Rightarrow> default_quota | Some q \<Rightarrow> q)"

lemma quota_of_Valid: "Valid (quota_of override cfg u)"
  using sendQuotaFor_Valid [of override cfg u]
  by (auto simp: quota_of_def Valid_def default_quota_def split: option.split)

interpretation sending: timed_system "within_quota (quota_of override cfg)" "send_step override cfg" for override cfg
proof
  fix now l t and op :: send_op
  assume w: "within_quota (quota_of override cfg) now l"
  show "now \<le> t \<Longrightarrow> within_quota (quota_of override cfg) t l" using w by (force simp: within_quota_def)
  obtain db ident u recipients where op: "op = SendOp db ident u recipients" by (cases op)
  show "within_quota (quota_of override cfg) now (snd (send_step override cfg (now, op) l))"
    using w AdmitSend_within [OF w, of "int recipients" db ident u]
    by (auto simp: op chargeSend_def quota_of_def split: option.split prod.split)
qed

section \<open>The advertised wait\<close>

text \<open>
  After the rows that the loop passes over have aged out, the rest fits: \<open>day_wait\<close> is no earlier than
  the time at which they have.
\<close>

lemma day_wait_until: "until \<le> day_wait excess until rs"
  by (induction excess until rs rule: day_wait.induct) (auto intro: order_trans [OF max.cobounded1])

lemma day_wait_fits:
  assumes "sorted (map row_at rs)" and "\<forall>r \<in> set rs. 0 \<le> row_recipients r" and "day_wait excess until rs \<le> t"
    and "sum_list (map row_recipients rs) + extra \<le> excess + limit" and "extra \<le> limit"
  shows "sum_list (map row_recipients (filter (\<lambda>r. row_at r > t - sendDay) rs)) + extra \<le> limit"
  using assms
proof (induction excess until rs rule: day_wait.induct)
  case (2 excess until r rs)
  show ?case
  proof (cases "excess \<le> 0")
    case True
    have "sum_list (map row_recipients (filter (\<lambda>r. row_at r > t - sendDay) (r # rs))) \<le>
        sum_list (map row_recipients (filter (\<lambda>r. True) (r # rs)))"
      by (rule sum_list_filter_le) (use "2.prems"(2) in auto)
    with True "2.prems"(4) show ?thesis by simp
  next
    case False
    then have w: "day_wait (excess - row_recipients r) (max until (row_at r + sendDay)) rs \<le> t" using "2.prems"(3) by simp
    have "row_at r + sendDay \<le> t"
      using order_trans [OF day_wait_until w] by simp
    with "2.IH" [OF False _ _ w] "2.prems" show ?thesis by simp
  qed
qed simp

text \<open>In a sorted list, those later than the entry at an index come after it.\<close>

lemma later_than_nth:
  fixes xs :: "int list"
  assumes "sorted xs" and "k < length xs" and "xs ! k \<le> b"
  shows "length (filter (\<lambda>x. x > b) xs) + k + 1 \<le> length xs"
proof -
  have "filter (\<lambda>x. x > b) (take (Suc k) xs) = []"
  proof (rule filter_False, rule ballI)
    fix x assume "x \<in> set (take (Suc k) xs)"
    then obtain i where "i \<le> k" "x = xs ! i" using assms(2) by (auto simp: in_set_conv_nth less_Suc_eq_le)
    then have "x \<le> xs ! k" using assms(1,2) by (simp add: sorted_nth_mono)
    with assms(3) show "\<not> x > b" by simp
  qed
  moreover have "length (filter (\<lambda>x. x > b) (drop (Suc k) xs)) \<le> length xs - Suc k"
    using length_filter_le [of _ "drop (Suc k) xs"] by simp
  moreover have "filter (\<lambda>x. x > b) xs = filter (\<lambda>x. x > b) (take (Suc k) xs) @ filter (\<lambda>x. x > b) (drop (Suc k) xs)"
    by (metis append_take_drop_id filter_append)
  ultimately show ?thesis using assms(2) by simp
qed

lemma filter_sort_key: "filter P (sort_key f xs) = sort_key f (filter P xs)"
  by (rule filter_sort)

lemma recent_rows_later: "s \<le> t \<Longrightarrow> filter (\<lambda>r. row_at r > t) (recent_rows u s l) = recent_rows u t l"
  by (auto simp: recent_rows_def intro: filter_cong)

lemma recent_rows_delete_old: "s \<le> t \<Longrightarrow> recent_rows u t (delete_old u s l) = recent_rows u t l"
  by (auto simp: recent_rows_def delete_old_def intro: filter_cong)

lemma sum_list_sort_key: "sum_list (map f (sort_key g xs)) = sum_list (map f xs)" for f :: "'a \<Rightarrow> int"
  by (metis mset_map mset_sort sum_mset_sum_list)

lemma sendQuotaWait_Some:
  assumes "sendQuotaWait u recipients mph rpd now l = Some wait" and "now + wait \<le> t"
  defines "day \<equiv> sort_key row_at (recent_rows u (now - sendDay) l)"
  defines "hour \<equiv> map row_at (filter (\<lambda>r. row_at r > now - sendHour) day)"
  defines "over \<equiv> int (length hour) - mph"
  shows "day_wait (sum_list (map row_recipients day) + recipients - rpd)
           (if over \<ge> 0 then max now (hour ! nat over + sendHour) else now) day \<le> t" and "now \<le> t"
proof -
  have "wait = max (day_wait (sum_list (map row_recipients day) + recipients - rpd)
      (if over \<ge> 0 then max now (hour ! nat over + sendHour) else now) day - now) 1"
    using assms(1) unfolding sendQuotaWait_def Let_def day_def [symmetric] hour_def [symmetric] over_def [symmetric]
    by (simp split: if_splits)
  with assms(2) show "day_wait (sum_list (map row_recipients day) + recipients - rpd)
      (if over \<ge> 0 then max now (hour ! nat over + sendHour) else now) day \<le> t" and "now \<le> t" by linarith+
qed

lemma wait_fits_hour:
  assumes "sendQuotaWait u recipients mph rpd now l = Some wait" and "0 < mph" and "now + wait \<le> t"
  shows "int (length (recent_rows u (t - sendHour) l)) < mph"
proof -
  let ?day = "sort_key row_at (recent_rows u (now - sendDay) l)"
  let ?hour = "map row_at (filter (\<lambda>r. row_at r > now - sendHour) ?day)"
  let ?over = "int (length ?hour) - mph"
  let ?until = "if ?over \<ge> 0 then max now (?hour ! nat ?over + sendHour) else now"
  have "now - sendDay \<le> now - sendHour" by (simp add: sendDay_def sendHour_def)
  then have hour: "?hour = map row_at (sort_key row_at (recent_rows u (now - sendHour) l))"
    by (simp add: filter_sort_key recent_rows_later)
  have wait: "?until \<le> t" "now \<le> t"
    using order_trans [OF day_wait_until sendQuotaWait_Some(1) [OF assms(1,3)]] sendQuotaWait_Some(2) [OF assms(1,3)] .
  have "length (recent_rows u (t - sendHour) l) = length (filter (\<lambda>x. x > t - sendHour) ?hour)"
    using recent_rows_later [of "now - sendHour" "t - sendHour" u l] wait(2)
    unfolding hour by (simp add: filter_map o_def filter_sort_key)
  moreover have "int (length (filter (\<lambda>x. x > t - sendHour) ?hour)) < mph"
  proof (cases "?over \<ge> 0")
    case True
    have "sorted ?hour" by (simp add: hour)
    moreover have "nat ?over < length ?hour" using assms(2) True by linarith
    moreover have "?hour ! nat ?over \<le> t - sendHour" using wait(1) True by simp
    ultimately have "length (filter (\<lambda>x. x > t - sendHour) ?hour) + nat ?over + 1 \<le> length ?hour" by (rule later_than_nth)
    then show ?thesis using True by linarith
  next
    case False
    have "length (filter (\<lambda>x. x > t - sendHour) ?hour) \<le> length ?hour" by (rule length_filter_le)
    with False show ?thesis by linarith
  qed
  ultimately show ?thesis by simp
qed

lemma wait_fits_day:
  assumes "sendQuotaWait u recipients mph rpd now l = Some wait" and "recipients \<le> rpd" and "now + wait \<le> t"
    and "\<forall>r \<in> set l. 0 \<le> row_recipients r"
  shows "sum_list (map row_recipients (recent_rows u (t - sendDay) l)) + recipients \<le> rpd"
proof -
  let ?day = "sort_key row_at (recent_rows u (now - sendDay) l)"
  let ?excess = "sum_list (map row_recipients ?day) + recipients - rpd"
  obtain until where "day_wait ?excess until ?day \<le> t" "now \<le> t"
    using sendQuotaWait_Some [OF assms(1,3)] by blast
  then have "sum_list (map row_recipients (filter (\<lambda>r. row_at r > t - sendDay) ?day)) + recipients \<le> rpd"
    by (intro day_wait_fits [where excess = ?excess and until = until])
      (use assms(2,4) in \<open>auto simp: recent_rows_def\<close>)
  with \<open>now \<le> t\<close> show ?thesis by (simp add: filter_sort_key recent_rows_later sum_list_sort_key)
qed

section \<open>Properties\<close>


text \<open>
  The wait a refusal advertises is enough. A send refused with a wait is admitted, and charged, when
  it is tried again after the wait, if nothing else was charged to the user meanwhile and the database
  answers.
\<close>

theorem quota_wait_honest:
  assumes "AdmitSend db ident u recipients mph rpd now l = (ErrSendQuota wait, l')" and "0 < mph"
    and "\<forall>r \<in> set l. 0 \<le> row_recipients r" and "now + wait \<le> t"
    and "db_delete db'" and "db_insert db'" and "db_affected db'"
  shows "fst (AdmitSend db' ident u recipients mph rpd t l') = Admitted \<and>
         \<lparr>row_id = ident, row_user = u, row_at = t, row_recipients = recipients\<rparr>
           \<in> set (snd (AdmitSend db' ident u recipients mph rpd t l'))"
proof -
  have l': "l' = delete_old u (now - sendDay) l" and wait: "sendQuotaWait u recipients mph rpd now l' = Some wait"
    and rpd: "recipients \<le> rpd" and fresh: "\<not> (\<exists>x \<in> set l'. row_id x = ident)"
    using assms(1) by (auto simp: AdmitSend_def Let_def split: if_splits option.splits)
  let ?l = "delete_old u (t - sendDay) l'"
  have pos: "\<forall>r \<in> set l'. 0 \<le> row_recipients r" using assms(3) by (simp add: l' delete_old_def)
  have "filter (\<lambda>r. row_at r > t - sendHour) (recent_rows u (t - sendDay) ?l) = recent_rows u (t - sendHour) l'"
    by (simp add: recent_rows_delete_old recent_rows_later sendHour_def sendDay_def)
  moreover note wait_fits_hour [OF wait assms(2,4)] wait_fits_day [OF wait rpd assms(4) pos]
  moreover have "\<not> (\<exists>x \<in> set ?l. row_id x = ident)" using fresh by (auto simp: delete_old_def)
  ultimately show ?thesis
    using assms(5-7) by (simp add: AdmitSend_def Let_def recent_rows_delete_old)
qed

definition db_up :: db_answers where
  "db_up = \<lparr>db_delete = True, db_insert = True, db_affected = True, db_exists = True, db_select = True\<rparr>"

definition demo_quota :: send_quota where
  "demo_quota = \<lparr>q_MessagesPerHour = 1, q_RecipientsPerDay = 5\<rparr>"


theorem quota_wait_honest_witness:
  "fst (AdmitSend db_up ''b'' ''u'' 1 1 5 3700 [\<lparr>row_id = ''a'', row_user = ''u'', row_at = 100, row_recipients = 2\<rparr>]) = Admitted"
proof -
  let ?l = "[\<lparr>row_id = ''a'', row_user = ''u'', row_at = 100, row_recipients = 2\<rparr>]"
  have "AdmitSend db_up ''b'' ''u'' 1 1 5 200 ?l = (ErrSendQuota 3500, ?l)" by code_simp
  from quota_wait_honest [OF this, of 3700 db_up] show ?thesis by (simp add: db_up_def)
qed

end
