(* ===== verification/Smtp_Message.thy ===== *)
theory Smtp_Message
  imports Go_Prelude
begin

text \<open>
  \<open>NormalizeSMTPMessage\<close> of \<open>backend/internal/mailmsg/smtp_send.go\<close>: the bytes written into an SMTP
  \<open>DATA\<close> stream. The first loop looks one byte ahead and one byte back; the model passes the byte before
  the rest of the message. The slice that is allocated only when something changes is the output so far.
\<close>

section \<open>The function\<close>

abbreviation CR :: char where "CR \<equiv> CHR 0x0D"
abbreviation LF :: char where "LF \<equiv> CHR 0x0A"
abbreviation NUL :: char where "NUL \<equiv> CHR 0x00"

definition maxSMTPLine :: nat where "maxSMTPLine = 998"

fun crlf_from :: "char option \<Rightarrow> string \<Rightarrow> string" where
  "crlf_from before [] = []"
| "crlf_from before (c # cs) =
     (if c = CR \<and> (cs = [] \<or> hd cs \<noteq> LF) then CR # LF # crlf_from (Some c) cs
      else if c = LF \<and> before \<noteq> Some CR then CR # LF # crlf_from (Some c) cs
      else c # crlf_from (Some c) cs)"

text \<open>The second loop: \<open>n\<close> bytes have been read since the line began.\<close>

fun lines_fit :: "nat \<Rightarrow> string \<Rightarrow> bool" where
  "lines_fit n [] = (n \<le> maxSMTPLine)"
| "lines_fit n (c # cs) = (if c = LF then n \<le> maxSMTPLine \<and> lines_fit 0 cs else lines_fit (Suc n) cs)"

definition NormalizeSMTPMessage :: "string \<Rightarrow> string option" where
  "NormalizeSMTPMessage msg =
     (if NUL \<in> set msg then None
      else (let normalized = crlf_from None msg in if lines_fit 0 normalized then Some normalized else None))"

section \<open>What a receiver sees\<close>

text \<open>
  In a canonical message carriage return and line feed occur only as the pair that ends a line, so every
  parser splits it into the same lines.
\<close>

fun crlf_ok :: "char option \<Rightarrow> string \<Rightarrow> bool" where
  "crlf_ok before [] = True"
| "crlf_ok before (c # cs) =
     ((c = CR \<longrightarrow> cs \<noteq> [] \<and> hd cs = LF) \<and> (c = LF \<longrightarrow> before = Some CR) \<and> crlf_ok (Some c) cs)"

lemma crlf_from_nonempty [simp]: "crlf_from b cs = [] \<longleftrightarrow> cs = []"
  by (cases cs) auto

lemma crlf_from_ok: "(cs \<noteq> [] \<and> hd cs = LF \<and> b = Some CR \<longrightarrow> b' = Some CR) \<Longrightarrow> crlf_ok b' (crlf_from b cs)"
proof (induction b cs arbitrary: b' rule: crlf_from.induct)
  case (2 b c cs)
  have rest: "crlf_ok b'' (crlf_from (Some c) cs)" if "cs \<noteq> [] \<and> hd cs = LF \<and> c = CR \<longrightarrow> b'' = Some CR" for b''
    using "2.IH" that by (cases "c = CR") auto
  show ?case
  proof (cases "c = CR \<and> cs \<noteq> [] \<and> hd cs = LF")
    case True
    then obtain ds where "cs = LF # ds" by (cases cs) auto
    with True rest [of "Some CR"] show ?thesis by simp
  next
    case False
    then show ?thesis using "2.prems" rest [of "Some LF"] rest [of "Some c"] by auto
  qed
qed simp

lemma crlf_from_ok_id: "crlf_ok b cs \<Longrightarrow> crlf_from b cs = cs"
  by (induction b cs rule: crlf_ok.induct) auto

lemma crlf_from_NUL: "NUL \<in> set (crlf_from b cs) \<longleftrightarrow> NUL \<in> set cs"
  by (induction b cs rule: crlf_from.induct) auto

text \<open>The lines of a text, cut at line feeds.\<close>

fun split_lf :: "string \<Rightarrow> string list" where
  "split_lf [] = [[]]"
| "split_lf (c # cs) = (if c = LF then [] # split_lf cs else (case split_lf cs of [] \<Rightarrow> [[c]] | l # ls \<Rightarrow> (c # l) # ls))"

lemma split_lf_nonempty [simp]: "split_lf cs \<noteq> []"
  by (cases cs) (auto split: list.split)

lemma lines_fit_split:
  "lines_fit n cs \<longleftrightarrow> n + length (hd (split_lf cs)) \<le> maxSMTPLine \<and> (\<forall>l \<in> set (tl (split_lf cs)). length l \<le> maxSMTPLine)"
proof (induction n cs rule: lines_fit.induct)
  case (2 n c cs)
  obtain l ls where "split_lf cs = l # ls" using split_lf_nonempty [of cs] by (cases "split_lf cs") auto
  with 2 show ?case by auto
qed simp

section \<open>Properties\<close>

text \<open>
  Every message that is written to an SMTP connection means one thing. What \<open>NormalizeSMTPMessage\<close>
  returns contains no NUL, has carriage return and line feed only as the pair that ends a line, has no
  line longer than 998 bytes, and is left as it is by a second normalisation.
\<close>

theorem normalized_message_canonical:
  assumes "NormalizeSMTPMessage msg = Some out"
  shows "NUL \<notin> set out \<and> crlf_ok None out \<and> (\<forall>l \<in> set (split_lf out). length l \<le> maxSMTPLine) \<and>
         NormalizeSMTPMessage out = Some out"
proof -
  have out: "out = crlf_from None msg" "NUL \<notin> set msg" "lines_fit 0 out"
    using assms by (auto simp: NormalizeSMTPMessage_def Let_def split: if_splits)
  have ok: "crlf_ok None out" unfolding out(1) by (rule crlf_from_ok) simp
  have nul: "NUL \<notin> set out" using out(2) by (simp add: out(1) crlf_from_NUL)
  have "\<forall>l \<in> set (split_lf out). length l \<le> maxSMTPLine"
    using out(3) split_lf_nonempty [of out] by (cases "split_lf out") (auto simp: lines_fit_split)
  moreover have "NormalizeSMTPMessage out = Some out"
    using nul out(3) by (simp add: NormalizeSMTPMessage_def crlf_from_ok_id [OF ok])
  ultimately show ?thesis using ok nul by blast
qed

theorem normalized_message_canonical_witness:
  "NormalizeSMTPMessage (''a'' @ [LF, CHR ''.'', CR]) = Some (''a'' @ [CR, LF, CHR ''.'', CR, LF]) \<and>
   crlf_ok None (''a'' @ [CR, LF, CHR ''.'', CR, LF])"
proof -
  have "NormalizeSMTPMessage (''a'' @ [LF, CHR ''.'', CR]) = Some (''a'' @ [CR, LF, CHR ''.'', CR, LF])"
    by (simp add: NormalizeSMTPMessage_def maxSMTPLine_def)
  with normalized_message_canonical [OF this] show ?thesis by blast
qed

end
