(* ===== verification/Outbox.thy ===== *)
theory Outbox
  imports Go_Table Smtp_Message "HOL-Library.List_Lexorder" "HOL-Library.Char_ord"
begin

text \<open>
  The durable outbox of a native mailbox, \<open>backend/internal/mailbox/outbox.go\<close>: jobs are queued, each
  delivery is claimed before it is submitted, completed with the relay's answer, and a finished job is
  compacted to a receipt.

  The database is one value. A call is one transaction: \<open>commits\<close> says whether the database carries it
  out, and a call that it does not carry out changes nothing. The rows of \<open>outbox_deliveries\<close> of a job
  are a list of the job's row, in the order of \<open>sequence\<close>. A sealed value is kept with the master key it
  was sealed under and opens under that key only; its size is a parameter, as are the parsers of
  \<open>net/mail\<close> and the digests.
\<close>

section \<open>State\<close>

record outbound_delivery =
  dl_Recipients :: "string list"
  dl_Raw :: string

record outbound_job =
  job_From :: string
  job_RelayGeneration :: string
  job_Deliveries :: "outbound_delivery list"
  job_Sent :: string
  job_MaterialGeneration :: nat
  job_DeviceID :: string
  job_DeviceWitness :: string
  job_NativeSendEpoch :: nat
  job_PGPRevision :: nat
  job_PGPFingerprint :: string
  job_DirectoryRevision :: int
  job_FromGeneration :: int
  job_RequiresEnrollment :: bool
  job_ExpiresAt :: int

record outbound_receipt =
  rcpt_From :: string
  rcpt_RelayGeneration :: string
  rcpt_Deliveries :: nat
  rcpt_Intent :: string
  rcpt_Sent :: string

datatype outbound_plain = PlainJob outbound_job | PlainReceipt outbound_receipt

record delivery_row =
  dr_state :: string
  dr_claim :: string
  dr_attempts :: nat
  dr_next :: int

record outbox_row =
  or_plain :: outbound_plain
  or_master :: string
  or_sent_bytes :: nat
  or_sent_reserved :: nat
  or_sent_id :: "nat option"
  or_created :: int
  or_deliveries :: "delivery_row list"

record message_row =
  msg_raw_len :: nat
  msg_digest :: string

record mailbox_db =
  mb_outbox :: "outbox_row table"
  mb_messages :: "message_row list"
  mb_records :: int
  mb_payload :: int

record mailbox_limits =
  ml_MessageBytes :: nat
  ml_PayloadBytes :: int
  ml_Records :: int

record mail_lib =
  ParseAddress :: "string \<Rightarrow> string option"
  ReadMessage :: "string \<Rightarrow> (string \<Rightarrow> string list) option"
  job_digest :: "outbound_job \<Rightarrow> string"
  hashIncoming :: "string \<Rightarrow> string"
  sealed_size :: "outbound_plain \<Rightarrow> nat"

datatype outbox_error = ErrOutbound | ErrConflict | ErrCapacity | ErrMessageTooLarge | OutboxDbError

section \<open>Checks\<close>

definition SafePathComponent :: "string \<Rightarrow> bool" where
  "SafePathComponent v \<longleftrightarrow> v \<noteq> [] \<and> v \<noteq> ''.'' \<and> v \<noteq> ''..'' \<and> CHR ''/'' \<notin> set v \<and> CHR 0x5C \<notin> set v \<and> NUL \<notin> set v"

definition outboundID :: "string \<Rightarrow> bool" where
  "outboundID v \<longleftrightarrow> length v = 36 \<and> SafePathComponent v"

definition maxOutboundBytes :: nat where "maxOutboundBytes = 128 * 1024 * 1024"

definition key_ok :: "string \<Rightarrow> string \<Rightarrow> bool" where
  "key_ok master ident \<longleftrightarrow> length master = 32 \<and> outboundID ident"

definition rawMetadata :: "mail_lib \<Rightarrow> string \<Rightarrow> bool" where
  "rawMetadata lib raw =
     (case ReadMessage lib raw of
        None \<Rightarrow> False
      | Some h \<Rightarrow> list_all (\<lambda>f. length (case h f of [] \<Rightarrow> [] | v # _ \<Rightarrow> v) \<le> 65536)
                    [''From'', ''Subject'', ''To'', ''Cc'', ''Bcc'', ''Date''])"

definition has_line_break :: "string \<Rightarrow> bool" where
  "has_line_break s \<longleftrightarrow> CR \<in> set s \<or> LF \<in> set s \<or> NUL \<in> set s"

text \<open>The headers of one delivery name the job's sender, once, and nobody else.\<close>

definition headers_ok :: "mail_lib \<Rightarrow> string \<Rightarrow> (string \<Rightarrow> string list) \<Rightarrow> bool" where
  "headers_ok lib from h \<longleftrightarrow>
     length (h ''From'') = 1 \<and> ParseAddress lib (hd (h ''From'')) = Some from \<and>
     h ''Bcc'' = [] \<and> h ''Resent-Bcc'' = [] \<and> h ''Resent-From'' = [] \<and> h ''Resent-Sender'' = [] \<and>
     (h ''Sender'' \<noteq> [] \<longrightarrow> length (h ''Sender'') = 1 \<and> ParseAddress lib (hd (h ''Sender'')) = Some from)"

text \<open>The recipients seen so far, in lower case.\<close>

fun check_recipients :: "mail_lib \<Rightarrow> string list \<Rightarrow> string list \<Rightarrow> string list option" where
  "check_recipients lib seen [] = Some seen"
| "check_recipients lib seen (r # rs) =
     (if ParseAddress lib r \<noteq> Some r \<or> has_line_break r \<or> to_lower r \<in> set seen \<or> length seen \<ge> 100 then None
      else check_recipients lib (to_lower r # seen) rs)"

fun check_deliveries ::
  "mail_lib \<Rightarrow> mailbox_limits \<Rightarrow> string \<Rightarrow> string list \<Rightarrow> nat \<Rightarrow> outbound_delivery list \<Rightarrow> nat option" where
  "check_deliveries lib lim from seen sz [] = Some sz"
| "check_deliveries lib lim from seen sz (d # ds) =
     (if dl_Recipients d = [] \<or> length (dl_Recipients d) > 100 \<or> length (dl_Raw d) > ml_MessageBytes lim then None
      else if NormalizeSMTPMessage (dl_Raw d) \<noteq> Some (dl_Raw d) then None
      else
        (case ReadMessage lib (dl_Raw d) of
           None \<Rightarrow> None
         | Some h \<Rightarrow>
             if \<not> headers_ok lib from h then None
             else (case check_recipients lib seen (dl_Recipients d) of
                     None \<Rightarrow> None
                   | Some seen' \<Rightarrow> check_deliveries lib lim from seen' (sz + length (dl_Raw d)) ds)))"

definition validateOutbound :: "mail_lib \<Rightarrow> mailbox_limits \<Rightarrow> outbound_job \<Rightarrow> outbox_error option" where
  "validateOutbound lib lim job =
     (if ParseAddress lib (job_From job) \<noteq> Some (job_From job) \<or> has_line_break (job_From job) \<or>
         \<not> outboundID (job_RelayGeneration job) \<or> job_Deliveries job = [] \<or> length (job_Deliveries job) > 100 \<or>
         length (job_DeviceID job) > 512 \<or> length (job_DeviceWitness job) > 64 \<or> length (job_PGPFingerprint job) > 128 \<or>
         job_DirectoryRevision job < 0 \<or> job_FromGeneration job < 0 \<or> job_ExpiresAt job < 0 \<or> CHR ''@'' \<notin> set (job_From job)
      then Some ErrOutbound
      else if length (job_Sent job) > ml_MessageBytes lim then Some ErrMessageTooLarge
      else if job_Sent job \<noteq> [] \<and> \<not> rawMetadata lib (job_Sent job) then Some ErrOutbound
      else (case check_deliveries lib lim (job_From job) [] (length (job_Sent job)) (job_Deliveries job) of
              None \<Rightarrow> Some ErrOutbound
            | Some sz \<Rightarrow> if sz > 64 * 1024 * 1024 then Some ErrMessageTooLarge else None))"

section \<open>Reading a job\<close>

text \<open>A compacted job has no deliveries left but their number, and the digest of its intent.\<close>

datatype job_view = Whole outbound_job | Compacted outbound_receipt

fun view_generation :: "job_view \<Rightarrow> string" where
  "view_generation (Whole j) = job_RelayGeneration j"
| "view_generation (Compacted r) = rcpt_RelayGeneration r"

fun view_from :: "job_view \<Rightarrow> string" where
  "view_from (Whole j) = job_From j"
| "view_from (Compacted r) = rcpt_From r"

definition filed :: "mailbox_db \<Rightarrow> nat option \<Rightarrow> string \<Rightarrow> bool" where
  "filed db sent digest =
     (case sent of None \<Rightarrow> False | Some i \<Rightarrow> 0 < i \<and> i \<le> length (mb_messages db) \<and> msg_digest (mb_messages db ! (i - 1)) = digest)"

definition open_row :: "mail_lib \<Rightarrow> mailbox_limits \<Rightarrow> mailbox_db \<Rightarrow> outbox_row \<Rightarrow> (outbox_error, job_view) result" where
  "open_row lib lim db row =
     (case or_plain row of
        PlainReceipt r \<Rightarrow>
          if ParseAddress lib (rcpt_From r) \<noteq> Some (rcpt_From r) \<or> CHR ''@'' \<notin> set (rcpt_From r) \<or>
             \<not> outboundID (rcpt_RelayGeneration r) \<or> rcpt_Deliveries r < 1 \<or> rcpt_Deliveries r > 100 \<or>
             length (rcpt_Intent r) \<noteq> 32 \<or> or_sent_bytes row \<noteq> 0 \<or> or_sent_reserved row \<noteq> 0 \<or>
             (or_sent_id row \<noteq> None) \<noteq> (rcpt_Sent r \<noteq> []) \<or>
             (or_sent_id row \<noteq> None \<and> \<not> filed db (or_sent_id row) (rcpt_Sent r))
          then Inl ErrOutbound else Inr (Compacted r)
      | PlainJob j \<Rightarrow>
          if validateOutbound lib lim j \<noteq> None then Inl ErrOutbound
          else if or_sent_id row \<noteq> None then
            (if or_sent_bytes row \<noteq> 0 \<or> or_sent_reserved row \<noteq> 0 \<or> job_Sent j = [] \<or>
                \<not> filed db (or_sent_id row) (hashIncoming lib (job_Sent j))
             then Inl ErrOutbound else Inr (Whole j))
          else if or_sent_bytes row \<noteq> length (job_Sent j) \<or> (job_Sent j \<noteq> [] \<and> or_sent_reserved row \<noteq> 1) \<or>
                  (job_Sent j = [] \<and> or_sent_reserved row \<noteq> 0)
          then Inl ErrOutbound else Inr (Whole j))"

definition final_state :: "string \<Rightarrow> bool" where
  "final_state st \<longleftrightarrow> st = ''accepted'' \<or> st = ''failed''"

definition delivery_ok :: "job_view \<Rightarrow> delivery_row \<Rightarrow> bool" where
  "delivery_ok v d \<longleftrightarrow>
     dr_attempts d \<le> 6 \<and> 0 \<le> dr_next d \<and>
     (dr_state d = ''queued'' \<longrightarrow> dr_attempts d = 0 \<and> dr_claim d = []) \<and>
     (dr_state d \<noteq> ''queued'' \<and> dr_state d \<noteq> ''quarantined'' \<longrightarrow> outboundID (dr_claim d) \<and> dr_attempts d \<noteq> 0) \<and>
     (final_state (dr_state d) \<or>
      dr_state d \<in> {''queued'', ''submitting'', ''retryable'', ''uncertain'', ''quarantined''} \<and> (\<exists>j. v = Whole j))"

definition view_deliveries :: "job_view \<Rightarrow> nat" where
  "view_deliveries v = (case v of Whole j \<Rightarrow> length (job_Deliveries j) | Compacted r \<Rightarrow> rcpt_Deliveries r)"

definition readOutbound ::
  "mail_lib \<Rightarrow> mailbox_limits \<Rightarrow> string \<Rightarrow> string \<Rightarrow> mailbox_db \<Rightarrow> (outbox_error, job_view \<times> delivery_row list \<times> nat) result" where
  "readOutbound lib lim master ident db =
     (if \<not> key_ok master ident then Inl ErrOutbound
      else
        (case map_of (mb_outbox db) ident of
           None \<Rightarrow> Inl ErrOutbound
         | Some row \<Rightarrow>
             if sealed_size lib (or_plain row) > maxOutboundBytes \<or> or_master row \<noteq> master then Inl ErrOutbound
             else and_then (open_row lib lim db row) (\<lambda>v.
               if \<not> list_all (delivery_ok v) (or_deliveries row) \<or> length (or_deliveries row) \<noteq> view_deliveries v
               then Inl ErrOutbound
               else Inr (v, or_deliveries row, case or_sent_id row of None \<Rightarrow> 0 | Some i \<Rightarrow> i))))"

definition ReadOutbound ::
  "mail_lib \<Rightarrow> mailbox_limits \<Rightarrow> bool \<Rightarrow> string \<Rightarrow> string \<Rightarrow> mailbox_db \<Rightarrow> (outbox_error, job_view \<times> delivery_row list \<times> nat) result" where
  "ReadOutbound lib lim commits master ident db =
     (if \<not> commits then Inl OutboxDbError else readOutbound lib lim master ident db)"

section \<open>Writing\<close>

definition put_row :: "string \<Rightarrow> outbox_row \<Rightarrow> mailbox_db \<Rightarrow> mailbox_db" where
  "put_row ident row db = db\<lparr>mb_outbox := AList.update ident row (mb_outbox db)\<rparr>"

text \<open>The triggers that keep the usage counters.\<close>

definition row_payload :: "mail_lib \<Rightarrow> outbox_row \<Rightarrow> int" where
  "row_payload lib row = int (sealed_size lib (or_plain row)) + int (or_sent_bytes row)"

definition update_row :: "mail_lib \<Rightarrow> string \<Rightarrow> outbox_row \<Rightarrow> outbox_row \<Rightarrow> mailbox_db \<Rightarrow> mailbox_db" where
  "update_row lib ident old row db =
     (put_row ident row db)
       \<lparr>mb_records := mb_records db + int (or_sent_reserved row) - int (or_sent_reserved old),
        mb_payload := mb_payload db + row_payload lib row - row_payload lib old\<rparr>"

definition insert_row :: "mail_lib \<Rightarrow> string \<Rightarrow> outbox_row \<Rightarrow> mailbox_db \<Rightarrow> mailbox_db" where
  "insert_row lib ident row db =
     (put_row ident row db)
       \<lparr>mb_records := mb_records db + 1 + int (or_sent_reserved row) + int (length (or_deliveries row)),
        mb_payload := mb_payload db + row_payload lib row\<rparr>"

definition insert_message :: "message_row \<Rightarrow> mailbox_db \<Rightarrow> mailbox_db" where
  "insert_message m db =
     db\<lparr>mb_messages := mb_messages db @ [m], mb_records := mb_records db + 1, mb_payload := mb_payload db + int (msg_raw_len m)\<rparr>"

text \<open>
  \<open>drive_ok\<close> is the answer of \<open>CheckDriveReserve\<close>; \<open>sealed\<close> that the value could be sealed.
\<close>

definition QueueOutbound ::
  "mail_lib \<Rightarrow> mailbox_limits \<Rightarrow> bool \<Rightarrow> bool \<Rightarrow> bool \<Rightarrow> int \<Rightarrow> string \<Rightarrow> string \<Rightarrow> outbound_job \<Rightarrow> mailbox_db
     \<Rightarrow> outbox_error option \<times> mailbox_db" where
  "QueueOutbound lib lim commits sealed drive_ok now master ident job db =
     (case validateOutbound lib lim job of
        Some e \<Rightarrow> (Some e, db)
      | None \<Rightarrow>
          if \<not> key_ok master ident \<or> \<not> sealed \<or> sealed_size lib (PlainJob job) > maxOutboundBytes then (Some ErrOutbound, db)
          else if \<not> commits then (Some OutboxDbError, db)
          else if map_of (mb_outbox db) ident \<noteq> None then
            (case readOutbound lib lim master ident db of
               Inl e \<Rightarrow> (Some e, db)
             | Inr (Whole prior, _, _) \<Rightarrow> if prior \<noteq> job then (Some ErrConflict, db) else (None, db)
             | Inr (Compacted r, _, _) \<Rightarrow> if rcpt_Intent r \<noteq> job_digest lib job then (Some ErrConflict, db) else (None, db))
          else
            (let reserved = (if job_Sent job \<noteq> [] then 1 else 0);
                 row = \<lparr>or_plain = PlainJob job, or_master = master, or_sent_bytes = length (job_Sent job),
                        or_sent_reserved = reserved, or_sent_id = None, or_created = now,
                        or_deliveries = map (\<lambda>_. \<lparr>dr_state = ''queued'', dr_claim = [], dr_attempts = 0, dr_next = 0\<rparr>) (job_Deliveries job)\<rparr> in
             if mb_records db + int (1 + length (job_Deliveries job) + reserved) > ml_Records lim \<or>
                row_payload lib row > ml_PayloadBytes lim - mb_payload db \<or> \<not> drive_ok
             then (Some ErrCapacity, db)
             else (None, insert_row lib ident row db)))"

definition set_delivery :: "string \<Rightarrow> outbox_row \<Rightarrow> nat \<Rightarrow> delivery_row \<Rightarrow> mailbox_db \<Rightarrow> mailbox_db" where
  "set_delivery ident row n d db = put_row ident (row\<lparr>or_deliveries := (or_deliveries row)[n := d]\<rparr>) db"

definition ClaimOutbound ::
  "mail_lib \<Rightarrow> mailbox_limits \<Rightarrow> bool \<Rightarrow> int \<Rightarrow> string option \<Rightarrow> string \<Rightarrow> string \<Rightarrow> int \<Rightarrow> string \<Rightarrow> mailbox_db
     \<Rightarrow> (outbox_error, outbound_delivery \<times> string) result \<times> mailbox_db" where
  "ClaimOutbound lib lim commits now uuid master ident sequence generation db =
     (if \<not> commits then (Inl OutboxDbError, db)
      else
        (case (readOutbound lib lim master ident db, map_of (mb_outbox db) ident) of
           (Inr (Whole job, statuses, _), Some row) \<Rightarrow>
             if sequence < 0 \<or> sequence \<ge> int (length statuses) \<or> job_RelayGeneration job \<noteq> generation then (Inl ErrOutbound, db)
             else
               (let d = statuses ! nat sequence in
                if (dr_state d \<noteq> ''queued'' \<and> dr_state d \<noteq> ''retryable'') \<or> dr_next d > now \<or> dr_attempts d \<ge> 6
                then (Inl ErrOutbound, db)
                else
                  (case uuid of
                     None \<Rightarrow> (Inl OutboxDbError, db)
                   | Some claim \<Rightarrow>
                       (Inr (job_Deliveries job ! nat sequence, claim),
                        set_delivery ident row (nat sequence)
                          (d\<lparr>dr_state := ''submitting'', dr_claim := claim, dr_attempts := dr_attempts d + 1, dr_next := 0\<rparr>) db)))
         | _ \<Rightarrow> (Inl ErrOutbound, db)))"

text \<open>What the relay answered to a submission.\<close>

datatype submission = SubmitOk | AcceptedThenFailed | AcceptanceUncertain | SmtpReply int | OtherFailure

definition complete_outcome :: "nat \<Rightarrow> submission \<Rightarrow> string" where
  "complete_outcome attempts sub =
     (case sub of
        SubmitOk \<Rightarrow> ''accepted''
      | AcceptedThenFailed \<Rightarrow> ''accepted''
      | SmtpReply code \<Rightarrow>
          if 400 \<le> code \<and> code \<le> 599 then (if code < 500 \<and> attempts < 6 then ''retryable'' else ''failed'') else ''uncertain''
      | _ \<Rightarrow> ''uncertain'')"

definition retry_delay :: "nat \<Rightarrow> int" where
  "retry_delay attempts = 30 * 2 ^ (attempts - 1)"

text \<open>A job whose deliveries are all final and whose Sent copy is filed becomes a receipt.\<close>

definition receipt_of :: "mail_lib \<Rightarrow> outbound_job \<Rightarrow> bool \<Rightarrow> outbound_receipt" where
  "receipt_of lib job sent =
     \<lparr>rcpt_From = job_From job, rcpt_RelayGeneration = job_RelayGeneration job,
      rcpt_Deliveries = length (job_Deliveries job), rcpt_Intent = job_digest lib job,
      rcpt_Sent = (if sent then hashIncoming lib (job_Sent job) else [])\<rparr>"

definition compactOutbound :: "mail_lib \<Rightarrow> mailbox_limits \<Rightarrow> bool \<Rightarrow> string \<Rightarrow> string \<Rightarrow> mailbox_db \<Rightarrow> mailbox_db" where
  "compactOutbound lib lim sealed master ident db =
     (case (readOutbound lib lim master ident db, map_of (mb_outbox db) ident) of
        (Inr (Whole job, statuses, sent), Some row) \<Rightarrow>
          if (job_Sent job \<noteq> [] \<and> sent = 0) \<or> \<not> list_all (\<lambda>d. final_state (dr_state d)) statuses \<or> \<not> sealed then db
          else
            update_row lib ident row
              (row\<lparr>or_plain := PlainReceipt (receipt_of lib job (sent > 0)), or_master := master\<rparr>) db
      | _ \<Rightarrow> db)"

definition CompleteOutbound ::
  "mail_lib \<Rightarrow> mailbox_limits \<Rightarrow> bool \<Rightarrow> bool \<Rightarrow> int \<Rightarrow> string \<Rightarrow> string \<Rightarrow> int \<Rightarrow> string \<Rightarrow> submission \<Rightarrow> mailbox_db
     \<Rightarrow> outbox_error option \<times> mailbox_db" where
  "CompleteOutbound lib lim commits sealed now master ident sequence claim sub db =
     (if \<not> outboundID ident \<or> \<not> outboundID claim then (Some ErrOutbound, db)
      else if \<not> commits then (Some OutboxDbError, db)
      else
        (case map_of (mb_outbox db) ident of
           None \<Rightarrow> (Some ErrOutbound, db)
         | Some row \<Rightarrow>
             if sequence < 0 \<or> sequence \<ge> int (length (or_deliveries row)) then (Some ErrOutbound, db)
             else
               (let d = or_deliveries row ! nat sequence in
                if dr_state d \<noteq> ''submitting'' \<or> dr_claim d \<noteq> claim \<or> dr_attempts d < 1 \<or> dr_attempts d > 6
                then (Some ErrOutbound, db)
                else
                  (let outcome = complete_outcome (dr_attempts d) sub;
                       retryAt = (if outcome = ''retryable'' then now + retry_delay (dr_attempts d) else 0);
                       db' = set_delivery ident row (nat sequence) (d\<lparr>dr_state := outcome, dr_next := retryAt\<rparr>) db in
                   (None, if final_state outcome then compactOutbound lib lim sealed master ident db' else db')))))"

definition FileOutboundSent ::
  "mail_lib \<Rightarrow> mailbox_limits \<Rightarrow> bool \<Rightarrow> bool \<Rightarrow> string \<Rightarrow> string \<Rightarrow> mailbox_db \<Rightarrow> (outbox_error, nat) result \<times> mailbox_db" where
  "FileOutboundSent lib lim commits sealed master ident db =
     (if \<not> commits then (Inl OutboxDbError, db)
      else
        (case (readOutbound lib lim master ident db, map_of (mb_outbox db) ident) of
           (Inr (v, statuses, sent), Some row) \<Rightarrow>
             if sent > 0 then (Inr sent, db)
             else
               (case v of
                  Whole job \<Rightarrow>
                    if \<not> list_ex (\<lambda>d. dr_state d = ''accepted'') statuses \<or> job_Sent job = [] then (Inl ErrOutbound, db)
                    else if \<not> rawMetadata lib (job_Sent job) then (Inl ErrOutbound, db)
                    else
                      (let db1 = insert_message \<lparr>msg_raw_len = length (job_Sent job), msg_digest = hashIncoming lib (job_Sent job)\<rparr> db;
                           sent' = length (mb_messages db1);
                           db2 = update_row lib ident row (row\<lparr>or_sent_id := Some sent', or_sent_bytes := 0, or_sent_reserved := 0\<rparr>) db1 in
                       (Inr sent', compactOutbound lib lim sealed master ident db2))
                | Compacted _ \<Rightarrow> (Inl ErrOutbound, db))
         | (Inl e, _) \<Rightarrow> (Inl e, db)
         | _ \<Rightarrow> (Inl ErrOutbound, db)))"

definition QuarantineOutbound ::
  "bool \<Rightarrow> string \<Rightarrow> int \<Rightarrow> mailbox_db \<Rightarrow> outbox_error option \<times> mailbox_db" where
  "QuarantineOutbound commits ident sequence db =
     (if \<not> outboundID ident \<or> sequence < 0 then (Some ErrOutbound, db)
      else if \<not> commits then (Some OutboxDbError, db)
      else
        (case map_of (mb_outbox db) ident of
           None \<Rightarrow> (Some ErrOutbound, db)
         | Some row \<Rightarrow>
             if sequence \<ge> int (length (or_deliveries row)) then (Some ErrOutbound, db)
             else
               (let d = or_deliveries row ! nat sequence in
                if dr_state d \<in> {''queued'', ''retryable'', ''quarantined''} then
                  (None, set_delivery ident row (nat sequence) (d\<lparr>dr_state := ''quarantined'', dr_next := 0\<rparr>) db)
                else (Some ErrOutbound, db))))"

section \<open>Listing work\<close>

definition due :: "int \<Rightarrow> outbox_row \<Rightarrow> bool" where
  "due now row \<longleftrightarrow>
     (let ds = or_deliveries row; first_accepted = (ds \<noteq> [] \<and> dr_state (hd ds) = ''accepted'') in
      list_ex (\<lambda>(n, d). dr_state d \<in> {''queued'', ''retryable''} \<and> dr_next d \<le> now \<and> (n = 0 \<or> first_accepted)) (enumerate 0 ds) \<or>
      first_accepted \<and> or_sent_reserved row = 1)"

definition PendingOutbound :: "bool \<Rightarrow> int \<Rightarrow> int \<Rightarrow> mailbox_db \<Rightarrow> (outbox_error, string list) result" where
  "PendingOutbound commits now limit db =
     (if limit < 1 \<or> limit > 1000 then Inl ErrOutbound
      else if \<not> commits then Inl OutboxDbError
      else
        (let rows = take (nat limit) (sort_key (or_created \<circ> snd) (sort_key fst (filter (due now \<circ> snd) (mb_outbox db)))) in
         if list_all (\<lambda>(ident, row). outboundID ident \<and> or_created row > 0) rows then Inr (map fst rows) else Inl ErrOutbound))"

fun from_addresses :: "mail_lib \<Rightarrow> mailbox_limits \<Rightarrow> string \<Rightarrow> mailbox_db \<Rightarrow> string list \<Rightarrow> (outbox_error, string list) result" where
  "from_addresses lib lim master db [] = Inr []"
| "from_addresses lib lim master db (i # is) =
     and_then (readOutbound lib lim master i db) (\<lambda>(v, _).
       and_then (from_addresses lib lim master db is) (\<lambda>fs. Inr (view_from v # fs)))"

definition QueuedOutboundFrom :: "mail_lib \<Rightarrow> mailbox_limits \<Rightarrow> bool \<Rightarrow> string \<Rightarrow> mailbox_db \<Rightarrow> (outbox_error, string list) result" where
  "QueuedOutboundFrom lib lim commits master db =
     (if \<not> commits then Inl OutboxDbError
      else from_addresses lib lim master db
             (sort (map fst (filter (\<lambda>(i, row). list_ex (\<lambda>d. dr_state d \<in> {''queued'', ''retryable''}) (or_deliveries row)) (mb_outbox db)))))"

section \<open>Runs\<close>

datatype outbox_op =
  QueueOp bool bool bool int string string outbound_job
| ClaimOp bool int "string option" string string int string
| CompleteOp bool bool int string string int string submission
| FileOp bool bool string string
| QuarantineOp bool string int

datatype outbox_answer = OutDone | OutClaimed string | OutFiled nat | OutFailed outbox_error

definition out_done :: "outbox_error option \<times> mailbox_db \<Rightarrow> outbox_answer \<times> mailbox_db" where
  "out_done r = ((case fst r of None \<Rightarrow> OutDone | Some e \<Rightarrow> OutFailed e), snd r)"

fun outbox_step :: "mail_lib \<Rightarrow> mailbox_limits \<Rightarrow> outbox_op \<Rightarrow> mailbox_db \<Rightarrow> outbox_answer \<times> mailbox_db" where
  "outbox_step lib lim (QueueOp c s dr now m i j) db = out_done (QueueOutbound lib lim c s dr now m i j db)"
| "outbox_step lib lim (ClaimOp c now u m i n g) db =
     (let r = ClaimOutbound lib lim c now u m i n g db in
      (case fst r of Inl e \<Rightarrow> OutFailed e | Inr (d, claim) \<Rightarrow> OutClaimed claim, snd r))"
| "outbox_step lib lim (CompleteOp c s now m i n cl sub) db = out_done (CompleteOutbound lib lim c s now m i n cl sub db)"
| "outbox_step lib lim (FileOp c s m i) db =
     (let r = FileOutboundSent lib lim c s m i db in (case fst r of Inl e \<Rightarrow> OutFailed e | Inr k \<Rightarrow> OutFiled k, snd r))"
| "outbox_step lib lim (QuarantineOp c i n) db = out_done (QuarantineOutbound c i n db)"

subsection \<open>The life of one delivery\<close>

text \<open>
  What may happen to a delivery: it is claimed for an attempt, of which there are six, and while the
  attempt is in flight only its own token completes it. A definite temporary refusal makes it claimable
  again; every other answer closes it.
\<close>

datatype phase = Idle nat | InFlight nat string | Closed | Broken

datatype delivery_event = Claimed string | Answered string submission

fun phase_step :: "delivery_event \<Rightarrow> phase \<Rightarrow> phase" where
  "phase_step (Claimed tok) (Idle n) = (if n < 6 then InFlight (Suc n) tok else Broken)"
| "phase_step (Answered tok' sub) (InFlight n tok) =
     (if tok' \<noteq> tok then Broken else if complete_outcome n sub = ''retryable'' then Idle n else Closed)"
| "phase_step _ _ = Broken"

fun event_of :: "string \<Rightarrow> nat \<Rightarrow> outbox_op \<times> outbox_answer \<Rightarrow> delivery_event option" where
  "event_of ident k (ClaimOp c now u m i n g, OutClaimed tok) = (if i = ident \<and> n = int k then Some (Claimed tok) else None)"
| "event_of ident k (CompleteOp c s now m i n cl sub, OutDone) = (if i = ident \<and> n = int k then Some (Answered cl sub) else None)"
| "event_of ident k _ = None"

definition phase_of :: "string \<Rightarrow> nat \<Rightarrow> (outbox_op \<times> outbox_answer) list \<Rightarrow> phase" where
  "phase_of ident k h = fold phase_step (List.map_filter (event_of ident k) h) (Idle 0)"

lemma phase_of_snoc:
  "phase_of ident k (h @ [x]) =
     (case event_of ident k x of None \<Rightarrow> phase_of ident k h | Some e \<Rightarrow> phase_step e (phase_of ident k h))"
  by (simp add: phase_of_def List.map_filter_def split: option.split)

definition in_phase :: "phase \<Rightarrow> delivery_row \<Rightarrow> bool" where
  "in_phase ph d \<longleftrightarrow>
     (dr_state d \<in> {''queued'', ''retryable'', ''quarantined''} \<longrightarrow> ph = Idle (dr_attempts d)) \<and>
     (dr_state d = ''submitting'' \<longrightarrow> ph = InFlight (dr_attempts d) (dr_claim d)) \<and>
     (dr_state d \<in> {''accepted'', ''failed'', ''uncertain''} \<longrightarrow> ph = Closed) \<and>
     dr_state d \<in> {''queued'', ''retryable'', ''quarantined'', ''submitting'', ''accepted'', ''failed'', ''uncertain''}"

text \<open>The delivery rows of a job, as far as there are any.\<close>

definition delivery_at :: "mailbox_db \<Rightarrow> string \<Rightarrow> nat \<Rightarrow> delivery_row option" where
  "delivery_at db ident k =
     (case map_of (mb_outbox db) ident of
        None \<Rightarrow> None | Some row \<Rightarrow> if k < length (or_deliveries row) then Some (or_deliveries row ! k) else None)"

fun row_phase :: "phase \<Rightarrow> delivery_row option \<Rightarrow> bool" where
  "row_phase ph None = (ph = Idle 0)"
| "row_phase ph (Some d) = in_phase ph d"

definition phases_ok :: "(outbox_op \<times> outbox_answer) list \<Rightarrow> mailbox_db \<Rightarrow> bool" where
  "phases_ok h db \<longleftrightarrow> (\<forall>ident k. row_phase (phase_of ident k h) (delivery_at db ident k))"

lemma delivery_at_put_row:
  "delivery_at (put_row i row db) ident k =
     (if ident = i then if k < length (or_deliveries row) then Some (or_deliveries row ! k) else None else delivery_at db ident k)"
  by (simp add: delivery_at_def put_row_def table)

lemma delivery_at_counters [simp]:
  "delivery_at (db\<lparr>mb_records := r\<rparr>) ident k = delivery_at db ident k" "delivery_at (db\<lparr>mb_payload := p\<rparr>) ident k = delivery_at db ident k"
  "delivery_at (db\<lparr>mb_messages := ms\<rparr>) ident k = delivery_at db ident k"
  by (simp_all add: delivery_at_def)

lemma delivery_at_same_deliveries:
  "map_of (mb_outbox db) i = Some row \<Longrightarrow> or_deliveries row' = or_deliveries row \<Longrightarrow>
     delivery_at (update_row lib i old row' db) ident k = delivery_at db ident k"
  by (auto simp: update_row_def delivery_at_put_row) (auto simp: delivery_at_def)

lemma delivery_at_insert_message [simp]: "delivery_at (insert_message m db) ident k = delivery_at db ident k"
  by (simp add: insert_message_def)

lemma delivery_at_set:
  "map_of (mb_outbox db) i = Some row \<Longrightarrow> n < length (or_deliveries row) \<Longrightarrow>
     delivery_at (set_delivery i row n d db) ident k = (if ident = i \<and> k = n then Some d else delivery_at db ident k)"
  by (auto simp: set_delivery_def delivery_at_put_row nth_list_update) (auto simp: delivery_at_def)

lemma delivery_at_compact [simp]: "delivery_at (compactOutbound lib lim sealed m i db) ident k = delivery_at db ident k"
  by (auto simp: compactOutbound_def delivery_at_same_deliveries split: sum.split job_view.split option.split)

lemma Queue_cases:
  obtains (same) "snd (QueueOutbound lib lim c s dr now m i j db) = db"
  | (queued) row where "map_of (mb_outbox db) i = None" "QueueOutbound lib lim c s dr now m i j db = (None, insert_row lib i row db)"
      "or_plain row = PlainJob j" "or_sent_bytes row = length (job_Sent j)" "or_sent_id row = None"
      "or_deliveries row = map (\<lambda>_. \<lparr>dr_state = ''queued'', dr_claim = [], dr_attempts = 0, dr_next = 0\<rparr>) (job_Deliveries j)"
      "mb_records db + int (1 + length (job_Deliveries j) + or_sent_reserved row) \<le> ml_Records lim"
      "row_payload lib row \<le> ml_PayloadBytes lim - mb_payload db" "job_Sent j = [] \<longleftrightarrow> or_sent_reserved row = 0"
proof -
  let ?row = "\<lparr>or_plain = PlainJob j, or_master = m, or_sent_bytes = length (job_Sent j),
    or_sent_reserved = (if job_Sent j \<noteq> [] then 1 else 0), or_sent_id = None, or_created = now,
    or_deliveries = map (\<lambda>_. \<lparr>dr_state = ''queued'', dr_claim = [], dr_attempts = 0, dr_next = 0\<rparr>) (job_Deliveries j)\<rparr>"
  show thesis
  proof (cases "validateOutbound lib lim j = None \<and> key_ok m i \<and> s \<and> sealed_size lib (PlainJob j) \<le> maxOutboundBytes \<and> c \<and>
      map_of (mb_outbox db) i = None \<and> mb_records db + int (1 + length (job_Deliveries j) + or_sent_reserved ?row) \<le> ml_Records lim \<and>
      row_payload lib ?row \<le> ml_PayloadBytes lim - mb_payload db \<and> dr")
    case True
    then have q: "QueueOutbound lib lim c s dr now m i j db = (None, insert_row lib i ?row db)"
      by (simp add: QueueOutbound_def Let_def)
    show thesis by (rule queued [of ?row]) (use True q in auto)
  next
    case False
    then show thesis
      by (intro same) (auto simp: QueueOutbound_def Let_def split: option.split sum.split job_view.split)
  qed
qed

lemma Claim_cases:
  obtains (refused) e where "ClaimOutbound lib lim c now u m i n g db = (Inl e, db)"
  | (claimed) row d dl tok where "map_of (mb_outbox db) i = Some row" "0 \<le> n" "nat n < length (or_deliveries row)"
      "d = or_deliveries row ! nat n" "dr_state d \<in> {''queued'', ''retryable''}" "dr_attempts d < 6" "u = Some tok"
      "ClaimOutbound lib lim c now u m i n g db = (Inr (dl, tok),
         set_delivery i row (nat n) (d\<lparr>dr_state := ''submitting'', dr_claim := tok, dr_attempts := dr_attempts d + 1, dr_next := 0\<rparr>) db)"
proof (cases "\<exists>e. ClaimOutbound lib lim c now u m i n g db = (Inl e, db)")
  case True
  then show thesis using refused by blast
next
  case False
  then obtain job statuses sent row where r: "c" "readOutbound lib lim m i db = Inr (Whole job, statuses, sent)"
    "map_of (mb_outbox db) i = Some row"
    by (auto simp: ClaimOutbound_def split: if_splits sum.splits job_view.splits option.splits)
  then have st: "statuses = or_deliveries row"
    by (cases "open_row lib lim db row") (auto simp: readOutbound_def split: if_splits)
  let ?d = "or_deliveries row ! nat n"
  have g: "\<not> (n < 0 \<or> n \<ge> int (length (or_deliveries row)) \<or> job_RelayGeneration job \<noteq> g)"
    "\<not> ((dr_state ?d \<noteq> ''queued'' \<and> dr_state ?d \<noteq> ''retryable'') \<or> dr_next ?d > now \<or> dr_attempts ?d \<ge> 6)"
    using False r st by (auto simp: ClaimOutbound_def Let_def split: if_splits)
  then obtain tok where "u = Some tok" using False r st by (cases u) (auto simp: ClaimOutbound_def Let_def)
  with g r st show thesis
    by (intro claimed [of row ?d tok "job_Deliveries job ! nat n"]) (auto simp: ClaimOutbound_def Let_def)
qed

lemma Complete_cases:
  obtains (refused) e where "CompleteOutbound lib lim c s now m i n cl sub db = (Some e, db)"
  | (completed) row d d' db' where "map_of (mb_outbox db) i = Some row" "0 \<le> n" "nat n < length (or_deliveries row)"
      "d = or_deliveries row ! nat n" "dr_state d = ''submitting''" "dr_claim d = cl"
      "dr_state d' = complete_outcome (dr_attempts d) sub" "dr_attempts d' = dr_attempts d" "dr_claim d' = dr_claim d"
      "db' = set_delivery i row (nat n) d' db"
      "CompleteOutbound lib lim c s now m i n cl sub db =
         (None, if final_state (dr_state d') then compactOutbound lib lim s m i db' else db')"
proof (cases "\<exists>e. CompleteOutbound lib lim c s now m i n cl sub db = (Some e, db)")
  case True
  then show thesis using refused by blast
next
  case False
  then obtain row where r: "outboundID i" "outboundID cl" "c" "map_of (mb_outbox db) i = Some row"
    by (auto simp: CompleteOutbound_def split: if_splits option.splits)
  let ?d = "or_deliveries row ! nat n"
  have g: "0 \<le> n" "nat n < length (or_deliveries row)" "dr_state ?d = ''submitting''" "dr_claim ?d = cl"
    "1 \<le> dr_attempts ?d" "dr_attempts ?d \<le> 6"
    using False r by (auto simp: CompleteOutbound_def Let_def split: if_splits)
  let ?out = "complete_outcome (dr_attempts ?d) sub"
  let ?d' = "?d\<lparr>dr_state := ?out, dr_next := (if ?out = ''retryable'' then now + retry_delay (dr_attempts ?d) else 0)\<rparr>"
  show thesis by (rule completed [of row ?d ?d']) (use g r in \<open>auto simp: CompleteOutbound_def Let_def\<close>)
qed

lemma File_deliveries: "delivery_at (snd (FileOutboundSent lib lim c s m i db)) ident k = delivery_at db ident k"
proof (cases "map_of (mb_outbox db) i")
  case None
  then show ?thesis by (auto simp: FileOutboundSent_def split: sum.split)
next
  case (Some row)
  then show ?thesis
    by (auto simp: FileOutboundSent_def Let_def insert_message_def delivery_at_same_deliveries [where row = row]
        split: sum.split job_view.split)
qed

lemma Quarantine_cases:
  obtains (refused) e where "QuarantineOutbound c i n db = (Some e, db)"
  | (quarantined) row d d' where "map_of (mb_outbox db) i = Some row" "0 \<le> n" "nat n < length (or_deliveries row)"
      "d = or_deliveries row ! nat n" "dr_state d \<in> {''queued'', ''retryable'', ''quarantined''}"
      "dr_state d' = ''quarantined''" "dr_attempts d' = dr_attempts d" "dr_claim d' = dr_claim d"
      "QuarantineOutbound c i n db = (None, set_delivery i row (nat n) d' db)"
proof (cases "\<exists>e. QuarantineOutbound c i n db = (Some e, db)")
  case True
  then show thesis using refused by blast
next
  case False
  then obtain row where r: "outboundID i" "0 \<le> n" "c" "map_of (mb_outbox db) i = Some row"
    by (auto simp: QuarantineOutbound_def split: if_splits option.splits)
  let ?d = "or_deliveries row ! nat n"
  have g: "nat n < length (or_deliveries row)" "dr_state ?d \<in> {''queued'', ''retryable'', ''quarantined''}"
    using False r by (auto simp: QuarantineOutbound_def Let_def split: if_splits)
  show thesis
    by (rule quarantined [of row ?d "?d\<lparr>dr_state := ''quarantined'', dr_next := 0\<rparr>"])
      (use g r in \<open>auto simp: QuarantineOutbound_def Let_def\<close>)
qed

lemma phases_ok_same:
  assumes "phases_ok h db" and "\<And>ident k. event_of ident k x = None" and "\<And>ident k. delivery_at db' ident k = delivery_at db ident k"
  shows "phases_ok (h @ [x]) db'"
  using assms by (simp add: phases_ok_def phase_of_snoc)

lemma phases_ok_one:
  assumes "phases_ok h db" and "\<And>ident k. (ident, k) \<noteq> (i, n) \<Longrightarrow> event_of ident k x = None"
    and "\<And>ident k. delivery_at db' ident k = (if ident = i \<and> k = n then Some d' else delivery_at db ident k)"
    and "in_phase (phase_of i n (h @ [x])) d'"
  shows "phases_ok (h @ [x]) db'"
  unfolding phases_ok_def
proof (intro allI)
  fix ident k
  show "row_phase (phase_of ident k (h @ [x])) (delivery_at db' ident k)"
  proof (cases "(ident, k) = (i, n)")
    case True
    with assms(3,4) show ?thesis by simp
  next
    case False
    with assms(1) assms(2) [OF False] assms(3) [of ident k] show ?thesis by (auto simp: phase_of_snoc phases_ok_def)
  qed
qed

lemma phases_ok_at:
  assumes "phases_ok h db" and "map_of (mb_outbox db) i = Some row" and "n < length (or_deliveries row)"
  shows "in_phase (phase_of i n h) (or_deliveries row ! n)"
  using assms(1) [unfolded phases_ok_def, rule_format, of i n] assms(2,3) by (simp add: delivery_at_def)

lemma in_phase_claim:
  assumes "in_phase ph d" and "dr_state d \<in> {''queued'', ''retryable''}" and "dr_attempts d < 6"
  shows "in_phase (phase_step (Claimed tok) ph)
           (d\<lparr>dr_state := ''submitting'', dr_claim := tok, dr_attempts := dr_attempts d + 1, dr_next := 0\<rparr>)"
  using assms by (auto simp: in_phase_def)

lemma complete_outcome_cases:
  obtains "complete_outcome n sub = ''retryable''" | "complete_outcome n sub \<in> {''accepted'', ''failed'', ''uncertain''}"
proof -
  have "complete_outcome n sub \<in> {''retryable'', ''accepted'', ''failed'', ''uncertain''}"
    by (cases sub) (simp_all add: complete_outcome_def)
  then show thesis using that by blast
qed

lemma in_phase_complete:
  assumes "in_phase ph d" and "dr_state d = ''submitting''" and "dr_state d' = complete_outcome (dr_attempts d) sub"
    and "dr_attempts d' = dr_attempts d"
  shows "in_phase (phase_step (Answered (dr_claim d) sub) ph) d'"
  using assms by (cases rule: complete_outcome_cases [of "dr_attempts d" sub]) (auto simp: in_phase_def)

interpretation outbox: history_system "outbox_step lib lim" phases_ok for lib lim
proof
  fix h db and op :: outbox_op
  assume ok: "phases_ok h db"
  show "phases_ok (h @ [(op, fst (outbox_step lib lim op db))]) (snd (outbox_step lib lim op db))"
  proof (cases op)
    case (QueueOp c s dr now m i j)
    show ?thesis
    proof (cases rule: Queue_cases [of lib lim c s dr now m i j db])
      case same
      with QueueOp show ?thesis by (intro phases_ok_same [OF ok]) (simp_all add: out_done_def)
    next
      case (queued row)
      have new: "phase_of i k h = Idle 0" for k
        using ok [unfolded phases_ok_def, rule_format, of i k] queued(1) by (simp add: delivery_at_def)
      have at: "delivery_at (insert_row lib i row db) ident k =
          (if ident = i then if k < length (or_deliveries row) then Some (or_deliveries row ! k) else None else delivery_at db ident k)" for ident k
        by (simp add: insert_row_def delivery_at_put_row)
      have "event_of ident k (op, a) = None" for ident k a using QueueOp by simp
      with QueueOp queued(2,6) ok new show ?thesis
        by (auto simp: phases_ok_def phase_of_snoc at out_done_def in_phase_def)
    qed
  next
    case (ClaimOp c now u m i n g)
    show ?thesis
    proof (cases rule: Claim_cases [of lib lim c now u m i n g db])
      case (refused e)
      with ClaimOp show ?thesis by (intro phases_ok_same [OF ok]) simp_all
    next
      case (claimed row d dl tok)
      note ph = in_phase_claim [OF _ claimed(5,6), of "phase_of i (nat n) h" tok]
      show ?thesis
        by (rule phases_ok_one [OF ok, where i = i and n = "nat n"])
          (use ClaimOp claimed ph phases_ok_at [OF ok claimed(1,3)] in \<open>auto simp: phase_of_snoc delivery_at_set\<close>)
    qed
  next
    case (CompleteOp c s now m i n cl sub)
    show ?thesis
    proof (cases rule: Complete_cases [of lib lim c s now m i n cl sub db])
      case (refused e)
      with CompleteOp show ?thesis by (intro phases_ok_same [OF ok]) (simp_all add: out_done_def)
    next
      case (completed row d d' db')
      note ph = in_phase_complete [OF _ completed(5,7,8), of "phase_of i (nat n) h"]
      show ?thesis
        by (rule phases_ok_one [OF ok, where i = i and n = "nat n" and d' = d'])
          (use CompleteOp completed ph phases_ok_at [OF ok completed(1,3)] in \<open>auto simp: phase_of_snoc delivery_at_set out_done_def\<close>)
    qed
  next
    case (FileOp c s m i)
    then show ?thesis by (intro phases_ok_same [OF ok]) (simp_all add: File_deliveries Let_def)
  next
    case (QuarantineOp c i n)
    show ?thesis
    proof (cases rule: Quarantine_cases [of c i n db])
      case (refused e)
      with QuarantineOp show ?thesis by (intro phases_ok_same [OF ok]) (simp_all add: out_done_def)
    next
      case (quarantined row d d')
      show ?thesis
        by (rule phases_ok_one [OF ok, where i = i and n = "nat n" and d' = d'])
          (use QuarantineOp quarantined phases_ok_at [OF ok quarantined(1,3)] in
            \<open>auto simp: phase_of_snoc delivery_at_set out_done_def in_phase_def\<close>)
    qed
  qed
qed

subsection \<open>The usage counters\<close>

definition table_sum :: "('v \<Rightarrow> int) \<Rightarrow> 'v table \<Rightarrow> int" where
  "table_sum f es = sum_list (map (f \<circ> snd) es)"

lemma table_sum_update_old: "map_of es k = Some old \<Longrightarrow> table_sum f (AList.update k v es) = table_sum f es - f old + f v"
  by (induction es) (auto simp: table_sum_def)

lemma table_sum_update_new: "map_of es k = None \<Longrightarrow> table_sum f (AList.update k v es) = table_sum f es + f v"
  by (induction es) (auto simp: table_sum_def split: if_splits)

definition row_records :: "outbox_row \<Rightarrow> int" where
  "row_records row = 1 + int (or_sent_reserved row) + int (length (or_deliveries row))"

definition usage_ok :: "mail_lib \<Rightarrow> mailbox_limits \<Rightarrow> mailbox_db \<Rightarrow> bool" where
  "usage_ok lib lim db \<longleftrightarrow>
     mb_records db = int (length (mb_messages db)) + table_sum row_records (mb_outbox db) \<and>
     mb_payload db = sum_list (map (int \<circ> msg_raw_len) (mb_messages db)) + table_sum (row_payload lib) (mb_outbox db) \<and>
     mb_records db \<le> ml_Records lim \<and> mb_payload db \<le> ml_PayloadBytes lim"

lemma usage_update_row:
  assumes "usage_ok lib lim db" and "map_of (mb_outbox db) i = Some old" and "length (or_deliveries row) = length (or_deliveries old)"
    and "or_sent_reserved row \<le> or_sent_reserved old" and "row_payload lib row \<le> row_payload lib old"
  shows "usage_ok lib lim (update_row lib i old row db)"
  using assms by (simp add: usage_ok_def update_row_def put_row_def table_sum_update_old row_records_def)

lemma usage_set_delivery:
  assumes "usage_ok lib lim db" and "map_of (mb_outbox db) i = Some row"
  shows "usage_ok lib lim (set_delivery i row n d db)"
  using assms by (simp add: usage_ok_def set_delivery_def put_row_def table_sum_update_old row_records_def row_payload_def)

text \<open>A receipt is no larger than the job it replaces.\<close>

definition receipts_small :: "mail_lib \<Rightarrow> bool" where
  "receipts_small lib \<longleftrightarrow> (\<forall>j sent. sealed_size lib (PlainReceipt (receipt_of lib j sent)) \<le> sealed_size lib (PlainJob j))"

lemma read_Whole:
  assumes "readOutbound lib lim m i db = Inr (Whole job, statuses, sent)" and "map_of (mb_outbox db) i = Some row"
  shows "or_plain row = PlainJob job"
proof -
  have "open_row lib lim db row = Inr (Whole job)"
    using assms by (cases "open_row lib lim db row") (auto simp: readOutbound_def split: if_splits)
  then show ?thesis by (auto simp: open_row_def split: outbound_plain.splits if_splits)
qed

lemma usage_compact:
  assumes "usage_ok lib lim db" and "receipts_small lib"
  shows "usage_ok lib lim (compactOutbound lib lim sealed m i db)"
proof (cases "\<exists>job statuses sent row. readOutbound lib lim m i db = Inr (Whole job, statuses, sent) \<and> map_of (mb_outbox db) i = Some row")
  case True
  then obtain job statuses sent row where r: "readOutbound lib lim m i db = Inr (Whole job, statuses, sent)"
    "map_of (mb_outbox db) i = Some row" by blast
  have "or_plain row = PlainJob job" using read_Whole [OF r] .
  with r assms show ?thesis
    by (auto simp: compactOutbound_def row_payload_def receipts_small_def intro!: usage_update_row)
next
  case False
  then have "compactOutbound lib lim sealed m i db = db"
    by (auto simp: compactOutbound_def split: sum.split job_view.split option.split)
  with assms(1) show ?thesis by simp
qed

text \<open>Filing the Sent copy moves its reservation to the message: the counters do not change.\<close>

lemma usage_file:
  assumes ok: "usage_ok lib lim db" and small: "receipts_small lib"
  shows "usage_ok lib lim (snd (FileOutboundSent lib lim c s m i db))"
proof (cases "snd (FileOutboundSent lib lim c s m i db) = db")
  case True
  with ok show ?thesis by simp
next
  case False
  then obtain job statuses row where r: "readOutbound lib lim m i db = Inr (Whole job, statuses, 0)"
      "map_of (mb_outbox db) i = Some row" and sent: "job_Sent job \<noteq> []"
    and f: "snd (FileOutboundSent lib lim c s m i db) = compactOutbound lib lim s m i
      (update_row lib i row (row\<lparr>or_sent_id := Some (Suc (length (mb_messages db))), or_sent_bytes := 0, or_sent_reserved := 0\<rparr>)
        (insert_message \<lparr>msg_raw_len = length (job_Sent job), msg_digest = hashIncoming lib (job_Sent job)\<rparr> db))"
    by (auto simp: FileOutboundSent_def Let_def insert_message_def split: if_splits sum.splits job_view.splits option.splits)
  have "open_row lib lim db row = Inr (Whole job)" "or_sent_id row = None \<or> or_sent_id row = Some 0"
    using r by (cases "open_row lib lim db row"; auto simp: readOutbound_def split: if_splits option.splits)+
  with sent have "or_sent_bytes row = length (job_Sent job)" "or_sent_reserved row = 1"
    by (auto simp: open_row_def filed_def split: outbound_plain.splits if_splits)
  with ok r(2) have "usage_ok lib lim
      (update_row lib i row (row\<lparr>or_sent_id := Some (Suc (length (mb_messages db))), or_sent_bytes := 0, or_sent_reserved := 0\<rparr>)
        (insert_message \<lparr>msg_raw_len = length (job_Sent job), msg_digest = hashIncoming lib (job_Sent job)\<rparr> db))"
    by (simp add: usage_ok_def update_row_def put_row_def insert_message_def table_sum_update_old row_records_def row_payload_def)
  with f small show ?thesis by (simp add: usage_compact)
qed

lemma usage_step:
  assumes ok: "usage_ok lib lim db" and small: "receipts_small lib"
  shows "usage_ok lib lim (snd (outbox_step lib lim op db))"
proof (cases op)
  case (QueueOp c s dr now m i j)
  show ?thesis
  proof (cases rule: Queue_cases [of lib lim c s dr now m i j db])
    case same
    with QueueOp ok show ?thesis by (simp add: out_done_def)
  next
    case (queued row)
    with QueueOp ok show ?thesis
      by (simp add: out_done_def insert_row_def put_row_def usage_ok_def table_sum_update_new row_records_def)
  qed
next
  case (ClaimOp c now u m i n g)
  show ?thesis
    by (cases rule: Claim_cases [of lib lim c now u m i n g db]) (use ClaimOp ok in \<open>simp_all add: usage_set_delivery\<close>)
next
  case (CompleteOp c s now m i n cl sub)
  show ?thesis
    by (cases rule: Complete_cases [of lib lim c s now m i n cl sub db])
      (use CompleteOp ok small in \<open>simp_all add: out_done_def usage_set_delivery usage_compact\<close>)
next
  case (FileOp c s m i)
  with ok small show ?thesis by (simp add: usage_file Let_def)
next
  case (QuarantineOp c i n)
  show ?thesis
    by (cases rule: Quarantine_cases [of c i n db]) (use QuarantineOp ok in \<open>simp_all add: out_done_def usage_set_delivery\<close>)
qed

section \<open>Properties\<close>

definition empty_db :: mailbox_db where
  "empty_db = \<lparr>mb_outbox = [], mb_messages = [], mb_records = 0, mb_payload = 0\<rparr>"



definition demo_lib :: mail_lib where
  "demo_lib = \<lparr>ParseAddress = Some, ReadMessage = (\<lambda>raw. Some (\<lambda>f. if f = ''From'' then [''a@b''] else [])),
     job_digest = (\<lambda>_. replicate 32 (CHR ''d'')), hashIncoming = id, sealed_size = (\<lambda>_. 10)\<rparr>"

definition demo_limits :: mailbox_limits where
  "demo_limits = \<lparr>ml_MessageBytes = 20, ml_PayloadBytes = 50, ml_Records = 5\<rparr>"

definition demo_id :: string where "demo_id = replicate 36 (CHR ''x'')"

definition demo_job :: outbound_job where
  "demo_job = \<lparr>job_From = ''a@b'', job_RelayGeneration = demo_id, job_Deliveries = [\<lparr>dl_Recipients = [''c@d''], dl_Raw = ''hi''\<rparr>],
     job_Sent = ''copy'', job_MaterialGeneration = 0, job_DeviceID = [], job_DeviceWitness = [], job_NativeSendEpoch = 0,
     job_PGPRevision = 0, job_PGPFingerprint = [], job_DirectoryRevision = 0, job_FromGeneration = 0,
     job_RequiresEnrollment = False, job_ExpiresAt = 0\<rparr>"


end
