(* ===== verification/Group_Store.thy ===== *)
theory Group_Store
  imports File_Store "HOL-Library.Multiset"
begin

text \<open>
  One user's contact groups, \<open>backend/internal/groups/store.go\<close>, on the file store of \<open>File_Store\<close>.

  \<open>sort.Slice\<close> is not stable, so the sort by name is a parameter. \<open>EnsureByName\<close> may draw several
  identifiers; it gets a list of them, each \<open>None\<close> where \<open>NewUUIDv4\<close> fails, and an exhausted list is a
  failure.
\<close>

section \<open>State\<close>

record group =
  grp_ID :: string
  grp_Name :: string
  grp_Rev :: int
  grp_CreatedAt :: string
  grp_UpdatedAt :: string

record groups_file =
  gf_Groups :: "group list"
  gf_Seq :: int

type_synonym group_store = "groups_file file_state"

definition MaxGroupsPerUser :: nat where "MaxGroupsPerUser = 1000"

section \<open>Operations\<close>

definition List_groups :: "(group list \<Rightarrow> group list) \<Rightarrow> io \<Rightarrow> group_store \<Rightarrow> (io_error, group list) result \<times> group_store" where
  "List_groups srt i s =
     (case refreshFromDisk i s of Inl e \<Rightarrow> (Inl e, s) | Inr s' \<Rightarrow> (Inr (srt (gf_Groups (fs_mem s'))), s'))"

definition Get_group :: "string \<Rightarrow> io \<Rightarrow> group_store \<Rightarrow> (io_error, group option) result \<times> group_store" where
  "Get_group ident i s =
     (case refreshFromDisk i s of
        Inl e \<Rightarrow> (Inl e, s) | Inr s' \<Rightarrow> (Inr (find (\<lambda>g. grp_ID g = ident) (gf_Groups (fs_mem s'))), s'))"

fun replace_group :: "group \<Rightarrow> group list \<Rightarrow> (group \<times> group list) option" where
  "replace_group g [] = None"
| "replace_group g (x # xs) =
     (if grp_ID x = grp_ID g then
        (let g' = (if grp_CreatedAt g = [] then g\<lparr>grp_CreatedAt := grp_CreatedAt x\<rparr> else g) in Some (g', g' # xs))
      else map_option (\<lambda>(g', ys). (g', x # ys)) (replace_group g xs))"

definition upsert_group_body :: "group \<Rightarrow> io \<Rightarrow> groups_file \<Rightarrow> (io_error, group) result \<times> groups_file \<times> bool" where
  "upsert_group_body g0 i f0 =
     (let f = f0\<lparr>gf_Seq := gf_Seq f0 + 1\<rparr>;
          g = g0\<lparr>grp_Rev := gf_Seq f, grp_UpdatedAt := io_now i\<rparr>;
          add = (\<lambda>g. (Inr g, f\<lparr>gf_Groups := gf_Groups f @ [g]\<rparr>, True)) in
      if grp_ID g = [] then
        (if length (gf_Groups f) \<ge> MaxGroupsPerUser then (Inl StoreFull, f, False)
         else
           (case io_uuid i of
              None \<Rightarrow> (Inl RandError, f, False)
            | Some ident \<Rightarrow> add (g\<lparr>grp_ID := ident, grp_CreatedAt := io_now i\<rparr>)))
      else
        (case replace_group g (gf_Groups f) of
           Some (g', gs) \<Rightarrow> (Inr g', f\<lparr>gf_Groups := gs\<rparr>, True)
         | None \<Rightarrow> add (g\<lparr>grp_CreatedAt := io_now i\<rparr>)))"

definition Upsert_group :: "group \<Rightarrow> io \<Rightarrow> group_store \<Rightarrow> (io_error, group) result \<times> group_store" where
  "Upsert_group g i s = mutate i (upsert_group_body g i) s"

text \<open>The map \<open>byName\<close>: the last group with a name, compared in lower case.\<close>

definition byName :: "group list \<Rightarrow> string \<rightharpoonup> string" where
  "byName gs = fold (\<lambda>g m. m(to_lower (grp_Name g) \<mapsto> grp_ID g)) gs Map.empty"

record ensure_state =
  en_file :: groups_file
  en_byName :: "string \<rightharpoonup> string"
  en_ids :: "string list"
  en_seen :: "string list"
  en_created :: nat

fun ensure_loop :: "string \<Rightarrow> string list \<Rightarrow> string option list \<Rightarrow> ensure_state \<Rightarrow> io_error option \<times> ensure_state" where
  "ensure_loop now [] uuids st = (None, st)"
| "ensure_loop now (raw # names) uuids st =
     (let name = trim_space raw; key = to_lower name in
      if name = [] \<or> key \<in> set (en_seen st) then ensure_loop now names uuids st
      else
        (let st1 = st\<lparr>en_seen := key # en_seen st\<rparr>; f = en_file st in
         case en_byName st1 key of
           Some ident \<Rightarrow> ensure_loop now names uuids (st1\<lparr>en_ids := en_ids st1 @ [ident]\<rparr>)
         | None \<Rightarrow>
             if length (gf_Groups f) \<ge> MaxGroupsPerUser then (Some StoreFull, st1)
             else
               (case uuids of
                  [] \<Rightarrow> (Some RandError, st1)
                | None # us \<Rightarrow> (Some RandError, st1)
                | Some ident # us \<Rightarrow>
                    ensure_loop now names us
                      (st1\<lparr>en_file := \<lparr>gf_Groups = gf_Groups f @ [\<lparr>grp_ID = ident, grp_Name = name, grp_Rev = gf_Seq f + 1,
                                         grp_CreatedAt = now, grp_UpdatedAt = now\<rparr>], gf_Seq = gf_Seq f + 1\<rparr>,
                           en_byName := (en_byName st1)(key \<mapsto> ident), en_ids := en_ids st1 @ [ident],
                           en_created := en_created st1 + 1\<rparr>))))"

definition ensure_body ::
  "string list \<Rightarrow> string option list \<Rightarrow> io \<Rightarrow> groups_file \<Rightarrow> (io_error, string list) result \<times> groups_file \<times> bool" where
  "ensure_body names uuids i f =
     (case ensure_loop (io_now i) names uuids
             \<lparr>en_file = f, en_byName = byName (gf_Groups f), en_ids = [], en_seen = [], en_created = 0\<rparr> of
        (Some e, st) \<Rightarrow> (Inl e, en_file st, False)
      | (None, st) \<Rightarrow> (Inr (en_ids st), en_file st, en_created st \<noteq> 0))"

definition EnsureByName ::
  "string list \<Rightarrow> string option list \<Rightarrow> io \<Rightarrow> group_store \<Rightarrow> (io_error, string list) result \<times> group_store" where
  "EnsureByName names uuids i s = mutate i (ensure_body names uuids i) s"

fun delete_group_first :: "string \<Rightarrow> group list \<Rightarrow> group list option" where
  "delete_group_first ident [] = None"
| "delete_group_first ident (g # gs) =
     (if grp_ID g \<noteq> ident then map_option (Cons g) (delete_group_first ident gs) else Some gs)"

definition delete_group_body :: "string \<Rightarrow> groups_file \<Rightarrow> (io_error, bool) result \<times> groups_file \<times> bool" where
  "delete_group_body ident f =
     (case delete_group_first ident (gf_Groups f) of
        Some gs \<Rightarrow> (Inr True, f\<lparr>gf_Groups := gs\<rparr>, True)
      | None \<Rightarrow> (Inr False, f, False))"

definition Delete_group :: "string \<Rightarrow> io \<Rightarrow> group_store \<Rightarrow> (io_error, bool) result \<times> group_store" where
  "Delete_group ident i s = mutate i (delete_group_body ident) s"

section \<open>Well-formed files\<close>

definition group_ids :: "groups_file \<Rightarrow> string list" where
  "group_ids f = map grp_ID (gf_Groups f)"

definition groups_ok :: "groups_file \<Rightarrow> bool" where
  "groups_ok f \<longleftrightarrow> distinct (group_ids f) \<and> [] \<notin> set (group_ids f) \<and> length (group_ids f) \<le> MaxGroupsPerUser"

datatype group_op = UpsertG group | EnsureG "string list" "string option list" | DeleteG string

definition group_body :: "io \<Rightarrow> group_op \<Rightarrow> groups_file \<Rightarrow> (io_error, unit) result \<times> groups_file \<times> bool" where
  "group_body i op f =
     (case op of
        UpsertG g \<Rightarrow> map_prod (map_sum id (\<lambda>_. ())) id (upsert_group_body g i f)
      | EnsureG names uuids \<Rightarrow> map_prod (map_sum id (\<lambda>_. ())) id (ensure_body names uuids i f)
      | DeleteG ident \<Rightarrow> map_prod (map_sum id (\<lambda>_. ())) id (delete_group_body ident f))"

text \<open>Identifiers drawn are new; an upsert with an identifier names a group that is there.\<close>

definition drawn :: "string option list \<Rightarrow> string list" where
  "drawn uuids = List.map_filter id uuids"

definition group_draw_ok :: "io \<Rightarrow> group_op \<Rightarrow> groups_file \<Rightarrow> bool" where
  "group_draw_ok i op f \<longleftrightarrow>
     (case op of
        UpsertG g \<Rightarrow> if grp_ID g = [] then \<forall>ident. io_uuid i = Some ident \<longrightarrow> ident \<noteq> [] \<and> ident \<notin> set (group_ids f)
                     else grp_ID g \<in> set (group_ids f)
      | EnsureG names uuids \<Rightarrow> distinct (drawn uuids) \<and> [] \<notin> set (drawn uuids) \<and> set (drawn uuids) \<inter> set (group_ids f) = {}
      | DeleteG ident \<Rightarrow> True)"

lemma replace_group_ids:
  "replace_group g xs = Some (g', ys) \<Longrightarrow> map grp_ID ys = map grp_ID xs"
  by (induction xs arbitrary: ys) (auto simp: Let_def split: if_splits)

lemma replace_group_None: "replace_group g xs = None \<longleftrightarrow> grp_ID g \<notin> set (map grp_ID xs)"
  by (induction xs) (auto simp: Let_def)

lemma upsert_group_ok:
  assumes "groups_ok f" and "group_draw_ok i (UpsertG g) f"
  shows "groups_ok (fst (snd (upsert_group_body g i f)))"
proof (cases "grp_ID g = []")
  case True
  with assms show ?thesis
    by (auto simp: upsert_group_body_def Let_def groups_ok_def group_ids_def group_draw_ok_def split: option.split)
next
  case False
  let ?g = "g\<lparr>grp_Rev := gf_Seq f + 1, grp_UpdatedAt := io_now i\<rparr>"
  from False assms(2) obtain g' gs where r: "replace_group ?g (gf_Groups f) = Some (g', gs)"
    using replace_group_None [of ?g "gf_Groups f"] by (cases "replace_group ?g (gf_Groups f)") (auto simp: group_draw_ok_def group_ids_def)
  then have "group_ids (fst (snd (upsert_group_body g i f))) = group_ids f"
    using False replace_group_ids [OF r] by (simp add: upsert_group_body_def Let_def group_ids_def)
  with assms(1) show ?thesis by (simp add: groups_ok_def)
qed

lemma delete_group_first_ids:
  "delete_group_first ident xs = Some ys \<Longrightarrow> distinct (map grp_ID xs) \<Longrightarrow> map grp_ID ys = filter (\<lambda>i. i \<noteq> ident) (map grp_ID xs)"
  by (induction xs arbitrary: ys) (auto split: if_splits simp: filter_id_conv intro!: filter_True [symmetric])

lemma delete_group_ok: "groups_ok f \<Longrightarrow> groups_ok (fst (snd (delete_group_body ident f)))"
proof (cases "delete_group_first ident (gf_Groups f)")
  case (Some gs)
  assume "groups_ok f"
  with Some delete_group_first_ids [OF Some] have "groups_ok (f\<lparr>gf_Groups := gs\<rparr>)"
    using length_filter_le [of "\<lambda>i. i \<noteq> ident" "map grp_ID (gf_Groups f)"] by (simp add: groups_ok_def group_ids_def del: length_map)
  with Some show ?thesis by (simp add: delete_group_body_def)
qed (simp add: delete_group_body_def)

subsection \<open>Resolving names\<close>

text \<open>The names asked for: trimmed, in lower case, each once, in the order of their first appearance.\<close>

fun wanted :: "string list \<Rightarrow> string list \<Rightarrow> string list" where
  "wanted seen [] = []"
| "wanted seen (raw # names) =
     (let key = to_lower (trim_space raw) in
      if trim_space raw = [] \<or> key \<in> set seen then wanted seen names else key # wanted (key # seen) names)"

lemma byName_append: "byName (gs @ [g]) = (byName gs)(to_lower (grp_Name g) \<mapsto> grp_ID g)"
  by (simp add: byName_def)

definition ensure_inv :: "groups_file \<Rightarrow> string list \<Rightarrow> ensure_state \<Rightarrow> bool" where
  "ensure_inv f ks st \<longleftrightarrow>
     en_byName st = byName (gf_Groups (en_file st)) \<and> set ks = set (en_seen st) \<and>
     list_all2 (\<lambda>k ident. en_byName st k = Some ident) ks (en_ids st) \<and>
     (\<exists>new. gf_Groups (en_file st) = gf_Groups f @ new \<and> length new = en_created st) \<and> (en_created st = 0 \<longrightarrow> en_file st = f)"

lemma list_all2_update:
  "list_all2 (\<lambda>k ident. m k = Some ident) ks ids \<Longrightarrow> key \<notin> set ks \<Longrightarrow> list_all2 (\<lambda>k ident. (m(key \<mapsto> x)) k = Some ident) ks ids"
  by (auto simp: list_all2_conv_all_nth)

lemma ensure_inv_known:
  assumes "ensure_inv f ks st" and "en_byName st key = Some ident" and "key \<notin> set (en_seen st)"
  shows "ensure_inv f (ks @ [key]) (st\<lparr>en_seen := key # en_seen st, en_ids := en_ids st @ [ident]\<rparr>)"
  using assms by (auto simp: ensure_inv_def list_all2_appendI)

lemma ensure_inv_new:
  assumes "ensure_inv f ks st" and "key \<notin> set (en_seen st)" and "to_lower name = key"
  shows "ensure_inv f (ks @ [key])
    (st\<lparr>en_seen := key # en_seen st,
        en_file := \<lparr>gf_Groups = gf_Groups (en_file st) @ [\<lparr>grp_ID = ident, grp_Name = name, grp_Rev = gf_Seq (en_file st) + 1,
                     grp_CreatedAt = now, grp_UpdatedAt = now\<rparr>], gf_Seq = gf_Seq (en_file st) + 1\<rparr>,
        en_byName := (en_byName st)(key \<mapsto> ident), en_ids := en_ids st @ [ident], en_created := en_created st + 1\<rparr>)"
  using assms list_all2_update [of "en_byName st" ks "en_ids st" key ident]
  by (auto simp: ensure_inv_def byName_append intro!: list_all2_appendI)

lemma ensure_loop_inv:
  assumes "ensure_inv f ks st" and "ensure_loop now names uuids st = (None, st')"
  shows "ensure_inv f (ks @ wanted (en_seen st) names) st'"
  using assms
proof (induction names arbitrary: uuids st ks)
  case (Cons raw names)
  let ?name = "trim_space raw" let ?key = "to_lower (trim_space raw)"
  let ?st1 = "st\<lparr>en_seen := ?key # en_seen st\<rparr>"
  show ?case
  proof (cases "?name = [] \<or> ?key \<in> set (en_seen st)")
    case True
    with Cons.prems have "ensure_loop now names uuids st = (None, st')" by (auto simp: Let_def)
    with Cons.IH [OF Cons.prems(1) this] True show ?thesis by (auto simp: Let_def)
  next
    case new: False
    show ?thesis
    proof (cases "en_byName st ?key")
      case (Some ident)
      let ?st2 = "st\<lparr>en_seen := ?key # en_seen st, en_ids := en_ids st @ [ident]\<rparr>"
      have "ensure_loop now names uuids ?st2 = (None, st')" using Cons.prems(2) new Some by (simp add: Let_def)
      moreover have "ensure_inv f (ks @ [?key]) ?st2" using ensure_inv_known [OF Cons.prems(1) Some] new by simp
      ultimately have "ensure_inv f ((ks @ [?key]) @ wanted (en_seen ?st2) names) st'"
        by (intro Cons.IH)
      with new show ?thesis by (simp add: Let_def)
    next
      case None
      then obtain ident us where u: "uuids = Some ident # us" "\<not> length (gf_Groups (en_file st)) \<ge> MaxGroupsPerUser"
        using Cons.prems(2) new by (auto simp: Let_def split: if_splits list.splits option.splits)
      let ?st2 = "st\<lparr>en_seen := ?key # en_seen st,
        en_file := \<lparr>gf_Groups = gf_Groups (en_file st) @ [\<lparr>grp_ID = ident, grp_Name = ?name, grp_Rev = gf_Seq (en_file st) + 1,
                     grp_CreatedAt = now, grp_UpdatedAt = now\<rparr>], gf_Seq = gf_Seq (en_file st) + 1\<rparr>,
        en_byName := (en_byName st)(?key \<mapsto> ident), en_ids := en_ids st @ [ident], en_created := en_created st + 1\<rparr>"
      have "ensure_loop now names us ?st2 = (None, st')" using Cons.prems(2) new None u by (simp add: Let_def)
      moreover have "ensure_inv f (ks @ [?key]) ?st2" using ensure_inv_new [OF Cons.prems(1) _ refl] new by simp
      ultimately have "ensure_inv f ((ks @ [?key]) @ wanted (en_seen ?st2) names) st'"
        by (intro Cons.IH)
      with new show ?thesis by (simp add: Let_def)
    qed
  qed
qed simp

lemma ensure_loop_ids:
  assumes "distinct (drawn uuids)" and "[] \<notin> set (drawn uuids)" and "set (drawn uuids) \<inter> set (group_ids (en_file st)) = {}"
    and "groups_ok (en_file st)"
  shows "groups_ok (en_file (snd (ensure_loop now names uuids st)))"
  using assms
proof (induction names arbitrary: uuids st)
  case (Cons raw names)
  have step: "groups_ok (en_file (snd (ensure_loop now names us (st\<lparr>en_seen := ks, en_file := \<lparr>gf_Groups = gf_Groups (en_file st) @
        [\<lparr>grp_ID = ident, grp_Name = n, grp_Rev = r, grp_CreatedAt = t, grp_UpdatedAt = t\<rparr>], gf_Seq = r\<rparr>,
        en_byName := b, en_ids := is, en_created := c\<rparr>))))"
    if "uuids = Some ident # us" "\<not> MaxGroupsPerUser \<le> length (gf_Groups (en_file st))" for ident us ks n r t b "is" c
    using Cons.prems that by (intro Cons.IH) (auto simp: drawn_def List.map_filter_def groups_ok_def group_ids_def)
  have same: "groups_ok (en_file (snd (ensure_loop now names uuids (st\<lparr>en_seen := ks, en_ids := is\<rparr>))))" for ks "is"
    using Cons.prems by (intro Cons.IH) simp_all
  have skip: "groups_ok (en_file (snd (ensure_loop now names uuids st)))" using Cons.prems by (rule Cons.IH)
  show ?case
    using step same skip Cons.prems(4) by (auto simp: Let_def split: option.split list.split)
qed simp

interpretation group_file: file_store group_body groups_ok group_draw_ok
proof
  fix f i op
  assume ok: "groups_ok f" and draw: "group_draw_ok i op f"
  show "groups_ok (fst (snd (group_body i op f)))"
  proof (cases op)
    case (UpsertG g)
    with upsert_group_ok [OF ok, of i g] draw show ?thesis by (simp add: group_body_def)
  next
    case (DeleteG ident)
    with delete_group_ok [OF ok] show ?thesis by (simp add: group_body_def)
  next
    case (EnsureG names uuids)
    let ?st = "\<lparr>en_file = f, en_byName = byName (gf_Groups f), en_ids = [], en_seen = [], en_created = 0\<rparr>"
    have "groups_ok (en_file (snd (ensure_loop (io_now i) names uuids ?st)))"
      using EnsureG ok draw by (intro ensure_loop_ids) (simp_all add: group_draw_ok_def)
    then show ?thesis using EnsureG by (auto simp: group_body_def ensure_body_def split: prod.split option.split)
  qed
qed

text \<open>Every operation keeps a user's groups well formed, in memory and on disk, whatever the file system does.\<close>

lemma group_mutations_ok:
  assumes "file_inv groups_ok s"
  shows "group_draw_ok i (UpsertG g) (current s) \<Longrightarrow> file_inv groups_ok (snd (Upsert_group g i s))"
    and "group_draw_ok i (EnsureG names uuids) (current s) \<Longrightarrow> file_inv groups_ok (snd (EnsureByName names uuids i s))"
    and "file_inv groups_ok (snd (Delete_group ident i s))"
proof -
  have "snd (Upsert_group g i s) = snd (mutate i (group_body i (UpsertG g)) s)"
    "snd (EnsureByName names uuids i s) = snd (mutate i (group_body i (EnsureG names uuids)) s)"
    "snd (Delete_group ident i s) = snd (mutate i (group_body i (DeleteG ident)) s)"
    unfolding Upsert_group_def EnsureByName_def Delete_group_def
    by (rule mutate_state_cong; simp add: group_body_def)+
  with group_file.mutate_inv [OF assms] show
    "group_draw_ok i (UpsertG g) (current s) \<Longrightarrow> file_inv groups_ok (snd (Upsert_group g i s))"
    "group_draw_ok i (EnsureG names uuids) (current s) \<Longrightarrow> file_inv groups_ok (snd (EnsureByName names uuids i s))"
    "file_inv groups_ok (snd (Delete_group ident i s))" by (simp_all add: group_draw_ok_def)
qed

section \<open>Properties\<close>

text \<open>
  Categories resolve to groups. When \<open>EnsureByName\<close> succeeds, the identifiers it returns are, one for
  each distinct non-blank name in the order of first appearance, those of groups that are stored under
  that name, compared without case; groups that were there keep their place, and new ones only follow.
\<close>

theorem ensure_by_name_resolves:
  assumes "EnsureByName names uuids i s = (Inr ids, s')"
  shows "list_all2 (\<lambda>k ident. byName (gf_Groups (current s')) k = Some ident) (wanted [] names) ids \<and>
         (\<exists>new. gf_Groups (current s') = gf_Groups (current s) @ new)"
proof -
  obtain save where b: "ensure_body names uuids i (current s) = (Inr ids, fs_mem s', save)"
    and d: "save \<Longrightarrow> fs_disk s' = Some (fs_mem s')" "\<not> save \<Longrightarrow> fs_disk s' = fs_disk s"
    using assms unfolding EnsureByName_def by (rule mutate_Inr) blast
  let ?st = "\<lparr>en_file = current s, en_byName = byName (gf_Groups (current s)), en_ids = [], en_seen = [], en_created = 0\<rparr>"
  obtain st where st: "ensure_loop (io_now i) names uuids ?st = (None, st)" "ids = en_ids st" "fs_mem s' = en_file st"
    "save = (en_created st \<noteq> 0)"
    using b by (auto simp: ensure_body_def split: prod.splits option.splits)
  have "ensure_inv (current s) [] ?st" by (simp add: ensure_inv_def)
  from ensure_loop_inv [OF this st(1)] have inv: "ensure_inv (current s) (wanted [] names) st" by simp
  have "current s' = en_file st"
  proof (cases save)
    case True
    with d(1) st(3) show ?thesis by (simp add: current_def)
  next
    case False
    with inv st(4) have "en_file st = current s" by (simp add: ensure_inv_def)
    with d(2) [OF False] st(3) show ?thesis by (simp add: current_def split: option.splits)
  qed
  with inv st(2) show ?thesis by (auto simp: ensure_inv_def)
qed

definition group_io :: io where
  "group_io = \<lparr>io_lock = True, io_read = True, io_write = Written, io_now = ''t'', io_uuid = None\<rparr>"

definition no_groups :: group_store where
  "no_groups = \<lparr>fs_mem = \<lparr>gf_Groups = [], gf_Seq = 0\<rparr>, fs_disk = None\<rparr>"

theorem ensure_by_name_resolves_witness:
  "\<exists>s'. EnsureByName ['' Work'', ''work'', ''Home''] [Some ''a'', Some ''b''] group_io no_groups = (Inr [''a'', ''b''], s') \<and>
     list_all2 (\<lambda>k ident. byName (gf_Groups (current s')) k = Some ident) (wanted [] ['' Work'', ''work'', ''Home'']) [''a'', ''b'']"
proof -
  let ?r = "EnsureByName ['' Work'', ''work'', ''Home''] [Some ''a'', Some ''b''] group_io no_groups"
  have "fst ?r = Inr [''a'', ''b'']" by code_simp
  then have "?r = (Inr [''a'', ''b''], snd ?r)" by (metis prod.collapse)
  with ensure_by_name_resolves [OF this] show ?thesis by blast
qed

end
