(* ===== verification/Atomic_Write.thy ===== *)
theory Atomic_Write
  imports File_Store
begin

text \<open>
  \<open>AtomicWriteFile\<close> and \<open>SyncDir\<close> of \<open>backend/internal/fsutil/fsutil.go\<close>, on a model of the one
  directory entry and the temporary file they touch. A drive distinguishes what a reader sees at the path
  now from what may be found there after a crash: data that was not synced may survive in part, and a
  rename may be lost until the directory is synced. Each system call succeeds or fails as its answer says.
\<close>

section \<open>The drive\<close>

record drive =
  tmp_file :: "(string \<times> bool) option"
  path_seen :: "string option"
  path_kept :: "string option list"

record write_answers =
  wa_mkdir :: bool
  wa_create :: bool
  wa_chmod :: bool
  wa_write :: bool
  wa_partial :: nat
  wa_sync :: bool
  wa_close :: bool
  wa_rename :: bool
  wa_opendir :: bool
  wa_syncdir :: bool

text \<open>What a crash may leave of a file's data: all of it once it is synced, any beginning before.\<close>

definition survivors :: "string \<times> bool \<Rightarrow> string list" where
  "survivors f = (case f of (b, synced) \<Rightarrow> if synced then [b] else map (\<lambda>n. take n b) [0..<Suc (length b)])"

definition remove_tmp :: "drive \<Rightarrow> drive" where
  "remove_tmp d = d\<lparr>tmp_file := None\<rparr>"

definition rename_tmp :: "drive \<Rightarrow> drive" where
  "rename_tmp d =
     (case tmp_file d of
        None \<Rightarrow> d
      | Some f \<Rightarrow> d\<lparr>tmp_file := None, path_seen := Some (fst f), path_kept := path_kept d @ map Some (survivors f)\<rparr>)"

definition SyncDir :: "write_answers \<Rightarrow> drive \<Rightarrow> bool \<times> drive" where
  "SyncDir a d =
     (if \<not> wa_opendir a then (True, d)
      else if \<not> wa_syncdir a then (False, d)
      else (True, d\<lparr>path_kept := [path_seen d]\<rparr>))"

text \<open>The answer, and the drive after every system call, the deferred removal of the temporary file last.\<close>

definition AtomicWriteFile :: "write_answers \<Rightarrow> string \<Rightarrow> drive \<Rightarrow> bool \<times> drive list" where
  "AtomicWriteFile a payload d =
     (if \<not> wa_mkdir a \<or> \<not> wa_create a then (False, [d])
      else
        (let d1 = d\<lparr>tmp_file := Some ([], False)\<rparr> in
         if \<not> wa_chmod a then (False, [d, d1, remove_tmp d1])
         else
           (let d2 = d1\<lparr>tmp_file := Some (if wa_write a then payload else take (wa_partial a) payload, False)\<rparr> in
            if \<not> wa_write a \<or> \<not> wa_sync a then (False, [d, d1, d2, remove_tmp d2])
            else
              (let d3 = d2\<lparr>tmp_file := Some (payload, True)\<rparr> in
               if \<not> wa_close a \<or> \<not> wa_rename a then (False, [d, d1, d2, d3, remove_tmp d3])
               else
                 (let d4 = rename_tmp d3 in
                  case SyncDir a d4 of (ok, d5) \<Rightarrow> (ok, [d, d1, d2, d3, d4, d5]))))))"

section \<open>The outcomes\<close>

text \<open>The three ways in which \<open>persist\<close> can end.\<close>

definition outcome_of_write :: "write_answers \<Rightarrow> write_outcome" where
  "outcome_of_write a =
     (if wa_mkdir a \<and> wa_create a \<and> wa_chmod a \<and> wa_write a \<and> wa_sync a \<and> wa_close a \<and> wa_rename a
      then if wa_opendir a \<and> \<not> wa_syncdir a then WrittenUnsynced else Written
      else NotWritten)"

lemma write_outcomes:
  "fst (AtomicWriteFile a payload d) \<longleftrightarrow> outcome_of_write a = Written"
  "path_seen (last (snd (AtomicWriteFile a payload d))) =
     (if outcome_of_write a = NotWritten then path_seen d else Some payload)"
  by (auto simp: AtomicWriteFile_def outcome_of_write_def SyncDir_def rename_tmp_def remove_tmp_def Let_def)

text \<open>The file store's \<open>persist\<close> reports and leaves what a write of the encoded content does.\<close>

lemma persist_is_write:
  assumes "io_write i = outcome_of_write a"
  shows "fst (persist i s) = None \<longleftrightarrow> fst (AtomicWriteFile a (enc (fs_mem s)) d)"
    and "path_seen d = map_option enc (fs_disk s) \<Longrightarrow>
      map_option enc (fs_disk (snd (persist i s))) = path_seen (last (snd (AtomicWriteFile a (enc (fs_mem s)) d)))"
  using assms by (auto simp: persist_def write_outcomes split: write_outcome.splits)

section \<open>Properties\<close>


definition all_fine :: write_answers where
  "all_fine = \<lparr>wa_mkdir = True, wa_create = True, wa_chmod = True, wa_write = True, wa_partial = 0, wa_sync = True, wa_close = True,
     wa_rename = True, wa_opendir = True, wa_syncdir = True\<rparr>"


end
