(* ===== verification/Contact_Model.thy ===== *)
theory Contact_Model
  imports Go_Table "HOL-Library.List_Lexorder" "HOL-Library.Char_ord"
begin

text \<open>
  The contacts of one user's address book, \<open>backend/internal/contacts/contacts.go\<close>: the struct
  \<open>Contact\<close> with all its fields, and the tombstone that a deletion leaves.

  Go compares strings byte by byte, which is the lexicographic order on HOL's strings.
\<close>

section \<open>Data\<close>

record contact_value =
  cv_Label :: string
  cv_Value :: string

record contact_address =
  ca_Label :: string
  ca_Street :: string
  ca_City :: string
  ca_Region :: string
  ca_PostalCode :: string
  ca_Country :: string

record contact_im =
  im_Service :: string
  im_Label :: string
  im_Value :: string

record contact_url =
  url_Label :: string
  url_Value :: string

record contact_relation =
  rel_Label :: string
  rel_Name :: string

record contact_event =
  ev_Label :: string
  ev_Date :: string

record contact_custom =
  cf_Label :: string
  cf_Value :: string

record contact =
  UID :: string
  Rev :: int
  Deleted :: bool
  CreatedAt :: string
  UpdatedAt :: string
  IsSelf :: bool
  FormattedName :: string
  GivenName :: string
  FamilyName :: string
  MiddleName :: string
  Prefix :: string
  Suffix :: string
  Nickname :: string
  Org :: string
  Title :: string
  Emails :: "contact_value list"
  Phones :: "contact_value list"
  Addresses :: "contact_address list"
  Notes :: string
  Birthday :: string
  PhotoRef :: string
  GroupIDs :: "string list"
  PGPKey :: string
  PGPKeySource :: string
  PGPKeyFingerprint :: string
  PGPKeyVerified :: bool
  PGPKeyAutocryptDate :: string
  IMs :: "contact_im list"
  Websites :: "contact_url list"
  Relations :: "contact_relation list"
  Events :: "contact_event list"
  PhoneticGivenName :: string
  PhoneticFamilyName :: string
  Department :: string
  CustomFields :: "contact_custom list"
  Pronouns :: string
  PGPKeyRemovedAutocrypt :: string
  MergedUIDs :: "string list"
  MergedInto :: string
  DiscoveryCreated :: bool

definition PGPSourceAutocrypt :: string where "PGPSourceAutocrypt = ''autocrypt''"

text \<open>The zero value of the struct.\<close>

definition empty_contact :: contact where
  "empty_contact =
     \<lparr>UID = [], Rev = 0, Deleted = False, CreatedAt = [], UpdatedAt = [], IsSelf = False, FormattedName = [],
      GivenName = [], FamilyName = [], MiddleName = [], Prefix = [], Suffix = [], Nickname = [], Org = [], Title = [],
      Emails = [], Phones = [], Addresses = [], Notes = [], Birthday = [], PhotoRef = [], GroupIDs = [], PGPKey = [],
      PGPKeySource = [], PGPKeyFingerprint = [], PGPKeyVerified = False, PGPKeyAutocryptDate = [], IMs = [],
      Websites = [], Relations = [], Events = [], PhoneticGivenName = [], PhoneticFamilyName = [], Department = [],
      CustomFields = [], Pronouns = [], PGPKeyRemovedAutocrypt = [], MergedUIDs = [], MergedInto = [],
      DiscoveryCreated = False\<rparr>"

definition tombstone :: "contact \<Rightarrow> contact" where
  "tombstone c =
     c\<lparr>Deleted := True, FormattedName := [], GivenName := [], FamilyName := [], MiddleName := [], Prefix := [],
       Suffix := [], Nickname := [], Org := [], Title := [], Emails := [], Phones := [], Addresses := [], Notes := [],
       Birthday := [], PhotoRef := [], GroupIDs := [], PGPKey := [], PGPKeyAutocryptDate := [],
       PGPKeyRemovedAutocrypt := [], IMs := [], Websites := [], Relations := [], Events := [], PhoneticGivenName := [],
       PhoneticFamilyName := [], Department := [], CustomFields := [], Pronouns := [], IsSelf := False,
       MergedUIDs := [], DiscoveryCreated := False\<rparr>"

lemma tombstone_sel [simp]:
  "UID (tombstone c) = UID c" "Rev (tombstone c) = Rev c" "Deleted (tombstone c)" "PGPKey (tombstone c) = []"
  "\<not> IsSelf (tombstone c)" "MergedInto (tombstone c) = MergedInto c" "Emails (tombstone c) = []" "Phones (tombstone c) = []"
  by (simp_all add: tombstone_def)

end
