(* ===== verification/Union_Find.thy ===== *)
theory Union_Find
  imports Go_Prelude "HOL-Library.Monad_Syntax"
begin

text \<open>
  The union-find structure of \<open>backend/internal/contacts/dedupe.go\<close>: an array of parents, \<open>find\<close> with path
  halving, \<open>union\<close> without ranks.

  \<open>find\<close> is a loop that ends only where the parents form a forest, so it is a partial function: \<open>None\<close>
  is a loop that runs forever. On a forest it ends, and a sequence of unions computes the
  equivalence closure of its pairs.
\<close>

section \<open>Operations\<close>

type_synonym parents = "nat list"

definition newUnionFind :: "nat \<Rightarrow> parents" where
  "newUnionFind n = [0..<n]"

partial_function (option) find_root :: "parents \<Rightarrow> nat \<Rightarrow> (nat \<times> parents) option" where
  [code]: "find_root p x =
     (if p ! x = x then Some (x, p)
      else (let p' = p[x := p ! (p ! x)] in find_root p' (p' ! x)))"

definition union_sets :: "nat \<Rightarrow> nat \<Rightarrow> parents \<Rightarrow> parents option" where
  "union_sets a b p =
     do {
       (ra, p1) \<leftarrow> find_root p a;
       (rb, p2) \<leftarrow> find_root p1 b;
       Some (if ra \<noteq> rb then p2[rb := ra] else p2)
     }"

fun union_all :: "(nat \<times> nat) list \<Rightarrow> parents \<Rightarrow> parents option" where
  "union_all [] p = Some p"
| "union_all ((a, b) # es) p = Option.bind (union_sets a b p) (union_all es)"

lemma union_all_append: "union_all (es @ fs) p = Option.bind (union_all es p) (union_all fs)"
proof (induction es arbitrary: p)
  case (Cons e es)
  then have "union_all (es @ fs) = (\<lambda>q. Option.bind (union_all es q) (union_all fs))" by blast
  then show ?case by (cases e) simp
qed simp

section \<open>Forests\<close>

text \<open>\<open>climb p i r k\<close>: from \<open>i\<close> the parents lead in \<open>k\<close> steps to the root \<open>r\<close>.\<close>

inductive climb :: "parents \<Rightarrow> nat \<Rightarrow> nat \<Rightarrow> nat \<Rightarrow> bool" for p where
  root: "i < length p \<Longrightarrow> p ! i = i \<Longrightarrow> climb p i i 0"
| up: "i < length p \<Longrightarrow> p ! i \<noteq> i \<Longrightarrow> climb p (p ! i) r k \<Longrightarrow> climb p i r (Suc k)"

inductive_cases climbE: "climb p i r k"

definition rooted :: "parents \<Rightarrow> nat \<Rightarrow> nat \<Rightarrow> bool" where
  "rooted p i r \<longleftrightarrow> (\<exists>k. climb p i r k)"

definition forest :: "parents \<Rightarrow> bool" where
  "forest p \<longleftrightarrow> (\<forall>i < length p. \<exists>r. rooted p i r)"

lemma climb_less: "climb p i r k \<Longrightarrow> i < length p"
  by (auto elim: climbE)

lemma climb_root: "climb p i r k \<Longrightarrow> r < length p \<and> p ! r = r"
  by (induction rule: climb.induct) auto

lemma climb_det: "climb p i r k \<Longrightarrow> climb p i r' k' \<Longrightarrow> r' = r \<and> k' = k"
proof (induction arbitrary: r' k' rule: climb.induct)
  case (root i)
  from root(3) root(2) show ?case by (cases rule: climb.cases) auto
next
  case (up i r k)
  from up(5) up(2) up.IH show ?case by (cases rule: climb.cases) auto
qed

lemma rooted_less: "rooted p i r \<Longrightarrow> i < length p"
  by (auto simp: rooted_def climb_less)

lemma rooted_root: "rooted p i r \<Longrightarrow> r < length p \<and> p ! r = r"
  by (auto simp: rooted_def climb_root)

lemma rooted_self: "r < length p \<Longrightarrow> p ! r = r \<Longrightarrow> rooted p r r"
  unfolding rooted_def by (blast intro: climb.root)

lemma rooted_up: "i < length p \<Longrightarrow> p ! i \<noteq> i \<Longrightarrow> rooted p (p ! i) r \<Longrightarrow> rooted p i r"
  unfolding rooted_def by (blast intro: climb.up)

lemma rooted_det: "rooted p i r \<Longrightarrow> rooted p i r' \<Longrightarrow> r' = r"
  by (auto simp: rooted_def dest: climb_det)

text \<open>Climbing leads to no cycle of two.\<close>

lemma climb_no_return: "climb p i r k \<Longrightarrow> p ! i \<noteq> i \<Longrightarrow> p ! (p ! i) \<noteq> i"
  by (induction rule: climb.induct) (metis, metis)

section \<open>Path halving\<close>

lemma climb_halve:
  assumes "climb p i r k" and x: "x < length p" and ok: "forest p"
  shows "\<exists>k' \<le> k. climb (p[x := p ! (p ! x)]) i r k'"
  using assms(1)
proof (induction rule: climb.induct)
  case (root i)
  then show ?case by (cases "i = x") (auto intro!: climb.root)
next
  case (up i r k)
  let ?p = "p[x := p ! (p ! x)]"
  obtain k' where k': "k' \<le> k" "climb ?p (p ! i) r k'" using up.IH by blast
  show ?case
  proof (cases "i = x")
    case False
    with up k' show ?thesis by (intro exI [of _ "Suc k'"]) (auto intro!: climb.up)
  next
    case True
    have ne: "p ! (p ! x) \<noteq> x" using climb_no_return [OF climb.up [OF up(1-3)]] up(2) True by simp
    have "\<exists>j \<le> k'. climb ?p (p ! (p ! x)) r j"
    proof (cases "p ! (p ! x) = p ! x")
      case True
      with k' \<open>i = x\<close> show ?thesis by auto
    next
      case False
      from k'(2) \<open>i = x\<close> up(2) False show ?thesis
        by (cases rule: climb.cases) (auto intro!: exI [of _ "k' - 1"])
    qed
    then obtain j where "j \<le> k'" "climb ?p (p ! (p ! x)) r j" by blast
    with True up ne x k'(1) show ?thesis by (intro exI [of _ "Suc j"]) (auto intro!: climb.up)
  qed
qed

lemma forest_halve:
  assumes "forest p" and "x < length p"
  shows "forest (p[x := p ! (p ! x)])"
  using assms climb_halve [OF _ assms(2,1)] unfolding forest_def rooted_def length_list_update by meson

text \<open>\<open>find\<close> ends, answers the root, and leaves every root as it was.\<close>

definition same_roots :: "parents \<Rightarrow> parents \<Rightarrow> bool" where
  "same_roots p p' \<longleftrightarrow> length p' = length p \<and> (\<forall>i r. rooted p i r \<longrightarrow> rooted p' i r)"

lemma same_roots_refl [simp]: "same_roots p p"
  and same_roots_trans: "same_roots p q \<Longrightarrow> same_roots q s \<Longrightarrow> same_roots p s"
  by (auto simp: same_roots_def)

lemma same_roots_forest: "same_roots p p' \<Longrightarrow> forest p \<Longrightarrow> forest p'"
  unfolding same_roots_def forest_def by metis

lemma same_roots_halve: "forest p \<Longrightarrow> x < length p \<Longrightarrow> same_roots p (p[x := p ! (p ! x)])"
  unfolding same_roots_def rooted_def using climb_halve by (auto, blast)

lemma find_root_climb:
  "climb p x r k \<Longrightarrow> forest p \<Longrightarrow> \<exists>p'. find_root p x = Some (r, p') \<and> same_roots p p'"
proof (induction k arbitrary: p x rule: less_induct)
  case (less k)
  note x = climb_less [OF less.prems(1)]
  show ?case
  proof (cases "p ! x = x")
    case True
    then have "r = x" using climb_det [OF less.prems(1) climb.root] x by simp
    with True show ?thesis by (subst find_root.simps) simp
  next
    case False
    let ?p = "p[x := p ! (p ! x)]"
    from less.prems(1) False obtain j where j: "k = Suc j" "climb p (p ! x) r j" by (cases rule: climb.cases) auto
    have "\<exists>m \<le> j. climb p (p ! (p ! x)) r m"
      using j(2) by (cases rule: climb.cases) (use j(2) in \<open>auto intro: le_SucI\<close>)
    then obtain m where "m \<le> j" "climb p (p ! (p ! x)) r m" by blast
    then obtain m' where m': "m' < k" "climb ?p (?p ! x) r m'"
      using climb_halve [OF _ x less.prems(2)] j(1) x by (metis le_imp_less_Suc le_trans nth_list_update_eq)
    from less.IH [OF m' forest_halve [OF less.prems(2) x]]
    obtain p' where "find_root ?p (?p ! x) = Some (r, p')" "same_roots ?p p'" by blast
    with False same_roots_halve [OF less.prems(2) x] show ?thesis
      by (subst find_root.simps) (auto simp: Let_def intro: same_roots_trans)
  qed
qed

lemma find_root_rooted:
  assumes "rooted p x r" and "forest p"
  obtains p' where "find_root p x = Some (r, p')" "same_roots p p'"
  using assms find_root_climb unfolding rooted_def by blast

section \<open>Union\<close>

definition same_set :: "parents \<Rightarrow> nat \<Rightarrow> nat \<Rightarrow> bool" where
  "same_set p i j \<longleftrightarrow> (\<exists>r. rooted p i r \<and> rooted p j r)"

lemma same_set_iff: "rooted p i ri \<Longrightarrow> rooted p j rj \<Longrightarrow> same_set p i j \<longleftrightarrow> ri = rj"
  using rooted_det [of p i] rooted_det [of p j] unfolding same_set_def by blast

lemma same_roots_same_set:
  assumes "same_roots p p'" and "forest p"
  shows "same_set p' i j = same_set p i j"
proof
  assume "same_set p i j"
  with assms(1) show "same_set p' i j" unfolding same_set_def same_roots_def by blast
next
  assume "same_set p' i j"
  then obtain r where r: "rooted p' i r" "rooted p' j r" by (auto simp: same_set_def)
  then have "i < length p" "j < length p" using assms(1) rooted_less [of p'] by (auto simp: same_roots_def)
  then obtain ri rj where "rooted p i ri" "rooted p j rj" using assms(2) unfolding forest_def by blast
  moreover from this have "ri = r" "rj = r" using assms(1) r rooted_det [of p'] unfolding same_roots_def by blast+
  ultimately show "same_set p i j" by (auto simp: same_set_def)
qed

lemma rooted_link:
  assumes "rooted p i r" and ra: "ra < length p" "p ! ra = ra" and rb: "rb < length p" "p ! rb = rb" and "ra \<noteq> rb"
  shows "rooted (p[rb := ra]) i (if r = rb then ra else r)"
proof -
  obtain k where "climb p i r k" using assms(1) by (auto simp: rooted_def)
  then show ?thesis
  proof (induction rule: climb.induct)
    case (root i)
    show ?case
    proof (cases "i = rb")
      case True
      with ra rb \<open>ra \<noteq> rb\<close> show ?thesis by (auto intro!: rooted_up [of rb] rooted_self [of ra])
    next
      case False
      with root show ?thesis by (auto intro!: rooted_self)
    qed
  next
    case (up i r k)
    with rb have "i \<noteq> rb" by auto
    with up show ?case by (auto intro!: rooted_up [of i])
  qed
qed

text \<open>The pairs that were united, and the equivalence they generate.\<close>

definition connected :: "(nat \<times> nat) set \<Rightarrow> (nat \<times> nat) set" where
  "connected E = (E \<union> E\<inverse>)\<^sup>*"

definition represents :: "parents \<Rightarrow> nat \<Rightarrow> (nat \<times> nat) set \<Rightarrow> bool" where
  "represents p n E \<longleftrightarrow>
     length p = n \<and> forest p \<and> (\<forall>i < n. \<forall>j < n. same_set p i j \<longleftrightarrow> (i, j) \<in> connected E)"

lemma connected_refl [simp]: "(i, i) \<in> connected E"
  and connected_edge: "(i, j) \<in> E \<Longrightarrow> (i, j) \<in> connected E"
  and connected_trans: "(i, j) \<in> connected E \<Longrightarrow> (j, k) \<in> connected E \<Longrightarrow> (i, k) \<in> connected E"
  unfolding connected_def by auto

lemma connected_sym: "(i, j) \<in> connected E \<Longrightarrow> (j, i) \<in> connected E"
proof -
  have "sym (E \<union> E\<inverse>)" by (auto simp: sym_def)
  then have "sym (connected E)" unfolding connected_def by (rule sym_rtrancl)
  then show "(i, j) \<in> connected E \<Longrightarrow> (j, i) \<in> connected E" by (auto simp: sym_def)
qed

lemma connected_least:
  assumes "(i, j) \<in> connected E" and "\<And>a b. (a, b) \<in> E \<Longrightarrow> (a, b) \<in> connected F"
  shows "(i, j) \<in> connected F"
  using assms(1) unfolding connected_def [of E]
proof (induction rule: rtrancl_induct)
  case (step y z)
  then have "(y, z) \<in> connected F" using assms(2) by (auto intro: connected_sym)
  with step show ?case by (blast intro: connected_trans)
qed simp

lemma connected_mono: "E \<subseteq> F \<Longrightarrow> (i, j) \<in> connected E \<Longrightarrow> (i, j) \<in> connected F"
  by (erule connected_least) (auto intro: connected_edge)

lemma connected_insert:
  "(i, j) \<in> connected (insert (a, b) E) \<longleftrightarrow>
     (i, j) \<in> connected E \<or> (i, a) \<in> connected E \<and> (b, j) \<in> connected E \<or> (i, b) \<in> connected E \<and> (a, j) \<in> connected E"
    (is "?l \<longleftrightarrow> ?r i j")
proof
  assume ?l
  then show "?r i j"
    unfolding connected_def [of "insert (a, b) E"]
  proof (induction rule: rtrancl_induct)
    case (step y z)
    from step(2) consider "(y, z) \<in> connected E" | "y = a" "z = b" | "y = b" "z = a"
      by (auto intro: connected_edge connected_sym)
    then show ?case using step(3) by cases (auto intro: connected_trans)
  qed simp
next
  have e: "(a, b) \<in> connected (insert (a, b) E)" by (simp add: connected_edge)
  have m: "(x, y) \<in> connected E \<Longrightarrow> (x, y) \<in> connected (insert (a, b) E)" for x y
    by (rule connected_mono [of E]) auto
  assume "?r i j"
  then show ?l using m e connected_sym [OF e] by (metis connected_trans)
qed

lemma connected_less:
  assumes "(i, j) \<in> connected E" and "i < n" and "\<And>a b. (a, b) \<in> E \<Longrightarrow> a < n \<and> b < n"
  shows "j < n"
  using assms(1) unfolding connected_def
  by (induction rule: rtrancl_induct) (use assms in auto)

lemma represents_new: "represents (newUnionFind n) n {}"
proof -
  have "rooted [0..<n] i i" if "i < n" for i using that by (intro rooted_self) auto
  note self = this
  have only: "r = i" if "i < n" "rooted [0..<n] i r" for i r
    using rooted_det [OF that(2) self [OF that(1)]] by simp
  have "same_set [0..<n] i j \<longleftrightarrow> i = j" if "i < n" "j < n" for i j
    using self [OF that(1)] only [OF that(1)] only [OF that(2)] unfolding same_set_def by blast
  with self show ?thesis by (auto simp: represents_def newUnionFind_def forest_def connected_def)
qed

lemma represents_find:
  assumes "represents p n E" and "x < n"
  obtains r p' where "find_root p x = Some (r, p')" "represents p' n E" "rooted p' x r"
proof -
  from assms obtain r where r: "rooted p x r" and f: "forest p" by (auto simp: represents_def forest_def)
  then obtain p' where p': "find_root p x = Some (r, p')" "same_roots p p'" by (rule find_root_rooted)
  have "represents p' n E"
    using assms(1) p'(2) same_roots_forest [OF p'(2) f] same_roots_same_set [OF p'(2) f]
    by (simp add: represents_def same_roots_def)
  with p' r that show thesis by (auto simp: same_roots_def)
qed

lemma same_set_link:
  assumes f: "forest p" and ra: "rooted p a ra" and rb: "rooted p b rb" and "ra \<noteq> rb"
    and i: "i < length p" and j: "j < length p"
  shows "same_set (p[rb := ra]) i j \<longleftrightarrow>
    same_set p i j \<or> same_set p i a \<and> same_set p b j \<or> same_set p i b \<and> same_set p a j"
proof -
  note roots = rooted_root [OF ra] rooted_root [OF rb]
  obtain ri rj where r: "rooted p i ri" "rooted p j rj" using f i j unfolding forest_def by blast
  let ?new = "\<lambda>r. if r = rb then ra else r"
  have "rooted (p[rb := ra]) i (?new ri)" "rooted (p[rb := ra]) j (?new rj)"
    using rooted_link [of p _ _ ra rb] r roots \<open>ra \<noteq> rb\<close> by blast+
  then have "same_set (p[rb := ra]) i j \<longleftrightarrow> ?new ri = ?new rj" by (rule same_set_iff)
  moreover have "same_set p i j \<longleftrightarrow> ri = rj" "same_set p i a \<longleftrightarrow> ri = ra" "same_set p b j \<longleftrightarrow> rb = rj"
    "same_set p i b \<longleftrightarrow> ri = rb" "same_set p a j \<longleftrightarrow> ra = rj"
    using r ra rb by (simp_all add: same_set_iff)
  ultimately show ?thesis using \<open>ra \<noteq> rb\<close> by (simp split: if_split)
qed

lemma represents_union:
  assumes "represents p n E" and "a < n" and "b < n"
  obtains p' where "union_sets a b p = Some p'" "represents p' n (insert (a, b) E)"
proof -
  obtain ra p1 where p1: "find_root p a = Some (ra, p1)" "represents p1 n E" "rooted p1 a ra"
    using represents_find [OF assms(1,2)] by blast
  obtain rb where rb1: "rooted p1 b rb" using p1(2) assms(3) by (auto simp: represents_def forest_def)
  have f1: "forest p1" using p1(2) by (simp add: represents_def)
  obtain p2 where p2: "find_root p1 b = Some (rb, p2)" "same_roots p1 p2" using find_root_rooted [OF rb1 f1] by blast
  have r2: "represents p2 n E" "forest p2"
    using p1(2) same_roots_forest [OF p2(2) f1] same_roots_same_set [OF p2(2) f1] p2(2)
    by (simp_all add: represents_def same_roots_def)
  have ra: "rooted p2 a ra" and rb: "rooted p2 b rb" using p2(2) p1(3) rb1 by (auto simp: same_roots_def)
  have len: "length p2 = n" and same: "\<And>i j. i < n \<Longrightarrow> j < n \<Longrightarrow> same_set p2 i j \<longleftrightarrow> (i, j) \<in> connected E"
    using r2(1) by (simp_all add: represents_def)
  show thesis
  proof (cases "ra = rb")
    case True
    then have ab: "(a, b) \<in> connected E" using ra rb same [OF assms(2,3)] by (auto simp: same_set_def)
    have "connected (insert (a, b) E) = connected E"
    proof (intro set_eqI iffI)
      fix e assume "e \<in> connected (insert (a, b) E)"
      then show "e \<in> connected E" using ab connected_sym [OF ab]
        by (cases e) (metis connected_insert connected_trans)
    qed (auto simp: connected_insert)
    with r2(1) have "represents p2 n (insert (a, b) E)" by (simp add: represents_def)
    with p1 p2 True that show thesis by (simp add: union_sets_def)
  next
    case False
    have "rooted (p2[rb := ra]) i (if r = rb then ra else r)" if "rooted p2 i r" for i r
      using rooted_link [OF that] rooted_root [OF ra] rooted_root [OF rb] False by blast
    then have "forest (p2[rb := ra])" using r2(2) unfolding forest_def length_list_update by blast
    moreover have "same_set (p2[rb := ra]) i j \<longleftrightarrow> (i, j) \<in> connected (insert (a, b) E)" if "i < n" "j < n" for i j
      using same_set_link [OF r2(2) ra rb False] that assms(2,3) len same by (simp add: connected_insert)
    ultimately have "represents (p2[rb := ra]) n (insert (a, b) E)" by (simp add: represents_def len)
    with p1 p2 False that show thesis by (simp add: union_sets_def)
  qed
qed

lemma represents_union_all:
  assumes "represents p n E" and "\<And>a b. (a, b) \<in> set es \<Longrightarrow> a < n \<and> b < n"
  shows "\<exists>p'. union_all es p = Some p' \<and> represents p' n (E \<union> set es)"
  using assms
proof (induction es arbitrary: p E)
  case (Cons e es)
  obtain a b where e: "e = (a, b)" by (cases e)
  then obtain p1 where p1: "union_sets a b p = Some p1" "represents p1 n (insert (a, b) E)"
    using represents_union [OF Cons.prems(1), of a b] Cons.prems(2) by auto
  from Cons.IH [OF p1(2)] Cons.prems(2) show ?case by (auto simp: e p1(1))
qed simp

end
