(* ===== verification/Contact_Groups.thy ===== *)
theory Contact_Groups
  imports Contact_Model Union_Find "HOL-Library.Multiset"
begin

text \<open>
  Which contacts are duplicates: the first half of \<open>backend/internal/contacts/dedupe.go\<close>, and the proof that
  its groups are the connected components of the graph of its comments.

  Go ranges over a map in no specified order; \<open>rng\<close> is the order in which the two loops over the
  values of a map visit them. A key byte of 128 or more counts as a letter of a name; on ASCII names
  \<open>unicode.IsLetter\<close> and \<open>unicode.IsDigit\<close> are the predicates below.
\<close>

section \<open>Normal forms\<close>

definition normalizeEmail :: "string \<Rightarrow> string" where
  "normalizeEmail s = to_lower (trim_space s)"

definition normalizePhone :: "string \<Rightarrow> string" where
  "normalizePhone s =
     (let d = filter is_digit s in if length d \<ge> 10 then drop (length d - 10) d else d)"

definition name_byte :: "char \<Rightarrow> bool" where
  "name_byte c \<longleftrightarrow> is_upper c \<or> is_lower c \<or> is_digit c \<or> byte c \<ge> 128"

text \<open>\<open>strings.FieldsFunc\<close>: the maximal runs of bytes that satisfy the predicate.\<close>

fun fields_of :: "(char \<Rightarrow> bool) \<Rightarrow> string \<Rightarrow> string \<Rightarrow> string list" where
  "fields_of P word [] = (if word = [] then [] else [word])"
| "fields_of P word (c # s) =
     (if P c then fields_of P (word @ [c]) s
      else (if word = [] then [] else [word]) @ fields_of P [] s)"

definition normalizeName :: "contact \<Rightarrow> string" where
  "normalizeName c = join '' '' (sort (fields_of name_byte [] (to_lower (FormattedName c))))"

definition otherwiseEmpty :: "contact \<Rightarrow> bool" where
  "otherwiseEmpty c \<longleftrightarrow> length (Emails c) = 0 \<and> length (Phones c) = 0"

definition matchKeys :: "contact \<Rightarrow> string list" where
  "matchKeys c =
     map (\<lambda>v. ''e:'' @ v) (filter (\<lambda>v. v \<noteq> []) (map (normalizeEmail \<circ> cv_Value) (Emails c))) @
     map (\<lambda>v. ''p:'' @ v) (filter (\<lambda>v. v \<noteq> []) (map (normalizePhone \<circ> cv_Value) (Phones c)))"

section \<open>Groups\<close>

text \<open>The loop over the keys of one contact, and over the contacts.\<close>

fun key_loop :: "nat \<Rightarrow> string list \<Rightarrow> (string \<rightharpoonup> nat) \<times> parents \<Rightarrow> ((string \<rightharpoonup> nat) \<times> parents) option" where
  "key_loop i [] st = Some st"
| "key_loop i (k # ks) (byKey, uf) =
     (case byKey k of
        Some j \<Rightarrow> Option.bind (union_sets i j uf) (\<lambda>uf'. key_loop i ks (byKey, uf'))
      | None \<Rightarrow> key_loop i ks (byKey(k \<mapsto> i), uf))"

fun contact_loop :: "nat \<Rightarrow> contact list \<Rightarrow> (string \<rightharpoonup> nat) \<times> parents \<Rightarrow> ((string \<rightharpoonup> nat) \<times> parents) option" where
  "contact_loop i [] st = Some st"
| "contact_loop i (c # cs) st = Option.bind (key_loop i (matchKeys c) st) (contact_loop (Suc i) cs)"

text \<open>The indices of each name, under its first appearance.\<close>

definition add_name :: "nat \<Rightarrow> string \<Rightarrow> nat list table \<Rightarrow> nat list table" where
  "add_name i n m = (if n = [] then m else AList.update n ((case map_of m n of None \<Rightarrow> [] | Some is \<Rightarrow> is) @ [i]) m)"

fun name_loop :: "nat \<Rightarrow> contact list \<Rightarrow> nat list table \<Rightarrow> nat list table" where
  "name_loop i [] m = m"
| "name_loop i (c # cs) m = name_loop (Suc i) cs (add_name i (normalizeName c) m)"

text \<open>The pairs \<open>a < b\<close> of one name that are united, in the order of the loops.\<close>

fun name_pairs :: "contact list \<Rightarrow> nat list \<Rightarrow> (nat \<times> nat) list" where
  "name_pairs cs [] = []"
| "name_pairs cs (a # is) =
     map (Pair a) (filter (\<lambda>b. otherwiseEmpty (cs ! a) \<or> otherwiseEmpty (cs ! b)) is) @ name_pairs cs is"

text \<open>The members of each root, in the order of the indices.\<close>

fun comp_loop :: "nat list \<Rightarrow> (nat \<times> nat list) list \<times> parents \<Rightarrow> ((nat \<times> nat list) list \<times> parents) option" where
  "comp_loop [] st = Some st"
| "comp_loop (i # is) (comps, uf) =
     Option.bind (find_root uf i) (\<lambda>(r, uf').
       comp_loop is (AList.update r ((case map_of comps r of None \<Rightarrow> [] | Some ms \<Rightarrow> ms) @ [i]) comps, uf'))"

definition findDuplicateGroups :: "(nat list list \<Rightarrow> nat list list) \<Rightarrow> contact list \<Rightarrow> nat list list option" where
  "findDuplicateGroups rng cs =
     do {
       (byKey, uf1) \<leftarrow> contact_loop 0 cs (Map.empty, newUnionFind (length cs));
       uf2 \<leftarrow> union_all (concat (map (name_pairs cs) (rng (map snd (name_loop 0 cs []))))) uf1;
       (comps, uf3) \<leftarrow> comp_loop [0..<length cs] ([], uf2);
       Some (sort_key hd (map sort (filter (\<lambda>ms. \<not> length ms < 2) (rng (map snd comps)))))
     }"

definition groupShouldMerge :: "contact list \<Rightarrow> bool" where
  "groupShouldMerge members =
     (if length members < 2 then False
      else if length members = 2 then True
      else
        (let name = normalizeName (hd members) in
         if name = [] then False else list_all (\<lambda>m. normalizeName m = name) (tl members)))"

section \<open>The graph of duplicates\<close>

text \<open>Two contacts are joined if they share a key, or share a name and one of them has nothing else.\<close>

definition share_key :: "contact \<Rightarrow> contact \<Rightarrow> bool" where
  "share_key c d \<longleftrightarrow> set (matchKeys c) \<inter> set (matchKeys d) \<noteq> {}"

definition share_name :: "contact \<Rightarrow> contact \<Rightarrow> bool" where
  "share_name c d \<longleftrightarrow>
     normalizeName c \<noteq> [] \<and> normalizeName c = normalizeName d \<and> (otherwiseEmpty c \<or> otherwiseEmpty d)"

definition key_edges :: "contact list \<Rightarrow> (nat \<times> nat) set" where
  "key_edges cs = {(i, j). i < length cs \<and> j < length cs \<and> share_key (cs ! i) (cs ! j)}"

definition name_edges :: "contact list \<Rightarrow> (nat \<times> nat) set" where
  "name_edges cs = {(i, j). i < length cs \<and> j < length cs \<and> share_name (cs ! i) (cs ! j)}"

definition linked :: "contact list \<Rightarrow> (nat \<times> nat) set" where
  "linked cs = connected (key_edges cs \<union> name_edges cs)"

text \<open>The component of \<open>i\<close>, and the components of two or more, each at its least member.\<close>

definition component :: "contact list \<Rightarrow> nat \<Rightarrow> nat list" where
  "component cs i = filter (\<lambda>j. (i, j) \<in> linked cs) [0..<length cs]"

definition duplicate_components :: "contact list \<Rightarrow> nat list list" where
  "duplicate_components cs =
     map (component cs) (filter (\<lambda>i. hd (component cs i) = i \<and> 2 \<le> length (component cs i)) [0..<length cs])"

section \<open>The pass over the keys\<close>

text \<open>Every key that has been seen, of contact \<open>j\<close>, leads to a contact connected with \<open>j\<close> that has it too.\<close>

definition leads :: "(string \<rightharpoonup> nat) \<Rightarrow> (nat \<times> nat) set \<Rightarrow> nat \<times> string \<Rightarrow> bool" where
  "leads byKey E jk \<longleftrightarrow> (\<exists>m. byKey (snd jk) = Some m \<and> (fst jk, m) \<in> connected E)"

definition key_inv :: "contact list \<Rightarrow> (nat \<times> string) set \<Rightarrow> (string \<rightharpoonup> nat) \<times> parents \<Rightarrow> (nat \<times> nat) set \<Rightarrow> bool" where
  "key_inv cs P st E \<longleftrightarrow>
     represents (snd st) (length cs) E \<and> E \<subseteq> key_edges cs \<and>
     (\<forall>jk \<in> P. leads (fst st) E jk) \<and>
     (\<forall>k m. fst st k = Some m \<longrightarrow> m < length cs \<and> k \<in> set (matchKeys (cs ! m)))"

lemma leads_mono: "E \<subseteq> F \<Longrightarrow> leads byKey E jk \<Longrightarrow> leads byKey F jk"
  unfolding leads_def using connected_mono by blast

lemma leads_update: "byKey k = None \<Longrightarrow> leads byKey E jk \<Longrightarrow> leads (byKey(k \<mapsto> i)) E jk"
  unfolding leads_def by auto

lemma key_inv_seen:
  assumes inv: "key_inv cs P (byKey, uf) E" and k: "byKey k = Some m" and i: "i < length cs" "k \<in> set (matchKeys (cs ! i))"
  obtains uf' where "union_sets i m uf = Some uf'" "key_inv cs (insert (i, k) P) (byKey, uf') (insert (i, m) E)"
proof -
  have m: "m < length cs" "k \<in> set (matchKeys (cs ! m))" using inv k by (auto simp: key_inv_def)
  have rep: "represents uf (length cs) E" using inv by (simp add: key_inv_def)
  obtain uf' where u: "union_sets i m uf = Some uf'" "represents uf' (length cs) (insert (i, m) E)"
    using represents_union [OF rep i(1) m(1)] by blast
  have "(i, m) \<in> key_edges cs" using i m by (auto simp: key_edges_def share_key_def)
  moreover have "leads byKey (insert (i, m) E) (i, k)" by (simp add: leads_def k connected_edge)
  moreover have "leads byKey (insert (i, m) E) jk" if "leads byKey E jk" for jk
    by (rule leads_mono [OF _ that]) auto
  ultimately have "key_inv cs (insert (i, k) P) (byKey, uf') (insert (i, m) E)"
    using inv u(2) unfolding key_inv_def by simp
  with u(1) that show thesis by blast
qed

lemma key_inv_new:
  assumes "key_inv cs P (byKey, uf) E" and "byKey k = None" and "i < length cs" "k \<in> set (matchKeys (cs ! i))"
  shows "key_inv cs (insert (i, k) P) (byKey(k \<mapsto> i), uf) E"
  using assms leads_update [of byKey k E _ i] unfolding key_inv_def by (auto simp: leads_def [of _ _ "(i, k)"])

lemma key_loop_inv:
  assumes "key_inv cs P st E" and "i < length cs" and "set ks \<subseteq> set (matchKeys (cs ! i))"
  shows "\<exists>st' E'. key_loop i ks st = Some st' \<and> key_inv cs (P \<union> {i} \<times> set ks) st' E'"
  using assms
proof (induction i ks st arbitrary: P E rule: key_loop.induct)
  case (1 i st)
  then show ?case by auto
next
  case (2 i k ks byKey uf)
  have P: "P \<union> {i} \<times> set (k # ks) = insert (i, k) P \<union> {i} \<times> set ks" by auto
  show ?case
  proof (cases "byKey k")
    case None
    from key_inv_new [OF 2(3) None 2(4)] 2(5) have "key_inv cs (insert (i, k) P) (byKey(k \<mapsto> i), uf) E" by simp
    from "2.IH"(1) [OF None this 2(4)] 2(5) show ?thesis unfolding P by (simp add: None)
  next
    case (Some m)
    obtain uf' where u: "union_sets i m uf = Some uf'" "key_inv cs (insert (i, k) P) (byKey, uf') (insert (i, m) E)"
      using key_inv_seen [OF 2(3) Some 2(4)] 2(5) by auto
    from "2.IH"(2) [OF Some u 2(4)] 2(5) show ?thesis unfolding P by (simp add: Some u(1))
  qed
qed

definition keys_before :: "contact list \<Rightarrow> nat \<Rightarrow> (nat \<times> string) set" where
  "keys_before cs i = {(j, k). j < i \<and> k \<in> set (matchKeys (cs ! j))}"

lemma contact_loop_inv:
  assumes "key_inv cs (keys_before cs i) st E" and "drop i cs = ds"
  shows "\<exists>st' E'. contact_loop i ds st = Some st' \<and> key_inv cs (keys_before cs (length cs)) st' E'"
  using assms
proof (induction i ds st arbitrary: E rule: contact_loop.induct)
  case (1 i st)
  then have "key_inv cs (keys_before cs (length cs)) st E"
    unfolding key_inv_def keys_before_def by (simp add: order_less_le_trans)
  then show ?case by auto
next
  case (2 i c ds st)
  then have i: "i < length cs" "cs ! i = c" "drop (Suc i) cs = ds"
    by (metis drop_eq_Nil not_le list.distinct(1), metis nth_via_drop, metis drop_Suc tl_drop list.sel(3))
  obtain st' E' where st': "key_loop i (matchKeys c) st = Some st'"
    "key_inv cs (keys_before cs i \<union> {i} \<times> set (matchKeys c)) st' E'"
    using key_loop_inv [OF 2(2) i(1), of "matchKeys c"] i(2) by auto
  have "keys_before cs i \<union> {i} \<times> set (matchKeys c) = keys_before cs (Suc i)"
    using i(2) by (auto simp: keys_before_def less_Suc_eq)
  with "2.IH" [of st' E'] st' i(3) show ?case by simp
qed

lemma key_edges_less: "(i, j) \<in> key_edges cs \<Longrightarrow> i < length cs \<and> j < length cs"
  and name_edges_less: "(i, j) \<in> name_edges cs \<Longrightarrow> i < length cs \<and> j < length cs"
  by (auto simp: key_edges_def name_edges_def)

lemma represents_cong:
  assumes "represents p n E" and "\<And>i j. (i, j) \<in> E \<Longrightarrow> (i, j) \<in> connected F" "\<And>i j. (i, j) \<in> F \<Longrightarrow> (i, j) \<in> connected E"
  shows "represents p n F"
proof -
  have "(i, j) \<in> connected E \<longleftrightarrow> (i, j) \<in> connected F" for i j
    using connected_least [of i j E F] connected_least [of i j F E] assms(2,3) by blast
  with assms(1) show ?thesis by (simp add: represents_def)
qed

lemma contact_loop_represents:
  "\<exists>byKey uf. contact_loop 0 cs (Map.empty, newUnionFind (length cs)) = Some (byKey, uf) \<and> represents uf (length cs) (key_edges cs)"
proof -
  have "key_inv cs (keys_before cs 0) (Map.empty, newUnionFind (length cs)) {}"
    by (simp add: key_inv_def keys_before_def represents_new)
  from contact_loop_inv [OF this, of cs] obtain byKey uf E where
    st: "contact_loop 0 cs (Map.empty, newUnionFind (length cs)) = Some (byKey, uf)"
      and inv: "key_inv cs (keys_before cs (length cs)) (byKey, uf) E" by auto
  have rep: "represents uf (length cs) E" and sub: "E \<subseteq> key_edges cs" using inv by (simp_all add: key_inv_def)
  have closed: "(i, j) \<in> connected E" if "(i, j) \<in> key_edges cs" for i j
  proof -
    from that obtain k where "(i, k) \<in> keys_before cs (length cs)" "(j, k) \<in> keys_before cs (length cs)"
      by (auto simp: key_edges_def share_key_def keys_before_def)
    then have "leads byKey E (i, k)" "leads byKey E (j, k)" using inv by (simp_all add: key_inv_def)
    then obtain m where m: "(i, m) \<in> connected E" "(j, m) \<in> connected E" by (auto simp: leads_def)
    show ?thesis by (rule connected_trans [OF m(1) connected_sym [OF m(2)]])
  qed
  have "represents uf (length cs) (key_edges cs)"
  proof (rule represents_cong [OF rep _ closed])
    fix i j assume "(i, j) \<in> E"
    with sub show "(i, j) \<in> connected (key_edges cs)" by (blast intro: connected_edge)
  qed
  with st show ?thesis by blast
qed

section \<open>The pass over the names\<close>

definition named :: "contact list \<Rightarrow> nat \<Rightarrow> string \<Rightarrow> nat list" where
  "named cs i n = filter (\<lambda>j. normalizeName (cs ! j) = n) [0..<i]"

definition names_ok :: "contact list \<Rightarrow> nat \<Rightarrow> nat list table \<Rightarrow> bool" where
  "names_ok cs i m \<longleftrightarrow>
     distinct (keys m) \<and>
     (\<forall>n. map_of m n = (if n = [] \<or> named cs i n = [] then None else Some (named cs i n)))"

lemma named_Suc: "named cs (Suc i) n = named cs i n @ (if normalizeName (cs ! i) = n then [i] else [])"
  by (simp add: named_def)

lemma names_ok_add: "names_ok cs i m \<Longrightarrow> names_ok cs (Suc i) (add_name i (normalizeName (cs ! i)) m)"
  by (auto simp: names_ok_def add_name_def named_Suc table split: if_splits)

lemma name_loop_ok:
  "names_ok cs i m \<Longrightarrow> drop i cs = ds \<Longrightarrow> i \<le> length cs \<Longrightarrow> names_ok cs (length cs) (name_loop i ds m)"
proof (induction i ds m rule: name_loop.induct)
  case (2 i c ds m)
  then have i: "i < length cs" "cs ! i = c" "drop (Suc i) cs = ds"
    by (metis drop_eq_Nil not_le list.distinct(1), metis nth_via_drop, metis drop_Suc tl_drop list.sel(3))
  with 2 names_ok_add [of cs i m] show ?case by simp
qed simp

lemma name_loop_values:
  "set (map snd (name_loop 0 cs [])) = {named cs (length cs) n | n. n \<noteq> [] \<and> named cs (length cs) n \<noteq> []}"
proof -
  let ?m = "name_loop 0 cs []"
  have ok: "names_ok cs (length cs) ?m" by (rule name_loop_ok) (simp_all add: names_ok_def named_def)
  then have d: "distinct (map fst ?m)" by (simp add: names_ok_def keys_def)
  have "is \<in> set (map snd ?m) \<longleftrightarrow> (\<exists>n. map_of ?m n = Some is)" for "is"
    unfolding map_of_eq_Some_iff [OF d] by force
  moreover have "map_of ?m n = Some is \<longleftrightarrow> is = named cs (length cs) n \<and> n \<noteq> [] \<and> named cs (length cs) n \<noteq> []" for n "is"
    using ok by (auto simp: names_ok_def)
  ultimately show ?thesis by blast
qed

lemma name_pairs_set:
  "sorted_wrt (<) is \<Longrightarrow>
     set (name_pairs cs is) =
       {(a, b). a \<in> set is \<and> b \<in> set is \<and> a < b \<and> (otherwiseEmpty (cs ! a) \<or> otherwiseEmpty (cs ! b))}"
  by (induction "is") auto

lemma named_sorted: "sorted_wrt (<) (named cs i n)"
  unfolding named_def by (rule sorted_wrt_filter) simp

definition all_pairs :: "(nat list list \<Rightarrow> nat list list) \<Rightarrow> contact list \<Rightarrow> (nat \<times> nat) list" where
  "all_pairs rng cs = concat (map (name_pairs cs) (rng (map snd (name_loop 0 cs []))))"

lemma all_pairs_set:
  assumes "\<And>xs. mset (rng xs) = mset xs"
  shows "set (all_pairs rng cs) = {(a, b). (a, b) \<in> name_edges cs \<and> a < b}"
proof -
  have "set (rng (map snd (name_loop 0 cs []))) = set (map snd (name_loop 0 cs []))"
    using assms by (metis set_mset_mset)
  then have "set (all_pairs rng cs) =
      (\<Union>n \<in> {n. n \<noteq> [] \<and> named cs (length cs) n \<noteq> []}. set (name_pairs cs (named cs (length cs) n)))"
    unfolding all_pairs_def set_concat set_map image_image [symmetric] name_loop_values [unfolded set_map] by auto
  also have "\<dots> = {(a, b). (a, b) \<in> name_edges cs \<and> a < b}"
    unfolding name_pairs_set [OF named_sorted]
    by (auto simp: named_def name_edges_def share_name_def filter_empty_conv) (metis atLeastLessThan_iff zero_le)+
  finally show ?thesis .
qed

lemma names_represent:
  assumes "\<And>xs. mset (rng xs) = mset xs" and "represents uf (length cs) (key_edges cs)"
  shows "\<exists>uf'. union_all (all_pairs rng cs) uf = Some uf' \<and> represents uf' (length cs) (key_edges cs \<union> name_edges cs)"
proof -
  note pairs = all_pairs_set [OF assms(1), of cs]
  obtain uf' where u: "union_all (all_pairs rng cs) uf = Some uf'"
    "represents uf' (length cs) (key_edges cs \<union> set (all_pairs rng cs))"
    using represents_union_all [OF assms(2), of "all_pairs rng cs"] pairs by (auto dest: name_edges_less)
  have "represents uf' (length cs) (key_edges cs \<union> name_edges cs)"
  proof (rule represents_cong [OF u(2)])
    fix i j assume "(i, j) \<in> key_edges cs \<union> set (all_pairs rng cs)"
    then show "(i, j) \<in> connected (key_edges cs \<union> name_edges cs)" unfolding pairs by (auto intro: connected_edge)
  next
    fix i j assume e: "(i, j) \<in> key_edges cs \<union> name_edges cs"
    have "(j, i) \<in> name_edges cs" if "(i, j) \<in> name_edges cs"
      using that by (auto simp: name_edges_def share_name_def)
    with e consider "(i, j) \<in> key_edges cs \<union> set (all_pairs rng cs)" | "i = j" | "(j, i) \<in> set (all_pairs rng cs)"
      unfolding pairs by (cases i j rule: linorder_cases) auto
    then show "(i, j) \<in> connected (key_edges cs \<union> set (all_pairs rng cs))"
      by cases (auto intro: connected_edge connected_sym)
  qed
  with u(1) show ?thesis by blast
qed

section \<open>The components\<close>

text \<open>The members of the root \<open>r\<close> among the indices \<open>is\<close>.\<close>

abbreviation members_of :: "parents \<Rightarrow> nat list \<Rightarrow> nat \<Rightarrow> nat list" where
  "members_of p is r \<equiv> filter (\<lambda>i. rooted p i r) is"

definition comps_ok :: "parents \<Rightarrow> nat list \<Rightarrow> (nat \<times> nat list) list \<Rightarrow> bool" where
  "comps_ok p is comps \<longleftrightarrow>
     distinct (map fst comps) \<and>
     (\<forall>r. map_of comps r = (if members_of p is r = [] then None else Some (members_of p is r)))"

lemma comps_ok_add:
  assumes "comps_ok p is comps" and r: "rooted p i r"
  shows "comps_ok p (is @ [i]) (AList.update r ((case map_of comps r of None \<Rightarrow> [] | Some ms \<Rightarrow> ms) @ [i]) comps)"
proof -
  have "rooted p i r' \<longleftrightarrow> r' = r" for r' using rooted_det [OF r, of r'] r by blast
  then have "members_of p (is @ [i]) r' = members_of p is r' @ (if r' = r then [i] else [])" for r' by simp
  with assms(1) show ?thesis by (simp add: comps_ok_def distinct_update update_conv' split: option.split)
qed

lemma comp_loop_ok:
  assumes "comps_ok p is comps" and "same_roots p uf" and "forest p" and "\<forall>i \<in> set js. i < length p"
  shows "\<exists>comps' uf'. comp_loop js (comps, uf) = Some (comps', uf') \<and> comps_ok p (is @ js) comps'"
  using assms
proof (induction js arbitrary: "is" comps uf)
  case (Cons i js)
  obtain r where r: "rooted p i r" using Cons.prems(3,4) by (auto simp: forest_def)
  then have "rooted uf i r" using Cons.prems(2) by (simp add: same_roots_def)
  then obtain uf' where u: "find_root uf i = Some (r, uf')" "same_roots uf uf'"
    using find_root_rooted same_roots_forest [OF Cons.prems(2,3)] by blast
  from Cons.IH [OF comps_ok_add [OF Cons.prems(1) r] same_roots_trans [OF Cons.prems(2) u(2)] Cons.prems(3)] Cons.prems(4)
  show ?case by (simp add: u(1))
qed simp

lemma linked_refl [simp]: "(i, i) \<in> linked cs"
  and linked_sym: "(i, j) \<in> linked cs \<Longrightarrow> (j, i) \<in> linked cs"
  and linked_trans: "(i, j) \<in> linked cs \<Longrightarrow> (j, k) \<in> linked cs \<Longrightarrow> (i, k) \<in> linked cs"
  unfolding linked_def by (simp, erule connected_sym, erule connected_trans)

lemma component_eq: "(i, j) \<in> linked cs \<Longrightarrow> component cs j = component cs i"
  unfolding component_def by (rule filter_cong) (auto intro: linked_trans linked_sym)

lemma component_mem: "j \<in> set (component cs i) \<longleftrightarrow> j < length cs \<and> (i, j) \<in> linked cs"
  by (auto simp: component_def)

lemma component_hd:
  assumes "i < length cs"
  shows "component cs (hd (component cs i)) = component cs i" and "hd (component cs i) < length cs"
proof -
  have "i \<in> set (component cs i)" using assms by (simp add: component_mem)
  then have "hd (component cs i) \<in> set (component cs i)" by (metis list.set_sel(1) empty_iff list.set(1))
  then show "component cs (hd (component cs i)) = component cs i" "hd (component cs i) < length cs"
    by (simp_all add: component_mem component_eq)
qed

lemma component_sorted [simp]: "sorted (component cs i)"
  unfolding component_def by (rule sorted_wrt_filter) simp

lemma component_distinct [simp]: "distinct (component cs i)"
  by (simp add: component_def)

definition least_members :: "contact list \<Rightarrow> nat list" where
  "least_members cs = filter (\<lambda>i. hd (component cs i) = i \<and> 2 \<le> length (component cs i)) [0..<length cs]"

lemma duplicate_components_hd: "map hd (duplicate_components cs) = least_members cs"
  unfolding duplicate_components_def least_members_def [symmetric] map_map
  by (rule map_idI) (simp add: least_members_def)

lemma duplicate_components_sorted: "sorted (map hd (duplicate_components cs))" "distinct (duplicate_components cs)"
proof -
  show "sorted (map hd (duplicate_components cs))"
    unfolding duplicate_components_hd least_members_def by (rule sorted_wrt_filter) simp
  show "distinct (duplicate_components cs)"
    using arg_cong [OF duplicate_components_hd [of cs], of distinct] by (simp add: distinct_map least_members_def)
qed

lemma duplicate_components_inj: "inj_on hd (set (duplicate_components cs))"
  using arg_cong [OF duplicate_components_hd [of cs], of distinct] by (simp add: distinct_map least_members_def)

lemma duplicate_components_set:
  "set (duplicate_components cs) = {component cs i | i. i < length cs \<and> 2 \<le> length (component cs i)}"
proof (intro set_eqI iffI)
  fix g assume "g \<in> {component cs i | i. i < length cs \<and> 2 \<le> length (component cs i)}"
  then obtain i where i: "g = component cs i" "i < length cs" "2 \<le> length g" by auto
  with component_hd [OF i(2)] have "g = component cs (hd g)" "hd g < length cs" by simp_all
  with i(3) show "g \<in> set (duplicate_components cs)" by (auto simp: duplicate_components_def)
qed (auto simp: duplicate_components_def)

lemma members_component:
  assumes "represents p (length cs) (key_edges cs \<union> name_edges cs)" and "rooted p i r"
  shows "members_of p [0..<length cs] r = component cs i"
proof -
  have i: "i < length cs" using rooted_less [OF assms(2)] assms(1) by (simp add: represents_def)
  have "rooted p j r \<longleftrightarrow> (i, j) \<in> linked cs" if "j < length cs" for j
  proof -
    have "same_set p i j \<longleftrightarrow> rooted p j r" using assms(2) unfolding same_set_def by (metis rooted_det)
    with assms(1) i that show ?thesis by (simp add: represents_def linked_def)
  qed
  then show ?thesis unfolding component_def by (intro filter_cong) auto
qed

lemma comps_values:
  assumes rep: "represents p (length cs) (key_edges cs \<union> name_edges cs)" and ok: "comps_ok p [0..<length cs] comps"
  shows "set (map snd comps) = {component cs i | i. i < length cs}" and "distinct (map snd comps)"
proof -
  have d: "distinct (map fst comps)" using ok by (simp add: comps_ok_def)
  have mem: "(r, g) \<in> set comps \<longleftrightarrow> g \<noteq> [] \<and> g = members_of p [0..<length cs] r" for r g
    using ok map_of_eq_Some_iff [OF d, of r g] unfolding comps_ok_def by (auto split: if_splits)
  have len: "length p = length cs" and f: "forest p" using rep by (simp_all add: represents_def)
  show "set (map snd comps) = {component cs i | i. i < length cs}"
  proof (intro set_eqI iffI)
    fix g assume "g \<in> set (map snd comps)"
    then obtain r where g: "g \<noteq> []" "g = members_of p [0..<length cs] r" using mem by auto
    then have "hd g \<in> set (members_of p [0..<length cs] r)" by (metis list.set_sel(1))
    then have "hd g < length cs" "rooted p (hd g) r" by simp_all
    with members_component [OF rep] g(2) show "g \<in> {component cs i | i. i < length cs}" by blast
  next
    fix g assume "g \<in> {component cs i | i. i < length cs}"
    then obtain i where i: "g = component cs i" "i < length cs" by blast
    then obtain r where r: "rooted p i r" using f len by (auto simp: forest_def)
    have "i \<in> set g" using i by (simp add: component_mem)
    with members_component [OF rep r] i(1) have "(r, g) \<in> set comps" unfolding mem by auto
    then show "g \<in> set (map snd comps)" by force
  qed
  have "inj_on snd (set comps)"
  proof (rule inj_onI, clarsimp)
    fix r r' g assume "(r, g) \<in> set comps" "(r', g) \<in> set comps"
    then have g: "g \<noteq> []" "g = members_of p [0..<length cs] r" "g = members_of p [0..<length cs] r'"
      unfolding mem by blast+
    then have "hd g \<in> set (members_of p [0..<length cs] r)" "hd g \<in> set (members_of p [0..<length cs] r')"
      by (metis list.set_sel(1))+
    then show "r = r'" using rooted_det by auto
  qed
  with d show "distinct (map snd comps)" by (simp add: distinct_map)
qed

lemma groups_components:
  assumes "\<And>xs. mset (rng xs) = mset xs"
  shows "findDuplicateGroups rng cs = Some (duplicate_components cs)"
proof -
  obtain byKey uf1 where u1: "contact_loop 0 cs (Map.empty, newUnionFind (length cs)) = Some (byKey, uf1)"
    "represents uf1 (length cs) (key_edges cs)" using contact_loop_represents by blast
  obtain uf2 where u2: "union_all (all_pairs rng cs) uf1 = Some uf2"
    "represents uf2 (length cs) (key_edges cs \<union> name_edges cs)" using names_represent [OF assms u1(2)] by blast
  have f: "forest uf2" "length uf2 = length cs" using u2(2) by (simp_all add: represents_def)
  obtain comps uf3 where c: "comp_loop [0..<length cs] ([], uf2) = Some (comps, uf3)" "comps_ok uf2 [0..<length cs] comps"
    using comp_loop_ok [of uf2 "[]" "[]" uf2 "[0..<length cs]"] f by (auto simp: comps_ok_def)
  let ?big = "filter (\<lambda>ms. \<not> length ms < 2) (rng (map snd comps))"
  have m: "mset ?big = mset (filter (\<lambda>ms. \<not> length ms < 2) (map snd comps))" by (simp add: assms)
  have "set ?big = set (duplicate_components cs)"
    unfolding duplicate_components_set
    using comps_values(1) [OF u2(2) c(2)] mset_eq_setD [OF assms, of "map snd comps"] by auto
  moreover have "distinct ?big"
    using comps_values(2) [OF u2(2) c(2)] mset_eq_imp_distinct_iff [OF m] by (simp add: distinct_filter)
  ultimately have eq: "mset ?big = mset (duplicate_components cs)"
    using duplicate_components_sorted(2) [of cs] set_eq_iff_mset_eq_distinct by blast
  have "sorted g" if "g \<in> set (duplicate_components cs)" for g
    using that by (auto simp: duplicate_components_def)
  then have "map sort ?big = ?big"
    unfolding mset_eq_setD [OF eq, symmetric] by (intro map_idI sorted_sort_id)
  moreover have "sort_key hd ?big = duplicate_components cs"
  proof (rule sort_key_inj_key_eq [OF eq])
    show "inj_on hd (set ?big)"
      unfolding mset_eq_setD [OF eq] by (rule duplicate_components_inj)
  qed (rule duplicate_components_sorted(1))
  ultimately show ?thesis
    using u1(1) u2(1) c(1) by (simp add: findDuplicateGroups_def all_pairs_def [symmetric])
qed

end
