(* ===== verification/Contact_Merge.thy ===== *)
theory Contact_Merge
  imports Contact_Groups
begin

text \<open>
  How a group of duplicates becomes one contact: the second half of
  \<open>backend/internal/contacts/dedupe.go\<close>.

  \<open>sort.Slice\<close> is not stable; \<open>srt\<close> stands for it, with the comparison as an argument.
\<close>

section \<open>Merging a group\<close>

definition olderThan :: "contact \<Rightarrow> contact \<Rightarrow> bool" where
  "olderThan a b \<longleftrightarrow>
     (if CreatedAt a \<noteq> CreatedAt b then CreatedAt a < CreatedAt b
      else if Rev a \<noteq> Rev b then Rev a < Rev b
      else UID a < UID b)"

definition newerThan :: "contact \<Rightarrow> contact \<Rightarrow> bool" where
  "newerThan a b \<longleftrightarrow> (if UpdatedAt a \<noteq> UpdatedAt b then UpdatedAt a > UpdatedAt b else Rev a > Rev b)"

definition firstNonEmpty :: "contact list \<Rightarrow> (contact \<Rightarrow> string) \<Rightarrow> string" where
  "firstNonEmpty cs g = (case List.find (\<lambda>c. g c \<noteq> []) cs of None \<Rightarrow> [] | Some c \<Rightarrow> g c)"

text \<open>The loop of the four unions: values with a new key are kept, in their order.\<close>

fun keep_new :: "('a \<Rightarrow> 'k) \<Rightarrow> ('k \<Rightarrow> bool) \<Rightarrow> 'k list \<Rightarrow> 'a list \<Rightarrow> 'a list" where
  "keep_new key blank seen [] = []"
| "keep_new key blank seen (v # vs) =
     (if blank (key v) \<or> key v \<in> set seen then keep_new key blank seen vs
      else v # keep_new key blank (key v # seen) vs)"

definition unionValues :: "contact list \<Rightarrow> (contact \<Rightarrow> contact_value list) \<Rightarrow> (string \<Rightarrow> string) \<Rightarrow> contact_value list" where
  "unionValues members g norm = keep_new (norm \<circ> cv_Value) (\<lambda>k. k = []) [] (concat (map g members))"

definition unionStrings :: "contact list \<Rightarrow> (contact \<Rightarrow> string list) \<Rightarrow> string list" where
  "unionStrings members g = keep_new id (\<lambda>k. k = []) [] (concat (map g members))"

definition unionComparable :: "contact list \<Rightarrow> (contact \<Rightarrow> 'a list) \<Rightarrow> 'a list" where
  "unionComparable members g = keep_new id (\<lambda>k. False) [] (concat (map g members))"

definition unionAddresses :: "contact list \<Rightarrow> contact_address list" where
  "unionAddresses members = keep_new id (\<lambda>k. False) [] (concat (map Addresses members))"

definition mergedUIDs :: "contact \<Rightarrow> contact list \<Rightarrow> string list \<Rightarrow> string list" where
  "mergedUIDs survivor members absorbed =
     sort (remdups (filter (\<lambda>u. u \<noteq> [] \<and> u \<noteq> UID survivor) (absorbed @ concat (map MergedUIDs members))))"

definition mergePGPProvenance :: "contact \<Rightarrow> contact list \<Rightarrow> contact" where
  "mergePGPProvenance survivor byNewest =
     (if PGPKey survivor \<noteq> [] then survivor
      else (case List.find (\<lambda>c. PGPKey c \<noteq> []) byNewest of None \<Rightarrow> empty_contact | Some c \<Rightarrow> c))"

type_synonym slice_sort = "(contact \<Rightarrow> contact \<Rightarrow> bool) \<Rightarrow> contact list \<Rightarrow> contact list"

definition mergeGroup :: "slice_sort \<Rightarrow> contact list \<Rightarrow> contact \<times> string list" where
  "mergeGroup srt members =
     (let ordered = srt olderThan members;
          oldest = hd ordered;
          absorbed = sort (map UID (tl ordered));
          byNewest = srt newerThan members;
          k = mergePGPProvenance oldest byNewest;
          first = firstNonEmpty byNewest;
          survivor =
            oldest\<lparr>FormattedName := first FormattedName, GivenName := first GivenName, FamilyName := first FamilyName,
              MiddleName := first MiddleName, Prefix := first Prefix, Suffix := first Suffix, Nickname := first Nickname,
              Org := first Org, Title := first Title, Notes := first Notes, Birthday := first Birthday,
              PhotoRef := first PhotoRef,
              PGPKey := PGPKey k, PGPKeyFingerprint := PGPKeyFingerprint k, PGPKeySource := PGPKeySource k,
              PGPKeyVerified := PGPKeyVerified k, PGPKeyAutocryptDate := PGPKeyAutocryptDate k,
              PhoneticGivenName := first PhoneticGivenName, PhoneticFamilyName := first PhoneticFamilyName,
              Department := first Department, Pronouns := first Pronouns,
              Emails := unionValues members Emails normalizeEmail, Phones := unionValues members Phones normalizePhone,
              Addresses := unionAddresses members, GroupIDs := unionStrings members GroupIDs,
              IMs := unionComparable members IMs, Websites := unionComparable members Websites,
              Relations := unionComparable members Relations, Events := unionComparable members Events,
              CustomFields := unionComparable members CustomFields\<rparr> in
      (survivor\<lparr>MergedUIDs := mergedUIDs survivor members absorbed, MergedInto := []\<rparr>, absorbed))"

section \<open>The contract of \<open>sort.Slice\<close>\<close>

text \<open>Whatever the comparison, the elements are kept; a strict weak order is obeyed.\<close>

definition weak_order :: "('a \<Rightarrow> 'a \<Rightarrow> bool) \<Rightarrow> bool" where
  "weak_order lt \<longleftrightarrow>
     (\<forall>a b. lt a b \<longrightarrow> \<not> lt b a) \<and> (\<forall>a b c. \<not> lt a b \<longrightarrow> \<not> lt b c \<longrightarrow> \<not> lt a c)"

definition sorts :: "slice_sort \<Rightarrow> bool" where
  "sorts srt \<longleftrightarrow>
     (\<forall>lt xs. mset (srt lt xs) = mset xs \<and> (weak_order lt \<longrightarrow> sorted_wrt (\<lambda>a b. \<not> lt b a) (srt lt xs)))"

lemma weak_order_older: "weak_order olderThan"
  unfolding weak_order_def olderThan_def by (auto split: if_splits)

lemma weak_order_newer: "weak_order newerThan"
  unfolding weak_order_def newerThan_def by (auto split: if_splits)

section \<open>What a merge keeps\<close>

lemma keep_new_set:
  "key ` set (keep_new key blank seen vs) = {k \<in> key ` set vs. \<not> blank k \<and> k \<notin> set seen}"
  by (induction key blank seen vs rule: keep_new.induct) auto

lemma keep_new_id: "set (keep_new id blank seen vs) = {v \<in> set vs. \<not> blank v \<and> v \<notin> set seen}"
  using keep_new_set [of id blank seen vs] by simp

lemma keep_new_distinct: "distinct (map key (keep_new key blank seen vs))"
proof (induction key blank seen vs rule: keep_new.induct)
  case (2 key blank seen v vs)
  have "key v \<notin> key ` set (keep_new key blank (key v # seen) vs)" unfolding keep_new_set by simp
  with 2 show ?case by simp
qed simp

lemma keep_new_subset: "set (keep_new key blank seen vs) \<subseteq> set vs"
  by (induction key blank seen vs rule: keep_new.induct) auto

text \<open>The key with everything that is recorded about it.\<close>

definition key_of :: "contact \<Rightarrow> string \<times> string \<times> string \<times> bool \<times> string" where
  "key_of c = (PGPKey c, PGPKeyFingerprint c, PGPKeySource c, PGPKeyVerified c, PGPKeyAutocryptDate c)"

definition value_keys :: "(string \<Rightarrow> string) \<Rightarrow> contact_value list \<Rightarrow> string set" where
  "value_keys norm vs = {k \<in> (norm \<circ> cv_Value) ` set vs. k \<noteq> []}"

lemma matchKeys_set:
  "set (matchKeys c) =
     (\<lambda>v. ''e:'' @ v) ` value_keys normalizeEmail (Emails c) \<union> (\<lambda>v. ''p:'' @ v) ` value_keys normalizePhone (Phones c)"
  unfolding matchKeys_def value_keys_def by (simp only: set_append set_map set_filter)

lemma value_keys_union: "value_keys norm (unionValues ms g norm) = (\<Union>m \<in> set ms. value_keys norm (g m))"
proof -
  have "(norm \<circ> cv_Value) ` set (unionValues ms g norm) = {k \<in> (norm \<circ> cv_Value) ` (\<Union>m \<in> set ms. set (g m)). k \<noteq> []}"
    unfolding unionValues_def keep_new_set by simp
  then show ?thesis unfolding value_keys_def by auto
qed

lemma unionStrings_set: "set (unionStrings ms g) = {v. v \<noteq> [] \<and> (\<exists>m \<in> set ms. v \<in> set (g m))}"
  unfolding unionStrings_def keep_new_id by auto

lemma unionComparable_set: "set (unionComparable ms g) = (\<Union>m \<in> set ms. set (g m))"
  unfolding unionComparable_def keep_new_id by auto

text \<open>The members a merge starts from: the oldest and the rest.\<close>

lemma sorts_mset: "sorts srt \<Longrightarrow> mset (srt lt xs) = mset xs"
  and sorts_set: "sorts srt \<Longrightarrow> set (srt lt xs) = set xs"
  unfolding sorts_def by (blast, metis mset_eq_setD)

lemma sorts_hd:
  assumes "sorts srt" and "weak_order lt" and "xs \<noteq> []"
  shows "hd (srt lt xs) \<in> set xs" and "\<And>x. x \<in> set xs \<Longrightarrow> \<not> lt x (hd (srt lt xs))"
    and "mset (hd (srt lt xs) # tl (srt lt xs)) = mset xs"
proof -
  from assms have ne: "srt lt xs \<noteq> []" using sorts_mset [of srt lt xs] by auto
  with sorts_set [OF assms(1), of lt xs] show "hd (srt lt xs) \<in> set xs" by (metis list.set_sel(1))
  show "mset (hd (srt lt xs) # tl (srt lt xs)) = mset xs" using ne sorts_mset [OF assms(1)] by simp
  have "sorted_wrt (\<lambda>a b. \<not> lt b a) (srt lt xs)" using assms by (simp add: sorts_def)
  moreover have "\<not> lt x x" for x using assms(2) unfolding weak_order_def by blast
  moreover have "x \<in> set (srt lt xs)" if "x \<in> set xs" for x using that sorts_set [OF assms(1), of lt xs] by simp
  ultimately show "\<not> lt x (hd (srt lt xs))" if "x \<in> set xs" for x
    using that ne by (cases "srt lt xs") (simp_all, metis set_ConsD)
qed

definition oldest_of :: "slice_sort \<Rightarrow> contact list \<Rightarrow> contact" where
  "oldest_of srt ms = hd (srt olderThan ms)"

lemma mergeGroup_sel:
  assumes "mergeGroup srt ms = (s, absorbed)"
  shows "UID s = UID (oldest_of srt ms)" "Rev s = Rev (oldest_of srt ms)" "Deleted s = Deleted (oldest_of srt ms)"
    "IsSelf s = IsSelf (oldest_of srt ms)" "CreatedAt s = CreatedAt (oldest_of srt ms)"
    "FormattedName s = firstNonEmpty (srt newerThan ms) FormattedName"
    "Emails s = unionValues ms Emails normalizeEmail" "Phones s = unionValues ms Phones normalizePhone"
    "key_of s = key_of (mergePGPProvenance (oldest_of srt ms) (srt newerThan ms))"
    "GroupIDs s = unionStrings ms GroupIDs" "Addresses s = unionComparable ms Addresses"
    "absorbed = sort (map UID (tl (srt olderThan ms)))" "MergedInto s = []"
    "set (MergedUIDs s) = {u. u \<noteq> [] \<and> u \<noteq> UID s \<and> (u \<in> set absorbed \<or> (\<exists>m \<in> set ms. u \<in> set (MergedUIDs m)))}"
  using assms
  by (auto simp: mergeGroup_def Let_def oldest_of_def key_of_def mergedUIDs_def unionAddresses_def unionComparable_def)

lemma mergeGroup_uids:
  assumes "mergeGroup srt ms = (s, absorbed)" and "sorts srt" and "ms \<noteq> []"
  shows "mset (UID s # absorbed) = mset (map UID ms)"
proof -
  have "mset (hd (srt olderThan ms) # tl (srt olderThan ms)) = mset ms"
    by (rule sorts_hd(3) [OF assms(2) weak_order_older assms(3)])
  from arg_cong [OF this, of "image_mset UID"] show ?thesis
    by (simp add: mergeGroup_sel(1,12) [OF assms(1)] oldest_of_def)
qed

lemma mergeGroup_keys:
  assumes "mergeGroup srt ms = (s, absorbed)"
  shows "set (matchKeys s) = (\<Union>m \<in> set ms. set (matchKeys m))"
  unfolding matchKeys_set mergeGroup_sel(7,8) [OF assms] value_keys_union by (simp add: image_UN UN_Un_distrib)

lemma key_of_PGPKey: "PGPKey s = fst (key_of s)"
  by (simp add: key_of_def)

lemma provenance_choice:
  assumes new: "set byNewest = set ms" and mem: "old \<in> set ms"
  shows "if \<forall>m \<in> set ms. PGPKey m = [] then key_of (mergePGPProvenance old byNewest) = key_of empty_contact
     else fst (key_of (mergePGPProvenance old byNewest)) \<noteq> [] \<and> (\<exists>m \<in> set ms. key_of (mergePGPProvenance old byNewest) = key_of m)"
proof (cases "PGPKey old = []")
  case False
  with mem show ?thesis by (auto simp: mergePGPProvenance_def key_of_def)
next
  case True
  show ?thesis
  proof (cases "List.find (\<lambda>c. PGPKey c \<noteq> []) byNewest")
    case None
    then have "\<forall>m \<in> set ms. PGPKey m = []" using new by (simp add: find_None_iff)
    with True None show ?thesis by (simp add: mergePGPProvenance_def)
  next
    case (Some c)
    then have "PGPKey c \<noteq> []" "c \<in> set ms" using new by (metis (mono_tags, lifting) find_Some_iff, metis find_Some_iff nth_mem)
    with True Some show ?thesis by (auto simp: mergePGPProvenance_def key_of_def)
  qed
qed

end
