(* ===== verification/Contact_Store.thy ===== *)
theory Contact_Store
  imports Contact_Merge File_Store
begin

text \<open>
  One user's address book, \<open>backend/internal/contacts/store.go\<close>, on the file store of \<open>File_Store\<close>: every
  operation of the store, with deduplication, tombstones and their collection, and the change feed of
  the sync clients.

  Parameters: OpenPGP (\<open>lib_key\<close>, what \<open>crypto.NewKeyFromArmored\<close> makes of an armored text), the order in which a
  map is ranged over and \<open>sort.Slice\<close> (as in \<open>Contact_Groups\<close> and \<open>Contact_Merge\<close>), and for the collection of
  tombstones whether a stored time lies before the cutoff. \<open>RuntimePanic\<close> is an index out of range, or a
  loop that does not end; neither occurs.
\<close>

section \<open>State\<close>

record contacts_file =
  cf_Contacts :: "contact list"
  cf_Seq :: int
  cf_GCHighWaterRev :: int
  cf_PGPKeyGen :: int

type_synonym contact_store = "contacts_file file_state"

definition MaxContactsPerUser :: nat where "MaxContactsPerUser = 10000"

record pgp_key =
  key_Fingerprint :: string
  key_Public :: "string option"
  key_Private :: bool

record contact_lib =
  lib_key :: "string \<Rightarrow> pgp_key option"
  lib_rng :: "nat list list \<Rightarrow> nat list list"
  lib_srt :: slice_sort

datatype contact_error = ErrPreconditionFailed | ErrPGPKeyMismatch

section \<open>Keys\<close>

definition pgpKeyFingerprint :: "contact_lib \<Rightarrow> string \<Rightarrow> string" where
  "pgpKeyFingerprint lib armored = (case lib_key lib armored of None \<Rightarrow> [] | Some k \<Rightarrow> key_Fingerprint k)"

definition publicPGPKey :: "contact_lib \<Rightarrow> string \<Rightarrow> string" where
  "publicPGPKey lib armored =
     (if armored = [] then []
      else
        (case lib_key lib armored of
           None \<Rightarrow> armored
         | Some k \<Rightarrow> (case key_Public k of None \<Rightarrow> armored | Some pub \<Rightarrow> pub)))"

definition pinPGPKeyFingerprint :: "contact_lib \<Rightarrow> contact \<Rightarrow> contact" where
  "pinPGPKeyFingerprint lib c =
     (if PGPKey c = [] \<or> PGPKeyFingerprint c \<noteq> [] then c
      else c\<lparr>PGPKeyFingerprint := pgpKeyFingerprint lib (PGPKey c)\<rparr>)"

definition carryPGPProvenance :: "contact_lib \<Rightarrow> contact \<Rightarrow> contact \<Rightarrow> contact" where
  "carryPGPProvenance lib c existing =
     (if PGPKey c = [] \<or> PGPKey existing = [] then c
      else if PGPKey c \<noteq> PGPKey existing \<and>
              (let fp = pgpKeyFingerprint lib (PGPKey c) in
               fp = [] \<or> \<not> equal_fold fp (pgpKeyFingerprint lib (PGPKey existing))) then c
      else if PGPKeyFingerprint c \<noteq> [] \<or> PGPKeySource c \<noteq> [] \<or> PGPKeyVerified c then c
      else c\<lparr>PGPKeyFingerprint := PGPKeyFingerprint existing, PGPKeySource := PGPKeySource existing,
             PGPKeyVerified := PGPKeyVerified existing, PGPKeyAutocryptDate := PGPKeyAutocryptDate existing\<rparr>)"

definition keepUnconfirmedAutocrypt :: "contact_lib \<Rightarrow> contact \<Rightarrow> contact \<Rightarrow> contact" where
  "keepUnconfirmedAutocrypt lib c existing =
     (let remembered =
            (if PGPKey existing \<noteq> [] \<and> PGPKeySource existing = PGPSourceAutocrypt \<and> \<not> PGPKeyVerified existing
             then pgpKeyFingerprint lib (PGPKey existing) else PGPKeyRemovedAutocrypt existing);
          c1 = c\<lparr>PGPKeyRemovedAutocrypt := []\<rparr> in
      if PGPKey c1 = [] then c1\<lparr>PGPKeyRemovedAutocrypt := remembered\<rparr>
      else if PGPKey existing = [] \<and> remembered \<noteq> [] \<and> PGPKeySource c1 = [] \<and> \<not> PGPKeyVerified c1 \<and>
              equal_fold (pgpKeyFingerprint lib (PGPKey c1)) remembered
      then c1\<lparr>PGPKeySource := PGPSourceAutocrypt, PGPKeyFingerprint := remembered\<rparr>
      else c1)"

definition pgpBindingOf :: "contact \<Rightarrow> string" where
  "pgpBindingOf c =
     PGPKey c @ [CHR 0x00] @ PGPKeyFingerprint c @ [CHR 0x00] @
       join '','' (sort (filter (\<lambda>v. v \<noteq> []) (map (\<lambda>e. to_lower (trim_space (cv_Value e))) (Emails c))))"

definition bumpPGPKeyGenIfBindingChanged :: "contact \<Rightarrow> contact \<Rightarrow> contacts_file \<Rightarrow> contacts_file" where
  "bumpPGPKeyGenIfBindingChanged before after f =
     (if pgpBindingOf before \<noteq> pgpBindingOf after then f\<lparr>cf_PGPKeyGen := cf_PGPKeyGen f + 1\<rparr> else f)"

section \<open>Writes\<close>

definition getLocked :: "string \<Rightarrow> contacts_file \<Rightarrow> contact option" where
  "getLocked uid f = List.find (\<lambda>c. UID c = uid) (cf_Contacts f)"

definition liveContactCountLocked :: "contacts_file \<Rightarrow> nat" where
  "liveContactCountLocked f = length (filter (\<lambda>c. \<not> Deleted c) (cf_Contacts f))"

text \<open>The position of the first contact with an identifier; a position is written with its contact.\<close>

fun index_of :: "string \<Rightarrow> contact list \<Rightarrow> nat option" where
  "index_of uid [] = None"
| "index_of uid (c # cs) = (if UID c = uid then Some 0 else map_option Suc (index_of uid cs))"

definition put_at :: "nat \<Rightarrow> contact \<Rightarrow> contacts_file \<Rightarrow> contacts_file" where
  "put_at k c f = f\<lparr>cf_Contacts := (cf_Contacts f)[k := c]\<rparr>"

definition append_contact :: "contact \<Rightarrow> contacts_file \<Rightarrow> contacts_file" where
  "append_contact c f = f\<lparr>cf_Contacts := cf_Contacts f @ [c]\<rparr>"

text \<open>The contact of an upsert with the provenance of its key, and the count of key changes.\<close>

definition incoming :: "contact_lib \<Rightarrow> contact \<Rightarrow> contacts_file \<Rightarrow> contact" where
  "incoming lib c0 f =
     (let c1 = c0\<lparr>PGPKey := publicPGPKey lib (PGPKey c0)\<rparr>;
          c2 = (case getLocked (UID c1) f of
                  None \<Rightarrow> c1 | Some e \<Rightarrow> keepUnconfirmedAutocrypt lib (carryPGPProvenance lib c1 e) e) in
      pinPGPKeyFingerprint lib c2)"

definition count_key_change :: "contact \<Rightarrow> contacts_file \<Rightarrow> contacts_file" where
  "count_key_change c f =
     (case getLocked (UID c) f of
        Some before \<Rightarrow> bumpPGPKeyGenIfBindingChanged before c f
      | None \<Rightarrow> if PGPKey c \<noteq> [] then f\<lparr>cf_PGPKeyGen := cf_PGPKeyGen f + 1\<rparr> else f)"

text \<open>Writing a contact with an identifier over the stored one, or adding it.\<close>

definition write_contact :: "string \<Rightarrow> contact \<Rightarrow> contacts_file \<Rightarrow> contact \<times> contacts_file" where
  "write_contact now c f =
     (case index_of (UID c) (cf_Contacts f) of
        Some k \<Rightarrow>
          (let e = cf_Contacts f ! k;
               c' = c\<lparr>CreatedAt := (if CreatedAt c = [] then CreatedAt e else CreatedAt c), IsSelf := IsSelf e,
                      PhotoRef := PhotoRef e, DiscoveryCreated := (DiscoveryCreated c \<or> DiscoveryCreated e)\<rparr> in
           (c', put_at k c' f))
      | None \<Rightarrow> (let c' = c\<lparr>CreatedAt := now\<rparr> in (c', append_contact c' f)))"

definition applyUpsertLocked ::
  "contact_lib \<Rightarrow> string \<Rightarrow> string option \<Rightarrow> contact \<Rightarrow> contacts_file \<Rightarrow> (io_error, contact) result \<times> contacts_file" where
  "applyUpsertLocked lib now uuid c0 f =
     (if (UID c0 = [] \<or> (case getLocked (UID c0) f of None \<Rightarrow> True | Some e \<Rightarrow> Deleted e)) \<and>
         liveContactCountLocked f \<ge> MaxContactsPerUser then (Inl StoreFull, f)
      else
        (let c3 = incoming lib c0 f;
             f1 = count_key_change c3 f;
             f2 = f1\<lparr>cf_Seq := cf_Seq f1 + 1\<rparr>;
             c4 = c3\<lparr>Rev := cf_Seq f2, Deleted := False, UpdatedAt := now\<rparr> in
         if UID c4 = [] then
           (case uuid of
              None \<Rightarrow> (Inl RandError, f2)
            | Some uid \<Rightarrow> (let c5 = c4\<lparr>UID := uid, CreatedAt := now\<rparr> in (Inr c5, append_contact c5 f2)))
         else (case write_contact now c4 f2 of (c5, f3) \<Rightarrow> (Inr c5, f3))))"

text \<open>\<open>upsertLocked\<close> adds the write, which \<open>mutate\<close> does when the last component says so.\<close>

definition upsertLocked ::
  "contact_lib \<Rightarrow> io \<Rightarrow> contact \<Rightarrow> contacts_file \<Rightarrow> (io_error, (contact_error, contact) result) result \<times> contacts_file \<times> bool" where
  "upsertLocked lib i c f =
     (case applyUpsertLocked lib (io_now i) (io_uuid i) c f of
        (Inl e, f') \<Rightarrow> (Inl e, f', False)
      | (Inr c', f') \<Rightarrow> (Inr (Inr c'), f', True))"

definition Upsert_contact ::
  "contact_lib \<Rightarrow> contact \<Rightarrow> io \<Rightarrow> contact_store \<Rightarrow> (io_error, (contact_error, contact) result) result \<times> contact_store" where
  "Upsert_contact lib c i s = mutate i (upsertLocked lib i c) s"

record contact_precondition =
  RequireAbsent :: bool
  RequireETag :: string
  KeepAbsentPGPKey :: bool

text \<open>\<open>etag\<close> is \<open>etagForRev\<close>: the decimal number after a fixed prefix.\<close>

definition precondition_body ::
  "contact_lib \<Rightarrow> (int \<Rightarrow> string) \<Rightarrow> contact \<Rightarrow> contact_precondition \<Rightarrow> io \<Rightarrow> contacts_file
     \<Rightarrow> (io_error, (contact_error, contact) result) result \<times> contacts_file \<times> bool" where
  "precondition_body lib etag c p i f =
     (let existing = getLocked (UID c) f in
      if RequireAbsent p \<and> (\<exists>e. existing = Some e \<and> \<not> Deleted e) then (Inr (Inl ErrPreconditionFailed), f, False)
      else if RequireETag p \<noteq> [] \<and> (case existing of None \<Rightarrow> True | Some e \<Rightarrow> etag (Rev e) \<noteq> RequireETag p) then
        (Inr (Inl ErrPreconditionFailed), f, False)
      else
        (case existing of
           Some e \<Rightarrow> upsertLocked lib i (if KeepAbsentPGPKey p \<and> PGPKey c = [] then c\<lparr>PGPKey := PGPKey e\<rparr> else c) f
         | None \<Rightarrow> upsertLocked lib i c f))"

definition UpsertWithPrecondition ::
  "contact_lib \<Rightarrow> (int \<Rightarrow> string) \<Rightarrow> contact \<Rightarrow> contact_precondition \<Rightarrow> io \<Rightarrow> contact_store
     \<Rightarrow> (io_error, (contact_error, contact) result) result \<times> contact_store" where
  "UpsertWithPrecondition lib etag c p i s = mutate i (precondition_body lib etag c p i) s"

definition confirm_body ::
  "contact_lib \<Rightarrow> string \<Rightarrow> string \<Rightarrow> io \<Rightarrow> contacts_file
     \<Rightarrow> (io_error, (contact_error, contact) result option) result \<times> contacts_file \<times> bool" where
  "confirm_body lib uid fingerprint i f =
     (case getLocked uid f of
        None \<Rightarrow> (Inr None, f, False)
      | Some c \<Rightarrow>
          if Deleted c then (Inr None, f, False)
          else
            (let pin = PGPKeyFingerprint c in
             if pin = [] \<or> \<not> equal_fold (filter (\<lambda>x. x \<noteq> CHR '' '') fingerprint) pin \<or>
                \<not> equal_fold (pgpKeyFingerprint lib (PGPKey c)) pin then (Inr (Some (Inl ErrPGPKeyMismatch)), f, False)
             else map_prod (map_sum id Some) id (upsertLocked lib i (c\<lparr>PGPKeyVerified := True\<rparr>) f)))"

definition ConfirmPGPKey ::
  "contact_lib \<Rightarrow> string \<Rightarrow> string \<Rightarrow> io \<Rightarrow> contact_store
     \<Rightarrow> (io_error, (contact_error, contact) result option) result \<times> contact_store" where
  "ConfirmPGPKey lib uid fingerprint i s = mutate i (confirm_body lib uid fingerprint i) s"

definition photo_body :: "string \<Rightarrow> string \<Rightarrow> io \<Rightarrow> contacts_file \<Rightarrow> (io_error, contact option) result \<times> contacts_file \<times> bool" where
  "photo_body uid ref i f =
     (case index_of uid (cf_Contacts f) of
        None \<Rightarrow> (Inr None, f, False)
      | Some k \<Rightarrow>
          (let c = cf_Contacts f ! k; c' = c\<lparr>PhotoRef := ref, UpdatedAt := io_now i, Rev := Rev c + 1\<rparr> in
           (Inr (Some c'), put_at k c' f, True)))"

definition SetPhotoRef :: "string \<Rightarrow> string \<Rightarrow> io \<Rightarrow> contact_store \<Rightarrow> (io_error, contact option) result \<times> contact_store" where
  "SetPhotoRef uid ref i s = mutate i (photo_body uid ref i) s"

definition applyDeleteLocked :: "string \<Rightarrow> string \<Rightarrow> contacts_file \<Rightarrow> bool \<times> contacts_file" where
  "applyDeleteLocked now uid f =
     (case index_of uid (cf_Contacts f) of
        None \<Rightarrow> (False, f)
      | Some k \<Rightarrow>
          (let before = cf_Contacts f ! k;
               f1 = f\<lparr>cf_Seq := cf_Seq f + 1\<rparr>;
               f2 = bumpPGPKeyGenIfBindingChanged before (tombstone before) f1 in
           (True, put_at k ((tombstone before)\<lparr>Rev := cf_Seq f2, UpdatedAt := now\<rparr>) f2)))"

definition delete_contact_body :: "string \<Rightarrow> io \<Rightarrow> contacts_file \<Rightarrow> (io_error, bool) result \<times> contacts_file \<times> bool" where
  "delete_contact_body uid i f = (case applyDeleteLocked (io_now i) uid f of (ok, f') \<Rightarrow> (Inr ok, f', ok))"

definition Delete_contact :: "string \<Rightarrow> io \<Rightarrow> contact_store \<Rightarrow> (io_error, bool) result \<times> contact_store" where
  "Delete_contact uid i s = mutate i (delete_contact_body uid i) s"

text \<open>Writing a contact under the next revision, the last three lines of every flip of \<open>SetSelf\<close>.\<close>

definition set_self_at :: "string \<Rightarrow> nat \<Rightarrow> bool \<Rightarrow> contacts_file \<Rightarrow> contacts_file" where
  "set_self_at now k self f =
     put_at k ((cf_Contacts f ! k)\<lparr>IsSelf := self, Rev := cf_Seq f + 1, UpdatedAt := now\<rparr>) (f\<lparr>cf_Seq := cf_Seq f + 1\<rparr>)"

fun clear_others :: "string \<Rightarrow> nat \<Rightarrow> nat list \<Rightarrow> contacts_file \<Rightarrow> contacts_file \<times> bool" where
  "clear_others now idx [] f = (f, False)"
| "clear_others now idx (j # js) f =
     (if j \<noteq> idx \<and> IsSelf (cf_Contacts f ! j) then (fst (clear_others now idx js (set_self_at now j False f)), True)
      else clear_others now idx js f)"

definition self_body :: "string \<Rightarrow> bool \<Rightarrow> io \<Rightarrow> contacts_file \<Rightarrow> (io_error, contact option) result \<times> contacts_file \<times> bool" where
  "self_body uid self i f =
     (case index_of uid (cf_Contacts f) of
        None \<Rightarrow> (Inr None, f, False)
      | Some idx \<Rightarrow>
          (let (f1, ch1) = (if self then clear_others (io_now i) idx [0..<length (cf_Contacts f)] f else (f, False));
               (f2, ch2) = (if IsSelf (cf_Contacts f1 ! idx) \<noteq> self then (set_self_at (io_now i) idx self f1, True)
                            else (f1, ch1)) in
           (Inr (Some (cf_Contacts f2 ! idx)), f2, ch2)))"

definition SetSelf :: "string \<Rightarrow> bool \<Rightarrow> io \<Rightarrow> contact_store \<Rightarrow> (io_error, contact option) result \<times> contact_store" where
  "SetSelf uid self i s = mutate i (self_body uid self i) s"

section \<open>Deduplication\<close>

record dedupe_report =
  rep_MergedCount :: nat
  rep_Groups :: "(string \<times> string list) list"

text \<open>The live contacts, with their positions in the store.\<close>

definition live_indices :: "contacts_file \<Rightarrow> nat list" where
  "live_indices f = filter (\<lambda>k. \<not> Deleted (cf_Contacts f ! k)) [0..<length (cf_Contacts f)]"

definition live_contacts :: "contacts_file \<Rightarrow> contact list" where
  "live_contacts f = map (\<lambda>k. cf_Contacts f ! k) (live_indices f)"

definition byUID :: "contact list \<Rightarrow> nat list \<Rightarrow> nat list \<Rightarrow> string \<Rightarrow> nat option" where
  "byUID live liveIdx grp uid = map_option (\<lambda>gi. liveIdx ! gi) (List.find (\<lambda>gi. UID (live ! gi) = uid) grp)"

fun bury :: "string \<Rightarrow> (string \<Rightarrow> nat option) \<Rightarrow> string \<Rightarrow> string list \<Rightarrow> contacts_file \<Rightarrow> contacts_file option" where
  "bury now idx target [] f = Some f"
| "bury now idx target (uid # uids) f =
     (case idx uid of
        None \<Rightarrow> None
      | Some k \<Rightarrow>
          bury now idx target uids
            (put_at k ((tombstone (cf_Contacts f ! k))\<lparr>MergedInto := target, Rev := cf_Seq f + 1, UpdatedAt := now\<rparr>)
               (f\<lparr>cf_Seq := cf_Seq f + 1\<rparr>)))"

definition merge_into :: "string \<Rightarrow> (string \<Rightarrow> nat option) \<Rightarrow> contact \<Rightarrow> string list \<Rightarrow> contacts_file \<Rightarrow> contacts_file option" where
  "merge_into now idx survivor absorbed f =
     (case idx (UID survivor) of
        None \<Rightarrow> None
      | Some k \<Rightarrow>
          bury now idx (UID survivor) absorbed
            (put_at k (survivor\<lparr>Rev := cf_Seq f + 1, UpdatedAt := now\<rparr>) (f\<lparr>cf_Seq := cf_Seq f + 1\<rparr>)))"

fun dedupe_loop ::
  "contact_lib \<Rightarrow> string \<Rightarrow> contact list \<Rightarrow> nat list \<Rightarrow> nat list list \<Rightarrow> contacts_file \<times> (string \<times> string list) list
     \<Rightarrow> (contacts_file \<times> (string \<times> string list) list) option" where
  "dedupe_loop lib now live liveIdx [] st = Some st"
| "dedupe_loop lib now live liveIdx (grp # groups) (f, merges) =
     (let members = map (\<lambda>gi. live ! gi) grp in
      if \<not> groupShouldMerge members then dedupe_loop lib now live liveIdx groups (f, merges)
      else
        (case mergeGroup (lib_srt lib) members of
           (survivor, absorbed) \<Rightarrow>
             (case merge_into now (byUID live liveIdx grp) survivor absorbed f of
                None \<Rightarrow> None
              | Some f' \<Rightarrow> dedupe_loop lib now live liveIdx groups (f', merges @ [(UID survivor, absorbed)]))))"

definition dedupe_body :: "contact_lib \<Rightarrow> io \<Rightarrow> contacts_file \<Rightarrow> (io_error, dedupe_report) result \<times> contacts_file \<times> bool" where
  "dedupe_body lib i f =
     (case Option.bind (findDuplicateGroups (lib_rng lib) (live_contacts f))
             (\<lambda>groups. dedupe_loop lib (io_now i) (live_contacts f) (live_indices f) groups (f, [])) of
        None \<Rightarrow> (Inl RuntimePanic, f, False)
      | Some (f', merges) \<Rightarrow>
          (Inr \<lparr>rep_MergedCount = sum_list (map (\<lambda>m. length (snd m)) merges), rep_Groups = merges\<rparr>, f', merges \<noteq> []))"

definition Dedupe :: "contact_lib \<Rightarrow> io \<Rightarrow> contact_store \<Rightarrow> (io_error, dedupe_report) result \<times> contact_store" where
  "Dedupe lib i s = mutate i (dedupe_body lib i) s"

section \<open>Collection, batches and migration\<close>

text \<open>\<open>stale\<close>: the stored time parses and lies before the cutoff.\<close>

definition purgeable :: "(string \<Rightarrow> bool) \<Rightarrow> contact \<Rightarrow> bool" where
  "purgeable stale c \<longleftrightarrow> Deleted c \<and> stale (UpdatedAt c)"

definition gc_body :: "(string \<Rightarrow> bool) \<Rightarrow> contacts_file \<Rightarrow> (io_error, unit) result \<times> contacts_file \<times> bool" where
  "gc_body stale f =
     (let purged = filter (purgeable stale) (cf_Contacts f);
          f1 = f\<lparr>cf_GCHighWaterRev := fold (\<lambda>c m. if Rev c > m then Rev c else m) purged (cf_GCHighWaterRev f)\<rparr> in
      if purged = [] then (Inr (), f1, False)
      else (Inr (), f1\<lparr>cf_Contacts := filter (\<lambda>c. \<not> purgeable stale c) (cf_Contacts f)\<rparr>, True))"

definition GC :: "(string \<Rightarrow> bool) \<Rightarrow> io \<Rightarrow> contact_store \<Rightarrow> (io_error, unit) result \<times> contact_store" where
  "GC stale i s = mutate i (gc_body stale) s"

datatype batch_op = BatchDelete string | BatchUpsert contact

text \<open>Each change of a batch with the identifier it would draw and its time.\<close>

type_synonym batch_item = "batch_op \<times> string option \<times> string"

fun batch_loop :: "contact_lib \<Rightarrow> batch_item list \<Rightarrow> contacts_file \<Rightarrow> io_error option \<times> contacts_file" where
  "batch_loop lib [] f = (None, f)"
| "batch_loop lib ((BatchDelete uid, uuid, now) # ops) f = batch_loop lib ops (snd (applyDeleteLocked now uid f))"
| "batch_loop lib ((BatchUpsert c, uuid, now) # ops) f =
     (case applyUpsertLocked lib now uuid c f of
        (Inl e, f') \<Rightarrow> (Some e, f')
      | (Inr _, f') \<Rightarrow> batch_loop lib ops f')"

definition rollback :: "contacts_file \<Rightarrow> contacts_file \<Rightarrow> contacts_file" where
  "rollback prev f = f\<lparr>cf_Contacts := cf_Contacts prev, cf_Seq := cf_Seq prev\<rparr>"

definition batch_body :: "contact_lib \<Rightarrow> batch_item list \<Rightarrow> contacts_file \<Rightarrow> (io_error, unit) result \<times> contacts_file \<times> bool" where
  "batch_body lib ops f =
     (case batch_loop lib ops f of
        (Some e, f') \<Rightarrow> (Inl e, rollback f f', False)
      | (None, f') \<Rightarrow> (Inr (), f', True))"

definition ApplyBatch :: "contact_lib \<Rightarrow> batch_item list \<Rightarrow> io \<Rightarrow> contact_store \<Rightarrow> (io_error, unit) result \<times> contact_store" where
  "ApplyBatch lib ops i s =
     (if ops = [] then (Inr (), s)
      else
        (case mutate i (batch_body lib ops) s of
           (Inl WriteError, s') \<Rightarrow> (Inl WriteError, s'\<lparr>fs_mem := rollback (current s) (fs_mem s')\<rparr>)
         | r \<Rightarrow> r))"

fun strip_loop :: "contact_lib \<Rightarrow> io \<Rightarrow> contact list \<Rightarrow> contacts_file \<times> nat \<Rightarrow> io_error option \<times> contacts_file \<times> nat" where
  "strip_loop lib i [] (f, n) = (None, f, n)"
| "strip_loop lib i (c # cs) (f, n) =
     (if Deleted c \<or> PGPKey c = [] \<or> \<not> (\<exists>k. lib_key lib (PGPKey c) = Some k \<and> key_Private k) then strip_loop lib i cs (f, n)
      else
        (case applyUpsertLocked lib (io_now i) (io_uuid i) c f of
           (Inl e, f') \<Rightarrow> (Some e, f', n)
         | (Inr _, f') \<Rightarrow> strip_loop lib i cs (f', n + 1)))"

definition strip_body :: "contact_lib \<Rightarrow> io \<Rightarrow> contacts_file \<Rightarrow> (io_error, unit) result \<times> contacts_file \<times> bool" where
  "strip_body lib i f =
     (case strip_loop lib i (cf_Contacts f) (f, 0) of
        (Some e, f', n) \<Rightarrow> (Inl e, f', False)
      | (None, f', n) \<Rightarrow> (Inr (), f', n \<noteq> 0))"

definition stripPrivatePGPKeys :: "contact_lib \<Rightarrow> io \<Rightarrow> contact_store \<Rightarrow> (io_error, unit) result \<times> contact_store" where
  "stripPrivatePGPKeys lib i s = mutate i (strip_body lib i) s"

section \<open>Reads\<close>

definition reading :: "io \<Rightarrow> (contacts_file \<Rightarrow> 'r) \<Rightarrow> contact_store \<Rightarrow> (io_error, 'r) result \<times> contact_store" where
  "reading i answer s =
     (case refreshFromDisk i s of Inl e \<Rightarrow> (Inl e, s) | Inr s' \<Rightarrow> (Inr (answer (fs_mem s')), s'))"

definition List_contacts :: "io \<Rightarrow> contact_store \<Rightarrow> (io_error, contact list) result \<times> contact_store" where
  "List_contacts i s = reading i (\<lambda>f. filter (\<lambda>c. \<not> Deleted c) (cf_Contacts f)) s"

definition Get_contact :: "string \<Rightarrow> io \<Rightarrow> contact_store \<Rightarrow> (io_error, contact option) result \<times> contact_store" where
  "Get_contact uid i s = reading i (getLocked uid) s"

definition GetSelf :: "io \<Rightarrow> contact_store \<Rightarrow> (io_error, contact option) result \<times> contact_store" where
  "GetSelf i s = reading i (\<lambda>f. List.find (\<lambda>c. IsSelf c \<and> \<not> Deleted c) (cf_Contacts f)) s"

definition PGPKeyGeneration :: "io \<Rightarrow> contact_store \<Rightarrow> (io_error, int) result \<times> contact_store" where
  "PGPKeyGeneration i s = reading i cf_PGPKeyGen s"

record sync_reply =
  sr_changed :: "contact list"
  sr_deleted :: "contact list"
  sr_cursor :: int
  sr_tooOld :: bool

definition changed_since :: "int \<Rightarrow> contacts_file \<Rightarrow> sync_reply" where
  "changed_since since f =
     (let tooOld = (since > 0 \<and> since < cf_GCHighWaterRev f);
          newer = (if tooOld then [] else filter (\<lambda>c. \<not> Rev c \<le> since) (cf_Contacts f)) in
      \<lparr>sr_changed = filter (\<lambda>c. \<not> Deleted c) newer, sr_deleted = filter Deleted newer,
       sr_cursor = cf_Seq f, sr_tooOld = tooOld\<rparr>)"

definition ChangedSince :: "int \<Rightarrow> io \<Rightarrow> contact_store \<Rightarrow> (io_error, sync_reply) result \<times> contact_store" where
  "ChangedSince since i s = reading i (changed_since since) s"

text \<open>The rank of a match, the lower the better.\<close>

definition search_score :: "string \<Rightarrow> contact \<Rightarrow> nat option" where
  "search_score q c =
     (if has_prefix (to_lower (FormattedName c)) q then Some 0
      else if list_ex (\<lambda>e. has_prefix (to_lower (cv_Value e)) q) (Emails c) then Some 1
      else if contains_str (to_lower (FormattedName c)) q then Some 2
      else if contains_str (to_lower (GivenName c)) q \<or> contains_str (to_lower (FamilyName c)) q then Some 3
      else if list_ex (\<lambda>e. contains_str (to_lower (cv_Value e)) q) (Emails c) then Some 4
      else None)"

definition search_contacts :: "string \<Rightarrow> int \<Rightarrow> contacts_file \<Rightarrow> contact list" where
  "search_contacts query limit f =
     (let query' = trim_space query; q = to_lower query' in
      if query' = [] \<or> limit \<le> 0 then []
      else
        (let results = List.map_filter (\<lambda>c. if Deleted c then None else map_option (Pair c) (search_score q c)) (cf_Contacts f) in
         map fst (take (nat limit) (sort_key snd results))))"

definition Search :: "string \<Rightarrow> int \<Rightarrow> io \<Rightarrow> contact_store \<Rightarrow> (io_error, contact list) result \<times> contact_store" where
  "Search query limit i s = reading i (search_contacts query limit) s"

end
