(* ===== verification/Contact_Invariant.thy ===== *)
theory Contact_Invariant
  imports Contact_Store
begin

text \<open>
  Invariants of the address book. Every operation is made of a few writes: replacing a contact under the
  next revision, adding one, skipping a revision, counting a key change, collecting tombstones. A
  predicate that these keep is kept by every operation, whatever the file system does.
\<close>

section \<open>Facts on the writes\<close>

definition uids :: "contacts_file \<Rightarrow> string list" where
  "uids f = map UID (cf_Contacts f)"

definition next_seq :: "contacts_file \<Rightarrow> contacts_file" where
  "next_seq f = f\<lparr>cf_Seq := cf_Seq f + 1\<rparr>"

lemma put_at_sel [simp]:
  "cf_Contacts (put_at k c f) = (cf_Contacts f)[k := c]" "cf_Seq (put_at k c f) = cf_Seq f"
  "cf_GCHighWaterRev (put_at k c f) = cf_GCHighWaterRev f" "cf_PGPKeyGen (put_at k c f) = cf_PGPKeyGen f"
  by (simp_all add: put_at_def)

lemma append_contact_sel [simp]:
  "cf_Contacts (append_contact c f) = cf_Contacts f @ [c]" "cf_Seq (append_contact c f) = cf_Seq f"
  "cf_GCHighWaterRev (append_contact c f) = cf_GCHighWaterRev f" "cf_PGPKeyGen (append_contact c f) = cf_PGPKeyGen f"
  by (simp_all add: append_contact_def)

lemma next_seq_sel [simp]:
  "cf_Contacts (next_seq f) = cf_Contacts f" "cf_Seq (next_seq f) = cf_Seq f + 1"
  "cf_GCHighWaterRev (next_seq f) = cf_GCHighWaterRev f" "cf_PGPKeyGen (next_seq f) = cf_PGPKeyGen f"
  by (simp_all add: next_seq_def)

lemma bump_sel [simp]:
  "cf_Contacts (bumpPGPKeyGenIfBindingChanged a b f) = cf_Contacts f"
  "cf_Seq (bumpPGPKeyGenIfBindingChanged a b f) = cf_Seq f"
  "cf_GCHighWaterRev (bumpPGPKeyGenIfBindingChanged a b f) = cf_GCHighWaterRev f"
  by (simp_all add: bumpPGPKeyGenIfBindingChanged_def)

lemma next_seq_bump: "bumpPGPKeyGenIfBindingChanged a b (f\<lparr>cf_Seq := cf_Seq f + 1\<rparr>) = next_seq (bumpPGPKeyGenIfBindingChanged a b f)"
  by (cases f) (simp add: bumpPGPKeyGenIfBindingChanged_def next_seq_def)

lemma index_of_Some: "index_of uid cs = Some k \<Longrightarrow> k < length cs \<and> UID (cs ! k) = uid"
  by (induction cs arbitrary: k) (auto split: if_splits)

lemma index_of_None: "index_of uid cs = None \<longleftrightarrow> uid \<notin> UID ` set cs"
  by (induction cs) auto

lemma index_of_find: "List.find (\<lambda>c. UID c = uid) cs = map_option (\<lambda>k. cs ! k) (index_of uid cs)"
  by (induction cs) (auto simp: option.map_comp comp_def)

lemma getLocked_index: "getLocked uid f = map_option (\<lambda>k. cf_Contacts f ! k) (index_of uid (cf_Contacts f))"
  by (simp add: getLocked_def index_of_find)

lemma provenance_sel [simp]:
  "UID (carryPGPProvenance lib c e) = UID c" "IsSelf (carryPGPProvenance lib c e) = IsSelf c"
  "UID (keepUnconfirmedAutocrypt lib c e) = UID c" "IsSelf (keepUnconfirmedAutocrypt lib c e) = IsSelf c"
  "UID (pinPGPKeyFingerprint lib c) = UID c" "IsSelf (pinPGPKeyFingerprint lib c) = IsSelf c"
  by (simp_all add: carryPGPProvenance_def keepUnconfirmedAutocrypt_def pinPGPKeyFingerprint_def Let_def)

text \<open>What an upsert does to the file, in terms of the writes.\<close>

definition is_full :: "contacts_file \<Rightarrow> bool" where
  "is_full f \<longleftrightarrow> liveContactCountLocked f \<ge> MaxContactsPerUser"

inductive upsert_written :: "contact \<Rightarrow> string option \<Rightarrow> contacts_file \<Rightarrow> contacts_file \<Rightarrow> bool" for c0 uuid f where
  nothing: "upsert_written c0 uuid f f"
| no_uuid: "upsert_written c0 uuid f (next_seq (f\<lparr>cf_PGPKeyGen := g\<rparr>))"
| added: "Rev c = cf_Seq f + 1 \<Longrightarrow> IsSelf c = IsSelf c0 \<Longrightarrow> \<not> is_full f \<Longrightarrow>
     UID c0 = [] \<and> uuid = Some (UID c) \<or> UID c0 \<noteq> [] \<and> UID c = UID c0 \<and> UID c0 \<notin> set (uids f) \<Longrightarrow>
     upsert_written c0 uuid f (append_contact c (next_seq (f\<lparr>cf_PGPKeyGen := g\<rparr>)))"
| replaced: "k < length (cf_Contacts f) \<Longrightarrow> UID c = UID (cf_Contacts f ! k) \<Longrightarrow> Rev c = cf_Seq f + 1 \<Longrightarrow>
     IsSelf c = IsSelf (cf_Contacts f ! k) \<Longrightarrow> Deleted (cf_Contacts f ! k) \<longrightarrow> \<not> is_full f \<Longrightarrow>
     upsert_written c0 uuid f (put_at k c (next_seq (f\<lparr>cf_PGPKeyGen := g\<rparr>)))"

lemma incoming_sel [simp]: "UID (incoming lib c0 f) = UID c0" "IsSelf (incoming lib c0 f) = IsSelf c0"
  by (simp_all add: incoming_def Let_def split: option.split)

lemma count_key_change_gen: "\<exists>g. count_key_change c f = f\<lparr>cf_PGPKeyGen := g\<rparr>"
proof -
  have "\<exists>g. f = f\<lparr>cf_PGPKeyGen := g\<rparr>" by (rule exI [of _ "cf_PGPKeyGen f"]) simp
  then show ?thesis by (auto simp: count_key_change_def bumpPGPKeyGenIfBindingChanged_def split: option.split)
qed

lemma applyUpsertLocked_upserted: "upsert_written c0 uuid f (snd (applyUpsertLocked lib now uuid c0 f))"
proof -
  obtain g where g: "count_key_change (incoming lib c0 f) f = f\<lparr>cf_PGPKeyGen := g\<rparr>" using count_key_change_gen by blast
  let ?f2 = "next_seq (f\<lparr>cf_PGPKeyGen := g\<rparr>)"
  let ?c = "(incoming lib c0 f)\<lparr>Rev := cf_Seq f + 1, Deleted := False, UpdatedAt := now\<rparr>"
  show ?thesis
  proof (cases "(UID c0 = [] \<or> (case getLocked (UID c0) f of None \<Rightarrow> True | Some e \<Rightarrow> Deleted e)) \<and> is_full f")
    case True
    then show ?thesis by (auto simp: applyUpsertLocked_def is_full_def intro: upsert_written.nothing)
  next
    case room: False
    have eq: "applyUpsertLocked lib now uuid c0 f =
      (if UID c0 = [] then
         (case uuid of
            None \<Rightarrow> (Inl RandError, ?f2)
          | Some uid \<Rightarrow> (Inr (?c\<lparr>UID := uid, CreatedAt := now\<rparr>), append_contact (?c\<lparr>UID := uid, CreatedAt := now\<rparr>) ?f2))
       else (Inr (fst (write_contact now ?c ?f2)), snd (write_contact now ?c ?f2)))"
      unfolding applyUpsertLocked_def if_not_P [OF room [unfolded is_full_def]] by (simp add: g Let_def next_seq_def split: prod.split option.split)
    show ?thesis
    proof (cases "UID c0 = []")
      case True
      with room show ?thesis unfolding eq by (cases uuid) (auto intro!: upsert_written.no_uuid upsert_written.added)
    next
      case False
      show ?thesis
      proof (cases "index_of (UID c0) (cf_Contacts f)")
        case None
        moreover from None have "UID c0 \<notin> set (uids f)" by (simp add: index_of_None uids_def)
        ultimately show ?thesis
          using False room unfolding eq
          by (auto simp: write_contact_def Let_def getLocked_index intro!: upsert_written.added)
      next
        case (Some k)
        with room False index_of_Some [OF Some] show ?thesis unfolding eq
          by (auto simp: write_contact_def Let_def getLocked_index intro!: upsert_written.replaced)
      qed
    qed
  qed
qed

section \<open>Keys and pins\<close>

lemma upsert_key_of:
  assumes "applyUpsertLocked lib now uuid c f = (Inr c', f')"
  shows "key_of c' = key_of (incoming lib c f)"
  using assms
  by (auto simp: applyUpsertLocked_def write_contact_def Let_def key_of_def split: if_splits option.splits prod.splits)

lemma incoming_key: "PGPKey (incoming lib c f) = publicPGPKey lib (PGPKey c)"
  by (simp add: incoming_def Let_def pinPGPKeyFingerprint_def carryPGPProvenance_def keepUnconfirmedAutocrypt_def split: option.split)

lemma incoming_pinned:
  "pgpKeyFingerprint lib (PGPKey (incoming lib c f)) \<noteq> [] \<Longrightarrow> PGPKey (incoming lib c f) \<noteq> [] \<Longrightarrow>
     PGPKeyFingerprint (incoming lib c f) \<noteq> []"
  unfolding incoming_def Let_def pinPGPKeyFingerprint_def by (simp split: if_splits)

lemma incoming_carries:
  assumes "getLocked (UID c) f = Some e" and "PGPKey e \<noteq> []" and "PGPKeyFingerprint e \<noteq> []"
    and "publicPGPKey lib (PGPKey c) = PGPKey e" and "PGPKeyFingerprint c = []" and "PGPKeySource c = []" and "\<not> PGPKeyVerified c"
  shows "key_of (incoming lib c f) = key_of e"
  using assms
  by (simp add: incoming_def Let_def pinPGPKeyFingerprint_def carryPGPProvenance_def keepUnconfirmedAutocrypt_def key_of_def)

section \<open>Predicates that the writes keep\<close>

text \<open>
  A revision is given to each write in turn; a contact becomes the user's own card only when no other
  is, and comes to life only while there is room.
\<close>

definition may_write :: "nat \<Rightarrow> contact \<Rightarrow> contacts_file \<Rightarrow> bool" where
  "may_write k c f \<longleftrightarrow>
     k < length (cf_Contacts f) \<and> UID c = UID (cf_Contacts f ! k) \<and> Rev c = cf_Seq f + 1 \<and>
     (IsSelf c \<longrightarrow> IsSelf (cf_Contacts f ! k) \<or> (\<forall>j < length (cf_Contacts f). j \<noteq> k \<longrightarrow> \<not> IsSelf (cf_Contacts f ! j))) \<and>
     (\<not> Deleted c \<longrightarrow> \<not> Deleted (cf_Contacts f ! k) \<or> \<not> is_full f)"

locale contact_invariant =
  fixes P :: "contacts_file \<Rightarrow> bool"
  assumes distinct_uids: "P f \<Longrightarrow> distinct (uids f)"
    and nonempty_uids: "P f \<Longrightarrow> [] \<notin> set (uids f)"
    and keep_gen: "P f \<Longrightarrow> P (f\<lparr>cf_PGPKeyGen := g\<rparr>)"
    and keep_skip: "P f \<Longrightarrow> P (next_seq f)"
    and keep_write: "P f \<Longrightarrow> may_write k c f \<Longrightarrow> P (put_at k c (next_seq f))"
    and keep_add: "P f \<Longrightarrow> UID c \<noteq> [] \<Longrightarrow> UID c \<notin> set (uids f) \<Longrightarrow> Rev c = cf_Seq f + 1 \<Longrightarrow> \<not> IsSelf c \<Longrightarrow> \<not> is_full f
      \<Longrightarrow> P (append_contact c (next_seq f))"
    and keep_gc: "P f \<Longrightarrow> P (fst (snd (gc_body stale f)))"

text \<open>
  An upsert is as the callers make it: the identifier it draws is new, and a contact that is added is
  not marked as the user's own.
\<close>

definition upsert_ok :: "contact \<Rightarrow> string option \<Rightarrow> contacts_file \<Rightarrow> bool" where
  "upsert_ok c uuid f \<longleftrightarrow>
     (UID c = [] \<longrightarrow> (case uuid of None \<Rightarrow> True | Some u \<Rightarrow> u \<noteq> [] \<and> u \<notin> set (uids f))) \<and>
     (IsSelf c \<longrightarrow> UID c \<noteq> [] \<and> UID c \<in> set (uids f))"

fun batch_ok :: "contact_lib \<Rightarrow> batch_item list \<Rightarrow> contacts_file \<Rightarrow> bool" where
  "batch_ok lib [] f = True"
| "batch_ok lib ((BatchDelete uid, uuid, now) # ops) f = batch_ok lib ops (snd (applyDeleteLocked now uid f))"
| "batch_ok lib ((BatchUpsert c, uuid, now) # ops) f =
     (upsert_ok c uuid f \<and> batch_ok lib ops (snd (applyUpsertLocked lib now uuid c f)))"

lemma is_full_sel [simp]:
  "is_full (f\<lparr>cf_PGPKeyGen := g\<rparr>) = is_full f" "is_full (next_seq f) = is_full f" "is_full (f\<lparr>cf_Seq := n\<rparr>) = is_full f"
  by (simp_all add: is_full_def liveContactCountLocked_def)

lemma uids_sel [simp]:
  "uids (f\<lparr>cf_PGPKeyGen := g\<rparr>) = uids f" "uids (next_seq f) = uids f" "uids (append_contact c f) = uids f @ [UID c]"
  "uids (bumpPGPKeyGenIfBindingChanged a b f) = uids f"
  by (simp_all add: uids_def)

lemma uids_put_at: "UID c = UID (cf_Contacts f ! k) \<Longrightarrow> uids (put_at k c f) = uids f"
  by (cases "k < length (cf_Contacts f)") (simp_all add: uids_def map_update list_update_same_conv list_update_beyond)

lemma upserted_uids: "upsert_written c0 uuid f f' \<Longrightarrow> set (uids f) \<subseteq> set (uids f')"
  by (cases rule: upsert_written.cases) (auto simp: uids_put_at)

context contact_invariant
begin

lemma keep_upserted:
  assumes "P f" and "upsert_ok c0 uuid f" and "upsert_written c0 uuid f f'"
  shows "P f'"
  using assms(3)
proof (cases rule: upsert_written.cases)
  case nothing
  with assms show ?thesis by simp
next
  case (no_uuid g)
  with assms show ?thesis by (simp add: keep_skip keep_gen)
next
  case (added c g)
  have "UID c \<noteq> []" "UID c \<notin> set (uids f)" "\<not> IsSelf c" using added assms(2) by (auto simp: upsert_ok_def split: option.splits)
  with added keep_gen [OF assms(1), of g] show ?thesis by (auto intro!: keep_add)
next
  case (replaced k c g)
  then have "may_write k c (f\<lparr>cf_PGPKeyGen := g\<rparr>)" by (auto simp: may_write_def)
  with replaced keep_gen [OF assms(1), of g] show ?thesis by (auto intro!: keep_write)
qed

lemma keep_upsert: "P f \<Longrightarrow> upsert_ok c uuid f \<Longrightarrow> P (snd (applyUpsertLocked lib now uuid c f))"
  using keep_upserted applyUpsertLocked_upserted by blast

lemma keep_delete: "P f \<Longrightarrow> P (snd (applyDeleteLocked now uid f))"
proof (cases "index_of uid (cf_Contacts f)")
  case (Some k)
  let ?b = "cf_Contacts f ! k"
  let ?f1 = "bumpPGPKeyGenIfBindingChanged ?b (tombstone ?b) f"
  let ?c = "(tombstone ?b)\<lparr>Rev := cf_Seq f + 1, UpdatedAt := now\<rparr>"
  assume "P f"
  then have "P ?f1" by (simp add: bumpPGPKeyGenIfBindingChanged_def keep_gen)
  moreover have "may_write k ?c ?f1" using index_of_Some [OF Some] by (simp add: may_write_def)
  ultimately have "P (put_at k ?c (next_seq ?f1))" by (rule keep_write)
  then show ?thesis
    by (simp add: applyDeleteLocked_def Some Let_def next_seq_bump)
qed (simp add: applyDeleteLocked_def)

lemma keep_upsertLocked: "P f \<Longrightarrow> upsert_ok c (io_uuid i) f \<Longrightarrow> P (fst (snd (upsertLocked lib i c f)))"
  using keep_upsert [of f c "io_uuid i" lib "io_now i"] by (auto simp: upsertLocked_def split: prod.splits sum.splits)

lemma keep_batch: "P f \<Longrightarrow> batch_ok lib ops f \<Longrightarrow> P (snd (batch_loop lib ops f))"
proof (induction lib ops f rule: batch_loop.induct)
  case (3 lib c uuid now ops f)
  then have "P (snd (applyUpsertLocked lib now uuid c f))" by (simp add: keep_upsert)
  with 3 show ?case by (cases "applyUpsertLocked lib now uuid c f") (auto split: sum.split)
qed (auto simp: keep_delete)

lemma keep_strip:
  assumes "P f" and "UID ` set cs \<subseteq> set (uids f)"
  shows "P (fst (snd (strip_loop lib i cs (f, n))))"
  using assms
proof (induction cs arbitrary: f n)
  case (Cons c cs)
  let ?f = "snd (applyUpsertLocked lib (io_now i) (io_uuid i) c f)"
  have "UID c \<noteq> []" using Cons.prems nonempty_uids by auto
  then have ok: "upsert_ok c (io_uuid i) f" using Cons.prems(2) by (simp add: upsert_ok_def)
  have "UID ` set cs \<subseteq> set (uids ?f)" using upserted_uids [OF applyUpsertLocked_upserted] Cons.prems(2) by force
  with Cons.IH [of ?f] keep_upsert [OF Cons.prems(1) ok, of lib "io_now i"] Cons
  show ?case by (cases "applyUpsertLocked lib (io_now i) (io_uuid i) c f") (auto split: sum.split)
qed simp

end

section \<open>The own card\<close>

lemma set_self_at_eq:
  "set_self_at now k self f =
     put_at k ((cf_Contacts f ! k)\<lparr>IsSelf := self, Rev := cf_Seq f + 1, UpdatedAt := now\<rparr>) (next_seq f)"
  by (simp add: set_self_at_def next_seq_def)

lemma length_set_self_at [simp]: "length (cf_Contacts (set_self_at now k self f)) = length (cf_Contacts f)"
  by (simp add: set_self_at_eq)

lemma length_clear_others [simp]: "length (cf_Contacts (fst (clear_others now idx js f))) = length (cf_Contacts f)"
  by (induction now idx js f rule: clear_others.induct) simp_all

lemma clear_others_self:
  "j < length (cf_Contacts f) \<Longrightarrow> IsSelf (cf_Contacts (fst (clear_others now idx js f)) ! j) \<Longrightarrow>
     IsSelf (cf_Contacts f ! j) \<and> (j = idx \<or> j \<notin> set js)"
proof (induction now idx js f rule: clear_others.induct)
  case (2 now idx i js f)
  show ?case
  proof (cases "i \<noteq> idx \<and> IsSelf (cf_Contacts f ! i)")
    case True
    with 2 have "IsSelf (cf_Contacts (set_self_at now i False f) ! j) \<and> (j = idx \<or> j \<notin> set js)" by simp
    with 2(3) True show ?thesis by (cases "j = i") (simp_all add: set_self_at_eq)
  qed (use 2 in auto)
qed simp

context contact_invariant
begin

lemma keep_clear_others:
  "P f \<Longrightarrow> \<forall>j \<in> set js. j < length (cf_Contacts f) \<Longrightarrow> P (fst (clear_others now idx js f))"
proof (induction now idx js f rule: clear_others.induct)
  case (2 now idx j js f)
  then have "may_write j ((cf_Contacts f ! j)\<lparr>IsSelf := False, Rev := cf_Seq f + 1, UpdatedAt := now\<rparr>) f"
    by (simp add: may_write_def)
  with 2 show ?case by (simp add: set_self_at_eq keep_write)
qed simp

lemma keep_self: "P f \<Longrightarrow> P (fst (snd (self_body uid self i f)))"
proof (cases "index_of uid (cf_Contacts f)")
  case (Some idx)
  assume "P f"
  let ?f = "if self then fst (clear_others (io_now i) idx [0..<length (cf_Contacts f)] f) else f"
  have f: "P ?f" using \<open>P f\<close> by (simp add: keep_clear_others)
  have idx: "idx < length (cf_Contacts ?f)" using index_of_Some [OF Some] by simp
  have "\<not> IsSelf (cf_Contacts ?f ! j)" if "self" "j < length (cf_Contacts ?f)" "j \<noteq> idx" for j
    using that clear_others_self [of j f "io_now i" idx "[0..<length (cf_Contacts f)]"] by auto
  then have "may_write idx ((cf_Contacts ?f ! idx)\<lparr>IsSelf := self, Rev := cf_Seq ?f + 1, UpdatedAt := io_now i\<rparr>) ?f"
    using idx unfolding may_write_def by simp
  with f have "P (set_self_at (io_now i) idx self ?f)" unfolding set_self_at_eq by (rule keep_write)
  moreover have "fst (snd (self_body uid self i f)) = ?f \<or> fst (snd (self_body uid self i f)) = set_self_at (io_now i) idx self ?f"
    by (auto simp: self_body_def Some Let_def split: prod.split if_splits)
  ultimately show ?thesis using f by auto
qed (simp add: self_body_def)

end

end
