(* ===== verification/Contact_Dedupe.thy ===== *)
theory Contact_Dedupe
  imports Contact_Invariant
begin

text \<open>
  What \<open>Dedupe\<close> of \<open>backend/internal/contacts/store.go\<close> does to the address book: it never fails, every group
  that should merge becomes its survivor and tombstones, everything else is untouched, and a second
  run finds nothing to merge.
\<close>

section \<open>Positions\<close>

definition live_ok :: "contact list \<Rightarrow> nat list \<Rightarrow> bool" where
  "live_ok live li \<longleftrightarrow> length li = length live \<and> distinct li \<and> distinct (map UID live)"

definition grp_ok :: "contact list \<Rightarrow> nat list \<Rightarrow> bool" where
  "grp_ok live g \<longleftrightarrow> g \<noteq> [] \<and> distinct g \<and> (\<forall>x \<in> set g. x < length live)"

text \<open>The members of a group are still where they were.\<close>

definition intact :: "contact list \<Rightarrow> nat list \<Rightarrow> nat set \<Rightarrow> contacts_file \<Rightarrow> bool" where
  "intact live li G f \<longleftrightarrow> (\<forall>x \<in> G. li ! x < length (cf_Contacts f) \<and> cf_Contacts f ! (li ! x) = live ! x)"

lemma uid_inj: "live_ok live li \<Longrightarrow> x < length live \<Longrightarrow> y < length live \<Longrightarrow> UID (live ! x) = UID (live ! y) \<longleftrightarrow> x = y"
  unfolding live_ok_def by (metis length_map nth_eq_iff_index_eq nth_map)

lemma li_inj: "live_ok live li \<Longrightarrow> x < length live \<Longrightarrow> y < length live \<Longrightarrow> li ! x = li ! y \<longleftrightarrow> x = y"
  unfolding live_ok_def by (simp add: nth_eq_iff_index_eq)

lemma byUID_member:
  assumes "live_ok live li" and "grp_ok live g" and "x \<in> set g"
  shows "byUID live li g (UID (live ! x)) = Some (li ! x)"
proof -
  have "List.find (\<lambda>y. UID (live ! y) = UID (live ! x)) g = Some x"
    using assms(2,3)
  proof (induction g)
    case (Cons y g)
    then have "UID (live ! y) = UID (live ! x) \<longleftrightarrow> y = x" by (intro uid_inj [OF assms(1)]) (auto simp: grp_ok_def)
    with Cons show ?case by (cases "g = []") (auto simp: grp_ok_def)
  qed simp
  then show ?thesis by (simp add: byUID_def)
qed

section \<open>One group\<close>

definition buried :: "string \<Rightarrow> string \<Rightarrow> nat \<Rightarrow> contacts_file \<Rightarrow> contact" where
  "buried now target k f = (tombstone (cf_Contacts f ! k))\<lparr>MergedInto := target, Rev := cf_Seq f + 1, UpdatedAt := now\<rparr>"

lemma bury_Cons:
  "bury now idx target (uid # us) f =
     (case idx uid of None \<Rightarrow> None | Some k \<Rightarrow> bury now idx target us (put_at k (buried now target k f) (next_seq f)))"
  by (simp add: buried_def next_seq_def split: option.split)

lemma bury_effect:
  assumes "\<And>u. u \<in> set us \<Longrightarrow> \<exists>k. idx u = Some k \<and> k < length (cf_Contacts f)"
  shows "\<exists>f'. bury now idx target us f = Some f' \<and> length (cf_Contacts f') = length (cf_Contacts f) \<and>
    (\<forall>j. (\<forall>u \<in> set us. idx u \<noteq> Some j) \<longrightarrow> cf_Contacts f' ! j = cf_Contacts f ! j) \<and>
    (\<forall>u \<in> set us. \<forall>k. idx u = Some k \<longrightarrow> Deleted (cf_Contacts f' ! k))"
  using assms
proof (induction us arbitrary: f)
  case (Cons u us)
  obtain k where k: "idx u = Some k" "k < length (cf_Contacts f)" using Cons.prems by auto
  let ?f = "put_at k (buried now target k f) (next_seq f)"
  obtain f' where f': "bury now idx target us ?f = Some f'" "length (cf_Contacts f') = length (cf_Contacts f)"
    "\<And>j. (\<forall>u \<in> set us. idx u \<noteq> Some j) \<Longrightarrow> cf_Contacts f' ! j = cf_Contacts ?f ! j"
    "\<And>u k. u \<in> set us \<Longrightarrow> idx u = Some k \<Longrightarrow> Deleted (cf_Contacts f' ! k)"
    using Cons.IH [of ?f] Cons.prems by auto
  have "Deleted (cf_Contacts f' ! k)"
    using f'(3) [of k] f'(4) k by (cases "\<forall>u \<in> set us. idx u \<noteq> Some k") (auto simp: buried_def)
  with f' k show ?case by (auto simp: bury_Cons simp del: bury.simps)
qed simp

context contact_invariant
begin

lemma keep_bury:
  "P f \<Longrightarrow> (\<And>u k. idx u = Some k \<Longrightarrow> k < length (cf_Contacts f)) \<Longrightarrow> bury now idx target us f = Some f' \<Longrightarrow> P f'"
proof (induction us arbitrary: f)
  case (Cons u us)
  then obtain k where k: "idx u = Some k" "bury now idx target us (put_at k (buried now target k f) (next_seq f)) = Some f'"
    by (auto simp: bury_Cons simp del: bury.simps split: option.splits)
  have "may_write k (buried now target k f) f" using Cons.prems(2) [OF k(1)] by (simp add: may_write_def buried_def)
  with Cons.IH [OF keep_write [OF Cons.prems(1)] _ k(2)] Cons.prems(2) show ?case by simp
qed simp

end

text \<open>The merge of a group: its survivor stands where the oldest member stood.\<close>

definition written :: "string \<Rightarrow> contact \<Rightarrow> contacts_file \<Rightarrow> contact" where
  "written now s f = s\<lparr>Rev := cf_Seq f + 1, UpdatedAt := now\<rparr>"

lemma merge_into_eq:
  "merge_into now idx s absorbed f =
     (case idx (UID s) of None \<Rightarrow> None
      | Some k \<Rightarrow> bury now idx (UID s) absorbed (put_at k (written now s f) (next_seq f)))"
  by (simp add: merge_into_def written_def next_seq_def split: option.split)

lemma merge_members:
  assumes live: "live_ok live li" and g: "grp_ok live g" and srt: "sorts srt"
    and m: "mergeGroup srt (map (\<lambda>x. live ! x) g) = (s, absorbed)"
  obtains x where "x \<in> set g" "oldest_of srt (map (\<lambda>x. live ! x) g) = live ! x" "UID s = UID (live ! x)"
    "set absorbed = (\<lambda>y. UID (live ! y)) ` (set g - {x})"
proof -
  let ?ms = "map (\<lambda>x. live ! x) g"
  have ne: "?ms \<noteq> []" using g by (simp add: grp_ok_def)
  have "oldest_of srt ?ms \<in> set ?ms" unfolding oldest_of_def by (rule sorts_hd(1) [OF srt weak_order_older ne])
  then obtain x where x: "x \<in> set g" "oldest_of srt ?ms = live ! x" by auto
  have u: "UID s = UID (live ! x)" using mergeGroup_sel(1) [OF m] x(2) by simp
  have mem: "y \<in> set g \<Longrightarrow> y < length live" for y using g by (simp add: grp_ok_def)
  have "mset (UID s # absorbed) = mset (map UID ?ms)" by (rule mergeGroup_uids [OF m srt ne])
  moreover have "distinct (map UID ?ms)"
    using g mem uid_inj [OF live] by (auto simp: distinct_map inj_on_def grp_ok_def)
  ultimately have d: "distinct (UID s # absorbed)" "set (UID s # absorbed) = (\<lambda>y. UID (live ! y)) ` set g"
    using mset_eq_imp_distinct_iff [of "UID s # absorbed" "map UID ?ms"] mset_eq_setD [of "UID s # absorbed" "map UID ?ms"]
    by (auto simp: image_image)
  have "set absorbed = (\<lambda>y. UID (live ! y)) ` set g - {UID s}" using d by auto
  also have "\<dots> = (\<lambda>y. UID (live ! y)) ` (set g - {x})" using u x(1) uid_inj [OF live] mem by auto
  finally show thesis using that x u by blast
qed

lemma byUID_less:
  assumes "byUID live li g u = Some k" and "intact live li (set g) f"
  shows "k < length (cf_Contacts f)"
proof -
  from assms(1) obtain x where "List.find (\<lambda>x. UID (live ! x) = u) g = Some x" "k = li ! x" by (auto simp: byUID_def)
  then have "x \<in> set g" by (metis find_Some_iff nth_mem)
  with assms(2) \<open>k = li ! x\<close> show ?thesis by (simp add: intact_def)
qed

lemma merge_into_effect:
  assumes live: "live_ok live li" and g: "grp_ok live g" and srt: "sorts srt" and f: "intact live li (set g) f"
    and m: "mergeGroup srt (map (\<lambda>x. live ! x) g) = (s, absorbed)"
  obtains x f' where "x \<in> set g" "oldest_of srt (map (\<lambda>x. live ! x) g) = live ! x"
    "merge_into now (byUID live li g) s absorbed f = Some f'"
    "bury now (byUID live li g) (UID s) absorbed (put_at (li ! x) (written now s f) (next_seq f)) = Some f'"
    "length (cf_Contacts f') = length (cf_Contacts f)"
    "cf_Contacts f' ! (li ! x) = written now s f"
    "\<forall>y \<in> set g. y \<noteq> x \<longrightarrow> Deleted (cf_Contacts f' ! (li ! y))"
    "\<forall>j. j \<notin> (\<lambda>y. li ! y) ` set g \<longrightarrow> cf_Contacts f' ! j = cf_Contacts f ! j"
proof -
  let ?idx = "byUID live li g"
  obtain x where x: "x \<in> set g" "oldest_of srt (map (\<lambda>x. live ! x) g) = live ! x" "UID s = UID (live ! x)"
    "set absorbed = (\<lambda>y. UID (live ! y)) ` (set g - {x})" using merge_members [OF live g srt m] by blast
  let ?f = "put_at (li ! x) (written now s f) (next_seq f)"
  have idx: "?idx (UID (live ! y)) = Some (li ! y)" if "y \<in> set g" for y by (rule byUID_member [OF live g that])
  have less: "y \<in> set g \<Longrightarrow> li ! y < length (cf_Contacts f)" "y \<in> set g \<Longrightarrow> y < length live" for y
    using f g by (auto simp: intact_def grp_ok_def)
  have other: "?idx u \<noteq> Some (li ! x)" if "u \<in> set absorbed" for u
    using that idx x less(2) li_inj [OF live] by auto
  have all: "\<exists>k. ?idx u = Some k \<and> k < length (cf_Contacts ?f)" if "u \<in> set absorbed" for u
    using that x(4) idx less(1) by auto
  obtain f' where f': "bury now ?idx (UID s) absorbed ?f = Some f'" "length (cf_Contacts f') = length (cf_Contacts ?f)"
    "\<And>j. (\<forall>u \<in> set absorbed. ?idx u \<noteq> Some j) \<Longrightarrow> cf_Contacts f' ! j = cf_Contacts ?f ! j"
    "\<And>u k. u \<in> set absorbed \<Longrightarrow> ?idx u = Some k \<Longrightarrow> Deleted (cf_Contacts f' ! k)"
    using bury_effect [of absorbed ?idx ?f now "UID s", OF all] by auto
  show thesis
  proof (rule that [OF x(1,2) _ f'(1)])
    show "merge_into now ?idx s absorbed f = Some f'" by (simp add: merge_into_eq x(3) idx [OF x(1)] f'(1) [unfolded x(3)])
    show "length (cf_Contacts f') = length (cf_Contacts f)" using f'(2) by simp
    show "cf_Contacts f' ! (li ! x) = written now s f" using f'(3) [of "li ! x"] other less(1) [OF x(1)] by simp
    show "\<forall>y \<in> set g. y \<noteq> x \<longrightarrow> Deleted (cf_Contacts f' ! (li ! y))" using f'(4) idx x(4) by auto
    show "\<forall>j. j \<notin> (\<lambda>y. li ! y) ` set g \<longrightarrow> cf_Contacts f' ! j = cf_Contacts f ! j"
    proof (intro allI impI)
      fix j assume j: "j \<notin> (\<lambda>y. li ! y) ` set g"
      then have "\<forall>u \<in> set absorbed. ?idx u \<noteq> Some j" using idx x(4) by auto
      moreover have "li ! x \<noteq> j" using j x(1) by blast
      ultimately show "cf_Contacts f' ! j = cf_Contacts f ! j" using f'(3) [of j] by simp
    qed
  qed
qed

context contact_invariant
begin

lemma keep_merge_into:
  assumes P: "P f" and live: "live_ok live li" and g: "grp_ok live g" and srt: "sorts srt"
    and alive: "\<forall>x \<in> set g. \<not> Deleted (live ! x)" and f: "intact live li (set g) f"
    and m: "mergeGroup srt (map (\<lambda>x. live ! x) g) = (s, absorbed)"
    and f': "merge_into now (byUID live li g) s absorbed f = Some f'"
  shows "P f'"
proof -
  obtain x f'' where x: "x \<in> set g" "oldest_of srt (map (\<lambda>x. live ! x) g) = live ! x"
    "merge_into now (byUID live li g) s absorbed f = Some f''"
    "bury now (byUID live li g) (UID s) absorbed (put_at (li ! x) (written now s f) (next_seq f)) = Some f''"
    by (rule merge_into_effect [OF live g srt f m])
  have at: "li ! x < length (cf_Contacts f)" "cf_Contacts f ! (li ! x) = live ! x" using f x(1) by (auto simp: intact_def)
  have "may_write (li ! x) (written now s f) f"
    using at alive x(1,2) mergeGroup_sel(1,3,4) [OF m] by (simp add: may_write_def written_def)
  from keep_bury [OF keep_write [OF P this] _ x(4)] byUID_less [OF _ f] f' x(3) show ?thesis by simp
qed

end

section \<open>All groups\<close>

text \<open>
  What became of the group \<open>g\<close>: where it should merge, the survivor stands at one position and tombstones
  at the others; where it should not, nothing changed.
\<close>

definition group_settled :: "slice_sort \<Rightarrow> contact list \<Rightarrow> nat list \<Rightarrow> contacts_file \<Rightarrow> nat list \<Rightarrow> bool" where
  "group_settled srt live li f' g \<longleftrightarrow>
     (if groupShouldMerge (map (\<lambda>x. live ! x) g) then
        (\<exists>x \<in> set g. \<exists>r t. oldest_of srt (map (\<lambda>x. live ! x) g) = live ! x \<and>
           cf_Contacts f' ! (li ! x) = (fst (mergeGroup srt (map (\<lambda>x. live ! x) g)))\<lparr>Rev := r, UpdatedAt := t\<rparr> \<and>
           (\<forall>y \<in> set g. y \<noteq> x \<longrightarrow> Deleted (cf_Contacts f' ! (li ! y))))
      else (\<forall>x \<in> set g. cf_Contacts f' ! (li ! x) = live ! x))"

definition parts_ok :: "contact list \<Rightarrow> nat list list \<Rightarrow> bool" where
  "parts_ok live gs \<longleftrightarrow>
     (\<forall>g \<in> set gs. grp_ok live g) \<and> sorted_wrt (\<lambda>g h. set g \<inter> set h = {}) gs"

lemma group_settled_cong:
  assumes "\<And>x. x \<in> set g \<Longrightarrow> cf_Contacts f' ! (li ! x) = cf_Contacts f ! (li ! x)"
  shows "group_settled srt live li f' g = group_settled srt live li f g"
  using assms unfolding group_settled_def by (auto cong: bex_cong ball_cong)

lemma dedupe_loop_merges: "dedupe_loop lib now live li gs (f, merges) = Some (f', merges') \<Longrightarrow> \<exists>ms. merges' = merges @ ms"
proof (induction gs arbitrary: f merges)
  case (Cons g gs)
  then show ?case by (fastforce simp: Let_def split: if_splits prod.splits option.splits)
qed simp

lemma dedupe_loop_effect:
  assumes live: "live_ok live li" and srt: "sorts (lib_srt lib)" and "parts_ok live gs"
    and "intact live li (\<Union>g \<in> set gs. set g) f"
  shows "\<exists>f' merges'. dedupe_loop lib now live li gs (f, merges) = Some (f', merges') \<and>
    length (cf_Contacts f') = length (cf_Contacts f) \<and>
    (\<forall>j. (\<forall>g \<in> set gs. j \<notin> (\<lambda>y. li ! y) ` set g) \<longrightarrow> cf_Contacts f' ! j = cf_Contacts f ! j) \<and>
    (\<forall>g \<in> set gs. group_settled (lib_srt lib) live li f' g) \<and>
    (merges' = merges \<longleftrightarrow> (\<forall>g \<in> set gs. \<not> groupShouldMerge (map (\<lambda>x. live ! x) g)))"
  using assms(3,4)
proof (induction gs arbitrary: f merges)
  case (Cons g gs)
  let ?ms = "map (\<lambda>x. live ! x) g"
  have g: "grp_ok live g" and gs: "parts_ok live gs" and disj: "\<And>h. h \<in> set gs \<Longrightarrow> set g \<inter> set h = {}"
    using Cons.prems(1) by (auto simp: parts_ok_def)
  have fg: "intact live li (set g) f" and fgs: "intact live li (\<Union>g \<in> set gs. set g) f"
    using Cons.prems(2) by (auto simp: intact_def)
  have apart: "li ! x \<notin> (\<lambda>y. li ! y) ` set h" if "x \<in> set g" "h \<in> set gs" for x h
    using that disj [OF that(2)] g gs li_inj [OF live] by (auto simp: parts_ok_def grp_ok_def)
  show ?case
  proof (cases "groupShouldMerge ?ms")
    case False
    from Cons.IH [OF gs fgs, of merges] obtain f' merges' where IH:
      "dedupe_loop lib now live li gs (f, merges) = Some (f', merges')" "length (cf_Contacts f') = length (cf_Contacts f)"
      "\<And>j. (\<forall>g \<in> set gs. j \<notin> (\<lambda>y. li ! y) ` set g) \<Longrightarrow> cf_Contacts f' ! j = cf_Contacts f ! j"
      "\<forall>g \<in> set gs. group_settled (lib_srt lib) live li f' g"
      "merges' = merges \<longleftrightarrow> (\<forall>g \<in> set gs. \<not> groupShouldMerge (map (\<lambda>x. live ! x) g))" by blast
    have "group_settled (lib_srt lib) live li f' g"
      using IH(3) apart fg False unfolding group_settled_def intact_def by simp
    with IH False show ?thesis by simp
  next
    case True
    obtain s absorbed where m: "mergeGroup (lib_srt lib) ?ms = (s, absorbed)" by fastforce
    obtain x f1 where f1: "x \<in> set g" "oldest_of (lib_srt lib) ?ms = live ! x"
      "merge_into now (byUID live li g) s absorbed f = Some f1" "length (cf_Contacts f1) = length (cf_Contacts f)"
      "cf_Contacts f1 ! (li ! x) = written now s f" "\<forall>y \<in> set g. y \<noteq> x \<longrightarrow> Deleted (cf_Contacts f1 ! (li ! y))"
      "\<forall>j. j \<notin> (\<lambda>y. li ! y) ` set g \<longrightarrow> cf_Contacts f1 ! j = cf_Contacts f ! j"
      by (rule merge_into_effect [OF live g srt fg m])
    have away: "li ! y \<notin> (\<lambda>y. li ! y) ` set g" if "y \<in> set h" "h \<in> set gs" for y h
      using apart [OF _ that(2)] that(1) by (metis imageE imageI)
    have "intact live li (\<Union>g \<in> set gs. set g) f1"
      using fgs f1(4,7) away unfolding intact_def by auto
    from Cons.IH [OF gs this, of "merges @ [(UID s, absorbed)]"] obtain f' merges' where IH:
      "dedupe_loop lib now live li gs (f1, merges @ [(UID s, absorbed)]) = Some (f', merges')"
      "length (cf_Contacts f') = length (cf_Contacts f1)"
      "\<And>j. (\<forall>g \<in> set gs. j \<notin> (\<lambda>y. li ! y) ` set g) \<Longrightarrow> cf_Contacts f' ! j = cf_Contacts f1 ! j"
      "\<forall>g \<in> set gs. group_settled (lib_srt lib) live li f' g" by blast
    have "group_settled (lib_srt lib) live li f1 g"
      using True m f1(1,2,5,6) unfolding group_settled_def written_def by auto
    then have "group_settled (lib_srt lib) live li f' g"
      using group_settled_cong [of g f' li f1] IH(3) apart by blast
    moreover have "merges' \<noteq> merges" using dedupe_loop_merges [OF IH(1)] by auto
    ultimately show ?thesis using IH f1 True m by simp
  qed
qed (simp add: group_settled_def)

context contact_invariant
begin

lemma keep_dedupe_loop:
  assumes "P f" and live: "live_ok live li" and srt: "sorts (lib_srt lib)" and "parts_ok live gs"
    and alive: "\<forall>c \<in> set live. \<not> Deleted c" and "intact live li (\<Union>g \<in> set gs. set g) f"
    and "dedupe_loop lib now live li gs (f, merges) = Some (f', merges')"
  shows "P f'"
  using assms(1,4,6,7)
proof (induction gs arbitrary: f merges)
  case (Cons g gs)
  let ?ms = "map (\<lambda>x. live ! x) g"
  have g: "grp_ok live g" and gs: "parts_ok live gs" and disj: "\<And>h. h \<in> set gs \<Longrightarrow> set g \<inter> set h = {}"
    using Cons.prems(2) by (auto simp: parts_ok_def)
  have fg: "intact live li (set g) f" and fgs: "intact live li (\<Union>g \<in> set gs. set g) f"
    using Cons.prems(3) by (auto simp: intact_def)
  have away: "li ! x \<notin> (\<lambda>y. li ! y) ` set g" if "x \<in> set h" "h \<in> set gs" for x h
    using that disj [OF that(2)] g gs li_inj [OF live] by (auto simp: parts_ok_def grp_ok_def)
  show ?case
  proof (cases "groupShouldMerge ?ms")
    case False
    with Cons.IH [OF Cons.prems(1) gs fgs] Cons.prems(4) show ?thesis by simp
  next
    case True
    obtain s absorbed where m: "mergeGroup (lib_srt lib) ?ms = (s, absorbed)" by fastforce
    obtain f1 where f1: "merge_into now (byUID live li g) s absorbed f = Some f1" "length (cf_Contacts f1) = length (cf_Contacts f)"
      "\<forall>j. j \<notin> (\<lambda>y. li ! y) ` set g \<longrightarrow> cf_Contacts f1 ! j = cf_Contacts f ! j"
      by (rule merge_into_effect [OF live g srt fg m])
    have "\<forall>x \<in> set g. \<not> Deleted (live ! x)" using alive g by (simp add: grp_ok_def)
    then have "P f1" using keep_merge_into [OF Cons.prems(1) live g srt _ fg m f1(1)] by blast
    moreover have "intact live li (\<Union>g \<in> set gs. set g) f1" using fgs f1(2,3) away unfolding intact_def by auto
    ultimately show ?thesis using Cons.IH [of f1] gs Cons.prems(4) True m f1(1) by simp
  qed
qed simp

end

section \<open>The whole pass\<close>

lemma live_indices_facts:
  shows "distinct (live_indices f)" and "length (live_indices f) = length (live_contacts f)"
    and "x < length (live_contacts f) \<Longrightarrow> live_indices f ! x < length (cf_Contacts f)"
    and "x < length (live_contacts f) \<Longrightarrow> cf_Contacts f ! (live_indices f ! x) = live_contacts f ! x"
    and "c \<in> set (live_contacts f) \<Longrightarrow> \<not> Deleted c"
proof -
  show len: "length (live_indices f) = length (live_contacts f)" by (simp add: live_contacts_def)
  show "distinct (live_indices f)" by (simp add: live_indices_def)
  have mem: "k \<in> set (live_indices f) \<Longrightarrow> k < length (cf_Contacts f) \<and> \<not> Deleted (cf_Contacts f ! k)" for k
    by (auto simp: live_indices_def)
  show "x < length (live_contacts f) \<Longrightarrow> live_indices f ! x < length (cf_Contacts f)" using mem len by (metis nth_mem)
  show "x < length (live_contacts f) \<Longrightarrow> cf_Contacts f ! (live_indices f ! x) = live_contacts f ! x"
    by (simp add: live_contacts_def)
  show "c \<in> set (live_contacts f) \<Longrightarrow> \<not> Deleted c" using mem by (auto simp: live_contacts_def)
qed

lemma live_contacts_filter: "live_contacts f = filter (\<lambda>c. \<not> Deleted c) (cf_Contacts f)"
proof -
  have "filter (\<lambda>c. \<not> Deleted c) (map (\<lambda>k. cf_Contacts f ! k) [0..<length (cf_Contacts f)]) = live_contacts f"
    unfolding live_contacts_def live_indices_def filter_map by (simp add: comp_def)
  then show ?thesis by (simp add: map_nth)
qed

lemma live_ok_file: "distinct (uids f) \<Longrightarrow> live_ok (live_contacts f) (live_indices f)"
  unfolding live_ok_def using live_indices_facts(1,2) [of f] distinct_map_filter [of UID "cf_Contacts f"]
  by (simp add: uids_def live_contacts_filter)

lemma component_disjoint:
  "component cs i \<noteq> component cs j \<Longrightarrow> set (component cs i) \<inter> set (component cs j) = {}"
proof (rule ccontr)
  assume "component cs i \<noteq> component cs j" "set (component cs i) \<inter> set (component cs j) \<noteq> {}"
  then obtain k where "(i, k) \<in> linked cs" "(j, k) \<in> linked cs" by (auto simp: component_mem)
  with component_eq [of i k cs] component_eq [of j k cs] \<open>component cs i \<noteq> component cs j\<close> show False by simp
qed

lemma parts_ok_components: "parts_ok live (duplicate_components live)"
proof -
  have "grp_ok live g" if mem: "g \<in> set (duplicate_components live)" for g
  proof -
    obtain a where a: "g = component live a" "2 \<le> length g" using mem unfolding duplicate_components_set by auto
    then have "\<forall>x \<in> set g. x < length live" by (simp add: component_mem)
    moreover have "distinct g" unfolding a(1) component_def by simp
    ultimately show ?thesis using a(2) by (auto simp: grp_ok_def)
  qed
  moreover have "sorted_wrt (\<lambda>g h. set g \<inter> set h = {}) (duplicate_components live)"
    unfolding sorted_wrt_iff_nth_less
  proof (intro allI impI)
    fix i j assume ij: "i < j" "j < length (duplicate_components live)"
    let ?g = "duplicate_components live ! i" and ?h = "duplicate_components live ! j"
    have "?g \<noteq> ?h" using ij duplicate_components_sorted(2) [of live] by (simp add: nth_eq_iff_index_eq)
    moreover obtain a b where "?g = component live a" "?h = component live b"
      using ij nth_mem [of i "duplicate_components live"] nth_mem [of j "duplicate_components live"]
      unfolding duplicate_components_set by auto
    ultimately show "set ?g \<inter> set ?h = {}" using component_disjoint by simp
  qed
  ultimately show ?thesis by (simp add: parts_ok_def)
qed

lemma intact_start: "parts_ok (live_contacts f) gs \<Longrightarrow> intact (live_contacts f) (live_indices f) (\<Union>g \<in> set gs. set g) f"
  using live_indices_facts(3,4) [of _ f] by (auto simp: intact_def parts_ok_def grp_ok_def)

definition lib_ok :: "contact_lib \<Rightarrow> bool" where
  "lib_ok lib \<longleftrightarrow> (\<forall>xs. mset (lib_rng lib xs) = mset xs) \<and> sorts (lib_srt lib)"

context contact_invariant
begin

lemma keep_dedupe: "P f \<Longrightarrow> lib_ok lib \<Longrightarrow> P (fst (snd (dedupe_body lib i f)))"
proof -
  assume P: "P f" and lib: "lib_ok lib"
  let ?live = "live_contacts f" and ?gs = "duplicate_components (live_contacts f)"
  have gs: "findDuplicateGroups (lib_rng lib) ?live = Some ?gs"
    using lib by (intro groups_components) (simp add: lib_ok_def)
  have srt: "sorts (lib_srt lib)" using lib by (simp add: lib_ok_def)
  have alive: "\<forall>c \<in> set ?live. \<not> Deleted c" using live_indices_facts(5) by blast
  note ok = live_ok_file [OF distinct_uids [OF P]] and int = intact_start [OF parts_ok_components]
  obtain f' merges' where r: "dedupe_loop lib (io_now i) ?live (live_indices f) ?gs (f, []) = Some (f', merges')"
    using dedupe_loop_effect [OF ok srt parts_ok_components int] by blast
  from keep_dedupe_loop [OF P ok srt parts_ok_components alive int r] have "P f'" .
  with gs r show ?thesis by (simp add: dedupe_body_def)
qed

end

end
