(* ===== verification/Contact_Idempotent.thy ===== *)
theory Contact_Idempotent
  imports Contact_Dedupe
begin

text \<open>
  A second run of \<open>Dedupe\<close> merges nothing. The graph of the second run is a part of the graph of the
  first: a survivor has the keys and one of the names of its members, so whatever it is joined to now
  one of them was joined to before.
\<close>

section \<open>Paths under a renaming\<close>

lemma connected_image:
  assumes "(i, j) \<in> connected E" and "\<And>a b. (a, b) \<in> E \<Longrightarrow> (h a, h b) \<in> connected F"
  shows "(h i, h j) \<in> connected F"
  using assms(1) unfolding connected_def [of E]
proof (induction rule: rtrancl_induct)
  case (step y z)
  then have "(h y, h z) \<in> connected F" using assms(2) connected_sym by blast
  with step.IH show ?case by (rule connected_trans)
qed simp

lemma connected_within:
  assumes "(i, j) \<in> connected E" and "i \<in> C" and "\<And>a b. (a, b) \<in> E \<union> E\<inverse> \<Longrightarrow> a \<in> C \<Longrightarrow> b \<in> C"
    and "\<And>a b. (a, b) \<in> E \<Longrightarrow> a \<in> C \<Longrightarrow> b \<in> C \<Longrightarrow> (h a, h b) \<in> connected F"
  shows "j \<in> C \<and> (h i, h j) \<in> connected F"
  using assms(1) unfolding connected_def [of E]
proof (induction rule: rtrancl_induct)
  case (step y z)
  then have C: "y \<in> C" "z \<in> C" using assms(3) by blast+
  have "(h y, h z) \<in> connected F" using step(2) assms(4) C connected_sym by blast
  with step.IH C show ?case using connected_trans by blast
qed (use assms(2) in simp)

section \<open>What a survivor is joined by\<close>

text \<open>No contact has emails or phones that are all blank.\<close>

definition no_blank :: "contact \<Rightarrow> bool" where
  "no_blank c \<longleftrightarrow> (matchKeys c = [] \<longrightarrow> otherwiseEmpty c)"

lemma firstNonEmpty_mem: "firstNonEmpty cs g \<noteq> [] \<Longrightarrow> \<exists>c \<in> set cs. g c = firstNonEmpty cs g"
proof (cases "List.find (\<lambda>c. g c \<noteq> []) cs")
  case (Some c)
  then have "c \<in> set cs" by (metis find_Some_iff nth_mem)
  with Some show ?thesis by (auto simp: firstNonEmpty_def)
qed (simp add: firstNonEmpty_def)

lemma normalizeName_cong: "FormattedName c = FormattedName d \<Longrightarrow> normalizeName c = normalizeName d"
  by (simp add: normalizeName_def)

lemma normalizeName_blank: "FormattedName c = [] \<Longrightarrow> normalizeName c = []"
  by (simp add: normalizeName_def)

lemma merged_name:
  assumes m: "mergeGroup srt ms = (s, absorbed)" and srt: "sorts srt" and "normalizeName s \<noteq> []"
  shows "\<exists>c \<in> set ms. normalizeName c = normalizeName s"
proof -
  have "FormattedName s \<noteq> []" using assms(3) normalizeName_blank by blast
  then obtain c where "c \<in> set (srt newerThan ms)" "FormattedName c = FormattedName s"
    using firstNonEmpty_mem unfolding mergeGroup_sel(6) [OF m] by metis
  then show ?thesis using sorts_set [OF srt] normalizeName_cong by metis
qed

lemma matchKeys_blank: "otherwiseEmpty c \<Longrightarrow> matchKeys c = []"
  by (simp add: otherwiseEmpty_def matchKeys_def)

lemma merged_empty:
  assumes m: "mergeGroup srt ms = (s, absorbed)" and blank: "\<forall>c \<in> set ms. no_blank c" and "otherwiseEmpty s" and "c \<in> set ms"
  shows "otherwiseEmpty c"
proof -
  have "set (matchKeys c) \<subseteq> set (matchKeys s)" using mergeGroup_keys [OF m] assms(4) by auto
  with matchKeys_blank [OF assms(3)] blank assms(4) show ?thesis by (simp add: no_blank_def)
qed

text \<open>
  \<open>stands_for ms d\<close>: the contact \<open>d\<close> is joined to others only by what one of the contacts \<open>ms\<close> has.
\<close>

definition stands_for :: "contact list \<Rightarrow> contact \<Rightarrow> bool" where
  "stands_for ms d \<longleftrightarrow>
     set (matchKeys d) \<subseteq> (\<Union>c \<in> set ms. set (matchKeys c)) \<and>
     (normalizeName d \<noteq> [] \<longrightarrow> (\<exists>c \<in> set ms. normalizeName c = normalizeName d)) \<and>
     (otherwiseEmpty d \<longrightarrow> (\<forall>c \<in> set ms. otherwiseEmpty c))"

lemma stands_for_self: "stands_for [c] c"
  by (simp add: stands_for_def)

lemma stands_for_merged:
  assumes "mergeGroup srt ms = (s, absorbed)" and "sorts srt" and "\<forall>c \<in> set ms. no_blank c"
  shows "stands_for ms (s\<lparr>Rev := r, UpdatedAt := t\<rparr>)"
proof -
  have [simp]: "matchKeys (s\<lparr>Rev := r, UpdatedAt := t\<rparr>) = matchKeys s"
    "normalizeName (s\<lparr>Rev := r, UpdatedAt := t\<rparr>) = normalizeName s"
    "otherwiseEmpty (s\<lparr>Rev := r, UpdatedAt := t\<rparr>) = otherwiseEmpty s"
    by (simp_all add: matchKeys_def normalizeName_def otherwiseEmpty_def)
  show ?thesis unfolding stands_for_def
    using mergeGroup_keys [OF assms(1)] merged_name [OF assms(1,2)] merged_empty [OF assms(1,3)] by simp
qed

lemma stands_for_joined:
  assumes "stands_for ms c" and "stands_for ns d" and "share_key c d \<or> share_name c d"
  shows "\<exists>m \<in> set ms. \<exists>n \<in> set ns. share_key m n \<or> share_name m n"
  using assms(3)
proof
  assume "share_key c d"
  then obtain k where "k \<in> set (matchKeys c)" "k \<in> set (matchKeys d)" by (auto simp: share_key_def)
  with assms(1,2) obtain m n where "m \<in> set ms" "k \<in> set (matchKeys m)" "n \<in> set ns" "k \<in> set (matchKeys n)"
    unfolding stands_for_def by blast
  then show ?thesis unfolding share_key_def by blast
next
  assume s: "share_name c d"
  then obtain m n where "m \<in> set ms" "n \<in> set ns" "normalizeName m = normalizeName c" "normalizeName n = normalizeName d"
    using assms(1,2) unfolding stands_for_def share_name_def by metis
  moreover from this s have "otherwiseEmpty m \<or> otherwiseEmpty n"
    using assms(1,2) unfolding stands_for_def share_name_def by blast
  ultimately show ?thesis using s unfolding share_name_def by metis
qed

section \<open>The live contacts of the second run\<close>

definition kept :: "contacts_file \<Rightarrow> nat list \<Rightarrow> nat list" where
  "kept f' li = filter (\<lambda>x. \<not> Deleted (cf_Contacts f' ! (li ! x))) [0..<length li]"

lemma live_indices_kept:
  assumes "length (cf_Contacts f') = length (cf_Contacts f)"
    and "\<And>k. k < length (cf_Contacts f) \<Longrightarrow> Deleted (cf_Contacts f ! k) \<Longrightarrow> Deleted (cf_Contacts f' ! k)"
  shows "live_indices f' = map (\<lambda>x. live_indices f ! x) (kept f' (live_indices f))"
proof -
  have "live_indices f' = filter (\<lambda>k. \<not> Deleted (cf_Contacts f' ! k)) (live_indices f)"
    unfolding live_indices_def filter_filter assms(1) by (rule filter_cong) (use assms(2) in auto)
  also have "\<dots> = filter (\<lambda>k. \<not> Deleted (cf_Contacts f' ! k)) (map (\<lambda>x. live_indices f ! x) [0..<length (live_indices f)])"
    by (simp add: map_nth)
  finally show ?thesis unfolding kept_def filter_map by (simp add: comp_def)
qed

text \<open>What is left of a component: the survivor where it was merged, all its members where it was not.\<close>

definition left_over :: "contacts_file \<Rightarrow> nat list \<Rightarrow> contact list \<Rightarrow> bool" where
  "left_over f' li live \<longleftrightarrow>
     (\<forall>x < length live. \<not> Deleted (cf_Contacts f' ! (li ! x)) \<longrightarrow>
        stands_for (map (\<lambda>y. live ! y) (component live x)) (cf_Contacts f' ! (li ! x)) \<and>
        (\<forall>y \<in> set (component live x). y \<noteq> x \<longrightarrow> Deleted (cf_Contacts f' ! (li ! y))) \<or>
        (\<forall>y \<in> set (component live x). cf_Contacts f' ! (li ! y) = live ! y) \<and>
        (2 \<le> length (component live x) \<longrightarrow> \<not> groupShouldMerge (map (\<lambda>y. live ! y) (component live x))))"

lemma component_self: "x < length live \<Longrightarrow> x \<in> set (component live x)"
  by (simp add: component_mem)

lemma left_over_stands:
  assumes "left_over f' li live" and "x < length live" and "\<not> Deleted (cf_Contacts f' ! (li ! x))"
  obtains xs where "set xs \<subseteq> set (component live x)" "stands_for (map (\<lambda>y. live ! y) xs) (cf_Contacts f' ! (li ! x))"
proof -
  from assms consider "stands_for (map (\<lambda>y. live ! y) (component live x)) (cf_Contacts f' ! (li ! x))"
    | "\<forall>y \<in> set (component live x). cf_Contacts f' ! (li ! y) = live ! y"
    unfolding left_over_def by blast
  then show thesis
  proof cases
    case 1
    then show thesis using that by blast
  next
    case 2
    then have "cf_Contacts f' ! (li ! x) = live ! x" using component_self [OF assms(2)] by blast
    then show thesis using that [of "[x]"] component_self [OF assms(2)] stands_for_self by simp
  qed
qed

text \<open>The second graph lies in the first.\<close>

lemma second_edge:
  assumes lo: "left_over f' li live" and x: "x < length live" "\<not> Deleted (cf_Contacts f' ! (li ! x))"
    and y: "y < length live" "\<not> Deleted (cf_Contacts f' ! (li ! y))"
    and e: "share_key (cf_Contacts f' ! (li ! x)) (cf_Contacts f' ! (li ! y)) \<or>
            share_name (cf_Contacts f' ! (li ! x)) (cf_Contacts f' ! (li ! y))"
  shows "(x, y) \<in> linked live"
proof -
  obtain xs where xs: "set xs \<subseteq> set (component live x)" "stands_for (map (\<lambda>y. live ! y) xs) (cf_Contacts f' ! (li ! x))"
    using left_over_stands [OF lo x] by blast
  obtain ys where ys: "set ys \<subseteq> set (component live y)" "stands_for (map (\<lambda>y. live ! y) ys) (cf_Contacts f' ! (li ! y))"
    using left_over_stands [OF lo y] by blast
  from stands_for_joined [OF xs(2) ys(2) e] obtain m n where mn: "m \<in> set xs" "n \<in> set ys"
    "share_key (live ! m) (live ! n) \<or> share_name (live ! m) (live ! n)" by auto
  then have m: "m < length live" "(x, m) \<in> linked live" and n: "n < length live" "(y, n) \<in> linked live"
    using xs(1) ys(1) by (auto simp: component_mem)
  have "(m, n) \<in> key_edges live \<union> name_edges live" using mn(3) m(1) n(1) by (auto simp: key_edges_def name_edges_def)
  then have "(m, n) \<in> linked live" unfolding linked_def by (rule connected_edge)
  then show ?thesis using m(2) n(2) linked_trans linked_sym by metis
qed

lemma edge_iff:
  "(a, b) \<in> key_edges cs \<union> name_edges cs \<longleftrightarrow>
     a < length cs \<and> b < length cs \<and> (share_key (cs ! a) (cs ! b) \<or> share_name (cs ! a) (cs ! b))"
  by (auto simp: key_edges_def name_edges_def)

lemma linked_edge: "(a, b) \<in> key_edges cs \<union> name_edges cs \<Longrightarrow> (a, b) \<in> linked cs"
  unfolding linked_def by (rule connected_edge)

definition second_book :: "contacts_file \<Rightarrow> nat list \<Rightarrow> contact list" where
  "second_book f' li = map (\<lambda>x. cf_Contacts f' ! (li ! x)) (kept f' li)"

lemma second_linked:
  assumes lo: "left_over f' li live" and len: "length li = length live" and "(i, j) \<in> linked (second_book f' li)"
  shows "(kept f' li ! i, kept f' li ! j) \<in> linked live"
  using assms(3) unfolding linked_def
proof (rule connected_image)
  fix a b assume "(a, b) \<in> key_edges (second_book f' li) \<union> name_edges (second_book f' li)"
  then have ab: "a < length (kept f' li)" "b < length (kept f' li)"
    "share_key (second_book f' li ! a) (second_book f' li ! b) \<or> share_name (second_book f' li ! a) (second_book f' li ! b)"
    unfolding edge_iff by (auto simp: second_book_def)
  have mem: "y < length live \<and> \<not> Deleted (cf_Contacts f' ! (li ! y))" if "y \<in> set (kept f' li)" for y
    using that len by (simp add: kept_def)
  from ab(3) have e: "share_key (cf_Contacts f' ! (li ! (kept f' li ! a))) (cf_Contacts f' ! (li ! (kept f' li ! b))) \<or>
      share_name (cf_Contacts f' ! (li ! (kept f' li ! a))) (cf_Contacts f' ! (li ! (kept f' li ! b)))"
    using ab(1,2) by (simp add: second_book_def)
  show "(kept f' li ! a, kept f' li ! b) \<in> connected (key_edges live \<union> name_edges live)"
    unfolding linked_def [symmetric]
    using mem [OF nth_mem [OF ab(1)]] mem [OF nth_mem [OF ab(2)]] e by (intro second_edge [OF lo]) blast+
qed

text \<open>Where a component was not merged, the second run sees the same component.\<close>

lemma second_component:
  assumes lo: "left_over f' li live" and len: "length li = length live" and i: "i < length (kept f' li)"
    and same: "\<forall>y \<in> set (component live (kept f' li ! i)). cf_Contacts f' ! (li ! y) = live ! y"
    and alive: "\<forall>c \<in> set live. \<not> Deleted c"
  shows "map (\<lambda>j. second_book f' li ! j) (component (second_book f' li) i) = map (\<lambda>y. live ! y) (component live (kept f' li ! i))"
proof -
  let ?ks = "kept f' li" and ?live' = "second_book f' li"
  let ?x = "?ks ! i"
  let ?C = "set (component live ?x)"
  have x: "?x < length live" using nth_mem [OF i] len by (auto simp: kept_def)
  have C_kept: "y \<in> set ?ks" if "y \<in> ?C" for y
  proof -
    have "y < length live" using that by (simp add: component_mem)
    moreover from this have "\<not> Deleted (live ! y)" using alive by simp
    ultimately show ?thesis using bspec [OF same that] len by (simp add: kept_def)
  qed
  define g where "g y = (SOME j. j < length ?ks \<and> ?ks ! j = y)" for y
  have g: "g y < length ?ks \<and> ?ks ! g y = y" if "y \<in> set ?ks" for y
    unfolding g_def by (rule someI_ex) (use that in \<open>auto simp: in_set_conv_nth\<close>)
  have d: "distinct ?ks" by (simp add: kept_def)
  have gi: "g (?ks ! j) = j" if "j < length ?ks" for j
    using g [OF nth_mem [OF that]] nth_eq_iff_index_eq [OF d _ that] by blast
  have fwd: "(i, j) \<in> linked ?live'" if "j < length ?ks" "(?x, ?ks ! j) \<in> linked live" for j
  proof -
    have "?ks ! j \<in> ?C \<and> (g ?x, g (?ks ! j)) \<in> connected (key_edges ?live' \<union> name_edges ?live')"
    proof (rule connected_within [OF that(2) [unfolded linked_def]])
      show "?x \<in> ?C" using x by (rule component_self)
      show "b \<in> ?C" if "(a, b) \<in> key_edges live \<union> name_edges live \<union> (key_edges live \<union> name_edges live)\<inverse>" "a \<in> ?C" for a b
      proof -
        have "(a, b) \<in> linked live" "b < length live"
          using that(1) linked_edge [of a b live] linked_sym [OF linked_edge [of b a live]] edge_iff [of a b live] edge_iff [of b a live]
          by blast+
        with that(2) show ?thesis by (auto simp: component_mem intro: linked_trans)
      qed
      show "(g a, g b) \<in> connected (key_edges ?live' \<union> name_edges ?live')"
        if "(a, b) \<in> key_edges live \<union> name_edges live" "a \<in> ?C" "b \<in> ?C" for a b
      proof (rule connected_edge)
        have "g a < length ?ks" "?live' ! g a = live ! a" "g b < length ?ks" "?live' ! g b = live ! b"
          using g [OF C_kept [OF that(2)]] g [OF C_kept [OF that(3)]] same that by (simp_all add: second_book_def)
        with that(1) show "(g a, g b) \<in> key_edges ?live' \<union> name_edges ?live'" unfolding edge_iff by (simp add: second_book_def)
      qed
    qed
    then show ?thesis using gi i that(1) by (simp add: linked_def)
  qed
  have "map (\<lambda>j. ?ks ! j) (component ?live' i) = map (\<lambda>j. ?ks ! j) (filter (\<lambda>j. (?x, ?ks ! j) \<in> linked live) [0..<length ?ks])"
    unfolding component_def using fwd second_linked [OF lo len, of i]
    by (intro arg_cong [of _ _ "map _"] filter_cong) (auto simp: second_book_def)
  also have "\<dots> = filter (\<lambda>y. (?x, y) \<in> linked live) (map (\<lambda>j. ?ks ! j) [0..<length ?ks])" by (simp add: filter_map comp_def)
  also have "\<dots> = filter (\<lambda>y. (?x, y) \<in> linked live) ?ks" by (simp add: map_nth)
  also have "\<dots> = component live ?x"
    unfolding kept_def [of f' li, THEN arg_cong [of _ _ "filter _"]] component_def len filter_filter
  proof (rule filter_cong [OF refl])
    fix y assume "y \<in> set [0..<length live]"
    then show "(\<not> Deleted (cf_Contacts f' ! (li ! y)) \<and> (?x, y) \<in> linked live) = ((?x, y) \<in> linked live)"
      using C_kept [of y] by (auto simp: component_mem kept_def)
  qed
  finally have eq: "map (\<lambda>j. ?ks ! j) (component ?live' i) = component live ?x" .
  have "map (\<lambda>j. ?live' ! j) (component ?live' i) = map (\<lambda>y. cf_Contacts f' ! (li ! y)) (map (\<lambda>j. ?ks ! j) (component ?live' i))"
    by (simp add: second_book_def component_mem)
  also have "\<dots> = map (\<lambda>y. live ! y) (component live ?x)" unfolding eq using same by simp
  finally show ?thesis .
qed

lemma second_groups:
  assumes lo: "left_over f' li live" and len: "length li = length live" and alive: "\<forall>c \<in> set live. \<not> Deleted c"
    and g: "g \<in> set (duplicate_components (second_book f' li))"
  shows "\<not> groupShouldMerge (map (\<lambda>j. second_book f' li ! j) g)"
proof -
  let ?ks = "kept f' li"
  obtain i where i: "g = component (second_book f' li) i" "i < length ?ks" "2 \<le> length g"
    using g unfolding duplicate_components_set by (auto simp: second_book_def)
  have dg: "distinct g" unfolding i(1) component_def by simp
  have "\<not> set g \<subseteq> {i}" using card_mono [of "{i}" "set g"] distinct_card [OF dg] i(3) by auto
  then obtain j where "j \<in> set g" "j \<noteq> i" by blast
  then have j: "j < length ?ks" "j \<noteq> i" "(i, j) \<in> linked (second_book f' li)" using i(1) by (auto simp: component_mem second_book_def)
  have kept: "y < length live \<and> \<not> Deleted (cf_Contacts f' ! (li ! y))" if "y \<in> set ?ks" for y
    using that len by (simp add: kept_def)
  note xi = kept [OF nth_mem [OF i(2)]] and xj = kept [OF nth_mem [OF j(1)]]
  have "?ks ! j \<noteq> ?ks ! i" using j(2) nth_eq_iff_index_eq [OF _ j(1) i(2)] by (simp add: kept_def)
  moreover have "?ks ! j \<in> set (component live (?ks ! i))"
    using second_linked [OF lo len j(3)] xj by (simp add: component_mem)
  ultimately have same: "\<forall>y \<in> set (component live (?ks ! i)). cf_Contacts f' ! (li ! y) = live ! y"
    and no: "2 \<le> length (component live (?ks ! i)) \<longrightarrow> \<not> groupShouldMerge (map (\<lambda>y. live ! y) (component live (?ks ! i)))"
    using lo xi xj unfolding left_over_def by blast+
  note eq = second_component [OF lo len i(2) same alive]
  from arg_cong [OF eq, of length] i have "2 \<le> length (component live (?ks ! i))" by simp
  with no show ?thesis unfolding i(1) eq by blast
qed

section \<open>The first run leaves this\<close>

lemma component_in_groups:
  assumes "g \<in> set (duplicate_components cs)" and "x \<in> set g"
  shows "component cs x = g" and "2 \<le> length g"
  using assms unfolding duplicate_components_set by (auto simp: component_mem component_eq)

lemma left_over_settled:
  assumes srt: "sorts srt" and blank: "\<forall>c \<in> set live. no_blank c" and live: "live_ok live li"
    and group_settled: "\<forall>g \<in> set (duplicate_components live). group_settled srt live li f' g"
    and rest: "\<forall>j. (\<forall>g \<in> set (duplicate_components live). j \<notin> (\<lambda>y. li ! y) ` set g) \<longrightarrow> cf_Contacts f' ! j = cf_Contacts f ! j"
    and start: "\<And>x. x < length live \<Longrightarrow> cf_Contacts f ! (li ! x) = live ! x"
  shows "left_over f' li live"
  unfolding left_over_def
proof (intro allI impI)
  fix x assume x: "x < length live" "\<not> Deleted (cf_Contacts f' ! (li ! x))"
  let ?g = "component live x" and ?ms = "map (\<lambda>y. live ! y) (component live x)"
  have xg: "x \<in> set ?g" by (rule component_self [OF x(1)])
  show "stands_for ?ms (cf_Contacts f' ! (li ! x)) \<and> (\<forall>y \<in> set ?g. y \<noteq> x \<longrightarrow> Deleted (cf_Contacts f' ! (li ! y))) \<or>
     (\<forall>y \<in> set ?g. cf_Contacts f' ! (li ! y) = live ! y) \<and> (2 \<le> length ?g \<longrightarrow> \<not> groupShouldMerge ?ms)"
  proof (cases "2 \<le> length ?g")
    case True
    then have "?g \<in> set (duplicate_components live)" unfolding duplicate_components_set using x(1) by blast
    with group_settled have s: "group_settled srt live li f' ?g" by blast
    show ?thesis
    proof (cases "groupShouldMerge ?ms")
      case False
      with s show ?thesis by (simp add: group_settled_def)
    next
      case merge: True
      obtain z r t where z: "cf_Contacts f' ! (li ! z) = (fst (mergeGroup srt ?ms))\<lparr>Rev := r, UpdatedAt := t\<rparr>"
        "\<forall>y \<in> set ?g. y \<noteq> z \<longrightarrow> Deleted (cf_Contacts f' ! (li ! y))"
        using s merge unfolding group_settled_def if_P [OF merge] by blast
      have "x = z" using z(2) xg x(2) by blast
      moreover have "\<forall>c \<in> set ?ms. no_blank c" using blank by (auto simp: component_mem)
      ultimately show ?thesis
        using z stands_for_merged [OF prod.collapse [symmetric] srt, where ?r = r and ?t = t] by simp
    qed
  next
    case False
    have "cf_Contacts f' ! (li ! x) = cf_Contacts f ! (li ! x)"
    proof (rule mp [OF spec [OF rest]], intro ballI notI)
      fix g assume g: "g \<in> set (duplicate_components live)" "li ! x \<in> (\<lambda>y. li ! y) ` set g"
      then obtain y where y: "y \<in> set g" "li ! x = li ! y" by blast
      have "y < length live" using y(1) g(1) unfolding duplicate_components_set by (auto simp: component_mem)
      with li_inj [OF live x(1)] y have "x = y" by blast
      with y(1) have "x \<in> set g" by simp
      with component_in_groups [OF g(1)] False show False by simp
    qed
    then have "cf_Contacts f' ! (li ! x) = live ! x" using start [OF x(1)] by simp
    moreover have "set ?g = {x}"
    proof -
      have "0 < length ?g" using xg by (cases ?g) simp_all
      with False have "length ?g = 1" by linarith
      with xg show ?thesis by (auto simp: length_Suc_conv)
    qed
    ultimately show ?thesis using False by simp
  qed
qed

lemma dedupe_loop_none:
  "\<forall>g \<in> set gs. \<not> groupShouldMerge (map (\<lambda>x. live ! x) g) \<Longrightarrow> dedupe_loop lib now live li gs (f, merges) = Some (f, merges)"
  by (induction gs) auto

lemma dedupe_body_again:
  assumes d: "distinct (uids f)" and lib: "lib_ok lib" and blank: "\<forall>c \<in> set (live_contacts f). no_blank c"
    and first: "dedupe_body lib i f = (r, f', save)"
  shows "dedupe_body lib i' f' = (Inr \<lparr>rep_MergedCount = 0, rep_Groups = []\<rparr>, f', False)"
proof -
  let ?live = "live_contacts f" and ?li = "live_indices f"
  have srt: "sorts (lib_srt lib)" using lib by (simp add: lib_ok_def)
  note ok = live_ok_file [OF d] and facts = live_indices_facts [where f = f]
  have groups: "findDuplicateGroups (lib_rng lib) cs = Some (duplicate_components cs)" for cs
    using lib by (intro groups_components) (simp add: lib_ok_def)
  obtain f1 merges where e: "dedupe_loop lib (io_now i) ?live ?li (duplicate_components ?live) (f, []) = Some (f1, merges)"
    "length (cf_Contacts f1) = length (cf_Contacts f)"
    "\<forall>j. (\<forall>g \<in> set (duplicate_components ?live). j \<notin> (\<lambda>y. ?li ! y) ` set g) \<longrightarrow> cf_Contacts f1 ! j = cf_Contacts f ! j"
    "\<forall>g \<in> set (duplicate_components ?live). group_settled (lib_srt lib) ?live ?li f1 g"
    using dedupe_loop_effect [OF ok srt parts_ok_components intact_start [OF parts_ok_components]] by blast
  have f1: "f1 = f'" using first e(1) by (simp add: dedupe_body_def groups)
  have lo: "left_over f' ?li ?live"
    using left_over_settled [OF srt blank ok e(4) e(3)] facts(4) f1 by blast
  have "Deleted (cf_Contacts f' ! k)" if "k < length (cf_Contacts f)" "Deleted (cf_Contacts f ! k)" for k
  proof -
    have "k \<notin> (\<lambda>y. ?li ! y) ` set g" if g: "g \<in> set (duplicate_components ?live)" for g
    proof
      assume "k \<in> (\<lambda>y. ?li ! y) ` set g"
      then obtain y where y: "y \<in> set g" "k = ?li ! y" by blast
      have "y < length ?live" using y(1) g unfolding duplicate_components_set by (auto simp: component_mem)
      with facts(4,5) y(2) \<open>Deleted _\<close> show False by (metis nth_mem)
    qed
    with e(3) that(2) f1 show ?thesis by metis
  qed
  then have "live_indices f' = map (\<lambda>x. ?li ! x) (kept f' ?li)" using live_indices_kept [of f' f] e(2) f1 by blast
  then have after: "live_contacts f' = second_book f' ?li" by (simp add: live_contacts_def second_book_def)
  have none: "\<forall>g \<in> set (duplicate_components (second_book f' ?li)). \<not> groupShouldMerge (map (\<lambda>j. second_book f' ?li ! j) g)"
    using second_groups [OF lo facts(2)] facts(5) by blast
  show ?thesis
    by (simp add: dedupe_body_def groups after dedupe_loop_none [OF none])
qed

lemma dedupe_body_unsaved:
  assumes d: "distinct (uids f)" and lib: "lib_ok lib" and r: "dedupe_body lib i f = (r, f', False)"
  shows "f' = f"
proof -
  let ?live = "live_contacts f" and ?gs = "duplicate_components (live_contacts f)"
  have srt: "sorts (lib_srt lib)" and rng: "\<And>xs. mset (lib_rng lib xs) = mset xs" using lib by (simp_all add: lib_ok_def)
  obtain f1 merges where e: "dedupe_loop lib (io_now i) ?live (live_indices f) ?gs (f, []) = Some (f1, merges)"
    "merges = [] \<longleftrightarrow> (\<forall>g \<in> set ?gs. \<not> groupShouldMerge (map (\<lambda>x. ?live ! x) g))"
    using dedupe_loop_effect [OF live_ok_file [OF d] srt parts_ok_components intact_start [OF parts_ok_components], of "io_now i" "[]"]
    by blast
  with r have "merges = []" "f1 = f'" by (simp_all add: dedupe_body_def groups_components [OF rng])
  with e dedupe_loop_none [of ?gs ?live lib "io_now i" "live_indices f" f "[]"] show ?thesis by simp
qed

text \<open>Deduplication leaves the count of key changes as it is, also where it replaces or removes a key.\<close>

lemma bury_gen: "bury now idx target us f = Some f' \<Longrightarrow> cf_PGPKeyGen f' = cf_PGPKeyGen f"
proof (induction us arbitrary: f)
  case (Cons u us)
  then show ?case by (auto simp: bury_Cons simp del: bury.simps split: option.splits)
qed simp

lemma dedupe_loop_gen: "dedupe_loop lib now live li gs (f, merges) = Some (f', merges') \<Longrightarrow> cf_PGPKeyGen f' = cf_PGPKeyGen f"
proof (induction gs arbitrary: f merges)
  case (Cons g gs)
  show ?case
  proof (cases "groupShouldMerge (map (\<lambda>x. live ! x) g)")
    case False
    with Cons show ?thesis by simp
  next
    case True
    obtain s absorbed where m: "mergeGroup (lib_srt lib) (map (\<lambda>x. live ! x) g) = (s, absorbed)" by fastforce
    with True Cons.prems obtain f1 where f1: "merge_into now (byUID live li g) s absorbed f = Some f1"
      "dedupe_loop lib now live li gs (f1, merges @ [(UID s, absorbed)]) = Some (f', merges')"
      by (auto split: option.splits)
    from f1(1) have "cf_PGPKeyGen f1 = cf_PGPKeyGen f"
      unfolding merge_into_eq by (auto split: option.splits dest: bury_gen)
    with Cons.IH [OF f1(2)] show ?thesis by simp
  qed
qed simp

lemma dedupe_keeps_generation: "cf_PGPKeyGen (fst (snd (dedupe_body lib i f))) = cf_PGPKeyGen f"
  by (auto simp: dedupe_body_def bind_eq_Some_conv split: option.splits dest: dedupe_loop_gen)

end
