(* ===== verification/Contact_Properties.thy ===== *)
theory Contact_Properties
  imports Contact_Sync
begin

text \<open>
  The properties of the address book, with the concrete library they are tried on: no OpenPGP key parses
  but the texts of \<open>book_key\<close>, maps are ranged over backwards, and \<open>sort.Slice\<close> is an insertion sort.
\<close>

section \<open>A concrete library\<close>

fun insert_by :: "('a \<Rightarrow> 'a \<Rightarrow> bool) \<Rightarrow> 'a \<Rightarrow> 'a list \<Rightarrow> 'a list" where
  "insert_by lt x [] = [x]"
| "insert_by lt x (y # ys) = (if lt x y then x # y # ys else y # insert_by lt x ys)"

fun sort_by :: "('a \<Rightarrow> 'a \<Rightarrow> bool) \<Rightarrow> 'a list \<Rightarrow> 'a list" where
  "sort_by lt [] = []"
| "sort_by lt (x # xs) = insert_by lt x (sort_by lt xs)"

lemma mset_insert_by [simp]: "mset (insert_by lt x xs) = add_mset x (mset xs)"
  by (induction xs) auto

lemma mset_sort_by [simp]: "mset (sort_by lt xs) = mset xs"
  by (induction xs) auto

lemma sorted_insert_by:
  assumes "weak_order lt" and "sorted_wrt (\<lambda>a b. \<not> lt b a) xs"
  shows "sorted_wrt (\<lambda>a b. \<not> lt b a) (insert_by lt x xs)"
  using assms(2)
proof (induction xs)
  case (Cons y ys)
  have s: "set (insert_by lt x ys) = insert x (set ys)" by (metis mset_insert_by set_mset_add_mset_insert set_mset_mset)
  show ?case
  proof (cases "lt x y")
    case True
    then have "\<not> lt y x" using assms(1) unfolding weak_order_def by blast
    moreover have "\<not> lt z x" if "z \<in> set ys" for z
      using that Cons.prems \<open>\<not> lt y x\<close> assms(1) unfolding weak_order_def by (metis sorted_wrt.simps(2))
    ultimately show ?thesis using True Cons.prems by simp
  next
    case False
    with Cons s show ?thesis by simp
  qed
qed simp

lemma sorted_sort_by: "weak_order lt \<Longrightarrow> sorted_wrt (\<lambda>a b. \<not> lt b a) (sort_by lt xs)"
  by (induction xs) (simp_all add: sorted_insert_by)

definition book_key :: "string \<Rightarrow> pgp_key option" where
  "book_key s =
     (if s = ''PRIV'' then Some \<lparr>key_Fingerprint = ''F1'', key_Public = Some ''PUB'', key_Private = True\<rparr>
      else if s = ''PUB'' then Some \<lparr>key_Fingerprint = ''F1'', key_Public = Some ''PUB'', key_Private = False\<rparr>
      else None)"

definition book_lib :: contact_lib where
  "book_lib = \<lparr>lib_key = book_key, lib_rng = rev, lib_srt = sort_by\<rparr>"

lemma book_lib_ok: "lib_ok book_lib"
  by (simp add: lib_ok_def book_lib_def sorts_def sorted_sort_by)

definition book_io :: io where
  "book_io = \<lparr>io_lock = True, io_read = True, io_write = Written, io_now = ''t'', io_uuid = Some ''new''\<rparr>"

definition jane :: contact where
  "jane = empty_contact\<lparr>FormattedName := ''Jane Doe'', Emails := [\<lparr>cv_Label = [], cv_Value = ''jane@x.org''\<rparr>]\<rparr>"

definition doe :: contact where
  "doe = empty_contact\<lparr>FormattedName := ''Doe, Jane'', PGPKey := ''PUB''\<rparr>"

section \<open>Properties\<close>

text \<open>
  C8: Sync clients stay exact. However writes, deletions, merges, collections of tombstones, failures of the file
  system and earlier syncs interleave (photo uploads apart), a sync that is answered and is not told that its
  cursor is too old leaves the client with exactly the live contacts, and told so it starts again from
  nothing.
\<close>

theorem sync_client_exact:
  assumes "lib_ok lib" and "events_ok lib es new_world" and "io_read i"
    and "w = sync_run lib es new_world" and "w' = client_sync i w"
  shows "if sr_tooOld (changed_since (w_cursor w) (current (w_store w))) then w_replica w' = Map.empty \<and> w_cursor w' = 0
    else w_replica w' = live_view (current (w_store w'))"
proof -
  have "world_ok w" using sync_run_ok [OF new_world_ok assms(1,2)] assms(4) by simp
  then show ?thesis by (cases rule: client_sync_cases [of w i]) (use assms(3,5) in simp_all)
qed

text \<open>
  The address book stays well formed under every sequence of operations, whatever the file system does:
  identifiers are unique and present, at most one contact is marked as the user's own, and there are at
  most ten thousand live contacts.
\<close>

theorem address_book_well_formed:
  assumes "lib_ok lib" and "run_ok lib ops s" and "file_inv book_ok s"
  shows "book_ok (current (contact_run lib ops s))"
  using book.keep_run [OF assms(3,1,2)] by (rule file_inv_current)

text \<open>
  C31: Deduplication is done in one pass: after a successful run, another one merges nothing and leaves the
  address book as it is, provided that no contact has emails or phone numbers that are all blank.
\<close>

theorem dedupe_idempotent:
  assumes "lib_ok lib" and "book_ok (current s)" and "\<forall>c \<in> set (live_contacts (current s)). no_blank c"
    and "Dedupe lib i s = (Inr report, s1)" and "io_lock i'" and "io_read i'"
  shows "fst (Dedupe lib i' s1) = Inr \<lparr>rep_MergedCount = 0, rep_Groups = []\<rparr> \<and>
    current (snd (Dedupe lib i' s1)) = current s1"
proof -
  obtain save where b: "dedupe_body lib i (current s) = (Inr report, fs_mem s1, save)"
    and d: "save \<Longrightarrow> fs_disk s1 = Some (fs_mem s1)" "\<not> save \<Longrightarrow> fs_disk s1 = fs_disk s"
    using assms(4) unfolding Dedupe_def by (rule mutate_Inr) blast
  have uids: "distinct (uids (current s))" using assms(2) by (simp add: book_ok_def)
  note again = dedupe_body_again [OF uids assms(1,3) b]
  have "current s1 = fs_mem s1"
  proof (cases save)
    case True
    with d(1) show ?thesis by (simp add: current_def)
  next
    case False
    then have "fs_mem s1 = current s" using b dedupe_body_unsaved [OF uids assms(1)] by metis
    with d(2) [OF False] show ?thesis by (simp add: current_def split: option.splits)
  qed
  with again assms(5,6) show ?thesis by (simp add: Dedupe_def mutate_def refreshFromDisk_current Let_def)
qed

theorem sync_client_exact_witness:
  "lib_ok book_lib \<and>
   (let w = sync_run book_lib [ServerOp book_io (UpsertOp jane), ClientSync book_io, ServerOp book_io (DeleteOp ''new'')] new_world;
        w' = client_sync book_io w in
    if sr_tooOld (changed_since (w_cursor w) (current (w_store w))) then w_replica w' = Map.empty \<and> w_cursor w' = 0
    else w_replica w' = live_view (current (w_store w')))"
proof -
  have ok: "events_ok book_lib [ServerOp book_io (UpsertOp jane), ClientSync book_io, ServerOp book_io (DeleteOp ''new'')] new_world"
    by (simp add: is_photo_def op_ok_def upsert_ok_def new_world_def current_def empty_book_def uids_def book_io_def jane_def empty_contact_def)
  have io: "io_read book_io" by (simp add: book_io_def)
  show ?thesis unfolding Let_def
    using book_lib_ok sync_client_exact [OF book_lib_ok ok io refl refl] by blast
qed

theorem address_book_well_formed_witness:
  "book_ok (current (contact_run book_lib [(book_io, UpsertOp jane), (book_io, SelfOp ''new'' True), (book_io, DedupeOp)] (w_store new_world)))"
proof -
  have "run_ok book_lib [(book_io, UpsertOp jane), (book_io, SelfOp ''new'' True), (book_io, DedupeOp)] (w_store new_world)"
    by (simp add: op_ok_def upsert_ok_def new_world_def current_def empty_book_def uids_def book_io_def jane_def empty_contact_def)
  moreover have "file_inv book_ok (w_store new_world)"
    by (simp add: file_inv_def new_world_def empty_book_def book_ok_def uids_def liveContactCountLocked_def)
  ultimately show ?thesis by (rule address_book_well_formed [OF book_lib_ok])
qed

definition twins :: contact_store where
  "twins = (let f = \<lparr>cf_Contacts = [jane\<lparr>UID := ''a'', Rev := 1\<rparr>, doe\<lparr>UID := ''b'', Rev := 2\<rparr>], cf_Seq = 2,
                     cf_GCHighWaterRev = 0, cf_PGPKeyGen = 1\<rparr> in \<lparr>fs_mem = f, fs_disk = Some f\<rparr>)"

lemma twins_dedupe: "fst (Dedupe book_lib book_io twins) = Inr \<lparr>rep_MergedCount = 1, rep_Groups = [(''a'', [''b''])]\<rparr>"
  by code_simp

theorem dedupe_idempotent_witness:
  "\<exists>report s1. Dedupe book_lib book_io twins = (Inr report, s1) \<and>
     fst (Dedupe book_lib book_io s1) = Inr \<lparr>rep_MergedCount = 0, rep_Groups = []\<rparr> \<and>
     current (snd (Dedupe book_lib book_io s1)) = current s1"
proof -
  have ok: "book_ok (current twins)"
    by (simp add: twins_def Let_def current_def book_ok_def uids_def liveContactCountLocked_def jane_def doe_def empty_contact_def
        MaxContactsPerUser_def)
  have blank: "\<forall>c \<in> set (live_contacts (current twins)). no_blank c" by code_simp
  let ?r = "Dedupe book_lib book_io twins"
  have r: "?r = (Inr \<lparr>rep_MergedCount = 1, rep_Groups = [(''a'', [''b''])]\<rparr>, snd ?r)" using twins_dedupe by (metis prod.collapse)
  from dedupe_idempotent [OF book_lib_ok ok blank r, of book_io] show ?thesis using r by (auto simp: book_io_def)
qed

text \<open>
  C21: Two contacts are found to be duplicates exactly if they are connected in the graph of shared emails,
  phone numbers and, for contacts that have neither, names; the search always ends, whatever the order in
  which maps are ranged over, and its groups are disjoint, ascending and in ascending order.
\<close>

theorem duplicate_groups_exact:
  assumes "\<And>xs. mset (rng xs) = mset xs"
  shows "\<exists>gs. findDuplicateGroups rng cs = Some gs \<and> sorted (map hd gs) \<and>
    (\<forall>g \<in> set gs. sorted g \<and> distinct g \<and> 2 \<le> length g \<and> (\<forall>x \<in> set g. x < length cs)) \<and>
    (\<forall>g \<in> set gs. \<forall>h \<in> set gs. g \<noteq> h \<longrightarrow> set g \<inter> set h = {}) \<and>
    (\<forall>i < length cs. \<forall>j < length cs. i \<noteq> j \<longrightarrow> ((\<exists>g \<in> set gs. i \<in> set g \<and> j \<in> set g) \<longleftrightarrow> (i, j) \<in> linked cs))"
proof (intro exI conjI)
  let ?gs = "duplicate_components cs"
  show "findDuplicateGroups rng cs = Some ?gs" by (rule groups_components [OF assms])
  show "sorted (map hd ?gs)" by (rule duplicate_components_sorted)
  have comp: "\<exists>a. g = component cs a \<and> 2 \<le> length g" if "g \<in> set ?gs" for g
    using that unfolding duplicate_components_set by auto
  show "\<forall>g \<in> set ?gs. sorted g \<and> distinct g \<and> 2 \<le> length g \<and> (\<forall>x \<in> set g. x < length cs)"
    using comp component_sorted component_distinct component_mem by metis
  show "\<forall>g \<in> set ?gs. \<forall>h \<in> set ?gs. g \<noteq> h \<longrightarrow> set g \<inter> set h = {}" using comp component_disjoint by metis
  show "\<forall>i < length cs. \<forall>j < length cs. i \<noteq> j \<longrightarrow> ((\<exists>g \<in> set ?gs. i \<in> set g \<and> j \<in> set g) \<longleftrightarrow> (i, j) \<in> linked cs)"
  proof (intro allI impI)
    fix i j assume i: "i < length cs" and j: "j < length cs" and ne: "i \<noteq> j"
    show "(\<exists>g \<in> set ?gs. i \<in> set g \<and> j \<in> set g) \<longleftrightarrow> (i, j) \<in> linked cs"
    proof
      assume "\<exists>g \<in> set ?gs. i \<in> set g \<and> j \<in> set g"
      then show "(i, j) \<in> linked cs" using comp by (metis component_mem linked_sym linked_trans)
    next
      assume l: "(i, j) \<in> linked cs"
      then have m: "i \<in> set (component cs i)" "j \<in> set (component cs i)" using i j by (simp_all add: component_mem)
      have "card {i, j} \<le> length (component cs i)"
        using m card_mono [of "set (component cs i)" "{i, j}"] card_length [of "component cs i"] by auto
      with ne have "component cs i \<in> set ?gs" unfolding duplicate_components_set using i by auto
      with m show "\<exists>g \<in> set ?gs. i \<in> set g \<and> j \<in> set g" by blast
    qed
  qed
qed

theorem duplicate_groups_exact_witness:
  "\<exists>gs. findDuplicateGroups rev [jane, doe, jane] = Some gs \<and> sorted (map hd gs)"
  using duplicate_groups_exact [of rev "[jane, doe, jane]"] by auto



text \<open>
  No upsert stores a private key or leaves a usable key without its pin, and writing a stored key back
  without provenance keeps the pin, the source, the verification and the date that were recorded.
\<close>

theorem upsert_pins_key:
  assumes "applyUpsertLocked lib now uuid c f = (Inr c', f')"
  shows "PGPKey c' = publicPGPKey lib (PGPKey c) \<and>
    (pgpKeyFingerprint lib (PGPKey c') \<noteq> [] \<longrightarrow> PGPKey c' \<noteq> [] \<longrightarrow> PGPKeyFingerprint c' \<noteq> []) \<and>
    (\<forall>e. getLocked (UID c) f = Some e \<longrightarrow> PGPKey e \<noteq> [] \<longrightarrow> PGPKeyFingerprint e \<noteq> [] \<longrightarrow>
       publicPGPKey lib (PGPKey c) = PGPKey e \<longrightarrow> PGPKeyFingerprint c = [] \<longrightarrow> PGPKeySource c = [] \<longrightarrow> \<not> PGPKeyVerified c \<longrightarrow>
       key_of c' = key_of e)"
proof -
  have k: "key_of c' = key_of (incoming lib c f)" by (rule upsert_key_of [OF assms])
  have eq: "PGPKey c' = PGPKey (incoming lib c f)" "PGPKeyFingerprint c' = PGPKeyFingerprint (incoming lib c f)"
    using k by (simp_all add: key_of_def)
  show ?thesis unfolding eq k using incoming_key [of lib c f] incoming_pinned [of lib c f] incoming_carries [of c f _ lib] by blast
qed

theorem upsert_pins_key_witness:
  "\<exists>c' f'. applyUpsertLocked book_lib ''t'' None (doe\<lparr>UID := ''b'', PGPKey := ''PRIV''\<rparr>) (current twins) = (Inr c', f') \<and>
     PGPKey c' = ''PUB''"
proof -
  let ?c = "doe\<lparr>UID := ''b'', PGPKey := ''PRIV''\<rparr>"
  have "getLocked (UID ?c) (current twins) = Some (doe\<lparr>UID := ''b'', Rev := 2\<rparr>)"
    by (simp add: getLocked_def twins_def Let_def current_def jane_def)
  then have "\<exists>c' f'. applyUpsertLocked book_lib ''t'' None ?c (current twins) = (Inr c', f')"
    by (simp add: applyUpsertLocked_def Let_def doe_def empty_contact_def case_prod_beta)
  then obtain c' f' where u: "applyUpsertLocked book_lib ''t'' None ?c (current twins) = (Inr c', f')" by blast
  moreover have "publicPGPKey book_lib (PGPKey ?c) = ''PUB''" by (simp add: publicPGPKey_def book_lib_def book_key_def)
  ultimately show ?thesis using upsert_pins_key [OF u] by auto
qed

section \<open>Photos\<close>

text \<open>
  \<open>SetPhotoRef\<close> counts up the contact's own revision and not the store's: the new photo has a revision that
  sync clients have already passed, and the change feed never shows it.
\<close>

lemma photo_change_missed:
  "map PhotoRef (cf_Contacts (current (snd (SetPhotoRef ''a'' ''p.png'' book_io twins)))) = [''p.png'', []] \<and>
   cf_Seq (current twins) = 2 \<and>
   sr_changed (changed_since 2 (current (snd (SetPhotoRef ''a'' ''p.png'' book_io twins)))) = []"
  by code_simp

end
