(* ===== verification/Scheduled_Table.thy ===== *)
theory Scheduled_Table
  imports Go_Table "HOL-Library.Multiset"
begin

text \<open>
  The table of scheduled mail, \<open>backend/internal/state/scheduled_sends.go\<close>.

  The table is the list of its rows; a row read from it is the same record. Each SQL statement is one
  function, atomic as the database makes it; \<open>db\<close> says whether the database carries it out, and a statement it
  does not carry out changes nothing. Where a query leaves the order of rows open, the order in which the
  database meets them is a parameter \<open>ord\<close>, any permutation. All times are whole seconds.
\<close>

section \<open>The table\<close>

record sched_row =
  sc_ID :: string
  sc_UserID :: string
  sc_Mailbox :: string
  sc_Status :: string
  sc_Reason :: string
  sc_SendAt :: int
  sc_CreatedAt :: int
  sc_ReturningSince :: int
  sc_NextAttempt :: int
  sc_Sealed :: "string option"
  sc_Summary :: string

type_synonym sched_table = "sched_row list"

definition ScheduledWaiting :: string where "ScheduledWaiting = ''scheduled''"
definition ScheduledSending :: string where "ScheduledSending = ''sending''"
definition ScheduledReturning :: string where "ScheduledReturning = ''returning''"

definition ScheduledInterrupted :: string where
  "ScheduledInterrupted = ''the server stopped while sending; check with your recipients before sending again''"

definition ScheduledRestored :: string where
  "ScheduledRestored = ''restored from a backup; review it and send again''"

definition scheduledFinal :: "string \<Rightarrow> bool" where
  "scheduledFinal status \<longleftrightarrow> status \<noteq> ScheduledWaiting \<and> status \<noteq> ScheduledSending \<and> status \<noteq> ScheduledReturning"

definition sealed_length :: "sched_row \<Rightarrow> nat" where
  "sealed_length r = (case sc_Sealed r of None \<Rightarrow> 0 | Some b \<Rightarrow> length b)"

definition pending_of :: "string \<Rightarrow> sched_table \<Rightarrow> sched_row list" where
  "pending_of user t = filter (\<lambda>r. sc_UserID r = user \<and> \<not> scheduledFinal (sc_Status r)) t"

datatype sched_error = ErrScheduledFull | SchedDbError

text \<open>The identifier is the primary key, so a second row with it is refused.\<close>

definition AddScheduledSend :: "bool \<Rightarrow> sched_row \<Rightarrow> nat \<Rightarrow> nat \<Rightarrow> sched_table \<Rightarrow> sched_error option \<times> sched_table" where
  "AddScheduledSend db r limit maxBytes t =
     (let pending = pending_of (sc_UserID r) t in
      if \<not> db then (Some SchedDbError, t)
      else if \<not> (length pending < limit \<and> sum_list (map sealed_length pending) + sealed_length r \<le> maxBytes) then
        (Some ErrScheduledFull, t)
      else if sc_ID r \<in> sc_ID ` set t then (Some SchedDbError, t)
      else (None, t @ [r\<lparr>sc_Status := ScheduledWaiting, sc_Reason := [], sc_NextAttempt := 0, sc_ReturningSince := 0\<rparr>]))"

definition claimable :: "int \<Rightarrow> sched_table \<Rightarrow> sched_row list" where
  "claimable now t =
     filter (\<lambda>r. sc_Status r = ScheduledWaiting \<and> sc_SendAt r \<le> now \<and> sc_NextAttempt r \<le> now \<and>
               sc_UserID r \<notin> sc_UserID ` set (filter (\<lambda>q. sc_Status q = ScheduledSending) t)) t"

definition update_rows :: "(sched_row \<Rightarrow> bool) \<Rightarrow> (sched_row \<Rightarrow> sched_row) \<Rightarrow> sched_table \<Rightarrow> sched_table" where
  "update_rows P upd t = map (\<lambda>r. if P r then upd r else r) t"

definition ClaimScheduledSend ::
  "(sched_row list \<Rightarrow> sched_row list) \<Rightarrow> bool \<Rightarrow> int \<Rightarrow> sched_table \<Rightarrow> (sched_error, sched_row option) result \<times> sched_table" where
  "ClaimScheduledSend ord db now t =
     (if \<not> db then (Inl SchedDbError, t)
      else
        (case sort_key sc_NextAttempt (sort_key sc_SendAt (ord (claimable now t))) of
           [] \<Rightarrow> (Inr None, t)
         | r # _ \<Rightarrow>
             (Inr (Some (r\<lparr>sc_Status := ScheduledSending, sc_ReturningSince := 0, sc_NextAttempt := 0\<rparr>)),
              update_rows (\<lambda>q. sc_ID q = sc_ID r \<and> sc_Status q = ScheduledWaiting) (\<lambda>q. q\<lparr>sc_Status := ScheduledSending\<rparr>) t)))"

text \<open>\<open>unixepoch\<close> is the clock of the database.\<close>

definition moved_row :: "int \<Rightarrow> string \<Rightarrow> string \<Rightarrow> string \<Rightarrow> int \<Rightarrow> sched_row \<Rightarrow> sched_row" where
  "moved_row unixepoch from to reason nextAttempt r =
     r\<lparr>sc_Status := to, sc_Reason := reason, sc_NextAttempt := nextAttempt,
       sc_Sealed := (if scheduledFinal to then None else sc_Sealed r),
       sc_ReturningSince := (if to = ScheduledReturning \<and> from \<noteq> ScheduledReturning then unixepoch else sc_ReturningSince r)\<rparr>"

definition MoveScheduledSend ::
  "bool \<Rightarrow> int \<Rightarrow> string \<Rightarrow> string \<Rightarrow> string \<Rightarrow> string \<Rightarrow> int \<Rightarrow> sched_table \<Rightarrow> (sched_error, bool) result \<times> sched_table" where
  "MoveScheduledSend db unixepoch ident from to reason nextAttempt t =
     (if \<not> db then (Inl SchedDbError, t)
      else
        (let P = (\<lambda>r. sc_ID r = ident \<and> sc_Status r = from) in
         (Inr (length (filter P t) = 1), update_rows P (moved_row unixepoch from to reason nextAttempt) t)))"

definition InterruptScheduledSends :: "bool \<Rightarrow> sched_table \<Rightarrow> sched_error option \<times> sched_table" where
  "InterruptScheduledSends db t =
     (if \<not> db then (Some SchedDbError, t)
      else (None, update_rows (\<lambda>r. sc_Status r = ScheduledSending)
                    (\<lambda>r. r\<lparr>sc_Status := ''uncertain'', sc_Reason := ScheduledInterrupted, sc_Sealed := None\<rparr>) t))"

definition HasScheduledWork :: "sched_table \<Rightarrow> bool" where
  "HasScheduledWork t \<longleftrightarrow> (\<exists>r \<in> set t. sc_Status r = ScheduledWaiting \<or> sc_Status r = ScheduledReturning)"

text \<open>
  One row per user, the one with the least time: \<open>min\<close> with \<open>GROUP BY\<close> takes the other columns from the row
  of the minimum.
\<close>

definition ScheduledReturns :: "(sched_row list \<Rightarrow> sched_row list) \<Rightarrow> int \<Rightarrow> sched_table \<Rightarrow> sched_row list" where
  "ScheduledReturns ord now t =
     (let due = ord (filter (\<lambda>r. sc_Status r = ScheduledReturning \<and> sc_NextAttempt r \<le> now) t) in
      take 100 (map (\<lambda>u. hd (sort_key sc_SendAt (filter (\<lambda>r. sc_UserID r = u) due))) (remdups (map sc_UserID due))))"

definition ListScheduledSends :: "(sched_row list \<Rightarrow> sched_row list) \<Rightarrow> string \<Rightarrow> string \<Rightarrow> sched_table \<Rightarrow> sched_row list" where
  "ListScheduledSends ord user mailbox t =
     map (\<lambda>r. r\<lparr>sc_Sealed := None\<rparr>)
       (take 200 (sort_key (\<lambda>r. - sc_SendAt r) (ord (filter (\<lambda>r. sc_UserID r = user \<and> sc_Mailbox r = mailbox) t))))"

definition GetScheduledSend :: "string \<Rightarrow> sched_table \<Rightarrow> sched_row option" where
  "GetScheduledSend ident t = List.find (\<lambda>r. sc_ID r = ident) t"

definition PruneScheduledSends :: "bool \<Rightarrow> int \<Rightarrow> sched_table \<Rightarrow> sched_error option \<times> sched_table" where
  "PruneScheduledSends db before t =
     (if \<not> db then (Some SchedDbError, t)
      else (None, filter (\<lambda>r. \<not> (sc_CreatedAt r < before \<and> scheduledFinal (sc_Status r))) t))"

text \<open>On a restored backup; \<open>db1\<close> and \<open>db2\<close> are the two statements.\<close>

definition FenceRestoredScheduledSends :: "bool \<Rightarrow> bool \<Rightarrow> sched_table \<Rightarrow> sched_error option \<times> sched_table" where
  "FenceRestoredScheduledSends db1 db2 t =
     (if \<not> db1 then (Some SchedDbError, t)
      else
        InterruptScheduledSends db2
          (update_rows (\<lambda>r. sc_Status r = ScheduledWaiting)
             (\<lambda>r. r\<lparr>sc_Status := ScheduledReturning, sc_Reason := ScheduledRestored, sc_NextAttempt := 0\<rparr>) t))"

section \<open>Statements\<close>

lemma update_rows_simps [simp]:
  "update_rows P upd [] = []"
  "update_rows P upd (r # t) = (if P r then upd r else r) # update_rows P upd t"
  "update_rows P upd (t @ u) = update_rows P upd t @ update_rows P upd u"
  by (simp_all add: update_rows_def)

lemma set_update_rows: "set (update_rows P upd t) = (\<lambda>r. if P r then upd r else r) ` set t"
  by (simp add: update_rows_def)

lemma ids_update_rows [simp]: "(\<And>r. P r \<Longrightarrow> sc_ID (upd r) = sc_ID r) \<Longrightarrow> map sc_ID (update_rows P upd t) = map sc_ID t"
  by (induction t) auto

lemma final_simps [simp]:
  "\<not> scheduledFinal ScheduledWaiting" "\<not> scheduledFinal ScheduledSending" "\<not> scheduledFinal ScheduledReturning"
  "scheduledFinal ''uncertain''" "scheduledFinal ''sent''" "scheduledFinal ''queued''" "scheduledFinal ''failed''"
  "scheduledFinal ''returned''"
  by (simp_all add: scheduledFinal_def ScheduledWaiting_def ScheduledSending_def ScheduledReturning_def)

lemma status_distinct [simp]:
  "ScheduledWaiting \<noteq> ScheduledSending" "ScheduledWaiting \<noteq> ScheduledReturning" "ScheduledSending \<noteq> ScheduledReturning"
  "ScheduledSending \<noteq> ScheduledWaiting" "ScheduledReturning \<noteq> ScheduledWaiting" "ScheduledReturning \<noteq> ScheduledSending"
  by (simp_all add: ScheduledWaiting_def ScheduledSending_def ScheduledReturning_def)

text \<open>
  A claim picks a row that is waiting and due, of a user none of whose rows is being sent, and of these the
  least by next attempt, then time.
\<close>

lemma claim_cases:
  assumes ord: "\<And>xs. mset (ord xs) = mset xs" and c: "ClaimScheduledSend ord db now t = (Inr (Some r'), t')"
  obtains r where "r \<in> set (claimable now t)" "r' = r\<lparr>sc_Status := ScheduledSending, sc_ReturningSince := 0, sc_NextAttempt := 0\<rparr>"
    "t' = update_rows (\<lambda>q. sc_ID q = sc_ID r \<and> sc_Status q = ScheduledWaiting) (\<lambda>q. q\<lparr>sc_Status := ScheduledSending\<rparr>) t"
    "\<forall>q \<in> set (claimable now t). sc_NextAttempt r < sc_NextAttempt q \<or> sc_NextAttempt r = sc_NextAttempt q \<and> sc_SendAt r \<le> sc_SendAt q"
proof -
  let ?xs = "sort_key sc_NextAttempt (sort_key sc_SendAt (ord (claimable now t)))"
  have s: "set ?xs = set (claimable now t)" using mset_eq_setD [OF ord] by simp
  obtain r rs where xs: "?xs = r # rs" and r: "r' = r\<lparr>sc_Status := ScheduledSending, sc_ReturningSince := 0, sc_NextAttempt := 0\<rparr>"
    and t: "t' = update_rows (\<lambda>q. sc_ID q = sc_ID r \<and> sc_Status q = ScheduledWaiting) (\<lambda>q. q\<lparr>sc_Status := ScheduledSending\<rparr>) t"
    using c by (auto simp: ClaimScheduledSend_def split: if_splits list.splits)
  have n: "sorted (map sc_NextAttempt (r # rs))" by (metis sorted_sort_key xs)
  have "sc_NextAttempt r < sc_NextAttempt q \<or> sc_NextAttempt r = sc_NextAttempt q \<and> sc_SendAt r \<le> sc_SendAt q"
    if q: "q \<in> set (claimable now t)" for q
  proof (cases "sc_NextAttempt q = sc_NextAttempt r")
    case True
    have "filter (\<lambda>y. sc_NextAttempt y = sc_NextAttempt r) ?xs =
        filter (\<lambda>y. sc_NextAttempt y = sc_NextAttempt r) (sort_key sc_SendAt (ord (claimable now t)))"
      by (rule sort_key_stable)
    then have f: "r # filter (\<lambda>y. sc_NextAttempt y = sc_NextAttempt r) rs =
        filter (\<lambda>y. sc_NextAttempt y = sc_NextAttempt r) (sort_key sc_SendAt (ord (claimable now t)))"
      unfolding xs by simp
    have "sorted (map sc_SendAt (filter (\<lambda>y. sc_NextAttempt y = sc_NextAttempt r) (sort_key sc_SendAt (ord (claimable now t)))))"
      by (rule sorted_filter) simp
    then have "sorted (map sc_SendAt (r # filter (\<lambda>y. sc_NextAttempt y = sc_NextAttempt r) rs))" unfolding f .
    moreover have "q \<in> set (r # filter (\<lambda>y. sc_NextAttempt y = sc_NextAttempt r) rs)" using q s xs True by auto
    ultimately show ?thesis using True by auto
  next
    case False
    with q s xs n show ?thesis by fastforce
  qed
  with that [OF _ r t] s xs show thesis by auto
qed

end
