(* ===== verification/Scheduled_Send.thy ===== *)
theory Scheduled_Send
  imports Scheduled_Table Send_Ledger Outbox Smtp_Message
begin

text \<open>
  Scheduled mail, \<open>backend/internal/api/scheduled_send.go\<close>: scheduling a message, cancelling it, and the worker
  that sends what is due, with the checks of authority of \<open>backend/internal/sso/native_outbound.go\<close> and the
  relay loop of \<open>backend/internal/api/pgp_send_client.go\<close>.

  Clock readings are in nanoseconds, the times of rows in whole seconds. What the other parts of the server
  answer to a send (account, device, mail settings, native queue, relay, mail client) is the record
  \<open>send_answers\<close>; the quota is the ledger of \<open>Send_Ledger\<close>. Sealing a job and opening it are parameters.
\<close>

section \<open>Sending one row\<close>

definition maxScheduledPending :: nat where "maxScheduledPending = 50"
definition scheduledMaxRowBytes :: nat where "scheduledMaxRowBytes = 128 * 1024 * 1024"
definition scheduledMaxUserBytes :: nat where "scheduledMaxUserBytes = 256 * 1024 * 1024"
definition scheduledMinLead :: duration where "scheduledMinLead = minute"
definition scheduledMaxLead :: duration where "scheduledMaxLead = 366 * 24 * 60 * minute"
definition scheduledRetryWindow :: duration where "scheduledRetryWindow = 60 * minute"
definition scheduledRetryDelay :: duration where "scheduledRetryDelay = 5 * minute"
definition scheduledRetention :: duration where "scheduledRetention = 30 * 24 * 60 * minute"
definition scheduledReturnFor :: duration where "scheduledReturnFor = 7 * 24 * 60 * minute"

definition unix :: "time \<Rightarrow> int" where "unix t = t div second"

definition from_unix :: "int \<Rightarrow> time" where "from_unix s = s * second"

definition reasonCanceled :: string where "reasonCanceled = ''canceled''"
definition reasonAccount :: string where
  "reasonAccount = ''account security changed (password, two-factor, role or sign-in); review it and send again''"
definition reasonKeys :: string where "reasonKeys = ''your PGP keys changed; review it and send again''"
definition reasonDevice :: string where "reasonDevice = ''the device that scheduled it was removed or paired again''"
definition reasonFrom :: string where "reasonFrom = ''the From address is no longer one you may send as''"
definition reasonSender :: string where
  "reasonSender = ''sending authority for this address changed (address, domain or relay); review it and send again''"
definition reasonMail :: string where "reasonMail = ''the mail account settings changed''"
definition reasonFull :: string where "reasonFull = ''the mailbox is full''"
definition reasonLate :: string where "reasonLate = ''it could not be sent within an hour of its send time''"
definition reasonLost :: string where "reasonLost = ''the scheduled message could not be opened; nothing was sent''"
definition reasonGone :: string where "reasonGone = ''the account was removed; nothing was sent''"
definition reasonNoDraft :: string where "reasonNoDraft = ''it could not be saved to Drafts for a week; nothing was sent''"

record draft_message =
  dm_To :: "string list"
  dm_CC :: "string list"
  dm_BCC :: "string list"
  dm_Subject :: string
  dm_Body :: string
  dm_Mode :: string
  dm_Attachments :: "string list"
  dm_Raw :: string

record scheduled_job =
  sj_ID :: string
  sj_UserID :: string
  sj_Mailbox :: string
  sj_Native :: bool
  sj_Job :: outbound_job
  sj_Username :: string
  sj_RequestedFrom :: string
  sj_Sent :: "draft_message option"
  sj_Draft :: draft_message

text \<open>\<open>opened\<close> is what unsealing a blob with the server's key gives.\<close>

definition openScheduledRow :: "(string option \<Rightarrow> scheduled_job option) \<Rightarrow> sched_row \<Rightarrow> scheduled_job option" where
  "openScheduledRow opened r =
     (case opened (sc_Sealed r) of
        None \<Rightarrow> None
      | Some j \<Rightarrow> if sj_ID j \<noteq> sc_ID r \<or> sj_UserID j \<noteq> sc_UserID r \<or> sj_Mailbox j \<noteq> sc_Mailbox r then None else Some j)"

record sched_user =
  su_ID :: string
  su_Active :: bool
  su_MustChangePassword :: bool
  su_NativeSendEpoch :: nat
  su_PGPRevision :: nat
  su_PGPFingerprint :: string
  su_Keyring :: "nat option"

record native_device =
  nd_UserID :: string
  nd_Witness :: string
  nd_Enrolled :: bool
  nd_EnrolledGeneration :: nat
  nd_EnrolledFingerprint :: string

datatype 'a answer = Found 'a | Missing | Unavailable

datatype queue_answer = QueueOk | QueueStale | QueueDevice | QueueCapacity | QueueFailed

datatype smtp_answer = SmtpAccepted | SmtpAcceptedThenFailed | SmtpUncertain | SmtpRefused

text \<open>
  What the rest of the server answers: the account; whether its store opens; the device that scheduled the
  message; the quota of the account, the install-wide quota and the answers of the ledger; the native queue; the stored mail settings, with the account name and whether they name a relay; the
  status and the envelope address of \<open>resolveMailFrom\<close>; the relay, for each group; and whether the Sent copy was saved.
\<close>

record send_answers =
  sa_user :: "sched_user answer"
  sa_store :: bool
  sa_device :: "native_device answer"
  sa_override :: "string \<Rightarrow> send_quota option option"
  sa_quota :: send_quota
  sa_ledger :: db_answers
  sa_queue :: queue_answer
  sa_config :: "(string \<times> bool) answer"
  sa_from :: "nat \<times> string"
  sa_relay :: "smtp_answer list"
  sa_sent_saved :: bool

definition SenderAuthorityCurrent :: "sched_user \<Rightarrow> outbound_job \<Rightarrow> bool" where
  "SenderAuthorityCurrent u job \<longleftrightarrow>
     job_NativeSendEpoch job = su_NativeSendEpoch u \<and> job_PGPRevision job = su_PGPRevision u \<and>
     job_PGPFingerprint job = su_PGPFingerprint u \<and>
     (case su_Keyring u of Some g \<Rightarrow> job_MaterialGeneration job = g | None \<Rightarrow> job_MaterialGeneration job = 0)"

definition DeviceAuthorityCurrent :: "sched_user \<Rightarrow> outbound_job \<Rightarrow> native_device \<Rightarrow> bool" where
  "DeviceAuthorityCurrent u job d \<longleftrightarrow>
     \<not> (job_DeviceWitness job = [] \<or> job_DeviceWitness job \<noteq> nd_Witness d \<or> nd_UserID d \<noteq> [] \<and> nd_UserID d \<noteq> su_ID u) \<and>
     \<not> (job_RequiresEnrollment job \<and> su_Keyring u \<noteq> None \<and>
        (\<not> nd_Enrolled d \<or> nd_EnrolledGeneration d \<noteq> job_MaterialGeneration job \<or>
         \<not> equal_fold (nd_EnrolledFingerprint d) (su_PGPFingerprint u)))"

datatype authority = Authorised | Refused string | UserGone | AuthorityError

definition scheduledAuthority :: "send_answers \<Rightarrow> scheduled_job \<Rightarrow> authority" where
  "scheduledAuthority a j =
     (case sa_user a of
        Missing \<Rightarrow> UserGone
      | Unavailable \<Rightarrow> AuthorityError
      | Found u \<Rightarrow>
          if \<not> su_Active u \<or> su_MustChangePassword u \<or> su_NativeSendEpoch u \<noteq> job_NativeSendEpoch (sj_Job j) then Refused reasonAccount
          else if \<not> SenderAuthorityCurrent u (sj_Job j) then Refused reasonKeys
          else if job_DeviceID (sj_Job j) = [] then Authorised
          else if \<not> sa_store a then AuthorityError
          else
            (case sa_device a of
               Missing \<Rightarrow> Refused reasonDevice
             | Unavailable \<Rightarrow> AuthorityError
             | Found d \<Rightarrow> if DeviceAuthorityCurrent u (sj_Job j) d then Authorised else Refused reasonDevice))"

datatype smtp_account = SmtpAccount | SmtpReason string | SmtpError

definition sanitizeHeaderValue :: "string \<Rightarrow> string" where
  "sanitizeHeaderValue v = trim_space (map (\<lambda>c. if c = CR \<or> c = LF then CHR '' '' else c) v)"

definition scheduledSMTPAccount :: "send_answers \<Rightarrow> scheduled_job \<Rightarrow> smtp_account" where
  "scheduledSMTPAccount a j =
     (case sa_config a of
        Unavailable \<Rightarrow> SmtpError
      | Missing \<Rightarrow> SmtpReason reasonMail
      | Found (username, resolves) \<Rightarrow>
          if sanitizeHeaderValue username \<noteq> sj_Username j then SmtpReason reasonMail
          else if \<not> resolves then SmtpReason reasonMail
          else if fst (sa_from a) = 500 then SmtpError
          else if fst (sa_from a) \<noteq> 0 \<or> snd (sa_from a) \<noteq> job_From (sj_Job j) then SmtpReason reasonFrom
          else SmtpAccount)"

text \<open>
  The deliveries in turn; only a failure of the first is an error. An exhausted list of answers is a
  refusal.
\<close>

definition relay_accepted :: "smtp_answer \<Rightarrow> bool" where
  "relay_accepted s \<longleftrightarrow> s = SmtpAccepted \<or> s = SmtpAcceptedThenFailed"

fun deliver_loop :: "bool \<Rightarrow> nat \<Rightarrow> smtp_answer list \<Rightarrow> nat \<Rightarrow> (smtp_answer, nat) result" where
  "deliver_loop first failed answers 0 = Inr failed"
| "deliver_loop first failed answers (Suc n) =
     (let s = (case answers of [] \<Rightarrow> SmtpRefused | x # _ \<Rightarrow> x) in
      if relay_accepted s then deliver_loop False failed (tl answers) n
      else if first then Inl s
      else deliver_loop False (failed + 1) (tl answers) n)"

definition deliverIMAP :: "send_answers \<Rightarrow> scheduled_job \<Rightarrow> (smtp_answer, nat \<times> bool) result" where
  "deliverIMAP a j =
     (case deliver_loop True 0 (sa_relay a) (length (job_Deliveries (sj_Job j))) of
        Inl s \<Rightarrow> Inl s
      | Inr failed \<Rightarrow> Inr (failed, sj_Sent j \<noteq> None \<and> sa_sent_saved a))"

text \<open>The warnings of a send; \<open>itoa\<close> prints a number.\<close>

fun itoa :: "nat \<Rightarrow> string" where
  "itoa n = (if n < 10 then [char_of (48 + n)] else itoa (n div 10) @ [char_of (48 + n mod 10)])"

declare itoa.simps [simp del]

definition partialDeliveryWarning :: "nat \<Rightarrow> nat \<Rightarrow> nat \<Rightarrow> nat \<Rightarrow> string" where
  "partialDeliveryWarning bccFailed bccTotal pickupFailed pickupTotal =
     (let parts =
        (if bccFailed > 0 then [''delivery could not be confirmed for '' @ itoa bccFailed @ '' of '' @ itoa bccTotal @ '' blind copies''] else []) @
        (if pickupFailed > 0 then [''delivery could not be confirmed for '' @ itoa pickupFailed @ '' of '' @ itoa pickupTotal @ '' secure links''] else [])
      in join ''; '' (parts @ (if parts \<noteq> []
           then [''some may already have arrived; check provider evidence before retrying to avoid duplicates''] else [])))"

definition joinWarnings :: "string list \<Rightarrow> string" where
  "joinWarnings ws = join '' '' (filter (\<lambda>w. trim_space w \<noteq> []) ws)"

definition reasonQuota :: string where "reasonQuota = ''your sending quota was reached''"

definition too_large_text :: string where
  "too_large_text = ''this message has more recipients than the daily sending quota allows''"

definition recipient_count :: "scheduled_job \<Rightarrow> int" where
  "recipient_count j = sum_list (map (\<lambda>d. int (length (dl_Recipients d))) (job_Deliveries (sj_Job j)))"

text \<open>The last part of \<open>dispatchScheduled\<close>: an IMAP account's own relay.\<close>

definition send_smtp :: "send_answers \<Rightarrow> scheduled_job \<Rightarrow> string \<times> string" where
  "send_smtp a j =
     (case scheduledSMTPAccount a j of
        SmtpError \<Rightarrow> (ScheduledWaiting, [])
      | SmtpReason reason \<Rightarrow> (ScheduledReturning, reason)
      | SmtpAccount \<Rightarrow>
          if list_ex (\<lambda>d. NormalizeSMTPMessage (dl_Raw d) = None) (job_Deliveries (sj_Job j)) then (ScheduledReturning, reasonLost)
          else
            (case deliverIMAP a j of
               Inr (failed, saved) \<Rightarrow>
                 (let warning = partialDeliveryWarning failed (length (job_Deliveries (sj_Job j)) - 1) 0 0 in
                  (''sent'', if sj_Sent j \<noteq> None \<and> \<not> saved then joinWarnings [warning, ''the Sent copy could not be saved''] else warning))
             | Inl SmtpUncertain \<Rightarrow>
                 (''uncertain'', ''delivery could not be confirmed; check with your recipients before sending again'')
             | Inl _ \<Rightarrow> (ScheduledWaiting, [])))"

definition send_native :: "send_answers \<Rightarrow> string \<times> string" where
  "send_native a =
     (case sa_queue a of
        QueueOk \<Rightarrow> (''queued'', ''handed to the outbox for delivery'')
      | QueueStale \<Rightarrow> (ScheduledReturning, reasonSender)
      | QueueDevice \<Rightarrow> (ScheduledReturning, reasonDevice)
      | QueueCapacity \<Rightarrow> (ScheduledReturning, reasonFull)
      | QueueFailed \<Rightarrow> (ScheduledWaiting, []))"

text \<open>
  \<open>now\<close> is the reading for the ledger. The last case has its errors; its panic, an index out of range, needs a
  quota that is not positive, which \<open>sendQuotaFor\<close> never answers (\<open>sendQuotaFor_Valid\<close>).
\<close>

definition dispatchScheduled :: "send_answers \<Rightarrow> scheduled_job \<Rightarrow> time \<Rightarrow> ledger \<Rightarrow> (string \<times> string) \<times> ledger" where
  "dispatchScheduled a j now l =
     (case scheduledAuthority a j of
        UserGone \<Rightarrow> ((''failed'', reasonGone), l)
      | AuthorityError \<Rightarrow> ((ScheduledWaiting, []), l)
      | Refused reason \<Rightarrow> ((ScheduledReturning, reason), l)
      | Authorised \<Rightarrow>
          (case chargeSend (sa_override a) (sa_quota a) True (sa_ledger a) (sj_ID j) (sj_UserID j) (recipient_count j) (unix now) l of
             (Charged (ErrSendQuota wait), l') \<Rightarrow> ((ScheduledWaiting, reasonQuota), l')
           | (Charged ErrSendTooLarge, l') \<Rightarrow> ((ScheduledReturning, too_large_text), l')
           | (Charged Admitted, l') \<Rightarrow> (if sj_Native j then send_native a else send_smtp a j, l')
           | (_, l') \<Rightarrow> ((ScheduledWaiting, []), l')))"

text \<open>
  What \<open>runScheduled\<close> decides of a claimed row before it writes it back: the new status, the reason and the
  next attempt. \<open>t1\<close>, \<open>t2\<close>, \<open>t3\<close> are the three readings of the clock.
\<close>

record verdict =
  vd_Status :: string
  vd_Reason :: string
  vd_Next :: int

definition sched_deadline :: "sched_row \<Rightarrow> time" where
  "sched_deadline r = from_unix (sc_SendAt r) + scheduledRetryWindow"

definition run_verdict ::
  "(string option \<Rightarrow> scheduled_job option) \<Rightarrow> send_answers \<Rightarrow> time \<Rightarrow> time \<Rightarrow> time \<Rightarrow> sched_row \<Rightarrow> ledger \<Rightarrow> verdict \<times> ledger" where
  "run_verdict opened a t1 t2 t3 row l =
     (case openScheduledRow opened row of
        None \<Rightarrow> (\<lparr>vd_Status = ''failed'', vd_Reason = reasonLost, vd_Next = 0\<rparr>, l)
      | Some j \<Rightarrow>
          (let late = (if sc_Reason row = reasonQuota then reasonQuota else reasonLate);
               ((next, reason), l') =
                 (if \<not> t1 > sched_deadline row then dispatchScheduled a j t2 l else ((ScheduledReturning, late), l));
               retry = t3 + scheduledRetryDelay in
           if next = ScheduledWaiting then
             (if retry < sched_deadline row then (\<lparr>vd_Status = ScheduledWaiting, vd_Reason = reason, vd_Next = unix retry\<rparr>, l')
              else (\<lparr>vd_Status = ScheduledReturning, vd_Reason = (if reason = [] then reasonLate else reason), vd_Next = 0\<rparr>, l'))
           else (\<lparr>vd_Status = next, vd_Reason = reason, vd_Next = 0\<rparr>, l')))"

text \<open>
  \<open>draft\<close> is the mail client: whether the draft was saved. The result is whether the row was returned; the
  write of the row may fail (\<open>db\<close>).
\<close>

record draft_answers =
  da_user :: "unit answer"
  da_draft :: bool
  da_db :: bool
  da_epoch :: int

definition save_move :: "(string option \<Rightarrow> scheduled_job option) \<Rightarrow> draft_answers \<Rightarrow> time \<Rightarrow> sched_row \<Rightarrow> bool \<times> verdict" where
  "save_move opened d now row =
     (case openScheduledRow opened row of
        None \<Rightarrow> (False, \<lparr>vd_Status = ''failed'', vd_Reason = reasonLost, vd_Next = 0\<rparr>)
      | Some j \<Rightarrow>
          if da_user d = Missing then (False, \<lparr>vd_Status = ''failed'', vd_Reason = reasonGone, vd_Next = 0\<rparr>)
          else if \<not> da_draft d then
            (if sc_ReturningSince row > 0 \<and> now - from_unix (sc_ReturningSince row) > scheduledReturnFor then
               (False, \<lparr>vd_Status = ''failed'', vd_Reason = reasonNoDraft, vd_Next = 0\<rparr>)
             else (False, \<lparr>vd_Status = ScheduledReturning, vd_Reason = sc_Reason row, vd_Next = unix (now + scheduledRetryDelay)\<rparr>))
          else (True, \<lparr>vd_Status = ''returned'', vd_Reason = sc_Reason row, vd_Next = 0\<rparr>))"

definition apply_verdict :: "bool \<Rightarrow> int \<Rightarrow> string \<Rightarrow> string \<Rightarrow> verdict \<Rightarrow> sched_table \<Rightarrow> sched_table" where
  "apply_verdict db unixepoch ident from v t =
     snd (MoveScheduledSend db unixepoch ident from (vd_Status v) (vd_Reason v) (vd_Next v) t)"

definition saveScheduledDraft ::
  "(string option \<Rightarrow> scheduled_job option) \<Rightarrow> draft_answers \<Rightarrow> time \<Rightarrow> sched_row \<Rightarrow> sched_table \<Rightarrow> bool \<times> sched_table" where
  "saveScheduledDraft opened d now row t =
     (case save_move opened d now row of (saved, v) \<Rightarrow> (saved, apply_verdict (da_db d) (da_epoch d) (sc_ID row) ScheduledReturning v t))"

definition runScheduled ::
  "(string option \<Rightarrow> scheduled_job option) \<Rightarrow> send_answers \<Rightarrow> bool \<Rightarrow> int \<Rightarrow> draft_answers \<Rightarrow> time \<Rightarrow> time \<Rightarrow> time \<Rightarrow> time
     \<Rightarrow> sched_row \<Rightarrow> sched_table \<times> ledger \<Rightarrow> sched_table \<times> ledger" where
  "runScheduled opened a db unixepoch d t1 t2 t3 t4 row = (\<lambda>(t, l).
     (case run_verdict opened a t1 t2 t3 row l of
        (v, l') \<Rightarrow>
          (let t' = apply_verdict db unixepoch (sc_ID row) ScheduledSending v t in
           if vd_Status v = ScheduledReturning then (snd (saveScheduledDraft opened d t4 (row\<lparr>sc_Reason := vd_Reason v\<rparr>) t'), l')
           else (t', l'))))"

section \<open>Scheduling and cancelling\<close>

datatype send_at_answer = SendNow | SendLater time | BadSendAt | OutOfRange

text \<open>\<open>rfc3339\<close> is \<open>time.Parse\<close>.\<close>

definition parseSendAt :: "(string \<Rightarrow> time option) \<Rightarrow> string \<Rightarrow> time \<Rightarrow> send_at_answer" where
  "parseSendAt rfc3339 raw now =
     (if trim_space raw = [] then SendNow
      else
        (case rfc3339 (trim_space raw) of
           None \<Rightarrow> BadSendAt
         | Some at \<Rightarrow> if at < now + scheduledMinLead \<or> at > now + scheduledMaxLead then OutOfRange else SendLater at))"

record schedule_answers =
  sd_global :: bool
  sd_key :: bool
  sd_uuid :: "string option"
  sd_addresses :: "(string \<Rightarrow> int) option"
  sd_seal :: "scheduled_job \<Rightarrow> string option"
  sd_summary :: "string option"
  sd_reserve :: "nat \<Rightarrow> bool"
  sd_db :: bool

datatype schedule_answer = ScheduledAs string time | ScheduleError nat

text \<open>\<open>user\<close> and \<open>mailbox\<close> are those of the session, \<open>fingerprint\<close> that of the account's key.\<close>

definition frozen_job :: "schedule_answers \<Rightarrow> string \<Rightarrow> string \<Rightarrow> string \<Rightarrow> string \<Rightarrow> scheduled_job \<Rightarrow> scheduled_job option" where
  "frozen_job sd ident user mailbox fingerprint j =
     (let j1 = j\<lparr>sj_ID := ident, sj_UserID := user, sj_Mailbox := (if mailbox = [] then user else mailbox),
                 sj_Job := (sj_Job j)\<lparr>job_PGPFingerprint := fingerprint\<rparr>\<rparr> in
      if sj_Native j then
        (case sd_addresses sd of
           None \<Rightarrow> None
         | Some generation \<Rightarrow> Some (j1\<lparr>sj_Job := (sj_Job j1)\<lparr>job_FromGeneration := generation (job_From (sj_Job j1))\<rparr>\<rparr>))
      else Some j1)"

definition scheduleSend ::
  "schedule_answers \<Rightarrow> string \<Rightarrow> string \<Rightarrow> string \<Rightarrow> time \<Rightarrow> time \<Rightarrow> scheduled_job \<Rightarrow> sched_table \<Rightarrow> schedule_answer \<times> sched_table" where
  "scheduleSend sd user mailbox fingerprint sendAt now j t =
     (if \<not> sd_global sd \<or> \<not> sd_key sd then (ScheduleError 503, t)
      else
        (case sd_uuid sd of
           None \<Rightarrow> (ScheduleError 503, t)
         | Some ident \<Rightarrow>
             (case frozen_job sd ident user mailbox fingerprint j of
                None \<Rightarrow> (ScheduleError 503, t)
              | Some j' \<Rightarrow>
                  (case (sd_seal sd j', sd_summary sd) of
                     (Some sealed, Some summary) \<Rightarrow>
                       if length sealed > scheduledMaxRowBytes then (ScheduleError 413, t)
                       else if \<not> sd_reserve sd (length sealed) then (ScheduleError 507, t)
                       else
                         (case AddScheduledSend (sd_db sd)
                                 \<lparr>sc_ID = ident, sc_UserID = user, sc_Mailbox = sj_Mailbox j', sc_Status = [], sc_Reason = [],
                                  sc_SendAt = unix sendAt, sc_CreatedAt = unix now, sc_ReturningSince = 0, sc_NextAttempt = 0,
                                  sc_Sealed = Some sealed, sc_Summary = summary\<rparr> maxScheduledPending scheduledMaxUserBytes t of
                            (None, t') \<Rightarrow> (ScheduledAs ident sendAt, t')
                          | (Some ErrScheduledFull, t') \<Rightarrow> (ScheduleError 409, t')
                          | (Some SchedDbError, t') \<Rightarrow> (ScheduleError 503, t'))
                   | _ \<Rightarrow> (ScheduleError 503, t)))))"

text \<open>
  Cancelling is a read, a conditional move, and then the save of the draft. \<open>db1\<close>, \<open>db2\<close> are the two
  statements, \<open>key\<close> whether the server's key can be read.
\<close>

datatype cancel_answer = Cancelled | CancelPending | CancelConflict string | CancelError nat

definition cancel_row :: "bool \<Rightarrow> bool \<Rightarrow> string \<Rightarrow> string \<Rightarrow> string \<Rightarrow> sched_table \<Rightarrow> (nat, sched_row) result" where
  "cancel_row global db1 user mailbox ident t =
     (if \<not> global \<or> \<not> db1 then Inl 503
      else
        (case GetScheduledSend ident t of
           None \<Rightarrow> Inl 404
         | Some row \<Rightarrow>
             if sc_UserID row \<noteq> user \<or> sc_Mailbox row \<noteq> (if mailbox = [] then user else mailbox) then Inl 404 else Inr row))"

definition currentScheduledStatus :: "bool \<Rightarrow> sched_row \<Rightarrow> sched_table \<Rightarrow> string" where
  "currentScheduledStatus db row t =
     (case (if db then GetScheduledSend (sc_ID row) t else None) of None \<Rightarrow> sc_Status row | Some r \<Rightarrow> sc_Status r)"

definition cancel_move :: "bool \<Rightarrow> int \<Rightarrow> time \<Rightarrow> string \<Rightarrow> sched_table \<Rightarrow> (sched_error, bool) result \<times> sched_table" where
  "cancel_move db2 unixepoch now ident t =
     MoveScheduledSend db2 unixepoch ident ScheduledWaiting ScheduledReturning reasonCanceled (unix (now + 2 * minute)) t"

definition handleScheduledCancel ::
  "(string option \<Rightarrow> scheduled_job option) \<Rightarrow> bool \<Rightarrow> bool \<Rightarrow> bool \<Rightarrow> bool \<Rightarrow> bool \<Rightarrow> int \<Rightarrow> draft_answers \<Rightarrow> time \<Rightarrow> time
     \<Rightarrow> string \<Rightarrow> string \<Rightarrow> string \<Rightarrow> sched_table \<Rightarrow> cancel_answer \<times> sched_table" where
  "handleScheduledCancel opened global key db1 db2 db3 unixepoch d now now' user mailbox ident t =
     (case cancel_row global db1 user mailbox ident t of
        Inl status \<Rightarrow> (CancelError status, t)
      | Inr row \<Rightarrow>
          (case cancel_move db2 unixepoch now (sc_ID row) t of
             (Inl _, t') \<Rightarrow> (CancelError 503, t')
           | (Inr False, t') \<Rightarrow> (CancelConflict (currentScheduledStatus db3 row t'), t')
           | (Inr True, t') \<Rightarrow>
               if \<not> key then (CancelPending, t')
               else
                 (case saveScheduledDraft opened d now' (row\<lparr>sc_Reason := reasonCanceled\<rparr>) t' of
                    (True, t'') \<Rightarrow> (Cancelled, t'') | (False, t'') \<Rightarrow> (CancelPending, t''))))"

section \<open>The draft that comes back\<close>

record compose_request =
  cr_To :: "string list"
  cr_CC :: "string list"
  cr_BCC :: "string list"
  cr_Subject :: string
  cr_Body :: string
  cr_Mode :: string
  cr_Attachments :: "string list"
  cr_Encrypt :: bool
  cr_PGPDraft :: string

definition OuterPlaceholderSubject :: string where "OuterPlaceholderSubject = ''[Encrypted] Email Sent by KyPost''"

definition raw_draft :: "string list \<Rightarrow> string \<Rightarrow> draft_message" where
  "raw_draft to raw =
     \<lparr>dm_To = to, dm_CC = [], dm_BCC = [], dm_Subject = OuterPlaceholderSubject, dm_Body = [], dm_Mode = [], dm_Attachments = [], dm_Raw = raw\<rparr>"

text \<open>\<open>shape\<close> is \<open>validatePGPMimeDeliveryShape\<close>, \<open>client\<close> whether the account keeps its key in the browser.\<close>

definition scheduledDraft :: "(string \<Rightarrow> bool) \<Rightarrow> compose_request \<Rightarrow> bool \<Rightarrow> string \<Rightarrow> (nat, draft_message) result" where
  "scheduledDraft shape req client encryptedCopy =
     (if cr_PGPDraft req \<noteq> [] then (if \<not> shape (cr_PGPDraft req) then Inl 400 else Inr (raw_draft (cr_To req) (cr_PGPDraft req)))
      else if client then Inl 409
      else if cr_Encrypt req then (if encryptedCopy = [] then Inl 409 else Inr (raw_draft (cr_To req) encryptedCopy))
      else Inr \<lparr>dm_To = cr_To req, dm_CC = cr_CC req, dm_BCC = cr_BCC req, dm_Subject = cr_Subject req, dm_Body = cr_Body req,
                dm_Mode = cr_Mode req, dm_Attachments = cr_Attachments req, dm_Raw = []\<rparr>)"

end
