(* ===== verification/Scheduled_System.thy ===== *)
theory Scheduled_System
  imports Scheduled_Send
begin

text \<open>
  The scheduled-mail system: the table, its workers and its users, as a step relation. A worker that has
  claimed a row decides what to do with it, which may hand the message to a relay, and only then writes the
  row back; cancellations, other workers, failed statements, crashes, restarts, backups and restores fall
  anywhere in between. The log has an entry for every attempt to send.
\<close>

section \<open>Outcomes\<close>

definition known_status :: "string \<Rightarrow> bool" where
  "known_status s \<longleftrightarrow> s \<in> {ScheduledWaiting, ScheduledSending, ScheduledReturning, ''sent'', ''queued'', ''uncertain'', ''returned'', ''failed''}"

text \<open>The message was, or may have been, taken by a relay or the outbox.\<close>

definition handed :: "string \<Rightarrow> bool" where
  "handed s \<longleftrightarrow> s \<in> {''sent'', ''queued'', ''uncertain''}"

lemma known_simps [simp]:
  "known_status ScheduledWaiting" "known_status ScheduledSending" "known_status ScheduledReturning"
  "known_status ''sent''" "known_status ''queued''" "known_status ''uncertain''" "known_status ''returned''" "known_status ''failed''"
  by (simp_all add: known_status_def)

lemma handed_simps [simp]:
  "handed ''sent''" "handed ''queued''" "handed ''uncertain''" "\<not> handed ''failed''" "\<not> handed ''returned''"
  "\<not> handed ScheduledWaiting" "\<not> handed ScheduledSending" "\<not> handed ScheduledReturning"
  by (simp_all add: handed_def ScheduledWaiting_def ScheduledSending_def ScheduledReturning_def)

lemma status_literals [simp]:
  "ScheduledSending \<noteq> ''sent''" "ScheduledSending \<noteq> ''queued''" "ScheduledSending \<noteq> ''uncertain''" "ScheduledSending \<noteq> ''failed''"
  "ScheduledSending \<noteq> ''returned''" "''sent'' \<noteq> ScheduledSending" "''queued'' \<noteq> ScheduledSending" "''uncertain'' \<noteq> ScheduledSending"
  "''failed'' \<noteq> ScheduledSending" "''returned'' \<noteq> ScheduledSending"
  "''failed'' \<noteq> ScheduledWaiting" "''returned'' \<noteq> ScheduledWaiting" "''sent'' \<noteq> ScheduledWaiting" "''queued'' \<noteq> ScheduledWaiting"
  "''uncertain'' \<noteq> ScheduledWaiting"
  "''failed'' \<noteq> ScheduledReturning" "''returned'' \<noteq> ScheduledReturning" "''sent'' \<noteq> ScheduledReturning"
  "''queued'' \<noteq> ScheduledReturning" "''uncertain'' \<noteq> ScheduledReturning"
  "ScheduledWaiting \<noteq> ''failed''" "ScheduledWaiting \<noteq> ''returned''" "ScheduledWaiting \<noteq> ''sent''" "ScheduledWaiting \<noteq> ''queued''"
  "ScheduledWaiting \<noteq> ''uncertain''"
  by (simp_all add: ScheduledWaiting_def ScheduledSending_def ScheduledReturning_def)

lemma handed_final: "handed s \<Longrightarrow> scheduledFinal s"
  by (auto simp: handed_def)

lemma send_native_status: "fst (send_native a) \<in> {''queued'', ScheduledReturning, ScheduledWaiting}"
  by (simp add: send_native_def split: queue_answer.split)

lemma send_smtp_status: "fst (send_smtp a j) \<in> {''sent'', ''uncertain'', ScheduledReturning, ScheduledWaiting}"
  by (simp add: send_smtp_def Let_def split: smtp_account.split sum.split smtp_answer.split prod.split)

lemma dispatch_status:
  "fst (fst (dispatchScheduled a j now l)) \<in> {''sent'', ''queued'', ''uncertain'', ''failed'', ScheduledReturning, ScheduledWaiting}"
  using send_native_status [of a] send_smtp_status [of a j]
  by (auto simp: dispatchScheduled_def split: authority.split charge_answer.split admission.split prod.split)

text \<open>A message leaves only with the sender's authority and after it was charged to the quota.\<close>

lemma dispatch_handed:
  assumes "handed (fst (fst (dispatchScheduled a j now l)))"
  shows "scheduledAuthority a j = Authorised"
    and "fst (chargeSend (sa_override a) (sa_quota a) True (sa_ledger a) (sj_ID j) (sj_UserID j) (recipient_count j) (unix now) l) = Charged Admitted"
  using assms by (auto simp: dispatchScheduled_def split: authority.splits charge_answer.splits admission.splits prod.splits)

lemma verdict_cases:
  assumes "run_verdict opened a t1 t2 t3 row l = (v, l')"
  obtains (lost) "openScheduledRow opened row = None" "vd_Status v = ''failed''"
  | (late) j where "openScheduledRow opened row = Some j" "t1 > sched_deadline row" "vd_Status v = ScheduledReturning"
  | (sent) j where "openScheduledRow opened row = Some j" "t1 \<le> sched_deadline row" "handed (vd_Status v)"
      "fst (fst (dispatchScheduled a j t2 l)) = vd_Status v"
  | (kept) j where "openScheduledRow opened row = Some j" "t1 \<le> sched_deadline row"
      "vd_Status v = ScheduledWaiting \<or> vd_Status v = ScheduledReturning \<or> vd_Status v = ''failed''"
      "\<not> handed (fst (fst (dispatchScheduled a j t2 l)))"
proof (cases "openScheduledRow opened row")
  case None
  with assms lost show thesis by (auto simp: run_verdict_def)
next
  case (Some j)
  show thesis
  proof (cases "t1 > sched_deadline row")
    case True
    with assms Some late show thesis by (auto simp: run_verdict_def Let_def split: if_splits)
  next
    case False
    obtain n r l1 where d: "dispatchScheduled a j t2 l = ((n, r), l1)" by (metis prod.exhaust)
    from dispatch_status [of a j t2 l] d have n: "n \<in> {''sent'', ''queued'', ''uncertain'', ''failed'', ScheduledReturning, ScheduledWaiting}" by simp
    with assms Some False d have v: "vd_Status v = n \<and> n \<noteq> ScheduledWaiting \<or> n = ScheduledWaiting \<and> (vd_Status v = ScheduledWaiting \<or> vd_Status v = ScheduledReturning)"
      by (auto simp: run_verdict_def Let_def split: if_splits)
    show thesis
    proof (cases "handed n")
      case True
      with v sent [OF Some] False d show thesis by auto
    next
      case f: False
      with v n kept [OF Some] False d show thesis by auto
    qed
  qed
qed

lemma verdict_status:
  assumes "run_verdict opened a t1 t2 t3 row l = (v, l')"
  shows "known_status (vd_Status v)" "vd_Status v \<noteq> ScheduledSending"
  using assms by (cases rule: verdict_cases; auto simp: handed_def)+

lemma verdict_retry:
  assumes "run_verdict opened a t1 t2 t3 row l = (v, l')" and "vd_Status v = ScheduledWaiting"
  shows "vd_Next v = unix (t3 + scheduledRetryDelay) \<and> t3 + scheduledRetryDelay < sched_deadline row"
  using assms by (auto simp: run_verdict_def Let_def split: option.splits if_splits prod.splits)

lemma apply_verdict_row:
  assumes "r \<in> set (apply_verdict db epoch i from v t)"
  obtains p where "p \<in> set t" "sc_ID p = sc_ID r" "r = p \<or> sc_Status r = vd_Status v"
  using assms by (auto simp: apply_verdict_def MoveScheduledSend_def Let_def set_update_rows moved_row_def split: if_splits)

lemma save_status: "save_move opened d now row = (saved, v) \<Longrightarrow> vd_Status v \<in> {ScheduledReturning, ''returned'', ''failed''}"
  by (auto simp: save_move_def split: option.splits if_splits)

lemma add_cases:
  obtains (full) e where "AddScheduledSend db r limit maxBytes t = (Some e, t)"
  | (added) "AddScheduledSend db r limit maxBytes t =
      (None, t @ [r\<lparr>sc_Status := ScheduledWaiting, sc_Reason := [], sc_NextAttempt := 0, sc_ReturningSince := 0\<rparr>])"
      "sc_ID r \<notin> sc_ID ` set t" "length (pending_of (sc_UserID r) t) < limit"
      "sum_list (map sealed_length (pending_of (sc_UserID r) t)) + sealed_length r \<le> maxBytes"
proof -
  have "(\<exists>e. AddScheduledSend db r limit maxBytes t = (Some e, t)) \<or>
    AddScheduledSend db r limit maxBytes t =
      (None, t @ [r\<lparr>sc_Status := ScheduledWaiting, sc_Reason := [], sc_NextAttempt := 0, sc_ReturningSince := 0\<rparr>]) \<and>
    sc_ID r \<notin> sc_ID ` set t \<and> length (pending_of (sc_UserID r) t) < limit \<and>
    sum_list (map sealed_length (pending_of (sc_UserID r) t)) + sealed_length r \<le> maxBytes"
    by (simp add: AddScheduledSend_def Let_def)
  with full added show thesis by blast
qed

lemma schedule_cases:
  assumes "scheduleSend sd user mailbox fingerprint sendAt now j t = (answer, t')"
  obtains (refused) "t' = t"
  | (added) r where "sd_uuid sd = Some (sc_ID r)" "sc_Sealed r \<noteq> None"
      "AddScheduledSend (sd_db sd) r maxScheduledPending scheduledMaxUserBytes t = (None, t')"
proof (cases "t' = t")
  case False
  with assms obtain ident j' sealed summary where d: "sd_uuid sd = Some ident" "frozen_job sd ident user mailbox fingerprint j = Some j'"
    "sd_seal sd j' = Some sealed" "sd_summary sd = Some summary"
    by (auto simp: scheduleSend_def split: if_splits option.splits)
  let ?r = "\<lparr>sc_ID = ident, sc_UserID = user, sc_Mailbox = sj_Mailbox j', sc_Status = [], sc_Reason = [],
    sc_SendAt = unix sendAt, sc_CreatedAt = unix now, sc_ReturningSince = 0, sc_NextAttempt = 0,
    sc_Sealed = Some sealed, sc_Summary = summary\<rparr>"
  have "AddScheduledSend (sd_db sd) ?r maxScheduledPending scheduledMaxUserBytes t = (None, t')"
    using assms False d
    by (cases rule: add_cases [of "sd_db sd" ?r maxScheduledPending scheduledMaxUserBytes t])
      (auto simp: scheduleSend_def split: if_splits sched_error.splits)
  with d show thesis by (intro added [of ?r]) simp_all
qed (rule refused)

section \<open>Steps\<close>

text \<open>What a worker is doing with its row; \<open>Holding\<close> and \<open>Decided\<close> own a row that is being sent.\<close>

datatype stage = Holding sched_row | Decided sched_row verdict | Saving sched_row

record attempt =
  at_ID :: string
  at_SendAt :: int
  at_Time :: time
  at_Job :: scheduled_job
  at_Answers :: send_answers
  at_Status :: string

record sched_world =
  sw_table :: sched_table
  sw_ledger :: ledger
  sw_clock :: time
  sw_workers :: "stage list"
  sw_used :: "string set"
  sw_backups :: "(sched_table \<times> ledger) list"
  sw_log :: "attempt list"

definition attempts ::
  "(string option \<Rightarrow> scheduled_job option) \<Rightarrow> send_answers \<Rightarrow> time \<Rightarrow> time \<Rightarrow> sched_row \<Rightarrow> ledger \<Rightarrow> attempt list" where
  "attempts opened a t1 t2 r l =
     (case openScheduledRow opened r of
        None \<Rightarrow> []
      | Some j \<Rightarrow>
          if t1 > sched_deadline r then []
          else [\<lparr>at_ID = sc_ID r, at_SendAt = sc_SendAt r, at_Time = t1, at_Job = j, at_Answers = a,
                 at_Status = fst (fst (dispatchScheduled a j t2 l))\<rparr>])"

text \<open>
  Identifiers are fresh UUIDs. \<open>Cancel\<close> is the conditional move of the handler, with the row as it was read at
  some earlier time; \<open>Restart\<close> is a crash or a stop with the recovery of the next start, which may fail;
  \<open>Restore\<close> puts back a fenced backup on a stopped server.
\<close>

inductive sched_step ::
  "(string option \<Rightarrow> scheduled_job option) \<Rightarrow> (sched_row list \<Rightarrow> sched_row list) \<Rightarrow> sched_world \<Rightarrow> sched_world \<Rightarrow> bool"
  for opened ord where
  Schedule: "\<lbrakk>sw_clock w \<le> now; sd_uuid sd = Some ident; ident \<notin> sw_used w;
      scheduleSend sd user mailbox fingerprint sendAt now j (sw_table w) = (answer, t')\<rbrakk> \<Longrightarrow>
    sched_step opened ord w (w\<lparr>sw_table := t', sw_clock := now, sw_used := insert ident (sw_used w)\<rparr>)"
| Claim: "\<lbrakk>sw_clock w \<le> now; ClaimScheduledSend ord db (unix now) (sw_table w) = (Inr (Some r), t')\<rbrakk> \<Longrightarrow>
    sched_step opened ord w (w\<lparr>sw_table := t', sw_clock := now, sw_workers := sw_workers w @ [Holding r]\<rparr>)"
| Decide: "\<lbrakk>sw_workers w = us @ Holding r # vs; sw_clock w \<le> t1; t1 \<le> t2; t2 \<le> t3;
      run_verdict opened a t1 t2 t3 r (sw_ledger w) = (v, l')\<rbrakk> \<Longrightarrow>
    sched_step opened ord w (w\<lparr>sw_workers := us @ Decided r v # vs, sw_clock := t1, sw_ledger := l',
      sw_log := sw_log w @ attempts opened a t1 t2 r (sw_ledger w)\<rparr>)"
| Finish: "sw_workers w = us @ Decided r v # vs \<Longrightarrow>
    sched_step opened ord w (w\<lparr>sw_table := apply_verdict db epoch (sc_ID r) ScheduledSending v (sw_table w),
      sw_workers := us @ (if vd_Status v = ScheduledReturning then [Saving (r\<lparr>sc_Reason := vd_Reason v\<rparr>)] else []) @ vs\<rparr>)"
| Save: "\<lbrakk>sw_workers w = us @ Saving r # vs; sw_clock w \<le> now\<rbrakk> \<Longrightarrow>
    sched_step opened ord w (w\<lparr>sw_table := snd (saveScheduledDraft opened d now r (sw_table w)), sw_clock := now, sw_workers := us @ vs\<rparr>)"
| Return: "\<lbrakk>sw_clock w \<le> now; r \<in> set (ScheduledReturns ord (unix now) (sw_table w))\<rbrakk> \<Longrightarrow>
    sched_step opened ord w (w\<lparr>sw_clock := now, sw_workers := sw_workers w @ [Saving r]\<rparr>)"
| Cancel: "\<lbrakk>sw_clock w \<le> now; cancel_move db epoch now (sc_ID row) (sw_table w) = (Inr moved, t')\<rbrakk> \<Longrightarrow>
    sched_step opened ord w (w\<lparr>sw_table := t', sw_clock := now,
      sw_workers := sw_workers w @ (if moved \<and> key then [Saving (row\<lparr>sc_Reason := reasonCanceled\<rparr>)] else [])\<rparr>)"
| Prune: "sched_step opened ord w (w\<lparr>sw_table := snd (PruneScheduledSends db before (sw_table w))\<rparr>)"
| Restart: "sched_step opened ord w (w\<lparr>sw_table := snd (InterruptScheduledSends db (sw_table w)), sw_workers := []\<rparr>)"
| Backup: "sched_step opened ord w (w\<lparr>sw_backups := (sw_table w, sw_ledger w) # sw_backups w\<rparr>)"
| Restore: "\<lbrakk>(t, l) \<in> set (sw_backups w); FenceRestoredScheduledSends True True t = (None, t')\<rbrakk> \<Longrightarrow>
    sched_step opened ord w (w\<lparr>sw_table := t', sw_ledger := l, sw_workers := []\<rparr>)"

definition sched_start :: "time \<Rightarrow> sched_world" where
  "sched_start now = \<lparr>sw_table = [], sw_ledger = [], sw_clock = now, sw_workers = [], sw_used = {}, sw_backups = [], sw_log = []\<rparr>"

definition sched_reach :: "(string option \<Rightarrow> scheduled_job option) \<Rightarrow> (sched_row list \<Rightarrow> sched_row list) \<Rightarrow> sched_world \<Rightarrow> bool" where
  "sched_reach opened ord w \<longleftrightarrow> (\<exists>now. (sched_step opened ord)\<^sup>*\<^sup>* (sched_start now) w)"

lemma sched_reach_induct [consumes 1, case_names start step]:
  assumes "sched_reach opened ord w" and "\<And>now. P (sched_start now)"
    and "\<And>w w'. sched_reach opened ord w \<Longrightarrow> P w \<Longrightarrow> sched_step opened ord w w' \<Longrightarrow> P w'"
  shows "P w"
proof -
  from assms(1) obtain now where "(sched_step opened ord)\<^sup>*\<^sup>* (sched_start now) w" unfolding sched_reach_def by blast
  then have "sched_reach opened ord w \<and> P w"
    by (induction rule: rtranclp_induct) (use assms(2,3) in \<open>auto simp: sched_reach_def intro: rtranclp.rtrancl_into_rtrancl\<close>)
  then show ?thesis ..
qed

section \<open>Invariants of the table\<close>

text \<open>What a worker has decided is a known status, and not to go on sending.\<close>

lemma decided_status:
  assumes "sched_reach opened ord w" and "Decided r v \<in> set (sw_workers w)"
  shows "known_status (vd_Status v) \<and> vd_Status v \<noteq> ScheduledSending"
  using assms
proof (induction arbitrary: r v rule: sched_reach_induct)
  case (start now)
  then show ?case by (simp add: sched_start_def)
next
  case (step w w')
  from step.hyps(2) step.IH step.prems show ?case
    by (cases rule: sched_step.cases) (auto dest: verdict_status split: if_splits)
qed

text \<open>How a statement other than a claim may change a row: it was pending, and it does not start to be sent.\<close>

definition row_move :: "sched_row \<Rightarrow> sched_row \<Rightarrow> bool" where
  "row_move r r' \<longleftrightarrow>
     sc_ID r' = sc_ID r \<and> sc_UserID r' = sc_UserID r \<and> \<not> scheduledFinal (sc_Status r) \<and> known_status (sc_Status r') \<and>
     sc_Status r' \<noteq> ScheduledSending \<and> sc_Sealed r' = (if scheduledFinal (sc_Status r') then None else sc_Sealed r)"

definition stored_tables :: "sched_world \<Rightarrow> sched_table set" where
  "stored_tables w = insert (sw_table w) (fst ` set (sw_backups w))"

locale table_invariant =
  fixes inv :: "sched_table \<Rightarrow> bool"
  assumes inv_empty: "inv []"
    and inv_add: "\<lbrakk>inv t; AddScheduledSend db r maxScheduledPending scheduledMaxUserBytes t = (None, t'); sc_Sealed r \<noteq> None\<rbrakk> \<Longrightarrow> inv t'"
    and inv_claim: "\<lbrakk>inv t; r \<in> set (claimable now t)\<rbrakk> \<Longrightarrow>
      inv (update_rows (\<lambda>q. sc_ID q = sc_ID r \<and> sc_Status q = ScheduledWaiting) (\<lambda>q. q\<lparr>sc_Status := ScheduledSending\<rparr>) t)"
    and inv_change: "\<lbrakk>inv t; \<And>r. r \<in> set t \<Longrightarrow> P r \<Longrightarrow> row_move r (upd r)\<rbrakk> \<Longrightarrow> inv (update_rows P upd t)"
    and inv_drop: "inv t \<Longrightarrow> inv (filter Q t)"
begin

lemma inv_move:
  assumes "inv t" and "\<not> scheduledFinal from" "known_status to" "to \<noteq> ScheduledSending"
  shows "inv (snd (MoveScheduledSend db epoch ident from to reason next t))"
  using assms by (auto simp: MoveScheduledSend_def Let_def moved_row_def row_move_def intro!: inv_change)

lemma inv_interrupt: "inv t \<Longrightarrow> inv (snd (InterruptScheduledSends db t))"
  by (auto simp: InterruptScheduledSends_def row_move_def intro!: inv_change)

lemma inv_fence: "inv t \<Longrightarrow> inv (snd (FenceRestoredScheduledSends db1 db2 t))"
  by (auto simp: FenceRestoredScheduledSends_def row_move_def intro!: inv_interrupt inv_change)

lemma inv_prune: "inv t \<Longrightarrow> inv (snd (PruneScheduledSends db before t))"
  by (simp add: PruneScheduledSends_def inv_drop)

lemma inv_save:
  assumes "inv t" shows "inv (snd (saveScheduledDraft opened d now r t))"
proof -
  obtain saved v where v: "save_move opened d now r = (saved, v)" by (metis prod.exhaust)
  with save_status [OF v] assms show ?thesis by (auto simp: saveScheduledDraft_def apply_verdict_def intro!: inv_move)
qed

lemma inv_schedule: "inv t \<Longrightarrow> scheduleSend sd user mailbox fingerprint sendAt now j t = (answer, t') \<Longrightarrow> inv t'"
  by (erule schedule_cases) (auto intro: inv_add)

lemma inv_step:
  assumes "sched_step opened ord w w'" and "\<And>xs. mset (ord xs) = mset xs" and "sched_reach opened ord w"
    and old: "\<forall>t \<in> stored_tables w. inv t"
  shows "\<forall>t \<in> stored_tables w'. inv t"
proof -
  have now: "inv (sw_table w)" using old by (simp add: stored_tables_def)
  from assms(1) show ?thesis
  proof cases
    case (Claim now db r t')
    from assms(2) Claim(3) show ?thesis by (rule claim_cases) (use Claim(1) old now inv_claim in \<open>auto simp: stored_tables_def\<close>)
  next
    case (Finish us r v vs db epoch)
    with decided_status [OF assms(3), of r v] old now show ?thesis by (simp add: apply_verdict_def inv_move stored_tables_def)
  next
    case (Cancel now db epoch row moved t' key)
    have "inv (snd (cancel_move db epoch now (sc_ID row) (sw_table w)))" by (simp add: cancel_move_def inv_move now)
    with Cancel old show ?thesis by (simp add: stored_tables_def)
  next
    case (Restore t l t')
    with old have "inv t" by (force simp: stored_tables_def)
    with inv_fence [of t True True] Restore old show ?thesis by (simp add: stored_tables_def)
  qed (use old now in \<open>simp_all add: stored_tables_def inv_schedule inv_save inv_prune inv_interrupt\<close>)
qed

lemma inv_reach:
  assumes "sched_reach opened ord w" and "\<And>xs. mset (ord xs) = mset xs"
  shows "inv (sw_table w)"
proof -
  have "\<forall>t \<in> stored_tables w. inv t"
    using assms(1)
  proof (induction rule: sched_reach_induct)
    case (start now)
    show ?case by (simp add: sched_start_def inv_empty stored_tables_def)
  next
    case (step w w')
    show ?case by (rule inv_step [OF step.hyps(2) assms(2) step.hyps(1) step.IH])
  qed
  then show ?thesis by (simp add: stored_tables_def)
qed

end

section \<open>Typed rows, one per user in flight\<close>

definition row_typed :: "sched_row \<Rightarrow> bool" where
  "row_typed r \<longleftrightarrow> known_status (sc_Status r) \<and> (sc_Sealed r = None \<longleftrightarrow> scheduledFinal (sc_Status r))"

lemma row_move_typed: "row_move r r' \<Longrightarrow> row_typed r \<Longrightarrow> row_typed r'"
  by (cases "scheduledFinal (sc_Status r')") (auto simp: row_move_def row_typed_def)

definition in_flight :: "sched_table \<Rightarrow> sched_row list" where
  "in_flight t = filter (\<lambda>r. sc_Status r = ScheduledSending) t"

definition rows_ok :: "sched_table \<Rightarrow> bool" where
  "rows_ok t \<longleftrightarrow> distinct (map sc_ID t) \<and> list_all row_typed t \<and> distinct (map sc_UserID (in_flight t))"

lemma distinct_map_in_flight: "distinct (map f t) \<Longrightarrow> distinct (map f (in_flight t))"
  by (induction t) (auto simp: in_flight_def)

lemma in_flight_change:
  assumes "\<And>r. r \<in> set t \<Longrightarrow> P r \<Longrightarrow> sc_Status (upd r) \<noteq> ScheduledSending"
  shows "in_flight (update_rows P upd t) = filter (\<lambda>r. \<not> P r) (in_flight t)"
  using assms by (induction t) (auto simp: in_flight_def)

lemma distinct_map_filter': "distinct (map f xs) \<Longrightarrow> distinct (map f (filter P xs))"
  by (induction xs) auto

text \<open>The rows in flight after a claim: one more, of a user who had none.\<close>

lemma in_flight_claim:
  assumes "distinct (map sc_ID t)" and "r \<in> set t" "sc_Status r = ScheduledWaiting"
  shows "mset (map sc_UserID (in_flight (update_rows (\<lambda>q. sc_ID q = sc_ID r \<and> sc_Status q = ScheduledWaiting)
      (\<lambda>q. q\<lparr>sc_Status := ScheduledSending\<rparr>) t))) = add_mset (sc_UserID r) (mset (map sc_UserID (in_flight t)))"
  using assms
proof (induction t)
  case (Cons q t)
  show ?case
  proof (cases "r = q")
    case True
    with Cons.prems have "sc_ID r \<notin> sc_ID ` set t" by simp
    then have "\<forall>p \<in> set t. \<not> (sc_ID p = sc_ID r \<and> sc_Status p = ScheduledWaiting)" by (metis imageI)
    then have "update_rows (\<lambda>q. sc_ID q = sc_ID r \<and> sc_Status q = ScheduledWaiting) (\<lambda>q. q\<lparr>sc_Status := ScheduledSending\<rparr>) t = t"
      by (simp add: update_rows_def map_idI)
    with True Cons.prems show ?thesis by (simp add: in_flight_def)
  next
    case False
    with Cons.prems have "sc_ID q \<noteq> sc_ID r" by force
    with Cons False show ?thesis by (simp add: in_flight_def)
  qed
qed simp

lemma claimable_in_flight: "r \<in> set (claimable now t) \<Longrightarrow> sc_UserID r \<notin> sc_UserID ` set (in_flight t)"
  by (simp add: claimable_def in_flight_def)

interpretation rows: table_invariant rows_ok
proof
  show "rows_ok []" by (simp add: rows_ok_def in_flight_def)
next
  fix t db r t'
  assume t: "rows_ok t" and s: "sc_Sealed r \<noteq> None"
    and a: "AddScheduledSend db r maxScheduledPending scheduledMaxUserBytes t = (None, t')"
  from a show "rows_ok t'"
    by (cases rule: add_cases [of db r maxScheduledPending scheduledMaxUserBytes t])
      (use t s in \<open>auto simp: rows_ok_def in_flight_def row_typed_def\<close>)
next
  fix t r now
  assume t: "rows_ok t" and r: "r \<in> set (claimable now t)"
  let ?t = "update_rows (\<lambda>q. sc_ID q = sc_ID r \<and> sc_Status q = ScheduledWaiting) (\<lambda>q. q\<lparr>sc_Status := ScheduledSending\<rparr>) t"
  have "mset (map sc_UserID (in_flight ?t)) = add_mset (sc_UserID r) (mset (map sc_UserID (in_flight t)))"
    using in_flight_claim t r by (simp add: rows_ok_def claimable_def)
  moreover have "distinct (sc_UserID r # map sc_UserID (in_flight t))"
    using t claimable_in_flight [OF r] by (simp add: rows_ok_def)
  ultimately have "distinct (map sc_UserID (in_flight ?t))"
    by (metis mset.simps(2) mset_eq_imp_distinct_iff)
  moreover have "list_all row_typed ?t" using t by (auto simp: rows_ok_def row_typed_def list_all_iff set_update_rows)
  ultimately show "rows_ok ?t" using t by (simp add: rows_ok_def)
next
  fix t P upd
  assume t: "rows_ok t" and m: "\<And>r. r \<in> set t \<Longrightarrow> P r \<Longrightarrow> row_move r (upd r)"
  have "map sc_ID (update_rows P upd t) = map sc_ID t" using m by (auto simp: update_rows_def row_move_def)
  moreover have "in_flight (update_rows P upd t) = filter (\<lambda>r. \<not> P r) (in_flight t)"
    by (rule in_flight_change) (use m row_move_def in blast)
  moreover have "list_all row_typed (update_rows P upd t)"
    unfolding list_all_iff set_update_rows
  proof
    fix x assume "x \<in> (\<lambda>r. if P r then upd r else r) ` set t"
    then obtain r where "r \<in> set t" "x = (if P r then upd r else r)" by blast
    with m [of r] t row_move_typed show "row_typed x" by (auto simp: rows_ok_def list_all_iff)
  qed
  ultimately show "rows_ok (update_rows P upd t)" using t by (simp add: rows_ok_def distinct_map_filter')
next
  fix t Q
  assume "rows_ok t"
  moreover have "in_flight (filter Q t) = filter Q (in_flight t)" by (auto simp: in_flight_def conj_commute)
  ultimately show "rows_ok (filter Q t)" by (simp add: rows_ok_def distinct_map_filter' list_all_iff)
qed

section \<open>Pending rows are bounded\<close>

definition pending_ok :: "sched_table \<Rightarrow> bool" where
  "pending_ok t \<longleftrightarrow> (\<forall>u. length (pending_of u t) \<le> maxScheduledPending \<and>
     sum_list (map sealed_length (pending_of u t)) \<le> scheduledMaxUserBytes)"

lemma pending_shrinks:
  assumes "\<And>r. r \<in> set t \<Longrightarrow> P r \<Longrightarrow> sc_UserID (upd r) = sc_UserID r \<and> \<not> scheduledFinal (sc_Status r) \<and> sealed_length (upd r) \<le> sealed_length r"
  shows "length (pending_of u (update_rows P upd t)) \<le> length (pending_of u t) \<and>
    sum_list (map sealed_length (pending_of u (update_rows P upd t))) \<le> sum_list (map sealed_length (pending_of u t))"
  using assms
proof (induction t)
  case (Cons r t)
  then have IH: "length (pending_of u (update_rows P upd t)) \<le> length (pending_of u t)"
    "sum_list (map sealed_length (pending_of u (update_rows P upd t))) \<le> sum_list (map sealed_length (pending_of u t))" by simp_all
  have r: "sc_UserID (upd r) = sc_UserID r" "\<not> scheduledFinal (sc_Status r)" "sealed_length (upd r) \<le> sealed_length r" if "P r"
    using Cons.prems [of r] that by simp_all
  show ?case
  proof (cases "P r")
    case True
    show ?thesis
      using IH r [OF True] True
      by (cases "scheduledFinal (sc_Status (upd r))"; cases "sc_UserID r = u") (simp_all add: pending_of_def)
  next
    case False
    with IH show ?thesis by (simp add: pending_of_def)
  qed
qed (simp add: pending_of_def)

lemma pending_ok_change:
  assumes "pending_ok t"
    and "\<And>r. r \<in> set t \<Longrightarrow> P r \<Longrightarrow> sc_UserID (upd r) = sc_UserID r \<and> \<not> scheduledFinal (sc_Status r) \<and> sealed_length (upd r) \<le> sealed_length r"
  shows "pending_ok (update_rows P upd t)"
  unfolding pending_ok_def
proof
  fix u
  have "length (pending_of u t) \<le> maxScheduledPending" "sum_list (map sealed_length (pending_of u t)) \<le> scheduledMaxUserBytes"
    using assms(1) by (simp_all add: pending_ok_def)
  then show "length (pending_of u (update_rows P upd t)) \<le> maxScheduledPending \<and>
    sum_list (map sealed_length (pending_of u (update_rows P upd t))) \<le> scheduledMaxUserBytes"
    using pending_shrinks [of t P upd u, OF assms(2)] order_trans by blast
qed

lemma pending_filter:
  "length (pending_of u (filter Q t)) \<le> length (pending_of u t) \<and>
   sum_list (map sealed_length (pending_of u (filter Q t))) \<le> sum_list (map sealed_length (pending_of u t))"
  by (induction t) (auto simp: pending_of_def)

interpretation pending: table_invariant pending_ok
proof
  show "pending_ok []" by (simp add: pending_ok_def pending_of_def)
next
  fix t db r t'
  assume t: "pending_ok t" and a: "AddScheduledSend db r maxScheduledPending scheduledMaxUserBytes t = (None, t')"
  from a show "pending_ok t'"
    by (cases rule: add_cases [of db r maxScheduledPending scheduledMaxUserBytes t])
      (use t in \<open>auto simp: pending_ok_def pending_of_def sealed_length_def\<close>)
next
  fix t r now
  assume "pending_ok t"
  then show "pending_ok (update_rows (\<lambda>q. sc_ID q = sc_ID r \<and> sc_Status q = ScheduledWaiting) (\<lambda>q. q\<lparr>sc_Status := ScheduledSending\<rparr>) t)"
    by (rule pending_ok_change) (auto simp: sealed_length_def)
next
  fix t P upd
  assume "pending_ok t" and "\<And>r. r \<in> set t \<Longrightarrow> P r \<Longrightarrow> row_move r (upd r)"
  then show "pending_ok (update_rows P upd t)"
    by (intro pending_ok_change) (auto simp: row_move_def sealed_length_def split: option.split)
next
  fix t Q
  assume "pending_ok t"
  then show "pending_ok (filter Q t)" unfolding pending_ok_def using pending_filter order_trans by blast
qed

end
