(* ===== verification/Scheduled_Properties.thy ===== *)
theory Scheduled_Properties
  imports Scheduled_System
begin

text \<open>
  The properties of scheduled mail: who owns a row that is being sent, which messages are settled for good,
  and what follows for every run of the system.
\<close>

section \<open>What a statement does to the status of rows\<close>

text \<open>Every row after the statement comes from one before it, with its status kept or changed as \<open>A\<close> allows.\<close>

definition rows_from :: "(string \<Rightarrow> string \<Rightarrow> string \<Rightarrow> bool) \<Rightarrow> sched_table \<Rightarrow> sched_table \<Rightarrow> bool" where
  "rows_from A t t' \<longleftrightarrow>
     (\<forall>r' \<in> set t'. \<exists>r \<in> set t. sc_ID r' = sc_ID r \<and> (sc_Status r' = sc_Status r \<or> A (sc_ID r) (sc_Status r) (sc_Status r')))"

lemma rows_from_refl: "rows_from A t t"
  by (auto simp: rows_from_def)

lemma rows_from_mono:
  assumes "rows_from A t t'" and "\<And>i a b. A i a b \<Longrightarrow> B i a b"
  shows "rows_from B t t'"
  using assms(1) unfolding rows_from_def by (metis assms(2))

lemma rows_from_update:
  assumes "\<And>r. P r \<Longrightarrow> sc_ID (upd r) = sc_ID r \<and> A (sc_ID r) (sc_Status r) (sc_Status (upd r))"
  shows "rows_from A t (update_rows P upd t)"
  unfolding rows_from_def set_update_rows using assms by auto

lemma rows_from_filter: "rows_from A t (filter Q t)"
  by (auto simp: rows_from_def)

lemma rows_from_move:
  "rows_from (\<lambda>i a b. i = ident \<and> a = from \<and> b = to) t (snd (MoveScheduledSend db epoch ident from to reason next t))"
  by (auto simp: MoveScheduledSend_def Let_def moved_row_def intro!: rows_from_update rows_from_refl)

lemma rows_from_save:
  "rows_from (\<lambda>i a b. a = ScheduledReturning \<and> b \<noteq> ScheduledWaiting) t (snd (saveScheduledDraft opened d now r t))"
proof -
  obtain saved v where v: "save_move opened d now r = (saved, v)" by (metis prod.exhaust)
  have "rows_from (\<lambda>i a b. i = sc_ID r \<and> a = ScheduledReturning \<and> b = vd_Status v) t (snd (saveScheduledDraft opened d now r t))"
    unfolding saveScheduledDraft_def apply_verdict_def v by (simp add: rows_from_move)
  then show ?thesis by (rule rows_from_mono) (use save_status [OF v] in auto)
qed

lemma rows_from_interrupt: "rows_from (\<lambda>i a b. a = ScheduledSending \<and> b = ''uncertain'') t (snd (InterruptScheduledSends db t))"
  by (auto simp: InterruptScheduledSends_def intro!: rows_from_update rows_from_refl)

lemma rows_from_prune: "rows_from A t (snd (PruneScheduledSends db before t))"
  by (simp add: PruneScheduledSends_def rows_from_filter rows_from_refl)

lemma rows_from_cancel:
  assumes "cancel_move db epoch now ident t = (moved, t')"
  shows "rows_from (\<lambda>i a b. i = ident \<and> a = ScheduledWaiting \<and> b = ScheduledReturning) t t'"
  using rows_from_move [of ident ScheduledWaiting ScheduledReturning t db epoch reasonCanceled "unix (now + 2 * minute)"] assms
  by (simp add: cancel_move_def)

lemma rows_from_claim:
  assumes "\<And>xs. mset (ord xs) = mset xs" and "ClaimScheduledSend ord db now t = (Inr (Some r), t')"
  shows "rows_from (\<lambda>i a b. i = sc_ID r \<and> a = ScheduledWaiting \<and> b = ScheduledSending) t t'"
  using assms by (rule claim_cases) (auto intro!: rows_from_update)

lemma fenced_not_waiting:
  assumes "FenceRestoredScheduledSends True db t = (None, t')"
  shows "sc_ID ` set t' \<subseteq> sc_ID ` set t" and "\<forall>r \<in> set t'. sc_Status r \<noteq> ScheduledWaiting"
  using assms
  by (auto simp: FenceRestoredScheduledSends_def InterruptScheduledSends_def set_update_rows split: if_splits)

lemma rows_from_ids: "rows_from A t t' \<Longrightarrow> sc_ID ` set t' \<subseteq> sc_ID ` set t"
  by (auto simp: rows_from_def)

definition all_status :: "string \<Rightarrow> (string \<Rightarrow> bool) \<Rightarrow> sched_table \<Rightarrow> bool" where
  "all_status i S t \<longleftrightarrow> (\<forall>r \<in> set t. sc_ID r = i \<longrightarrow> S (sc_Status r))"

text \<open>A row that may be sent is waiting; a statement that leads no row of \<open>i\<close> there keeps it from being sent.\<close>

lemma rows_from_status:
  assumes "rows_from A t t'" and "all_status i S t" and "\<And>a b. S a \<Longrightarrow> A i a b \<Longrightarrow> S b"
  shows "all_status i S t'"
  using assms unfolding rows_from_def all_status_def by metis

section \<open>Owners\<close>

fun owned :: "stage \<Rightarrow> string list" where
  "owned (Holding r) = [sc_ID r]"
| "owned (Decided r v) = [sc_ID r]"
| "owned (Saving r) = []"

definition owners :: "stage list \<Rightarrow> string list" where
  "owners ws = concat (map owned ws)"

lemma owners_simps [simp]: "owners [] = []" "owners (x # xs) = owned x @ owners xs" "owners (xs @ ys) = owners xs @ owners ys"
  by (simp_all add: owners_def)

lemma owners_if [simp]: "owners (if b then [Saving r] else []) = []"
  by simp

lemma owner_mem: "Holding q \<in> set xs \<or> Decided q u \<in> set xs \<Longrightarrow> sc_ID q \<in> set (owners xs)"
  by (force simp: owners_def)

text \<open>Every identifier was drawn once; a row has at most one owner, and is then being sent.\<close>

definition ids_used :: "sched_world \<Rightarrow> bool" where
  "ids_used w \<longleftrightarrow> (\<forall>t \<in> stored_tables w. sc_ID ` set t \<subseteq> sw_used w)"

definition owners_ok :: "sched_world \<Rightarrow> bool" where
  "owners_ok w \<longleftrightarrow> distinct (owners (sw_workers w)) \<and> set (owners (sw_workers w)) \<subseteq> sw_used w \<and>
     (\<forall>i \<in> set (owners (sw_workers w)). all_status i (\<lambda>s. s = ScheduledSending) (sw_table w))"

lemma schedule_ids:
  assumes "scheduleSend sd user mailbox fingerprint sendAt now j t = (answer, t')" and "sd_uuid sd = Some ident"
  shows "set t' \<subseteq> set t \<union> {r. sc_ID r = ident}"
  using assms(1)
proof (cases rule: schedule_cases)
  case (added r)
  from added(3) show ?thesis
    by (cases rule: add_cases [of "sd_db sd" r maxScheduledPending scheduledMaxUserBytes t]) (use added(1) assms(2) in auto)
qed simp

lemma ids_used_tables: "ids_used w \<Longrightarrow> t \<in> stored_tables w \<Longrightarrow> sc_ID ` set t \<subseteq> sw_used w"
  by (simp add: ids_used_def)

lemma ids_used_cong:
  assumes "ids_used w" and "sc_ID ` set (sw_table w') \<subseteq> sc_ID ` set (sw_table w)" and "sw_used w' = sw_used w" "sw_backups w' = sw_backups w"
  shows "ids_used w'"
  using assms(1) order_trans [OF assms(2)] unfolding ids_used_def stored_tables_def assms(3,4) by simp

lemma ids_used_step:
  assumes "sched_step opened ord w w'" and "\<And>xs. mset (ord xs) = mset xs" and ids: "ids_used w"
  shows "ids_used w'"
  using assms(1)
proof cases
  case (Schedule now sd ident user mailbox fingerprint sendAt j answer t')
  have "sc_ID ` set t' \<subseteq> insert ident (sw_used w)"
    using schedule_ids [OF Schedule(5,3)] ids_used_tables [OF ids, of "sw_table w"] by (fastforce simp: stored_tables_def)
  with Schedule(1) ids show ?thesis by (simp add: ids_used_def stored_tables_def subset_insertI2)
next
  case (Claim now db r t')
  show ?thesis by (rule ids_used_cong [OF ids]) (use Claim(1) rows_from_ids [OF rows_from_claim [OF assms(2) Claim(3)]] in auto)
next
  case (Finish us r v vs db epoch)
  show ?thesis by (rule ids_used_cong [OF ids]) (use Finish rows_from_ids [OF rows_from_move] in \<open>simp_all add: apply_verdict_def\<close>)
next
  case (Save us r vs now d)
  show ?thesis by (rule ids_used_cong [OF ids]) (use Save rows_from_ids [OF rows_from_save] in simp_all)
next
  case (Cancel now db epoch row moved t' key)
  show ?thesis by (rule ids_used_cong [OF ids]) (use Cancel(1) rows_from_ids [OF rows_from_cancel [OF Cancel(3)]] in simp_all)
next
  case (Prune db before)
  show ?thesis by (rule ids_used_cong [OF ids]) (use Prune rows_from_ids [OF rows_from_prune] in simp_all)
next
  case (Restart db)
  show ?thesis by (rule ids_used_cong [OF ids]) (use Restart rows_from_ids [OF rows_from_interrupt] in simp_all)
next
  case (Restore t l t')
  have "t \<in> stored_tables w" using Restore(2) by (force simp: stored_tables_def)
  with fenced_not_waiting(1) [OF Restore(3)] ids_used_tables [OF ids] have "sc_ID ` set t' \<subseteq> sw_used w" by blast
  with Restore(1) ids show ?thesis by (simp add: ids_used_def stored_tables_def)
qed (use ids in \<open>simp_all add: ids_used_def stored_tables_def\<close>)

lemma owners_ok_cong:
  assumes "owners_ok w" and "distinct (owners (sw_workers w'))" "set (owners (sw_workers w')) \<subseteq> set (owners (sw_workers w))"
    and "sw_used w \<subseteq> sw_used w'"
    and "\<And>i. i \<in> set (owners (sw_workers w')) \<Longrightarrow> all_status i (\<lambda>s. s = ScheduledSending) (sw_table w) \<Longrightarrow>
      all_status i (\<lambda>s. s = ScheduledSending) (sw_table w')"
  shows "owners_ok w'"
  using assms unfolding owners_ok_def by blast

lemma owners_ok_rows:
  assumes "owners_ok w" and "rows_from A (sw_table w) (sw_table w')" and "\<And>i b. i \<in> set (owners (sw_workers w')) \<Longrightarrow> \<not> A i ScheduledSending b"
    and "distinct (owners (sw_workers w'))" "set (owners (sw_workers w')) \<subseteq> set (owners (sw_workers w))" "sw_used w \<subseteq> sw_used w'"
  shows "owners_ok w'"
  using assms(1,4,5,6)
proof (rule owners_ok_cong)
  fix i assume "i \<in> set (owners (sw_workers w'))" and i: "all_status i (\<lambda>s. s = ScheduledSending) (sw_table w)"
  then show "all_status i (\<lambda>s. s = ScheduledSending) (sw_table w')" using assms(3) by (intro rows_from_status [OF assms(2) i]) blast
qed

lemma schedule_all_status:
  assumes "scheduleSend sd user mailbox fingerprint sendAt now j t = (answer, t')" and "sd_uuid sd = Some ident" "i \<noteq> ident"
    and "all_status i S t"
  shows "all_status i S t'"
  using schedule_ids [OF assms(1,2)] assms(3,4) unfolding all_status_def by blast

lemma owners_ok_step:
  assumes "sched_step opened ord w w'" and ord: "\<And>xs. mset (ord xs) = mset xs" and ids: "ids_used w" and "rows_ok (sw_table w)" and ok: "owners_ok w"
  shows "owners_ok w'"
  using assms(1)
proof cases
  case (Schedule now sd ident user mailbox fingerprint sendAt j answer t')
  have "i \<noteq> ident" if "i \<in> set (owners (sw_workers w))" for i using that ok Schedule(4) by (auto simp: owners_ok_def)
  with ok show ?thesis
    by (intro owners_ok_cong [OF ok]) (use Schedule(1) schedule_all_status [OF Schedule(5,3)] in \<open>auto simp: owners_ok_def\<close>)
next
  case (Claim now db r t')
  from ord Claim(3) obtain r0 where r0: "r0 \<in> set (claimable (unix now) (sw_table w))" "sc_ID r = sc_ID r0"
    by (rule claim_cases) simp
  then have wait: "r0 \<in> set (sw_table w)" "sc_Status r0 = ScheduledWaiting" by (auto simp: claimable_def)
  have new: "sc_ID r \<notin> set (owners (sw_workers w))" using ok wait r0(2) unfolding owners_ok_def all_status_def by force
  have used: "sc_ID r \<in> sw_used w" using ids wait r0(2) by (auto simp: ids_used_def stored_tables_def)
  have f: "rows_from (\<lambda>i a b. i = sc_ID r \<and> a = ScheduledWaiting \<and> b = ScheduledSending) (sw_table w) t'"
    using ord Claim(3) by (rule rows_from_claim)
  have "all_status i (\<lambda>s. s = ScheduledSending) t'" if "i \<in> set (owners (sw_workers w))" for i
    by (rule rows_from_status [OF f]) (use ok that in \<open>auto simp: owners_ok_def\<close>)
  moreover have "all_status (sc_ID r) (\<lambda>s. s = ScheduledSending) t'"
    using ord Claim(3)
  proof (rule claim_cases)
    fix q assume q: "q \<in> set (claimable (unix now) (sw_table w))" and t': "t' = update_rows (\<lambda>p. sc_ID p = sc_ID q \<and> sc_Status p = ScheduledWaiting)
        (\<lambda>p. p\<lparr>sc_Status := ScheduledSending\<rparr>) (sw_table w)"
      and r: "r = q\<lparr>sc_Status := ScheduledSending, sc_ReturningSince := 0, sc_NextAttempt := 0\<rparr>"
    have "p = q" if "p \<in> set (sw_table w)" "sc_ID p = sc_ID q" for p
      using that q assms(4) unfolding rows_ok_def claimable_def distinct_map by (auto dest: inj_onD)
    with q r show ?thesis unfolding all_status_def t' set_update_rows by (auto simp: claimable_def)
  qed
  ultimately show ?thesis using Claim(1) ok new used by (auto simp: owners_ok_def)
next
  case (Decide us r vs t1 t2 t3 a v l')
  from ok show ?thesis by (rule owners_ok_cong) (use Decide ok in \<open>auto simp: owners_ok_def\<close>)
next
  case (Finish us r v vs db epoch)
  have f: "rows_from (\<lambda>i a b. i = sc_ID r \<and> a = ScheduledSending \<and> b = vd_Status v) (sw_table w) (sw_table w')"
    using Finish(1) by (simp add: apply_verdict_def rows_from_move)
  show ?thesis by (rule owners_ok_rows [OF ok f]) (use Finish ok in \<open>auto simp: owners_ok_def\<close>)
next
  case (Save us r vs now d)
  have f: "rows_from (\<lambda>i a b. a = ScheduledReturning \<and> b \<noteq> ScheduledWaiting) (sw_table w) (sw_table w')"
    using Save(1) by (simp add: rows_from_save)
  show ?thesis by (rule owners_ok_rows [OF ok f]) (use Save ok in \<open>auto simp: owners_ok_def\<close>)
next
  case (Return now r)
  from ok show ?thesis by (rule owners_ok_cong) (use Return ok in \<open>auto simp: owners_ok_def\<close>)
next
  case (Cancel now db epoch row moved t' key)
  have f: "rows_from (\<lambda>i a b. i = sc_ID row \<and> a = ScheduledWaiting \<and> b = ScheduledReturning) (sw_table w) (sw_table w')"
    using Cancel(1) rows_from_cancel [OF Cancel(3)] by simp
  show ?thesis by (rule owners_ok_rows [OF ok f]) (use Cancel ok in \<open>auto simp: owners_ok_def\<close>)
next
  case (Prune db before)
  have f: "rows_from (\<lambda>i a b. False) (sw_table w) (sw_table w')" using Prune by (simp add: rows_from_prune)
  show ?thesis by (rule owners_ok_rows [OF ok f]) (use Prune ok in \<open>auto simp: owners_ok_def\<close>)
next
  case Backup
  with ok show ?thesis by (simp add: owners_ok_def)
qed (simp_all add: owners_ok_def)

section \<open>Settled messages\<close>

text \<open>No row of the message is waiting, and no worker has it to send or will put it back.\<close>

definition settled :: "sched_world \<Rightarrow> string \<Rightarrow> bool" where
  "settled w i \<longleftrightarrow> i \<in> sw_used w \<and> all_status i (\<lambda>s. s \<noteq> ScheduledWaiting) (sw_table w) \<and>
     (\<forall>r. Holding r \<in> set (sw_workers w) \<longrightarrow> sc_ID r \<noteq> i) \<and>
     (\<forall>r v. Decided r v \<in> set (sw_workers w) \<longrightarrow> sc_ID r = i \<longrightarrow> vd_Status v \<noteq> ScheduledWaiting)"

definition attempts_of :: "string \<Rightarrow> sched_world \<Rightarrow> attempt list" where
  "attempts_of i w = filter (\<lambda>e. at_ID e = i) (sw_log w)"

lemma attempts_id: "e \<in> set (attempts opened a t1 t2 r l) \<Longrightarrow> at_ID e = sc_ID r"
  by (auto simp: attempts_def split: option.splits if_splits)

lemma settled_cong:
  assumes "settled w i" and "sw_used w \<subseteq> sw_used w'"
    and "all_status i (\<lambda>s. s \<noteq> ScheduledWaiting) (sw_table w) \<Longrightarrow> all_status i (\<lambda>s. s \<noteq> ScheduledWaiting) (sw_table w')"
    and "\<And>r. Holding r \<in> set (sw_workers w') \<Longrightarrow> Holding r \<in> set (sw_workers w) \<or> sc_ID r \<noteq> i"
    and "\<And>r v. Decided r v \<in> set (sw_workers w') \<Longrightarrow> Decided r v \<in> set (sw_workers w) \<or> sc_ID r \<noteq> i"
  shows "settled w' i"
  using assms unfolding settled_def by blast

lemma settled_step:
  assumes "sched_step opened ord w w'" and ord: "\<And>xs. mset (ord xs) = mset xs" and i: "settled w i"
  shows "settled w' i \<and> attempts_of i w' = attempts_of i w"
  using assms(1)
proof cases
  case (Schedule now sd ident user mailbox fingerprint sendAt j answer t')
  have "i \<noteq> ident" using i Schedule(4) by (auto simp: settled_def)
  then have "settled w' i"
    using schedule_all_status [OF Schedule(5,3)] by (intro settled_cong [OF i]) (use Schedule(1) in auto)
  with Schedule(1) show ?thesis by (simp add: attempts_of_def)
next
  case (Claim now db r t')
  from ord Claim(3) obtain r0 where r0: "r0 \<in> set (claimable (unix now) (sw_table w))" "sc_ID r = sc_ID r0"
    by (rule claim_cases) simp
  then have "sc_ID r \<noteq> i" using i by (auto simp: settled_def all_status_def claimable_def)
  then have "settled w' i"
    using rows_from_status [OF rows_from_claim [OF ord Claim(3)]] by (intro settled_cong [OF i]) (use Claim(1) in auto)
  with Claim(1) show ?thesis by (simp add: attempts_of_def)
next
  case (Decide us r vs t1 t2 t3 a v l')
  have r: "sc_ID r \<noteq> i" using i Decide(2) by (auto simp: settled_def)
  then have "settled w' i" by (intro settled_cong [OF i]) (use Decide in auto)
  moreover have "filter (\<lambda>e. at_ID e = i) (attempts opened a t1 t2 r (sw_ledger w)) = []"
    using r attempts_id by (auto simp: filter_empty_conv)
  ultimately show ?thesis using Decide(1) by (simp add: attempts_of_def)
next
  case (Finish us r v vs db epoch)
  have f: "rows_from (\<lambda>i a b. i = sc_ID r \<and> a = ScheduledSending \<and> b = vd_Status v) (sw_table w) (sw_table w')"
    using Finish(1) by (simp add: apply_verdict_def rows_from_move)
  have "sc_ID r = i \<Longrightarrow> vd_Status v \<noteq> ScheduledWaiting" using i Finish(2) by (auto simp: settled_def)
  then have "settled w' i" using rows_from_status [OF f] by (intro settled_cong [OF i]) (use Finish in \<open>auto split: if_splits\<close>)
  with Finish(1) show ?thesis by (simp add: attempts_of_def)
next
  case (Save us r vs now d)
  have f: "rows_from (\<lambda>i a b. a = ScheduledReturning \<and> b \<noteq> ScheduledWaiting) (sw_table w) (sw_table w')"
    using Save(1) by (simp add: rows_from_save)
  have "settled w' i" using rows_from_status [OF f] by (intro settled_cong [OF i]) (use Save in auto)
  with Save(1) show ?thesis by (simp add: attempts_of_def)
next
  case (Return now r)
  have "settled w' i" by (intro settled_cong [OF i]) (use Return in auto)
  with Return(1) show ?thesis by (simp add: attempts_of_def)
next
  case (Cancel now db epoch row moved t' key)
  have "settled w' i" using rows_from_status [OF rows_from_cancel [OF Cancel(3)]] by (intro settled_cong [OF i]) (use Cancel(1) in \<open>auto split: if_splits\<close>)
  with Cancel(1) show ?thesis by (simp add: attempts_of_def)
next
  case (Prune db before)
  have f: "rows_from (\<lambda>i a b. False) (sw_table w) (sw_table w')" using Prune by (simp add: rows_from_prune)
  have "settled w' i" using rows_from_status [OF f] by (intro settled_cong [OF i]) (use Prune in auto)
  with Prune show ?thesis by (simp add: attempts_of_def)
next
  case (Restart db)
  have f: "rows_from (\<lambda>i a b. a = ScheduledSending \<and> b = ''uncertain'') (sw_table w) (sw_table w')" using Restart by (simp add: rows_from_interrupt)
  have "settled w' i" using rows_from_status [OF f] by (intro settled_cong [OF i]) (use Restart in auto)
  with Restart show ?thesis by (simp add: attempts_of_def)
next
  case Backup
  with i show ?thesis by (simp add: settled_def attempts_of_def)
next
  case (Restore t l t')
  have "settled w' i" by (intro settled_cong [OF i]) (use Restore fenced_not_waiting(2) [OF Restore(3)] in \<open>auto simp: all_status_def\<close>)
  with Restore(1) show ?thesis by (simp add: attempts_of_def)
qed

lemma settled_steps:
  assumes "(sched_step opened ord)\<^sup>*\<^sup>* w w'" and "\<And>xs. mset (ord xs) = mset xs" and "settled w i"
  shows "settled w' i \<and> attempts_of i w' = attempts_of i w"
  using assms(1)
proof (induction rule: rtranclp_induct)
  case (step y z)
  with settled_step [OF step.hyps(2) assms(2)] show ?case by metis
qed (simp add: assms(3))

section \<open>Sending\<close>

text \<open>A worker that holds a row does so when its time has come.\<close>

definition due_ok :: "sched_world \<Rightarrow> bool" where
  "due_ok w \<longleftrightarrow> (\<forall>r. Holding r \<in> set (sw_workers w) \<longrightarrow> from_unix (sc_SendAt r) \<le> sw_clock w)"

definition attempt_ok :: "attempt \<Rightarrow> bool" where
  "attempt_ok e \<longleftrightarrow> from_unix (at_SendAt e) \<le> at_Time e \<and> at_Time e \<le> from_unix (at_SendAt e) + scheduledRetryWindow \<and>
     sj_ID (at_Job e) = at_ID e \<and> (handed (at_Status e) \<longrightarrow> scheduledAuthority (at_Answers e) (at_Job e) = Authorised)"

lemma from_unix_le: "s \<le> unix t \<Longrightarrow> from_unix s \<le> t"
proof -
  assume "s \<le> unix t"
  then have "s * second \<le> (t div second) * second" by (simp add: unix_def)
  also have "\<dots> \<le> t" by simp
  finally show ?thesis by (simp add: from_unix_def)
qed

lemma due_ok_step:
  assumes "sched_step opened ord w w'" and ord: "\<And>xs. mset (ord xs) = mset xs" and ok: "due_ok w"
  shows "due_ok w'"
  using assms(1)
proof cases
  case (Claim now db r t')
  from ord Claim(3) have "sc_SendAt r \<le> unix now" by (rule claim_cases) (auto simp: claimable_def)
  then show ?thesis using Claim ok by (auto simp: due_ok_def dest: from_unix_le)
next
  case (Finish us r v vs db epoch)
  then show ?thesis using ok by (auto simp: due_ok_def split: if_splits)
next
  case (Cancel now db epoch row moved t' key)
  then show ?thesis using ok by (auto simp: due_ok_def split: if_splits)
qed (use ok in \<open>auto simp: due_ok_def\<close>)

lemma attempts_ok:
  assumes "from_unix (sc_SendAt r) \<le> t1" and "e \<in> set (attempts opened a t1 t2 r l)"
  shows "attempt_ok e"
  using assms dispatch_handed(1)
  by (auto simp: attempts_def attempt_ok_def sched_deadline_def openScheduledRow_def split: option.splits if_splits)

lemma sched_invariants:
  assumes "sched_reach opened ord w" and "\<And>xs. mset (ord xs) = mset xs"
  shows "ids_used w \<and> owners_ok w \<and> due_ok w \<and> (\<forall>e \<in> set (sw_log w). attempt_ok e)"
  using assms(1)
proof (induction rule: sched_reach_induct)
  case (start now)
  show ?case by (simp add: sched_start_def ids_used_def stored_tables_def owners_ok_def due_ok_def)
next
  case (step w w')
  note st = step.hyps(2) assms(2)
  have "\<forall>e \<in> set (sw_log w'). attempt_ok e"
    using step.hyps(2)
  proof cases
    case (Decide us r vs t1 t2 t3 a v l')
    have "from_unix (sc_SendAt r) \<le> t1" using step.IH Decide(2,3) by (auto simp: due_ok_def intro: order_trans)
    with step.IH Decide(1) attempts_ok show ?thesis by auto
  qed (use step.IH in simp_all)
  with step.IH st rows.inv_reach [OF step.hyps(1) assms(2)] show ?case
    using ids_used_step [OF st] owners_ok_step [OF st] due_ok_step [OF st] by blast
qed

text \<open>An attempt that handed the message over settles it.\<close>

lemma handed_settles:
  assumes "sched_step opened ord w w'" and "owners_ok w" and "sw_log w' = sw_log w @ [e]" and "handed (at_Status e)"
  shows "settled w' (at_ID e)"
  using assms(1)
proof cases
  case (Decide us r vs t1 t2 t3 a v l')
  have a: "attempts opened a t1 t2 r (sw_ledger w) = [e]" using Decide(1) assms(3) by simp
  then have id: "at_ID e = sc_ID r" using attempts_id by (metis list.set_intros(1))
  from a obtain j where j: "openScheduledRow opened r = Some j" "\<not> t1 > sched_deadline r"
    "at_Status e = fst (fst (dispatchScheduled a j t2 (sw_ledger w)))"
    by (auto simp: attempts_def split: option.splits if_splits)
  have v: "vd_Status v \<noteq> ScheduledWaiting"
    using Decide(6) by (cases rule: verdict_cases) (use j assms(4) in \<open>auto simp: handed_def\<close>)
  have own: "sc_ID r \<notin> set (owners us)" "sc_ID r \<notin> set (owners vs)" "sc_ID r \<in> sw_used w"
    "all_status (sc_ID r) (\<lambda>s. s = ScheduledSending) (sw_table w)"
    using assms(2) Decide(2) by (auto simp: owners_ok_def)
  have "all_status (sc_ID r) (\<lambda>s. s \<noteq> ScheduledWaiting) (sw_table w)" using own(4) by (auto simp: all_status_def)
  with own(1-3) v owner_mem Decide(1) show ?thesis unfolding settled_def id by (auto; metis)
qed (use assms(3) in simp_all)

definition once :: "attempt list \<Rightarrow> bool" where
  "once log \<longleftrightarrow> sorted_wrt (\<lambda>e e'. handed (at_Status e) \<longrightarrow> at_ID e' \<noteq> at_ID e) log"

lemma log_step: "sched_step opened ord w w' \<Longrightarrow> sw_log w' = sw_log w \<or> (\<exists>e. sw_log w' = sw_log w @ [e])"
  by (erule sched_step.cases) (auto simp: attempts_def split: option.splits if_splits)

lemma log_once:
  assumes "sched_reach opened ord w" and "\<And>xs. mset (ord xs) = mset xs"
  shows "once (sw_log w) \<and> (\<forall>e \<in> set (sw_log w). handed (at_Status e) \<longrightarrow> settled w (at_ID e))"
  using assms(1)
proof (induction rule: sched_reach_induct)
  case (start now)
  show ?case by (simp add: once_def sched_start_def)
next
  case (step w w')
  have old: "settled w' (at_ID e)" "attempts_of (at_ID e) w' = attempts_of (at_ID e) w" if "e \<in> set (sw_log w)" "handed (at_Status e)" for e
    using settled_step [OF step.hyps(2) assms(2)] step.IH that by blast+
  from log_step [OF step.hyps(2)] show ?case
  proof
    assume "sw_log w' = sw_log w"
    with step.IH old show ?thesis by simp
  next
    assume "\<exists>e. sw_log w' = sw_log w @ [e]"
    then obtain e where e: "sw_log w' = sw_log w @ [e]" by blast
    have "at_ID e \<noteq> at_ID d" if "d \<in> set (sw_log w)" "handed (at_Status d)" for d
      using old(2) [OF that] e by (auto simp: attempts_of_def split: if_splits)
    then have "once (sw_log w')" using step.IH e by (auto simp: once_def sorted_wrt_append)
    moreover have "owners_ok w" using sched_invariants [OF step.hyps(1) assms(2)] by blast
    ultimately show ?thesis using old(1) e handed_settles [OF step.hyps(2) _ e] by auto
  qed
qed

lemma cancel_settles:
  assumes "owners_ok w" "ids_used w" "rows_ok (sw_table w)" and "cancel_move db epoch now ident (sw_table w) = (Inr True, t')"
  shows "settled (w\<lparr>sw_table := t'\<rparr>) ident"
proof -
  let ?P = "\<lambda>r. sc_ID r = ident \<and> sc_Status r = ScheduledWaiting"
  have db: "db" and n: "length (filter ?P (sw_table w)) = 1"
    and t': "t' = update_rows ?P (moved_row epoch ScheduledWaiting ScheduledReturning reasonCanceled (unix (now + 2 * minute))) (sw_table w)"
    using assms(4) by (auto simp: cancel_move_def MoveScheduledSend_def Let_def split: if_splits)
  from n obtain r where r: "r \<in> set (sw_table w)" "sc_ID r = ident" "sc_Status r = ScheduledWaiting"
    by (metis (mono_tags, lifting) filter_empty_conv length_0_conv zero_neq_one)
  have used: "ident \<in> sw_used w" using assms(2) r(1,2) by (auto simp: ids_used_def stored_tables_def)
  have "ident \<notin> set (owners (sw_workers w))"
    using assms(1) r by (auto simp: owners_ok_def all_status_def)
  then have free: "Holding q \<in> set (sw_workers w) \<Longrightarrow> sc_ID q \<noteq> ident" "Decided q u \<in> set (sw_workers w) \<Longrightarrow> sc_ID q \<noteq> ident" for q u
    using owner_mem by metis+
  have "sc_Status q \<noteq> ScheduledWaiting" if q: "q \<in> set t'" "sc_ID q = ident" for q
  proof -
    from q(1) obtain p where p: "q = (if ?P p then moved_row epoch ScheduledWaiting ScheduledReturning reasonCanceled (unix (now + 2 * minute)) p else p)"
      unfolding t' set_update_rows by blast
    show ?thesis using q(2) by (cases "?P p") (auto simp: p moved_row_def)
  qed
  then have "all_status ident (\<lambda>s. s \<noteq> ScheduledWaiting) t'" by (simp add: all_status_def)
  with used free show ?thesis by (simp add: settled_def)
qed

section \<open>Properties\<close>


text \<open>
  C7: Scheduled mail is attempted only in the hour that starts at its send time, only with the job that was sealed
  for it, and it leaves only for an active account that still has the send epoch, the key revision, the
  fingerprint and the keyring generation under which it was scheduled.
\<close>

theorem scheduled_attempt_authorised:
  assumes "sched_reach opened ord w" and "\<And>xs. mset (ord xs) = mset xs" and "e \<in> set (sw_log w)"
  shows "from_unix (at_SendAt e) \<le> at_Time e \<and> at_Time e \<le> from_unix (at_SendAt e) + 60 * minute \<and> sj_ID (at_Job e) = at_ID e \<and>
    (handed (at_Status e) \<longrightarrow>
      (\<exists>u. sa_user (at_Answers e) = Found u \<and> su_Active u \<and> \<not> su_MustChangePassword u \<and>
        job_NativeSendEpoch (sj_Job (at_Job e)) = su_NativeSendEpoch u \<and> job_PGPRevision (sj_Job (at_Job e)) = su_PGPRevision u \<and>
        job_PGPFingerprint (sj_Job (at_Job e)) = su_PGPFingerprint u \<and>
        (case su_Keyring u of Some g \<Rightarrow> job_MaterialGeneration (sj_Job (at_Job e)) = g | None \<Rightarrow> job_MaterialGeneration (sj_Job (at_Job e)) = 0)))"
proof -
  have ok: "attempt_ok e" using sched_invariants [OF assms(1,2)] assms(3) by blast
  have "\<exists>u. sa_user a = Found u \<and> su_Active u \<and> \<not> su_MustChangePassword u \<and> SenderAuthorityCurrent u (sj_Job j)"
    if "scheduledAuthority a j = Authorised" for a j
    using that by (auto simp: scheduledAuthority_def split: answer.splits if_splits)
  with ok show ?thesis unfolding attempt_ok_def SenderAuthorityCurrent_def scheduledRetryWindow_def by blast
qed

text \<open>
  C25: A cancellation that is accepted is final: whatever happens afterwards, the message is not attempted again.
\<close>

theorem canceled_message_not_sent:
  assumes "sched_reach opened ord w" and "\<And>xs. mset (ord xs) = mset xs"
    and "handleScheduledCancel opened global key db1 db2 db3 epoch d now now' user mailbox ident (sw_table w) = (answer, t')"
    and "answer = Cancelled \<or> answer = CancelPending" and "(sched_step opened ord)\<^sup>*\<^sup>* (w\<lparr>sw_table := t'\<rparr>) w'"
  shows "filter (\<lambda>e. at_ID e = ident) (sw_log w') = filter (\<lambda>e. at_ID e = ident) (sw_log w)"
proof -
  obtain row t1 where row: "cancel_row global db1 user mailbox ident (sw_table w) = Inr row"
    and m: "cancel_move db2 epoch now (sc_ID row) (sw_table w) = (Inr True, t1)"
    and t': "t' = t1 \<or> t' = snd (saveScheduledDraft opened d now' (row\<lparr>sc_Reason := reasonCanceled\<rparr>) t1)"
    using assms(3,4) by (auto simp: handleScheduledCancel_def split: sum.splits prod.splits bool.splits if_splits)
  have id: "sc_ID row = ident" using row
    by (auto simp: cancel_row_def GetScheduledSend_def find_Some_iff split: if_splits option.splits)
  note inv = sched_invariants [OF assms(1,2)]
  have "settled (w\<lparr>sw_table := t1\<rparr>) ident"
    using cancel_settles [OF _ _ rows.inv_reach [OF assms(1,2)] m] inv unfolding id by blast
  moreover have "all_status ident (\<lambda>s. s \<noteq> ScheduledWaiting) t'" if "all_status ident (\<lambda>s. s \<noteq> ScheduledWaiting) t1"
    using t' that rows_from_status [OF rows_from_save that] by blast
  ultimately have "settled (w\<lparr>sw_table := t'\<rparr>) ident" by (simp add: settled_def)
  from settled_steps [OF assms(5,2) this] show ?thesis by (simp add: attempts_of_def)
qed

text \<open>
  C26: The table is well typed in every reachable state: identifiers are unique, every status is one of the eight
  of the state machine, a sealed job is stored exactly while the row is pending, and no user has two rows in
  flight.
\<close>

theorem scheduled_rows_typed:
  assumes "sched_reach opened ord w" and "\<And>xs. mset (ord xs) = mset xs"
  shows "distinct (map sc_ID (sw_table w)) \<and>
    (\<forall>r \<in> set (sw_table w). known_status (sc_Status r) \<and> (sc_Sealed r = None \<longleftrightarrow> scheduledFinal (sc_Status r))) \<and>
    distinct (map sc_UserID (filter (\<lambda>r. sc_Status r = ScheduledSending) (sw_table w)))"
  using rows.inv_reach [OF assms] by (auto simp: rows_ok_def row_typed_def in_flight_def list_all_iff)

text \<open>
  No user ever has more than 50 pending scheduled messages or more than 256 MiB of them.
\<close>

theorem scheduled_pending_bounded:
  assumes "sched_reach opened ord w" and "\<And>xs. mset (ord xs) = mset xs"
  shows "length (pending_of user (sw_table w)) \<le> 50 \<and> sum_list (map sealed_length (pending_of user (sw_table w))) \<le> 268435456"
  using pending.inv_reach [OF assms] unfolding pending_ok_def maxScheduledPending_def scheduledMaxUserBytes_def by simp

text \<open>
  C38: Working a claimed row ends its flight, whatever the rest of the server answers: when the database carries
  out the statement, the row is no longer being sent, and it is put back to wait only for an attempt before
  the end of its hour.
\<close>

theorem run_scheduled_lands:
  assumes "runScheduled opened a True epoch d t1 t2 t3 t4 row (t, l) = (t', l')" and "r \<in> set t'" "sc_ID r = sc_ID row"
    and "\<forall>q \<in> set t. sc_ID q = sc_ID row \<longrightarrow> sc_Status q = ScheduledSending"
  shows "known_status (sc_Status r) \<and> sc_Status r \<noteq> ScheduledSending \<and>
    (sc_Status r = ScheduledWaiting \<longrightarrow> from_unix (sc_NextAttempt r) < from_unix (sc_SendAt row) + 60 * minute)"
proof -
  obtain v where v: "run_verdict opened a t1 t2 t3 row l = (v, l')"
    using assms(1) by (auto simp: runScheduled_def Let_def split: prod.splits if_splits)
  note st = verdict_status [OF v]
  let ?t = "apply_verdict True epoch (sc_ID row) ScheduledSending v t"
  define S where "S = (\<lambda>q :: sched_row. known_status (sc_Status q) \<and> sc_Status q \<noteq> ScheduledSending \<and>
    (sc_Status q = ScheduledWaiting \<longrightarrow> from_unix (sc_NextAttempt q) < from_unix (sc_SendAt row) + 60 * minute))"
  have early: "vd_Status v = ScheduledWaiting \<Longrightarrow> from_unix (vd_Next v) < from_unix (sc_SendAt row) + 60 * minute"
    using verdict_retry [OF v] from_unix_le [OF order_refl, of "t3 + scheduledRetryDelay"]
    by (simp add: sched_deadline_def scheduledRetryWindow_def)
  have moved: "S q" if "q \<in> set ?t" "sc_ID q = sc_ID row" for q
  proof -
    from that(1) obtain p where p: "p \<in> set t" and q: "q = (if sc_ID p = sc_ID row \<and> sc_Status p = ScheduledSending
        then moved_row epoch ScheduledSending (vd_Status v) (vd_Reason v) (vd_Next v) p else p)"
      by (auto simp: apply_verdict_def MoveScheduledSend_def Let_def set_update_rows)
    have "sc_ID p = sc_ID row" using q that(2) by (auto simp: moved_row_def split: if_splits)
    with p assms(4) have "q = moved_row epoch ScheduledSending (vd_Status v) (vd_Reason v) (vd_Next v) p" using q by simp
    with st early show ?thesis by (simp add: S_def moved_row_def)
  qed
  have "S r"
  proof (cases "vd_Status v = ScheduledReturning")
    case False
    with assms(1) v have "t' = ?t" by (simp add: runScheduled_def Let_def)
    with moved assms(2,3) show ?thesis by blast
  next
    case True
    let ?row = "row\<lparr>sc_Reason := vd_Reason v\<rparr>"
    obtain saved u where u: "save_move opened d t4 ?row = (saved, u)" by (metis prod.exhaust)
    have "t' = apply_verdict (da_db d) (da_epoch d) (sc_ID row) ScheduledReturning u ?t"
      using assms(1) v True u by (simp add: runScheduled_def Let_def saveScheduledDraft_def)
    with assms(2) obtain p where p: "p \<in> set ?t" "sc_ID p = sc_ID r" "r = p \<or> sc_Status r = vd_Status u"
      using apply_verdict_row by metis
    with moved [of p] assms(3) save_status [OF u] show ?thesis by (auto simp: S_def)
  qed
  then show ?thesis by (simp add: S_def)
qed

text \<open>
  A restored message whose draft cannot be saved is never given up: the fence leaves \<open>returning_since\<close> at zero,
  and no later move sets it.
\<close>

lemma restored_draft_never_given_up:
  assumes "FenceRestoredScheduledSends True True t = (None, t')" and "\<forall>r \<in> set t. sc_Status r = ScheduledWaiting \<longrightarrow> sc_ReturningSince r = 0"
    and "r \<in> set t" "sc_Status r = ScheduledWaiting"
  shows "\<exists>r' \<in> set t'. sc_ID r' = sc_ID r \<and> sc_Status r' = ScheduledReturning \<and>
    (\<forall>opened d now j. openScheduledRow opened r' = Some j \<longrightarrow> da_user d \<noteq> Missing \<longrightarrow> \<not> da_draft d \<longrightarrow>
      vd_Status (snd (save_move opened d now r')) = ScheduledReturning)"
proof -
  let ?r = "r\<lparr>sc_Status := ScheduledReturning, sc_Reason := ScheduledRestored, sc_NextAttempt := 0\<rparr>"
  have "?r \<in> set t'" using assms(1,3,4)
    by (force simp: FenceRestoredScheduledSends_def InterruptScheduledSends_def set_update_rows)
  moreover have "sc_ReturningSince ?r = 0" using assms(2-4) by simp
  ultimately show ?thesis by (intro bexI [of _ ?r]) (auto simp: save_move_def)
qed

section \<open>A concrete run\<close>

text \<open>Two messages of two users, scheduled for the first minute, claimed in turn, and taken by the relay.\<close>

definition sample_now :: time where "sample_now = minute"

lemma sample_now_simps [simp]: "unix sample_now = 60" "unix 0 = 0" "0 \<le> sample_now" "from_unix 60 = sample_now"
  by (simp_all add: sample_now_def unix_def from_unix_def)

definition sample_job :: "string \<Rightarrow> string \<Rightarrow> scheduled_job" where
  "sample_job i u = \<lparr>sj_ID = i, sj_UserID = u, sj_Mailbox = u, sj_Native = False,
     sj_Job = \<lparr>job_From = ''u@x'', job_RelayGeneration = [], job_Deliveries = [\<lparr>dl_Recipients = [''v@y''], dl_Raw = ''Subject: x''\<rparr>],
       job_Sent = [], job_MaterialGeneration = 0, job_DeviceID = [], job_DeviceWitness = [], job_NativeSendEpoch = 1,
       job_PGPRevision = 0, job_PGPFingerprint = [], job_DirectoryRevision = 0, job_FromGeneration = 0,
       job_RequiresEnrollment = False, job_ExpiresAt = 0\<rparr>,
     sj_Username = ''u@x'', sj_RequestedFrom = [], sj_Sent = None, sj_Draft = raw_draft [''v@y''] ''draft''\<rparr>"

definition sample_opened :: "string option \<Rightarrow> scheduled_job option" where
  "sample_opened b = (if b = Some ''S'' then Some (sample_job ''m'' ''u'') else if b = Some ''T'' then Some (sample_job ''n'' ''v'') else None)"

definition sample_schedule :: "string \<Rightarrow> string \<Rightarrow> schedule_answers" where
  "sample_schedule i b = \<lparr>sd_global = True, sd_key = True, sd_uuid = Some i, sd_addresses = None, sd_seal = (\<lambda>j. Some b),
     sd_summary = Some ''s'', sd_reserve = (\<lambda>n. True), sd_db = True\<rparr>"

definition sample_answers :: send_answers where
  "sample_answers = \<lparr>sa_user = Found \<lparr>su_ID = ''u'', su_Active = True, su_MustChangePassword = False, su_NativeSendEpoch = 1,
       su_PGPRevision = 0, su_PGPFingerprint = [], su_Keyring = None\<rparr>,
     sa_store = True, sa_device = Missing, sa_override = (\<lambda>u. Some None), sa_quota = default_quota,
     sa_ledger = \<lparr>db_delete = True, db_insert = True, db_affected = True, db_exists = True, db_select = True\<rparr>,
     sa_queue = QueueFailed, sa_config = Found (''u@x'', True), sa_from = (0, ''u@x''), sa_relay = [SmtpAccepted], sa_sent_saved = False\<rparr>"

definition sample_row :: "string \<Rightarrow> string \<Rightarrow> string \<Rightarrow> string \<Rightarrow> sched_row" where
  "sample_row i u b st = \<lparr>sc_ID = i, sc_UserID = u, sc_Mailbox = u, sc_Status = st, sc_Reason = [], sc_SendAt = 60,
     sc_CreatedAt = 0, sc_ReturningSince = 0, sc_NextAttempt = 0, sc_Sealed = Some b, sc_Summary = ''s''\<rparr>"

lemma sample_row_simps [simp]:
  "sc_ID (sample_row i u b st) = i" "sc_UserID (sample_row i u b st) = u" "sc_Status (sample_row i u b st) = st"
  "sc_SendAt (sample_row i u b st) = 60" "sc_NextAttempt (sample_row i u b st) = 0" "sc_Sealed (sample_row i u b st) = Some b"
  "sc_Mailbox (sample_row i u b st) = u"
  "(sample_row i u b st)\<lparr>sc_Status := st'\<rparr> = sample_row i u b st'"
  "(sample_row i u b st)\<lparr>sc_ReturningSince := 0\<rparr> = sample_row i u b st"
  "(sample_row i u b st)\<lparr>sc_NextAttempt := 0\<rparr> = sample_row i u b st"
  by (simp_all add: sample_row_def)

lemma sample_scheduled:
  assumes "i \<notin> sc_ID ` set t" and "length (pending_of u t) = 0" and "b = ''S'' \<or> b = ''T''" and "u \<noteq> []"
  shows "scheduleSend (sample_schedule i b) u [] [] sample_now 0 (sample_job i u) t = (ScheduledAs i sample_now, t @ [sample_row i u b ScheduledWaiting])"
  using assms
  by (auto simp: scheduleSend_def sample_schedule_def frozen_job_def sample_job_def AddScheduledSend_def sealed_length_def
      scheduledMaxRowBytes_def maxScheduledPending_def scheduledMaxUserBytes_def sample_row_def Let_def)

lemma sample_dispatch: "fst (fst (dispatchScheduled sample_answers (sample_job i u) sample_now [])) = ''sent''"
  by (simp add: dispatchScheduled_def scheduledAuthority_def sample_answers_def sample_job_def SenderAuthorityCurrent_def chargeSend_def
      sendQuotaFor_def default_quota_def AdmitSend_def Let_def delete_old_def recent_rows_def recipient_count_def send_smtp_def
      scheduledSMTPAccount_def sanitizeHeaderValue_def trim_space_def is_space_def NormalizeSMTPMessage_def maxSMTPLine_def
      deliverIMAP_def relay_accepted_def)

definition sample_attempt :: "string \<Rightarrow> string \<Rightarrow> ledger \<Rightarrow> attempt" where
  "sample_attempt i u l = \<lparr>at_ID = i, at_SendAt = 60, at_Time = sample_now, at_Job = sample_job i u, at_Answers = sample_answers,
     at_Status = fst (fst (dispatchScheduled sample_answers (sample_job i u) sample_now l))\<rparr>"

lemma sample_attempts:
  "attempts sample_opened sample_answers sample_now sample_now (sample_row ''m'' ''u'' ''S'' st) l = [sample_attempt ''m'' ''u'' l]"
  "attempts sample_opened sample_answers sample_now sample_now (sample_row ''n'' ''v'' ''T'' st) l = [sample_attempt ''n'' ''v'' l]"
  by (simp_all add: attempts_def sample_opened_def openScheduledRow_def sample_attempt_def sample_job_def sched_deadline_def scheduledRetryWindow_def)

abbreviation sample_m :: "string \<Rightarrow> sched_row" where "sample_m \<equiv> sample_row ''m'' ''u'' ''S''"
abbreviation sample_n :: "string \<Rightarrow> sched_row" where "sample_n \<equiv> sample_row ''n'' ''v'' ''T''"

definition sample_world :: "sched_table \<Rightarrow> ledger \<Rightarrow> time \<Rightarrow> stage list \<Rightarrow> string set \<Rightarrow> attempt list \<Rightarrow> sched_world" where
  "sample_world t l c ws us es = \<lparr>sw_table = t, sw_ledger = l, sw_clock = c, sw_workers = ws, sw_used = us, sw_backups = [], sw_log = es\<rparr>"

text \<open>After the first attempt both rows are in flight; the second message is then worked as well.\<close>

lemma sample_reach1: "sched_reach sample_opened id (sample_world [sample_m ScheduledWaiting, sample_n ScheduledWaiting] [] 0 [] {''m'', ''n''} [])"
proof -
  have "sched_step sample_opened id (sched_start 0) (sample_world [sample_m ScheduledWaiting] [] 0 [] {''m''} [])"
    using sched_step.Schedule [of "sched_start 0" 0 "sample_schedule ''m'' ''S''" "''m''" "''u''" "[]" "[]" sample_now "sample_job ''m'' ''u''" _ _ sample_opened id,
        OF _ _ _ sample_scheduled]
    by (simp add: sched_start_def sample_world_def pending_of_def sample_schedule_def)
  moreover have "sched_step sample_opened id (sample_world [sample_m ScheduledWaiting] [] 0 [] {''m''} [])
      (sample_world [sample_m ScheduledWaiting, sample_n ScheduledWaiting] [] 0 [] {''m'', ''n''} [])"
    using sched_step.Schedule [of "sample_world [sample_m ScheduledWaiting] [] 0 [] {''m''} []" 0 "sample_schedule ''n'' ''T''" "''n''" "''v''" "[]" "[]" sample_now
        "sample_job ''n'' ''v''" _ _ sample_opened id, OF _ _ _ sample_scheduled]
    by (simp add: sample_world_def pending_of_def sample_schedule_def insert_commute)
  ultimately show ?thesis unfolding sched_reach_def by (meson rtranclp.rtrancl_refl rtranclp.rtrancl_into_rtrancl)
qed

lemma sample_reach:
  "\<exists>l v v' l'. sched_reach sample_opened id (sample_world [sample_m ScheduledSending, sample_n ScheduledSending] l' sample_now
     [Decided (sample_m ScheduledSending) v, Decided (sample_n ScheduledSending) v'] {''m'', ''n''} [sample_attempt ''m'' ''u'' [], sample_attempt ''n'' ''v'' l])"
proof -
  let ?w1 = "sample_world [sample_m ScheduledWaiting, sample_n ScheduledWaiting] [] 0 [] {''m'', ''n''} []"
  let ?w2 = "sample_world [sample_m ScheduledSending, sample_n ScheduledWaiting] [] sample_now [Holding (sample_m ScheduledSending)] {''m'', ''n''} []"
  obtain v l where v: "run_verdict sample_opened sample_answers sample_now sample_now sample_now (sample_m ScheduledSending) [] = (v, l)" by (metis prod.exhaust)
  let ?w3 = "sample_world [sample_m ScheduledSending, sample_n ScheduledWaiting] l sample_now [Decided (sample_m ScheduledSending) v] {''m'', ''n''} [sample_attempt ''m'' ''u'' []]"
  let ?w4 = "sample_world [sample_m ScheduledSending, sample_n ScheduledSending] l sample_now
    [Decided (sample_m ScheduledSending) v, Holding (sample_n ScheduledSending)] {''m'', ''n''} [sample_attempt ''m'' ''u'' []]"
  obtain v' l' where v': "run_verdict sample_opened sample_answers sample_now sample_now sample_now (sample_n ScheduledSending) l = (v', l')" by (metis prod.exhaust)
  let ?w5 = "sample_world [sample_m ScheduledSending, sample_n ScheduledSending] l' sample_now
    [Decided (sample_m ScheduledSending) v, Decided (sample_n ScheduledSending) v'] {''m'', ''n''} [sample_attempt ''m'' ''u'' [], sample_attempt ''n'' ''v'' l]"
  have c1: "ClaimScheduledSend id True 60 [sample_m ScheduledWaiting, sample_n ScheduledWaiting] =
      (Inr (Some (sample_m ScheduledSending)), [sample_m ScheduledSending, sample_n ScheduledWaiting])"
    by (simp add: ClaimScheduledSend_def claimable_def)
  have c2: "ClaimScheduledSend id True 60 [sample_m ScheduledSending, sample_n ScheduledWaiting] =
      (Inr (Some (sample_n ScheduledSending)), [sample_m ScheduledSending, sample_n ScheduledSending])"
    by (simp add: ClaimScheduledSend_def claimable_def)
  have "sched_step sample_opened id ?w1 ?w2"
    using sched_step.Claim [of ?w1 sample_now id True "sample_m ScheduledSending" _ sample_opened] c1 by (simp add: sample_world_def)
  moreover have "sched_step sample_opened id ?w2 ?w3"
    using sched_step.Decide [of ?w2 "[]" "sample_m ScheduledSending" "[]" sample_now sample_now sample_now sample_opened sample_answers v l id] v
    by (simp add: sample_world_def sample_attempts)
  moreover have "sched_step sample_opened id ?w3 ?w4"
    using sched_step.Claim [of ?w3 sample_now id True "sample_n ScheduledSending" _ sample_opened] c2 by (simp add: sample_world_def)
  moreover have "sched_step sample_opened id ?w4 ?w5"
    using sched_step.Decide [of ?w4 "[Decided (sample_m ScheduledSending) v]" "sample_n ScheduledSending" "[]" sample_now sample_now sample_now sample_opened sample_answers v' l' id] v'
    by (simp add: sample_world_def sample_attempts)
  ultimately have "sched_reach sample_opened id ?w5"
    using sample_reach1 unfolding sched_reach_def by (meson rtranclp.rtrancl_into_rtrancl)
  then show ?thesis by blast
qed

lemma sample_handed: "handed (at_Status (sample_attempt i u []))"
  by (simp add: sample_attempt_def sample_dispatch)


theorem scheduled_attempt_authorised_witness:
  "\<exists>w. sched_reach sample_opened id w \<and> sample_attempt ''m'' ''u'' [] \<in> set (sw_log w) \<and>
     from_unix 60 \<le> at_Time (sample_attempt ''m'' ''u'' []) \<and> (\<exists>u. sa_user sample_answers = Found u \<and> su_Active u)"
proof -
  obtain w l where w: "sched_reach sample_opened id w" "sw_log w = [sample_attempt ''m'' ''u'' [], sample_attempt ''n'' ''v'' l]"
    using sample_reach unfolding sample_world_def by fastforce
  then have "sample_attempt ''m'' ''u'' [] \<in> set (sw_log w)" by simp
  from scheduled_attempt_authorised [OF w(1) _ this] w sample_handed [of "''m''" "''u''"] show ?thesis by (auto simp: sample_attempt_def)
qed

theorem scheduled_rows_typed_witness:
  "\<exists>w. sched_reach sample_opened id w \<and> map sc_ID (sw_table w) = [''m'', ''n''] \<and> distinct (map sc_ID (sw_table w)) \<and>
     distinct (map sc_UserID (filter (\<lambda>r. sc_Status r = ScheduledSending) (sw_table w)))"
proof -
  obtain w where w: "sched_reach sample_opened id w" "sw_table w = [sample_m ScheduledSending, sample_n ScheduledSending]"
    using sample_reach unfolding sample_world_def by fastforce
  from scheduled_rows_typed [OF w(1)] w show ?thesis by auto
qed

theorem scheduled_pending_bounded_witness:
  "\<exists>w. sched_reach sample_opened id w \<and> pending_of ''u'' (sw_table w) = [sample_m ScheduledSending] \<and> length (pending_of ''u'' (sw_table w)) \<le> 50"
proof -
  obtain w where w: "sched_reach sample_opened id w" "sw_table w = [sample_m ScheduledSending, sample_n ScheduledSending]"
    using sample_reach unfolding sample_world_def by fastforce
  from scheduled_pending_bounded [OF w(1), of "''u''"] w show ?thesis by (auto simp: pending_of_def)
qed

text \<open>The mail client saves the draft of the cancelled message.\<close>

definition sample_draft :: draft_answers where
  "sample_draft = \<lparr>da_user = Found (), da_draft = True, da_db = True, da_epoch = 0\<rparr>"

theorem canceled_message_not_sent_witness:
  "\<exists>w t'. sched_reach sample_opened id w \<and>
     handleScheduledCancel sample_opened True True True True True 0 sample_draft 0 0 ''u'' [] ''m'' (sw_table w) = (Cancelled, t') \<and>
     filter (\<lambda>e. at_ID e = ''m'') (sw_log (w\<lparr>sw_table := t'\<rparr>)) = filter (\<lambda>e. at_ID e = ''m'') (sw_log w)"
proof -
  let ?w = "sample_world [sample_m ScheduledWaiting, sample_n ScheduledWaiting] [] 0 [] {''m'', ''n''} []"
  have "fst (handleScheduledCancel sample_opened True True True True True 0 sample_draft 0 0 ''u'' [] ''m'' (sw_table ?w)) = Cancelled"
    by (simp add: sample_world_def handleScheduledCancel_def cancel_row_def GetScheduledSend_def cancel_move_def MoveScheduledSend_def Let_def
        saveScheduledDraft_def save_move_def openScheduledRow_def sample_opened_def sample_job_def sample_draft_def)
  then obtain t' where t': "handleScheduledCancel sample_opened True True True True True 0 sample_draft 0 0 ''u'' [] ''m'' (sw_table ?w) = (Cancelled, t')"
    by (metis prod.collapse)
  from canceled_message_not_sent [OF sample_reach1 _ t' _ rtranclp.rtrancl_refl] sample_reach1 t' show ?thesis by auto
qed

theorem run_scheduled_lands_witness:
  "\<exists>t' l'. runScheduled sample_opened sample_answers True 0 sample_draft sample_now sample_now sample_now sample_now (sample_m ScheduledSending)
      ([sample_m ScheduledSending], []) = (t', l') \<and> map sc_ID t' = [''m''] \<and> sc_Status (hd t') \<noteq> ScheduledSending"
proof -
  obtain t' l' where r: "runScheduled sample_opened sample_answers True 0 sample_draft sample_now sample_now sample_now sample_now (sample_m ScheduledSending)
      ([sample_m ScheduledSending], []) = (t', l')" by (metis prod.exhaust)
  have ids: "map sc_ID t' = [''m'']"
    using r by (auto simp: runScheduled_def Let_def saveScheduledDraft_def apply_verdict_def MoveScheduledSend_def moved_row_def
        split: prod.splits if_splits)
  then obtain q where q: "t' = [q]" "sc_ID q = ''m''" by auto
  from run_scheduled_lands [OF r, of q] q ids r show ?thesis by auto
qed

end
