(* ===== verification/Mailbox_Store.thy ===== *)
theory Mailbox_Store
  imports Outbox "HOL-Library.List_Lexorder" "HOL-Library.Char_ord"
begin

text \<open>
  The native mailbox, \<open>backend/internal/mailbox/store.go\<close> and \<open>client_store.go\<close>: messages, folders, labels,
  delivery receipts and the change history.

  Each table is a list of its rows. Messages and changes are numbered from one in the order of insertion and
  never removed (\<open>AUTOINCREMENT\<close>), so their number is their position. A method is one transaction: it
  commits, or fails and leaves the database as it was; \<open>db\<close> says whether the database carries the statements
  out. Triggers keep the usage counters; foreign keys are checked where a statement could break them. The
  JSON text of a list of labels, or of a receipt, is the list or the receipt. The parser of messages and the
  digest are those of \<open>mail_lib\<close>; the date of a message, formatted, is an input \<open>at\<close>.
\<close>

section \<open>Names\<close>

text \<open>
  \<open>plain_text\<close>: the bytes are valid UTF-8 (\<open>utf8.ValidString\<close>) and encode no control character
  (\<open>unicode.IsControl\<close>: below 32, 127, and the two-byte codes of 128 to 159).
\<close>

definition cont :: "nat \<Rightarrow> bool" where "cont c \<longleftrightarrow> 128 \<le> c \<and> c < 192"

fun plain_text :: "nat list \<Rightarrow> bool" where
  "plain_text [] \<longleftrightarrow> True"
| "plain_text (b # bs) \<longleftrightarrow>
     (if b < 128 then 32 \<le> b \<and> b \<noteq> 127 \<and> plain_text bs
      else
        (case bs of
           [] \<Rightarrow> False
         | c # cs \<Rightarrow>
             if 194 \<le> b \<and> b < 224 then cont c \<and> \<not> (b = 194 \<and> c < 160) \<and> plain_text cs
             else
               (case cs of
                  [] \<Rightarrow> False
                | d # ds \<Rightarrow>
                    if 224 \<le> b \<and> b < 240 then
                      cont c \<and> (b = 224 \<longrightarrow> 160 \<le> c) \<and> (b = 237 \<longrightarrow> c < 160) \<and> cont d \<and> plain_text ds
                    else
                      (case ds of
                         [] \<Rightarrow> False
                       | e # es \<Rightarrow>
                           240 \<le> b \<and> b < 245 \<and> cont c \<and> (b = 240 \<longrightarrow> 144 \<le> c) \<and> (b = 244 \<longrightarrow> c < 144) \<and>
                           cont d \<and> cont e \<and> plain_text es))))"

definition validText :: "string \<Rightarrow> nat \<Rightarrow> bool" where
  "validText v limit \<longleftrightarrow> v \<noteq> [] \<and> length v \<le> limit \<and> plain_text (map of_char v)"

fun split_slash :: "string \<Rightarrow> string \<Rightarrow> string list" where
  "split_slash acc [] = [acc]"
| "split_slash acc (c # cs) = (if c = CHR ''/'' then acc # split_slash [] cs else split_slash (acc @ [c]) cs)"

definition validFolder :: "string \<Rightarrow> bool" where
  "validFolder f \<longleftrightarrow> validText f 255 \<and>
     list_all (\<lambda>p. trim_space p = p \<and> p \<noteq> [] \<and> p \<noteq> ''.'' \<and> p \<noteq> ''..'') (split_slash [] f)"

section \<open>Tables\<close>

record stored_message =
  sm_Folder :: string
  sm_Raw :: "string option"
  sm_Digest :: string
  sm_Sender :: string
  sm_Subject :: string
  sm_To :: string
  sm_CC :: string
  sm_BCC :: string
  sm_At :: string
  sm_Seen :: bool
  sm_Starred :: bool
  sm_Draft :: bool
  sm_Labels :: "string list"

record receipt =
  rc_Gateway :: string
  rc_Delivery :: string
  rc_Sender :: string
  rc_Recipients :: "(string \<times> int) list"

record mail_change =
  mc_ID :: nat
  mc_Folder :: string
  mc_Removed :: bool

record replacement =
  rp_source :: nat
  rp_marker :: string
  rp_source_hash :: string
  rp_cipher_hash :: string
  rp_new :: nat

record mail_store =
  ms_Folders :: "string list"
  ms_Labels :: "string list"
  ms_Messages :: "stored_message list"
  ms_Receipts :: "((string \<times> string) \<times> receipt \<times> string \<times> nat) list"
  ms_Imported :: "nat list"
  ms_Replaced :: "replacement list"
  ms_Changes :: "mail_change list"
  ms_Records :: int
  ms_Payload :: int

datatype mail_error = ErrNotFound | ErrCursor | ErrDuplicate nat | MailConflict | MailCapacity | MailTooLarge | MailInvalid | MailDbError

type_synonym 'r tx = "mail_store \<Rightarrow> (mail_error, 'r \<times> mail_store) result"

definition atomically :: "bool \<Rightarrow> 'r tx \<Rightarrow> mail_store \<Rightarrow> (mail_error, 'r) result \<times> mail_store" where
  "atomically db body s =
     (if \<not> db then (Inl MailDbError, s) else case body s of Inl e \<Rightarrow> (Inl e, s) | Inr (r, s') \<Rightarrow> (Inr r, s'))"

definition raw_len :: "stored_message \<Rightarrow> int" where
  "raw_len m = (case sm_Raw m of None \<Rightarrow> 0 | Some raw \<Rightarrow> int (length raw))"

text \<open>Statements on the tables, with the triggers \<open>mailbox_insert\<close> and \<open>mailbox_raw_update\<close>.\<close>

definition msg_at :: "mail_store \<Rightarrow> nat \<Rightarrow> stored_message option" where
  "msg_at s i = (if 0 < i \<and> i \<le> length (ms_Messages s) then Some (ms_Messages s ! (i - 1)) else None)"

definition live_msg :: "mail_store \<Rightarrow> nat \<Rightarrow> stored_message option" where
  "live_msg s i = (case msg_at s i of None \<Rightarrow> None | Some m \<Rightarrow> if sm_Raw m = None then None else Some m)"

definition live_in :: "mail_store \<Rightarrow> string \<Rightarrow> nat \<Rightarrow> stored_message option" where
  "live_in s folder i = (case live_msg s i of None \<Rightarrow> None | Some m \<Rightarrow> if sm_Folder m = folder then Some m else None)"

definition live_ids :: "mail_store \<Rightarrow> string \<Rightarrow> nat list" where
  "live_ids s folder = filter (\<lambda>i. live_in s folder i \<noteq> None) [1..<length (ms_Messages s) + 1]"

definition store_message :: "stored_message \<Rightarrow> mail_store \<Rightarrow> mail_store" where
  "store_message m s =
     s\<lparr>ms_Messages := ms_Messages s @ [m], ms_Records := ms_Records s + 1, ms_Payload := ms_Payload s + raw_len m\<rparr>"

definition put_msg :: "nat \<Rightarrow> stored_message \<Rightarrow> mail_store \<Rightarrow> mail_store" where
  "put_msg i m s =
     s\<lparr>ms_Messages := (ms_Messages s)[i - 1 := m], ms_Payload := ms_Payload s - raw_len (ms_Messages s ! (i - 1)) + raw_len m\<rparr>"

definition log_change :: "nat \<Rightarrow> string \<Rightarrow> bool \<Rightarrow> mail_store \<Rightarrow> mail_store" where
  "log_change i folder removed s = s\<lparr>ms_Changes := ms_Changes s @ [\<lparr>mc_ID = i, mc_Folder = folder, mc_Removed = removed\<rparr>]\<rparr>"

definition cleared :: "stored_message \<Rightarrow> stored_message" where
  "cleared m = m\<lparr>sm_Raw := None, sm_Sender := [], sm_Subject := [], sm_To := [], sm_CC := [], sm_BCC := [], sm_Labels := []\<rparr>"

definition system_folders :: "string list" where
  "system_folders = [''INBOX'', ''Drafts'', ''Sent'', ''Trash'', ''Junk'', ''Archive'']"

definition is_child :: "string \<Rightarrow> string \<Rightarrow> bool" where
  "is_child folder name \<longleftrightarrow> take (length folder + 1) name = folder @ ''/''"

section \<open>Storing\<close>

text \<open>The recipients sorted by address, of which no two are equal.\<close>

fun frozen_ok :: "mail_lib \<Rightarrow> (string \<times> int) list \<Rightarrow> bool" where
  "frozen_ok lib [] \<longleftrightarrow> True"
| "frozen_ok lib [p] \<longleftrightarrow> ParseAddress lib (fst p) = Some (fst p) \<and> snd p > 0"
| "frozen_ok lib (p # q # ps) \<longleftrightarrow> ParseAddress lib (fst p) = Some (fst p) \<and> snd p > 0 \<and> fst q \<noteq> fst p \<and> frozen_ok lib (q # ps)"

definition canonicalReceipt :: "mail_lib \<Rightarrow> receipt \<Rightarrow> receipt option" where
  "canonicalReceipt lib r =
     (if \<not> validText (rc_Gateway r) 128 \<or> \<not> validText (rc_Delivery r) 256 \<or> rc_Recipients r = [] \<or> length (rc_Recipients r) > 100 then None
      else if rc_Sender r \<noteq> [] \<and> ParseAddress lib (rc_Sender r) \<noteq> Some (rc_Sender r) then None
      else (let ps = sort_key fst (rc_Recipients r) in if frozen_ok lib ps then Some (r\<lparr>rc_Recipients := ps\<rparr>) else None))"

definition header_of :: "mail_lib \<Rightarrow> string \<Rightarrow> string \<Rightarrow> string" where
  "header_of lib raw f = (case ReadMessage lib raw of None \<Rightarrow> [] | Some h \<Rightarrow> (case h f of [] \<Rightarrow> [] | v # _ \<Rightarrow> v))"

definition Fits :: "mail_store \<Rightarrow> mailbox_limits \<Rightarrow> int \<Rightarrow> bool" where
  "Fits s lim sz \<longleftrightarrow> ms_Records s < ml_Records lim \<and> sz \<le> ml_PayloadBytes lim - ms_Payload s"

text \<open>State of an imported message: unseen, starred, and the time it was received, if it has one.\<close>

type_synonym import_meta = "bool \<times> bool \<times> string option"

definition new_message :: "mail_lib \<Rightarrow> string \<Rightarrow> string \<Rightarrow> string \<Rightarrow> bool \<Rightarrow> import_meta option \<Rightarrow> stored_message" where
  "new_message lib at folder raw draft imported =
     \<lparr>sm_Folder = folder, sm_Raw = Some raw, sm_Digest = hashIncoming lib raw, sm_Sender = header_of lib raw ''From'',
      sm_Subject = header_of lib raw ''Subject'', sm_To = header_of lib raw ''To'', sm_CC = header_of lib raw ''Cc'',
      sm_BCC = header_of lib raw ''Bcc'',
      sm_At = (case imported of Some (_, _, Some received) \<Rightarrow> received | _ \<Rightarrow> at),
      sm_Seen = (case imported of None \<Rightarrow> folder \<noteq> ''INBOX'' \<and> \<not> draft | Some (unseen, _, _) \<Rightarrow> \<not> unseen),
      sm_Starred = (case imported of None \<Rightarrow> False | Some (_, starred, _) \<Rightarrow> starred),
      sm_Draft = draft, sm_Labels = []\<rparr>"

text \<open>\<open>reserve\<close> is \<open>fsutil.CheckDriveReserve\<close>; \<open>key\<close> is the canonical receipt of delivered mail.\<close>

definition store_new ::
  "mail_lib \<Rightarrow> mailbox_limits \<Rightarrow> (nat \<Rightarrow> bool) \<Rightarrow> string \<Rightarrow> string \<Rightarrow> string \<Rightarrow> receipt option \<Rightarrow> bool \<Rightarrow> import_meta option \<Rightarrow> nat tx" where
  "store_new lib lim reserve at folder raw key draft imported s =
     (if imported \<noteq> None \<and> (\<exists>i \<in> set (live_ids s folder). sm_Digest (ms_Messages s ! (i - 1)) = hashIncoming lib raw) then
        Inl (ErrDuplicate (hd (filter (\<lambda>i. sm_Digest (ms_Messages s ! (i - 1)) = hashIncoming lib raw) (live_ids s folder))))
      else if \<not> Fits s lim (int (length raw)) then Inl MailCapacity
      else if key = None \<and> \<not> reserve (2 * length raw + 1024 * 1024) then Inl MailCapacity
      else if \<not> rawMetadata lib raw then Inl MailInvalid
      else if folder \<notin> set (ms_Folders s) then Inl MailDbError
      else
        (let i = length (ms_Messages s) + 1;
             s1 = store_message (new_message lib at folder raw draft imported) s;
             s2 = (case key of
                     None \<Rightarrow> s1
                   | Some r \<Rightarrow> s1\<lparr>ms_Receipts := ms_Receipts s @ [((rc_Gateway r, rc_Delivery r), r, hashIncoming lib raw, i)]\<rparr>);
             s3 = (if imported = None then s2 else s2\<lparr>ms_Imported := ms_Imported s @ [i]\<rparr>) in
         Inr (i, log_change i folder False s3)))"

definition append_tx ::
  "mail_lib \<Rightarrow> mailbox_limits \<Rightarrow> (nat \<Rightarrow> bool) \<Rightarrow> string \<Rightarrow> string \<Rightarrow> string \<Rightarrow> receipt option \<Rightarrow> bool \<Rightarrow> import_meta option \<Rightarrow> nat tx" where
  "append_tx lib lim reserve at folder raw key draft imported s =
     (if length raw > ml_MessageBytes lim then Inl MailTooLarge
      else
        (case key of
           None \<Rightarrow> store_new lib lim reserve at folder raw key draft imported s
         | Some r \<Rightarrow>
             (case map_of (ms_Receipts s) (rc_Gateway r, rc_Delivery r) of
                Some (env, digest, i) \<Rightarrow> if env \<noteq> r \<or> digest \<noteq> hashIncoming lib raw then Inl MailConflict else Inr (i, s)
              | None \<Rightarrow> store_new lib lim reserve at folder raw key draft imported s)))"

definition Import_mail ::
  "mail_lib \<Rightarrow> mailbox_limits \<Rightarrow> bool \<Rightarrow> string \<Rightarrow> receipt \<Rightarrow> string \<Rightarrow> string \<Rightarrow> mail_store \<Rightarrow> (mail_error, nat) result \<times> mail_store" where
  "Import_mail lib lim db at r folder raw s =
     (case canonicalReceipt lib r of
        None \<Rightarrow> (Inl MailInvalid, s)
      | Some env \<Rightarrow>
          if folder \<noteq> [] \<and> folder \<noteq> ''INBOX'' \<and> folder \<noteq> ''Junk'' then (Inl MailInvalid, s)
          else atomically db (append_tx lib lim (\<lambda>n. True) at (if folder = ''Junk'' then folder else ''INBOX'') raw (Some env) False None) s)"

definition Append_mail ::
  "mail_lib \<Rightarrow> mailbox_limits \<Rightarrow> (nat \<Rightarrow> bool) \<Rightarrow> bool \<Rightarrow> string \<Rightarrow> string \<Rightarrow> string \<Rightarrow> bool \<Rightarrow> mail_store \<Rightarrow> (mail_error, nat) result \<times> mail_store" where
  "Append_mail lib lim reserve db at folder raw draft s =
     (if \<not> validFolder folder then (Inl MailInvalid, s)
      else atomically db (append_tx lib lim reserve at folder raw None draft None) s)"

text \<open>\<open>valid\<close> is \<open>ImportValid\<close>, \<open>access\<close> the admission of the session.\<close>

definition ImportMessage ::
  "mail_lib \<Rightarrow> mailbox_limits \<Rightarrow> (string \<Rightarrow> bool) \<Rightarrow> (nat \<Rightarrow> bool) \<Rightarrow> bool \<Rightarrow> bool \<Rightarrow> string \<Rightarrow> string \<Rightarrow> string \<Rightarrow> import_meta \<Rightarrow> mail_store
     \<Rightarrow> (mail_error, nat) result \<times> mail_store" where
  "ImportMessage lib lim valid reserve access db at folder raw meta s =
     (if \<not> valid raw \<or> \<not> access then (Inl MailInvalid, s)
      else atomically db (append_tx lib lim reserve at folder raw None False (Some meta)) s)"

end
