(* ===== verification/Mailbox_Folders.thy ===== *)
theory Mailbox_Folders
  imports Mailbox_Store
begin

text \<open>
  Reading, changing and filing stored mail: the rest of the methods of \<open>backend/internal/mailbox/store.go\<close> and
  \<open>client_store.go\<close>.
\<close>

section \<open>Reading\<close>

definition Raw :: "mail_store \<Rightarrow> string \<Rightarrow> nat \<Rightarrow> (mail_error, string) result" where
  "Raw s folder i = (case live_in s folder i of None \<Rightarrow> Inl ErrNotFound | Some m \<Rightarrow> Inr (the (sm_Raw m)))"

definition rawWithin :: "mail_store \<Rightarrow> string \<Rightarrow> nat \<Rightarrow> int \<Rightarrow> (mail_error, string) result" where
  "rawWithin s folder i limit =
     (case live_in s folder i of
        None \<Rightarrow> Inl ErrNotFound
      | Some m \<Rightarrow> if raw_len m > limit then Inl MailTooLarge else Inr (the (sm_Raw m)))"

definition metadata :: "mail_store \<Rightarrow> string \<Rightarrow> nat \<Rightarrow> (mail_error, stored_message) result" where
  "metadata s folder i = (case live_in s folder i of None \<Rightarrow> Inl ErrNotFound | Some m \<Rightarrow> Inr m)"

definition List_mail :: "mail_store \<Rightarrow> string \<Rightarrow> int \<Rightarrow> int \<Rightarrow> (mail_error, nat list) result" where
  "List_mail s folder before limit =
     (if \<not> validFolder folder \<or> before < 0 \<or> limit < 1 \<or> limit > 1000 then Inl MailInvalid
      else Inr (take (nat limit) (filter (\<lambda>i. before = 0 \<or> int i < before) (rev (live_ids s folder)))))"

definition unreadAfter :: "mail_store \<Rightarrow> int \<Rightarrow> nat \<Rightarrow> nat list" where
  "unreadAfter s after limit =
     take limit (filter (\<lambda>i. \<not> sm_Seen (ms_Messages s ! (i - 1)) \<and> int i > after \<and> i \<notin> set (ms_Imported s)) (live_ids s ''INBOX''))"

text \<open>Events with their revisions, and the high-water mark.\<close>

definition Changes :: "mail_store \<Rightarrow> int \<Rightarrow> int \<Rightarrow> (mail_error, (nat \<times> mail_change) list \<times> nat) result" where
  "Changes s after limit =
     (if after < 0 \<or> limit < 1 \<or> limit > 1000 then Inl ErrCursor
      else if after > int (length (ms_Changes s)) then Inl ErrCursor
      else Inr (take (nat limit) (drop (nat after) (zip [1..<length (ms_Changes s) + 1] (ms_Changes s))), length (ms_Changes s)))"

definition Folders :: "mail_store \<Rightarrow> string list" where
  "Folders s = sort (ms_Folders s)"

section \<open>Flags and labels\<close>

definition ensureLabelTx :: "string \<Rightarrow> mail_store \<Rightarrow> (mail_error, mail_store) result" where
  "ensureLabelTx label s =
     (if list_ex (\<lambda>l. equal_fold l label) (ms_Labels s) then Inr s
      else if length (ms_Labels s) \<ge> 1000 then Inl MailInvalid
      else Inr (s\<lparr>ms_Labels := ms_Labels s @ [label]\<rparr>))"

fun ensure_labels :: "string list \<Rightarrow> mail_store \<Rightarrow> (mail_error, mail_store) result" where
  "ensure_labels [] s = Inr s"
| "ensure_labels (l # ls) s = and_then (ensureLabelTx l s) (ensure_labels ls)"

definition ensureLabel :: "bool \<Rightarrow> string \<Rightarrow> mail_store \<Rightarrow> (mail_error, unit) result \<times> mail_store" where
  "ensureLabel db label s = atomically db (\<lambda>s. and_then (ensureLabelTx label s) (\<lambda>s'. Inr ((), s'))) s"

fun labels_ok :: "string list \<Rightarrow> string list \<Rightarrow> bool" where
  "labels_ok seen [] \<longleftrightarrow> True"
| "labels_ok seen (l # ls) \<longleftrightarrow> validText l 128 \<and> trim_space l = l \<and> to_lower l \<notin> set seen \<and> labels_ok (to_lower l # seen) ls"

text \<open>A change of a live message's row that keeps its bytes, and its event.\<close>

definition touch :: "nat \<Rightarrow> stored_message \<Rightarrow> mail_store \<Rightarrow> mail_store" where
  "touch i m s = log_change i (sm_Folder m) False (put_msg i m s)"

definition Update ::
  "bool \<Rightarrow> string \<Rightarrow> nat \<Rightarrow> bool \<Rightarrow> bool \<Rightarrow> string list \<Rightarrow> mail_store \<Rightarrow> (mail_error, unit) result \<times> mail_store" where
  "Update db folder i seen starred labels s =
     (if length labels > 100 \<or> \<not> labels_ok [] (sort labels) then (Inl MailInvalid, s)
      else
        atomically db
          (\<lambda>s. case live_in s folder i of
             None \<Rightarrow> Inl ErrNotFound
           | Some m \<Rightarrow>
               and_then (ensure_labels (sort labels) s)
                 (\<lambda>s'. if sm_Seen m = seen \<and> sm_Starred m = starred \<and> sm_Labels m = sort labels then Inr ((), s')
                       else Inr ((), touch i (m\<lparr>sm_Seen := seen, sm_Starred := starred, sm_Labels := sort labels\<rparr>) s'))) s)"

text \<open>The labels of a message after one is added or removed; \<open>None\<close> when it has too many.\<close>

definition edit_labels :: "string \<Rightarrow> bool \<Rightarrow> string list \<Rightarrow> string list option" where
  "edit_labels label add labels =
     (if label = [] then Some labels
      else if \<not> add then Some (filter (\<lambda>l. \<not> equal_fold l label) labels)
      else if list_ex (\<lambda>l. equal_fold l label) labels then Some labels
      else if length labels \<ge> 100 then None
      else Some (labels @ [label]))"

definition editFlagsTx :: "string \<Rightarrow> nat \<Rightarrow> bool option \<Rightarrow> string \<Rightarrow> bool \<Rightarrow> mail_store \<Rightarrow> (mail_error, mail_store) result" where
  "editFlagsTx folder i seen label add s =
     (case (if folder = [] then live_msg s i else live_in s folder i) of
        None \<Rightarrow> Inl ErrNotFound
      | Some m \<Rightarrow>
          (case edit_labels label add (sm_Labels m) of
             None \<Rightarrow> Inl MailInvalid
           | Some labels \<Rightarrow>
               and_then (if label \<noteq> [] \<and> add then ensureLabelTx label s else Inr s)
                 (\<lambda>s'. let nextSeen = (case seen of None \<Rightarrow> sm_Seen m | Some v \<Rightarrow> v) in
                       if sm_Seen m = nextSeen \<and> sm_Labels m = sort labels then Inr s'
                       else Inr (touch i (m\<lparr>sm_Seen := nextSeen, sm_Labels := sort labels\<rparr>) s'))))"

definition editFlags ::
  "bool \<Rightarrow> string \<Rightarrow> nat \<Rightarrow> bool option \<Rightarrow> string \<Rightarrow> bool \<Rightarrow> mail_store \<Rightarrow> (mail_error, unit) result \<times> mail_store" where
  "editFlags db folder i seen label add s =
     atomically db (\<lambda>s. and_then (editFlagsTx folder i seen label add s) (\<lambda>s'. Inr ((), s'))) s"

section \<open>Moving and deleting\<close>

text \<open>Message \<open>i\<close> is filed in \<open>target\<close>; a live one leaves one folder and arrives in the other.\<close>

definition settle :: "string \<Rightarrow> nat \<Rightarrow> mail_store \<Rightarrow> mail_store" where
  "settle target i s =
     (let m = ms_Messages s ! (i - 1); s' = put_msg i (m\<lparr>sm_Folder := target\<rparr>) s in
      if sm_Raw m = None then s' else log_change i target False (log_change i (sm_Folder m) True s'))"

definition bury :: "nat \<Rightarrow> mail_store \<Rightarrow> mail_store" where
  "bury i s = (let m = ms_Messages s ! (i - 1) in log_change i (sm_Folder m) True (put_msg i (cleared m) s))"

definition relocate :: "bool \<Rightarrow> string \<Rightarrow> nat \<Rightarrow> string \<Rightarrow> mail_store \<Rightarrow> (mail_error, unit) result \<times> mail_store" where
  "relocate db folder i target s =
     atomically db
       (\<lambda>s. if live_in s folder i = None then Inl ErrNotFound
            else if target = folder then Inr ((), s)
            else if target = [] then Inr ((), bury i s)
            else if target \<notin> set (ms_Folders s) then Inl ErrNotFound
            else Inr ((), settle target i s)) s"

definition Move :: "bool \<Rightarrow> string \<Rightarrow> nat \<Rightarrow> string \<Rightarrow> mail_store \<Rightarrow> (mail_error, unit) result \<times> mail_store" where
  "Move db folder i target s = (if \<not> validFolder target then (Inl MailInvalid, s) else relocate db folder i target s)"

definition Delete_mail :: "bool \<Rightarrow> string \<Rightarrow> nat \<Rightarrow> mail_store \<Rightarrow> (mail_error, unit) result \<times> mail_store" where
  "Delete_mail db folder i s = relocate db folder i [] s"

section \<open>Folders\<close>

definition add_folder :: "string \<Rightarrow> mail_store \<Rightarrow> mail_store" where
  "add_folder name s = s\<lparr>ms_Folders := ms_Folders s @ [name]\<rparr>"

definition CreateFolder :: "bool \<Rightarrow> string \<Rightarrow> mail_store \<Rightarrow> (mail_error, unit) result \<times> mail_store" where
  "CreateFolder db name s =
     (if \<not> validFolder name then (Inl MailInvalid, s)
      else atomically db (\<lambda>s. if name \<in> set (ms_Folders s) then Inl MailDbError else Inr ((), add_folder name s)) s)"

definition ensure_folder :: "string \<Rightarrow> mail_store \<Rightarrow> mail_store" where
  "ensure_folder name s = (if name \<in> set (ms_Folders s) then s else add_folder name s)"

definition createFolder :: "bool \<Rightarrow> string \<Rightarrow> string \<Rightarrow> mail_store \<Rightarrow> (mail_error, unit) result \<times> mail_store" where
  "createFolder db parent target s =
     (if \<not> validFolder target then (Inl MailInvalid, s)
      else
        atomically db
          (\<lambda>s. if parent \<noteq> [] \<and> parent \<notin> set (ms_Folders s) then Inl ErrNotFound
               else Inr ((), ensure_folder target s)) s)"

text \<open>\<open>UPDATE messages SET folder = target WHERE p\<close>; the foreign key needs the target when a row changes.\<close>

definition refile :: "(stored_message \<Rightarrow> bool) \<Rightarrow> string \<Rightarrow> mail_store \<Rightarrow> mail_store" where
  "refile p target s = s\<lparr>ms_Messages := map (\<lambda>m. if p m then m\<lparr>sm_Folder := target\<rparr> else m) (ms_Messages s)\<rparr>"

definition buried_in :: "string \<Rightarrow> stored_message \<Rightarrow> bool" where
  "buried_in folder m \<longleftrightarrow> sm_Folder m = folder \<and> sm_Raw m = None"

definition drop_folder :: "string \<Rightarrow> mail_store \<Rightarrow> mail_store" where
  "drop_folder name s = s\<lparr>ms_Folders := removeAll name (ms_Folders s)\<rparr>"

definition DeleteFolder :: "bool \<Rightarrow> string \<Rightarrow> mail_store \<Rightarrow> (mail_error, unit) result \<times> mail_store" where
  "DeleteFolder db name s =
     (if name \<in> set system_folders then (Inl MailInvalid, s)
      else
        atomically db
          (\<lambda>s. if live_ids s name \<noteq> [] \<or> list_ex (is_child name) (ms_Folders s) then Inl MailInvalid
               else if list_ex (buried_in name) (ms_Messages s) \<and> ''Trash'' \<notin> set (ms_Folders s) then Inl MailDbError
               else if name \<notin> set (ms_Folders s) then Inl ErrNotFound
               else Inr ((), drop_folder name (refile (buried_in name) ''Trash'' s))) s)"

fun log_moves :: "string \<Rightarrow> string \<Rightarrow> nat list \<Rightarrow> mail_store \<Rightarrow> mail_store" where
  "log_moves name newName [] s = s"
| "log_moves name newName (i # is) s = log_moves name newName is (log_change i newName False (log_change i name True s))"

definition rename_one :: "string \<Rightarrow> string \<Rightarrow> string \<Rightarrow> mail_store \<Rightarrow> (mail_error, mail_store) result" where
  "rename_one folder target name s =
     (let newName = target @ drop (length folder) name in
      if \<not> validFolder newName then Inl MailInvalid
      else if newName \<in> set (ms_Folders s) then Inl MailDbError
      else
        (let s1 = add_folder newName s; ids = live_ids s1 name;
             s2 = refile (\<lambda>m. sm_Folder m = name) newName s1 in
         Inr (drop_folder name (log_moves name newName ids s2))))"

fun rename_all :: "string \<Rightarrow> string \<Rightarrow> string list \<Rightarrow> mail_store \<Rightarrow> (mail_error, mail_store) result" where
  "rename_all folder target [] s = Inr s"
| "rename_all folder target (n # ns) s = and_then (rename_one folder target n s) (rename_all folder target ns)"

definition subtree :: "mail_store \<Rightarrow> string \<Rightarrow> string list" where
  "subtree s folder = sort (filter (\<lambda>n. n = folder \<or> is_child folder n) (ms_Folders s))"

definition RenameFolder :: "bool \<Rightarrow> string \<Rightarrow> string \<Rightarrow> mail_store \<Rightarrow> (mail_error, unit) result \<times> mail_store" where
  "RenameFolder db folder target s =
     (if \<not> validFolder folder \<or> \<not> validFolder target \<or> folder = target \<or> has_prefix target (folder @ ''/'') then (Inl MailInvalid, s)
      else if folder \<in> set system_folders then (Inl MailInvalid, s)
      else
        atomically db
          (\<lambda>s. case subtree s folder of
             [] \<Rightarrow> Inl ErrNotFound
           | n # ns \<Rightarrow>
               if n \<noteq> folder then Inl ErrNotFound
               else and_then (rename_all folder target (n # ns) s) (\<lambda>s'. Inr ((), s'))) s)"

text \<open>The path above the last slash.\<close>

definition parent_of :: "string \<Rightarrow> string option" where
  "parent_of f = (if CHR ''/'' \<in> set f then Some (rev (tl (dropWhile (\<lambda>c. c \<noteq> CHR ''/'') (rev f)))) else None)"

lemma length_settle [simp]: "length (ms_Messages (settle t i s)) = length (ms_Messages s)"
  by (simp add: settle_def Let_def put_msg_def log_change_def)

lemma length_fold_settle [simp]: "length (ms_Messages (fold (settle t) is s)) = length (ms_Messages s)"
  by (induction "is" arbitrary: s) simp_all

text \<open>The loop of \<open>deleteFolderToParent\<close>: pages of 200 messages, each moved to the parent.\<close>

definition move_page :: "string \<Rightarrow> nat \<Rightarrow> mail_store \<Rightarrow> nat list" where
  "move_page folder after s = take 200 (filter (\<lambda>i. after < i) (live_ids s folder))"

lemma move_page_bounds: "i \<in> set (move_page folder after s) \<Longrightarrow> after < i \<and> i \<le> length (ms_Messages s)"
  by (auto simp: move_page_def live_ids_def dest!: in_set_takeD)

function move_pages :: "string \<Rightarrow> string \<Rightarrow> nat \<Rightarrow> mail_store \<Rightarrow> mail_store" where
  "move_pages folder parent after s =
     (let ids = move_page folder after s in
      if ids = [] then s else move_pages folder parent (last ids) (fold (settle parent) ids s))"
  by auto
termination
proof (relation "measure (\<lambda>(folder, parent, after, s). length (ms_Messages s) - after)")
  fix folder parent :: string and after and s and ids
  assume ids: "ids = move_page folder after s" and "ids \<noteq> []"
  hence "last ids \<in> set (move_page folder after s)" by simp
  from move_page_bounds [OF this]
  show "((folder, parent, last ids, fold (settle parent) ids s), folder, parent, after, s)
     \<in> measure (\<lambda>(folder, parent, after, s). length (ms_Messages s) - after)" by auto
qed simp

definition deleteFolderToParent :: "bool \<Rightarrow> string \<Rightarrow> mail_store \<Rightarrow> (mail_error, unit) result \<times> mail_store" where
  "deleteFolderToParent db folder s =
     (case parent_of folder of
        None \<Rightarrow> (Inl MailInvalid, s)
      | Some parent \<Rightarrow>
          atomically db
            (\<lambda>s. if list_ex (is_child folder) (ms_Folders s) then Inl MailInvalid
                 else if parent \<notin> set (ms_Folders s) then Inl ErrNotFound
                 else if folder \<notin> set (ms_Folders s) then Inl ErrNotFound
                 else Inr ((), drop_folder folder (refile (buried_in folder) parent (move_pages folder parent 0 s)))) s)"

end
