(* ===== verification/Mailbox_Client.thy ===== *)
theory Mailbox_Client
  imports Mailbox_Folders Protocol_Safety
begin

text \<open>
  The mail interface over a native store, \<open>backend/internal/mailbox/client.go\<close>, and the replacement of incoming
  mail by its ciphertext, \<open>incoming_encryption.go\<close>.

  \<open>access\<close> is the outcome of \<open>checkAccess\<close>. An operation of two transactions takes an outcome of the
  database for each; what other clients do in between is a run of its own. \<open>year_of\<close> is the year of a
  formatted date, in decimal; \<open>pgp\<close> says whether \<open>ParseRawContent\<close> reads the bytes as PGP/MIME
  ciphertext; \<open>account\<close> is \<open>incomingAccount\<close>, the digest of the owner and the database's token.
\<close>

section \<open>Folder names\<close>

definition normalizeFolder :: "string \<Rightarrow> (mail_error, string) result" where
  "normalizeFolder folder =
     (let f = (if trim_space folder = [] then ''INBOX'' else trim_space folder);
          f' = (if equal_fold (takeWhile (\<lambda>c. c \<noteq> CHR ''/'') f) ''INBOX'' then ''INBOX'' @ dropWhile (\<lambda>c. c \<noteq> CHR ''/'') f else f) in
      if ValidateMailboxName f' \<noteq> None then Inl MailInvalid
      else if \<not> validFolder f' then Inl MailInvalid
      else Inr f')"

definition leaf :: "string \<Rightarrow> bool" where
  "leaf name \<longleftrightarrow> CHR ''/'' \<notin> set name \<and> CHR ''.'' \<notin> set name \<and> ValidateMailboxName name = None \<and> validFolder name"

text \<open>\<open>strconv.ParseInt(id, 10, 64)\<close>.\<close>

definition parse_digits :: "string \<Rightarrow> int option" where
  "parse_digits cs = (if cs \<noteq> [] \<and> list_all is_digit cs then Some (foldl (\<lambda>n c. 10 * n + (int (byte c) - 48)) 0 cs) else None)"

definition ParseInt :: "string \<Rightarrow> int option" where
  "ParseInt s =
     (let v = (case s of
                 [] \<Rightarrow> None
               | c # cs \<Rightarrow> if c = CHR ''-'' then map_option uminus (parse_digits cs)
                           else if c = CHR ''+'' then parse_digits cs else parse_digits s) in
      case v of None \<Rightarrow> None | Some n \<Rightarrow> if - (2 ^ 63) \<le> n \<and> n < 2 ^ 63 then Some n else None)"

definition parse_uid :: "string \<Rightarrow> nat option" where
  "parse_uid ident = (case ParseInt ident of None \<Rightarrow> None | Some n \<Rightarrow> if n \<le> 0 then None else Some (nat n))"

section \<open>Operations on mail\<close>

definition save ::
  "mail_lib \<Rightarrow> mailbox_limits \<Rightarrow> (nat \<Rightarrow> bool) \<Rightarrow> bool \<Rightarrow> bool \<Rightarrow> string \<Rightarrow> string list \<Rightarrow> string \<Rightarrow> string \<Rightarrow> mail_store
     \<Rightarrow> (mail_error, nat) result \<times> mail_store" where
  "save lib lim reserve access db at to raw folder s =
     (if \<not> access \<or> to = [] then (Inl MailInvalid, s) else Append_mail lib lim reserve db at folder raw (folder = ''Drafts'') s)"

definition EnsureLabel :: "bool \<Rightarrow> bool \<Rightarrow> string \<Rightarrow> mail_store \<Rightarrow> (mail_error, unit) result \<times> mail_store" where
  "EnsureLabel access db label s =
     (if \<not> access \<or> ValidateKeyword label \<noteq> None then (Inl MailInvalid, s) else ensureLabel db (trim_space label) s)"

text \<open>\<open>ApplyLabel\<close> (\<open>add\<close>) and \<open>RemoveLabel\<close>.\<close>

definition ApplyLabel :: "bool \<Rightarrow> bool \<Rightarrow> string \<Rightarrow> string \<Rightarrow> bool \<Rightarrow> mail_store \<Rightarrow> (mail_error, unit) result \<times> mail_store" where
  "ApplyLabel access db ident label add s =
     (if \<not> access \<or> ValidateKeyword label \<noteq> None then (Inl MailInvalid, s)
      else
        (case parse_uid ident of
           None \<Rightarrow> (Inl ErrNotFound, s)
         | Some i \<Rightarrow> editFlags db [] i None (trim_space label) add s))"

definition CreateFolder_client :: "bool \<Rightarrow> bool \<Rightarrow> string \<Rightarrow> string \<Rightarrow> mail_store \<Rightarrow> (mail_error, string) result \<times> mail_store" where
  "CreateFolder_client access db parent name s =
     (let parent = trim_space parent; name = trim_space name in
      if \<not> access \<or> \<not> leaf name then (Inl MailInvalid, s)
      else
        (case (if parent = [] then Inr ([], name) else and_then (normalizeFolder parent) (\<lambda>p. Inr (p, p @ ''/'' @ name))) of
           Inl e \<Rightarrow> (Inl e, s)
         | Inr (p, target) \<Rightarrow>
             (case createFolder db p target s of (Inl e, s') \<Rightarrow> (Inl e, s') | (Inr _, s') \<Rightarrow> (Inr target, s'))))"

definition ApplyInboxAction ::
  "(string \<Rightarrow> string option) \<Rightarrow> bool \<Rightarrow> bool \<Rightarrow> bool \<Rightarrow> string \<Rightarrow> string \<Rightarrow> string \<Rightarrow> string \<Rightarrow> mail_store
     \<Rightarrow> (mail_error, unit) result \<times> mail_store" where
  "ApplyInboxAction year_of access db1 db2 ident action folder target s =
     (if \<not> access then (Inl MailInvalid, s)
      else
        (case normalizeFolder folder of
           Inl e \<Rightarrow> (Inl e, s)
         | Inr f \<Rightarrow>
             (case parse_uid ident of
                None \<Rightarrow> (Inl ErrNotFound, s)
              | Some i \<Rightarrow>
                  if action = ''read'' \<or> action = ''unread'' then editFlags db1 f i (Some (action = ''read'')) [] False s
                  else if action = ''archive'' then
                    (case metadata s f i of
                       Inl e \<Rightarrow> (Inl e, s)
                     | Inr m \<Rightarrow>
                         (case year_of (sm_At m) of
                            None \<Rightarrow> (Inl MailInvalid, s)
                          | Some year \<Rightarrow>
                              (case CreateFolder_client access db1 ''Archive'' year s of
                                 (Inl e, s') \<Rightarrow> (Inl e, s')
                               | (Inr _, s') \<Rightarrow> Move db2 f i (''Archive/'' @ year) s')))
                  else if action = ''spam'' then Move db1 f i ''Junk'' s
                  else if action = ''delete'' then
                    if f = ''Trash'' then Delete_mail db1 f i s else Move db1 f i ''Trash'' s
                  else if action = ''move'' then
                    if trim_space target = [] then (Inl MailInvalid, s)
                    else
                      (case normalizeFolder target of
                         Inl e \<Rightarrow> (Inl e, s)
                       | Inr t \<Rightarrow>
                           (case createFolder db1 (case parent_of t of None \<Rightarrow> [] | Some p \<Rightarrow> p) t s of
                              (Inl e, s') \<Rightarrow> (Inl e, s')
                            | (Inr _, s') \<Rightarrow> Move db2 f i t s'))
                  else (Inl MailInvalid, s))))"

section \<open>Operations on folders\<close>

definition RenameFolder_client :: "bool \<Rightarrow> bool \<Rightarrow> string \<Rightarrow> string \<Rightarrow> mail_store \<Rightarrow> (mail_error, string) result \<times> mail_store" where
  "RenameFolder_client access db folder name s =
     (if \<not> access then (Inl MailInvalid, s)
      else
        (case normalizeFolder folder of
           Inl e \<Rightarrow> (Inl e, s)
         | Inr f \<Rightarrow>
             if \<not> leaf (trim_space name) then (Inl MailInvalid, s)
             else
               (case parent_of f of
                  None \<Rightarrow> (Inl MailInvalid, s)
                | Some p \<Rightarrow>
                    (let target = p @ ''/'' @ trim_space name in
                     if target = f then (Inr f, s)
                     else (case RenameFolder db f target s of (Inl e, s') \<Rightarrow> (Inl e, s') | (Inr _, s') \<Rightarrow> (Inr target, s'))))))"

definition DeleteFolder_client :: "bool \<Rightarrow> bool \<Rightarrow> string \<Rightarrow> mail_store \<Rightarrow> (mail_error, unit) result \<times> mail_store" where
  "DeleteFolder_client access db folder s =
     (if \<not> access then (Inl MailInvalid, s)
      else (case normalizeFolder folder of Inl e \<Rightarrow> (Inl e, s) | Inr f \<Rightarrow> deleteFolderToParent db f s))"

text \<open>\<open>ImportFolder\<close>, with \<open>create\<close>.\<close>

definition ImportFolder :: "bool \<Rightarrow> bool \<Rightarrow> string \<Rightarrow> bool \<Rightarrow> mail_store \<Rightarrow> (mail_error, string) result \<times> mail_store" where
  "ImportFolder access db folder create s =
     (if \<not> access then (Inl MailInvalid, s)
      else
        (case normalizeFolder (if trim_space folder = [] then ''Imported'' else folder) of
           Inl e \<Rightarrow> (Inl e, s)
         | Inr f \<Rightarrow>
             if f \<in> set (ms_Folders s) then (Inr f, s)
             else
               (let (parent, name) = (case parent_of f of None \<Rightarrow> ([], f) | Some p \<Rightarrow> (p, drop (length p + 1) f)) in
                if \<not> leaf name then (Inl MailInvalid, s)
                else if \<not> create then
                  if parent \<noteq> [] \<and> parent \<notin> set (ms_Folders s) then (Inl ErrNotFound, s) else (Inr f, s)
                else (case createFolder db parent f s of (Inl e, s') \<Rightarrow> (Inl e, s') | (Inr _, s') \<Rightarrow> (Inr f, s')))))"

section \<open>Replacing incoming mail by its ciphertext\<close>

record incoming_source =
  is_UID :: nat
  is_UIDValidity :: nat
  is_AccountHash :: string
  is_Hash :: string
  is_Raw :: string
  is_Flags :: "string list"
  is_Date :: string

definition hex_32 :: "string \<Rightarrow> bool" where
  "hex_32 h \<longleftrightarrow> length h = 64 \<and> list_all (\<lambda>c. is_digit c \<or> 97 \<le> byte c \<and> byte c \<le> 102 \<or> 65 \<le> byte c \<and> byte c \<le> 70) h"

definition checkIncomingSource :: "string \<Rightarrow> incoming_source \<Rightarrow> bool" where
  "checkIncomingSource account src \<longleftrightarrow>
     is_UID src > 0 \<and> is_UIDValidity src = 1 \<and> is_AccountHash src = account \<and> hex_32 (is_Hash src)"

definition checkIncomingReplacement ::
  "mailbox_limits \<Rightarrow> string \<Rightarrow> incoming_source \<Rightarrow> string \<Rightarrow> string \<Rightarrow> mail_error option" where
  "checkIncomingReplacement lim account src marker encrypted =
     (if \<not> checkIncomingSource account src then Some MailInvalid
      else if \<not> hex_32 marker \<or> \<not> has_prefix encrypted (''X-KyPost-Incoming: '' @ marker @ [CR, LF]) then Some MailInvalid
      else if length encrypted > ml_MessageBytes lim then Some MailTooLarge
      else None)"

definition PrepareIncoming ::
  "mail_lib \<Rightarrow> mailbox_limits \<Rightarrow> (string \<Rightarrow> string option) \<Rightarrow> string \<Rightarrow> bool \<Rightarrow> bool \<Rightarrow> int \<Rightarrow> mail_store \<Rightarrow> (mail_error, incoming_source) result" where
  "PrepareIncoming lib lim year_of account access db uid s =
     (if \<not> access \<or> uid \<le> 0 then Inl MailInvalid
      else if \<not> db then Inl MailDbError
      else
        (case live_in s ''INBOX'' (nat uid) of
           None \<Rightarrow> Inl ErrNotFound
         | Some m \<Rightarrow>
             if raw_len m > int (ml_MessageBytes lim) then Inl MailTooLarge
             else if year_of (sm_At m) = None then Inl MailInvalid
             else Inr \<lparr>is_UID = nat uid, is_UIDValidity = 1, is_AccountHash = account, is_Hash = hashIncoming lib (the (sm_Raw m)),
                    is_Raw = the (sm_Raw m),
                    is_Flags = sm_Labels m @ (if sm_Seen m then [CHR 0x5C # ''Seen''] else []) @
                      (if sm_Starred m then [CHR 0x5C # ''Flagged''] else []) @ (if sm_Draft m then [CHR 0x5C # ''Draft''] else []),
                    is_Date = sm_At m\<rparr>))"

text \<open>The replacement takes the current flags, date and labels of the original.\<close>

definition replacement_of :: "mail_lib \<Rightarrow> string \<Rightarrow> stored_message \<Rightarrow> stored_message" where
  "replacement_of lib encrypted m =
     m\<lparr>sm_Folder := ''INBOX'', sm_Raw := Some encrypted, sm_Digest := hashIncoming lib encrypted, sm_Sender := header_of lib encrypted ''From'',
       sm_Subject := header_of lib encrypted ''Subject'', sm_To := header_of lib encrypted ''To'', sm_CC := header_of lib encrypted ''Cc'',
       sm_BCC := header_of lib encrypted ''Bcc''\<rparr>"

definition verifyIncomingTx ::
  "mail_lib \<Rightarrow> mailbox_limits \<Rightarrow> incoming_source \<Rightarrow> nat \<Rightarrow> string \<Rightarrow> string \<Rightarrow> mail_store \<Rightarrow> (mail_error, string) result" where
  "verifyIncomingTx lib lim src uid marker encrypted s =
     (if \<lparr>rp_source = is_UID src, rp_marker = marker, rp_source_hash = is_Hash src, rp_cipher_hash = hashIncoming lib encrypted, rp_new = uid\<rparr>
           \<notin> set (ms_Replaced s) then Inl MailInvalid
      else
        (case live_msg s uid of
           None \<Rightarrow> Inl MailInvalid
         | Some m \<Rightarrow> if raw_len m > int (ml_MessageBytes lim) \<or> sm_Raw m \<noteq> Some encrypted then Inl MailInvalid else Inr (sm_Folder m)))"

definition replace_tx :: "mail_lib \<Rightarrow> mailbox_limits \<Rightarrow> incoming_source \<Rightarrow> string \<Rightarrow> string \<Rightarrow> nat tx" where
  "replace_tx lib lim src marker encrypted s =
     (case List.find (\<lambda>r. rp_source r = is_UID src) (ms_Replaced s) of
        Some r \<Rightarrow>
          if rp_marker r \<noteq> marker \<or> rp_source_hash r \<noteq> is_Hash src \<or> rp_cipher_hash r \<noteq> hashIncoming lib encrypted then Inl MailConflict
          else and_then (verifyIncomingTx lib lim src (rp_new r) marker encrypted s) (\<lambda>_. Inr (rp_new r, s))
      | None \<Rightarrow>
          (case live_in s ''INBOX'' (is_UID src) of
             None \<Rightarrow> Inl ErrNotFound
           | Some m \<Rightarrow>
               if raw_len m > int (ml_MessageBytes lim) then Inl MailTooLarge
               else if hashIncoming lib (the (sm_Raw m)) \<noteq> is_Hash src then Inl MailInvalid
               else if ms_Records s \<ge> ml_Records lim \<or> int (length encrypted) - raw_len m > ml_PayloadBytes lim - ms_Payload s then Inl MailCapacity
               else if ''INBOX'' \<notin> set (ms_Folders s) \<or> list_ex (\<lambda>r. rp_marker r = marker) (ms_Replaced s) then Inl MailDbError
               else
                 (let i = length (ms_Messages s) + 1;
                      s1 = put_msg (is_UID src) (cleared m) (store_message (replacement_of lib encrypted m) s);
                      s2 = s1\<lparr>ms_Replaced := ms_Replaced s @ [\<lparr>rp_source = is_UID src, rp_marker = marker, rp_source_hash = is_Hash src,
                                rp_cipher_hash = hashIncoming lib encrypted, rp_new = i\<rparr>]\<rparr> in
                  Inr (i, log_change i ''INBOX'' False (log_change (is_UID src) ''INBOX'' True s2)))))"

definition ReplaceIncoming ::
  "mail_lib \<Rightarrow> mailbox_limits \<Rightarrow> (string \<Rightarrow> bool) \<Rightarrow> string \<Rightarrow> bool \<Rightarrow> bool \<Rightarrow> incoming_source \<Rightarrow> string \<Rightarrow> string \<Rightarrow> mail_store
     \<Rightarrow> (mail_error, nat) result \<times> mail_store" where
  "ReplaceIncoming lib lim pgp account access db src marker encrypted s =
     (if \<not> access then (Inl MailInvalid, s)
      else
        (case checkIncomingReplacement lim account src marker encrypted of
           Some e \<Rightarrow> (Inl e, s)
         | None \<Rightarrow>
             if \<not> rawMetadata lib encrypted \<or> \<not> pgp encrypted then (Inl MailInvalid, s)
             else atomically db (replace_tx lib lim src marker encrypted) s))"

text \<open>The destination of an action; empty when it moves nothing.\<close>

definition action_target :: "(string \<Rightarrow> string option) \<Rightarrow> incoming_source \<Rightarrow> string \<Rightarrow> string \<Rightarrow> (mail_error, string) result" where
  "action_target year_of src action v =
     (if action = ''keyword'' \<or> action = ''unkeyword'' then (if ValidateKeyword v \<noteq> None then Inl MailInvalid else Inr [])
      else if action = ''read'' \<or> action = ''stop'' then Inr []
      else if action = ''move'' then (if trim_space v = [] then Inl MailInvalid else normalizeFolder v)
      else if action = ''archive'' then
        (case year_of (is_Date src) of None \<Rightarrow> Inl MailInvalid | Some year \<Rightarrow> Inr (''Archive/'' @ year))
      else if action = ''spam'' then Inr ''Junk''
      else if action = ''delete'' then Inr ''Trash''
      else Inl MailInvalid)"

definition action_tx ::
  "mail_lib \<Rightarrow> mailbox_limits \<Rightarrow> incoming_source \<Rightarrow> nat \<Rightarrow> string \<Rightarrow> string \<Rightarrow> string \<Rightarrow> string \<Rightarrow> string \<Rightarrow> unit tx" where
  "action_tx lib lim src uid marker encrypted action v target s =
     and_then (verifyIncomingTx lib lim src uid marker encrypted s)
       (\<lambda>folder.
          if action = ''stop'' \<or> target \<noteq> [] \<and> folder = target then Inr ((), s)
          else if folder \<noteq> ''INBOX'' then Inl MailInvalid
          else if action = ''keyword'' \<or> action = ''unkeyword'' then
            and_then (editFlagsTx ''INBOX'' uid None v (action = ''keyword'') s) (\<lambda>s'. Inr ((), s'))
          else if action = ''read'' then and_then (editFlagsTx ''INBOX'' uid (Some True) [] False s) (\<lambda>s'. Inr ((), s'))
          else if \<not> validFolder target then Inl MailInvalid
          else if target = ''INBOX'' then Inr ((), ensure_folder target s)
          else Inr ((), settle target uid (ensure_folder target s)))"

definition ApplyIncomingAction ::
  "mail_lib \<Rightarrow> mailbox_limits \<Rightarrow> (string \<Rightarrow> string option) \<Rightarrow> string \<Rightarrow> bool \<Rightarrow> bool \<Rightarrow> incoming_source \<Rightarrow> nat \<Rightarrow> string \<Rightarrow> string \<Rightarrow> string \<Rightarrow> string
     \<Rightarrow> mail_store \<Rightarrow> (mail_error, unit) result \<times> mail_store" where
  "ApplyIncomingAction lib lim year_of account access db src uid marker encrypted action v s =
     (if \<not> access then (Inl MailInvalid, s)
      else
        (case checkIncomingReplacement lim account src marker encrypted of
           Some e \<Rightarrow> (Inl e, s)
         | None \<Rightarrow>
             if uid = 0 \<or> uid = is_UID src then (Inl MailInvalid, s)
             else
               (case action_target year_of src action v of
                  Inl e \<Rightarrow> (Inl e, s)
                | Inr target \<Rightarrow> atomically db (action_tx lib lim src uid marker encrypted action v target) s)))"

end
