(* ===== verification/Mailbox_System.thy ===== *)
theory Mailbox_System
  imports Mailbox_Client
begin

text \<open>
  The native mailbox as a system: a run is any sequence of its transactions, whatever client issues them and
  whether or not the database carries them out.

  Every transaction is a chain of the elementary changes of \<open>elementary\<close>. An invariant is shown for each of
  those once (locale \<open>mailbox_invariant\<close>) and then holds after every run.
\<close>

section \<open>Runs\<close>

datatype mail_op =
  ImportOp bool string receipt string string
| AppendOp "nat \<Rightarrow> bool" bool string string string bool
| ImportMessageOp "string \<Rightarrow> bool" "nat \<Rightarrow> bool" bool bool string string string import_meta
| UpdateOp bool string nat bool bool "string list"
| MoveOp bool string nat string
| DeleteOp bool string nat
| EditFlagsOp bool string nat "bool option" string bool
| EnsureLabelOp bool string
| CreateFolderOp bool string
| CreateUnderOp bool string string
| DeleteFolderOp bool string
| DeleteToParentOp bool string
| RenameFolderOp bool string string
| ReplaceOp "string \<Rightarrow> bool" string bool bool incoming_source string string
| ActionOp "string \<Rightarrow> string option" string bool bool incoming_source nat string string string string

fun mail_step :: "mail_lib \<Rightarrow> mailbox_limits \<Rightarrow> mail_op \<Rightarrow> mail_store \<Rightarrow> mail_store" where
  "mail_step lib lim (ImportOp db at r folder raw) s = snd (Import_mail lib lim db at r folder raw s)"
| "mail_step lib lim (AppendOp reserve db at folder raw draft) s = snd (Append_mail lib lim reserve db at folder raw draft s)"
| "mail_step lib lim (ImportMessageOp valid reserve access db at folder raw meta) s = snd (ImportMessage lib lim valid reserve access db at folder raw meta s)"
| "mail_step lib lim (UpdateOp db folder i seen starred labels) s = snd (Update db folder i seen starred labels s)"
| "mail_step lib lim (MoveOp db folder i target) s = snd (Move db folder i target s)"
| "mail_step lib lim (DeleteOp db folder i) s = snd (Delete_mail db folder i s)"
| "mail_step lib lim (EditFlagsOp db folder i seen label add) s = snd (editFlags db folder i seen label add s)"
| "mail_step lib lim (EnsureLabelOp db label) s = snd (ensureLabel db label s)"
| "mail_step lib lim (CreateFolderOp db name) s = snd (CreateFolder db name s)"
| "mail_step lib lim (CreateUnderOp db parent name) s = snd (createFolder db parent name s)"
| "mail_step lib lim (DeleteFolderOp db name) s = snd (DeleteFolder db name s)"
| "mail_step lib lim (DeleteToParentOp db name) s = snd (deleteFolderToParent db name s)"
| "mail_step lib lim (RenameFolderOp db folder target) s = snd (RenameFolder db folder target s)"
| "mail_step lib lim (ReplaceOp pgp account access db src marker encrypted) s = snd (ReplaceIncoming lib lim pgp account access db src marker encrypted s)"
| "mail_step lib lim (ActionOp year_of account access db src uid marker encrypted action v) s =
     snd (ApplyIncomingAction lib lim year_of account access db src uid marker encrypted action v s)"

definition mail_run :: "mail_lib \<Rightarrow> mailbox_limits \<Rightarrow> mail_op list \<Rightarrow> mail_store \<Rightarrow> mail_store" where
  "mail_run lib lim ops s = fold (mail_step lib lim) ops s"

text \<open>The database \<open>initialize\<close> leaves when there was none.\<close>

definition new_store :: mail_store where
  "new_store = \<lparr>ms_Folders = system_folders, ms_Labels = [], ms_Messages = [], ms_Receipts = [], ms_Imported = [], ms_Replaced = [],
     ms_Changes = [], ms_Records = 0, ms_Payload = 0\<rparr>"

section \<open>Elementary changes\<close>

text \<open>\<open>arrive\<close> stores a message with its receipt, if it has one, and its event; \<open>swap\<close> puts a message in the place of another.\<close>

definition arrive :: "stored_message \<Rightarrow> ((string \<times> string) \<times> receipt) option \<Rightarrow> bool \<Rightarrow> mail_store \<Rightarrow> mail_store" where
  "arrive m key imported s =
     (let i = length (ms_Messages s) + 1; s1 = store_message m s in
      log_change i (sm_Folder m) False
        (s1\<lparr>ms_Receipts := (case key of None \<Rightarrow> ms_Receipts s | Some (k, env) \<Rightarrow> ms_Receipts s @ [(k, env, sm_Digest m, i)]),
            ms_Imported := (if imported then ms_Imported s @ [i] else ms_Imported s)\<rparr>))"

definition swap :: "nat \<Rightarrow> stored_message \<Rightarrow> replacement \<Rightarrow> mail_store \<Rightarrow> mail_store" where
  "swap i m' r s =
     (let m = ms_Messages s ! (i - 1); n = length (ms_Messages s) + 1; s1 = put_msg i (cleared m) (store_message m' s) in
      log_change n (sm_Folder m') False (log_change i (sm_Folder m) True (s1\<lparr>ms_Replaced := ms_Replaced s @ [r]\<rparr>)))"

inductive elementary :: "mail_lib \<Rightarrow> mailbox_limits \<Rightarrow> nat set \<Rightarrow> mail_store \<Rightarrow> mail_store \<Rightarrow> bool" for lib lim D where
  Arrive: "elementary lib lim D s (arrive m key imported s)"
    if "sm_Raw m = Some raw" "sm_Digest m = hashIncoming lib raw" "length raw \<le> ml_MessageBytes lim"
       "Fits s lim (int (length raw))" "sm_Folder m \<in> set (ms_Folders s)"
       "case key of None \<Rightarrow> True | Some (k, env) \<Rightarrow> map_of (ms_Receipts s) k = None"
| Swap: "elementary lib lim D s (swap i m' r s)"
    if "live_msg s i = Some m" "i \<in> D" "sm_Raw m' = Some raw" "sm_Digest m' = hashIncoming lib raw" "length raw \<le> ml_MessageBytes lim"
       "ms_Records s < ml_Records lim" "int (length raw) - raw_len m \<le> ml_PayloadBytes lim - ms_Payload s"
       "sm_Folder m' \<in> set (ms_Folders s)" "\<forall>r' \<in> set (ms_Replaced s). rp_source r' \<noteq> rp_source r"
| Bury: "elementary lib lim D s (bury i s)" if "live_msg s i = Some m" "i \<in> D"
| Settle: "elementary lib lim D s (settle target i s)" if "msg_at s i = Some m" "target \<in> set (ms_Folders s)"
| Touch: "elementary lib lim D s (touch i m' s)"
    if "live_msg s i = Some m" "sm_Raw m' = sm_Raw m" "sm_Digest m' = sm_Digest m" "sm_Folder m' = sm_Folder m"
| Label: "elementary lib lim D s (s\<lparr>ms_Labels := ls\<rparr>)"
| Add: "elementary lib lim D s (add_folder name s)" if "validFolder name" "name \<notin> set (ms_Folders s)"
| Drop: "elementary lib lim D s (drop_folder name s)"
    if "name \<notin> set system_folders" "\<forall>m \<in> set (ms_Messages s). sm_Folder m \<noteq> name"

abbreviation chain :: "mail_lib \<Rightarrow> mailbox_limits \<Rightarrow> nat set \<Rightarrow> mail_store \<Rightarrow> mail_store \<Rightarrow> bool" where
  "chain lib lim D \<equiv> (elementary lib lim D)\<^sup>*\<^sup>*"

section \<open>Transactions as chains\<close>

lemma chain_one: "elementary lib lim D s s' \<Longrightarrow> chain lib lim D s s'"
  by (rule r_into_rtranclp)

lemma chain_atomically:
  assumes "\<And>r s'. body s = Inr (r, s') \<Longrightarrow> chain lib lim D s s'"
  shows "chain lib lim D s (snd (atomically db body s))"
  using assms by (auto simp: atomically_def split: sum.split)

lemma live_in_live: "live_in s folder i = Some m \<Longrightarrow> live_msg s i = Some m \<and> sm_Folder m = folder"
  by (auto simp: live_in_def split: option.splits if_splits)

lemma live_msgD: "live_msg s i = Some m \<Longrightarrow> msg_at s i = Some m \<and> sm_Raw m \<noteq> None"
  by (auto simp: live_msg_def split: option.splits if_splits)

lemma msg_atD: "msg_at s i = Some m \<Longrightarrow> 0 < i \<and> i \<le> length (ms_Messages s) \<and> m = ms_Messages s ! (i - 1)"
  by (auto simp: msg_at_def split: if_splits)

lemma store_new_chain:
  assumes "store_new lib lim reserve at folder raw key draft imported s = Inr (r, s')"
    and "length raw \<le> ml_MessageBytes lim"
    and "\<And>k. key = Some k \<Longrightarrow> map_of (ms_Receipts s) (rc_Gateway k, rc_Delivery k) = None"
  shows "chain lib lim D s s'"
proof -
  let ?m = "new_message lib at folder raw draft imported"
  let ?key = "map_option (\<lambda>k. ((rc_Gateway k, rc_Delivery k), k)) key"
  from assms(1) have g: "Fits s lim (int (length raw))" "folder \<in> set (ms_Folders s)" and s': "s' = arrive ?m ?key (imported \<noteq> None) s"
    by (auto simp: store_new_def arrive_def Let_def new_message_def store_message_def log_change_def split: if_splits option.splits)
  have "elementary lib lim D s (arrive ?m ?key (imported \<noteq> None) s)"
    using g assms(2,3) by (intro Arrive [where raw = raw]) (auto simp: new_message_def split: option.splits)
  thus ?thesis by (simp add: s' chain_one)
qed

lemma append_tx_chain:
  assumes "append_tx lib lim reserve at folder raw key draft imported s = Inr (r, s')"
  shows "chain lib lim D s s'"
  using assms store_new_chain [of lib lim reserve at folder raw key draft imported s r s']
  by (auto simp: append_tx_def split: if_splits option.splits)

lemma ensureLabelTx_eq: "ensureLabelTx l s = Inr s' \<Longrightarrow> \<exists>ls. s' = s\<lparr>ms_Labels := ls\<rparr>"
  by (auto simp: ensureLabelTx_def split: if_splits intro: exI [of _ "ms_Labels s"])

lemma ensure_labels_eq: "ensure_labels ls s = Inr s' \<Longrightarrow> \<exists>ls'. s' = s\<lparr>ms_Labels := ls'\<rparr>"
proof (induction ls arbitrary: s)
  case Nil
  thus ?case by (auto intro: exI [of _ "ms_Labels s"])
next
  case (Cons l ls)
  then obtain s1 where "ensureLabelTx l s = Inr s1" and "ensure_labels ls s1 = Inr s'" by auto
  from ensureLabelTx_eq [OF this(1)] Cons.IH [OF this(2)] show ?case by auto
qed

lemma live_labels [simp]:
  "live_msg (s\<lparr>ms_Labels := ls\<rparr>) i = live_msg s i" "live_msg (s\<lparr>ms_Folders := fs\<rparr>) i = live_msg s i"
  "msg_at (s\<lparr>ms_Labels := ls\<rparr>) i = msg_at s i" "msg_at (s\<lparr>ms_Folders := fs\<rparr>) i = msg_at s i"
  by (simp_all add: live_msg_def msg_at_def)

lemma touch_chain:
  assumes "live_msg s i = Some m" "sm_Raw m' = sm_Raw m" "sm_Digest m' = sm_Digest m" "sm_Folder m' = sm_Folder m"
  shows "chain lib lim D s (touch i m' (s\<lparr>ms_Labels := ls\<rparr>))" "chain lib lim D s (s\<lparr>ms_Labels := ls\<rparr>)"
proof -
  show 1: "chain lib lim D s (s\<lparr>ms_Labels := ls\<rparr>)" by (rule chain_one [OF Label])
  have "elementary lib lim D (s\<lparr>ms_Labels := ls\<rparr>) (touch i m' (s\<lparr>ms_Labels := ls\<rparr>))"
    by (rule Touch [of _ i m]) (simp_all add: assms)
  with 1 show "chain lib lim D s (touch i m' (s\<lparr>ms_Labels := ls\<rparr>))" by (rule rtranclp.rtrancl_into_rtrancl)
qed

lemma Update_chain: "chain lib lim D s (snd (Update db folder i seen starred labels s))"
  unfolding Update_def
  by (auto intro!: chain_atomically touch_chain dest!: live_in_live ensure_labels_eq split: option.splits if_splits)

lemma editFlagsTx_chain:
  assumes "editFlagsTx folder i seen label add s = Inr s'"
  shows "chain lib lim D s s'"
proof -
  obtain m where f: "(if folder = [] then live_msg s i else live_in s folder i) = Some m"
    using assms by (auto simp: editFlagsTx_def split: option.splits)
  hence m: "live_msg s i = Some m" by (auto dest: live_in_live split: if_splits)
  obtain labels s1 where s1: "(if label \<noteq> [] \<and> add then ensureLabelTx label s else Inr s) = Inr s1"
    and s': "s' = s1 \<or> s' = touch i (m\<lparr>sm_Seen := (case seen of None \<Rightarrow> sm_Seen m | Some v \<Rightarrow> v), sm_Labels := sort labels\<rparr>) s1"
    using assms unfolding editFlagsTx_def f by (cases "edit_labels label add (sm_Labels m)") (auto simp: Let_def split: if_splits)
  obtain ls where "s1 = s\<lparr>ms_Labels := ls\<rparr>"
    using s1 by (cases "label \<noteq> [] \<and> add") (auto dest!: ensureLabelTx_eq intro: that [of "ms_Labels s"])
  with s' show ?thesis by (auto intro!: touch_chain [OF m])
qed

subsection \<open>Filing many messages\<close>

definition moves :: "mail_store \<Rightarrow> string \<Rightarrow> nat \<Rightarrow> mail_change list" where
  "moves s target i =
     (let m = ms_Messages s ! (i - 1) in
      if sm_Raw m = None then []
      else [\<lparr>mc_ID = i, mc_Folder = sm_Folder m, mc_Removed = True\<rparr>, \<lparr>mc_ID = i, mc_Folder = target, mc_Removed = False\<rparr>])"

definition filed_in :: "string \<Rightarrow> nat set \<Rightarrow> stored_message list \<Rightarrow> stored_message list" where
  "filed_in target A xs = map (\<lambda>j. if Suc j \<in> A then (xs ! j)\<lparr>sm_Folder := target\<rparr> else xs ! j) [0..<length xs]"

definition valid_ids :: "mail_store \<Rightarrow> nat set \<Rightarrow> bool" where
  "valid_ids s A \<longleftrightarrow> (\<forall>i \<in> A. 0 < i \<and> i \<le> length (ms_Messages s))"

lemma raw_len_folder [simp]: "raw_len (m\<lparr>sm_Folder := t\<rparr>) = raw_len m"
  by (simp add: raw_len_def)

lemma settle_eq:
  "settle t i s = s\<lparr>ms_Messages := (ms_Messages s)[i - 1 := (ms_Messages s ! (i - 1))\<lparr>sm_Folder := t\<rparr>], ms_Changes := ms_Changes s @ moves s t i\<rparr>"
  by (simp add: settle_def Let_def put_msg_def log_change_def moves_def)

lemma filed_in_empty [simp]: "filed_in t {} xs = xs"
  by (simp add: filed_in_def map_nth)

lemma filed_in_insert:
  "0 < i \<Longrightarrow> i \<le> length xs \<Longrightarrow> i \<notin> A \<Longrightarrow> filed_in t A (xs[i - 1 := (xs ! (i - 1))\<lparr>sm_Folder := t\<rparr>]) = filed_in t (insert i A) xs"
  by (auto simp: filed_in_def nth_list_update)

lemma fold_settle:
  assumes "distinct is" "valid_ids s (set is)"
  shows "fold (settle t) is s = s\<lparr>ms_Messages := filed_in t (set is) (ms_Messages s), ms_Changes := ms_Changes s @ concat (map (moves s t) is)\<rparr>"
  using assms
proof (induction "is" arbitrary: s)
  case Nil
  show ?case by simp
next
  case (Cons i "is")
  let ?s = "settle t i s"
  have i: "0 < i" "i \<le> length (ms_Messages s)" "i \<notin> set is" using Cons.prems by (auto simp: valid_ids_def)
  have "moves ?s t j = moves s t j" if j: "j \<in> set is" for j
  proof -
    have "0 < j" "j \<noteq> i" using j i(3) Cons.prems(2) by (auto simp: valid_ids_def)
    with i(1) have "i - 1 \<noteq> j - 1" by linarith
    thus ?thesis by (simp add: moves_def settle_eq)
  qed
  hence m: "map (moves ?s t) is = map (moves s t) is" by simp
  have "valid_ids ?s (set is)" using Cons.prems by (simp add: valid_ids_def)
  with Cons show ?case by (simp add: m) (simp add: settle_eq filed_in_insert [OF i, unfolded One_nat_def])
qed

lemma concat_map_if: "concat (map (\<lambda>i. if P i then f i else []) xs) = concat (map f (filter P xs))"
  by (induction xs) auto

lemma log_moves_eq:
  "log_moves name new is s = s\<lparr>ms_Changes := ms_Changes s @ concat (map (\<lambda>i. [\<lparr>mc_ID = i, mc_Folder = name, mc_Removed = True\<rparr>,
     \<lparr>mc_ID = i, mc_Folder = new, mc_Removed = False\<rparr>]) is)\<rparr>"
  by (induction "is" arbitrary: s) (simp_all add: log_change_def)

text \<open>The rows an \<open>UPDATE\<close> with condition \<open>p\<close> changes.\<close>

definition ids_where :: "mail_store \<Rightarrow> (stored_message \<Rightarrow> bool) \<Rightarrow> nat list" where
  "ids_where s p = filter (\<lambda>i. p (ms_Messages s ! (i - 1))) [1..<length (ms_Messages s) + 1]"

lemma ids_where_ok: "distinct (ids_where s p)" "valid_ids s (set (ids_where s p))"
  by (auto simp: ids_where_def valid_ids_def)

lemma filed_in_where: "filed_in t (set (ids_where s p)) (ms_Messages s) = map (\<lambda>m. if p m then m\<lparr>sm_Folder := t\<rparr> else m) (ms_Messages s)"
  by (rule nth_equalityI) (auto simp: filed_in_def ids_where_def simp del: upt_Suc)

lemma refile_buried:
  assumes "\<And>m. p m \<Longrightarrow> sm_Raw m = None"
  shows "refile p t s = fold (settle t) (ids_where s p) s"
proof -
  have "concat (map (moves s t) (ids_where s p)) = []"
    using assms by (auto simp: moves_def ids_where_def Let_def)
  thus ?thesis by (simp add: fold_settle [OF ids_where_ok] filed_in_where refile_def)
qed

lemma rename_moves:
  "log_moves name new (live_ids s name) (refile (\<lambda>m. sm_Folder m = name) new s) = fold (settle new) (ids_where s (\<lambda>m. sm_Folder m = name)) s"
proof -
  let ?p = "\<lambda>m. sm_Folder m = name"
  let ?f = "\<lambda>i. [\<lparr>mc_ID = i, mc_Folder = name, mc_Removed = True\<rparr>, \<lparr>mc_ID = i, mc_Folder = new, mc_Removed = False\<rparr>]"
  have "map (moves s new) (ids_where s ?p) = map (\<lambda>i. if sm_Raw (ms_Messages s ! (i - 1)) \<noteq> None then ?f i else []) (ids_where s ?p)"
    by (auto simp: moves_def ids_where_def Let_def)
  hence "concat (map (moves s new) (ids_where s ?p)) = concat (map ?f (filter (\<lambda>i. sm_Raw (ms_Messages s ! (i - 1)) \<noteq> None) (ids_where s ?p)))"
    by (simp only: concat_map_if)
  also have "filter (\<lambda>i. sm_Raw (ms_Messages s ! (i - 1)) \<noteq> None) (ids_where s ?p) = live_ids s name"
    unfolding ids_where_def live_ids_def filter_filter
    by (rule filter_cong) (auto simp: live_in_def live_msg_def msg_at_def)
  finally show ?thesis
    by (simp add: fold_settle [OF ids_where_ok] filed_in_where log_moves_eq refile_def)
qed

lemma fold_settle_chain:
  assumes "valid_ids s (set is)" "t \<in> set (ms_Folders s)"
  shows "chain lib lim D s (fold (settle t) is s)"
  using assms
proof (induction "is" arbitrary: s)
  case (Cons i "is")
  obtain m where "msg_at s i = Some m" using Cons.prems(1) by (auto simp: valid_ids_def msg_at_def)
  hence "elementary lib lim D s (settle t i s)" using Cons.prems(2) by (rule Settle)
  moreover have "valid_ids (settle t i s) (set is)" using Cons.prems(1) by (simp add: valid_ids_def)
  moreover have "t \<in> set (ms_Folders (settle t i s))" using Cons.prems(2) by (simp add: settle_eq)
  ultimately show ?case using Cons.IH [of "settle t i s"] by (auto intro: converse_rtranclp_into_rtranclp)
qed simp

subsection \<open>The paged loop\<close>

text \<open>Moving page by page is moving every message above the cursor once, in order.\<close>

lemma ms_Folders_fold_settle [simp]: "ms_Folders (fold (settle t) is s) = ms_Folders s"
  by (induction "is" arbitrary: s) (simp_all add: settle_eq)

lemma live_ids_valid: "valid_ids s (set (live_ids s folder))" "distinct (live_ids s folder)" "sorted (live_ids s folder)"
  by (auto simp: live_ids_def valid_ids_def sorted_wrt_filter simp del: upt_Suc)

lemma live_in_fold_settle:
  assumes "distinct is" "valid_ids s (set is)" "t \<noteq> folder"
  shows "live_in (fold (settle t) is s) folder i \<noteq> None \<longleftrightarrow> live_in s folder i \<noteq> None \<and> i \<notin> set is"
  using assms(2,3)
  by (auto simp: fold_settle [OF assms(1,2)] live_in_def live_msg_def msg_at_def filed_in_def split: if_splits option.splits)

lemma live_ids_fold_settle:
  assumes "distinct is" "valid_ids s (set is)" "t \<noteq> folder"
  shows "live_ids (fold (settle t) is s) folder = filter (\<lambda>i. i \<notin> set is) (live_ids s folder)"
  unfolding live_ids_def filter_filter length_fold_settle
  by (rule filter_cong) (use live_in_fold_settle [OF assms] in auto)

lemma rest_after_page:
  fixes xs :: "nat list"
  assumes "sorted_wrt (<) xs" "take n (filter (\<lambda>i. a < i) xs) = ids" "ids \<noteq> []"
  shows "filter (\<lambda>i. a < i) xs = ids @ filter (\<lambda>i. last ids < i) xs"
proof -
  let ?ys = "filter (\<lambda>i. a < i) xs"
  have ys: "?ys = ids @ drop n ?ys" using assms(2) by (metis append_take_drop_id)
  have "sorted_wrt (<) (ids @ drop n ?ys)" using assms(1) ys by (metis sorted_wrt_filter)
  hence lt: "\<forall>x \<in> set ids. \<forall>y \<in> set (drop n ?ys). x < y" and s: "sorted_wrt (<) ids"
    by (simp_all add: sorted_wrt_append)
  from s have le: "\<forall>x \<in> set ids. x \<le> last ids" by (induction ids rule: rev_induct) (auto simp: sorted_wrt_append less_imp_le)
  have "last ids \<in> set ?ys" using assms(2,3) by (metis in_set_takeD last_in_set)
  hence "filter (\<lambda>i. last ids < i) xs = filter (\<lambda>i. last ids < i) ?ys" by (auto intro!: filter_cong)
  also have "\<dots> = filter (\<lambda>i. last ids < i) ids @ filter (\<lambda>i. last ids < i) (drop n ?ys)" by (metis filter_append ys)
  also have "\<dots> = drop n ?ys" using lt le assms(3) by (auto simp: filter_empty_conv filter_id_conv not_less)
  finally show ?thesis using ys by simp
qed

lemma live_ids_strict: "sorted_wrt (<) (live_ids s folder)"
  by (simp add: live_ids_def sorted_wrt_filter del: upt_Suc)

lemma move_page_sub: "set (move_page folder after s) \<subseteq> set (live_ids s folder)" "distinct (move_page folder after s)"
  by (auto simp: move_page_def live_ids_valid(2) dest: in_set_takeD)

declare move_pages.simps [simp del]

theorem move_pages_all:
  assumes "t \<noteq> folder"
  shows "move_pages folder t after s = fold (settle t) (filter (\<lambda>i. after < i) (live_ids s folder)) s"
  using assms
proof (induction folder t after s rule: move_pages.induct)
  case (1 folder t after s)
  define ids where "ids = move_page folder after s"
  show ?case
  proof (cases "ids = []")
    case True
    hence "filter (\<lambda>i. after < i) (live_ids s folder) = []" by (simp add: ids_def move_page_def)
    with True show ?thesis by (simp add: move_pages.simps [of folder t after s] ids_def)
  next
    case False
    let ?s = "fold (settle t) ids s"
    have v: "distinct ids" "valid_ids s (set ids)"
      using move_page_sub [of folder after s] live_ids_valid(1) [of s folder] by (auto simp: ids_def valid_ids_def)
    have rest: "filter (\<lambda>i. after < i) (live_ids s folder) = ids @ filter (\<lambda>i. last ids < i) (live_ids s folder)"
      using live_ids_strict _ False by (rule rest_after_page) (simp add: ids_def move_page_def)
    have "\<forall>i \<in> set ids. \<not> last ids < i"
    proof -
      have "sorted_wrt (<) ids" using live_ids_strict rest by (metis sorted_wrt_append sorted_wrt_filter)
      thus ?thesis by (induction ids rule: rev_induct) (auto simp: sorted_wrt_append)
    qed
    hence "filter (\<lambda>i. last ids < i) (live_ids ?s folder) = filter (\<lambda>i. last ids < i) (live_ids s folder)"
      by (auto simp: live_ids_fold_settle [OF v "1.prems"] intro!: filter_cong)
    moreover have "move_pages folder t (last ids) ?s = fold (settle t) (filter (\<lambda>i. last ids < i) (live_ids ?s folder)) ?s"
      using "1.IH" [OF ids_def False "1.prems"] .
    ultimately show ?thesis
      using False by (simp add: move_pages.simps [of folder t after s] ids_def [symmetric] Let_def rest)
  qed
qed

subsection \<open>The folder transactions\<close>

lemma add_chain: "validFolder name \<Longrightarrow> name \<notin> set (ms_Folders s) \<Longrightarrow> chain lib lim D s (add_folder name s)"
  by (rule chain_one [OF Add])

lemma ensure_folder_chain: "validFolder name \<Longrightarrow> chain lib lim D s (ensure_folder name s)"
  by (simp add: ensure_folder_def add_chain)

lemma parent_neq: "parent_of folder = Some p \<Longrightarrow> p \<noteq> folder"
proof
  let ?d = "dropWhile (\<lambda>c. c \<noteq> CHR ''/'') (rev folder)"
  assume "parent_of folder = Some p" "p = folder"
  hence slash: "CHR ''/'' \<in> set (rev folder)" and "rev (tl ?d) = folder"
    by (auto simp: parent_of_def split: if_splits)
  hence eq: "length folder = length (tl ?d)" by (metis length_rev)
  have "?d \<noteq> []" using slash by (auto simp: dropWhile_eq_Nil_conv)
  hence "length (tl ?d) < length ?d" by simp
  also have "\<dots> \<le> length (rev folder)" by (rule length_dropWhile_le)
  finally show False using eq by simp
qed

lemma live_ids_Nil:
  assumes "live_ids s name = []" "m \<in> set (ms_Messages s)" "sm_Folder m = name"
  shows "sm_Raw m = None"
proof (rule ccontr)
  assume live: "sm_Raw m \<noteq> None"
  obtain j where "j < length (ms_Messages s)" "ms_Messages s ! j = m" using assms(2) by (auto simp: in_set_conv_nth)
  hence "Suc j \<in> set (live_ids s name)"
    using live assms(3) by (auto simp: live_ids_def live_in_def live_msg_def msg_at_def simp del: upt_Suc)
  thus False using assms(1) by simp
qed

lemma buried_only [simp]: "buried_in name m \<Longrightarrow> sm_Raw m = None"
  by (simp add: buried_in_def)

text \<open>After live mail and tombstones have left a folder, no row names it, and it can go.\<close>

lemma retire_chain:
  assumes "live_ids s name = []" "t \<noteq> name" "list_ex (buried_in name) (ms_Messages s) \<longrightarrow> t \<in> set (ms_Folders s)" "name \<notin> set system_folders"
  shows "chain lib lim D s (drop_folder name (refile (buried_in name) t s))"
proof -
  have "chain lib lim D s (refile (buried_in name) t s)"
  proof (cases "list_ex (buried_in name) (ms_Messages s)")
    case True
    thus ?thesis using assms(3) fold_settle_chain [OF ids_where_ok(2)] by (simp add: refile_buried)
  next
    case False
    hence "map (\<lambda>m. if buried_in name m then m\<lparr>sm_Folder := t\<rparr> else m) (ms_Messages s) = ms_Messages s"
      by (auto simp: list_ex_iff intro!: map_idI)
    thus ?thesis by (simp add: refile_def)
  qed
  moreover have "elementary lib lim D (refile (buried_in name) t s) (drop_folder name (refile (buried_in name) t s))"
    using assms(2,4) live_ids_Nil [OF assms(1)] by (intro Drop) (auto simp: refile_def buried_in_def)
  ultimately show ?thesis by (rule rtranclp.rtrancl_into_rtrancl)
qed

lemma DeleteFolder_chain: "chain lib lim D s (snd (DeleteFolder db name s))"
  unfolding DeleteFolder_def
  by (auto intro!: chain_atomically retire_chain simp: system_folders_def split: if_splits)

lemma no_slash_system: "CHR ''/'' \<in> set name \<Longrightarrow> name \<notin> set system_folders"
  by (auto simp: system_folders_def)

lemma deleteFolderToParent_chain: "chain lib lim D s (snd (deleteFolderToParent db folder s))"
proof (cases "parent_of folder")
  case (Some p)
  have "chain lib lim D s (drop_folder folder (refile (buried_in folder) p (move_pages folder p 0 s)))" if p: "p \<in> set (ms_Folders s)"
  proof -
    have ne: "p \<noteq> folder" by (rule parent_neq [OF Some])
    have f0: "filter (\<lambda>i. 0 < i) (live_ids s folder) = live_ids s folder"
      using live_ids_valid(1) [of s folder] by (auto simp: valid_ids_def)
    have mp: "move_pages folder p 0 s = fold (settle p) (live_ids s folder) s" by (simp only: move_pages_all [OF ne] f0)
    have "live_ids (move_pages folder p 0 s) folder = []"
      by (simp add: mp live_ids_fold_settle [OF live_ids_valid(2,1) ne])
    hence "chain lib lim D (move_pages folder p 0 s) (drop_folder folder (refile (buried_in folder) p (move_pages folder p 0 s)))"
      using ne p Some by (intro retire_chain) (auto simp: mp parent_of_def intro!: no_slash_system split: if_splits)
    moreover have "chain lib lim D s (move_pages folder p 0 s)" unfolding mp by (rule fold_settle_chain [OF live_ids_valid(1) p])
    ultimately show ?thesis by (rule rtranclp_trans [rotated])
  qed
  thus ?thesis by (auto simp: deleteFolderToParent_def Some intro!: chain_atomically split: if_splits)
qed (simp add: deleteFolderToParent_def)

lemma subtree_name:
  assumes "n \<in> set (subtree s folder)" "folder \<notin> set system_folders"
  shows "take (length folder) n = folder" "n \<notin> set system_folders"
proof -
  consider "n = folder" | "is_child folder n" using assms(1) by (auto simp: subtree_def)
  hence "take (length folder) n = folder \<and> n \<notin> set system_folders"
  proof cases
    case 2
    hence n: "n = folder @ ''/'' @ drop (length folder + 1) n" by (metis append_assoc append_take_drop_id is_child_def)
    have "take (length folder) (folder @ ''/'' @ drop (length folder + 1) n) = folder" by simp
    hence pre: "take (length folder) n = folder" using n by metis
    have "CHR ''/'' \<in> set (folder @ ''/'' @ drop (length folder + 1) n)" by simp
    hence "CHR ''/'' \<in> set n" using n by metis
    with pre show ?thesis by (simp add: no_slash_system)
  qed (simp add: assms(2))
  thus "take (length folder) n = folder" "n \<notin> set system_folders" by simp_all
qed

lemma rename_one_chain:
  assumes "rename_one folder target name s = Inr s'" "take (length folder) name = folder" "name \<notin> set system_folders" "folder \<noteq> target"
  shows "chain lib lim D s s'"
proof -
  define new where "new = target @ drop (length folder) name"
  define s1 where "s1 = add_folder new s"
  let ?ids = "ids_where s1 (\<lambda>m. sm_Folder m = name)"
  have ok: "validFolder new" "new \<notin> set (ms_Folders s)"
    and s': "s' = drop_folder name (log_moves name new (live_ids s1 name) (refile (\<lambda>m. sm_Folder m = name) new s1))"
    using assms(1) by (auto simp: rename_one_def Let_def new_def s1_def split: if_splits)
  have ne: "new \<noteq> name" using assms(2,4) unfolding new_def by (metis append_same_eq append_take_drop_id)
  have "chain lib lim D s s1" unfolding s1_def by (rule add_chain [OF ok])
  moreover have "chain lib lim D s1 (fold (settle new) ?ids s1)"
    using ids_where_ok(2) by (rule fold_settle_chain) (simp add: s1_def add_folder_def)
  moreover have "elementary lib lim D (fold (settle new) ?ids s1) (drop_folder name (fold (settle new) ?ids s1))"
    using assms(3) ne by (intro Drop) (auto simp: fold_settle [OF ids_where_ok] filed_in_where)
  ultimately show ?thesis by (auto simp: s' rename_moves intro: rtranclp_trans rtranclp.rtrancl_into_rtrancl)
qed

lemma rename_all_chain:
  assumes "rename_all folder target ns s = Inr s'" "folder \<noteq> target"
    and "\<forall>n \<in> set ns. take (length folder) n = folder \<and> n \<notin> set system_folders"
  shows "chain lib lim D s s'"
  using assms(1,3)
proof (induction ns arbitrary: s)
  case (Cons n ns)
  then obtain s1 where 1: "rename_one folder target n s = Inr s1" and 2: "rename_all folder target ns s1 = Inr s'" by auto
  have "chain lib lim D s s1" using 1 Cons.prems(2) assms(2) by (intro rename_one_chain) auto
  moreover have "chain lib lim D s1 s'" using 2 Cons.prems(2) by (intro Cons.IH) auto
  ultimately show ?case by (rule rtranclp_trans)
qed simp

lemma RenameFolder_chain: "chain lib lim D s (snd (RenameFolder db folder target s))"
proof (cases "folder \<in> set system_folders \<or> folder = target")
  case False
  hence "chain lib lim D s s'" if "rename_all folder target (subtree s folder) s = Inr s'" for s'
    using that subtree_name [of _ s folder] by (intro rename_all_chain) auto
  thus ?thesis using False by (auto simp: RenameFolder_def intro!: chain_atomically split: list.splits if_splits)
qed (auto simp: RenameFolder_def)

subsection \<open>Every transaction\<close>

lemma relocate_chain: "(target = [] \<Longrightarrow> i \<in> D) \<Longrightarrow> chain lib lim D s (snd (relocate db folder i target s))"
  unfolding relocate_def
  by (rule chain_atomically) (auto intro: chain_one Bury Settle dest!: live_in_live dest: live_msgD split: if_splits)

lemma ensureLabel_chain: "chain lib lim D s (snd (ensureLabel db label s))"
  unfolding ensureLabel_def by (auto intro!: chain_atomically chain_one [OF Label] dest!: ensureLabelTx_eq)

lemma editFlags_chain: "chain lib lim D s (snd (editFlags db folder i seen label add s))"
  unfolding editFlags_def by (rule chain_atomically) (auto intro: editFlagsTx_chain)

lemma CreateFolder_chain: "chain lib lim D s (snd (CreateFolder db name s))"
  unfolding CreateFolder_def by (auto intro!: chain_atomically add_chain split: if_splits)

lemma createFolder_chain: "chain lib lim D s (snd (createFolder db parent target s))"
  unfolding createFolder_def by (auto intro!: chain_atomically ensure_folder_chain split: if_splits)

lemma replace_tx_chain:
  assumes "replace_tx lib lim src marker encrypted s = Inr (r, s')" "length encrypted \<le> ml_MessageBytes lim" "is_UID src \<in> D"
  shows "chain lib lim D s s'"
proof (cases "List.find (\<lambda>r. rp_source r = is_UID src) (ms_Replaced s)")
  case (Some rp)
  with assms(1) have "s' = s" by (auto simp: replace_tx_def split: if_splits)
  thus ?thesis by simp
next
  case None
  then obtain m where m: "live_in s ''INBOX'' (is_UID src) = Some m"
    using assms(1) by (auto simp: replace_tx_def split: option.splits)
  note mD = live_in_live [OF m]
  hence at: "m = ms_Messages s ! (is_UID src - 1)" and le: "is_UID src \<le> length (ms_Messages s)" "0 < is_UID src"
    using live_msgD msg_atD by blast+
  let ?r = "\<lparr>rp_source = is_UID src, rp_marker = marker, rp_source_hash = is_Hash src,
                                rp_cipher_hash = hashIncoming lib encrypted, rp_new = length (ms_Messages s) + 1\<rparr>"
  let ?m = "replacement_of lib encrypted m"
  have g: "ms_Records s < ml_Records lim" "int (length encrypted) - raw_len m \<le> ml_PayloadBytes lim - ms_Payload s" "''INBOX'' \<in> set (ms_Folders s)"
    and s': "s' = swap (is_UID src) ?m ?r s"
    using assms(1) None m mD at le
    by (auto simp: replace_tx_def swap_def Let_def replacement_of_def split: if_splits)
  have "elementary lib lim D s (swap (is_UID src) ?m ?r s)"
    using mD g assms(2,3) None by (intro Swap [where raw = encrypted]) (auto simp: replacement_of_def find_None_iff)
  thus ?thesis unfolding s' by (rule chain_one)
qed

lemma ReplaceIncoming_chain: "is_UID src \<in> D \<Longrightarrow> chain lib lim D s (snd (ReplaceIncoming lib lim pgp account access db src marker encrypted s))"
  unfolding ReplaceIncoming_def
  by (auto intro!: chain_atomically replace_tx_chain simp: checkIncomingReplacement_def split: option.splits if_splits)

lemma action_tx_chain:
  assumes "action_tx lib lim src uid marker encrypted action v target s = Inr (r, s')"
  shows "chain lib lim D s s'"
proof -
  obtain folder where ver: "verifyIncomingTx lib lim src uid marker encrypted s = Inr folder" using assms by (auto simp: action_tx_def)
  then obtain m where m: "msg_at s uid = Some m" by (auto simp: verifyIncomingTx_def dest: live_msgD split: if_splits option.splits)
  have "chain lib lim D s (settle target uid (ensure_folder target s))" if "validFolder target"
  proof -
    have "msg_at (ensure_folder target s) uid = Some m" using m by (simp add: ensure_folder_def add_folder_def)
    hence "elementary lib lim D (ensure_folder target s) (settle target uid (ensure_folder target s))"
      by (rule Settle) (simp add: ensure_folder_def add_folder_def)
    with ensure_folder_chain [OF that] show ?thesis by (rule rtranclp.rtrancl_into_rtrancl)
  qed
  thus ?thesis using assms ver by (auto simp: action_tx_def intro: editFlagsTx_chain ensure_folder_chain split: if_splits)
qed

lemma ApplyIncomingAction_chain:
  "chain lib lim D s (snd (ApplyIncomingAction lib lim year_of account access db src uid marker encrypted action v s))"
  unfolding ApplyIncomingAction_def by (auto intro!: chain_atomically dest: action_tx_chain split: option.splits sum.splits)

lemma append_chain: "chain lib lim D s (snd (atomically db (append_tx lib lim reserve at folder raw key draft imported) s))"
  by (rule chain_atomically) (rule append_tx_chain)

lemmas op_chains = Update_chain relocate_chain editFlags_chain ensureLabel_chain CreateFolder_chain createFolder_chain
  DeleteFolder_chain deleteFolderToParent_chain RenameFolder_chain ReplaceIncoming_chain ApplyIncomingAction_chain

text \<open>The messages a transaction may bury.\<close>

fun doomed :: "mail_op \<Rightarrow> nat set" where
  "doomed (DeleteOp db folder i) = {i}"
| "doomed (ReplaceOp pgp account access db src marker encrypted) = {is_UID src}"
| "doomed op = {}"

lemma chain_mono:
  assumes "chain lib lim D s s'" "D \<subseteq> E"
  shows "chain lib lim E s s'"
proof -
  have "elementary lib lim D \<le> elementary lib lim E"
    using assms(2) by (auto elim!: elementary.cases intro: elementary.intros)
  with assms(1) show ?thesis using rtranclp_mono by blast
qed

lemma validFolder_Nil [simp]: "\<not> validFolder []"
  by (simp add: validFolder_def validText_def)

lemma mail_step_chain: "chain lib lim (doomed op) s (mail_step lib lim op s)"
  by (cases op)
    (auto simp: Import_mail_def Append_mail_def ImportMessage_def Move_def Delete_mail_def op_chains append_chain intro!: relocate_chain split: option.splits)

lemma mail_run_chain: "chain lib lim (\<Union>op \<in> set ops. doomed op) s (mail_run lib lim ops s)"
  unfolding mail_run_def
proof (induction ops arbitrary: s)
  case (Cons op ops)
  have "chain lib lim (\<Union>op \<in> set (op # ops). doomed op) s (mail_step lib lim op s)"
    using mail_step_chain by (rule chain_mono) auto
  moreover have "chain lib lim (\<Union>op \<in> set (op # ops). doomed op) (mail_step lib lim op s) (fold (mail_step lib lim) ops (mail_step lib lim op s))"
    using Cons.IH by (rule chain_mono) auto
  ultimately show ?case by (auto intro: rtranclp_trans)
qed simp

section \<open>Invariants\<close>

locale mailbox_invariant =
  fixes lib :: mail_lib and lim :: mailbox_limits and I :: "mail_store \<Rightarrow> bool"
  assumes new_store: "I new_store"
    and elementary: "elementary lib lim D s s' \<Longrightarrow> I s \<Longrightarrow> I s'"
begin

lemma chain_inv: "chain lib lim D s s' \<Longrightarrow> I s \<Longrightarrow> I s'"
  by (induction rule: rtranclp_induct) (auto intro: elementary)

lemma run_inv: "I s \<Longrightarrow> I (mail_run lib lim ops s)"
  using mail_run_chain by (rule chain_inv)

lemma reach_inv: "I (mail_run lib lim ops new_store)"
  by (rule run_inv [OF new_store])

end

end
