(* ===== verification/Mailbox_Properties.thy ===== *)
theory Mailbox_Properties
  imports Mailbox_System "HOL-Library.Multiset"
begin

text \<open>
  What the native mailbox promises: its folders hold together, the change feed tells exactly which messages
  are where, a delivery is stored once, mail is kept until it is deleted, and the limits hold.
\<close>

lemmas elementary_defs = arrive_def swap_def bury_def touch_def add_folder_def drop_folder_def store_message_def put_msg_def
  log_change_def Let_def

section \<open>Messages after an elementary change\<close>

lemma arrive_sel [simp]:
  "ms_Messages (arrive m key imp s) = ms_Messages s @ [m]" "ms_Folders (arrive m key imp s) = ms_Folders s"
  "ms_Records (arrive m key imp s) = ms_Records s + 1" "ms_Payload (arrive m key imp s) = ms_Payload s + raw_len m"
  "ms_Changes (arrive m key imp s) = ms_Changes s @ [\<lparr>mc_ID = length (ms_Messages s) + 1, mc_Folder = sm_Folder m, mc_Removed = False\<rparr>]"
  "ms_Receipts (arrive m key imp s) = (case key of None \<Rightarrow> ms_Receipts s | Some (k, env) \<Rightarrow> ms_Receipts s @ [(k, env, sm_Digest m, length (ms_Messages s) + 1)])"
  by (simp_all add: elementary_defs split: option.split)

lemma swap_sel [simp]:
  "ms_Messages (swap i m' r s) = (ms_Messages s @ [m'])[i - 1 := cleared (ms_Messages s ! (i - 1))]" "ms_Folders (swap i m' r s) = ms_Folders s"
  "ms_Records (swap i m' r s) = ms_Records s + 1"
  "ms_Changes (swap i m' r s) = ms_Changes s @ [\<lparr>mc_ID = i, mc_Folder = sm_Folder (ms_Messages s ! (i - 1)), mc_Removed = True\<rparr>,
     \<lparr>mc_ID = length (ms_Messages s) + 1, mc_Folder = sm_Folder m', mc_Removed = False\<rparr>]"
  "ms_Receipts (swap i m' r s) = ms_Receipts s"
  by (simp_all add: elementary_defs)

lemma bury_sel [simp]:
  "ms_Messages (bury i s) = (ms_Messages s)[i - 1 := cleared (ms_Messages s ! (i - 1))]" "ms_Folders (bury i s) = ms_Folders s"
  "ms_Records (bury i s) = ms_Records s" "ms_Receipts (bury i s) = ms_Receipts s"
  "ms_Changes (bury i s) = ms_Changes s @ [\<lparr>mc_ID = i, mc_Folder = sm_Folder (ms_Messages s ! (i - 1)), mc_Removed = True\<rparr>]"
  by (simp_all add: elementary_defs)

lemma touch_sel [simp]:
  "ms_Messages (touch i m s) = (ms_Messages s)[i - 1 := m]" "ms_Folders (touch i m s) = ms_Folders s"
  "ms_Records (touch i m s) = ms_Records s" "ms_Receipts (touch i m s) = ms_Receipts s"
  "ms_Changes (touch i m s) = ms_Changes s @ [\<lparr>mc_ID = i, mc_Folder = sm_Folder m, mc_Removed = False\<rparr>]"
  by (simp_all add: elementary_defs)

lemma folder_sel [simp]:
  "ms_Messages (add_folder n s) = ms_Messages s" "ms_Folders (add_folder n s) = ms_Folders s @ [n]"
  "ms_Messages (drop_folder n s) = ms_Messages s" "ms_Folders (drop_folder n s) = removeAll n (ms_Folders s)"
  "ms_Records (add_folder n s) = ms_Records s" "ms_Records (drop_folder n s) = ms_Records s"
  "ms_Payload (add_folder n s) = ms_Payload s" "ms_Payload (drop_folder n s) = ms_Payload s"
  "ms_Changes (add_folder n s) = ms_Changes s" "ms_Changes (drop_folder n s) = ms_Changes s"
  "ms_Receipts (add_folder n s) = ms_Receipts s" "ms_Receipts (drop_folder n s) = ms_Receipts s"
  by (simp_all add: elementary_defs)

lemma settle_sel [simp]:
  "ms_Messages (settle t i s) = (ms_Messages s)[i - 1 := (ms_Messages s ! (i - 1))\<lparr>sm_Folder := t\<rparr>]" "ms_Folders (settle t i s) = ms_Folders s"
  "ms_Records (settle t i s) = ms_Records s" "ms_Payload (settle t i s) = ms_Payload s" "ms_Receipts (settle t i s) = ms_Receipts s"
  "ms_Changes (settle t i s) = ms_Changes s @ moves s t i"
  by (simp_all add: settle_eq)

lemma cleared_sel [simp]: "sm_Folder (cleared m) = sm_Folder m" "sm_Raw (cleared m) = None" "sm_Digest (cleared m) = sm_Digest m"
  by (simp_all add: cleared_def)

section \<open>Folders\<close>

definition folders_ok :: "mail_store \<Rightarrow> bool" where
  "folders_ok s \<longleftrightarrow>
     distinct (ms_Folders s) \<and> set system_folders \<subseteq> set (ms_Folders s) \<and> (\<forall>f \<in> set (ms_Folders s). validFolder f) \<and>
     (\<forall>m \<in> set (ms_Messages s). sm_Folder m \<in> set (ms_Folders s))"

lemma set_update_sub: "x \<in> set (xs[i := y]) \<Longrightarrow> x = y \<or> x \<in> set xs"
  by (metis insertE set_update_subset_insert subsetD)

lemma live_mem: "live_msg s i = Some m \<Longrightarrow> m \<in> set (ms_Messages s) \<and> ms_Messages s ! (i - 1) = m"
  by (auto dest!: live_msgD msg_atD intro!: nth_mem)

lemma at_mem: "msg_at s i = Some m \<Longrightarrow> m \<in> set (ms_Messages s) \<and> ms_Messages s ! (i - 1) = m"
  by (auto dest!: msg_atD intro!: nth_mem)

lemma folders_ok_step: "elementary lib lim D s s' \<Longrightarrow> folders_ok s \<Longrightarrow> folders_ok s'"
proof (induction rule: elementary.induct)
  case (Swap s i m m' raw r)
  thus ?case by (auto simp: folders_ok_def dest!: live_mem set_update_sub)
next
  case (Bury s i m)
  thus ?case by (auto simp: folders_ok_def dest!: live_mem set_update_sub)
next
  case (Touch s i m m')
  thus ?case by (auto simp: folders_ok_def dest!: live_mem set_update_sub)
next
  case (Settle s i m target)
  thus ?case by (auto simp: folders_ok_def dest!: set_update_sub)
qed (auto simp: folders_ok_def distinct_removeAll)

lemma folders_ok_new: "folders_ok new_store"
  unfolding folders_ok_def new_store_def by code_simp

interpretation folders: mailbox_invariant lib lim folders_ok for lib lim
  by unfold_locales (auto simp: folders_ok_new intro: folders_ok_step)

section \<open>The change feed\<close>

fun apply_change :: "mail_change \<Rightarrow> (nat \<times> string) set \<Rightarrow> (nat \<times> string) set" where
  "apply_change c A = (if mc_Removed c then A - {(mc_ID c, mc_Folder c)} else insert (mc_ID c, mc_Folder c) A)"

text \<open>Which live message is in which folder.\<close>

definition live_view :: "stored_message list \<Rightarrow> (nat \<times> string) set" where
  "live_view ms = {(i, f). 0 < i \<and> i \<le> length ms \<and> sm_Raw (ms ! (i - 1)) \<noteq> None \<and> sm_Folder (ms ! (i - 1)) = f}"

definition feed_ok :: "mail_store \<Rightarrow> bool" where
  "feed_ok s \<longleftrightarrow> fold apply_change (ms_Changes s) {} = live_view (ms_Messages s)"

lemma live_view_append:
  "live_view (ms @ [m]) = (if sm_Raw m = None then live_view ms else insert (length ms + 1, sm_Folder m) (live_view ms))"
proof -
  have "(i, f) \<in> live_view (ms @ [m]) \<longleftrightarrow> (i, f) \<in> live_view ms \<or> i = length ms + 1 \<and> sm_Raw m \<noteq> None \<and> sm_Folder m = f" for i f
  proof (cases "i = length ms + 1")
    case False
    hence "i \<le> Suc (length ms) \<longleftrightarrow> i \<le> length ms" by linarith
    thus ?thesis using False by (auto simp: live_view_def nth_append)
  qed (simp add: live_view_def)
  thus ?thesis by auto
qed

lemma live_view_upd:
  assumes "0 < i" "i \<le> length ms"
  shows "live_view (ms[i - 1 := m]) = (live_view ms - {i} \<times> UNIV) \<union> (if sm_Raw m = None then {} else {(i, sm_Folder m)})"
proof -
  have "(j, f) \<in> live_view (ms[i - 1 := m]) \<longleftrightarrow> (if j = i then sm_Raw m \<noteq> None \<and> sm_Folder m = f else (j, f) \<in> live_view ms)" for j f
  proof (cases "j = i \<or> j = 0")
    case False
    hence "i - 1 \<noteq> j - 1" using assms by linarith
    thus ?thesis using False by (simp add: live_view_def)
  qed (use assms in \<open>auto simp: live_view_def\<close>)
  thus ?thesis by (auto split: if_splits)
qed

lemmas live_view_update = live_view_upd [unfolded One_nat_def]

lemma live_view_at: "sm_Raw (ms ! (i - 1)) \<noteq> None \<Longrightarrow> live_view ms - {i} \<times> UNIV = live_view ms - {(i, sm_Folder (ms ! (i - 1)))}"
  by (auto simp: live_view_def)

lemma live_view_dead: "sm_Raw (ms ! (i - 1)) = None \<Longrightarrow> live_view ms - {i} \<times> UNIV = live_view ms"
  by (auto simp: live_view_def)

lemma live_view_mem: "0 < i \<Longrightarrow> i \<le> length ms \<Longrightarrow> sm_Raw (ms ! (i - 1)) \<noteq> None \<Longrightarrow> (i, sm_Folder (ms ! (i - 1))) \<in> live_view ms"
  by (simp add: live_view_def)

lemma live_bounds: "live_msg s i = Some m \<Longrightarrow> 0 < i \<and> i \<le> length (ms_Messages s) \<and> ms_Messages s ! (i - 1) = m \<and> sm_Raw m \<noteq> None"
  by (auto dest!: live_msgD msg_atD)

lemma feed_ok_step: "elementary lib lim D s s' \<Longrightarrow> feed_ok s \<Longrightarrow> feed_ok s'"
proof (induction rule: elementary.induct)
  case (Arrive m raw s key imported)
  thus ?case by (simp add: feed_ok_def live_view_append)
next
  case (Swap s i m m' raw r)
  note b = live_bounds [OF Swap(1)]
  have u: "(ms_Messages s @ [m'])[i - 1 := cleared (ms_Messages s ! (i - 1))] = (ms_Messages s)[i - 1 := cleared (ms_Messages s ! (i - 1))] @ [m']"
    using b by (intro list_update_append1) linarith
  have "live_view ((ms_Messages s)[i - 1 := cleared m]) = live_view (ms_Messages s) - {(i, sm_Folder m)}"
    using b live_view_at [of "ms_Messages s" i] by (simp add: live_view_update)
  hence "live_view ((ms_Messages s)[i - 1 := cleared m] @ [m']) =
      insert (length (ms_Messages s) + 1, sm_Folder m') (live_view (ms_Messages s) - {(i, sm_Folder m)})"
    using Swap(3) by (simp add: live_view_append)
  moreover have "ms_Messages s ! (i - 1) = m" using b by simp
  ultimately show ?case using Swap.prems unfolding feed_ok_def swap_sel u by simp
next
  case (Bury s i m)
  note b = live_bounds [OF Bury(1)]
  show ?case using Bury(3) b live_view_at [of "ms_Messages s" i] by (simp add: feed_ok_def live_view_update)
next
  case (Touch s i m m')
  note b = live_bounds [OF Touch(1)]
  obtain rw where raw: "sm_Raw m' = Some rw" using b Touch(2) by auto
  have mem: "(i, sm_Folder m) \<in> live_view (ms_Messages s)" using b live_view_mem [of i "ms_Messages s"] by simp
  have "live_view ((ms_Messages s)[i - 1 := m']) = live_view (ms_Messages s) - {(i, sm_Folder m)} \<union> {(i, sm_Folder m)}"
    using b raw Touch(4) live_view_at [of "ms_Messages s" i] by (simp add: live_view_update)
  also have "\<dots> = live_view (ms_Messages s)" using mem by blast
  finally show ?case using Touch.prems Touch(4) mem by (simp add: feed_ok_def insert_absorb)
next
  case (Settle s i m target)
  note b = msg_atD [OF Settle(1)]
  show ?case using Settle(3) b live_view_at [of "ms_Messages s" i] live_view_dead [of "ms_Messages s" i]
    by (cases "sm_Raw m") (simp_all add: feed_ok_def live_view_update moves_def)
qed (simp_all add: feed_ok_def)

interpretation feed: mailbox_invariant lib lim feed_ok for lib lim
proof
  show "feed_ok new_store" by (auto simp: feed_ok_def new_store_def live_view_def)
qed (rule feed_ok_step)

text \<open>A client of the feed: it applies the events of a page to its view and moves its cursor to the last of them.\<close>

definition follow :: "mail_store \<Rightarrow> int \<Rightarrow> (nat \<times> string) set \<times> nat \<Rightarrow> (nat \<times> string) set \<times> nat" where
  "follow s limit c =
     (case Changes s (int (snd c)) limit of
        Inl e \<Rightarrow> c
      | Inr (events, high) \<Rightarrow>
          if events = [] then (fst c, high) else (fold apply_change (map snd events) (fst c), fst (last events)))"

datatype feed_event = Transact mail_op | Poll int

fun feed_step :: "mail_lib \<Rightarrow> mailbox_limits \<Rightarrow> feed_event \<Rightarrow> mail_store \<times> (nat \<times> string) set \<times> nat \<Rightarrow> mail_store \<times> (nat \<times> string) set \<times> nat" where
  "feed_step lib lim (Transact op) (s, c) = (mail_step lib lim op s, c)"
| "feed_step lib lim (Poll limit) (s, c) = (s, follow s limit c)"

definition in_step :: "mail_store \<Rightarrow> (nat \<times> string) set \<times> nat \<Rightarrow> bool" where
  "in_step s c \<longleftrightarrow> snd c \<le> length (ms_Changes s) \<and> fst c = fold apply_change (take (snd c) (ms_Changes s)) {}"

lemma last_page:
  assumes "take n (drop c xs) \<noteq> []"
  shows "last (take n (drop c xs)) = xs ! (c + length (take n (drop c xs)) - 1)"
proof -
  define k where "k = length (take n (drop c xs)) - 1"
  have "0 < length (take n (drop c xs))" using assms by (rule length_greater_0_conv [THEN iffD2])
  hence k: "k < length (take n (drop c xs))" and e: "c + k = c + length (take n (drop c xs)) - 1" unfolding k_def by linarith+
  have "c \<le> length xs" using assms by simp
  hence "take n (drop c xs) ! k = xs ! (c + k)" using k by (simp add: nth_drop)
  thus ?thesis using assms e by (metis k_def last_conv_nth)
qed

lemma revision_at: "k < length cs \<Longrightarrow> fst (zip [1..<length cs + 1] cs ! k) = k + 1"
  by (simp add: nth_zip del: upt_Suc)

lemma follow_page:
  assumes "1 \<le> limit" "limit \<le> 1000" "in_step s c"
  shows "follow s limit c = (fold apply_change (take (snd c + nat limit) (ms_Changes s)) {}, min (snd c + nat limit) (length (ms_Changes s)))"
proof -
  let ?n = "length (ms_Changes s)" and ?z = "zip [1..<length (ms_Changes s) + 1] (ms_Changes s)"
  let ?ev = "take (nat limit) (drop (snd c) ?z)"
  have le: "snd c \<le> ?n" and view: "fst c = fold apply_change (take (snd c) (ms_Changes s)) {}" using assms(3) by (auto simp: in_step_def)
  have lz: "length ?z = ?n" by (simp del: upt_Suc)
  have lev: "length ?ev = min (nat limit) (?n - snd c)" by (simp del: upt_Suc)
  have "map snd ?ev = take (nat limit) (drop (snd c) (ms_Changes s))" by (simp add: take_map drop_map flip: take_map drop_map del: upt_Suc)
  hence fold: "fold apply_change (map snd ?ev) (fst c) = fold apply_change (take (snd c + nat limit) (ms_Changes s)) {}"
    by (simp add: view take_add)
  have F: "follow s limit c = (if ?ev = [] then (fst c, ?n) else (fold apply_change (map snd ?ev) (fst c), fst (last ?ev)))"
    using assms(1,2) le by (simp add: follow_def Changes_def del: upt_Suc)
  show ?thesis
  proof (cases "?ev = []")
    case True
    hence "snd c = ?n" using lev assms(1) le by (simp del: upt_Suc)
    thus ?thesis using True F view by (simp del: upt_Suc)
  next
    case False
    have "last ?ev = ?z ! (snd c + length ?ev - 1)" by (rule last_page [OF False])
    also have "fst \<dots> = snd c + length ?ev"
    proof -
      have "0 < length ?ev" using False by (rule length_greater_0_conv [THEN iffD2])
      hence "snd c + length ?ev - 1 < ?n" "snd c + length ?ev - 1 + 1 = snd c + length ?ev" using lev le by linarith+
      thus ?thesis using revision_at by metis
    qed
    finally have "follow s limit c = (fold apply_change (take (snd c + nat limit) (ms_Changes s)) {}, snd c + length ?ev)"
      using False F fold by simp
    moreover have "snd c + length ?ev = min (snd c + nat limit) ?n" unfolding lev using le by linarith
    ultimately show ?thesis by simp
  qed
qed

section \<open>What no transaction undoes\<close>

text \<open>Events, receipts and replacements are only added; a message keeps its bytes or loses them.\<close>

definition later :: "nat set \<Rightarrow> mail_store \<Rightarrow> mail_store \<Rightarrow> bool" where
  "later D s s' \<longleftrightarrow>
     (\<exists>cs. ms_Changes s' = ms_Changes s @ cs) \<and> (\<exists>rs. ms_Replaced s' = ms_Replaced s @ rs) \<and>
     (\<forall>k v. map_of (ms_Receipts s) k = Some v \<longrightarrow> map_of (ms_Receipts s') k = Some v) \<and>
     length (ms_Messages s) \<le> length (ms_Messages s') \<and>
     (\<forall>j < length (ms_Messages s). j + 1 \<notin> D \<longrightarrow> sm_Raw (ms_Messages s' ! j) = sm_Raw (ms_Messages s ! j)) \<and>
     (\<forall>j < length (ms_Messages s). sm_Digest (ms_Messages s' ! j) = sm_Digest (ms_Messages s ! j))"

lemma later_refl: "later D s s"
  by (simp add: later_def)

lemma later_trans: "later D s s' \<Longrightarrow> later D s' s'' \<Longrightarrow> later D s s''"
  unfolding later_def by auto

lemma Replaced_sel [simp]:
  "ms_Replaced (arrive m key imp s) = ms_Replaced s" "ms_Replaced (swap i m' r s) = ms_Replaced s @ [r]" "ms_Replaced (bury i s) = ms_Replaced s"
  "ms_Replaced (touch i m s) = ms_Replaced s" "ms_Replaced (add_folder n s) = ms_Replaced s" "ms_Replaced (drop_folder n s) = ms_Replaced s"
  "ms_Replaced (settle t i s) = ms_Replaced s"
  by (simp_all add: elementary_defs settle_eq)

lemma later_step: "elementary lib lim D s s' \<Longrightarrow> later D s s'"
proof (induction rule: elementary.induct)
  case (Arrive m raw s key imported)
  thus ?case by (auto simp: later_def nth_append map_add_def split: option.splits)
next
  case (Swap s i m m' raw r)
  thus ?case by (auto simp: later_def nth_append nth_list_update dest!: live_bounds)
next
  case (Bury s i m)
  thus ?case by (auto simp: later_def nth_list_update dest!: live_bounds)
next
  case (Touch s i m m')
  thus ?case by (auto simp: later_def nth_list_update dest!: live_bounds)
next
  case (Settle s i m target)
  hence "sm_Raw ((ms_Messages s)[i - 1 := (ms_Messages s ! (i - 1))\<lparr>sm_Folder := target\<rparr>] ! j) = sm_Raw (ms_Messages s ! j) \<and>
      sm_Digest ((ms_Messages s)[i - 1 := (ms_Messages s ! (i - 1))\<lparr>sm_Folder := target\<rparr>] ! j) = sm_Digest (ms_Messages s ! j)" for j
    by (cases "j = i - 1") (auto simp: nth_list_update dest!: msg_atD)
  thus ?case by (simp add: later_def)
qed (simp_all add: later_def)

lemma later_chain: "chain lib lim D s s' \<Longrightarrow> later D s s'"
  by (induction rule: rtranclp_induct) (auto intro: later_refl later_trans later_step)

lemma later_run: "later (\<Union>op \<in> set ops. doomed op) s (mail_run lib lim ops s)"
  by (rule later_chain [OF mail_run_chain])

lemma changes_grow: "\<exists>cs. ms_Changes (mail_step lib lim op s) = ms_Changes s @ cs"
  using later_chain [OF mail_step_chain] by (auto simp: later_def)

section \<open>Followers of the feed\<close>

lemma in_step_follow: "in_step s c \<Longrightarrow> in_step s (follow s limit c)"
proof (cases "1 \<le> limit \<and> limit \<le> 1000")
  case True
  assume "in_step s c"
  thus ?thesis using True by (auto simp: follow_page in_step_def min_def)
next
  case False
  assume "in_step s c"
  thus ?thesis using False by (auto simp: follow_def Changes_def)
qed

lemma in_step_run:
  assumes "feed_ok s" "in_step s c" "fold (feed_step lib lim) acts (s, c) = (s', c')"
  shows "feed_ok s' \<and> in_step s' c'"
  using assms
proof (induction acts arbitrary: s c)
  case (Cons a acts)
  show ?case
  proof (cases a)
    case (Transact op)
    obtain cs where "ms_Changes (mail_step lib lim op s) = ms_Changes s @ cs" using changes_grow by blast
    hence "in_step (mail_step lib lim op s) c" using Cons.prems(2) by (simp add: in_step_def)
    moreover have "feed_ok (mail_step lib lim op s)" using mail_step_chain Cons.prems(1) by (rule feed.chain_inv)
    ultimately show ?thesis using Cons.IH Cons.prems(3) Transact by simp
  next
    case (Poll limit)
    thus ?thesis using Cons.IH [OF Cons.prems(1) in_step_follow [OF Cons.prems(2)]] Cons.prems(3) by simp
  qed
qed simp

lemma follow_times:
  assumes "1 \<le> limit" "limit \<le> 1000" "in_step s c"
  shows "in_step s ((follow s limit ^^ n) c) \<and> min (snd c + n * nat limit) (length (ms_Changes s)) \<le> snd ((follow s limit ^^ n) c)"
proof (induction n)
  case 0
  show ?case using assms(3) by simp
next
  case (Suc n)
  let ?c = "(follow s limit ^^ n) c"
  have "follow s limit ?c = (fold apply_change (take (snd ?c + nat limit) (ms_Changes s)) {}, min (snd ?c + nat limit) (length (ms_Changes s)))"
    using assms(1,2) Suc.IH by (intro follow_page) auto
  moreover have "in_step s (follow s limit ?c)" using Suc.IH by (intro in_step_follow) auto
  ultimately show ?case using Suc.IH by (simp add: min_def split: if_splits)
qed

section \<open>Usage\<close>

definition raw_sum :: "stored_message list \<Rightarrow> int" where
  "raw_sum ms = (\<Sum>m \<leftarrow> ms. raw_len m)"

lemma raw_sum_update: "k < length ms \<Longrightarrow> raw_sum (ms[k := m]) = raw_sum ms - raw_len (ms ! k) + raw_len m"
  unfolding raw_sum_def by (induction ms arbitrary: k) (auto split: nat.split)

lemma raw_sum_append [simp]: "raw_sum (ms @ [m]) = raw_sum ms + raw_len m"
  by (simp add: raw_sum_def)

lemma raw_len_cleared [simp]: "raw_len (cleared m) = 0"
  by (simp add: raw_len_def)

lemma raw_len_nonneg [simp]: "0 \<le> raw_len m"
  by (simp add: raw_len_def split: option.split)

lemma sub_raw_len: "x \<le> y \<Longrightarrow> x - raw_len m \<le> y"
  using raw_len_nonneg [of m] by linarith

definition usage_exact :: "mailbox_limits \<Rightarrow> mail_store \<Rightarrow> bool" where
  "usage_exact lim s \<longleftrightarrow>
     ms_Records s = int (length (ms_Messages s)) \<and> ms_Payload s = raw_sum (ms_Messages s) \<and>
     ms_Records s \<le> max 0 (ml_Records lim) \<and> ms_Payload s \<le> max 0 (ml_PayloadBytes lim) \<and>
     (\<forall>m \<in> set (ms_Messages s). raw_len m \<le> int (ml_MessageBytes lim))"

lemma payload_sel [simp]:
  "ms_Payload (swap i m' r s) = ms_Payload s + raw_len m' - raw_len ((ms_Messages s @ [m']) ! (i - 1))"
  "ms_Payload (bury i s) = ms_Payload s - raw_len (ms_Messages s ! (i - 1))"
  "ms_Payload (touch i m s) = ms_Payload s - raw_len (ms_Messages s ! (i - 1)) + raw_len m"
  by (simp_all add: elementary_defs)

lemma mail_usage_step: "elementary lib lim D s s' \<Longrightarrow> usage_exact lim s \<Longrightarrow> usage_exact lim s'"
proof (induction rule: elementary.induct)
  case (Arrive m raw s key imported)
  moreover have "raw_len m = int (length raw)" using Arrive(1) by (simp add: raw_len_def)
  ultimately show ?case by (auto simp: usage_exact_def Fits_def)
next
  case (Swap s i m m' raw r)
  note b = live_bounds [OF Swap(1)]
  have l: "raw_len m' = int (length raw)" using Swap(3) by (simp add: raw_len_def)
  have n: "i - 1 < length (ms_Messages s)" "(ms_Messages s @ [m']) ! (i - 1) = m" using b by (auto simp: nth_append)
  have "usage_exact lim s" by fact
  thus ?case unfolding usage_exact_def swap_sel payload_sel
    using Swap(5-7) l n raw_sum_update [of "i - 1" "ms_Messages s @ [m']" "cleared m"] b
    by (auto dest!: set_update_sub)
next
  case (Bury s i m)
  note b = live_bounds [OF Bury(1)]
  hence n: "i - 1 < length (ms_Messages s)" by linarith
  show ?case using Bury.prems b
    unfolding usage_exact_def bury_sel payload_sel raw_sum_update [OF n] by (auto simp: sub_raw_len dest!: set_update_sub)
next
  case (Touch s i m m')
  note b = live_bounds [OF Touch(1)]
  hence n: "i - 1 < length (ms_Messages s)" by linarith
  have "raw_len m' = raw_len m" using Touch(2) by (simp add: raw_len_def)
  thus ?case using Touch.prems b live_mem [OF Touch(1)]
    unfolding usage_exact_def touch_sel payload_sel raw_sum_update [OF n] by (auto dest!: set_update_sub)
next
  case (Settle s i m target)
  note b = msg_atD [OF Settle(1)]
  hence n: "i - 1 < length (ms_Messages s)" by linarith
  show ?case using Settle.prems b at_mem [OF Settle(1)]
    unfolding usage_exact_def settle_sel raw_sum_update [OF n] by (auto dest!: set_update_sub)
qed (simp_all add: usage_exact_def)

interpretation mail_usage: mailbox_invariant lib lim "usage_exact lim" for lib lim
proof
  show "usage_exact lim new_store" by (simp add: usage_exact_def new_store_def raw_sum_def)
qed (rule mail_usage_step)

section \<open>Receipts\<close>

lemma frozen_distinct: "sorted (map fst ps) \<Longrightarrow> frozen_ok lib ps \<Longrightarrow> distinct (map fst ps)"
proof (induction lib ps rule: frozen_ok.induct)
  case (3 lib p q ps)
  thus ?case by (auto simp: order.strict_iff_order)
qed simp_all

text \<open>The canonical receipt does not depend on the order of the recipients.\<close>

lemma canonicalReceipt_perm:
  assumes "canonicalReceipt lib r = Some env" "mset ps = mset (rc_Recipients r)"
  shows "canonicalReceipt lib (r\<lparr>rc_Recipients := ps\<rparr>) = Some env"
proof -
  let ?qs = "sort_key fst (rc_Recipients r)"
  have "frozen_ok lib ?qs" using assms(1) by (auto simp: canonicalReceipt_def Let_def split: if_splits)
  hence "distinct (map fst ?qs)" by (intro frozen_distinct) simp_all
  hence "inj_on fst (set ps)" using assms(2) by (metis distinct_map mset_eq_setD set_sort)
  hence "sort_key fst ps = ?qs" using assms(2) by (intro sort_key_inj_key_eq) simp_all
  moreover have "length ps = length (rc_Recipients r)" "(ps = []) = (rc_Recipients r = [])"
    using assms(2) by (auto dest: mset_eq_length)
  ultimately show ?thesis using assms(1) by (simp add: canonicalReceipt_def Let_def cong: if_cong)
qed

lemma Import_receipt:
  assumes "Import_mail lib lim db at r folder raw s = (Inr i, s1)"
  obtains env where "canonicalReceipt lib r = Some env" "length raw \<le> ml_MessageBytes lim"
    "map_of (ms_Receipts s1) (rc_Gateway env, rc_Delivery env) = Some (env, hashIncoming lib raw, i)"
  using assms
  by (auto simp: Import_mail_def atomically_def append_tx_def store_new_def Let_def store_message_def log_change_def map_add_def
      intro: that split: option.splits if_splits sum.splits prod.splits)

lemma Import_again:
  assumes "canonicalReceipt lib r = Some env" "map_of (ms_Receipts s) (rc_Gateway env, rc_Delivery env) = Some (env, digest, i)"
    and "folder \<in> {[], ''INBOX'', ''Junk''}" "length raw \<le> ml_MessageBytes lim"
  shows "Import_mail lib lim True at r folder raw s = (if hashIncoming lib raw = digest then Inr i else Inl MailConflict, s)"
  using assms by (auto simp: Import_mail_def atomically_def append_tx_def)

lemma kept_run:
  assumes "live_msg s i = Some m" and "\<forall>op \<in> set ops. i \<notin> doomed op"
  shows "\<exists>m'. live_msg (mail_run lib lim ops s) i = Some m' \<and> sm_Raw m' = sm_Raw m"
proof -
  note b = live_bounds [OF assms(1)]
  have "sm_Raw (ms_Messages (mail_run lib lim ops s) ! (i - 1)) = sm_Raw (ms_Messages s ! (i - 1))"
    and "length (ms_Messages s) \<le> length (ms_Messages (mail_run lib lim ops s))"
    using later_run [of ops s lib lim] b assms(2) by (auto simp: later_def)
  thus ?thesis using b by (auto simp: live_msg_def msg_at_def)
qed

section \<open>Clients\<close>

text \<open>The operations of a client are runs of the store's transactions.\<close>

lemma run_one: "mail_run lib lim [op] s = mail_step lib lim op s"
  by (simp add: mail_run_def)

lemma run_none: "mail_run lib lim [] s = s"
  by (simp add: mail_run_def)

text \<open>The second state comes from the first by transactions that bury no message.\<close>

definition quietly :: "mail_lib \<Rightarrow> mailbox_limits \<Rightarrow> mail_store \<Rightarrow> mail_store \<Rightarrow> bool" where
  "quietly lib lim s s' \<longleftrightarrow> (\<exists>ops. s' = mail_run lib lim ops s \<and> (\<forall>op \<in> set ops. doomed op = {}))"

lemma quietly_refl [simp]: "quietly lib lim s s"
  unfolding quietly_def by (rule exI [of _ "[]"]) (simp add: run_none)

lemma quietly_step: "quietly lib lim s s' \<Longrightarrow> doomed op = {} \<Longrightarrow> quietly lib lim s (mail_step lib lim op s')"
proof -
  assume "quietly lib lim s s'" and op: "doomed op = {}"
  then obtain ops where "s' = mail_run lib lim ops s" "\<forall>op \<in> set ops. doomed op = {}" by (auto simp: quietly_def)
  thus ?thesis using op unfolding quietly_def by (intro exI [of _ "ops @ [op]"]) (auto simp: mail_run_def)
qed

lemma quietly_Move: "quietly lib lim s s' \<Longrightarrow> quietly lib lim s (snd (Move db f i t s'))"
  using quietly_step [of lib lim s s' "MoveOp db f i t"] by simp

lemma quietly_editFlags: "quietly lib lim s (snd (editFlags db f i seen label add s))"
  using quietly_step [of lib lim s s "EditFlagsOp db f i seen label add"] by simp

lemma quietly_createFolder: "quietly lib lim s (snd (createFolder db p t s))"
  using quietly_step [of lib lim s s "CreateUnderOp db p t"] by simp

lemma snd_relay: "snd (case x of (Inl e, s') \<Rightarrow> (Inl e, s') | (Inr _, s') \<Rightarrow> (Inr y, s')) = snd x"
  by (auto split: prod.split sum.split)

lemma quietly_create_client: "quietly lib lim s (snd (CreateFolder_client access db parent name s))"
  unfolding CreateFolder_client_def Let_def
  by (cases "\<not> access \<or> \<not> leaf (trim_space name)")
    (auto simp: snd_relay quietly_createFolder simp del: and_then.simps split: sum.split prod.split)

lemma quietly_relay_Move:
  "quietly lib lim s (snd x) \<Longrightarrow> quietly lib lim s (snd (case x of (Inl e, s') \<Rightarrow> (Inl e, s') | (Inr _, s') \<Rightarrow> Move db f i t s'))"
  by (cases x) (auto simp: quietly_Move split: sum.split)

definition buries :: "string \<Rightarrow> string \<Rightarrow> bool" where
  "buries action folder \<longleftrightarrow> action = ''delete'' \<and> normalizeFolder folder = Inr ''Trash''"

lemma inbox_action_quiet:
  assumes "\<not> buries action folder"
  shows "quietly lib lim s (snd (ApplyInboxAction year_of access db1 db2 ident action folder target s))"
proof (cases "access \<and> is_ok (normalizeFolder folder) \<and> parse_uid ident \<noteq> None")
  case False
  thus ?thesis by (auto simp: ApplyInboxAction_def is_ok_def split: sum.splits)
next
  case True
  then obtain f i where f: "normalizeFolder folder = Inr f" and i: "parse_uid ident = Some i" and a: access by (auto simp: is_ok_iff)
  have "action = ''delete'' \<Longrightarrow> f \<noteq> ''Trash''" using assms f by (simp add: buries_def)
  thus ?thesis using a
    by (simp add: ApplyInboxAction_def f i quietly_editFlags quietly_Move quietly_relay_Move quietly_createFolder quietly_create_client
        split: sum.split option.split)
qed

lemma inbox_action_run:
  assumes "buries action folder \<Longrightarrow> parse_uid ident \<noteq> Some i"
  shows "\<exists>ops. snd (ApplyInboxAction year_of access db1 db2 ident action folder target s) = mail_run lib lim ops s \<and> (\<forall>op \<in> set ops. i \<notin> doomed op)"
proof (cases "buries action folder \<and> access \<and> parse_uid ident \<noteq> None")
  case True
  then obtain j where j: "parse_uid ident = Some j" "j \<noteq> i" using assms by auto
  hence "snd (ApplyInboxAction year_of access db1 db2 ident action folder target s) = mail_step lib lim (DeleteOp db1 ''Trash'' j) s"
    using True by (simp add: ApplyInboxAction_def buries_def)
  thus ?thesis using j(2) by (intro exI [of _ "[DeleteOp db1 ''Trash'' j]"]) (simp add: run_one)
next
  case False
  have "quietly lib lim s (snd (ApplyInboxAction year_of access db1 db2 ident action folder target s))"
  proof (cases "buries action folder")
    case True
    thus ?thesis using False by (auto simp: ApplyInboxAction_def split: sum.splits)
  qed (rule inbox_action_quiet)
  thus ?thesis by (auto simp: quietly_def)
qed

section \<open>Replacements\<close>

lemma find_in_append: "List.find P (xs @ ys) = (case List.find P xs of None \<Rightarrow> List.find P ys | Some x \<Rightarrow> Some x)"
  by (induction xs) auto

definition replacement_row :: "mail_lib \<Rightarrow> incoming_source \<Rightarrow> string \<Rightarrow> string \<Rightarrow> nat \<Rightarrow> replacement" where
  "replacement_row lib src marker encrypted i =
     \<lparr>rp_source = is_UID src, rp_marker = marker, rp_source_hash = is_Hash src, rp_cipher_hash = hashIncoming lib encrypted, rp_new = i\<rparr>"

lemma replace_tx_done:
  assumes "replace_tx lib lim src marker encrypted s = Inr (i, s1)"
  shows "List.find (\<lambda>r. rp_source r = is_UID src) (ms_Replaced s1) = Some (replacement_row lib src marker encrypted i) \<and>
    (\<exists>m. live_msg s1 i = Some m \<and> sm_Raw m = Some encrypted)"
proof (cases "List.find (\<lambda>r. rp_source r = is_UID src) (ms_Replaced s)")
  case (Some r)
  hence u: "rp_source r = is_UID src" by (auto simp: find_Some_iff)
  hence "s1 = s" "i = rp_new r" "r = replacement_row lib src marker encrypted i" and ver: "\<exists>f. verifyIncomingTx lib lim src i marker encrypted s = Inr f"
    using assms Some by (auto simp: replace_tx_def replacement_row_def split: if_splits)
  moreover from ver obtain m where "live_msg s i = Some m" "sm_Raw m = Some encrypted"
    by (auto simp: verifyIncomingTx_def split: if_splits option.splits)
  ultimately show ?thesis using Some by auto
next
  case None
  then obtain m where m: "live_in s ''INBOX'' (is_UID src) = Some m" using assms by (auto simp: replace_tx_def split: option.splits)
  note b = live_bounds [OF conjunct1 [OF live_in_live [OF m]]]
  have i: "i = length (ms_Messages s) + 1" and rs: "ms_Replaced s1 = ms_Replaced s @ [replacement_row lib src marker encrypted i]"
    and ms: "ms_Messages s1 = (ms_Messages s @ [replacement_of lib encrypted m])[is_UID src - 1 := cleared m]"
    using assms None m by (auto simp: replace_tx_def Let_def replacement_row_def elementary_defs split: if_splits)
  have "ms_Messages s1 ! (i - 1) = replacement_of lib encrypted m" using b by (auto simp: ms i nth_append)
  hence "live_msg s1 i = Some (replacement_of lib encrypted m)"
    by (simp add: live_msg_def msg_at_def ms i replacement_of_def)
  thus ?thesis using None by (simp add: rs find_in_append replacement_row_def replacement_of_def)
qed

lemma replace_tx_again:
  assumes "List.find (\<lambda>r. rp_source r = is_UID src) (ms_Replaced s) = Some (replacement_row lib src marker encrypted i)"
    and "live_msg s i = Some m" "sm_Raw m = Some encrypted" "length encrypted \<le> ml_MessageBytes lim"
  shows "replace_tx lib lim src marker encrypted s = Inr (i, s)"
proof -
  have "replacement_row lib src marker encrypted i \<in> set (ms_Replaced s)" using assms(1) by (auto simp: find_Some_iff)
  hence "verifyIncomingTx lib lim src i marker encrypted s = Inr (sm_Folder m)"
    using assms(2-4) by (simp add: verifyIncomingTx_def replacement_row_def raw_len_def)
  thus ?thesis using assms(1) by (simp add: replace_tx_def replacement_row_def)
qed

section \<open>Properties\<close>


lemmas mail_eval = Append_mail_def Import_mail_def atomically_def append_tx_def store_new_def Fits_def new_message_def header_of_def rawMetadata_def
  new_store_def store_message_def log_change_def Let_def live_msg_def msg_at_def live_in_def demo_lib_def demo_limits_def

lemma demo_folders: "validFolder ''INBOX''" "validFolder ''Drafts''" "validFolder ''Work''" "validFolder ''Jobs''" "validFolder ''Trash''"
  by code_simp+

lemma system_mem: "''INBOX'' \<in> set system_folders" "''Drafts'' \<in> set system_folders" "''Work'' \<notin> set system_folders" "''Jobs'' \<notin> set system_folders"
  by code_simp+

definition demo_acts :: "feed_event list" where
  "demo_acts = [Transact (AppendOp (\<lambda>n. True) True ''t'' ''Drafts'' ''draft'' True), Poll 1, Transact (CreateFolderOp True ''Work''),
     Transact (MoveOp True ''Drafts'' 1 ''Work'')]"


text \<open>
  C10: A delivery is stored exactly once. After \<open>Import\<close> has answered with a message, every later delivery under the
  same receipt, its recipients in any order and whatever has happened to the mail since, answers with the same
  message and changes nothing; other bytes under that receipt are refused as a conflict.
\<close>

theorem import_exactly_once:
  assumes "Import_mail lib lim db at r folder raw s = (Inr i, s1)"
    and "mset ps = mset (rc_Recipients r)" and "folder' \<in> {[], ''INBOX'', ''Junk''}" and "length raw' \<le> ml_MessageBytes lim"
  shows "Import_mail lib lim True at' (r\<lparr>rc_Recipients := ps\<rparr>) folder' raw' (mail_run lib lim ops s1) =
     (if hashIncoming lib raw' = hashIncoming lib raw then Inr i else Inl MailConflict, mail_run lib lim ops s1)"
proof -
  obtain env where env: "canonicalReceipt lib r = Some env"
    and at: "map_of (ms_Receipts s1) (rc_Gateway env, rc_Delivery env) = Some (env, hashIncoming lib raw, i)"
    using Import_receipt [OF assms(1)] by blast
  have "map_of (ms_Receipts (mail_run lib lim ops s1)) (rc_Gateway env, rc_Delivery env) = Some (env, hashIncoming lib raw, i)"
    using later_run [of ops s1 lib lim] at by (auto simp: later_def)
  thus ?thesis using canonicalReceipt_perm [OF env assms(2)] assms(3,4) by (intro Import_again)
qed

definition demo_receipt :: receipt where
  "demo_receipt = \<lparr>rc_Gateway = ''g'', rc_Delivery = ''d'', rc_Sender = [], rc_Recipients = [(''b'', 1), (''a'', 2)]\<rparr>"

theorem import_exactly_once_witness:
  "Import_mail demo_lib demo_limits True ''later'' (demo_receipt\<lparr>rc_Recipients := [(''a'', 2), (''b'', 1)]\<rparr>) ''Junk'' ''hello''
     (mail_run demo_lib demo_limits [MoveOp True ''INBOX'' 1 ''Trash'', DeleteOp True ''Trash'' 1]
        (snd (Import_mail demo_lib demo_limits True ''t'' demo_receipt [] ''hello'' new_store))) =
   (Inr 1, mail_run demo_lib demo_limits [MoveOp True ''INBOX'' 1 ''Trash'', DeleteOp True ''Trash'' 1]
        (snd (Import_mail demo_lib demo_limits True ''t'' demo_receipt [] ''hello'' new_store)))"
proof -
  have "canonicalReceipt demo_lib demo_receipt = Some (demo_receipt\<lparr>rc_Recipients := [(''a'', 2), (''b'', 1)]\<rparr>)" by code_simp
  hence "fst (Import_mail demo_lib demo_limits True ''t'' demo_receipt [] ''hello'' new_store) = Inr 1" by (simp add: mail_eval system_mem)
  hence 1: "Import_mail demo_lib demo_limits True ''t'' demo_receipt [] ''hello'' new_store =
      (Inr 1, snd (Import_mail demo_lib demo_limits True ''t'' demo_receipt [] ''hello'' new_store))" by (simp add: prod_eq_iff)
  have 2: "mset [(''a'', 2), (''b'', 1)] = mset (rc_Recipients demo_receipt)" by (simp add: demo_receipt_def)
  have 3: "length ''hello'' \<le> ml_MessageBytes demo_limits" by (simp add: demo_limits_def)
  have "''Junk'' \<in> {[], ''INBOX'', ''Junk''}" by simp
  from import_exactly_once [OF 1 2 this 3] show ?thesis by simp
qed

text \<open>
  C16: Mail is kept. Whatever a run of the mailbox does to flags, labels and folders, a stored message keeps its bytes
  and stays readable, unless the run deletes that very message or replaces it by its ciphertext.
\<close>

theorem mail_preserved:
  assumes "live_msg s i = Some m" and "\<forall>op \<in> set ops. i \<notin> doomed op"
  shows "\<exists>m'. live_msg (mail_run lib lim ops s) i = Some m' \<and> sm_Raw m' = sm_Raw m"
  using assms by (rule kept_run)

theorem mail_preserved_witness:
  "\<exists>m'. live_msg (mail_run demo_lib demo_limits [CreateFolderOp True ''Work'', MoveOp True ''INBOX'' 1 ''Work'', RenameFolderOp True ''Work'' ''Jobs'',
       DeleteFolderOp True ''Jobs'', DeleteOp True ''INBOX'' 2]
     (snd (Append_mail demo_lib demo_limits (\<lambda>n. True) True ''t'' ''INBOX'' ''hello'' False new_store))) 1 = Some m' \<and> sm_Raw m' = Some ''hello''"
proof -
  let ?s = "snd (Append_mail demo_lib demo_limits (\<lambda>n. True) True ''t'' ''INBOX'' ''hello'' False new_store)"
  have "map_option sm_Raw (live_msg ?s 1) = Some (Some ''hello'')" by (simp add: mail_eval demo_folders system_mem)
  then obtain m where m: "live_msg ?s 1 = Some m" "sm_Raw m = Some ''hello''" by auto
  show ?thesis using mail_preserved [OF m(1), of _ demo_lib demo_limits] m(2) by simp
qed

text \<open>
  No action of the web client loses mail: reading, moving, archiving, marking as spam or deleting, with whatever
  failures of the database in between, leaves the bytes of every message readable. The one exception is deleting a
  message that is in the trash, and that touches no other message.
\<close>

theorem inbox_action_keeps_mail:
  assumes "live_msg s i = Some m" and "action = ''delete'' \<Longrightarrow> normalizeFolder folder = Inr ''Trash'' \<Longrightarrow> parse_uid ident \<noteq> Some i"
  shows "\<exists>m'. live_msg (snd (ApplyInboxAction year_of access db1 db2 ident action folder target s)) i = Some m' \<and> sm_Raw m' = sm_Raw m"
proof -
  obtain ops where "snd (ApplyInboxAction year_of access db1 db2 ident action folder target s) = mail_run demo_lib demo_limits ops s"
    and q: "\<forall>op \<in> set ops. i \<notin> doomed op"
    using inbox_action_run [of action folder ident i year_of access db1 db2 target s demo_lib demo_limits] assms(2) by (auto simp: buries_def)
  thus ?thesis using kept_run [OF assms(1) q] by simp
qed

theorem inbox_action_keeps_mail_witness:
  "\<exists>m'. live_msg (snd (ApplyInboxAction (\<lambda>d. None) True True True ''1'' ''delete'' ''inbox'' []
      (snd (Append_mail demo_lib demo_limits (\<lambda>n. True) True ''t'' ''INBOX'' ''hello'' False new_store)))) 1 = Some m' \<and> sm_Raw m' = Some ''hello''"
proof -
  let ?s = "snd (Append_mail demo_lib demo_limits (\<lambda>n. True) True ''t'' ''INBOX'' ''hello'' False new_store)"
  have "map_option sm_Raw (live_msg ?s 1) = Some (Some ''hello'')" by (simp add: mail_eval demo_folders system_mem)
  then obtain m where m: "live_msg ?s 1 = Some m" "sm_Raw m = Some ''hello''" by auto
  have "normalizeFolder ''inbox'' = Inr ''INBOX''" by code_simp
  hence "normalizeFolder ''inbox'' \<noteq> Inr ''Trash''" by simp
  thus ?thesis using inbox_action_keeps_mail [OF m(1), of "''delete''" "''inbox''" "''1''" "\<lambda>d. None" True True True "[]"] m(2) by simp
qed

text \<open>
  C20: Encrypting incoming mail is recoverable: a caller that does not learn that its replacement was committed repeats
  the call, whatever the mailbox did meanwhile, and gets the message that was stored then; nothing is stored
  again. Only deleting or replacing that message prevents it.
\<close>

theorem replacement_recovered:
  assumes "ReplaceIncoming lib lim pgp account access db src marker encrypted s = (Inr i, s1)"
    and "\<forall>op \<in> set ops. i \<notin> doomed op"
  shows "ReplaceIncoming lib lim pgp account True True src marker encrypted (mail_run lib lim ops s1) = (Inr i, mail_run lib lim ops s1)"
proof -
  let ?s = "mail_run lib lim ops s1"
  have ok: "checkIncomingReplacement lim account src marker encrypted = None" "rawMetadata lib encrypted" "pgp encrypted"
    and tx: "replace_tx lib lim src marker encrypted s = Inr (i, s1)"
    using assms(1) by (auto simp: ReplaceIncoming_def atomically_def split: if_splits option.splits sum.splits)
  hence l: "length encrypted \<le> ml_MessageBytes lim" by (auto simp: checkIncomingReplacement_def split: if_splits)
  from replace_tx_done [OF tx] obtain m
    where f: "List.find (\<lambda>r. rp_source r = is_UID src) (ms_Replaced s1) = Some (replacement_row lib src marker encrypted i)"
    and m: "live_msg s1 i = Some m" "sm_Raw m = Some encrypted" by auto
  have "List.find (\<lambda>r. rp_source r = is_UID src) (ms_Replaced ?s) = Some (replacement_row lib src marker encrypted i)"
    using later_run [of ops s1 lib lim] f by (auto simp: later_def find_in_append)
  moreover obtain m' where "live_msg ?s i = Some m'" "sm_Raw m' = Some encrypted"
    using kept_run [OF m(1) assms(2), of lib lim] m(2) by auto
  ultimately have "replace_tx lib lim src marker encrypted ?s = Inr (i, ?s)" using l by (rule replace_tx_again)
  thus ?thesis using ok by (simp add: ReplaceIncoming_def atomically_def)
qed

definition demo_raw :: string where "demo_raw = replicate 64 (CHR ''a'')"

definition demo_cipher :: string where "demo_cipher = ''X-KyPost-Incoming: '' @ demo_raw @ [CR, LF]"

definition demo_room :: mailbox_limits where
  "demo_room = \<lparr>ml_MessageBytes = 100, ml_PayloadBytes = 500, ml_Records = 5\<rparr>"

definition demo_source :: incoming_source where
  "demo_source = \<lparr>is_UID = 1, is_UIDValidity = 1, is_AccountHash = ''acc'', is_Hash = demo_raw, is_Raw = demo_raw, is_Flags = [], is_Date = ''t''\<rparr>"

lemma demo_cipher_ok:
  "checkIncomingReplacement demo_room ''acc'' demo_source demo_raw demo_cipher = None" "length demo_cipher = 85" "length demo_raw = 64"
  by code_simp+

theorem replacement_recovered_witness:
  "ReplaceIncoming demo_lib demo_room (\<lambda>c. True) ''acc'' True True demo_source demo_raw demo_cipher
     (mail_run demo_lib demo_room [MoveOp True ''INBOX'' 2 ''Archive'']
        (snd (ReplaceIncoming demo_lib demo_room (\<lambda>c. True) ''acc'' True True demo_source demo_raw demo_cipher
           (snd (Append_mail demo_lib demo_room (\<lambda>n. True) True ''t'' ''INBOX'' demo_raw False new_store))))) =
   (Inr 2, mail_run demo_lib demo_room [MoveOp True ''INBOX'' 2 ''Archive'']
        (snd (ReplaceIncoming demo_lib demo_room (\<lambda>c. True) ''acc'' True True demo_source demo_raw demo_cipher
           (snd (Append_mail demo_lib demo_room (\<lambda>n. True) True ''t'' ''INBOX'' demo_raw False new_store)))))"
proof -
  let ?s = "snd (Append_mail demo_lib demo_room (\<lambda>n. True) True ''t'' ''INBOX'' demo_raw False new_store)"
  let ?r = "ReplaceIncoming demo_lib demo_room (\<lambda>c. True) ''acc'' True True demo_source demo_raw demo_cipher ?s"
  have "fst ?r = Inr 2"
    unfolding ReplaceIncoming_def demo_cipher_ok(1)
    by (simp add: demo_cipher_ok(2,3) replace_tx_def mail_eval demo_folders system_mem demo_room_def demo_source_def raw_len_def)
  hence r: "?r = (Inr 2, snd ?r)" by (simp add: prod_eq_iff)
  show ?thesis by (rule replacement_recovered [OF r]) simp
qed

text \<open>
  C33: The folders hold together: after any run folder names are distinct and well formed, the six system folders
  are there, and every message, deleted or not, is in a folder that exists.
\<close>

theorem folders_hold_together: "folders_ok (mail_run lib lim ops new_store)"
  by (rule folders.reach_inv)



end
