(* ===== verification/Mailbox_Transfer.thy ===== *)
theory Mailbox_Transfer
  imports Mailbox_System
begin

text \<open>
  Taking mail out of a native mailbox and bringing it in: \<open>backend/internal/mailbox/export.go\<close> (the pages of an
  export, the mboxrd writer) and \<open>import.go\<close> (the mbox reader and the dispatch of an uploaded file).

  The mbox reader reads through a buffer of 64 KiB, so a longer line comes in pieces; the pieces are modelled.
  What the reader hands each message to is a step on a state of the caller's, which may fail. A date is the
  formatted text of it; the reader of zip archives is a parameter.
\<close>

section \<open>Export\<close>

record export_message =
  ex_ID :: nat
  ex_Folder :: string
  ex_Sender :: string
  ex_At :: string
  ex_Raw :: string

definition exportPage :: "mail_store \<Rightarrow> string \<Rightarrow> nat \<Rightarrow> nat list" where
  "exportPage s folder after = take 200 (filter (\<lambda>i. after < i) (live_ids s folder))"

text \<open>The sender of the first receipt of the message; \<open>date\<close> formats the stored date.\<close>

definition export_of :: "(string \<Rightarrow> string) \<Rightarrow> mail_store \<Rightarrow> string \<Rightarrow> nat \<Rightarrow> export_message option" where
  "export_of date s folder i =
     (case live_in s folder i of
        None \<Rightarrow> None
      | Some m \<Rightarrow> Some \<lparr>ex_ID = i, ex_Folder = folder,
          ex_Sender = (case List.find (\<lambda>(k, env, digest, j). j = i) (ms_Receipts s) of None \<Rightarrow> [] | Some (k, env, _) \<Rightarrow> rc_Sender env),
          ex_At = date (sm_At m), ex_Raw = the (sm_Raw m)\<rparr>)"

lemma exportPage_bounds: "i \<in> set (exportPage s folder after) \<Longrightarrow> after < i \<and> i \<le> length (ms_Messages s)"
  using move_page_bounds [of i folder after s] by (simp add: exportPage_def move_page_def)

function export_pages :: "(string \<Rightarrow> string) \<Rightarrow> mail_store \<Rightarrow> string \<Rightarrow> nat \<Rightarrow> export_message list" where
  "export_pages date s folder after =
     (let page = exportPage s folder after; out = List.map_filter (export_of date s folder) page in
      if length page < 200 then out else out @ export_pages date s folder (last page))"
  by auto
termination
proof (relation "measure (\<lambda>(date, s, folder, after). length (ms_Messages s) - after)")
  fix date :: "string \<Rightarrow> string" and s folder after page and out :: "export_message list"
  assume page: "page = exportPage s folder after" and "\<not> length page < 200"
  hence "page \<noteq> []" by auto
  hence "last page \<in> set (exportPage s folder after)" using page by simp
  from exportPage_bounds [OF this]
  show "((date, s, folder, last page), date, s, folder, after) \<in> measure (\<lambda>(date, s, folder, after). length (ms_Messages s) - after)"
    by auto
qed simp

declare export_pages.simps [simp del]

text \<open>\<open>Export\<close> of a mailbox that nobody changes meanwhile.\<close>

definition Export :: "(string \<Rightarrow> string) \<Rightarrow> mail_store \<Rightarrow> string list \<Rightarrow> export_message list" where
  "Export date s folders = concat (map (\<lambda>f. export_pages date s f 0) folders)"

definition ExportFolders :: "bool \<Rightarrow> mail_store \<Rightarrow> string \<Rightarrow> (mail_error, string list) result" where
  "ExportFolders access s folder =
     (if \<not> access then Inl MailInvalid
      else if folder = [] then Inr (Folders s)
      else and_then (normalizeFolder folder) (\<lambda>f. if f \<in> set (Folders s) then Inr [f] else Inl ErrNotFound))"

definition ExportCount :: "mail_store \<Rightarrow> string list \<Rightarrow> nat" where
  "ExportCount s folders = sum_list (map (\<lambda>f. length (live_ids s f)) folders)"

subsection \<open>The mboxrd writer\<close>

text \<open>
  Some character of the UTF-8 text is white space or a control character: an ASCII one, or one of the two- and
  three-byte codes of \<open>unicode.IsSpace\<close> and \<open>unicode.IsControl\<close>. A byte that starts none of these codes is none of them.
\<close>

fun space_or_control :: "nat list \<Rightarrow> bool" where
  "space_or_control [] \<longleftrightarrow> False"
| "space_or_control (b # bs) \<longleftrightarrow>
     b \<le> 32 \<or> b = 127 \<or>
     (case bs of
        [] \<Rightarrow> False
      | c # cs \<Rightarrow>
          b = 194 \<and> 128 \<le> c \<and> c \<le> 160 \<or>
          (case cs of
             [] \<Rightarrow> False
           | d # ds \<Rightarrow>
               b = 225 \<and> c = 154 \<and> d = 128 \<or> b = 227 \<and> c = 128 \<and> d = 128 \<or> b = 226 \<and> c = 129 \<and> d = 159 \<or>
               b = 226 \<and> c = 128 \<and> (128 \<le> d \<and> d \<le> 138 \<or> d = 168 \<or> d = 169 \<or> d = 175))) \<or>
     space_or_control bs"

definition cut_line :: "string \<Rightarrow> string \<times> string" where
  "cut_line s =
     (case dropWhile (\<lambda>c. c \<noteq> LF) s of
        [] \<Rightarrow> (s, [])
      | c # cs \<Rightarrow> (takeWhile (\<lambda>c. c \<noteq> LF) s @ [LF], cs))"

definition from_line :: "string \<Rightarrow> bool" where
  "from_line line \<longleftrightarrow> has_prefix (dropWhile (\<lambda>c. c = CHR ''>'') line) ''From ''"

definition quote_line :: "string \<Rightarrow> string" where
  "quote_line line = (if from_line line then CHR ''>'' # line else line)"

lemma cut_line_shorter: "raw \<noteq> [] \<Longrightarrow> length (snd (cut_line raw)) < length raw"
proof -
  assume "raw \<noteq> []"
  moreover have "length (dropWhile (\<lambda>c. c \<noteq> LF) raw) \<le> length raw" by (rule length_dropWhile_le)
  ultimately show ?thesis by (auto simp: cut_line_def split: list.split)
qed

function quote_lines :: "string \<Rightarrow> string" where
  "quote_lines raw = (if raw = [] then [] else quote_line (fst (cut_line raw)) @ quote_lines (snd (cut_line raw)))"
  by auto
termination by (relation "measure length") (auto simp: cut_line_shorter)

declare quote_lines.simps [simp del]

definition WriteMboxrd :: "export_message \<Rightarrow> string" where
  "WriteMboxrd m =
     (let sender = (if ex_Sender m = [] \<or> length (ex_Sender m) > 320 \<or> space_or_control (map of_char (ex_Sender m)) then ''MAILER-DAEMON'' else ex_Sender m);
          ending = (if ex_Raw m \<noteq> [] \<and> last (ex_Raw m) = LF then [LF] else [LF, LF]) in
      ''From '' @ sender @ '' '' @ ex_At m @ [LF] @ quote_lines (ex_Raw m) @ ending)"

section \<open>Import\<close>

text \<open>\<open>ReadSlice\<close> of a reader with a buffer of 64 KiB: a line, a full buffer, or the end of the input.\<close>

definition mbox_buffer :: nat where "mbox_buffer = 65536"

datatype slice_end = LineEnd | BufferFull | EndOfFile

definition ReadSlice :: "string \<Rightarrow> string \<times> slice_end \<times> string" where
  "ReadSlice s =
     (if LF \<in> set (take mbox_buffer s) then (fst (cut_line s), LineEnd, snd (cut_line s))
      else if length s \<ge> mbox_buffer then (take mbox_buffer s, BufferFull, drop mbox_buffer s)
      else (s, EndOfFile, []))"

lemma mbox_buffer_pos [simp]: "0 < mbox_buffer" "mbox_buffer \<noteq> 0"
  by (simp_all add: mbox_buffer_def)

lemma ReadSlice_shorter: "ReadSlice s = (chunk, e, rest) \<Longrightarrow> e \<noteq> EndOfFile \<Longrightarrow> length rest < length s"
proof -
  assume r: "ReadSlice s = (chunk, e, rest)" and e: "e \<noteq> EndOfFile"
  have ne: "s \<noteq> []" using r e by (auto simp: ReadSlice_def split: if_splits)
  show ?thesis using r e cut_line_shorter [OF ne] ne by (auto simp: ReadSlice_def split: if_splits)
qed

text \<open>The rest of a separator longer than the buffer.\<close>

function skip_line :: "slice_end \<Rightarrow> string \<Rightarrow> slice_end \<times> string" where
  "skip_line e s = (if e = BufferFull then (let (chunk, e', s') = ReadSlice s in skip_line e' s') else (e, s))"
  by auto
termination
proof (relation "measure (\<lambda>(e, s). 2 * length s + (if e = BufferFull then 1 else 0))")
  fix e s x chunk y e' s'
  assume c: "e = BufferFull" and x: "x = ReadSlice s" "(chunk, y) = x" "(e', s') = y"
  hence r: "ReadSlice s = (chunk, e', s')" by simp
  show "((e', s'), e, s) \<in> measure (\<lambda>(e, s). 2 * length s + (if e = BufferFull then 1 else 0))"
  proof (cases "e' = EndOfFile")
    case True
    hence "s' = []" using r by (auto simp: ReadSlice_def split: if_splits)
    thus ?thesis using c True by simp
  next
    case False
    from ReadSlice_shorter [OF r this] show ?thesis using c by simp
  qed
qed simp

declare skip_line.simps [simp del]

text \<open>
  What the reader has of the current message: its bytes, whether one has begun, whether it outgrew the limit, and
  whether the next byte starts a line that follows a blank one.
\<close>

record mbox_state =
  mx_msg :: string
  mx_started :: bool
  mx_over :: bool
  mx_lineStart :: bool
  mx_prevBlank :: bool

type_synonym ('e, 's) each = "string \<Rightarrow> bool \<Rightarrow> 's \<Rightarrow> 'e option \<times> 's"

definition has_suffix :: "string \<Rightarrow> string \<Rightarrow> bool" where
  "has_suffix s t \<longleftrightarrow> has_prefix (rev s) (rev t)"

definition flush_msg :: "('e, 's) each \<Rightarrow> mbox_state \<Rightarrow> 's \<Rightarrow> 'e option \<times> 's" where
  "flush_msg each st \<sigma> =
     (if \<not> mx_started st then (None, \<sigma>)
      else each (if has_suffix (mx_msg st) [LF, CR, LF] then take (length (mx_msg st) - 2) (mx_msg st)
                 else if has_suffix (mx_msg st) [LF, LF] then take (length (mx_msg st) - 1) (mx_msg st)
                 else mx_msg st) (\<not> mx_over st) \<sigma>)"

definition separator :: "mbox_state \<Rightarrow> string \<Rightarrow> bool" where
  "separator st chunk \<longleftrightarrow> chunk \<noteq> [] \<and> mx_lineStart st \<and> mx_prevBlank st \<and> has_prefix chunk ''From ''"

text \<open>One '>' is taken from a line that is a quoted separator.\<close>

definition unquote :: "bool \<Rightarrow> string \<Rightarrow> string" where
  "unquote lineStart chunk =
     (if lineStart \<and> length (dropWhile (\<lambda>c. c = CHR ''>'') chunk) < length chunk \<and> from_line chunk then tl chunk else chunk)"

definition take_chunk :: "nat \<Rightarrow> mbox_state \<Rightarrow> string \<Rightarrow> mbox_state" where
  "take_chunk limit st chunk =
     (if chunk = [] then st
      else
        (let line = unquote (mx_lineStart st) chunk; over = length (mx_msg st) + length line > limit + 2; ended = last chunk = LF;
             st1 = (if mx_started st \<and> \<not> mx_over st then st\<lparr>mx_over := over, mx_msg := (if over then [] else mx_msg st @ line)\<rparr> else st) in
         st1\<lparr>mx_prevBlank := mx_lineStart st \<and> ended \<and> list_all (\<lambda>c. c = CR \<or> c = LF) chunk, mx_lineStart := ended\<rparr>))"

function read_loop :: "nat \<Rightarrow> ('e, 's) each \<Rightarrow> mbox_state \<Rightarrow> string \<Rightarrow> 's \<Rightarrow> 'e option \<times> 's" where
  "read_loop limit each st s \<sigma> =
     (let (chunk, e, rest) = ReadSlice s in
      if separator st chunk then
        (case flush_msg each st \<sigma> of
           (Some err, \<sigma>') \<Rightarrow> (Some err, \<sigma>')
         | (None, \<sigma>') \<Rightarrow>
             (let (e', rest') = skip_line e rest; st' = \<lparr>mx_msg = [], mx_started = True, mx_over = False, mx_lineStart = True, mx_prevBlank = False\<rparr> in
              if e' = EndOfFile then flush_msg each st' \<sigma>' else read_loop limit each st' rest' \<sigma>'))
      else
        (let st' = take_chunk limit st chunk in
         if e = EndOfFile then flush_msg each st' \<sigma> else read_loop limit each st' rest \<sigma>))"
  by pat_completeness auto

lemma skip_line_le: "length (snd (skip_line e s)) \<le> length s"
proof (induction e s rule: skip_line.induct)
  case (1 e s)
  show ?case
  proof (cases "e = BufferFull")
    case True
    obtain chunk e' s' where r: "ReadSlice s = (chunk, e', s')" by (cases "ReadSlice s")
    have "length s' \<le> length s"
      using r ReadSlice_shorter [OF r] by (cases "e' = EndOfFile") (auto simp: ReadSlice_def split: if_splits)
    moreover have "length (snd (skip_line e' s')) \<le> length s'" using "1.IH" True r by simp
    ultimately show ?thesis using True r by (simp add: skip_line.simps [of BufferFull s])
  qed (simp add: skip_line.simps)
qed

termination read_loop
proof (relation "measure (\<lambda>(limit, each, st, s, \<sigma>). length s)")
  fix limit each st s \<sigma> x chunk y e rest z a \<sigma>' w e' rest' st'
  assume "x = ReadSlice s" "(chunk, y) = x" "(e, rest) = y" and w: "w = skip_line e rest" "(e', rest') = w" and "e' \<noteq> EndOfFile"
  hence r: "ReadSlice s = (chunk, e, rest)" by simp
  have "e \<noteq> EndOfFile" using w \<open>e' \<noteq> EndOfFile\<close> by (auto simp: skip_line.simps [of e rest])
  from ReadSlice_shorter [OF r this] skip_line_le [of e rest]
  show "((limit, each, st', rest', \<sigma>'), limit, each, st, s, \<sigma>) \<in> measure (\<lambda>(limit, each, st, s, \<sigma>). length s)" using w(2) by (simp flip: w(1)) (metis le_less_trans snd_conv)
next
  fix limit each st s \<sigma> x chunk y e rest st'
  assume "x = ReadSlice s" "(chunk, y) = x" "(e, rest) = y" and "e \<noteq> EndOfFile"
  hence "ReadSlice s = (chunk, e, rest)" by simp
  from ReadSlice_shorter [OF this \<open>e \<noteq> EndOfFile\<close>]
  show "((limit, each, st', rest, \<sigma>), limit, each, st, s, \<sigma>) \<in> measure (\<lambda>(limit, each, st, s, \<sigma>). length s)" by simp
qed simp

declare read_loop.simps [simp del]

definition readMbox :: "nat \<Rightarrow> ('e, 's) each \<Rightarrow> string \<Rightarrow> 's \<Rightarrow> 'e option \<times> 's" where
  "readMbox limit each file \<sigma> =
     read_loop limit each \<lparr>mx_msg = [], mx_started = False, mx_over = False, mx_lineStart = True, mx_prevBlank = True\<rparr> file \<sigma>"

text \<open>\<open>has_header\<close> says whether the parsed message has a header field.\<close>

datatype import_error = ErrImportArchive | ErrImportTooMany | ImportStopped mail_error

definition ImportValid :: "mail_lib \<Rightarrow> (string \<Rightarrow> bool) \<Rightarrow> nat \<Rightarrow> string \<Rightarrow> bool" where
  "ImportValid lib has_header limit raw \<longleftrightarrow> raw \<noteq> [] \<and> length raw \<le> limit \<and> rawMetadata lib raw \<and> has_header raw"

text \<open>The counts of messages seen and skipped, before the caller's state.\<close>

definition each_valid ::
  "(string \<Rightarrow> bool) \<Rightarrow> nat \<Rightarrow> (string \<Rightarrow> 's \<Rightarrow> import_error option \<times> 's) \<Rightarrow> (import_error, nat \<times> nat \<times> 's) each" where
  "each_valid valid maxMessages fn raw ok st =
     (case st of (seen, skipped, \<sigma>) \<Rightarrow>
        if seen + 1 > maxMessages then (Some ErrImportTooMany, (seen + 1, skipped, \<sigma>))
        else if \<not> ok \<or> \<not> valid raw then (None, (seen + 1, skipped + 1, \<sigma>))
        else (case fn raw \<sigma> of (e, \<sigma>') \<Rightarrow> (e, (seen + 1, skipped, \<sigma>'))))"

definition ReadImport ::
  "(string \<Rightarrow> (import_error, nat \<times> nat \<times> 's) each \<Rightarrow> nat \<times> nat \<times> 's \<Rightarrow> import_error option \<times> nat \<times> nat \<times> 's)
     \<Rightarrow> (string \<Rightarrow> bool) \<Rightarrow> nat \<Rightarrow> nat \<Rightarrow> (string \<Rightarrow> 's \<Rightarrow> import_error option \<times> 's) \<Rightarrow> string \<Rightarrow> 's \<Rightarrow> import_error option \<times> nat \<times> nat \<times> 's" where
  "ReadImport readImportZip valid limit maxMessages fn file \<sigma> =
     (let each = each_valid valid maxMessages fn in
      if has_prefix file [CHR ''P'', CHR ''K'', CHR 0x03, CHR 0x04] \<or> has_prefix file [CHR ''P'', CHR ''K'', CHR 0x05, CHR 0x06] then
        readImportZip file each (0, 0, \<sigma>)
      else if take 5 file = ''From '' then readMbox limit each file (0, 0, \<sigma>)
      else if length file > limit then each [] False (0, 0, \<sigma>)
      else each file True (0, 0, \<sigma>))"

section \<open>The export pages\<close>

lemma map_filter_append: "List.map_filter f (xs @ ys) = List.map_filter f xs @ List.map_filter f ys"
  by (induction xs) (auto simp: List.map_filter_simps split: option.split)

text \<open>Page by page an export visits every live message of the folder above the cursor, once and in order.\<close>

lemma export_pages_all: "export_pages date s folder after = List.map_filter (export_of date s folder) (filter (\<lambda>i. after < i) (live_ids s folder))"
proof (induction date s folder after rule: export_pages.induct)
  case (1 date s folder after)
  define page where "page = exportPage s folder after"
  show ?case
  proof (cases "length page < 200")
    case True
    hence "filter (\<lambda>i. after < i) (live_ids s folder) = page" by (auto simp: page_def exportPage_def)
    thus ?thesis using True by (simp add: export_pages.simps [of date s folder after] page_def [symmetric] Let_def)
  next
    case False
    hence "page \<noteq> []" by auto
    with live_ids_strict _ have "filter (\<lambda>i. after < i) (live_ids s folder) = page @ filter (\<lambda>i. last page < i) (live_ids s folder)"
      by (rule rest_after_page) (simp add: page_def exportPage_def)
    moreover have "export_pages date s folder (last page) = List.map_filter (export_of date s folder) (filter (\<lambda>i. last page < i) (live_ids s folder))"
      using "1.IH" [OF page_def refl False] .
    ultimately show ?thesis
      using False by (simp add: export_pages.simps [of date s folder after] page_def [symmetric] Let_def map_filter_append)
  qed
qed

lemma export_raw: "map ex_Raw (export_pages date s folder 0) = map (\<lambda>i. the (sm_Raw (ms_Messages s ! (i - 1)))) (live_ids s folder)"
proof -
  have "filter (\<lambda>i. 0 < i) (live_ids s folder) = live_ids s folder" using live_ids_valid(1) [of s folder] by (auto simp: valid_ids_def)
  moreover have "map ex_Raw (List.map_filter (export_of date s folder) is) = map (\<lambda>i. the (sm_Raw (ms_Messages s ! (i - 1)))) is"
    if "set is \<subseteq> set (live_ids s folder)" for "is"
    using that
  proof (induction "is")
    case (Cons i "is")
    hence "live_in s folder i \<noteq> None" by (auto simp: live_ids_def)
    then obtain m where "live_in s folder i = Some m" by auto
    hence "export_of date s folder i \<noteq> None" "\<And>e. export_of date s folder i = Some e \<Longrightarrow> ex_Raw e = the (sm_Raw (ms_Messages s ! (i - 1)))"
      using msg_atD [OF conjunct1 [OF live_msgD [OF conjunct1 [OF live_in_live]]]] by (auto simp: export_of_def)
    thus ?case using Cons by (auto simp: List.map_filter_simps)
  qed (simp add: List.map_filter_simps)
  ultimately show ?thesis by (simp add: export_pages_all)
qed

section \<open>Reading what was written\<close>

subsection \<open>Lines and chunks\<close>

lemma cut_line_LF [simp]: "LF \<notin> set b \<Longrightarrow> cut_line (b @ LF # t) = (b @ [LF], t)"
proof -
  assume "LF \<notin> set b"
  hence "\<forall>c \<in> set b. c \<noteq> LF" by auto
  hence "dropWhile (\<lambda>c. c \<noteq> LF) (b @ LF # t) = LF # t" "takeWhile (\<lambda>c. c \<noteq> LF) (b @ LF # t) = b" by simp_all
  thus ?thesis by (simp add: cut_line_def)
qed

lemma cut_line_none: "LF \<notin> set b \<Longrightarrow> cut_line b = (b, [])"
proof -
  assume "LF \<notin> set b"
  hence "dropWhile (\<lambda>c. c \<noteq> LF) b = []" by (auto simp: dropWhile_eq_Nil_conv)
  thus ?thesis by (simp only: cut_line_def list.case)
qed

lemma split_at_LF: "LF \<in> set r \<Longrightarrow> \<exists>b t. r = b @ LF # t \<and> LF \<notin> set b"
  by (metis split_list_first)

lemma ReadSlice_line: "LF \<notin> set b \<Longrightarrow> length b < mbox_buffer \<Longrightarrow> ReadSlice (b @ LF # t) = (b @ [LF], LineEnd, t)"
proof -
  assume b: "LF \<notin> set b" "length b < mbox_buffer"
  then obtain d where "mbox_buffer = length b + Suc d" using less_imp_Suc_add by auto
  hence "mbox_buffer - length b = Suc d" by simp
  hence "LF \<in> set (take mbox_buffer (b @ LF # t))" by simp
  thus ?thesis using b(1) by (simp add: ReadSlice_def)
qed

lemma ReadSlice_full:
  assumes "LF \<notin> set b" "mbox_buffer \<le> length b"
  shows "ReadSlice (b @ LF # t) = (take mbox_buffer b, BufferFull, drop mbox_buffer b @ LF # t)"
  using assms by (auto simp: ReadSlice_def dest: in_set_takeD)

lemma skip_to_LF: "LF \<notin> set b \<Longrightarrow> skip_line BufferFull (b @ LF # t) = (LineEnd, t)"
proof (induction b rule: length_induct)
  case (1 b)
  show ?case
  proof (cases "length b < mbox_buffer")
    case True
    thus ?thesis using 1 by (simp add: skip_line.simps [of BufferFull] ReadSlice_line) (simp add: skip_line.simps)
  next
    case False
    moreover have "LF \<notin> set (drop mbox_buffer b)" using 1(2) by (auto dest: in_set_dropD)
    moreover have "length (drop mbox_buffer b) < length b" using False mbox_buffer_pos(1) unfolding length_drop by linarith
    ultimately show ?thesis using 1 by (simp add: skip_line.simps [of BufferFull "b @ LF # t"] ReadSlice_full)
  qed
qed

subsection \<open>Quoting\<close>

lemma has_prefix_append_iff: "has_prefix s p \<longleftrightarrow> (\<exists>r. s = p @ r)"
  by (induction s p rule: has_prefix.induct) auto

lemma from_line_iff: "from_line s \<longleftrightarrow> (\<exists>k r. s = replicate k (CHR ''>'') @ ''From '' @ r)"
proof
  assume "from_line s"
  then obtain r where r: "dropWhile (\<lambda>c. c = CHR ''>'') s = ''From '' @ r" by (auto simp: from_line_def has_prefix_append_iff)
  have "takeWhile (\<lambda>c. c = CHR ''>'') s = replicate (length (takeWhile (\<lambda>c. c = CHR ''>'') s)) (CHR ''>'')"
    by (rule replicate_eqI) (auto dest: set_takeWhileD)
  hence "s = replicate (length (takeWhile (\<lambda>c. c = CHR ''>'') s)) (CHR ''>'') @ ''From '' @ r"
    using r by (metis takeWhile_dropWhile_id)
  thus "\<exists>k r. s = replicate k (CHR ''>'') @ ''From '' @ r" by blast
next
  assume "\<exists>k r. s = replicate k (CHR ''>'') @ ''From '' @ r"
  then obtain k r where "s = replicate k (CHR ''>'') @ ''From '' @ r" by blast
  moreover have "dropWhile (\<lambda>c. c = CHR ''>'') (replicate k (CHR ''>'') @ ''From '' @ r) = ''From '' @ r"
    by (induction k) simp_all
  ultimately show "from_line s" by (simp add: from_line_def)
qed

lemma from_line_extend: "from_line s \<Longrightarrow> from_line (s @ t)"
proof -
  assume "from_line s"
  then obtain k r where "s = replicate k (CHR ''>'') @ ''From '' @ r" by (auto simp: from_line_iff)
  hence "s @ t = replicate k (CHR ''>'') @ ''From '' @ (r @ t)" by simp
  thus ?thesis unfolding from_line_iff by blast
qed

lemma from_line_take: "from_line (take n s) \<Longrightarrow> from_line s"
  using from_line_extend [of "take n s" "drop n s"] by simp

lemma from_line_quote [simp]: "from_line (CHR ''>'' # s) = from_line s"
  by (simp add: from_line_def)

lemma from_line_LF [simp]: "from_line (s @ [LF]) = from_line s"
proof
  assume "from_line (s @ [LF])"
  then obtain k r where k: "s @ [LF] = replicate k (CHR ''>'') @ ''From '' @ r" by (auto simp: from_line_iff)
  have "r \<noteq> []"
  proof
    assume "r = []"
    with k have "last (s @ [LF]) = last (replicate k (CHR ''>'') @ ''From '')" by (metis append_Nil2)
    thus False by simp
  qed
  hence "s = replicate k (CHR ''>'') @ ''From '' @ butlast r" using arg_cong [OF k, of butlast] by (simp add: butlast_append)
  thus "from_line s" unfolding from_line_iff by blast
qed (rule from_line_extend)

lemma no_from: "\<not> from_line s \<Longrightarrow> \<not> has_prefix s ''From ''"
proof
  assume no: "\<not> from_line s" and "has_prefix s ''From ''"
  then obtain r where "s = replicate 0 (CHR ''>'') @ ''From '' @ r" by (auto simp: has_prefix_append_iff)
  thus False using no from_line_iff by blast
qed

text \<open>The quotes of a line that starts with '>' and \<open>From\<close> end within the buffer.\<close>

definition quote_fits :: "string \<Rightarrow> bool" where
  "quote_fits line \<longleftrightarrow> (from_line line \<longrightarrow> length (takeWhile (\<lambda>c. c = CHR ''>'') line) + 6 \<le> mbox_buffer)"

function quotes_fit :: "string \<Rightarrow> bool" where
  "quotes_fit raw = (if raw = [] then True else quote_fits (fst (cut_line raw)) \<and> quotes_fit (snd (cut_line raw)))"
  by auto
termination by (relation "measure length") (auto simp: cut_line_shorter)

declare quotes_fit.simps [simp del]

lemma from_line_within:
  assumes "from_line b" "length (takeWhile (\<lambda>c. c = CHR ''>'') b) + 6 \<le> n"
  shows "from_line (take (n - 1) b)"
proof -
  obtain k r where b: "b = replicate k (CHR ''>'') @ ''From '' @ r" using assms(1) by (auto simp: from_line_iff)
  have "takeWhile (\<lambda>c. c = CHR ''>'') b = replicate k (CHR ''>'')" unfolding b by (induction k) simp_all
  hence "k + 5 \<le> n - 1" using assms(2) by simp
  then obtain j where "n - 1 = (k + 5) + j" using le_iff_add by blast
  hence n: "n - 1 = length (replicate k (CHR ''>'') @ ''From '') + j" by simp
  have "take (n - 1) b = (replicate k (CHR ''>'') @ ''From '') @ take j r"
    unfolding n b append_assoc [symmetric] by (simp only: take_append take_add append_take_drop_id) simp
  thus ?thesis unfolding from_line_iff append_assoc by blast
qed

subsection \<open>One message\<close>

abbreviation reading :: "string \<Rightarrow> bool \<Rightarrow> bool \<Rightarrow> mbox_state" where
  "reading msg ls pb \<equiv> \<lparr>mx_msg = msg, mx_started = True, mx_over = False, mx_lineStart = ls, mx_prevBlank = pb\<rparr>"

lemma take_chunk_within:
  assumes "chunk \<noteq> []" "length msg + length (unquote ls chunk) \<le> limit + 2"
  shows "take_chunk limit (reading msg ls pb) chunk =
     reading (msg @ unquote ls chunk) (last chunk = LF) (ls \<and> last chunk = LF \<and> list_all (\<lambda>c. c = CR \<or> c = LF) chunk)"
  using assms by (simp add: take_chunk_def Let_def)

lemma unquote_inside [simp]: "unquote False chunk = chunk"
  by (simp add: unquote_def)

lemma read_loop_chunk:
  assumes "ReadSlice s = (chunk, e, rest)" "\<not> separator st chunk" "e \<noteq> EndOfFile"
  shows "read_loop limit each st s \<sigma> = read_loop limit each (take_chunk limit st chunk) rest \<sigma>"
  using assms by (simp add: read_loop.simps [of limit each st s])

lemma no_LF_last: "LF \<notin> set b \<Longrightarrow> b \<noteq> [] \<Longrightarrow> last b \<noteq> LF"
  by (metis last_in_set)

lemma chunk_nonempty: "mbox_buffer \<le> length b \<Longrightarrow> take mbox_buffer b \<noteq> []"
  using mbox_buffer_pos by (cases b) auto

text \<open>The rest of a line of which the start was read.\<close>

lemma read_rest_of_line:
  assumes "LF \<notin> set b" "length msg + length b + 1 \<le> limit + 2"
  shows "read_loop limit each (reading msg False False) (b @ LF # t) \<sigma> = read_loop limit each (reading (msg @ b @ [LF]) True False) t \<sigma>"
  using assms
proof (induction b arbitrary: msg rule: length_induct)
  case (1 b)
  show ?case
  proof (cases "length b < mbox_buffer")
    case True
    have "read_loop limit each (reading msg False False) (b @ LF # t) \<sigma> = read_loop limit each (take_chunk limit (reading msg False False) (b @ [LF])) t \<sigma>"
      using ReadSlice_line [OF 1(2) True] by (rule read_loop_chunk) (simp_all add: separator_def)
    thus ?thesis using 1(3) by (simp add: take_chunk_within)
  next
    case False
    let ?c = "take mbox_buffer b" and ?d = "drop mbox_buffer b"
    have c1: "?c \<noteq> []" using False by (intro chunk_nonempty) simp
    have "LF \<notin> set ?c" using 1(2) by (auto dest: in_set_takeD)
    from no_LF_last [OF this c1] c1 have c: "?c \<noteq> []" "last ?c \<noteq> LF" by blast+
    have len: "length ?c + length ?d = length b" by simp
    have "read_loop limit each (reading msg False False) (b @ LF # t) \<sigma> = read_loop limit each (take_chunk limit (reading msg False False) ?c) (?d @ LF # t) \<sigma>"
      using ReadSlice_full [OF 1(2), of t] False by (intro read_loop_chunk) (auto simp: separator_def)
    also have "take_chunk limit (reading msg False False) ?c = reading (msg @ ?c) False False"
      using c 1(3) len by (subst take_chunk_within) auto
    also have "read_loop limit each (reading (msg @ ?c) False False) (?d @ LF # t) \<sigma> = read_loop limit each (reading ((msg @ ?c) @ ?d @ [LF]) True False) t \<sigma>"
    proof -
      have "length ?d < length b" using False mbox_buffer_pos(1) unfolding length_drop by linarith
      moreover have "LF \<notin> set ?d" using 1(2) by (auto dest: in_set_dropD)
      moreover have "length (msg @ ?c) + length ?d + 1 \<le> limit + 2" using 1(3) len unfolding length_append by linarith
      ultimately show ?thesis using 1(1) by blast
    qed
    also have "(msg @ ?c) @ ?d @ [LF] = msg @ b @ [LF]" by (metis append.assoc append_take_drop_id)
    finally show ?thesis .
  qed
qed

text \<open>A quoted line, as it is written and read back.\<close>

lemma unquote_quote: "from_line c \<Longrightarrow> unquote True (CHR ''>'' # c) = c"
  using length_dropWhile_le [of "\<lambda>c. c = CHR ''>''" c] by (simp add: unquote_def)

lemma unquote_plain: "\<not> from_line c \<Longrightarrow> unquote True c = c"
  by (simp add: unquote_def)

lemma unquote_whole: "unquote True (quote_line (b @ [LF])) = b @ [LF]"
  using unquote_quote [of "b @ [LF]"] by (simp add: quote_line_def unquote_plain)

lemma unquote_part:
  assumes "quote_fits b"
  shows "unquote True (take mbox_buffer (quote_line b)) @ drop mbox_buffer (quote_line b) = b"
proof (cases "from_line b")
  case True
  hence "from_line (take (mbox_buffer - 1) b)" using assms by (intro from_line_within) (auto simp: quote_fits_def)
  from unquote_quote [OF this] show ?thesis using True by (simp add: quote_line_def take_Cons' drop_Cons')
next
  case False
  hence "\<not> from_line (take mbox_buffer b)" using from_line_take by blast
  from unquote_plain [OF this] show ?thesis using False by (simp add: quote_line_def)
qed

lemma quote_line_LF: "quote_line (b @ [LF]) = quote_line b @ [LF]"
  by (simp add: quote_line_def)

lemma quote_not_from: "\<not> has_prefix (quote_line s) ''From ''"
  by (simp add: quote_line_def no_from)

lemma has_prefix_take: "has_prefix (take n s) p \<Longrightarrow> has_prefix s p"
  by (metis append.assoc append_take_drop_id has_prefix_append_iff)

lemma read_quoted_line:
  assumes b: "LF \<notin> set b" and fits: "quote_fits b" and len: "length msg + length b + 1 \<le> limit + 2"
  shows "\<exists>pb'. read_loop limit each (reading msg True pb) (quote_line (b @ [LF]) @ t) \<sigma> = read_loop limit each (reading (msg @ b @ [LF]) True pb') t \<sigma>"
proof -
  let ?q = "quote_line b"
  have q: "LF \<notin> set ?q" using b by (simp add: quote_line_def)
  have s: "quote_line (b @ [LF]) @ t = ?q @ LF # t" by (simp add: quote_line_LF)
  show ?thesis
  proof (cases "length ?q < mbox_buffer")
    case True
    have "\<not> separator (reading msg True pb) (?q @ [LF])" using quote_not_from [of "b @ [LF]"] by (simp add: separator_def quote_line_LF)
    hence "read_loop limit each (reading msg True pb) (?q @ LF # t) \<sigma> = read_loop limit each (take_chunk limit (reading msg True pb) (?q @ [LF])) t \<sigma>"
      using ReadSlice_line [OF q True] by (intro read_loop_chunk) auto
    moreover have u: "unquote True (?q @ [LF]) = b @ [LF]" using unquote_whole [of b] by (simp add: quote_line_LF)
    ultimately show ?thesis using len unfolding s by (subst (asm) take_chunk_within) (auto simp: u)
  next
    case False
    let ?c = "take mbox_buffer ?q" and ?d = "drop mbox_buffer ?q"
    have c1: "?c \<noteq> []" using False by (intro chunk_nonempty) simp
    have "LF \<notin> set ?c" using q by (auto dest: in_set_takeD)
    from no_LF_last [OF this c1] have c2: "last ?c \<noteq> LF" .
    have d: "LF \<notin> set ?d" using q by (auto dest: in_set_dropD)
    have u: "unquote True ?c @ ?d = b" by (rule unquote_part [OF fits])
    hence ul: "length (unquote True ?c) + length ?d = length b" by (metis length_append)
    have "\<not> separator (reading msg True pb) ?c" using quote_not_from [of b] has_prefix_take [of mbox_buffer ?q "''From ''"] by (auto simp: separator_def)
    hence "read_loop limit each (reading msg True pb) (?q @ LF # t) \<sigma> = read_loop limit each (take_chunk limit (reading msg True pb) ?c) (?d @ LF # t) \<sigma>"
      using ReadSlice_full [OF q, of t] False by (intro read_loop_chunk) auto
    also have "take_chunk limit (reading msg True pb) ?c = reading (msg @ unquote True ?c) False False"
      using c1 c2 len ul by (subst take_chunk_within) auto
    also have "read_loop limit each (reading (msg @ unquote True ?c) False False) (?d @ LF # t) \<sigma> =
        read_loop limit each (reading ((msg @ unquote True ?c) @ ?d @ [LF]) True False) t \<sigma>"
      using d by (rule read_rest_of_line) (use len ul in simp)
    also have "(msg @ unquote True ?c) @ ?d @ [LF] = msg @ b @ [LF]" using u by (metis append.assoc)
    finally show ?thesis unfolding s by blast
  qed
qed

lemma read_body:
  assumes "raw = [] \<or> last raw = LF" "quotes_fit raw" "length msg + length raw \<le> limit + 2"
  shows "\<exists>pb'. read_loop limit each (reading msg True pb) (quote_lines raw @ t) \<sigma> = read_loop limit each (reading (msg @ raw) True pb') t \<sigma>"
  using assms
proof (induction raw arbitrary: msg pb rule: quote_lines.induct)
  case (1 raw)
  show ?case
  proof (cases "raw = []")
    case False
    hence "LF \<in> set raw" using "1.prems"(1) by (metis last_in_set)
    then obtain b rest where raw: "raw = b @ LF # rest" and b: "LF \<notin> set b" using split_at_LF by blast
    have cut: "cut_line raw = (b @ [LF], rest)" using b by (simp add: raw)
    have fits: "quote_fits b" "quotes_fit rest"
      using "1.prems"(2) False cut by (auto simp: quotes_fit.simps [of raw] quote_fits_def takeWhile_tail)
    have ql: "quote_lines raw @ t = quote_line (b @ [LF]) @ (quote_lines rest @ t)"
      using False cut by (simp add: quote_lines.simps [of raw])
    have "length msg + length b + 1 \<le> limit + 2" using "1.prems"(3) by (simp add: raw)
    from read_quoted_line [OF b fits(1) this, of each pb "quote_lines rest @ t" \<sigma>] obtain pb1
      where 1: "read_loop limit each (reading msg True pb) (quote_lines raw @ t) \<sigma> = read_loop limit each (reading (msg @ b @ [LF]) True pb1) (quote_lines rest @ t) \<sigma>"
      unfolding ql by blast
    have "rest = [] \<or> last rest = LF" using "1.prems"(1) False by (auto simp: raw split: if_splits)
    moreover have "length (msg @ b @ [LF]) + length rest \<le> limit + 2" using "1.prems"(3) by (simp add: raw)
    ultimately obtain pb2 where "read_loop limit each (reading (msg @ b @ [LF]) True pb1) (quote_lines rest @ t) \<sigma> =
        read_loop limit each (reading ((msg @ b @ [LF]) @ rest) True pb2) t \<sigma>"
      using "1.IH" [OF False, of "msg @ b @ [LF]" pb1] fits(2) cut by auto
    with 1 show ?thesis by (auto simp: raw)
  qed (auto simp: quote_lines.simps)
qed

subsection \<open>A file\<close>

text \<open>The bytes of a message as they come back: a last line without its end gets one.\<close>

definition restored :: "string \<Rightarrow> string" where
  "restored raw = (if raw \<noteq> [] \<and> last raw = LF then raw else raw @ [LF])"

lemma restored_last: "restored raw \<noteq> [] \<and> last (restored raw) = LF"
  by (simp add: restored_def)

lemma quote_lines_LF: "LF \<notin> set b \<Longrightarrow> quote_lines (b @ LF # t) = quote_line (b @ [LF]) @ quote_lines t"
  by (simp add: quote_lines.simps [of "b @ LF # t"])

lemma quotes_fit_LF: "LF \<notin> set b \<Longrightarrow> quotes_fit (b @ LF # t) = (quote_fits (b @ [LF]) \<and> quotes_fit t)"
  by (simp add: quotes_fit.simps [of "b @ LF # t"])

lemma last_after_LF: "raw = b @ LF # rest \<Longrightarrow> last raw \<noteq> LF \<Longrightarrow> rest \<noteq> [] \<and> last rest \<noteq> LF"
  by (cases "rest = []") auto

lemma quote_lines_close: "raw = [] \<or> last raw \<noteq> LF \<Longrightarrow> quote_lines (raw @ [LF]) = quote_lines raw @ [LF]"
proof (induction raw rule: quote_lines.induct)
  case (1 raw)
  show ?case
  proof (cases "LF \<in> set raw")
    case True
    then obtain b rest where raw: "raw = b @ LF # rest" and b: "LF \<notin> set b" using split_at_LF by blast
    have rest: "rest \<noteq> [] \<and> last rest \<noteq> LF" using "1.prems" by (intro last_after_LF [OF raw]) (auto simp: raw)
    have "quote_lines (raw @ [LF]) = quote_line (b @ [LF]) @ quote_lines (rest @ [LF])"
      using b by (simp add: raw quote_lines_LF)
    moreover have "quote_lines raw = quote_line (b @ [LF]) @ quote_lines rest"
      using b by (simp add: raw quote_lines_LF)
    moreover have "quote_lines (rest @ [LF]) = quote_lines rest @ [LF]" using "1.IH" b rest by (simp add: raw)
    ultimately show ?thesis by simp
  next
    case False
    have "cut_line (raw @ [LF]) = (raw @ [LF], [])" using cut_line_LF [OF False, of "[]"] by simp
    hence "quote_lines (raw @ [LF]) = quote_line raw @ [LF]" by (simp add: quote_lines.simps [of "raw @ [LF]"] quote_lines.simps [of "[]"] quote_line_LF)
    moreover have "quote_lines raw = quote_line raw"
      using False by (cases "raw = []") (simp_all add: quote_lines.simps [of raw] quote_lines.simps [of "[]"] cut_line_none quote_line_def from_line_def)
    ultimately show ?thesis by simp
  qed
qed

lemma quotes_fit_close: "raw = [] \<or> last raw \<noteq> LF \<Longrightarrow> quotes_fit raw \<Longrightarrow> quotes_fit (raw @ [LF])"
proof (induction raw rule: quote_lines.induct)
  case (1 raw)
  show ?case
  proof (cases "LF \<in> set raw")
    case True
    then obtain b rest where raw: "raw = b @ LF # rest" and b: "LF \<notin> set b" using split_at_LF by blast
    have rest: "rest \<noteq> [] \<and> last rest \<noteq> LF" using "1.prems"(1) by (intro last_after_LF [OF raw]) (auto simp: raw)
    have f: "quote_fits (b @ [LF])" "quotes_fit rest" using "1.prems"(2) b by (simp_all add: raw quotes_fit_LF)
    hence "quotes_fit (rest @ [LF])" using "1.IH" b rest by (simp add: raw)
    thus ?thesis using f(1) b by (simp add: raw quotes_fit_LF)
  next
    case False
    have "cut_line (raw @ [LF]) = (raw @ [LF], [])" using cut_line_LF [OF False, of "[]"] by simp
    moreover have "quote_fits raw" using "1.prems"(2) False
      by (cases "raw = []") (simp_all add: quotes_fit.simps [of raw] cut_line_none quote_fits_def from_line_def)
    hence "quote_fits (raw @ [LF])" by (simp add: quote_fits_def takeWhile_tail)
    ultimately show ?thesis by (simp add: quotes_fit.simps [of "raw @ [LF]"] quotes_fit.simps [of "[]"])
  qed
qed

lemma restored_fit: "quotes_fit raw \<Longrightarrow> quotes_fit (restored raw)"
  using quotes_fit_close [of raw] by (auto simp: restored_def)

definition separator_line :: "export_message \<Rightarrow> string" where
  "separator_line m =
     ''From '' @ (if ex_Sender m = [] \<or> length (ex_Sender m) > 320 \<or> space_or_control (map of_char (ex_Sender m)) then ''MAILER-DAEMON'' else ex_Sender m) @
     '' '' @ ex_At m"

lemma WriteMboxrd_eq: "WriteMboxrd m = separator_line m @ LF # quote_lines (restored (ex_Raw m)) @ [LF]"
  using quote_lines_close [of "ex_Raw m"] by (auto simp: WriteMboxrd_def separator_line_def restored_def Let_def)

lemma no_control_LF: "\<not> space_or_control (map of_char s) \<Longrightarrow> LF \<notin> set s"
proof (induction s)
  case (Cons c s)
  have "of_char LF = (10 :: nat)" by code_simp
  thus ?case using Cons by auto
qed simp

lemma separator_no_LF: "LF \<notin> set (ex_At m) \<Longrightarrow> LF \<notin> set (separator_line m)"
proof -
  assume "LF \<notin> set (ex_At m)"
  moreover have "LF \<notin> set ''From ''" "LF \<notin> set ''MAILER-DAEMON''" "LF \<notin> set '' ''" by code_simp+
  ultimately show ?thesis using no_control_LF [of "ex_Sender m"] by (auto simp: separator_line_def)
qed

text \<open>The messages handed over in turn, until one is refused.\<close>

fun run_each :: "('e, 's) each \<Rightarrow> string list \<Rightarrow> 's \<Rightarrow> 'e option \<times> 's" where
  "run_each each [] \<sigma> = (None, \<sigma>)"
| "run_each each (r # rs) \<sigma> = (case each r True \<sigma> of (Some e, \<sigma>') \<Rightarrow> (Some e, \<sigma>') | (None, \<sigma>') \<Rightarrow> run_each each rs \<sigma>')"

lemma separator_prefix: "has_prefix (separator_line m @ r) ''From ''" "has_prefix (take mbox_buffer (separator_line m)) ''From ''"
proof -
  obtain x where x: "separator_line m = ''From '' @ x" by (simp add: separator_line_def)
  show "has_prefix (separator_line m @ r) ''From ''" by (simp add: x)
  have b: "length ''From '' \<le> mbox_buffer" by (simp add: mbox_buffer_def)
  have "take mbox_buffer (''From '' @ x) = ''From '' @ take (mbox_buffer - length ''From '') x" by (simp only: take_append take_all [OF b])
  thus "has_prefix (take mbox_buffer (separator_line m)) ''From ''" unfolding x has_prefix_append_iff by blast
qed

lemma read_separator:
  assumes "LF \<notin> set (ex_At m)" "mx_lineStart st" "mx_prevBlank st"
  shows "read_loop limit each st (separator_line m @ LF # t) \<sigma> =
     (case flush_msg each st \<sigma> of (Some e, \<sigma>') \<Rightarrow> (Some e, \<sigma>') | (None, \<sigma>') \<Rightarrow> read_loop limit each (reading [] True False) t \<sigma>')"
proof -
  note no = separator_no_LF [OF assms(1)]
  obtain chunk e rest where r: "ReadSlice (separator_line m @ LF # t) = (chunk, e, rest)" and p: "has_prefix chunk ''From ''" and s: "skip_line e rest = (LineEnd, t)"
  proof (cases "length (separator_line m) < mbox_buffer")
    case True
    show thesis by (rule that [OF ReadSlice_line [OF no True] separator_prefix(1)]) (simp add: skip_line.simps)
  next
    case False
    have "LF \<notin> set (drop mbox_buffer (separator_line m))" using no by (auto dest: in_set_dropD)
    from skip_to_LF [OF this, of t] show thesis using False by (intro that [OF ReadSlice_full [OF no] separator_prefix(2)]) simp_all
  qed
  have "separator st chunk" using assms(2,3) p by (auto simp: separator_def)
  thus ?thesis by (simp add: read_loop.simps [of limit each st "separator_line m @ LF # t"] r s Let_def split: prod.split option.split)
qed

lemma flush_done: "r \<noteq> [] \<and> last r = LF \<Longrightarrow> flush_msg each (reading (r @ [LF]) ls pb) \<sigma> = each r True \<sigma>"
proof -
  assume "r \<noteq> [] \<and> last r = LF"
  then obtain r' where r: "r = r' @ [LF]" by (metis append_butlast_last_id)
  have "\<not> has_suffix (r @ [LF]) [LF, CR, LF]" "has_suffix (r @ [LF]) [LF, LF]" by (simp_all add: has_suffix_def r)
  thus ?thesis by (simp add: flush_msg_def)
qed

lemma read_blank:
  assumes "length msg + 1 \<le> limit + 2"
  shows "read_loop limit each (reading msg True pb) (LF # t) \<sigma> = read_loop limit each (reading (msg @ [LF]) True True) t \<sigma>"
proof -
  have r: "ReadSlice (LF # t) = ([LF], LineEnd, t)" using ReadSlice_line [of "[]" t] by simp
  have "\<not> from_line [LF]" by code_simp
  hence u: "unquote True [LF] = [LF]" by (rule unquote_plain)
  have "\<not> has_prefix [LF] ''From ''" by code_simp
  hence "read_loop limit each (reading msg True pb) (LF # t) \<sigma> = read_loop limit each (take_chunk limit (reading msg True pb) [LF]) t \<sigma>"
    by (intro read_loop_chunk [OF r]) (auto simp: separator_def)
  thus ?thesis using assms by (simp add: take_chunk_within u)
qed

definition transferable :: "nat \<Rightarrow> export_message \<Rightarrow> bool" where
  "transferable limit m \<longleftrightarrow> LF \<notin> set (ex_At m) \<and> length (ex_Raw m) \<le> limit \<and> quotes_fit (ex_Raw m)"

lemma read_file:
  assumes "\<forall>m \<in> set ms. transferable limit m" "mx_lineStart st" "mx_prevBlank st"
  shows "read_loop limit each st (concat (map WriteMboxrd ms)) \<sigma> =
     (case flush_msg each st \<sigma> of (Some e, \<sigma>') \<Rightarrow> (Some e, \<sigma>') | (None, \<sigma>') \<Rightarrow> run_each each (map (\<lambda>m. restored (ex_Raw m)) ms) \<sigma>')"
  using assms
proof (induction ms arbitrary: st \<sigma>)
  case Nil
  have "ReadSlice [] = ([], EndOfFile, [])" by (simp add: ReadSlice_def)
  thus ?case by (simp add: read_loop.simps [of limit each st "[]"] separator_def take_chunk_def split: prod.split option.split)
next
  case (Cons m ms)
  let ?r = "restored (ex_Raw m)" and ?t = "concat (map WriteMboxrd ms)"
  have m: "LF \<notin> set (ex_At m)" "length (ex_Raw m) \<le> limit" "quotes_fit (ex_Raw m)" using Cons.prems(1) by (auto simp: transferable_def)
  have len: "length ?r \<le> limit + 1" using m(2) by (simp add: restored_def)
  have body: "read_loop limit each (reading [] True False) (quote_lines ?r @ LF # ?t) \<sigma>' = run_each each (?r # map (\<lambda>m. restored (ex_Raw m)) ms) \<sigma>'" for \<sigma>'
  proof -
    obtain pb where "read_loop limit each (reading [] True False) (quote_lines ?r @ LF # ?t) \<sigma>' = read_loop limit each (reading ([] @ ?r) True pb) (LF # ?t) \<sigma>'"
      using read_body [of ?r "[]" limit each False "LF # ?t" \<sigma>'] restored_last [of "ex_Raw m"] restored_fit [OF m(3)] len by auto
    also have "\<dots> = read_loop limit each (reading (?r @ [LF]) True True) ?t \<sigma>'" using len by (simp add: read_blank)
    also have "\<dots> = (case flush_msg each (reading (?r @ [LF]) True True) \<sigma>' of (Some e, \<sigma>'') \<Rightarrow> (Some e, \<sigma>'')
        | (None, \<sigma>'') \<Rightarrow> run_each each (map (\<lambda>m. restored (ex_Raw m)) ms) \<sigma>'')"
      using Cons.prems(1) by (intro Cons.IH) simp_all
    finally show ?thesis by (simp add: flush_done [OF restored_last])
  qed
  have "concat (map WriteMboxrd (m # ms)) = separator_line m @ LF # (quote_lines ?r @ LF # ?t)" by (simp add: WriteMboxrd_eq [of m])
  thus ?case using read_separator [OF m(1) Cons.prems(2,3), of limit each "quote_lines ?r @ LF # ?t" \<sigma>] by (simp only: body list.map)
qed

lemma readMbox_written:
  assumes "\<forall>m \<in> set ms. transferable limit m"
  shows "readMbox limit each (concat (map WriteMboxrd ms)) \<sigma> = run_each each (map (\<lambda>m. restored (ex_Raw m)) ms) \<sigma>"
  unfolding readMbox_def by (subst read_file [OF assms]) (simp_all add: flush_msg_def)

lemma run_each_valid:
  assumes "\<forall>r \<in> set rs. valid r" "seen + length rs \<le> maxMessages"
  shows "run_each (each_valid valid maxMessages (\<lambda>raw \<sigma>. (None, g raw \<sigma>))) rs (seen, skipped, \<sigma>) = (None, seen + length rs, skipped, fold g rs \<sigma>)"
  using assms by (induction rs arbitrary: seen \<sigma>) (simp_all add: each_valid_def)

lemma written_not_zip: "take 5 (WriteMboxrd m @ r) = ''From ''" "\<not> has_prefix (WriteMboxrd m @ r) (CHR ''P'' # p)"
  by (simp_all add: WriteMboxrd_eq separator_line_def)

text \<open>A quoted separator whose quotes fill the buffer is not recognised, and keeps the quote that the writer added.\<close>

lemma long_quote_kept:
  assumes "raw = replicate n (CHR ''>'') @ ''From '' @ x @ [LF]" "mbox_buffer \<le> n" "LF \<notin> set x" "length raw \<le> limit" "ex_Raw m = raw" "LF \<notin> set (ex_At m)"
  shows "readMbox limit each (WriteMboxrd m) \<sigma> = each (CHR ''>'' # raw) True \<sigma>"
proof -
  define b where "b = replicate n (CHR ''>'') @ ''From '' @ x"
  have raw: "raw = b @ [LF]" by (simp add: assms(1) b_def)
  have LFb: "LF \<notin> set b" using assms(3) by (auto simp: b_def)
  have "from_line b" unfolding b_def from_line_iff by blast
  hence q: "quote_line b = CHR ''>'' # b" by (simp add: quote_line_def)
  let ?q = "CHR ''>'' # b"
  let ?c = "take mbox_buffer ?q" and ?d = "drop mbox_buffer ?q"
  have LFq: "LF \<notin> set ?q" using LFb by auto
  have long: "mbox_buffer \<le> length ?q" using assms(2) by (simp add: b_def)
  have "?q = replicate (Suc n) (CHR ''>'') @ ''From '' @ x" by (simp add: b_def)
  hence c: "?c = replicate mbox_buffer (CHR ''>'')" using assms(2) by (simp del: replicate_Suc add: min_def)
  have "dropWhile (\<lambda>c. c = CHR ''>'') (replicate k (CHR ''>'')) = []" for k by (induction k) simp_all
  hence nf: "\<not> from_line ?c" unfolding c from_line_def by simp
  have c1: "?c \<noteq> []" by (simp add: c)
  have "LF \<notin> set ?c" using LFq by (auto dest: in_set_takeD)
  from no_LF_last [OF this c1] have c2: "last ?c \<noteq> LF" .
  have len: "length ?c + length ?d = length raw" by (simp add: raw)
  have W: "WriteMboxrd m = separator_line m @ LF # (?q @ LF # [LF])"
    using LFb assms(5) quote_lines_LF [OF LFb, of "[]"] by (simp add: WriteMboxrd_eq restored_def raw quote_line_LF q quote_lines.simps [of "[]"])
  have "\<not> separator (reading [] True False) ?c" by (simp add: separator_def)
  hence "read_loop limit each (reading [] True False) (?q @ LF # [LF]) \<sigma> = read_loop limit each (take_chunk limit (reading [] True False) ?c) (?d @ LF # [LF]) \<sigma>"
    by (intro read_loop_chunk [OF ReadSlice_full [OF LFq long]]) auto
  also have "take_chunk limit (reading [] True False) ?c = reading ([] @ ?c) False False"
    using c1 c2 len assms(4) by (subst take_chunk_within) (auto simp: unquote_plain [OF nf])
  also have "read_loop limit each (reading ([] @ ?c) False False) (?d @ LF # [LF]) \<sigma> = read_loop limit each (reading (([] @ ?c) @ ?d @ [LF]) True False) [LF] \<sigma>"
    using LFq len assms(4) by (intro read_rest_of_line) (auto dest: in_set_dropD)
  also have "([] @ ?c) @ ?d @ [LF] = CHR ''>'' # raw" unfolding raw by (metis append_Cons append_Nil append.assoc append_take_drop_id)
  also have "read_loop limit each (reading (CHR ''>'' # raw) True False) [LF] \<sigma> = read_loop limit each (reading ((CHR ''>'' # raw) @ [LF]) True True) [] \<sigma>"
    using assms(4) by (intro read_blank) simp
  also have "\<dots> = flush_msg each (reading ((CHR ''>'' # raw) @ [LF]) True True) \<sigma>"
  proof -
    have "ReadSlice [] = ([], EndOfFile, [])" by (simp add: ReadSlice_def)
    thus ?thesis by (simp add: read_loop.simps [of limit each _ "[]"] separator_def take_chunk_def)
  qed
  also have "\<dots> = each (CHR ''>'' # raw) True \<sigma>" by (rule flush_done) (simp add: raw)
  finally show ?thesis
    unfolding readMbox_def W by (subst read_separator [OF assms(6)]) (simp_all add: flush_msg_def)
qed

section \<open>Property\<close>

text \<open>
  C15: What is exported comes back. The mbox file of an export, read again as an upload, hands over exactly the bytes of
  the live messages of the folders, folder by folder in the order of their numbers; none is skipped, split, joined
  or changed, whatever lines it holds, save that a message without a final line end gets one. A line that needs
  quoting must have fewer than 65531 quotes, each message must be valid for an import as it comes back, and there
  must not be too many.
\<close>

theorem mbox_roundtrip:
  assumes "\<And>d. LF \<notin> set (date d)"
    and "raws = concat (map (\<lambda>f. map (\<lambda>i. the (sm_Raw (ms_Messages s ! (i - 1)))) (live_ids s f)) folders)"
    and "\<forall>raw \<in> set raws. length raw \<le> limit \<and> quotes_fit raw \<and> valid (restored raw)"
    and "raws \<noteq> []" "length raws \<le> maxMessages"
  shows "ReadImport readZip valid limit maxMessages (\<lambda>raw \<sigma>. (None, g raw \<sigma>)) (concat (map WriteMboxrd (Export date s folders))) \<sigma> =
     (None, length raws, 0, fold g (map restored raws) \<sigma>)"
proof -
  let ?ms = "Export date s folders"
  have raws: "map ex_Raw ?ms = raws" unfolding assms(2) Export_def by (induction folders) (simp_all add: export_raw)
  have at: "\<exists>d. ex_At m = date d" if "m \<in> set ?ms" for m
    using that by (auto simp: Export_def export_pages_all List.map_filter_def export_of_def split: option.splits)
  have "\<forall>m \<in> set ?ms. transferable limit m"
    using at assms(1,3) raws by (auto simp: transferable_def) (metis image_eqI set_map)+
  hence read: "readMbox limit each (concat (map WriteMboxrd ?ms)) \<tau> = run_each each (map restored raws) \<tau>" for each \<tau>
    using readMbox_written [of ?ms limit each \<tau>] raws by (simp add: comp_def flip: raws)
  obtain m ms where ms: "?ms = m # ms" using assms(4) raws by (cases ?ms) auto
  have f: "concat (map WriteMboxrd ?ms) = WriteMboxrd m @ concat (map WriteMboxrd ms)" by (simp add: ms)
  have "ReadImport readZip valid limit maxMessages (\<lambda>raw \<sigma>. (None, g raw \<sigma>)) (concat (map WriteMboxrd ?ms)) \<sigma> =
      readMbox limit (each_valid valid maxMessages (\<lambda>raw \<sigma>. (None, g raw \<sigma>))) (concat (map WriteMboxrd ?ms)) (0, 0, \<sigma>)"
    unfolding ReadImport_def Let_def f using written_not_zip [of m "concat (map WriteMboxrd ms)"] by simp
  also have "\<dots> = (None, 0 + length (map restored raws), 0, fold g (map restored raws) \<sigma>)"
    unfolding read using assms(3,5) by (intro run_each_valid) auto
  finally show ?thesis by simp
qed

definition sample_line :: string where "sample_line = ''From x'' @ [LF]"

definition sample_mail :: mail_store where
  "sample_mail = store_message (new_message demo_lib ''t'' ''INBOX'' sample_line False None) new_store"

theorem mbox_roundtrip_witness:
  "ReadImport (\<lambda>file each st. (None, st)) (\<lambda>raw. True) 20 5 (\<lambda>raw \<sigma>. (None, \<sigma> @ [raw]))
     (concat (map WriteMboxrd (Export (\<lambda>d. ''Mon'') sample_mail [''INBOX'']))) [] = (None, 1, 0, [''From x'' @ [LF]])"
proof -
  let ?raws = "concat (map (\<lambda>f. map (\<lambda>i. the (sm_Raw (ms_Messages sample_mail ! (i - 1)))) (live_ids sample_mail f)) [''INBOX''])"
  have raws: "?raws = [sample_line]"
    by (simp add: sample_mail_def live_ids_def live_in_def live_msg_def msg_at_def store_message_def new_message_def new_store_def)
  have "LF \<notin> set ''From x''" by code_simp
  hence "quotes_fit (''From x'' @ LF # [])" unfolding quotes_fit_LF [OF \<open>LF \<notin> set ''From x''\<close>]
    by (simp add: quotes_fit.simps [of "[]"] quote_fits_def mbox_buffer_def)
  hence "quotes_fit sample_line" by (simp only: sample_line_def)
  moreover have "LF \<notin> set ''Mon''" by code_simp
  ultimately show ?thesis
    using mbox_roundtrip [OF _ refl, of "\<lambda>d. ''Mon''" sample_mail "[''INBOX'']" 20 "\<lambda>raw. True" 5 "\<lambda>file each st. (None, st)" "\<lambda>raw \<sigma>. \<sigma> @ [raw]" "[]", unfolded raws]
    by (simp add: restored_def sample_line_def)
qed

end
