(* ===== verification/Ingress_Store.thy ===== *)
theory Ingress_Store
  imports Mailbox_Store
begin

text \<open>
  The holding store of the inbound gateway, \<open>backend/internal/ingress/store.go\<close> and \<open>capacity.go\<close>: routes,
  accepted deliveries with their frozen recipients, and the tombstones of those that have ended.

  A table is the list of its rows under their primary keys; the bindings of a delivery stand in its row, with
  which they are deleted. A delivery has the row number of SQLite. Every operation is one transaction: it says
  what it returns and leaves the store as it was unless it commits. Its surroundings are an \<open>ingress_env\<close>: the
  clock, whether the database carries the transaction out, and the state of the disk before it and during it.
  Digests and the parser of addresses are those of \<open>mail_lib\<close>; an address that equals its own parse has no
  display name.
\<close>

section \<open>Data\<close>

record ingress_limits =
  il_MessageBytes :: int
  il_PayloadBytes :: int
  il_Records :: int

definition ReceivingLimits :: ingress_limits where
  "ReceivingLimits = \<lparr>il_MessageBytes = 25 * 2 ^ 20, il_PayloadBytes = 512 * 2 ^ 20, il_Records = 10000\<rparr>"

text \<open>A route as it is written; the zero time is \<open>None\<close>. \<open>route_row\<close> is what its address maps to.\<close>

record route_row =
  rt_Issuer :: string
  rt_Subject :: string
  rt_Mailbox :: string
  rt_Generation :: int
  rt_Active :: bool
  rt_valid_until :: int

record Route =
  ro_Address :: string
  ro_Issuer :: string
  ro_Subject :: string
  ro_Mailbox :: string
  ro_Generation :: int
  ro_Active :: bool
  ro_ValidUntil :: "int option"

record Binding =
  bd_Address :: string
  bd_Issuer :: string
  bd_Subject :: string
  bd_Mailbox :: string
  bd_Generation :: int

datatype held_state = Staged | Pending | Quarantined | Imported_legacy

datatype disposition = Imported | Released | Discarded | Partially_released

record held =
  hd_rowid :: nat
  hd_sender :: string
  hd_created :: int
  hd_digest :: string
  hd_raw :: "string option"
  hd_state :: held_state
  hd_lease :: string
  hd_lease_until :: int
  hd_bindings :: "Binding list"

record tombstone =
  tb_sender :: string
  tb_digest :: string
  tb_recipients :: string
  tb_archived_at :: int
  tb_disposition :: disposition

type_synonym delivery_key = "string \<times> string"

record holding =
  hs_Limits :: ingress_limits
  hs_Routes :: "route_row table"
  hs_Deliveries :: "(delivery_key \<times> held) list"
  hs_Archived :: "(delivery_key \<times> tombstone) list"

record Delivery =
  dv_Gateway :: string
  dv_ID :: string
  dv_Sender :: string
  dv_Digest :: string
  dv_Raw :: string
  dv_State :: "held_state option"
  dv_Bindings :: "Binding list"
  dv_Lease :: string
  dv_Disposition :: "disposition option"

datatype ingress_error =
  IngressConflict | IngressCapacity | ErrRoute | ErrRoutingStale | ErrLease | ErrNotQuarantined |
  ErrLimits | IngressInvalid | IngressStorage | IngressCanceled | IngressNoRows | IngressDbError

section \<open>Room on the disk\<close>

datatype file_stat = Absent | Unreadable | Special | Regular int

record volume =
  vo_canceled :: bool
  vo_page_size :: int
  vo_files :: "file_stat list"
  vo_statfs :: "(int \<times> int) option"
  vo_checkpoint :: bool
  vo_busy :: bool
  vo_drive :: "int \<Rightarrow> bool"

definition MaxInt64 :: int where "MaxInt64 = 2 ^ 63 - 1"

text \<open>The sizes of the database, its log and its index; only the first must be there.\<close>

fun physical_sum :: "bool \<Rightarrow> int \<Rightarrow> file_stat list \<Rightarrow> int option" where
  "physical_sum db acc [] = Some acc"
| "physical_sum db acc (f # fs) =
     (if \<not> db \<and> f = Absent then physical_sum False acc fs
      else (case f of
              Regular n \<Rightarrow> if n < 0 \<or> n > MaxInt64 - acc then None else physical_sum False (acc + n) fs
            | _ \<Rightarrow> None))"

definition physicalBytes :: "volume \<Rightarrow> int option" where
  "physicalBytes v = physical_sum True 0 (vo_files v)"

definition receivingFreeSpace :: "volume \<Rightarrow> int \<Rightarrow> ingress_error option" where
  "receivingFreeSpace v required =
     (case vo_statfs v of
        None \<Rightarrow> Some IngressStorage
      | Some (bsize, bavail) \<Rightarrow>
          if bsize \<le> 0 then Some IngressStorage
          else (let blocks = required div bsize + (if required mod bsize \<noteq> 0 then 1 else 0) in
                if bavail < blocks then Some IngressCapacity else None))"

definition checkpointHeadroom :: "volume \<Rightarrow> ingress_error option" where
  "checkpointHeadroom v =
     (case vo_files v of
        _ # Absent # _ \<Rightarrow> receivingFreeSpace v (16 * 2 ^ 20)
      | _ # Regular n # _ \<Rightarrow> if n < 0 then Some IngressStorage else receivingFreeSpace v (n + 16 * 2 ^ 20)
      | _ \<Rightarrow> Some IngressStorage)"

definition physicalLimit :: "ingress_limits \<Rightarrow> int" where
  "physicalLimit lim = max (32 * 2 ^ 20) (4 * il_PayloadBytes lim + il_Records lim * (32 * 2 ^ 10))"

definition reserve_mark :: "ingress_limits \<Rightarrow> int" where
  "reserve_mark lim = physicalLimit lim - 2 * il_MessageBytes lim - 2 * 2 ^ 20"

definition admissionTx :: "ingress_limits \<Rightarrow> volume \<Rightarrow> ingress_error option" where
  "admissionTx lim v =
     (case physicalBytes v of
        None \<Rightarrow> Some IngressStorage
      | Some used \<Rightarrow>
          if used \<ge> reserve_mark lim \<and> checkpointHeadroom v = None then
            (if \<not> vo_checkpoint v then Some IngressStorage
             else if vo_busy v \<and> vo_canceled v then Some IngressCanceled else None)
          else None)"

text \<open>A page size is a power of two of at least 512 bytes and at most 65536.\<close>

definition page_sizes :: "int list" where
  "page_sizes = [512, 1024, 2048, 4096, 8192, 16384, 32768, 65536]"

definition checkAdmission :: "ingress_limits \<Rightarrow> volume \<Rightarrow> int \<Rightarrow> ingress_error option" where
  "checkAdmission lim v payload =
     (if vo_canceled v then Some IngressCanceled
      else if vo_page_size v \<notin> set page_sizes \<or> payload < 0 \<or> payload > il_MessageBytes lim then Some IngressStorage
      else
        (let growth = 32 * vo_page_size v + 2 * payload in
         case physicalBytes v of
           None \<Rightarrow> Some IngressStorage
         | Some used \<Rightarrow>
             if used > physicalLimit lim - growth then Some IngressCapacity
             else if used \<ge> reserve_mark lim \<and> checkpointHeadroom v \<noteq> None then checkpointHeadroom v
             else
               (case receivingFreeSpace v (16 * 2 ^ 20 + growth) of
                  Some e \<Rightarrow> Some e
                | None \<Rightarrow> if vo_drive v growth then None else Some IngressCapacity)))"

section \<open>Transactions\<close>

record ingress_env =
  en_now :: time
  en_db :: bool
  en_before :: volume
  en_volume :: volume

definition unix :: "time \<Rightarrow> int" where "unix t = t div second"

type_synonym 'r outcome = "(ingress_error, 'r) result \<times> holding"

definition transact :: "ingress_env \<Rightarrow> (holding \<Rightarrow> 'r outcome) \<Rightarrow> holding \<Rightarrow> 'r outcome" where
  "transact env body s = (if en_db env then body s else (Inl IngressDbError, s))"

definition admitted :: "ingress_limits \<Rightarrow> ingress_env \<Rightarrow> (holding \<Rightarrow> 'r outcome) \<Rightarrow> holding \<Rightarrow> 'r outcome" where
  "admitted lim env body s = (case admissionTx lim (en_before env) of Some e \<Rightarrow> (Inl e, s) | None \<Rightarrow> transact env body s)"

text \<open>Statements on one delivery.\<close>

definition held_at :: "holding \<Rightarrow> delivery_key \<Rightarrow> held option" where
  "held_at s k = map_of (hs_Deliveries s) k"

definition next_rowid :: "holding \<Rightarrow> nat" where
  "next_rowid s = (if hs_Deliveries s = [] then 1 else Max (set (map (hd_rowid \<circ> snd) (hs_Deliveries s))) + 1)"

definition insert_held :: "delivery_key \<Rightarrow> held \<Rightarrow> holding \<Rightarrow> holding" where
  "insert_held k d s = s\<lparr>hs_Deliveries := hs_Deliveries s @ [(k, d\<lparr>hd_rowid := next_rowid s\<rparr>)]\<rparr>"

definition put_held :: "delivery_key \<Rightarrow> held \<Rightarrow> holding \<Rightarrow> holding" where
  "put_held k d s = s\<lparr>hs_Deliveries := map (\<lambda>(k', d'). (k', if k' = k then d else d')) (hs_Deliveries s)\<rparr>"

definition delete_held :: "delivery_key \<Rightarrow> holding \<Rightarrow> holding" where
  "delete_held k s = s\<lparr>hs_Deliveries := filter (\<lambda>(k', d'). k' \<noteq> k) (hs_Deliveries s)\<rparr>"

definition readBindings :: "held \<Rightarrow> Binding list" where
  "readBindings d = sort_key bd_Address (hd_bindings d)"

text \<open>The recipients of a tombstone, one per line; SQL has no such text when there are none.\<close>

definition tomb_of :: "int \<Rightarrow> disposition \<Rightarrow> held \<Rightarrow> tombstone" where
  "tomb_of at disp d =
     \<lparr>tb_sender = hd_sender d, tb_digest = hd_digest d, tb_recipients = join [LF] (map bd_Address (readBindings d)),
      tb_archived_at = at, tb_disposition = disp\<rparr>"

definition archive :: "int \<Rightarrow> disposition \<Rightarrow> delivery_key \<Rightarrow> held \<Rightarrow> holding \<Rightarrow> unit outcome" where
  "archive at disp k d s =
     (if map_of (hs_Archived s) k \<noteq> None \<or> hd_bindings d = [] then (Inl IngressDbError, s)
      else (Inr (), delete_held k (s\<lparr>hs_Archived := hs_Archived s @ [(k, tomb_of at disp d)]\<rparr>)))"

fun split_lines :: "string \<Rightarrow> string \<Rightarrow> string list" where
  "split_lines acc [] = [acc]"
| "split_lines acc (c # cs) = (if c = LF then acc # split_lines [] cs else split_lines (acc @ [c]) cs)"

definition archivedDelivery :: "holding \<Rightarrow> delivery_key \<Rightarrow> (tombstone \<times> string list) option" where
  "archivedDelivery s k =
     (case map_of (hs_Archived s) k of None \<Rightarrow> None | Some t \<Rightarrow> Some (t, split_lines [] (tb_recipients t)))"

section \<open>Opening\<close>

definition limits_valid :: "ingress_limits \<Rightarrow> bool" where
  "limits_valid lim \<longleftrightarrow>
     \<not> (il_MessageBytes lim \<le> 0 \<or> il_MessageBytes lim > 64 * 2 ^ 20 \<or> il_PayloadBytes lim < il_MessageBytes lim \<or> il_Records lim \<le> 0 \<or>
        il_PayloadBytes lim > MaxInt64 div 4 \<or> il_Records lim > (MaxInt64 - 4 * il_PayloadBytes lim) div (32 * 2 ^ 10))"

definition raisableTo :: "ingress_limits \<Rightarrow> ingress_limits \<Rightarrow> bool" where
  "raisableTo l c \<longleftrightarrow> il_MessageBytes l \<le> il_MessageBytes c \<and> il_PayloadBytes l \<le> il_PayloadBytes c \<and> il_Records l \<le> il_Records c"

definition adoptLimits :: "ingress_limits \<Rightarrow> holding \<Rightarrow> unit outcome" where
  "adoptLimits lim s =
     (if hs_Limits s = lim then (Inr (), s)
      else if \<not> raisableTo (hs_Limits s) lim then (Inl ErrLimits, s)
      else (Inr (), s\<lparr>hs_Limits := lim\<rparr>))"

definition migrateArchive :: "time \<Rightarrow> holding \<Rightarrow> holding" where
  "migrateArchive now s =
     s\<lparr>hs_Archived := hs_Archived s @
          map (\<lambda>(k, d). (k, tomb_of (unix now) Imported d))
            (filter (\<lambda>(k, d). hd_state d = Imported_legacy \<and> map_of (hs_Archived s) k = None \<and> hd_bindings d \<noteq> []) (hs_Deliveries s)),
       hs_Deliveries := filter (\<lambda>(k, d). hd_state d \<noteq> Imported_legacy) (hs_Deliveries s)\<rparr>"

definition new_holding :: "ingress_limits \<Rightarrow> holding" where
  "new_holding lim = \<lparr>hs_Limits = lim, hs_Routes = [], hs_Deliveries = [], hs_Archived = []\<rparr>"

text \<open>\<open>stored\<close> is the database in the directory, if it has one; without one, only initialization makes it.\<close>

definition Open_ingress :: "bool \<Rightarrow> time \<Rightarrow> ingress_limits \<Rightarrow> bool \<Rightarrow> holding option \<Rightarrow> (ingress_error, unit) result \<times> holding option" where
  "Open_ingress db now lim existing stored =
     (if \<not> limits_valid lim then (Inl IngressInvalid, stored)
      else if \<not> db then (Inl IngressDbError, stored)
      else
        (case stored of
           None \<Rightarrow> if existing then (Inl IngressDbError, None) else (Inr (), Some (migrateArchive now (new_holding lim)))
         | Some s \<Rightarrow>
             (case adoptLimits lim s of
                (Inl e, s') \<Rightarrow> (Inl e, Some s')
              | (Inr _, s') \<Rightarrow> (Inr (), Some (migrateArchive now s')))))"

definition HeldBytes :: "holding \<Rightarrow> string \<Rightarrow> int" where
  "HeldBytes s mb =
     (\<Sum>(k, d) \<leftarrow> filter (\<lambda>(k, d). hd_state d = Pending) (hs_Deliveries s).
        (\<Sum>b \<leftarrow> filter (\<lambda>b. bd_Mailbox b = mb) (hd_bindings d). int (case hd_raw d of None \<Rightarrow> 0 | Some raw \<Rightarrow> length raw)))"

section \<open>Routes\<close>

definition address :: "mail_lib \<Rightarrow> string \<Rightarrow> bool \<Rightarrow> bool" where
  "address lib v allowEmpty \<longleftrightarrow> allowEmpty \<and> v = [] \<or> length v \<le> 320 \<and> \<not> has_line_break v \<and> ParseAddress lib v = Some v"

definition ValidIdentifier :: "string \<Rightarrow> bool" where
  "ValidIdentifier v \<longleftrightarrow> v \<noteq> [] \<and> length v \<le> 256 \<and> \<not> has_line_break v"

definition same_owner :: "Route \<Rightarrow> route_row \<Rightarrow> bool" where
  "same_owner r old \<longleftrightarrow> ro_Issuer r = rt_Issuer old \<and> ro_Subject r = rt_Subject old \<and> ro_Mailbox r = rt_Mailbox old \<and> ro_Active r = rt_Active old"

definition setRoute :: "mail_lib \<Rightarrow> ingress_limits \<Rightarrow> ingress_env \<Rightarrow> bool \<Rightarrow> Route \<Rightarrow> holding \<Rightarrow> unit outcome" where
  "setRoute lib lim env recovery r s =
     (case ro_ValidUntil r of
        None \<Rightarrow> (Inl ErrRoute, s)
      | Some until \<Rightarrow>
          if \<not> address lib (ro_Address r) False \<or> \<not> ValidIdentifier (ro_Issuer r) \<or> \<not> ValidIdentifier (ro_Subject r) \<or> \<not> ValidIdentifier (ro_Mailbox r) \<or>
             ro_Generation r \<le> 0
          then (Inl ErrRoute, s)
          else (if recovery then transact env else admitted lim env) (\<lambda>s.
            let old = map_of (hs_Routes s) (ro_Address r);
                row = \<lparr>rt_Issuer = ro_Issuer r, rt_Subject = ro_Subject r, rt_Mailbox = ro_Mailbox r, rt_Generation = ro_Generation r,
                       rt_Active = ro_Active r, rt_valid_until = until\<rparr>;
                behind = (case old of None \<Rightarrow> False
                          | Some o' \<Rightarrow> ro_Generation r < rt_Generation o' \<or> ro_Generation r = rt_Generation o' \<and> \<not> same_owner r o');
                unchanged = (case old of None \<Rightarrow> False | Some o' \<Rightarrow> same_owner r o' \<and> ro_Generation r = rt_Generation o') in
            if behind \<or> recovery \<and> \<not> unchanged then (Inl IngressConflict, s)
            else
              (case (if recovery then None else checkAdmission lim (en_volume env) 0) of
                 Some e \<Rightarrow> (Inl e, s)
               | None \<Rightarrow>
                   if old = None \<and> int (length (hs_Routes s)) \<ge> il_Records lim then (Inl IngressCapacity, s)
                   else (Inr (), s\<lparr>hs_Routes := AList.update (ro_Address r) row (hs_Routes s)\<rparr>))) s)"

fun deactivate :: "(string \<times> int) list \<Rightarrow> route_row table \<Rightarrow> route_row table option" where
  "deactivate [] rs = Some rs"
| "deactivate ((a, g) # gs) rs =
     (case map_of rs a of
        None \<Rightarrow> deactivate gs rs
      | Some old \<Rightarrow>
          if rt_Generation old = g \<and> \<not> rt_Active old then deactivate gs rs
          else if rt_Generation old > g then None
          else deactivate gs (AList.update a (old\<lparr>rt_Generation := g, rt_Active := False\<rparr>) rs))"

text \<open>A database that is not there has nothing to deactivate: \<open>s\<close> is the one that is.\<close>

definition DeactivateRoutes :: "ingress_env \<Rightarrow> (string \<times> int) list \<Rightarrow> holding \<Rightarrow> unit outcome" where
  "DeactivateRoutes env gens s =
     (if gens = [] then (Inr (), s)
      else transact env (\<lambda>s. case deactivate gens (hs_Routes s) of
                                None \<Rightarrow> (Inl IngressConflict, s) | Some rs \<Rightarrow> (Inr (), s\<lparr>hs_Routes := rs\<rparr>)) s)"

section \<open>Receiving\<close>

definition fresh_held :: "string \<Rightarrow> time \<Rightarrow> held" where
  "fresh_held sender now =
     \<lparr>hd_rowid = 0, hd_sender = sender, hd_created = unix now, hd_digest = [], hd_raw = None, hd_state = Staged,
      hd_lease = [], hd_lease_until = 0, hd_bindings = []\<rparr>"

text \<open>A recipient is bound to the owner its route names now.\<close>

definition bind_new ::
  "ingress_limits \<Rightarrow> ingress_env \<Rightarrow> delivery_key \<Rightarrow> string \<Rightarrow> string \<Rightarrow> held option \<Rightarrow> holding \<Rightarrow> unit outcome" where
  "bind_new lim env k sender recipient old s =
     (case checkAdmission lim (en_volume env) 0 of
        Some e \<Rightarrow> (Inl e, s)
      | None \<Rightarrow>
          (case map_of (hs_Routes s) recipient of
             None \<Rightarrow> (Inl ErrRoute, s)
           | Some r \<Rightarrow>
               if \<not> rt_Active r then (Inl ErrRoute, s)
               else if rt_valid_until r \<le> unix (en_now env) then (Inl ErrRoutingStale, s)
               else if old = None \<and> int (length (hs_Deliveries s)) \<ge> il_Records lim then (Inl IngressCapacity, s)
               else
                 (let d = (case old of None \<Rightarrow> fresh_held sender (en_now env) | Some d \<Rightarrow> d);
                      b = \<lparr>bd_Address = recipient, bd_Issuer = rt_Issuer r, bd_Subject = rt_Subject r, bd_Mailbox = rt_Mailbox r,
                           bd_Generation = rt_Generation r\<rparr>;
                      d' = d\<lparr>hd_bindings := hd_bindings d @ [b]\<rparr> in
                  if length (hd_bindings d) \<ge> 100 then (Inl IngressCapacity, s)
                  else (Inr (), if old = None then insert_held k d' s else put_held k d' s))))"

definition Bind ::
  "mail_lib \<Rightarrow> ingress_limits \<Rightarrow> ingress_env \<Rightarrow> string \<Rightarrow> string \<Rightarrow> string \<Rightarrow> string \<Rightarrow> holding \<Rightarrow> unit outcome" where
  "Bind lib lim env gateway deliveryID sender recipient s =
     (if \<not> ValidIdentifier gateway \<or> \<not> ValidIdentifier deliveryID \<or> \<not> address lib sender True \<or> \<not> address lib recipient False
      then (Inl IngressConflict, s)
      else admitted lim env (\<lambda>s.
        let k = (gateway, deliveryID) in
        case held_at s k of
          None \<Rightarrow>
            (case archivedDelivery s k of
               Some (t, recipients) \<Rightarrow>
                 if tb_sender t \<noteq> sender \<or> recipient \<notin> set recipients then (Inl IngressConflict, s) else (Inr (), s)
             | None \<Rightarrow> bind_new lim env k sender recipient None s)
        | Some d \<Rightarrow>
            if hd_sender d \<noteq> sender then (Inl IngressConflict, s)
            else if recipient \<in> bd_Address ` set (hd_bindings d) then (Inr (), s)
            else if hd_state d \<noteq> Staged then (Inl IngressConflict, s)
            else bind_new lim env k sender recipient (Some d) s) s)"

definition raw_bytes :: "held \<Rightarrow> int" where
  "raw_bytes d = (case hd_raw d of None \<Rightarrow> 0 | Some raw \<Rightarrow> int (length raw))"

definition used_bytes :: "holding \<Rightarrow> int" where
  "used_bytes s = (\<Sum>(k, d) \<leftarrow> hs_Deliveries s. raw_bytes d)"

definition admitPayload :: "ingress_limits \<Rightarrow> ingress_env \<Rightarrow> holding \<Rightarrow> int \<Rightarrow> ingress_error option" where
  "admitPayload lim env s n =
     (case checkAdmission lim (en_volume env) n of
        Some e \<Rightarrow> Some e
      | None \<Rightarrow> if n > il_PayloadBytes lim - used_bytes s then Some IngressCapacity else None)"

text \<open>\<open>data\<close> is what the reader gives: no more than one byte past the limit is read of it.\<close>

definition Accept ::
  "mail_lib \<Rightarrow> ingress_limits \<Rightarrow> ingress_env \<Rightarrow> string \<Rightarrow> string \<Rightarrow> string \<Rightarrow> string \<Rightarrow> holding \<Rightarrow> unit outcome" where
  "Accept lib lim env gateway ident sender raw s =
     (if \<not> ValidIdentifier gateway \<or> \<not> ValidIdentifier ident \<or> \<not> address lib sender True then (Inl IngressConflict, s)
      else
        (let data = take (nat (il_MessageBytes lim + 1)) raw; k = (gateway, ident); digest = hashIncoming lib data in
         if data = [] \<or> int (length data) > il_MessageBytes lim then (Inl IngressCapacity, s)
         else admitted lim env (\<lambda>s.
           case held_at s k of
             None \<Rightarrow>
               (case archivedDelivery s k of
                  None \<Rightarrow> (Inl IngressConflict, s)
                | Some (t, _) \<Rightarrow> if tb_sender t \<noteq> sender \<or> tb_digest t \<noteq> digest then (Inl IngressConflict, s) else (Inr (), s))
           | Some d \<Rightarrow>
               if hd_sender d \<noteq> sender then (Inl IngressConflict, s)
               else if hd_state d \<noteq> Staged then (if hd_digest d \<noteq> digest then Inl IngressConflict else Inr (), s)
               else
                 (case admitPayload lim env s (int (length data)) of
                    Some e \<Rightarrow> (Inl e, s)
                  | None \<Rightarrow> (Inr (), put_held k (d\<lparr>hd_raw := Some data, hd_digest := digest, hd_state := Pending\<rparr>) s))) s))"

definition Unresolved :: "Binding \<Rightarrow> bool" where
  "Unresolved b \<longleftrightarrow> bd_Issuer b = [] \<and> bd_Subject b = [] \<and> bd_Mailbox b = []"

definition unlease :: "held \<Rightarrow> held" where
  "unlease d = d\<lparr>hd_state := Quarantined, hd_lease := [], hd_lease_until := 0\<rparr>"

definition Quarantine ::
  "mail_lib \<Rightarrow> ingress_limits \<Rightarrow> ingress_env \<Rightarrow> string \<Rightarrow> string \<Rightarrow> string \<Rightarrow> Binding \<Rightarrow> string \<Rightarrow> holding \<Rightarrow> unit outcome" where
  "Quarantine lib lim env gateway ident sender b raw s =
     (if \<not> ValidIdentifier gateway \<or> \<not> ValidIdentifier ident \<or> \<not> address lib sender True \<or> \<not> address lib (bd_Address b) False \<or>
         bd_Generation b \<le> 0 \<or>
         \<not> Unresolved b \<and> (\<not> ValidIdentifier (bd_Issuer b) \<or> \<not> ValidIdentifier (bd_Subject b) \<or> \<not> ValidIdentifier (bd_Mailbox b))
      then (Inl IngressConflict, s)
      else if raw = [] \<or> int (length raw) > il_MessageBytes lim then (Inl IngressCapacity, s)
      else
        (let k = (gateway, ident); digest = hashIncoming lib raw in
         admitted lim env (\<lambda>s.
           case held_at s k of
             None \<Rightarrow>
               (case archivedDelivery s k of
                  Some (t, _) \<Rightarrow> if tb_sender t \<noteq> sender \<or> tb_digest t \<noteq> digest then (Inl IngressConflict, s) else (Inr (), s)
                | None \<Rightarrow>
                    if int (length (hs_Deliveries s)) \<ge> il_Records lim then (Inl IngressCapacity, s)
                    else
                      (case admitPayload lim env s (int (length raw)) of
                         Some e \<Rightarrow> (Inl e, s)
                       | None \<Rightarrow>
                           (Inr (), insert_held k
                              ((fresh_held sender (en_now env))
                                 \<lparr>hd_digest := digest, hd_raw := Some raw, hd_state := Quarantined, hd_bindings := [b]\<rparr>) s)))
           | Some d \<Rightarrow>
               if hd_sender d \<noteq> sender then (Inl IngressConflict, s)
               else if hd_state d = Quarantined then (if hd_digest d \<noteq> digest then Inl IngressConflict else Inr (), s)
               else if hd_state d \<noteq> Staged \<or> readBindings d \<noteq> [b] then (Inl IngressConflict, s)
               else
                 (case admitPayload lim env s (int (length raw)) of
                    Some e \<Rightarrow> (Inl e, s)
                  | None \<Rightarrow> (Inr (), put_held k (unlease (d\<lparr>hd_raw := Some raw, hd_digest := digest\<rparr>)) s))) s))"

section \<open>Reading\<close>

definition readDelivery :: "holding \<Rightarrow> delivery_key \<Rightarrow> (ingress_error, Delivery) result" where
  "readDelivery s k =
     (case held_at s k of
        Some d \<Rightarrow>
          Inr \<lparr>dv_Gateway = fst k, dv_ID = snd k, dv_Sender = hd_sender d, dv_Digest = hd_digest d,
               dv_Raw = (case hd_raw d of None \<Rightarrow> [] | Some raw \<Rightarrow> raw), dv_State = Some (hd_state d), dv_Bindings = readBindings d,
               dv_Lease = hd_lease d, dv_Disposition = None\<rparr>
      | None \<Rightarrow>
          (case archivedDelivery s k of
             None \<Rightarrow> Inl IngressNoRows
           | Some (t, _) \<Rightarrow>
               Inr \<lparr>dv_Gateway = fst k, dv_ID = snd k, dv_Sender = tb_sender t, dv_Digest = tb_digest t, dv_Raw = [], dv_State = None,
                    dv_Bindings = [], dv_Lease = [], dv_Disposition = Some (tb_disposition t)\<rparr>))"

definition Get :: "ingress_env \<Rightarrow> delivery_key \<Rightarrow> holding \<Rightarrow> (ingress_error, Delivery) result" where
  "Get env k s = (if en_db env then readDelivery s k else Inl IngressDbError)"

text \<open>A page in the order of the row numbers.\<close>

definition page_of :: "(delivery_key \<times> held \<Rightarrow> bool) \<Rightarrow> nat \<Rightarrow> nat \<Rightarrow> holding \<Rightarrow> (delivery_key \<times> held) list" where
  "page_of P after limit s =
     take limit (sort_key (hd_rowid \<circ> snd) (filter (\<lambda>kd. P kd \<and> hd_rowid (snd kd) > after) (hs_Deliveries s)))"

definition List_ingress :: "ingress_env \<Rightarrow> string \<Rightarrow> int \<Rightarrow> int \<Rightarrow> holding \<Rightarrow> (ingress_error, (nat \<times> string \<times> held_state) list) result" where
  "List_ingress env gateway after limit s =
     (if \<not> ValidIdentifier gateway \<or> after < 0 \<or> limit < 1 \<or> limit > 100 then Inl IngressConflict
      else if \<not> en_db env then Inl IngressDbError
      else Inr (map (\<lambda>(k, d). (hd_rowid d, snd k, hd_state d)) (page_of (\<lambda>(k, d). fst k = gateway) (nat after) (nat limit) s)))"

definition ListQuarantined ::
  "ingress_env \<Rightarrow> int \<Rightarrow> int \<Rightarrow> holding \<Rightarrow> (ingress_error, (nat \<times> delivery_key \<times> string \<times> int \<times> int \<times> Binding list) list) result" where
  "ListQuarantined env after limit s =
     (if after < 0 \<or> limit < 1 \<or> limit > 100 then Inl IngressConflict
      else if \<not> en_db env then Inl IngressDbError
      else Inr (map (\<lambda>(k, d). (hd_rowid d, k, hd_sender d, hd_created d, raw_bytes d, readBindings d))
                  (page_of (\<lambda>(k, d). hd_state d = Quarantined) (nat after) (nat limit) s)))"

section \<open>Claims\<close>

definition current_binding :: "holding \<Rightarrow> int \<Rightarrow> Binding \<Rightarrow> bool" where
  "current_binding s now b =
     (case map_of (hs_Routes s) (bd_Address b) of
        None \<Rightarrow> False
      | Some r \<Rightarrow> rt_Active r \<and> rt_valid_until r > now \<and> rt_Issuer r = bd_Issuer b \<and> rt_Subject r = bd_Subject b \<and>
                  rt_Mailbox r = bd_Mailbox b \<and> rt_Generation r = bd_Generation b)"

definition currentBindings :: "holding \<Rightarrow> int \<Rightarrow> held \<Rightarrow> bool" where
  "currentBindings s now d \<longleftrightarrow> hd_bindings d \<noteq> [] \<and> list_all (current_binding s now) (hd_bindings d)"

definition QuarantinePending :: "ingress_env \<Rightarrow> delivery_key \<Rightarrow> holding \<Rightarrow> unit outcome" where
  "QuarantinePending env k s =
     transact env (\<lambda>s.
       case held_at s k of
         None \<Rightarrow> (Inl ErrLease, s)
       | Some d \<Rightarrow>
           if hd_state d = Pending \<and> (hd_lease d = [] \<or> hd_lease_until d \<le> unix (en_now env))
           then (Inr (), put_held k (unlease d) s) else (Inl ErrLease, s)) s"

text \<open>\<open>uuid\<close> is the new lease, if one could be drawn.\<close>

definition claim ::
  "ingress_env \<Rightarrow> string option \<Rightarrow> delivery_key \<Rightarrow> duration \<Rightarrow> bool \<Rightarrow> holding \<Rightarrow> Delivery outcome" where
  "claim env uuid k dur release s =
     (if dur < second \<or> dur > 5 * minute then (Inl ErrLease, s)
      else transact env (\<lambda>s.
        case readDelivery s k of
          Inl e \<Rightarrow> (Inl e, s)
        | Inr dv \<Rightarrow>
            if dv_State dv \<noteq> Some (if release then Quarantined else Pending) then (Inl ErrLease, s)
            else
              (case held_at s k of
                 None \<Rightarrow> (Inl IngressNoRows, s)
               | Some d \<Rightarrow>
                   if hd_lease_until d > unix (en_now env) then (Inl ErrLease, s)
                   else if \<not> currentBindings s (unix (en_now env)) d \<and> \<not> release then (Inl ErrRoute, put_held k (unlease d) s)
                   else
                     (case uuid of
                        None \<Rightarrow> (Inl IngressStorage, s)
                      | Some lease \<Rightarrow>
                          (Inr (dv\<lparr>dv_Lease := lease\<rparr>),
                           put_held k (d\<lparr>hd_lease := lease, hd_lease_until := unix (en_now env + dur)\<rparr>) s)))) s)"

definition acknowledge :: "ingress_env \<Rightarrow> delivery_key \<Rightarrow> string \<Rightarrow> string \<Rightarrow> bool \<Rightarrow> holding \<Rightarrow> unit outcome" where
  "acknowledge env k lease digest release s =
     (let want = (if release then Quarantined else Pending); disp = (if release then Released else Imported) in
      if lease = [] \<or> digest = [] then (Inl ErrLease, s)
      else transact env (\<lambda>s.
        case held_at s k of
          None \<Rightarrow>
            (case archivedDelivery s k of
               None \<Rightarrow> (Inl ErrLease, s)
             | Some (t, _) \<Rightarrow> if tb_digest t \<noteq> digest \<or> tb_disposition t \<noteq> disp then (Inl ErrLease, s) else (Inr (), s))
        | Some d \<Rightarrow>
            if hd_digest d \<noteq> digest \<or> hd_lease d \<noteq> lease then (Inl ErrLease, s)
            else if hd_state d \<noteq> want \<or> hd_lease_until d \<le> unix (en_now env) then (Inl ErrLease, s)
            else if \<not> currentBindings s (unix (en_now env)) d \<and> \<not> release then (Inl ErrRoute, put_held k (unlease d) s)
            else archive (unix (en_now env)) disp k d s) s)"

definition Discard :: "ingress_env \<Rightarrow> delivery_key \<Rightarrow> holding \<Rightarrow> disposition outcome" where
  "Discard env k s =
     transact env (\<lambda>s.
       case held_at s k of
         None \<Rightarrow>
           (case archivedDelivery s k of
              None \<Rightarrow> (Inl IngressNoRows, s)
            | Some (t, _) \<Rightarrow>
                if tb_disposition t \<noteq> Discarded \<and> tb_disposition t \<noteq> Partially_released then (Inl ErrNotQuarantined, s)
                else (Inr (tb_disposition t), s))
       | Some d \<Rightarrow>
           if hd_state d \<noteq> Quarantined \<or> hd_lease_until d > unix (en_now env) then (Inl ErrNotQuarantined, s)
           else
             (let disp = (if hd_lease d = [] then Discarded else Partially_released) in
              case archive (unix (en_now env)) disp k d s of
                (Inl e, s') \<Rightarrow> (Inl e, s')
              | (Inr _, s') \<Rightarrow> (Inr disp, s'))) s"

definition ResolveQuarantined :: "ingress_env \<Rightarrow> delivery_key \<Rightarrow> Binding \<Rightarrow> holding \<Rightarrow> unit outcome" where
  "ResolveQuarantined env k b s =
     (if Unresolved b \<or> \<not> ValidIdentifier (bd_Issuer b) \<or> \<not> ValidIdentifier (bd_Subject b) \<or> \<not> ValidIdentifier (bd_Mailbox b) \<or>
         bd_Generation b \<le> 0
      then (Inl IngressConflict, s)
      else transact env (\<lambda>s.
        case held_at s k of
          None \<Rightarrow> (Inl ErrNotQuarantined, s)
        | Some d \<Rightarrow>
            if hd_state d \<noteq> Quarantined \<or> hd_lease_until d > unix (en_now env) then (Inl ErrNotQuarantined, s)
            else
              (case readBindings d of
                 [b'] \<Rightarrow>
                   if bd_Address b' \<noteq> bd_Address b \<or> \<not> Unresolved b' \<and> b' \<noteq> b then (Inl IngressConflict, s)
                   else (Inr (), put_held k (d\<lparr>hd_bindings := [b]\<rparr>) s)
               | _ \<Rightarrow> (Inl IngressConflict, s))) s)"

end
