(* ===== verification/Ingress_Import.thy ===== *)
theory Ingress_Import
  imports Ingress_Store Mailbox_Properties
begin

text \<open>
  Delivery of held mail into native mailboxes, \<open>backend/internal/ingress/import.go\<close>, and the world it happens in:
  the holding store, the mailboxes, and any number of importers at work at once.

  \<open>deliver\<close> is the code. Its three stages, the claim, the import for one owner and the acknowledgment, are
  transactions of different databases, so that anything may happen between them; \<open>world_step\<close> takes them one at
  a time. A crash of an importer is an importer that stops.
\<close>

section \<open>One delivery\<close>

record mail_owner =
  ow_Issuer :: string
  ow_Subject :: string
  ow_Mailbox :: string

definition owner_of :: "Binding \<Rightarrow> mail_owner" where
  "owner_of b = \<lparr>ow_Issuer = bd_Issuer b, ow_Subject = bd_Subject b, ow_Mailbox = bd_Mailbox b\<rparr>"

definition group_of :: "Binding list \<Rightarrow> mail_owner \<Rightarrow> (string \<times> int) list" where
  "group_of bs o' = map (\<lambda>b. (bd_Address b, bd_Generation b)) (filter (\<lambda>b. owner_of b = o') bs)"

text \<open>Owners by issuer, then subject, then mailbox.\<close>

definition owners_of :: "Binding list \<Rightarrow> mail_owner list" where
  "owners_of bs = sort_key (\<lambda>o'. [ow_Issuer o', ow_Subject o', ow_Mailbox o']) (remdups (map owner_of bs))"

datatype deliver_error =
  HoldingError ingress_error | MailboxError mail_error | ResolveError | ErrUnprovisioned | ErrOwner

text \<open>What \<open>resolve\<close> answers: an error, no store, or the open store of some owner.\<close>

datatype resolved = ResolveFails | NoStore | Opened mail_owner

type_synonym mailboxes = "mail_owner \<Rightarrow> mail_store option"

definition receipt_for :: "Delivery \<Rightarrow> mail_owner \<Rightarrow> receipt" where
  "receipt_for dv o' =
     \<lparr>rc_Gateway = dv_Gateway dv, rc_Delivery = dv_ID dv, rc_Sender = dv_Sender dv, rc_Recipients = group_of (dv_Bindings dv) o'\<rparr>"

definition import_owner ::
  "mail_lib \<Rightarrow> (mail_owner \<Rightarrow> mailbox_limits) \<Rightarrow> resolved \<times> bool \<times> string \<Rightarrow> Delivery \<Rightarrow> string \<Rightarrow> mail_owner \<Rightarrow> mailboxes
     \<Rightarrow> (deliver_error, unit) result \<times> mailboxes" where
  "import_owner lib mlim answer dv folder o' mail =
     (case answer of (res, db, at) \<Rightarrow>
        case res of
          ResolveFails \<Rightarrow> (Inl ResolveError, mail)
        | NoStore \<Rightarrow> (Inl ErrUnprovisioned, mail)
        | Opened p \<Rightarrow>
            if p \<noteq> o' then (Inl ErrOwner, mail)
            else
              (case mail p of
                 None \<Rightarrow> (Inl ResolveError, mail)
               | Some ms \<Rightarrow>
                   (case Import_mail lib (mlim p) db at (receipt_for dv o') folder (dv_Raw dv) ms of
                      (Inl e, ms') \<Rightarrow> (Inl (MailboxError e), mail(p \<mapsto> ms'))
                    | (Inr _, ms') \<Rightarrow> (Inr (), mail(p \<mapsto> ms')))))"

fun import_owners ::
  "mail_lib \<Rightarrow> (mail_owner \<Rightarrow> mailbox_limits) \<Rightarrow> (mail_owner \<Rightarrow> resolved \<times> bool \<times> string) \<Rightarrow> Delivery \<Rightarrow> string \<Rightarrow> mail_owner list \<Rightarrow> mailboxes
     \<Rightarrow> (deliver_error, unit) result \<times> mailboxes" where
  "import_owners lib mlim answers dv folder [] mail = (Inr (), mail)"
| "import_owners lib mlim answers dv folder (o' # os) mail =
     (case import_owner lib mlim (answers o') dv folder o' mail of
        (Inl e, mail') \<Rightarrow> (Inl e, mail')
      | (Inr _, mail') \<Rightarrow> import_owners lib mlim answers dv folder os mail')"

definition take_claim :: "mail_lib \<Rightarrow> ingress_env \<Rightarrow> string option \<Rightarrow> delivery_key \<Rightarrow> bool \<Rightarrow> holding \<Rightarrow> Delivery outcome" where
  "take_claim lib env uuid k release s =
     (case claim env uuid k (5 * minute) release s of
        (Inl e, s') \<Rightarrow> (Inl e, s')
      | (Inr dv, s') \<Rightarrow> if hashIncoming lib (dv_Raw dv) \<noteq> dv_Digest dv then (Inl IngressConflict, s') else (Inr dv, s'))"

definition deliver ::
  "mail_lib \<Rightarrow> (mail_owner \<Rightarrow> mailbox_limits) \<Rightarrow> ingress_env \<Rightarrow> string option \<Rightarrow> (mail_owner \<Rightarrow> resolved \<times> bool \<times> string) \<Rightarrow> ingress_env
     \<Rightarrow> delivery_key \<Rightarrow> bool \<Rightarrow> string \<Rightarrow> holding \<times> mailboxes \<Rightarrow> (deliver_error, unit) result \<times> holding \<times> mailboxes" where
  "deliver lib mlim env1 uuid answers env2 k release folder sm =
     (case take_claim lib env1 uuid k release (fst sm) of
        (Inl e, s) \<Rightarrow> (Inl (HoldingError e), s, snd sm)
      | (Inr dv, s) \<Rightarrow>
          (case import_owners lib mlim answers dv folder (owners_of (dv_Bindings dv)) (snd sm) of
             (Inl e, mail) \<Rightarrow> (Inl e, s, mail)
           | (Inr _, mail) \<Rightarrow>
               (case acknowledge env2 (dv_Gateway dv, dv_ID dv) (dv_Lease dv) (dv_Digest dv) release s of
                  (Inl e, s') \<Rightarrow> (Inl (HoldingError e), s', mail)
                | (Inr _, s') \<Rightarrow> (Inr (), s', mail))))"

section \<open>The world\<close>

datatype holding_op =
  SetRouteOp ingress_env bool Route
| DeactivateOp ingress_env "(string \<times> int) list"
| BindOp ingress_env string string string string
| AcceptOp ingress_env string string string string
| QuarantineOp ingress_env string string string Binding string
| QuarantinePendingOp ingress_env delivery_key
| ClaimOp ingress_env "string option" delivery_key duration
| DiscardOp ingress_env delivery_key
| ResolveOp ingress_env delivery_key Binding
| ReopenOp time

fun holding_step :: "mail_lib \<Rightarrow> ingress_limits \<Rightarrow> holding_op \<Rightarrow> holding \<Rightarrow> holding" where
  "holding_step lib lim (SetRouteOp env recovery r) s = snd (setRoute lib lim env recovery r s)"
| "holding_step lib lim (DeactivateOp env gens) s = snd (DeactivateRoutes env gens s)"
| "holding_step lib lim (BindOp env gateway ident sender recipient) s = snd (Bind lib lim env gateway ident sender recipient s)"
| "holding_step lib lim (AcceptOp env gateway ident sender raw) s = snd (Accept lib lim env gateway ident sender raw s)"
| "holding_step lib lim (QuarantineOp env gateway ident sender b raw) s = snd (Quarantine lib lim env gateway ident sender b raw s)"
| "holding_step lib lim (QuarantinePendingOp env k) s = snd (QuarantinePending env k s)"
| "holding_step lib lim (ClaimOp env uuid k dur) s = snd (claim env uuid k dur False s)"
| "holding_step lib lim (DiscardOp env k) s = snd (Discard env k s)"
| "holding_step lib lim (ResolveOp env k b) s = snd (ResolveQuarantined env k b s)"
| "holding_step lib lim (ReopenOp now) s = migrateArchive now s"

text \<open>An importer in the middle of \<open>deliver\<close>: the delivery it has claimed and the owners it has still to serve.\<close>

record flight =
  fl_Delivery :: Delivery
  fl_release :: bool
  fl_folder :: string
  fl_todo :: "mail_owner list"

record world =
  wd_Holding :: holding
  wd_Mail :: mailboxes
  wd_Flights :: "nat \<Rightarrow> flight option"

datatype event =
  Hold holding_op
| Provision mail_owner
| Mail mail_owner mail_op
| Claim nat ingress_env "string option" delivery_key bool string
| ImportOne nat "resolved \<times> bool \<times> string"
| Ack nat ingress_env
| Crash nat

text \<open>A mailbox is opened for a valid owner only.\<close>

definition owner_valid :: "mail_owner \<Rightarrow> bool" where
  "owner_valid o' \<longleftrightarrow> validText (ow_Issuer o') 2048 \<and> validText (ow_Subject o') 512 \<and> SafePathComponent (ow_Mailbox o')"

fun world_step :: "mail_lib \<Rightarrow> ingress_limits \<Rightarrow> (mail_owner \<Rightarrow> mailbox_limits) \<Rightarrow> event \<Rightarrow> world \<Rightarrow> world" where
  "world_step lib lim mlim (Hold op) w = w\<lparr>wd_Holding := holding_step lib lim op (wd_Holding w)\<rparr>"
| "world_step lib lim mlim (Provision o') w =
     (if owner_valid o' \<and> wd_Mail w o' = None then w\<lparr>wd_Mail := (wd_Mail w)(o' \<mapsto> new_store)\<rparr> else w)"
| "world_step lib lim mlim (Mail o' op) w =
     (case wd_Mail w o' of None \<Rightarrow> w | Some ms \<Rightarrow> w\<lparr>wd_Mail := (wd_Mail w)(o' \<mapsto> mail_step lib (mlim o') op ms)\<rparr>)"
| "world_step lib lim mlim (Claim n env uuid k release folder) w =
     (if wd_Flights w n \<noteq> None then w
      else (case take_claim lib env uuid k release (wd_Holding w) of
              (Inl e, s) \<Rightarrow> w\<lparr>wd_Holding := s\<rparr>
            | (Inr dv, s) \<Rightarrow>
                w\<lparr>wd_Holding := s,
                  wd_Flights := (wd_Flights w)(n \<mapsto> \<lparr>fl_Delivery = dv, fl_release = release, fl_folder = folder, fl_todo = owners_of (dv_Bindings dv)\<rparr>)\<rparr>))"
| "world_step lib lim mlim (ImportOne n answer) w =
     (case wd_Flights w n of
        None \<Rightarrow> w
      | Some fl \<Rightarrow>
          (case fl_todo fl of
             [] \<Rightarrow> w
           | o' # os \<Rightarrow>
               (case import_owner lib mlim answer (fl_Delivery fl) (fl_folder fl) o' (wd_Mail w) of
                  (Inl e, mail) \<Rightarrow> w\<lparr>wd_Mail := mail, wd_Flights := (wd_Flights w)(n := None)\<rparr>
                | (Inr _, mail) \<Rightarrow> w\<lparr>wd_Mail := mail, wd_Flights := (wd_Flights w)(n \<mapsto> fl\<lparr>fl_todo := os\<rparr>)\<rparr>)))"
| "world_step lib lim mlim (Ack n env) w =
     (case wd_Flights w n of
        None \<Rightarrow> w
      | Some fl \<Rightarrow>
          if fl_todo fl \<noteq> [] then w
          else (let dv = fl_Delivery fl in
                w\<lparr>wd_Holding := snd (acknowledge env (dv_Gateway dv, dv_ID dv) (dv_Lease dv) (dv_Digest dv) (fl_release fl) (wd_Holding w)),
                  wd_Flights := (wd_Flights w)(n := None)\<rparr>))"
| "world_step lib lim mlim (Crash n) w = w\<lparr>wd_Flights := (wd_Flights w)(n := None)\<rparr>"

definition new_world :: "ingress_limits \<Rightarrow> world" where
  "new_world lim = \<lparr>wd_Holding = new_holding lim, wd_Mail = (\<lambda>_. None), wd_Flights = (\<lambda>_. None)\<rparr>"

definition world_run :: "mail_lib \<Rightarrow> ingress_limits \<Rightarrow> (mail_owner \<Rightarrow> mailbox_limits) \<Rightarrow> event list \<Rightarrow> world \<Rightarrow> world" where
  "world_run lib lim mlim evs w = fold (world_step lib lim mlim) evs w"

section \<open>\<open>deliver\<close> is a run of its stages\<close>

lemma world_run_simps [simp]:
  "world_run lib lim mlim [] w = w"
  "world_run lib lim mlim (e # es) w = world_run lib lim mlim es (world_step lib lim mlim e w)"
  by (simp_all add: world_run_def)

text \<open>The rest of \<open>deliver\<close> for an importer that has \<open>os\<close> to serve.\<close>

fun stages :: "nat \<Rightarrow> (mail_owner \<Rightarrow> resolved \<times> bool \<times> string) \<Rightarrow> ingress_env \<Rightarrow> mail_owner list \<Rightarrow> event list" where
  "stages n answers env [] = [Ack n env]"
| "stages n answers env (o' # os) = ImportOne n (answers o') # stages n answers env os"

lemma stopped_run:
  "wd_Flights w n = None \<Longrightarrow> world_run lib lim mlim (stages n answers env os) w = w"
  by (induction os) auto

lemma imports_run:
  assumes "wd_Flights w n = Some fl" "fl_todo fl = os"
    and "import_owners lib mlim answers (fl_Delivery fl) (fl_folder fl) os (wd_Mail w) = (r, mail)"
  shows "world_run lib lim mlim (stages n answers env os) w =
    (case r of
       Inl e \<Rightarrow> w\<lparr>wd_Mail := mail, wd_Flights := (wd_Flights w)(n := None)\<rparr>
     | Inr _ \<Rightarrow> world_step lib lim mlim (Ack n env) (w\<lparr>wd_Mail := mail, wd_Flights := (wd_Flights w)(n \<mapsto> fl\<lparr>fl_todo := []\<rparr>)\<rparr>))"
  using assms
proof (induction os arbitrary: w fl)
  case Nil
  thus ?case by (auto simp: Let_def)
next
  case (Cons o' os)
  obtain q mail1 where one: "import_owner lib mlim (answers o') (fl_Delivery fl) (fl_folder fl) o' (wd_Mail w) = (q, mail1)" by fastforce
  show ?case
  proof (cases q)
    case (Inl e)
    let ?w = "w\<lparr>wd_Mail := mail1, wd_Flights := (wd_Flights w)(n := None)\<rparr>"
    have "world_run lib lim mlim (stages n answers env os) ?w = ?w" by (rule stopped_run) simp
    thus ?thesis using Cons.prems one Inl by auto
  next
    case (Inr u)
    let ?w = "w\<lparr>wd_Mail := mail1, wd_Flights := (wd_Flights w)(n \<mapsto> fl\<lparr>fl_todo := os\<rparr>)\<rparr>"
    have "world_run lib lim mlim (stages n answers env os) ?w =
      (case r of Inl e \<Rightarrow> ?w\<lparr>wd_Mail := mail, wd_Flights := (wd_Flights ?w)(n := None)\<rparr>
       | Inr _ \<Rightarrow> world_step lib lim mlim (Ack n env) (?w\<lparr>wd_Mail := mail, wd_Flights := (wd_Flights ?w)(n \<mapsto> fl\<lparr>fl_todo := os\<rparr>\<lparr>fl_todo := []\<rparr>)\<rparr>))"
      using Cons.prems(3) one Inr by (intro Cons.IH) simp_all
    thus ?thesis using Cons.prems one Inr by (cases r) (simp_all add: Let_def)
  qed
qed

text \<open>What an idle importer's call of \<open>deliver\<close> does to the world.\<close>

lemma deliver_run:
  assumes "wd_Flights w n = None"
    and "deliver lib mlim env1 uuid answers env2 k release folder (wd_Holding w, wd_Mail w) = (r, s, mail)"
  shows "\<exists>os. world_run lib lim mlim (Claim n env1 uuid k release folder # stages n answers env2 os) w =
     w\<lparr>wd_Holding := s, wd_Mail := mail\<rparr>"
proof (cases "take_claim lib env1 uuid k release (wd_Holding w)")
  case (Pair q s1)
  show ?thesis
  proof (cases q)
    case (Inl e)
    have "world_run lib lim mlim (stages n answers env2 []) (w\<lparr>wd_Holding := s1\<rparr>) = w\<lparr>wd_Holding := s1\<rparr>"
      using assms(1) by (intro stopped_run) simp
    thus ?thesis using assms Pair Inl by (intro exI [of _ "[]"]) (auto simp: deliver_def)
  next
    case (Inr dv)
    let ?os = "owners_of (dv_Bindings dv)"
    let ?fl = "\<lparr>fl_Delivery = dv, fl_release = release, fl_folder = folder, fl_todo = ?os\<rparr>"
    let ?w = "w\<lparr>wd_Holding := s1, wd_Flights := (wd_Flights w)(n \<mapsto> ?fl)\<rparr>"
    obtain p m where imp: "import_owners lib mlim answers dv folder ?os (wd_Mail w) = (p, m)" by fastforce
    have "world_run lib lim mlim (stages n answers env2 ?os) ?w =
      (case p of Inl e \<Rightarrow> ?w\<lparr>wd_Mail := m, wd_Flights := (wd_Flights ?w)(n := None)\<rparr>
       | Inr _ \<Rightarrow> world_step lib lim mlim (Ack n env2) (?w\<lparr>wd_Mail := m, wd_Flights := (wd_Flights ?w)(n \<mapsto> ?fl\<lparr>fl_todo := []\<rparr>)\<rparr>))"
      using imp by (intro imports_run) simp_all
    moreover have "(wd_Flights w)(n := None) = wd_Flights w" using assms(1) by auto
    ultimately have "world_run lib lim mlim (stages n answers env2 ?os) ?w = w\<lparr>wd_Holding := s, wd_Mail := m\<rparr>" "m = mail"
      using assms(2) Pair Inr imp by (auto simp: deliver_def Let_def split: sum.splits prod.splits)
    thus ?thesis using assms(1) Pair Inr by (intro exI [of _ ?os]) simp
  qed
qed

end
