(* ===== verification/Ingress_System.thy ===== *)
theory Ingress_System
  imports Ingress_Import
begin

text \<open>
  The holding store as a state machine: each operation leaves the store alone or makes one of seven elementary
  changes (\<open>hold_step\<close>), labelled with the delivery it ends, if any. An invariant of these changes is one of
  every run of the world (locale \<open>world_invariant\<close>).
\<close>

section \<open>Well-formed rows\<close>

definition binding_ok :: "mail_lib \<Rightarrow> Binding \<Rightarrow> bool" where
  "binding_ok lib b \<longleftrightarrow>
     address lib (bd_Address b) False \<and> bd_Generation b > 0 \<and>
     (Unresolved b \<or> ValidIdentifier (bd_Issuer b) \<and> ValidIdentifier (bd_Subject b) \<and> ValidIdentifier (bd_Mailbox b))"

definition held_ok :: "mail_lib \<Rightarrow> ingress_limits \<Rightarrow> held \<Rightarrow> bool" where
  "held_ok lib lim d \<longleftrightarrow>
     hd_bindings d \<noteq> [] \<and> length (hd_bindings d) \<le> 100 \<and> distinct (map bd_Address (hd_bindings d)) \<and>
     (\<forall>b \<in> set (hd_bindings d). binding_ok lib b) \<and>
     (\<forall>b \<in> set (hd_bindings d). Unresolved b \<longrightarrow> hd_state d = Quarantined \<and> hd_bindings d = [b]) \<and>
     hd_state d \<noteq> Imported_legacy \<and>
     (hd_state d = Staged \<longrightarrow> hd_raw d = None) \<and>
     (hd_state d \<noteq> Staged \<longrightarrow>
        (\<exists>data. hd_raw d = Some data \<and> data \<noteq> [] \<and> int (length data) \<le> il_MessageBytes lim \<and> hd_digest d = hashIncoming lib data))"

definition route_ok :: "mail_lib \<Rightarrow> string \<times> route_row \<Rightarrow> bool" where
  "route_ok lib ar \<longleftrightarrow>
     address lib (fst ar) False \<and> ValidIdentifier (rt_Issuer (snd ar)) \<and> ValidIdentifier (rt_Subject (snd ar)) \<and>
     ValidIdentifier (rt_Mailbox (snd ar)) \<and> rt_Generation (snd ar) > 0"

definition routes_ok :: "mail_lib \<Rightarrow> ingress_limits \<Rightarrow> route_row table \<Rightarrow> bool" where
  "routes_ok lib lim rs \<longleftrightarrow> distinct (keys rs) \<and> (\<forall>ar \<in> set rs. route_ok lib ar) \<and> int (length rs) \<le> il_Records lim"

section \<open>Elementary changes\<close>

inductive hold_step :: "mail_lib \<Rightarrow> ingress_limits \<Rightarrow> (delivery_key \<times> disposition) option \<Rightarrow> holding \<Rightarrow> holding \<Rightarrow> bool" for lib lim where
  Reroute: "hold_step lib lim None s (s\<lparr>hs_Routes := rs\<rparr>)" if "routes_ok lib lim (hs_Routes s) \<longrightarrow> routes_ok lib lim rs"
| Insert: "hold_step lib lim None s (insert_held k d s)"
    if "held_at s k = None" "map_of (hs_Archived s) k = None" "int (length (hs_Deliveries s)) < il_Records lim"
       "routes_ok lib lim (hs_Routes s) \<longrightarrow> held_ok lib lim d" "used_bytes s + raw_bytes d \<le> max (used_bytes s) (il_PayloadBytes lim)"
| Grow: "hold_step lib lim None s (put_held k (d\<lparr>hd_bindings := hd_bindings d @ [b]\<rparr>) s)"
    if "held_at s k = Some d" "hd_state d = Staged" "length (hd_bindings d) < 100" "bd_Address b \<notin> bd_Address ` set (hd_bindings d)"
       "routes_ok lib lim (hs_Routes s) \<longrightarrow> binding_ok lib b \<and> \<not> Unresolved b"
| Fill: "hold_step lib lim None s (put_held k (d\<lparr>hd_raw := Some data, hd_digest := hashIncoming lib data, hd_state := st, hd_lease := l, hd_lease_until := u\<rparr>) s)"
    if "held_at s k = Some d" "hd_state d = Staged" "st \<in> {Pending, Quarantined}" "data \<noteq> []" "int (length data) \<le> il_MessageBytes lim"
       "used_bytes s + int (length data) \<le> il_PayloadBytes lim"
| Relabel: "hold_step lib lim None s (put_held k (d\<lparr>hd_state := st, hd_lease := l, hd_lease_until := u\<rparr>) s)"
    if "held_at s k = Some d" "hd_state d \<noteq> Staged" "st \<in> {hd_state d, Quarantined}"
| Resolve: "hold_step lib lim None s (put_held k (d\<lparr>hd_bindings := [b]\<rparr>) s)"
    if "held_at s k = Some d" "hd_state d = Quarantined" "hd_bindings d = [b']" "Unresolved b'" "bd_Address b = bd_Address b'"
       "binding_ok lib b' \<longrightarrow> binding_ok lib b" "\<not> Unresolved b"
| Archive: "hold_step lib lim (Some (k, disp)) s (delete_held k (s\<lparr>hs_Archived := hs_Archived s @ [(k, tomb_of at disp d)]\<rparr>))"
    if "held_at s k = Some d" "map_of (hs_Archived s) k = None" "hd_bindings d \<noteq> []" "hd_state d \<noteq> Staged"

inductive_cases hold_stepE: "hold_step lib lim l s s'"

text \<open>Either nothing, or one elementary change.\<close>

definition hold_opt :: "mail_lib \<Rightarrow> ingress_limits \<Rightarrow> (delivery_key \<times> disposition) option \<Rightarrow> holding \<Rightarrow> holding \<Rightarrow> bool" where
  "hold_opt lib lim l s s' \<longleftrightarrow> s' = s \<or> hold_step lib lim l s s'"

named_theorems hold_intro \<open>operations as elementary changes\<close>

lemma hold_optI: "hold_step lib lim l s s' \<Longrightarrow> hold_opt lib lim l s s'"
  by (simp add: hold_opt_def)

lemma hold_opt_refl [simp, intro]: "hold_opt lib lim l s s"
  by (simp add: hold_opt_def)

lemma transact_opt: "(\<And>s. hold_opt lib lim l s (snd (body s))) \<Longrightarrow> hold_opt lib lim l s (snd (transact env body s))"
  by (simp add: transact_def)

lemma admitted_opt: "(\<And>s. hold_opt lib lim l s (snd (body s))) \<Longrightarrow> hold_opt lib lim l s (snd (admitted lim env body s))"
  by (simp add: admitted_def transact_opt split: option.split)

subsection \<open>Routes\<close>

lemma routes_ok_update:
  assumes "routes_ok lib lim rs" "route_ok lib (a, r)" "map_of rs a = None \<Longrightarrow> int (length rs) < il_Records lim"
  shows "routes_ok lib lim (AList.update a r rs)"
proof -
  have "set (AList.update a r rs) \<subseteq> insert (a, r) (set rs)" by (induction rs) auto
  moreover have "int (length (AList.update a r rs)) \<le> il_Records lim"
    using assms by (cases "map_of rs a") (auto simp: routes_ok_def map_of_None length_update_new length_update_old dest: map_of_SomeE)
  ultimately show ?thesis using assms by (auto simp: routes_ok_def table)
qed

lemma deactivate_ok: "deactivate gens rs = Some rs' \<Longrightarrow> routes_ok lib lim rs \<Longrightarrow> routes_ok lib lim rs'"
proof (induction gens rs rule: deactivate.induct)
  case (2 a g gs rs)
  have "routes_ok lib lim (AList.update a (old\<lparr>rt_Generation := g, rt_Active := False\<rparr>) rs)"
    if "map_of rs a = Some old" "rt_Generation old \<le> g" for old
    using 2(5) that by (intro routes_ok_update) (auto simp: routes_ok_def route_ok_def dest!: map_of_SomeD)
  thus ?case using 2 by (auto split: option.splits if_splits)
qed simp

lemma reroute_opt:
  assumes "route_ok lib (a, row)" "map_of (hs_Routes s) a = None \<Longrightarrow> \<not> il_Records lim \<le> int (length (hs_Routes s))"
  shows "hold_opt lib lim None s (s\<lparr>hs_Routes := AList.update a row (hs_Routes s)\<rparr>)"
  using assms by (intro hold_optI Reroute) (auto intro: routes_ok_update)

lemma setRoute_opt [hold_intro]: "hold_opt lib lim None s (snd (setRoute lib lim env recovery r s))"
  by (auto simp: setRoute_def Let_def route_ok_def intro!: transact_opt admitted_opt reroute_opt split: option.split)

lemma deactivate_opt: "deactivate gens (hs_Routes s) = Some rs \<Longrightarrow> hold_opt lib lim None s (s\<lparr>hs_Routes := rs\<rparr>)"
  by (intro hold_optI Reroute) (auto intro: deactivate_ok)

lemma Deactivate_opt [hold_intro]: "hold_opt lib lim None s (snd (DeactivateRoutes env gens s))"
  by (auto simp: DeactivateRoutes_def intro!: transact_opt deactivate_opt split: option.split)

subsection \<open>Receiving\<close>

lemma sort_single: "sort_key f xs = [x] \<Longrightarrow> xs = [x]"
  by (metis length_0_conv length_Suc_conv length_sort list.set(2) set_empty set_sort singleton_insert_inj_eq')

lemma route_binding:
  assumes "routes_ok lib lim rs" "map_of rs a = Some r"
  shows "binding_ok lib \<lparr>bd_Address = a, bd_Issuer = rt_Issuer r, bd_Subject = rt_Subject r, bd_Mailbox = rt_Mailbox r, bd_Generation = rt_Generation r\<rparr>"
    and "\<not> Unresolved \<lparr>bd_Address = a, bd_Issuer = rt_Issuer r, bd_Subject = rt_Subject r, bd_Mailbox = rt_Mailbox r, bd_Generation = rt_Generation r\<rparr>"
  using assms map_of_SomeD [OF assms(2)] by (auto simp: routes_ok_def route_ok_def binding_ok_def Unresolved_def ValidIdentifier_def)

lemma bind_new_opt:
  assumes "held_at s k = old"
    and "case old of None \<Rightarrow> map_of (hs_Archived s) k = None | Some d \<Rightarrow> hd_state d = Staged \<and> recipient \<notin> bd_Address ` set (hd_bindings d)"
  shows "hold_opt lib lim None s (snd (bind_new lim env k sender recipient old s))"
proof (cases old)
  case None
  thus ?thesis using assms
    by (auto simp: bind_new_def Let_def fresh_held_def held_ok_def raw_bytes_def route_binding intro!: hold_optI Insert split: option.split)
next
  case (Some d)
  thus ?thesis using assms
    by (auto simp: bind_new_def Let_def route_binding intro!: hold_optI Grow split: option.split)
qed

lemma Bind_opt [hold_intro]: "hold_opt lib lim None s (snd (Bind lib lim env gateway ident sender recipient s))"
  by (auto simp: Bind_def Let_def archivedDelivery_def intro!: admitted_opt bind_new_opt split: option.split)

lemma fill_opt:
  assumes "held_at s k = Some d" "hd_state d = Staged" "admitPayload lim env s (int (length data)) = None" "data \<noteq> []"
    "int (length data) \<le> il_MessageBytes lim" "st \<in> {Pending, Quarantined}"
  shows "hold_opt lib lim None s (put_held k (d\<lparr>hd_raw := Some data, hd_digest := hashIncoming lib data, hd_state := st, hd_lease := l, hd_lease_until := u\<rparr>) s)"
  using assms by (intro hold_optI Fill) (auto simp: admitPayload_def split: option.splits if_splits)

lemma fill_pending:
  assumes "held_at s k = Some d" "hd_state d = Staged" "admitPayload lim env s (int (length data)) = None" "data \<noteq> []"
    "int (length data) \<le> il_MessageBytes lim"
  shows "hold_opt lib lim None s (put_held k (d\<lparr>hd_raw := Some data, hd_digest := hashIncoming lib data, hd_state := Pending\<rparr>) s)"
  using fill_opt [OF assms, where st = Pending and l = "hd_lease d" and u = "hd_lease_until d"] by simp

lemma Accept_opt [hold_intro]: "hold_opt lib lim None s (snd (Accept lib lim env gateway ident sender raw s))"
proof -
  define data where "data = take (nat (il_MessageBytes lim + 1)) raw"
  show ?thesis
    unfolding Accept_def Let_def data_def [symmetric] by (auto intro!: admitted_opt fill_pending split: option.split)
qed

lemma Quarantine_opt [hold_intro]: "hold_opt lib lim None s (snd (Quarantine lib lim env gateway ident sender b raw s))"
proof -
  let ?d = "(fresh_held sender (en_now env))\<lparr>hd_digest := hashIncoming lib raw, hd_raw := Some raw, hd_state := Quarantined, hd_bindings := [b]\<rparr>"
  let ?ok = "raw \<noteq> [] \<and> int (length raw) \<le> il_MessageBytes lim"
  have "hold_opt lib lim None s (insert_held k ?d s)"
    if "binding_ok lib b" ?ok "held_at s k = None" "map_of (hs_Archived s) k = None" "int (length (hs_Deliveries s)) < il_Records lim"
      "admitPayload lim env s (int (length raw)) = None" for s k
    using that by (intro hold_optI Insert) (auto simp: held_ok_def raw_bytes_def admitPayload_def split: option.splits if_splits)
  moreover have "hold_opt lib lim None s (put_held k (unlease (d\<lparr>hd_raw := Some raw, hd_digest := hashIncoming lib raw\<rparr>)) s)"
    if ?ok "held_at s k = Some d" "hd_state d = Staged" "admitPayload lim env s (int (length raw)) = None" for s k d
    using fill_opt [OF that(2-4), where st = Quarantined and l = "[]" and u = 0] that(1) by (simp add: unlease_def)
  ultimately show ?thesis
    by (auto simp: Quarantine_def Let_def archivedDelivery_def binding_ok_def intro!: admitted_opt split: option.split)
qed

subsection \<open>Claims\<close>

lemma unlease_opt: "held_at s k = Some d \<Longrightarrow> hd_state d \<noteq> Staged \<Longrightarrow> hold_opt lib lim None s (put_held k (unlease d) s)"
  unfolding unlease_def by (intro hold_optI Relabel) auto

lemma lease_opt: "held_at s k = Some d \<Longrightarrow> hd_state d \<noteq> Staged \<Longrightarrow> hold_opt lib lim None s (put_held k (d\<lparr>hd_lease := l, hd_lease_until := u\<rparr>) s)"
  using Relabel [of s k d "hd_state d" lib lim u l] by (intro hold_optI) auto

lemma QuarantinePending_opt [hold_intro]: "hold_opt lib lim None s (snd (QuarantinePending env k s))"
  unfolding QuarantinePending_def by (rule transact_opt) (auto intro!: unlease_opt split: option.split)

lemma claim_opt [hold_intro]: "hold_opt lib lim None s (snd (claim env uuid k dur release s))"
  unfolding claim_def
  by (auto intro!: transact_opt unlease_opt lease_opt simp: readDelivery_def split: sum.split option.split)

lemma archive_opt:
  assumes "held_at s k = Some d" "hd_state d \<noteq> Staged"
  shows "hold_opt lib lim (Some (k, disp)) s (snd (archive at disp k d s))"
  using assms by (auto simp: archive_def intro!: hold_optI Archive)

lemma resolve_opt:
  assumes "held_at s k = Some d" "hd_state d = Quarantined" "readBindings d = [b']" "bd_Address b' = bd_Address b"
    "Unresolved b' \<or> b' = b" "\<not> Unresolved b" "ValidIdentifier (bd_Issuer b)" "ValidIdentifier (bd_Subject b)"
    "ValidIdentifier (bd_Mailbox b)" "bd_Generation b > 0"
  shows "hold_opt lib lim None s (put_held k (d\<lparr>hd_bindings := [b]\<rparr>) s)"
proof -
  have bs: "hd_bindings d = [b']" using assms(3) by (auto simp: readBindings_def dest: sort_single)
  show ?thesis
  proof (cases "b' = b")
    case True
    hence "d\<lparr>hd_bindings := [b]\<rparr> = d" using bs by simp
    thus ?thesis using lease_opt [OF assms(1), where l = "hd_lease d" and u = "hd_lease_until d"] assms(2) by simp
  next
    case False
    thus ?thesis using assms bs by (intro hold_optI Resolve [where b' = b']) (auto simp: binding_ok_def)
  qed
qed

lemma Resolve_opt [hold_intro]: "hold_opt lib lim None s (snd (ResolveQuarantined env k b s))"
  unfolding ResolveQuarantined_def
  by (auto intro!: transact_opt resolve_opt split: option.split list.split)

lemma Discard_opt:
  "\<exists>disp \<in> {Discarded, Partially_released}. hold_opt lib lim (Some (k, disp)) s (snd (Discard env k s))"
proof -
  have "snd (case archive at disp k d s of (Inl e, s') \<Rightarrow> (Inl e, s') | (Inr _, s') \<Rightarrow> (Inr disp, s')) = snd (archive at disp k d s)" for at disp d
    by (simp split: prod.split sum.split)
  thus ?thesis
    by (auto simp: Discard_def transact_def Let_def archivedDelivery_def intro: archive_opt split: option.split)
qed

lemma acknowledge_opt:
  "hold_opt lib lim (Some (k, if release then Released else Imported)) s (snd (acknowledge env k lease digest release s)) \<or>
   hold_opt lib lim None s (snd (acknowledge env k lease digest release s))"
  by (auto simp: acknowledge_def transact_def Let_def intro: archive_opt unlease_opt split: option.split)

lemma take_claim_opt: "hold_opt lib lim None s (snd (take_claim lib env uuid k release s))"
  using claim_opt [of lib lim s env uuid k "5 * minute" release]
  by (auto simp: take_claim_def split: prod.split sum.split)

section \<open>The invariant of the holding store\<close>

definition holding_ok :: "mail_lib \<Rightarrow> ingress_limits \<Rightarrow> holding \<Rightarrow> bool" where
  "holding_ok lib lim s \<longleftrightarrow>
     distinct (keys (hs_Deliveries s)) \<and> distinct (keys (hs_Archived s)) \<and> set (keys (hs_Deliveries s)) \<inter> set (keys (hs_Archived s)) = {} \<and>
     sorted_wrt (<) (map (hd_rowid \<circ> snd) (hs_Deliveries s)) \<and> (\<forall>(k, d) \<in> set (hs_Deliveries s). held_ok lib lim d) \<and>
     int (length (hs_Deliveries s)) \<le> il_Records lim \<and> used_bytes s \<le> il_PayloadBytes lim \<and> routes_ok lib lim (hs_Routes s)"

lemma map_of_put: "map_of (map (\<lambda>(k', d'). (k', if k' = k then d else d')) ds) k' = (if k' = k then map_option (\<lambda>_. d) (map_of ds k) else map_of ds k')"
  by (induction ds) auto

lemma map_of_delete: "map_of (filter (\<lambda>(k', d'). k' \<noteq> k) ds) k' = (if k' = k then None else map_of ds k')"
  by (induction ds) auto

lemma held_at_simps [simp]:
  "held_at (put_held k d s) k' = (if k' = k then map_option (\<lambda>_. d) (held_at s k) else held_at s k')"
  "held_at (delete_held k s) k' = (if k' = k then None else held_at s k')"
  "held_at (s\<lparr>hs_Routes := rs\<rparr>) = held_at s" "held_at (s\<lparr>hs_Archived := ts\<rparr>) = held_at s"
  by (auto simp: held_at_def put_held_def delete_held_def map_of_put map_of_delete)

lemma held_at_insert [simp]:
  "held_at s k = None \<Longrightarrow> held_at (insert_held k d s) k' = (if k' = k then Some (d\<lparr>hd_rowid := next_rowid s\<rparr>) else held_at s k')"
  by (auto simp: held_at_def insert_held_def map_add_def split: option.split)

lemma other_tables [simp]:
  "hs_Archived (put_held k d s) = hs_Archived s" "hs_Archived (insert_held k d s) = hs_Archived s" "hs_Archived (delete_held k s) = hs_Archived s"
  "hs_Routes (put_held k d s) = hs_Routes s" "hs_Routes (insert_held k d s) = hs_Routes s" "hs_Routes (delete_held k s) = hs_Routes s"
  by (simp_all add: put_held_def insert_held_def delete_held_def)

lemma keys_put [simp]: "keys (hs_Deliveries (put_held k d s)) = keys (hs_Deliveries s)" "length (hs_Deliveries (put_held k d s)) = length (hs_Deliveries s)"
  by (auto simp: put_held_def keys_def)

lemma keys_insert [simp]: "keys (hs_Deliveries (insert_held k d s)) = keys (hs_Deliveries s) @ [k]"
  by (simp add: insert_held_def keys_def)

lemma keys_deleted: "set (keys (hs_Deliveries (delete_held k s))) = set (keys (hs_Deliveries s)) - {k}"
  "distinct (keys (hs_Deliveries s)) \<Longrightarrow> distinct (keys (hs_Deliveries (delete_held k s)))"
  by (auto simp: delete_held_def keys_def intro: distinct_map_filter)

lemma put_absent: "k \<notin> set (keys ds) \<Longrightarrow> map (\<lambda>(k', e). (k', if k' = k then d' else e)) ds = ds"
  by (induction ds) auto

lemma used_put:
  assumes "distinct (keys (hs_Deliveries s))" "held_at s k = Some d"
  shows "used_bytes (put_held k d' s) = used_bytes s - raw_bytes d + raw_bytes d'"
proof -
  have "(\<Sum>(k', e) \<leftarrow> map (\<lambda>(k', e). (k', if k' = k then d' else e)) ds. raw_bytes e) = (\<Sum>(k', e) \<leftarrow> ds. raw_bytes e) - raw_bytes d + raw_bytes d'"
    if "distinct (keys ds)" "map_of ds k = Some d" for ds
    using that by (induction ds) (auto simp: put_absent simp del: map_map split: if_splits)
  thus ?thesis using assms by (simp add: used_bytes_def put_held_def held_at_def)
qed

lemma raw_bytes_nonneg [simp]: "0 \<le> raw_bytes d"
  by (simp add: raw_bytes_def split: option.split)

lemma used_delete: "used_bytes (delete_held k s) \<le> used_bytes s"
proof -
  have "(\<Sum>(k', e) \<leftarrow> filter (\<lambda>(k', e). k' \<noteq> k) ds. raw_bytes e) \<le> (\<Sum>(k', e) \<leftarrow> ds. raw_bytes e)" for ds
    by (induction ds) (auto intro: add_increasing)
  thus ?thesis by (simp add: used_bytes_def delete_held_def)
qed

lemma used_insert [simp]: "used_bytes (insert_held k d s) = used_bytes s + raw_bytes d"
  by (simp add: used_bytes_def insert_held_def raw_bytes_def)

lemma next_rowid_fresh: "\<forall>kd \<in> set (hs_Deliveries s). hd_rowid (snd kd) < next_rowid s"
  by (auto simp: next_rowid_def less_Suc_eq_le intro!: Max_ge)

lemma held_ok_sel [simp]: "held_ok lib lim (d\<lparr>hd_rowid := n\<rparr>) = held_ok lib lim d"
  by (simp add: held_ok_def)

lemma in_put: "(k', d') \<in> set (hs_Deliveries (put_held k d s)) \<Longrightarrow> d' = d \<and> k' = k \<or> (k', d') \<in> set (hs_Deliveries s)"
  by (auto simp: put_held_def split: if_splits)

text \<open>A row may be exchanged for another that is well-formed and has its number.\<close>

lemma holding_ok_put:
  assumes "holding_ok lib lim s" "held_at s k = Some d" "held_ok lib lim d'" "hd_rowid d' = hd_rowid d"
    "used_bytes s - raw_bytes d + raw_bytes d' \<le> il_PayloadBytes lim"
  shows "holding_ok lib lim (put_held k d' s)"
proof -
  have d: "distinct (keys (hs_Deliveries s))" using assms(1) by (simp add: holding_ok_def)
  have uniq: "(k', e) \<in> set (hs_Deliveries s) \<Longrightarrow> k' = k \<Longrightarrow> e = d" for k' e
    using d assms(2) map_of_is_SomeI by (fastforce simp: held_at_def keys_def)
  have "map (hd_rowid \<circ> snd) (hs_Deliveries (put_held k d' s)) = map (hd_rowid \<circ> snd) (hs_Deliveries s)"
    using uniq assms(4) by (auto simp: put_held_def)
  thus ?thesis using assms used_put [OF d assms(2)] unfolding holding_ok_def by (auto dest!: in_put)
qed

lemma held_okD: "holding_ok lib lim s \<Longrightarrow> held_at s k = Some d \<Longrightarrow> held_ok lib lim d"
  by (auto simp: holding_ok_def held_at_def dest!: map_of_SomeD)

lemma hold_step_ok:
  assumes "hold_step lib lim l s s'" "holding_ok lib lim s"
  shows "holding_ok lib lim s'"
  using assms
proof (induction rule: hold_step.induct)
  case (Reroute s rs)
  thus ?case by (simp add: holding_ok_def used_bytes_def)
next
  case (Insert s k d)
  have "k \<notin> set (keys (hs_Deliveries s))" "k \<notin> set (keys (hs_Archived s))" using Insert(1,2) by (auto simp: held_at_def map_of_None)
  moreover have "sorted_wrt (<) (map (hd_rowid \<circ> snd) (hs_Deliveries (insert_held k d s)))"
    using Insert.prems next_rowid_fresh [of s] by (auto simp: holding_ok_def insert_held_def sorted_wrt_append)
  ultimately show ?case using Insert by (auto simp: holding_ok_def) (auto simp: insert_held_def)
next
  case (Grow s k d b)
  note ok = held_okD [OF Grow.prems Grow(1)]
  have r: "routes_ok lib lim (hs_Routes s)" "used_bytes s \<le> il_PayloadBytes lim" using Grow.prems by (auto simp: holding_ok_def)
  show ?case using Grow ok r by (intro holding_ok_put [OF Grow.prems Grow(1)]) (auto simp: held_ok_def raw_bytes_def)
next
  case (Fill s k d st data l u)
  note ok = held_okD [OF Fill.prems Fill(1)]
  show ?case using Fill ok by (intro holding_ok_put [OF Fill.prems Fill(1)]) (auto simp: held_ok_def raw_bytes_def)
next
  case (Relabel s k d st l u)
  note ok = held_okD [OF Relabel.prems Relabel(1)]
  have "used_bytes s \<le> il_PayloadBytes lim" using Relabel.prems by (simp add: holding_ok_def)
  thus ?case using Relabel ok by (intro holding_ok_put [OF Relabel.prems Relabel(1)]) (auto simp: held_ok_def raw_bytes_def)
next
  case (Resolve s k d b' b)
  note ok = held_okD [OF Resolve.prems Resolve(1)]
  have "used_bytes s \<le> il_PayloadBytes lim" using Resolve.prems by (simp add: holding_ok_def)
  thus ?case using Resolve ok by (intro holding_ok_put [OF Resolve.prems Resolve(1)]) (auto simp: held_ok_def raw_bytes_def)
next
  case (Archive s k d disp at)
  let ?s = "s\<lparr>hs_Archived := hs_Archived s @ [(k, tomb_of at disp d)]\<rparr>"
  have "used_bytes (delete_held k ?s) \<le> used_bytes s" using used_delete [of k ?s] by (simp add: used_bytes_def)
  moreover have "k \<notin> set (keys (hs_Archived s))" using Archive(2) by (simp add: map_of_None)
  moreover have "length (hs_Deliveries (delete_held k ?s)) \<le> length (hs_Deliveries s)" by (simp add: delete_held_def)
  moreover have "sorted_wrt (<) (map (hd_rowid \<circ> snd) (hs_Deliveries (delete_held k ?s)))"
    using Archive.prems by (auto simp: holding_ok_def delete_held_def sorted_wrt_map sorted_wrt_filter)
  moreover have "set (hs_Deliveries (delete_held k ?s)) \<subseteq> set (hs_Deliveries s)" by (auto simp: delete_held_def)
  ultimately show ?case using Archive.prems keys_deleted(1) [of k ?s] keys_deleted(2) [of ?s k] by (auto simp: holding_ok_def keys_def)
qed

lemma holding_ok_opt: "hold_opt lib lim l s s' \<Longrightarrow> holding_ok lib lim s \<Longrightarrow> holding_ok lib lim s'"
  by (auto simp: hold_opt_def dest: hold_step_ok)

end
