(* ===== verification/Ingress_Properties.thy ===== *)
theory Ingress_Properties
  imports Ingress_System
begin

text \<open>
  What the inbound gateway promises about mail it has accepted: it is held until every mailbox it was meant for has
  it, however many importers work at once and whenever they stop; it is never handed to another owner, stored
  twice or taken up again after it has ended.
\<close>

section \<open>Receipts of a mailbox\<close>

definition receipt_at :: "mail_store \<Rightarrow> delivery_key \<times> receipt \<times> string \<times> nat \<Rightarrow> bool" where
  "receipt_at s e \<longleftrightarrow> (\<exists>j < length (ms_Messages s). snd (snd (snd e)) = j + 1 \<and> sm_Digest (ms_Messages s ! j) = fst (snd (snd e)))"

definition receipts_ok :: "mail_store \<Rightarrow> bool" where
  "receipts_ok s \<longleftrightarrow> (\<forall>e \<in> set (ms_Receipts s). receipt_at s e)"

lemma receipt_at_later: "receipt_at s e \<Longrightarrow> later UNIV s s' \<Longrightarrow> receipt_at s' e"
  unfolding receipt_at_def later_def by (metis less_le_trans)

lemma receipts_ok_grow: "receipts_ok s \<Longrightarrow> later UNIV s s' \<Longrightarrow> ms_Receipts s' = ms_Receipts s \<Longrightarrow> receipts_ok s'"
  by (auto simp: receipts_ok_def intro: receipt_at_later)

lemma receipts_ok_step: "elementary lib lim D s s' \<Longrightarrow> receipts_ok s \<Longrightarrow> receipts_ok s'"
proof (induction rule: elementary.induct)
  case (Arrive m raw s key imported)
  let ?s = "arrive m key imported s"
  have "later UNIV s ?s" by (rule later_step [OF elementary.Arrive [OF Arrive(1-6)]])
  hence "\<forall>e \<in> set (ms_Receipts s). receipt_at ?s e" using Arrive.prems by (auto simp: receipts_ok_def intro: receipt_at_later)
  moreover have "receipt_at ?s (k, env, sm_Digest m, length (ms_Messages s) + 1)" for k env by (simp add: receipt_at_def)
  ultimately show ?case by (auto simp: receipts_ok_def split: option.split)
next
  case (Swap s i m m' raw r)
  have "later UNIV s (swap i m' r s)" by (rule later_step [OF elementary.Swap [OF Swap(1) UNIV_I Swap(3-9)]])
  with Swap.prems show ?case by (rule receipts_ok_grow) simp
next
  case (Bury s i m)
  have "later UNIV s (bury i s)" by (rule later_step [OF elementary.Bury [OF Bury(1) UNIV_I]])
  with Bury.prems show ?case by (rule receipts_ok_grow) simp
next
  case (Touch s i m m')
  have "later UNIV s (touch i m' s)" by (rule later_step [OF elementary.Touch [OF Touch(1-4)]])
  with Touch.prems show ?case by (rule receipts_ok_grow) simp
next
  case (Settle s i m target)
  have "later UNIV s (settle target i s)" by (rule later_step [OF elementary.Settle [OF Settle(1,2)]])
  with Settle.prems show ?case by (rule receipts_ok_grow) simp
qed (simp_all add: receipts_ok_def receipt_at_def)

interpretation receipts: mailbox_invariant lib lim receipts_ok for lib lim
proof
  show "receipts_ok new_store" by (simp add: receipts_ok_def new_store_def)
qed (rule receipts_ok_step)

section \<open>What no change of the holding store undoes\<close>

definition kept :: "held \<Rightarrow> held \<Rightarrow> bool" where
  "kept d d' \<longleftrightarrow>
     hd_sender d' = hd_sender d \<and> hd_raw d' = hd_raw d \<and> hd_digest d' = hd_digest d \<and> hd_state d' \<noteq> Staged \<and>
     (hd_bindings d' = hd_bindings d \<or> (\<exists>b \<in> set (hd_bindings d). Unresolved b))"

definition progress :: "(delivery_key \<times> disposition) option \<Rightarrow> holding \<Rightarrow> holding \<Rightarrow> bool" where
  "progress l s s' \<longleftrightarrow>
     (\<forall>k t. map_of (hs_Archived s) k = Some t \<longrightarrow> map_of (hs_Archived s') k = Some t \<and> held_at s' k = None) \<and>
     (\<forall>k d. held_at s k = Some d \<and> hd_state d \<noteq> Staged \<longrightarrow>
        (\<exists>d'. held_at s' k = Some d' \<and> kept d d') \<or>
        (\<exists>at disp. l = Some (k, disp) \<and> held_at s' k = None \<and> map_of (hs_Archived s') k = Some (tomb_of at disp d)))"

lemma progress_held:
  assumes "progress l s s'" "held_at s k = Some d" "hd_state d \<noteq> Staged"
  shows "(\<exists>d'. held_at s' k = Some d' \<and> kept d d') \<or>
    (\<exists>at disp. l = Some (k, disp) \<and> held_at s' k = None \<and> map_of (hs_Archived s') k = Some (tomb_of at disp d))"
  using assms(1) [unfolded progress_def, THEN conjunct2, rule_format, of k d] assms(2,3) by simp

lemma progress_archived: "progress l s s' \<Longrightarrow> map_of (hs_Archived s) k = Some t \<Longrightarrow> map_of (hs_Archived s') k = Some t \<and> held_at s' k = None"
  unfolding progress_def by (simp del: split_paired_All)

lemma kept_refl [simp]: "hd_state d \<noteq> Staged \<Longrightarrow> kept d d"
  by (simp add: kept_def)

lemma archived_not_held: "holding_ok lib lim s \<Longrightarrow> map_of (hs_Archived s) k = Some t \<Longrightarrow> held_at s k = None"
  by (auto simp: holding_ok_def held_at_def map_of_None dest!: map_of_SomeE)

lemma held_not_archived: "holding_ok lib lim s \<Longrightarrow> held_at s k = Some d \<Longrightarrow> map_of (hs_Archived s) k = None"
  using archived_not_held by fastforce

lemma hold_progress:
  assumes "hold_opt lib lim l s s'" "holding_ok lib lim s"
  shows "progress l s s'"
proof (cases "s' = s")
  case True
  thus ?thesis using archived_not_held [OF assms(2)] by (auto simp: progress_def)
next
  case False
  hence "hold_step lib lim l s s'" using assms(1) by (simp add: hold_opt_def)
  thus ?thesis using assms(2)
  proof (induction rule: hold_step.induct)
    case (Insert s k d)
    thus ?case using archived_not_held [OF Insert.prems] by (auto simp: progress_def)
  next
    case (Relabel s k d st l u)
    thus ?case using archived_not_held [OF Relabel.prems] held_not_archived [OF Relabel.prems Relabel(1)] by (auto simp: progress_def kept_def)
  next
    case (Resolve s k d b' b)
    thus ?case using archived_not_held [OF Resolve.prems] held_not_archived [OF Resolve.prems Resolve(1)] by (auto simp: progress_def kept_def)
  next
    case (Archive s k d disp at)
    thus ?case using archived_not_held [OF Archive.prems] held_not_archived [OF Archive.prems Archive(1)] by (auto simp: progress_def map_add_def)
  qed (auto simp: progress_def dest: archived_not_held held_not_archived)
qed

section \<open>Mailboxes after a step\<close>

definition delivered_to :: "mail_lib \<Rightarrow> mailboxes \<Rightarrow> delivery_key \<Rightarrow> string \<Rightarrow> Binding set \<Rightarrow> string \<Rightarrow> mail_owner \<Rightarrow> bool" where
  "delivered_to lib mail k sender B data o' \<longleftrightarrow>
     (\<exists>ms env i.
        mail o' = Some ms \<and> map_of (ms_Receipts ms) k = Some (env, hashIncoming lib data, i) \<and> rc_Sender env = sender \<and>
        set (rc_Recipients env) = (\<lambda>b. (bd_Address b, bd_Generation b)) ` {b \<in> B. owner_of b = o'} \<and>
        0 < i \<and> i \<le> length (ms_Messages ms) \<and> sm_Digest (ms_Messages ms ! (i - 1)) = hashIncoming lib data)"

definition mail_ok :: "mailboxes \<Rightarrow> bool" where
  "mail_ok mail \<longleftrightarrow> (\<forall>o' ms. mail o' = Some ms \<longrightarrow> owner_valid o' \<and> receipts_ok ms)"

definition mail_later :: "mail_lib \<Rightarrow> (mail_owner \<Rightarrow> mailbox_limits) \<Rightarrow> mailboxes \<Rightarrow> mailboxes \<Rightarrow> bool" where
  "mail_later lib mlim mail mail' \<longleftrightarrow>
     (\<forall>o'. case mail o' of
             None \<Rightarrow> mail' o' = None \<or> owner_valid o' \<and> mail' o' = Some new_store
           | Some ms \<Rightarrow> \<exists>ms'. mail' o' = Some ms' \<and> chain lib (mlim o') UNIV ms ms')"

lemma mail_later_refl [simp]: "mail_later lib mlim mail mail"
  by (auto simp: mail_later_def split: option.split)

lemma mail_later_put: "mail o' = Some ms \<Longrightarrow> chain lib (mlim o') UNIV ms ms' \<Longrightarrow> mail_later lib mlim mail (mail(o' \<mapsto> ms'))"
  by (auto simp: mail_later_def split: option.split)

lemma mail_later_new: "owner_valid o' \<Longrightarrow> mail o' = None \<Longrightarrow> mail_later lib mlim mail (mail(o' \<mapsto> new_store))"
  by (auto simp: mail_later_def split: option.split)

lemma mail_ok_later:
  assumes "mail_ok mail" "mail_later lib mlim mail mail'"
  shows "mail_ok mail'"
  unfolding mail_ok_def
proof (intro allI impI)
  fix o' ms'
  assume o: "mail' o' = Some ms'"
  have step: "case mail o' of None \<Rightarrow> mail' o' = None \<or> owner_valid o' \<and> mail' o' = Some new_store
           | Some ms \<Rightarrow> \<exists>ms'. mail' o' = Some ms' \<and> chain lib (mlim o') UNIV ms ms'"
    using assms(2) by (simp add: mail_later_def)
  show "owner_valid o' \<and> receipts_ok ms'"
  proof (cases "mail o'")
    case None
    thus ?thesis using step o by (simp add: receipts.new_store)
  next
    case (Some ms)
    hence "chain lib (mlim o') UNIV ms ms'" "owner_valid o'" "receipts_ok ms" using step o assms(1) by (auto simp: mail_ok_def)
    thus ?thesis by (simp add: receipts.chain_inv)
  qed
qed

lemma delivered_later:
  assumes "delivered_to lib mail k sender B data o'" "mail_later lib mlim mail mail'"
  shows "delivered_to lib mail' k sender B data o'"
proof -
  obtain ms env i where d: "mail o' = Some ms" "map_of (ms_Receipts ms) k = Some (env, hashIncoming lib data, i)" "rc_Sender env = sender"
      "set (rc_Recipients env) = (\<lambda>b. (bd_Address b, bd_Generation b)) ` {b \<in> B. owner_of b = o'}"
      "0 < i" "i \<le> length (ms_Messages ms)" "sm_Digest (ms_Messages ms ! (i - 1)) = hashIncoming lib data"
    using assms(1) by (auto simp: delivered_to_def)
  obtain ms' where "mail' o' = Some ms'" "later UNIV ms ms'"
    using assms(2) [unfolded mail_later_def, rule_format, of o'] d(1) by (auto dest: later_chain)
  moreover have "i - 1 < length (ms_Messages ms)" using d(5,6) by linarith
  ultimately have "map_of (ms_Receipts ms') k = Some (env, hashIncoming lib data, i)" "i \<le> length (ms_Messages ms')"
      "sm_Digest (ms_Messages ms' ! (i - 1)) = hashIncoming lib data" "mail' o' = Some ms'"
    using d(2,6,7) unfolding later_def by (simp_all del: split_paired_All)
  thus ?thesis unfolding delivered_to_def using d by blast
qed

lemma Import_chain: "chain lib lim UNIV s (snd (Import_mail lib lim db at r folder raw s))"
  using mail_step_chain [of lib lim "ImportOp db at r folder raw" s] by (auto intro: chain_mono)

lemma import_owner_later: "mail_later lib mlim mail (snd (import_owner lib mlim answer dv folder o' mail))"
proof -
  have "mail_later lib mlim mail (mail(o' \<mapsto> ms'))"
    if "mail o' = Some ms" "Import_mail lib (mlim o') db at r folder raw ms = (q, ms')" for q ms ms' db at r raw
    using Import_chain [of lib "mlim o'" ms db at r folder raw] that by (intro mail_later_put) auto
  thus ?thesis by (auto simp: import_owner_def split: prod.split resolved.split option.split sum.split)
qed

lemma canonicalReceipt_sel:
  "canonicalReceipt lib r = Some env \<Longrightarrow>
     rc_Gateway env = rc_Gateway r \<and> rc_Delivery env = rc_Delivery r \<and> rc_Sender env = rc_Sender r \<and> set (rc_Recipients env) = set (rc_Recipients r)"
  by (auto simp: canonicalReceipt_def Let_def split: if_splits)

lemma import_owner_delivers:
  assumes "import_owner lib mlim answer dv folder o' mail = (Inr u, mail')" "mail_ok mail"
  shows "delivered_to lib mail' (dv_Gateway dv, dv_ID dv) (dv_Sender dv) (set (dv_Bindings dv)) (dv_Raw dv) o'"
proof -
  obtain db at ms ms' i where ms: "mail o' = Some ms" "mail' = mail(o' \<mapsto> ms')"
    and imp: "Import_mail lib (mlim o') db at (receipt_for dv o') folder (dv_Raw dv) ms = (Inr i, ms')"
    using assms(1) by (auto simp: import_owner_def split: prod.splits resolved.splits option.splits sum.splits if_splits)
  obtain env where env: "canonicalReceipt lib (receipt_for dv o') = Some env"
    and at: "map_of (ms_Receipts ms') (rc_Gateway env, rc_Delivery env) = Some (env, hashIncoming lib (dv_Raw dv), i)"
    using Import_receipt [OF imp] by blast
  have "receipts_ok ms'"
    using receipts.chain_inv [OF Import_chain [of lib "mlim o'" ms db at "receipt_for dv o'" folder "dv_Raw dv"]] assms(2) ms(1) imp
    by (auto simp: mail_ok_def)
  hence "receipt_at ms' ((rc_Gateway env, rc_Delivery env), env, hashIncoming lib (dv_Raw dv), i)"
    using map_of_SomeD [OF at] by (auto simp: receipts_ok_def)
  thus ?thesis using ms at canonicalReceipt_sel [OF env]
    by (auto simp: delivered_to_def receipt_at_def receipt_for_def group_of_def)
qed

section \<open>Importers at work\<close>

definition key_of :: "Delivery \<Rightarrow> delivery_key" where
  "key_of dv = (dv_Gateway dv, dv_ID dv)"

text \<open>What an importer has read stays true of the delivery, and the owners it has passed have the mail.\<close>

definition reads :: "Delivery \<Rightarrow> held \<Rightarrow> bool" where
  "reads dv d \<longleftrightarrow>
     hd_state d \<noteq> Staged \<and> hd_raw d = Some (dv_Raw dv) \<and> hd_sender d = dv_Sender dv \<and> hd_digest d = dv_Digest dv \<and>
     (set (hd_bindings d) = set (dv_Bindings dv) \<or> (\<exists>b \<in> set (dv_Bindings dv). Unresolved b))"

definition flight_ok :: "mail_lib \<Rightarrow> holding \<Rightarrow> mailboxes \<Rightarrow> flight \<Rightarrow> bool" where
  "flight_ok lib s mail fl \<longleftrightarrow>
     (let dv = fl_Delivery fl in
      hashIncoming lib (dv_Raw dv) = dv_Digest dv \<and>
      (case held_at s (key_of dv) of None \<Rightarrow> map_of (hs_Archived s) (key_of dv) \<noteq> None | Some d \<Rightarrow> reads dv d) \<and>
      (\<forall>b \<in> set (dv_Bindings dv). owner_of b \<in> set (fl_todo fl) \<or>
         delivered_to lib mail (key_of dv) (dv_Sender dv) (set (dv_Bindings dv)) (dv_Raw dv) (owner_of b)))"

definition world_ok :: "mail_lib \<Rightarrow> ingress_limits \<Rightarrow> world \<Rightarrow> bool" where
  "world_ok lib lim w \<longleftrightarrow>
     holding_ok lib lim (wd_Holding w) \<and> mail_ok (wd_Mail w) \<and>
     (\<forall>n fl. wd_Flights w n = Some fl \<longrightarrow> flight_ok lib (wd_Holding w) (wd_Mail w) fl)"

lemma reads_kept: "reads dv d \<Longrightarrow> kept d d' \<Longrightarrow> reads dv d'"
  unfolding reads_def kept_def by auto

lemma flight_ok_later:
  assumes "flight_ok lib s mail fl" "progress l s s'" "mail_later lib mlim mail mail'"
  shows "flight_ok lib s' mail' fl"
proof -
  let ?dv = "fl_Delivery fl" let ?k = "key_of (fl_Delivery fl)"
  have "case held_at s' ?k of None \<Rightarrow> map_of (hs_Archived s') ?k \<noteq> None | Some d \<Rightarrow> reads ?dv d"
  proof (cases "held_at s ?k")
    case None
    then obtain t where "map_of (hs_Archived s) ?k = Some t" using assms(1) by (auto simp: flight_ok_def Let_def)
    thus ?thesis using progress_archived [OF assms(2)] by simp
  next
    case (Some d)
    hence r: "reads ?dv d" using assms(1) by (simp add: flight_ok_def Let_def)
    hence "hd_state d \<noteq> Staged" by (simp add: reads_def)
    from progress_held [OF assms(2) Some this] show ?thesis using reads_kept [OF r] by auto
  qed
  moreover have "owner_of b \<in> set (fl_todo fl) \<or> delivered_to lib mail' ?k (dv_Sender ?dv) (set (dv_Bindings ?dv)) (dv_Raw ?dv) (owner_of b)"
    if "b \<in> set (dv_Bindings ?dv)" for b
    using assms(1) that delivered_later [OF _ assms(3)] unfolding flight_ok_def Let_def by blast
  ultimately show ?thesis using assms(1) unfolding flight_ok_def Let_def by blast
qed

text \<open>A claim reads what is held.\<close>

lemma claim_reads:
  assumes "take_claim lib env uuid k release s = (Inr dv, s')" "holding_ok lib lim s"
  shows "key_of dv = k \<and> hashIncoming lib (dv_Raw dv) = dv_Digest dv \<and> (\<exists>d. held_at s' k = Some d \<and> reads dv d)"
proof -
  have c: "claim env uuid k (5 * minute) release s = (Inr dv, s')" and h: "hashIncoming lib (dv_Raw dv) = dv_Digest dv"
    using assms(1) by (auto simp: take_claim_def split: prod.splits sum.splits if_splits)
  obtain d lease where d: "held_at s k = Some d" "hd_state d = (if release then Quarantined else Pending)"
    and dv: "readDelivery s k = Inr (dv\<lparr>dv_Lease := hd_lease d\<rparr>)"
    and s': "s' = put_held k (d\<lparr>hd_lease := lease, hd_lease_until := unix (en_now env + 5 * minute)\<rparr>) s"
    using c by (auto simp: claim_def transact_def readDelivery_def split: sum.splits option.splits if_splits)
  have "held_ok lib lim d" by (rule held_okD [OF assms(2) d(1)])
  then obtain data where "hd_raw d = Some data" using d(2) by (auto simp: held_ok_def split: if_splits)
  moreover have "set (readBindings d) = set (hd_bindings d)" by (simp add: readBindings_def)
  moreover have "key_of (dv\<lparr>dv_Lease := hd_lease d\<rparr>) = key_of dv" by (simp add: key_of_def)
  ultimately have "key_of dv = k" "dv_Raw dv = data" "dv_Sender dv = hd_sender d" "dv_Digest dv = hd_digest d" "set (dv_Bindings dv) = set (hd_bindings d)"
    using dv d(1) by (cases dv; auto simp: readDelivery_def key_of_def)+
  thus ?thesis using h d s' \<open>hd_raw d = Some data\<close> by (auto simp: reads_def)
qed

section \<open>Steps of the world\<close>

definition quiet :: "(delivery_key \<times> disposition) option \<Rightarrow> bool" where
  "quiet l \<longleftrightarrow> (\<forall>k disp. l = Some (k, disp) \<longrightarrow> disp \<in> {Discarded, Partially_released})"

lemma migrate_id: "holding_ok lib lim s \<Longrightarrow> migrateArchive now s = s"
proof -
  assume "holding_ok lib lim s"
  hence "\<forall>kd \<in> set (hs_Deliveries s). hd_state (snd kd) \<noteq> Imported_legacy" by (auto simp: holding_ok_def held_ok_def)
  hence "filter (\<lambda>(k, d). hd_state d \<noteq> Imported_legacy) (hs_Deliveries s) = hs_Deliveries s"
    "filter (\<lambda>(k, d). hd_state d = Imported_legacy \<and> map_of (hs_Archived s) k = None \<and> hd_bindings d \<noteq> []) (hs_Deliveries s) = []"
    by (auto simp: filter_id_conv filter_empty_conv)
  thus ?thesis by (simp add: migrateArchive_def)
qed

lemma holding_step_opt:
  assumes "holding_ok lib lim s"
  shows "\<exists>l. quiet l \<and> hold_opt lib lim l s (holding_step lib lim op s)"
proof (cases op)
  case (DiscardOp env k)
  obtain disp where "disp \<in> {Discarded, Partially_released}" "hold_opt lib lim (Some (k, disp)) s (snd (Discard env k s))"
    using Discard_opt by blast
  thus ?thesis using DiscardOp by (intro exI [of _ "Some (k, disp)"]) (auto simp: quiet_def)
next
  case (ReopenOp now)
  thus ?thesis using migrate_id [OF assms] by (intro exI [of _ None]) (simp add: quiet_def)
qed (auto simp: quiet_def intro!: exI [of _ None] hold_intro)

text \<open>A delivery ends as imported or released only by an importer that has served everyone.\<close>

definition earned :: "world \<Rightarrow> (delivery_key \<times> disposition) option \<Rightarrow> bool" where
  "earned w l \<longleftrightarrow> quiet l \<or> (\<exists>n fl disp. l = Some (key_of (fl_Delivery fl), disp) \<and> wd_Flights w n = Some fl \<and> fl_todo fl = [])"

lemma world_step_cases:
  assumes "world_ok lib lim w"
  shows "\<exists>l. earned w l \<and> hold_opt lib lim l (wd_Holding w) (wd_Holding (world_step lib lim mlim e w)) \<and>
    mail_later lib mlim (wd_Mail w) (wd_Mail (world_step lib lim mlim e w))"
proof (cases e)
  case (Hold op)
  thus ?thesis using assms holding_step_opt [of lib lim "wd_Holding w" op] by (auto simp: world_ok_def earned_def)
next
  case (Provision o')
  thus ?thesis by (intro exI [of _ None]) (auto simp: earned_def quiet_def mail_later_new)
next
  case (Mail o' op)
  have "chain lib (mlim o') UNIV ms (mail_step lib (mlim o') op ms)" for ms using mail_step_chain by (rule chain_mono) simp
  thus ?thesis using Mail by (intro exI [of _ None]) (auto simp: earned_def quiet_def mail_later_put split: option.split)
next
  case (Claim n env uuid k release folder)
  have "hold_opt lib lim None (wd_Holding w) (wd_Holding (world_step lib lim mlim e w))"
    using Claim take_claim_opt [of lib lim "wd_Holding w" env uuid k release] by (auto split: prod.split sum.split)
  thus ?thesis using Claim by (intro exI [of _ None]) (auto simp: earned_def quiet_def split: prod.split sum.split)
next
  case (ImportOne n answer)
  have "mail_later lib mlim (wd_Mail w) (wd_Mail (world_step lib lim mlim e w))"
  proof -
    have "mail_later lib mlim (wd_Mail w) mail" if "import_owner lib mlim answer dv folder o' (wd_Mail w) = (r, mail)" for dv folder o' r mail
      using import_owner_later [of lib mlim "wd_Mail w" answer dv folder o'] that by simp
    thus ?thesis using ImportOne by (auto split: option.split list.split prod.split sum.split)
  qed
  moreover have "wd_Holding (world_step lib lim mlim e w) = wd_Holding w"
    using ImportOne by (auto split: option.split list.split prod.split sum.split)
  ultimately show ?thesis by (intro exI [of _ None]) (auto simp: earned_def quiet_def)
next
  case (Ack n env)
  show ?thesis
  proof (cases "\<exists>fl. wd_Flights w n = Some fl \<and> fl_todo fl = []")
    case True
    then obtain fl where fl: "wd_Flights w n = Some fl" "fl_todo fl = []" by blast
    let ?dv = "fl_Delivery fl" let ?d = "if fl_release fl then Released else Imported"
    have "earned w (Some (key_of ?dv, ?d))" "earned w None" using fl by (auto simp: earned_def quiet_def)
    thus ?thesis using Ack fl acknowledge_opt [of lib lim "key_of ?dv" "fl_release fl" "wd_Holding w" env "dv_Lease ?dv" "dv_Digest ?dv"]
      by (auto simp: Let_def key_of_def)
  next
    case False
    hence "world_step lib lim mlim e w = w" using Ack by (auto split: option.split)
    thus ?thesis by (intro exI [of _ None]) (simp add: earned_def quiet_def)
  qed
next
  case (Crash n)
  thus ?thesis by (intro exI [of _ None]) (simp add: earned_def quiet_def)
qed

lemma owners_of_set [simp]: "set (owners_of bs) = owner_of ` set bs"
  by (simp add: owners_of_def)

text \<open>The importers after a step: as before, or just started, or one owner further.\<close>

lemma new_flight_ok:
  assumes "world_ok lib lim w" "wd_Flights (world_step lib lim mlim e w) n = Some fl" "wd_Flights w n \<noteq> Some fl"
  shows "flight_ok lib (wd_Holding (world_step lib lim mlim e w)) (wd_Mail (world_step lib lim mlim e w)) fl"
proof (cases e)
  case (Claim n' env uuid k release folder)
  then obtain dv s where c: "take_claim lib env uuid k release (wd_Holding w) = (Inr dv, s)"
    and fl: "fl = \<lparr>fl_Delivery = dv, fl_release = release, fl_folder = folder, fl_todo = owners_of (dv_Bindings dv)\<rparr>"
    and st: "wd_Holding (world_step lib lim mlim e w) = s"
    using assms(2,3) by (auto split: prod.splits sum.splits if_splits)
  have "holding_ok lib lim (wd_Holding w)" using assms(1) by (simp add: world_ok_def)
  from claim_reads [OF c this] show ?thesis by (auto simp: flight_ok_def Let_def fl st)
next
  case (ImportOne n' answer)
  obtain fl0 o' os mail where old: "wd_Flights w n = Some fl0" "fl_todo fl0 = o' # os" "fl = fl0\<lparr>fl_todo := os\<rparr>"
    and imp: "import_owner lib mlim answer (fl_Delivery fl0) (fl_folder fl0) o' (wd_Mail w) = (Inr (), mail)"
    and st: "wd_Holding (world_step lib lim mlim e w) = wd_Holding w" "wd_Mail (world_step lib lim mlim e w) = mail"
    using assms(2,3) ImportOne by (auto split: option.splits list.splits prod.splits sum.splits if_splits)
  let ?dv = "fl_Delivery fl0"
  have ok: "holding_ok lib lim (wd_Holding w)" "mail_ok (wd_Mail w)" "flight_ok lib (wd_Holding w) (wd_Mail w) fl0"
    using assms(1) old(1) by (auto simp: world_ok_def)
  have "mail_later lib mlim (wd_Mail w) mail"
    using import_owner_later [of lib mlim "wd_Mail w" answer ?dv "fl_folder fl0" o'] imp by simp
  with ok(3) hold_progress [OF hold_opt_refl [where l = None] ok(1)] have "flight_ok lib (wd_Holding w) mail fl0" by (rule flight_ok_later)
  moreover have "delivered_to lib mail (key_of ?dv) (dv_Sender ?dv) (set (dv_Bindings ?dv)) (dv_Raw ?dv) o'"
    using import_owner_delivers [OF imp ok(2)] by (simp add: key_of_def)
  ultimately show ?thesis unfolding st old(3) by (auto simp: flight_ok_def Let_def old(2))
qed (use assms(2,3) in \<open>auto simp: Let_def split: option.splits if_splits\<close>)

lemma world_step_ok: "world_ok lib lim w \<Longrightarrow> world_ok lib lim (world_step lib lim mlim e w)"
proof -
  let ?w = "world_step lib lim mlim e w"
  assume ok: "world_ok lib lim w"
  obtain l where hold: "hold_opt lib lim l (wd_Holding w) (wd_Holding ?w)" and mail: "mail_later lib mlim (wd_Mail w) (wd_Mail ?w)"
    using world_step_cases [OF ok] by blast
  have h: "holding_ok lib lim (wd_Holding w)" "mail_ok (wd_Mail w)" using ok by (auto simp: world_ok_def)
  have "flight_ok lib (wd_Holding ?w) (wd_Mail ?w) fl" if "wd_Flights ?w n = Some fl" for n fl
  proof (cases "wd_Flights w n = Some fl")
    case True
    hence "flight_ok lib (wd_Holding w) (wd_Mail w) fl" using ok by (simp add: world_ok_def)
    thus ?thesis using hold_progress [OF hold h(1)] mail by (rule flight_ok_later)
  qed (rule new_flight_ok [OF ok that])
  thus ?thesis using holding_ok_opt [OF hold h(1)] mail_ok_later [OF h(2) mail] by (simp add: world_ok_def)
qed

lemma world_run_ok: "world_ok lib lim w \<Longrightarrow> world_ok lib lim (world_run lib lim mlim evs w)"
  by (induction evs arbitrary: w) (auto intro: world_step_ok)

lemma empty_world_ok: "limits_valid lim \<Longrightarrow> world_ok lib lim (new_world lim)"
  by (auto simp: world_ok_def new_world_def new_holding_def holding_ok_def mail_ok_def routes_ok_def used_bytes_def limits_valid_def)

lemma reached_ok: "limits_valid lim \<Longrightarrow> world_ok lib lim (world_run lib lim mlim evs (new_world lim))"
  by (intro world_run_ok empty_world_ok)

section \<open>Accepted mail is accounted for\<close>

definition accounted :: "mail_lib \<Rightarrow> delivery_key \<Rightarrow> string \<Rightarrow> string \<Rightarrow> Binding list \<Rightarrow> world \<Rightarrow> bool" where
  "accounted lib k sender data bs w \<longleftrightarrow>
     (\<exists>d. held_at (wd_Holding w) k = Some d \<and> hd_state d \<in> {Pending, Quarantined} \<and> hd_raw d = Some data \<and> hd_sender d = sender \<and> hd_bindings d = bs) \<or>
     (\<exists>t. map_of (hs_Archived (wd_Holding w)) k = Some t \<and> tb_sender t = sender \<and> tb_digest t = hashIncoming lib data \<and>
        (tb_disposition t \<in> {Discarded, Partially_released} \<or>
         (\<forall>b \<in> set bs. delivered_to lib (wd_Mail w) k sender (set bs) data (owner_of b))))"

lemma held_state_cases: "held_ok lib lim d \<Longrightarrow> hd_state d \<noteq> Staged \<Longrightarrow> hd_state d \<in> {Pending, Quarantined}"
  by (cases "hd_state d") (auto simp: held_ok_def)

lemma unresolved_owner: "Unresolved b \<Longrightarrow> \<not> owner_valid (owner_of b)"
  by (simp add: Unresolved_def owner_of_def owner_valid_def validText_def)

lemma flight_served:
  assumes "flight_ok lib s mail fl" "fl_todo fl = []" "held_at s (key_of (fl_Delivery fl)) = Some d" "mail_ok mail" "hd_raw d = Some data"
  shows "\<forall>b \<in> set (hd_bindings d). delivered_to lib mail (key_of (fl_Delivery fl)) (hd_sender d) (set (hd_bindings d)) data (owner_of b)"
proof -
  let ?dv = "fl_Delivery fl"
  have r: "reads ?dv d" and served: "\<forall>b \<in> set (dv_Bindings ?dv). delivered_to lib mail (key_of ?dv) (dv_Sender ?dv) (set (dv_Bindings ?dv)) (dv_Raw ?dv) (owner_of b)"
    using assms(1-3) by (auto simp: flight_ok_def Let_def)
  have "\<not> Unresolved b" if "b \<in> set (dv_Bindings ?dv)" for b
    using served that assms(4) unresolved_owner [of b] by (auto simp: delivered_to_def mail_ok_def)
  thus ?thesis using r served assms(5) by (auto simp: reads_def)
qed

lemma accounted_step:
  assumes "accounted lib k sender data bs w" "world_ok lib lim w" "\<forall>b \<in> set bs. \<not> Unresolved b"
  shows "accounted lib k sender data bs (world_step lib lim mlim e w)"
proof -
  let ?w = "world_step lib lim mlim e w"
  obtain l where l: "earned w l" and hold: "hold_opt lib lim l (wd_Holding w) (wd_Holding ?w)" and mail: "mail_later lib mlim (wd_Mail w) (wd_Mail ?w)"
    using world_step_cases [OF assms(2)] by blast
  have h: "holding_ok lib lim (wd_Holding w)" "mail_ok (wd_Mail w)" using assms(2) by (auto simp: world_ok_def)
  note p = hold_progress [OF hold h(1)]
  from assms(1) consider
      (held) d where "held_at (wd_Holding w) k = Some d" "hd_state d \<noteq> Staged" "hd_raw d = Some data" "hd_sender d = sender" "hd_bindings d = bs"
    | (ended) t where "map_of (hs_Archived (wd_Holding w)) k = Some t" "tb_sender t = sender" "tb_digest t = hashIncoming lib data"
        "tb_disposition t \<in> {Discarded, Partially_released} \<or> (\<forall>b \<in> set bs. delivered_to lib (wd_Mail w) k sender (set bs) data (owner_of b))"
    by (auto simp: accounted_def)
  thus ?thesis
  proof cases
    case held
    have dg: "hd_digest d = hashIncoming lib data" using held_okD [OF h(1) held(1)] held(2,3) by (auto simp: held_ok_def)
    from progress_held [OF p held(1,2)] show ?thesis
    proof (elim disjE exE conjE)
      fix d' assume d': "held_at (wd_Holding ?w) k = Some d'" "kept d d'"
      have "hd_state d' \<in> {Pending, Quarantined}"
        using held_state_cases [OF held_okD [OF holding_ok_opt [OF hold h(1)] d'(1)]] d'(2) by (auto simp: kept_def)
      thus ?thesis using d' held assms(3) by (auto simp: accounted_def kept_def)
    next
      fix at disp assume a: "l = Some (k, disp)" "map_of (hs_Archived (wd_Holding ?w)) k = Some (tomb_of at disp d)"
      have "disp \<in> {Discarded, Partially_released} \<or> (\<forall>b \<in> set bs. delivered_to lib (wd_Mail w) k sender (set bs) data (owner_of b))"
      proof (cases "quiet l")
        case True
        thus ?thesis using a(1) by (simp add: quiet_def)
      next
        case False
        then obtain n fl where fl: "k = key_of (fl_Delivery fl)" "wd_Flights w n = Some fl" "fl_todo fl = []" using l a(1) by (auto simp: earned_def)
        have "flight_ok lib (wd_Holding w) (wd_Mail w) fl" using assms(2) fl(2) by (simp add: world_ok_def)
        from flight_served [OF this fl(3) held(1) [unfolded fl(1)] h(2) held(3)] show ?thesis using held(4,5) fl(1) by simp
      qed
      thus ?thesis using a(2) dg held(4) delivered_later [OF _ mail, of k sender "set bs" data] by (auto simp: accounted_def tomb_of_def)
    qed
  next
    case ended
    thus ?thesis using progress_archived [OF p ended(1)] delivered_later [OF _ mail, of k sender "set bs" data] by (auto simp: accounted_def)
  qed
qed

lemma accounted_run:
  "accounted lib k sender data bs w \<Longrightarrow> world_ok lib lim w \<Longrightarrow> \<forall>b \<in> set bs. \<not> Unresolved b \<Longrightarrow>
     accounted lib k sender data bs (world_run lib lim mlim evs w)"
  by (induction evs arbitrary: w) (auto intro: accounted_step world_step_ok)

end
