(* ===== verification/Ingress_Claims.thy ===== *)
theory Ingress_Claims
  imports Ingress_Properties
begin

text \<open>
  The properties of the inbound gateway, with a small world in which they are used: two owners behind two addresses.
\<close>

section \<open>A small world\<close>

definition demo_ingress :: ingress_limits where
  "demo_ingress = \<lparr>il_MessageBytes = 20, il_PayloadBytes = 50, il_Records = 5\<rparr>"

definition demo_volume :: volume where
  "demo_volume = \<lparr>vo_canceled = False, vo_page_size = 512, vo_files = [Regular 0, Absent, Absent], vo_statfs = Some (4096, 1000000),
     vo_checkpoint = True, vo_busy = False, vo_drive = (\<lambda>_. True)\<rparr>"

definition demo_env :: "int \<Rightarrow> ingress_env" where
  "demo_env t = \<lparr>en_now = t * second, en_db = True, en_before = demo_volume, en_volume = demo_volume\<rparr>"

definition demo_owner :: "string \<Rightarrow> mail_owner" where
  "demo_owner m = \<lparr>ow_Issuer = ''idp'', ow_Subject = m, ow_Mailbox = m\<rparr>"

definition demo_route :: "string \<Rightarrow> int \<Rightarrow> bool \<Rightarrow> Route" where
  "demo_route m g active = \<lparr>ro_Address = m @ ''@x'', ro_Issuer = ''idp'', ro_Subject = m, ro_Mailbox = m, ro_Generation = g, ro_Active = active,
     ro_ValidUntil = Some 1000\<rparr>"

text \<open>Two routes, two mailboxes, and a delivery for both of them.\<close>

definition demo_arrival :: "event list" where
  "demo_arrival =
     [Provision (demo_owner ''a''), Provision (demo_owner ''b''),
      Hold (SetRouteOp (demo_env 1) False (demo_route ''a'' 1 True)), Hold (SetRouteOp (demo_env 1) False (demo_route ''b'' 1 True)),
      Hold (BindOp (demo_env 2) ''mx'' ''d1'' ''s@y'' ''a@x''), Hold (BindOp (demo_env 2) ''mx'' ''d1'' ''s@y'' ''b@x'')]"

definition demo_world :: world where
  "demo_world = world_run demo_lib demo_ingress (\<lambda>_. demo_limits) demo_arrival (new_world demo_ingress)"

lemma demo_valid: "limits_valid demo_ingress"
  by (simp add: limits_valid_def demo_ingress_def MaxInt64_def)

lemma demo_held:
  "map_option (\<lambda>d. (hd_state d, map bd_Address (hd_bindings d))) (held_at (wd_Holding demo_world) (''mx'', ''d1'')) = Some (Staged, [''a@x'', ''b@x''])"
  by code_simp

section \<open>Accepting\<close>

lemma Accept_first:
  assumes "holding_ok lib lim s" "held_at s (g, i) = Some d" "hd_state d = Staged" "Accept lib lim env g i sender raw s = (Inr (), s')"
  shows "raw \<noteq> [] \<and> int (length raw) \<le> il_MessageBytes lim \<and> hd_sender d = sender \<and> hold_opt lib lim None s s' \<and>
    s' = put_held (g, i) (d\<lparr>hd_raw := Some raw, hd_digest := hashIncoming lib raw, hd_state := Pending\<rparr>) s"
proof -
  define data where "data = take (nat (il_MessageBytes lim + 1)) raw"
  have "data \<noteq> []" "int (length data) \<le> il_MessageBytes lim" "hd_sender d = sender"
    and s': "s' = put_held (g, i) (d\<lparr>hd_raw := Some data, hd_digest := hashIncoming lib data, hd_state := Pending\<rparr>) s"
    using assms(2-4) unfolding Accept_def Let_def data_def [symmetric]
    by (auto simp: admitted_def transact_def split: option.splits if_splits)
  moreover from this have "data = raw" by (auto simp: data_def min_def split: if_splits)
  moreover have "hold_opt lib lim None s s'" using Accept_opt [of lib lim s env g i sender raw] assms(4) by simp
  ultimately show ?thesis by simp
qed

lemma accepted_starts:
  assumes "world_ok lib lim w" "held_at (wd_Holding w) (g, i) = Some d" "hd_state d = Staged"
    and "Accept lib lim env g i sender raw (wd_Holding w) = (Inr (), s)"
  shows "world_ok lib lim (w\<lparr>wd_Holding := s\<rparr>)" "accounted lib (g, i) sender raw (hd_bindings d) (w\<lparr>wd_Holding := s\<rparr>)"
    "\<forall>b \<in> set (hd_bindings d). \<not> Unresolved b" "raw \<noteq> []" "int (length raw) \<le> il_MessageBytes lim"
proof -
  have h: "holding_ok lib lim (wd_Holding w)" using assms(1) by (simp add: world_ok_def)
  note a = Accept_first [OF h assms(2-4)]
  have "progress None (wd_Holding w) s" using a hold_progress [OF _ h] by blast
  hence "flight_ok lib s (wd_Mail w) fl" if "wd_Flights w n = Some fl" for n fl
    using that assms(1) flight_ok_later [OF _ _ mail_later_refl, of lib "wd_Holding w" "wd_Mail w" fl None s] by (auto simp: world_ok_def)
  thus "world_ok lib lim (w\<lparr>wd_Holding := s\<rparr>)" using a assms(1) holding_ok_opt [OF _ h] by (auto simp: world_ok_def)
  show "accounted lib (g, i) sender raw (hd_bindings d) (w\<lparr>wd_Holding := s\<rparr>)" using a assms(2) by (simp add: accounted_def)
  show "\<forall>b \<in> set (hd_bindings d). \<not> Unresolved b" using held_okD [OF h assms(2)] assms(3) by (auto simp: held_ok_def)
qed (use Accept_first [OF _ assms(2-4)] assms(1) in \<open>auto simp: world_ok_def\<close>)

text \<open>
  C5: Accepted mail is accounted for, end to end. Once \<open>Accept\<close> has taken a staged delivery, then after every later run of
  the gateway, the mailboxes and any number of importers, with importers stopping anywhere, databases failing
  and routes changing in between, the delivery is held with exactly its bytes and the recipients and owners it
  was bound to, or an administrator has discarded it, or the mailbox of every one of these owners has a receipt
  for it that names the owner's own recipients and a message of these bytes.
\<close>

theorem accepted_mail_accounted:
  assumes "limits_valid lim" and "w = world_run lib lim mlim evs (new_world lim)"
    and "held_at (wd_Holding w) (g, i) = Some d" and "hd_state d = Staged"
    and "Accept lib lim env g i sender raw (wd_Holding w) = (Inr (), s)"
    and "w' = world_run lib lim mlim evs' (w\<lparr>wd_Holding := s\<rparr>)"
  shows "(\<exists>d'. held_at (wd_Holding w') (g, i) = Some d' \<and> hd_state d' \<in> {Pending, Quarantined} \<and> hd_raw d' = Some raw \<and>
        hd_sender d' = sender \<and> hd_bindings d' = hd_bindings d) \<or>
     (\<exists>t. map_of (hs_Archived (wd_Holding w')) (g, i) = Some t \<and> tb_sender t = sender \<and> tb_digest t = hashIncoming lib raw \<and>
        (tb_disposition t \<in> {Discarded, Partially_released} \<or>
         (\<forall>b \<in> set (hd_bindings d). delivered_to lib (wd_Mail w') (g, i) sender (set (hd_bindings d)) raw (owner_of b))))"
proof -
  have "world_ok lib lim w" unfolding assms(2) by (rule reached_ok [OF assms(1)])
  note a = accepted_starts [OF this assms(3-5)]
  show ?thesis using accounted_run [OF a(2,1,3)] unfolding assms(6) accounted_def .
qed

definition demo_accepted :: world where
  "demo_accepted = demo_world\<lparr>wd_Holding := snd (Accept demo_lib demo_ingress (demo_env 3) ''mx'' ''d1'' ''s@y'' ''hello'' (wd_Holding demo_world))\<rparr>"

text \<open>An importer serves one owner and stops; another one takes over after the lease and ends the delivery.\<close>

definition demo_delivery :: "event list" where
  "demo_delivery =
     [Claim 1 (demo_env 4) (Some ''l1'') (''mx'', ''d1'') False ''INBOX'', ImportOne 1 (Opened (demo_owner ''a''), True, ''t''),
      ImportOne 1 (NoStore, True, ''t''),
      Claim 2 (demo_env 400) (Some ''l2'') (''mx'', ''d1'') False ''INBOX'', ImportOne 2 (Opened (demo_owner ''a''), True, ''t''),
      ImportOne 2 (Opened (demo_owner ''b''), True, ''t''), Ack 2 (demo_env 401)]"

definition demo_dv :: "string \<Rightarrow> Delivery" where
  "demo_dv lease =
     \<lparr>dv_Gateway = ''mx'', dv_ID = ''d1'', dv_Sender = ''s@y'', dv_Digest = ''hello'', dv_Raw = ''hello'', dv_State = Some Pending,
      dv_Bindings = map (\<lambda>m. \<lparr>bd_Address = m @ ''@x'', bd_Issuer = ''idp'', bd_Subject = m, bd_Mailbox = m, bd_Generation = 1\<rparr>) [''a'', ''b''],
      dv_Lease = lease, dv_Disposition = None\<rparr>"

lemma demo_claims:
  "fst (take_claim demo_lib (demo_env 4) (Some ''l1'') (''mx'', ''d1'') False (wd_Holding demo_accepted)) = Inr (demo_dv ''l1'')"
  "fst (take_claim demo_lib (demo_env 400) (Some ''l2'') (''mx'', ''d1'') False
     (snd (take_claim demo_lib (demo_env 4) (Some ''l1'') (''mx'', ''d1'') False (wd_Holding demo_accepted)))) = Inr (demo_dv ''l2'')"
  by code_simp+

definition demo_rcpt :: "string \<Rightarrow> receipt" where
  "demo_rcpt m = receipt_for (demo_dv []) (demo_owner m)"

definition demo_box :: "string \<Rightarrow> mail_store" where
  "demo_box m = snd (Import_mail demo_lib demo_limits True ''t'' (demo_rcpt m) ''INBOX'' ''hello'' new_store)"

lemma receipt_lease [simp]: "receipt_for (demo_dv lease) (demo_owner m) = demo_rcpt m" "dv_Raw (demo_dv lease) = ''hello''"
  by (simp_all add: demo_rcpt_def receipt_for_def demo_dv_def)

lemma demo_canonical:
  "m = ''a'' \<or> m = ''b'' \<Longrightarrow> canonicalReceipt demo_lib (demo_rcpt m) = Some (demo_rcpt m)"
proof -
  have "canonicalReceipt demo_lib (demo_rcpt ''a'') = Some (demo_rcpt ''a'')"
    "canonicalReceipt demo_lib (demo_rcpt ''b'') = Some (demo_rcpt ''b'')" by code_simp+
  thus "m = ''a'' \<or> m = ''b'' \<Longrightarrow> ?thesis" by blast
qed

lemma demo_import:
  assumes "m = ''a'' \<or> m = ''b''"
  shows "Import_mail demo_lib demo_limits True ''t'' (demo_rcpt m) ''INBOX'' ''hello'' new_store = (Inr 1, demo_box m)"
    and "Import_mail demo_lib demo_limits True ''t'' (demo_rcpt m) ''INBOX'' ''hello'' (demo_box m) = (Inr 1, demo_box m)"
proof -
  let ?r = "demo_rcpt m"
  have "fst (Import_mail demo_lib demo_limits True ''t'' ?r ''INBOX'' ''hello'' new_store) = Inr 1"
    using demo_canonical [OF assms] by (simp add: mail_eval system_mem)
  thus 1: "Import_mail demo_lib demo_limits True ''t'' ?r ''INBOX'' ''hello'' new_store = (Inr 1, demo_box m)"
    by (simp add: demo_box_def prod_eq_iff)
  have "map_of (ms_Receipts (demo_box m)) (rc_Gateway ?r, rc_Delivery ?r) = Some (?r, hashIncoming demo_lib ''hello'', 1)"
    using Import_receipt [OF 1] demo_canonical [OF assms] by (metis option.inject)
  thus "Import_mail demo_lib demo_limits True ''t'' ?r ''INBOX'' ''hello'' (demo_box m) = (Inr 1, demo_box m)"
    using demo_canonical [OF assms] by (subst Import_again) (auto simp: demo_limits_def)
qed

lemma demo_owners: "owners_of (dv_Bindings (demo_dv lease)) = [demo_owner ''a'', demo_owner ''b'']" "demo_owner ''a'' \<noteq> demo_owner ''b''"
  by (simp_all add: owners_of_def demo_dv_def owner_of_def demo_owner_def)

lemma demo_mail: "wd_Mail demo_accepted = [demo_owner ''a'' \<mapsto> new_store, demo_owner ''b'' \<mapsto> new_store]"
proof -
  have "owner_valid (demo_owner ''a'')" "owner_valid (demo_owner ''b'')" by code_simp+
  thus ?thesis using demo_owners(2) by (simp add: demo_accepted_def demo_world_def demo_arrival_def new_world_def)
qed

lemma demo_idle: "wd_Flights demo_accepted = (\<lambda>_. None)"
  by (simp add: demo_accepted_def demo_world_def demo_arrival_def new_world_def)

lemmas demo_steps = import_owner_def demo_import demo_mail demo_idle demo_owners demo_owners(2) [symmetric] fun_upd_twist

definition demo_claimed :: holding where
  "demo_claimed = snd (take_claim demo_lib (demo_env 4) (Some ''l1'') (''mx'', ''d1'') False (wd_Holding demo_accepted))"

definition demo_reclaimed :: holding where
  "demo_reclaimed = snd (take_claim demo_lib (demo_env 400) (Some ''l2'') (''mx'', ''d1'') False demo_claimed)"

lemma demo_claims_eq:
  "take_claim demo_lib (demo_env 4) (Some ''l1'') (''mx'', ''d1'') False (wd_Holding demo_accepted) = (Inr (demo_dv ''l1''), demo_claimed)"
  "take_claim demo_lib (demo_env 400) (Some ''l2'') (''mx'', ''d1'') False demo_claimed = (Inr (demo_dv ''l2''), demo_reclaimed)"
  using demo_claims by (simp_all add: demo_claimed_def demo_reclaimed_def prod_eq_iff)

lemma demo_half:
  "world_run demo_lib demo_ingress (\<lambda>_. demo_limits) (take 3 demo_delivery) demo_accepted =
     demo_accepted\<lparr>wd_Holding := demo_claimed, wd_Mail := [demo_owner ''a'' \<mapsto> demo_box ''a'', demo_owner ''b'' \<mapsto> new_store]\<rparr>"
  using demo_owners by (simp add: demo_delivery_def demo_steps demo_claims_eq)

lemma demo_key [simp]: "dv_Gateway (demo_dv l) = ''mx''" "dv_ID (demo_dv l) = ''d1''" "dv_Lease (demo_dv l) = l" "dv_Digest (demo_dv l) = ''hello''"
  by (simp_all add: demo_dv_def)

lemma demo_whole:
  "world_run demo_lib demo_ingress (\<lambda>_. demo_limits) demo_delivery demo_accepted =
     demo_accepted\<lparr>wd_Holding := snd (acknowledge (demo_env 401) (''mx'', ''d1'') ''l2'' ''hello'' False demo_reclaimed),
       wd_Mail := [demo_owner ''a'' \<mapsto> demo_box ''a'', demo_owner ''b'' \<mapsto> demo_box ''b'']\<rparr>"
  using demo_owners by (simp add: demo_delivery_def demo_steps demo_claims_eq Let_def)

lemma demo_ack:
  "map_option tb_disposition (map_of (hs_Archived (snd (acknowledge (demo_env 401) (''mx'', ''d1'') ''l2'' ''hello'' False demo_reclaimed))) (''mx'', ''d1'')) =
     Some Imported"
  "held_at (snd (acknowledge (demo_env 401) (''mx'', ''d1'') ''l2'' ''hello'' False demo_reclaimed)) (''mx'', ''d1'') = None"
  by code_simp+

lemma demo_accept: "fst (Accept demo_lib demo_ingress (demo_env 3) ''mx'' ''d1'' ''s@y'' ''hello'' (wd_Holding demo_world)) = Inr ()"
  by code_simp

theorem accepted_mail_accounted_witness:
  "delivered_to demo_lib (wd_Mail (world_run demo_lib demo_ingress (\<lambda>_. demo_limits) demo_delivery demo_accepted)) (''mx'', ''d1'') ''s@y''
     (set (dv_Bindings (demo_dv ''l2''))) ''hello'' (demo_owner ''b'')"
proof -
  let ?w = "world_run demo_lib demo_ingress (\<lambda>_. demo_limits) demo_delivery demo_accepted"
  let ?s = "snd (Accept demo_lib demo_ingress (demo_env 3) ''mx'' ''d1'' ''s@y'' ''hello'' (wd_Holding demo_world))"
  have "map_option (\<lambda>d. (hd_state d, hd_bindings d)) (held_at (wd_Holding demo_world) (''mx'', ''d1'')) = Some (Staged, dv_Bindings (demo_dv ''l2''))"
    by code_simp
  then obtain d where d: "held_at (wd_Holding demo_world) (''mx'', ''d1'') = Some d" "hd_state d = Staged" "hd_bindings d = dv_Bindings (demo_dv ''l2'')" by auto
  have acc: "Accept demo_lib demo_ingress (demo_env 3) ''mx'' ''d1'' ''s@y'' ''hello'' (wd_Holding demo_world) = (Inr (), ?s)"
    using demo_accept by (simp add: prod_eq_iff)
  have w: "?w = world_run demo_lib demo_ingress (\<lambda>_. demo_limits) demo_delivery (demo_world\<lparr>wd_Holding := ?s\<rparr>)" by (simp add: demo_accepted_def)
  obtain t where t: "map_of (hs_Archived (wd_Holding ?w)) (''mx'', ''d1'') = Some t" "tb_disposition t = Imported"
    using demo_ack(1) by (auto simp: demo_whole)
  have "held_at (wd_Holding ?w) (''mx'', ''d1'') = None" using demo_ack(2) by (simp add: demo_whole)
  hence "\<forall>b \<in> set (hd_bindings d). delivered_to demo_lib (wd_Mail ?w) (''mx'', ''d1'') ''s@y'' (set (hd_bindings d)) ''hello'' (owner_of b)"
    using accepted_mail_accounted [OF demo_valid demo_world_def d(1,2) acc w] t by auto
  moreover have "demo_owner ''b'' \<in> owner_of ` set (dv_Bindings (demo_dv ''l2''))" by code_simp
  ultimately show ?thesis using d(3) by auto
qed

section \<open>What the holding store keeps to\<close>

text \<open>
  C12: The holding store keeps to its limits and stays consistent in every run: no more deliveries, bytes and bytes per
  message than allowed, bytes in a row exactly when it is no longer staged and always under their own digest,
  between one and a hundred recipients per delivery, no address twice, and no delivery both held and ended.
\<close>

theorem holding_bounded:
  assumes "limits_valid lim" and "s = wd_Holding (world_run lib lim mlim evs (new_world lim))"
  shows "int (length (hs_Deliveries s)) \<le> il_Records lim \<and> used_bytes s \<le> il_PayloadBytes lim \<and> distinct (keys (hs_Deliveries s)) \<and>
     (\<forall>(k, d) \<in> set (hs_Deliveries s).
        map_of (hs_Archived s) k = None \<and> 1 \<le> length (hd_bindings d) \<and> length (hd_bindings d) \<le> 100 \<and> distinct (map bd_Address (hd_bindings d)) \<and>
        (hd_raw d = None \<longleftrightarrow> hd_state d = Staged) \<and>
        (\<forall>raw. hd_raw d = Some raw \<longrightarrow> int (length raw) \<le> il_MessageBytes lim \<and> hd_digest d = hashIncoming lib raw))"
proof -
  have ok: "holding_ok lib lim s" using reached_ok [OF assms(1), of lib mlim evs] by (simp add: world_ok_def assms(2))
  have "map_of (hs_Archived s) k = None \<and> held_ok lib lim d" if "(k, d) \<in> set (hs_Deliveries s)" for k d
    using that ok held_not_archived [OF ok, of k d] by (auto simp: holding_ok_def held_at_def keys_def intro: map_of_is_SomeI)
  thus ?thesis using ok by (fastforce simp: holding_ok_def held_ok_def Suc_le_eq)
qed

theorem holding_bounded_witness:
  "int (length (hs_Deliveries (wd_Holding demo_world))) \<le> il_Records demo_ingress"
  using holding_bounded [OF demo_valid, of "wd_Holding demo_world" demo_lib "\<lambda>_. demo_limits" demo_arrival] by (simp add: demo_world_def)

text \<open>
  C17: A repeated submission is recognised for ever. Whatever has become of a delivery since it was accepted, the same bytes
  from the same sender are accepted again without any change, and other bytes under its identity are refused:
  an ended delivery is never taken up again.
\<close>

theorem accept_replay:
  assumes "limits_valid lim" and "w = world_run lib lim mlim evs (new_world lim)"
    and "held_at (wd_Holding w) (g, i) = Some d" and "hd_state d = Staged"
    and "Accept lib lim env g i sender raw (wd_Holding w) = (Inr (), s)"
    and "s' = wd_Holding (world_run lib lim mlim evs' (w\<lparr>wd_Holding := s\<rparr>))"
    and "admissionTx lim (en_before env') = None" and "en_db env'"
    and "raw' \<noteq> []" and "int (length raw') \<le> il_MessageBytes lim"
  shows "Accept lib lim env' g i sender raw' s' = (if hashIncoming lib raw' = hashIncoming lib raw then Inr () else Inl IngressConflict, s')"
proof -
  have ok: "world_ok lib lim w" unfolding assms(2) by (rule reached_ok [OF assms(1)])
  note a = accepted_starts [OF ok assms(3-5)]
  let ?w = "world_run lib lim mlim evs' (w\<lparr>wd_Holding := s\<rparr>)"
  have h: "holding_ok lib lim s'" using world_run_ok [OF a(1), of mlim evs'] by (simp add: world_ok_def assms(6))
  have ids: "ValidIdentifier g" "ValidIdentifier i" "address lib sender True" using assms(5) by (auto simp: Accept_def split: if_splits)
  have all: "take (nat (il_MessageBytes lim + 1)) raw' = raw'" using assms(10) by simp
  from accounted_run [OF a(2,1,3), of mlim evs'] consider
      (held) d' where "held_at s' (g, i) = Some d'" "hd_state d' \<in> {Pending, Quarantined}" "hd_raw d' = Some raw" "hd_sender d' = sender"
    | (ended) t where "map_of (hs_Archived s') (g, i) = Some t" "tb_sender t = sender" "tb_digest t = hashIncoming lib raw"
    unfolding accounted_def assms(6) [symmetric] by blast
  thus ?thesis
  proof cases
    case held
    hence "hd_digest d' = hashIncoming lib raw" using held_okD [OF h held(1)] by (auto simp: held_ok_def)
    thus ?thesis using held assms(7-10) ids all by (auto simp: Accept_def Let_def admitted_def transact_def)
  next
    case ended
    thus ?thesis using assms(7-10) ids all archived_not_held [OF h ended(1)]
      by (auto simp: Accept_def Let_def admitted_def transact_def archivedDelivery_def)
  qed
qed

theorem accept_replay_witness:
  "Accept demo_lib demo_ingress (demo_env 500) ''mx'' ''d1'' ''s@y'' ''other'' (wd_Holding (world_run demo_lib demo_ingress (\<lambda>_. demo_limits) demo_delivery demo_accepted)) =
     (Inl IngressConflict, wd_Holding (world_run demo_lib demo_ingress (\<lambda>_. demo_limits) demo_delivery demo_accepted))"
proof -
  let ?s = "snd (Accept demo_lib demo_ingress (demo_env 3) ''mx'' ''d1'' ''s@y'' ''hello'' (wd_Holding demo_world))"
  obtain d where d: "held_at (wd_Holding demo_world) (''mx'', ''d1'') = Some d" "hd_state d = Staged" using demo_held by auto
  have acc: "Accept demo_lib demo_ingress (demo_env 3) ''mx'' ''d1'' ''s@y'' ''hello'' (wd_Holding demo_world) = (Inr (), ?s)"
    using demo_accept by (simp add: prod_eq_iff)
  have "admissionTx demo_ingress (en_before (demo_env 500)) = None" by code_simp
  moreover have "en_db (demo_env 500)" "int (length ''other'') \<le> il_MessageBytes demo_ingress" by (simp_all add: demo_env_def demo_ingress_def)
  ultimately show ?thesis
    using accept_replay [OF demo_valid demo_world_def d acc refl, of "demo_env 500" "''other''" demo_delivery] by (simp add: demo_accepted_def demo_lib_def)
qed

section \<open>Delivery goes through\<close>

lemma import_owner_ok:
  assumes "answer = (Opened o', True, at)" "mail o' = Some ms" "Import_mail lib (mlim o') True at (receipt_for dv o') folder (dv_Raw dv) ms = (Inr i, ms')"
  shows "import_owner lib mlim answer dv folder o' mail = (Inr (), mail(o' \<mapsto> ms'))"
  using assms by (simp add: import_owner_def)

text \<open>What the mailboxes are once every owner of a list has been served.\<close>

definition served :: "mail_lib \<Rightarrow> (mail_owner \<Rightarrow> mailbox_limits) \<Rightarrow> (mail_owner \<Rightarrow> string) \<Rightarrow> Delivery \<Rightarrow> string \<Rightarrow> mail_owner set \<Rightarrow> mailboxes \<Rightarrow> mailboxes" where
  "served lib mlim at dv folder os mail o' =
     (if o' \<in> os then map_option (\<lambda>ms. snd (Import_mail lib (mlim o') True (at o') (receipt_for dv o') folder (dv_Raw dv) ms)) (mail o') else mail o')"

lemma import_owners_ok:
  assumes "\<forall>o' \<in> set os. answers o' = (Opened o', True, at o') \<and>
      (\<exists>ms i. mail o' = Some ms \<and> fst (Import_mail lib (mlim o') True (at o') (receipt_for dv o') folder (dv_Raw dv) ms) = Inr i)"
    and "distinct os"
  shows "import_owners lib mlim answers dv folder os mail = (Inr (), served lib mlim at dv folder (set os) mail)"
  using assms
proof (induction os arbitrary: mail)
  case Nil
  show ?case by (auto simp: served_def)
next
  case (Cons o' os)
  then obtain ms i where ms: "mail o' = Some ms" "fst (Import_mail lib (mlim o') True (at o') (receipt_for dv o') folder (dv_Raw dv) ms) = Inr i" by auto
  let ?m = "snd (Import_mail lib (mlim o') True (at o') (receipt_for dv o') folder (dv_Raw dv) ms)"
  have "import_owner lib mlim (answers o') dv folder o' mail = (Inr (), mail(o' \<mapsto> ?m))"
    using Cons.prems ms by (intro import_owner_ok [where i = i]) (auto simp: prod_eq_iff)
  moreover have "import_owners lib mlim answers dv folder os (mail(o' \<mapsto> ?m)) = (Inr (), served lib mlim at dv folder (set os) (mail(o' \<mapsto> ?m)))"
    using Cons.prems by (intro Cons.IH) auto
  moreover have "served lib mlim at dv folder (set os) (mail(o' \<mapsto> ?m)) = served lib mlim at dv folder (set (o' # os)) mail"
    using Cons.prems(2) ms(1) by (auto simp: served_def)
  ultimately show ?case by simp
qed

definition claimed :: "delivery_key \<Rightarrow> held \<Rightarrow> string \<Rightarrow> Delivery" where
  "claimed k d lease =
     \<lparr>dv_Gateway = fst k, dv_ID = snd k, dv_Sender = hd_sender d, dv_Digest = hd_digest d, dv_Raw = the (hd_raw d),
      dv_State = Some (hd_state d), dv_Bindings = readBindings d, dv_Lease = lease, dv_Disposition = None\<rparr>"

lemma currentBindings_frame [simp]: "currentBindings (put_held k d' s) now d = currentBindings s now d"
  "currentBindings s now (d\<lparr>hd_lease := l, hd_lease_until := u\<rparr>) = currentBindings s now d"
  by (simp_all add: currentBindings_def current_binding_def [abs_def])

lemma distinct_owners: "distinct (owners_of bs)"
  by (simp add: owners_of_def)

text \<open>
  C11: Held mail gets through. If a pending delivery is not leased, its owners are still the owners of its addresses and
  remain so, the databases work and each owner's mailbox takes the mail or already has it, one call of \<open>Import\<close>
  within the lease ends the delivery as imported, leaves exactly the outcome of one import in each owner's
  mailbox and touches no other mailbox.
\<close>

theorem deliver_completes:
  assumes "limits_valid lim" and "w = world_run lib lim mlim evs (new_world lim)"
    and "held_at (wd_Holding w) k = Some d" and "hd_state d = Pending" and "hd_lease_until d \<le> unix (en_now env1)"
    and "currentBindings (wd_Holding w) (unix (en_now env1)) d" and "currentBindings (wd_Holding w) (unix (en_now env2)) d"
    and "en_db env1" and "en_db env2" and "unix (en_now env2) < unix (en_now env1 + 5 * minute)" and "lease \<noteq> []" and "hd_digest d \<noteq> []"
    and "\<forall>b \<in> set (hd_bindings d). answers (owner_of b) = (Opened (owner_of b), True, at (owner_of b)) \<and>
      (\<exists>ms i. wd_Mail w (owner_of b) = Some ms \<and>
         fst (Import_mail lib (mlim (owner_of b)) True (at (owner_of b)) (receipt_for (claimed k d lease) (owner_of b)) folder (the (hd_raw d)) ms) = Inr i)"
  shows "\<exists>s. deliver lib mlim env1 (Some lease) answers env2 k False folder (wd_Holding w, wd_Mail w) =
       (Inr (), s, served lib mlim at (claimed k d lease) folder (owner_of ` set (hd_bindings d)) (wd_Mail w)) \<and>
     held_at s k = None \<and> map_of (hs_Archived s) k = Some (tomb_of (unix (en_now env2)) Imported d)"
proof -
  let ?s = "wd_Holding w" and ?dv = "claimed k d lease"
  let ?d = "d\<lparr>hd_lease := lease, hd_lease_until := unix (en_now env1 + 5 * minute)\<rparr>"
  let ?os = "owners_of (readBindings d)"
  have ok: "holding_ok lib lim ?s" using reached_ok [OF assms(1), of lib mlim evs] by (simp add: world_ok_def assms(2))
  then obtain data where data: "hd_raw d = Some data" "hashIncoming lib data = hd_digest d" "hd_bindings d \<noteq> []"
    using held_okD [OF ok assms(3)] assms(4) by (auto simp: held_ok_def)
  have claim: "take_claim lib env1 (Some lease) k False ?s = (Inr ?dv, put_held k ?d ?s)"
    using assms(3-8) data by (simp add: take_claim_def claim_def transact_def readDelivery_def claimed_def)
  have os: "set ?os = owner_of ` set (hd_bindings d)" by (simp add: readBindings_def)
  have imp: "import_owners lib mlim answers ?dv folder ?os (wd_Mail w) = (Inr (), served lib mlim at ?dv folder (set ?os) (wd_Mail w))"
    using assms(13) data(1) os by (intro import_owners_ok distinct_owners) (auto simp: claimed_def)
  define s where "s = snd (archive (unix (en_now env2)) Imported k ?d (put_held k ?d ?s))"
  have ack: "acknowledge env2 (dv_Gateway ?dv, dv_ID ?dv) (dv_Lease ?dv) (dv_Digest ?dv) False (put_held k ?d ?s) = (Inr (), s)"
    using assms(3,4,7,9-12) data(3) held_not_archived [OF ok assms(3)] by (simp add: acknowledge_def transact_def claimed_def archive_def s_def)
  have "tomb_of at' disp ?d = tomb_of at' disp d" for at' disp by (simp add: tomb_of_def readBindings_def)
  hence "held_at s k = None" "map_of (hs_Archived s) k = Some (tomb_of (unix (en_now env2)) Imported d)"
    using data(3) held_not_archived [OF ok assms(3)] by (simp_all add: s_def archive_def map_add_def)
  moreover have "dv_Bindings ?dv = readBindings d" by (simp add: claimed_def)
  ultimately show ?thesis using claim imp ack os by (auto simp: deliver_def)
qed

lemma demo_accepted_run:
  "demo_accepted = world_run demo_lib demo_ingress (\<lambda>_. demo_limits) (demo_arrival @ [Hold (AcceptOp (demo_env 3) ''mx'' ''d1'' ''s@y'' ''hello'')]) (new_world demo_ingress)"
  by (simp add: demo_accepted_def demo_world_def world_run_def)

theorem deliver_completes_witness:
  "\<exists>s. deliver demo_lib (\<lambda>_. demo_limits) (demo_env 4) (Some ''l1'') (\<lambda>o'. (Opened o', True, ''t'')) (demo_env 5) (''mx'', ''d1'') False ''INBOX''
      (wd_Holding demo_accepted, wd_Mail demo_accepted) =
       (Inr (), s, served demo_lib (\<lambda>_. demo_limits) (\<lambda>_. ''t'') (demo_dv ''l1'') ''INBOX'' {demo_owner ''a'', demo_owner ''b''} (wd_Mail demo_accepted)) \<and>
     held_at s (''mx'', ''d1'') = None"
proof -
  let ?k = "(''mx'', ''d1'')"
  have "map_option (\<lambda>d. (claimed ?k d ''l1'', hd_state d, hd_lease_until d, hd_raw d, hd_digest d, currentBindings (wd_Holding demo_accepted) 4 d, currentBindings (wd_Holding demo_accepted) 5 d))
      (held_at (wd_Holding demo_accepted) ?k) = Some (demo_dv ''l1'', Pending, 0, Some ''hello'', ''hello'', True, True)" by code_simp
  then obtain d where d: "held_at (wd_Holding demo_accepted) ?k = Some d" "claimed ?k d ''l1'' = demo_dv ''l1''" "hd_state d = Pending" "hd_lease_until d = 0"
      "hd_raw d = Some ''hello''" "hd_digest d = ''hello''" "currentBindings (wd_Holding demo_accepted) 4 d" "currentBindings (wd_Holding demo_accepted) 5 d" by auto
  have t: "unix (en_now (demo_env 4)) = 4" "unix (en_now (demo_env 5)) = 5" "unix (en_now (demo_env 4) + 5 * minute) = 304" "en_db (demo_env 4)" "en_db (demo_env 5)"
    by (simp_all add: demo_env_def unix_def)
  have "set (owners_of (dv_Bindings (demo_dv ''l1''))) = owner_of ` set (hd_bindings d)"
    using d(2) by (simp add: claimed_def readBindings_def flip: d(2))
  hence os: "owner_of ` set (hd_bindings d) = {demo_owner ''a'', demo_owner ''b''}" by (simp add: demo_owners)
  have imp: "\<exists>ms i. wd_Mail demo_accepted o' = Some ms \<and>
      fst (Import_mail demo_lib demo_limits True ''t'' (receipt_for (demo_dv ''l1'') o') ''INBOX'' ''hello'' ms) = Inr i"
    if "o' \<in> {demo_owner ''a'', demo_owner ''b''}" for o'
    using that demo_import by (auto simp: demo_mail demo_owners)
  have "\<forall>b \<in> set (hd_bindings d). (\<lambda>o'. (Opened o', True, ''t'')) (owner_of b) = (Opened (owner_of b), True, (\<lambda>_. ''t'') (owner_of b)) \<and>
      (\<exists>ms i. wd_Mail demo_accepted (owner_of b) = Some ms \<and>
         fst (Import_mail demo_lib ((\<lambda>_. demo_limits) (owner_of b)) True ((\<lambda>_. ''t'') (owner_of b)) (receipt_for (claimed ?k d ''l1'') (owner_of b)) ''INBOX'' (the (hd_raw d)) ms) = Inr i)"
  proof
    fix b assume "b \<in> set (hd_bindings d)"
    hence "owner_of b \<in> {demo_owner ''a'', demo_owner ''b''}" using os by blast
    from imp [OF this] show "(\<lambda>o'. (Opened o', True, ''t'')) (owner_of b) = (Opened (owner_of b), True, (\<lambda>_. ''t'') (owner_of b)) \<and>
      (\<exists>ms i. wd_Mail demo_accepted (owner_of b) = Some ms \<and>
         fst (Import_mail demo_lib ((\<lambda>_. demo_limits) (owner_of b)) True ((\<lambda>_. ''t'') (owner_of b)) (receipt_for (claimed ?k d ''l1'') (owner_of b)) ''INBOX'' (the (hd_raw d)) ms) = Inr i)"
      using d(2,5) by simp
  qed
  from deliver_completes [OF demo_valid demo_accepted_run d(1,3) _ _ _ t(4,5) _ _ _ this] show ?thesis
    using d t os by auto
qed

section \<open>Room on the disk\<close>

lemma physical_sum_bounds: "physical_sum db total0 fs = Some n \<Longrightarrow> 0 \<le> total0 \<Longrightarrow> total0 \<le> MaxInt64 \<Longrightarrow> total0 \<le> n \<and> n \<le> MaxInt64"
  by (induction db total0 fs rule: physical_sum.induct) (fastforce split: file_stat.splits if_splits)+

lemma page_size_bounds: "p \<in> set page_sizes \<Longrightarrow> 512 \<le> p \<and> p \<le> 65536"
  by (auto simp: page_sizes_def)

lemma div_room: "0 < c \<Longrightarrow> r \<le> n div c \<Longrightarrow> r * c \<le> (n :: int)"
proof -
  assume c: "0 < c" and "r \<le> n div c"
  hence "r * c \<le> n div c * c" by (intro mult_right_mono) linarith+
  also have "\<dots> \<le> n" using div_mult_mod_eq [of n c] pos_mod_sign [OF c, of n] by linarith
  finally show ?thesis .
qed

lemma blocks_cover:
  assumes "0 < (b :: int)" "\<not> avail < n div b + (if n mod b \<noteq> 0 then 1 else 0)"
  shows "n \<le> avail * b"
proof -
  define q where "q = (if n mod b \<noteq> 0 then 1 else 0 :: int)"
  have "n mod b \<le> q * b" using pos_mod_bound [OF assms(1), of n] by (simp add: q_def)
  hence "n \<le> (n div b + q) * b" using div_mult_mod_eq [of n b] by (simp only: distrib_right)
  also have "\<dots> \<le> avail * b" using assms unfolding q_def [symmetric] by (intro mult_right_mono) linarith+
  finally show ?thesis .
qed

lemma free_space:
  assumes "receivingFreeSpace v n = None"
  obtains bsize bavail where "vo_statfs v = Some (bsize, bavail)" "n \<le> bavail * bsize"
proof (cases "vo_statfs v")
  case (Some p)
  obtain bsize bavail where p: "p = (bsize, bavail)" by (cases p)
  hence "0 < bsize" "\<not> bavail < n div bsize + (if n mod bsize \<noteq> 0 then 1 else 0)"
    using assms Some by (auto simp: receivingFreeSpace_def Let_def split: if_splits)
  thus ?thesis using that Some p blocks_cover by blast
qed (use assms in \<open>simp add: receivingFreeSpace_def\<close>)

text \<open>
  Admission keeps a reserve and its arithmetic is safe. With limits the store opens with, the physical limit fits a
  64-bit integer, as does every difference it is compared with; and when \<open>checkAdmission\<close> lets a payload in, the
  files with the growth estimated for it stay under the limit, and the volume has that growth free on top of
  16 MiB.
\<close>

theorem admission_reserve:
  assumes "limits_valid lim" and "checkAdmission lim v payload = None"
  shows "0 < reserve_mark lim \<and> physicalLimit lim \<le> MaxInt64 \<and>
    (\<exists>used bsize bavail.
       physicalBytes v = Some used \<and> 0 \<le> used \<and> used + (32 * vo_page_size v + 2 * payload) \<le> physicalLimit lim \<and>
       vo_statfs v = Some (bsize, bavail) \<and> 16 * 2 ^ 20 + (32 * vo_page_size v + 2 * payload) \<le> bavail * bsize)"
proof -
  let ?growth = "32 * vo_page_size v + 2 * payload"
  have "il_Records lim \<le> (MaxInt64 - 4 * il_PayloadBytes lim) div (32 * 2 ^ 10)" using assms(1) by (simp add: limits_valid_def)
  hence "il_Records lim * (32 * 2 ^ 10) \<le> MaxInt64 - 4 * il_PayloadBytes lim" by (intro div_room) simp_all
  hence cap: "physicalLimit lim \<le> MaxInt64" by (simp add: physicalLimit_def MaxInt64_def)
  have mark: "0 < reserve_mark lim" using assms(1) by (auto simp: reserve_mark_def physicalLimit_def limits_valid_def)
  obtain used where used: "physicalBytes v = Some used" "used \<le> physicalLimit lim - ?growth"
    and free: "receivingFreeSpace v (16 * 2 ^ 20 + ?growth) = None"
    using assms(2) by (auto simp: checkAdmission_def Let_def split: if_splits option.splits)
  have "0 \<le> used" using physical_sum_bounds used(1) by (fastforce simp: physicalBytes_def MaxInt64_def)
  moreover obtain bsize bavail where "vo_statfs v = Some (bsize, bavail)" "16 * 2 ^ 20 + ?growth \<le> bavail * bsize"
    using free_space [OF free] .
  ultimately show ?thesis using cap mark used by auto
qed

theorem admission_reserve_witness:
  "16 * 2 ^ 20 + (32 * 512 + 2 * 5) \<le> (1000000 * 4096 :: int) \<and> physicalLimit demo_ingress \<le> MaxInt64"
proof -
  have "checkAdmission demo_ingress demo_volume 5 = None" by code_simp
  from admission_reserve [OF demo_valid this] show ?thesis by (simp add: demo_volume_def)
qed

section \<open>Where accepted mail cannot end well\<close>

text \<open>
  A gateway name of more than 128 bytes is accepted with every delivery under it, but no mailbox takes a receipt that
  names it: such mail is held and never imported or released.
\<close>

lemma long_gateway_undeliverable:
  assumes "holding_ok lib lim s" "length (fst k) > 128"
  shows "fst (deliver lib mlim env1 uuid answers env2 k release folder (s, mail)) \<noteq> Inr ()"
proof (cases "take_claim lib env1 uuid k release s")
  case (Pair r s1)
  show ?thesis
  proof (cases r)
    case (Inr dv)
    obtain d where k: "key_of dv = k" and d: "held_at s1 k = Some d" "reads dv d" using claim_reads [OF _ assms(1)] Pair Inr by blast
    have "holding_ok lib lim s1" using holding_ok_opt [OF take_claim_opt assms(1)] Pair by (metis snd_conv)
    hence "held_ok lib lim d" using d(1) by (rule held_okD)
    hence "dv_Bindings dv \<noteq> []" using d(2) by (auto simp: held_ok_def reads_def)
    then obtain o' os where os: "owners_of (dv_Bindings dv) = o' # os" by (metis length_0_conv list.exhaust list.set(1) owners_of_set set_empty image_is_empty)
    have "canonicalReceipt lib (receipt_for dv o') = None"
      using assms(2) k by (auto simp: canonicalReceipt_def receipt_for_def validText_def key_of_def)
    hence "\<exists>e m. import_owner lib mlim (answers o') dv folder o' mail = (Inl e, m)"
      by (auto simp: import_owner_def Import_mail_def split: prod.split resolved.split option.split)
    thus ?thesis using Pair Inr os by (auto simp: deliver_def)
  qed (use Pair in \<open>simp add: deliver_def\<close>)
qed

text \<open>
  Mail discarded after an interrupted import is recorded as discarded, not as partially released, although an owner
  has it: the lease that tells the two apart is cleared when the stale delivery is quarantined.
\<close>

definition demo_discard :: "event list" where
  "demo_discard = [Hold (SetRouteOp (demo_env 5) False (demo_route ''b'' 2 False)), Claim 2 (demo_env 400) (Some ''l2'') (''mx'', ''d1'') False ''INBOX'',
     Hold (DiscardOp (demo_env 401) (''mx'', ''d1''))]"

lemma demo_discard_holding:
  "map_option tb_disposition (map_of (hs_Archived (holding_step demo_lib demo_ingress (DiscardOp (demo_env 401) (''mx'', ''d1''))
     (snd (take_claim demo_lib (demo_env 400) (Some ''l2'') (''mx'', ''d1'') False
        (holding_step demo_lib demo_ingress (SetRouteOp (demo_env 5) False (demo_route ''b'' 2 False)) demo_claimed))))) (''mx'', ''d1'')) = Some Discarded"
  by code_simp

lemma discarded_though_delivered:
  "let w = world_run demo_lib demo_ingress (\<lambda>_. demo_limits) (take 3 demo_delivery @ demo_discard) demo_accepted in
   map_option tb_disposition (map_of (hs_Archived (wd_Holding w)) (''mx'', ''d1'')) = Some Discarded \<and>
   map_option (\<lambda>ms. map sm_Raw (ms_Messages ms)) (wd_Mail w (demo_owner ''a'')) = Some [Some ''hello'']"
proof -
  define w0 where "w0 = world_run demo_lib demo_ingress (\<lambda>_. demo_limits) (take 3 demo_delivery) demo_accepted"
  define s1 where "s1 = holding_step demo_lib demo_ingress (SetRouteOp (demo_env 5) False (demo_route ''b'' 2 False)) demo_claimed"
  have w0: "wd_Holding w0 = demo_claimed" "wd_Mail w0 (demo_owner ''a'') = Some (demo_box ''a'')" "wd_Flights w0 = (\<lambda>_. None)"
    using demo_owners(2) by (simp_all add: w0_def demo_half demo_idle)
  have c: "fst (take_claim demo_lib (demo_env 400) (Some ''l2'') (''mx'', ''d1'') False s1) = Inl ErrRoute" unfolding s1_def by code_simp
  have "map sm_Raw (ms_Messages (demo_box ''a'')) = [Some ''hello'']"
    using demo_canonical [of "''a''"] by (simp add: demo_box_def mail_eval system_mem)
  moreover have "wd_Mail (world_run demo_lib demo_ingress (\<lambda>_. demo_limits) demo_discard w0) = wd_Mail w0"
    "wd_Holding (world_run demo_lib demo_ingress (\<lambda>_. demo_limits) demo_discard w0) =
       holding_step demo_lib demo_ingress (DiscardOp (demo_env 401) (''mx'', ''d1''))
         (snd (take_claim demo_lib (demo_env 400) (Some ''l2'') (''mx'', ''d1'') False s1))"
    using c w0 by (auto simp: demo_discard_def s1_def [symmetric] simp del: holding_step.simps split: prod.splits sum.splits)
  moreover have "world_run demo_lib demo_ingress (\<lambda>_. demo_limits) (take 3 demo_delivery @ demo_discard) demo_accepted =
      world_run demo_lib demo_ingress (\<lambda>_. demo_limits) demo_discard w0" by (simp add: w0_def world_run_def del: take_Cons_numeral)
  ultimately show ?thesis using demo_discard_holding w0(2) by (simp add: Let_def s1_def)
qed

end
