(* ===== verification/Sender_Blocks.thy ===== *)
theory Sender_Blocks
  imports Ingress_Store
begin

text \<open>
  Blocked senders of the inbound gateway: the list of blocks in the file beside the holding store
  (\<open>backend/internal/ingress/blocks.go\<close>) and the form of senders and blocks both receiving profiles share
  (\<open>backend/internal/cfreceiving/wire.go\<close>).

  Strings are byte strings. The JSON text of the list is the list; a file that does not decode is damaged. \<open>hash\<close>
  is the first eight bytes of SHA-256 in hexadecimal. Times are Unix milliseconds. A \<open>block_env\<close> says what
  of the file system works in one call.
\<close>

section \<open>Senders\<close>

text \<open>The length of the UTF-8 code at the head of the bytes, 0 if there is none.\<close>

fun rune_len :: "nat list \<Rightarrow> nat" where
  "rune_len [] = 0"
| "rune_len [b] = (if b < 128 then 1 else 0)"
| "rune_len [b, c] = (if b < 128 then 1 else if 194 \<le> b \<and> b < 224 \<and> cont c then 2 else 0)"
| "rune_len [b, c, d] =
     (if b < 128 then 1 else if 194 \<le> b \<and> b < 224 \<and> cont c then 2
      else if 224 \<le> b \<and> b < 240 \<and> cont c \<and> (b = 224 \<longrightarrow> 160 \<le> c) \<and> (b = 237 \<longrightarrow> c < 160) \<and> cont d then 3 else 0)"
| "rune_len (b # c # d # e # bs) =
     (if b < 128 then 1 else if 194 \<le> b \<and> b < 224 \<and> cont c then 2
      else if 224 \<le> b \<and> b < 240 \<and> cont c \<and> (b = 224 \<longrightarrow> 160 \<le> c) \<and> (b = 237 \<longrightarrow> c < 160) \<and> cont d then 3
      else if 240 \<le> b \<and> b < 245 \<and> cont c \<and> (b = 240 \<longrightarrow> 144 \<le> c) \<and> (b = 244 \<longrightarrow> c < 144) \<and> cont d \<and> cont e then 4 else 0)"

function valid_utf8 :: "string \<Rightarrow> bool" where
  "valid_utf8 s = (if s = [] then True else rune_len (map byte s) > 0 \<and> valid_utf8 (drop (max 1 (rune_len (map byte s))) s))"
  by pat_completeness auto
termination by (relation "measure length") auto

text \<open>\<open>strings.Map\<close> puts the replacement character where there is no valid code.\<close>

function LowerASCII :: "string \<Rightarrow> string" where
  "LowerASCII s =
     (if s = [] then []
      else (let n = rune_len (map byte s) in
            if n = 0 then [char_of (239 :: nat), char_of (191 :: nat), char_of (189 :: nat)] @ LowerASCII (drop 1 s)
            else if n = 1 then lower_char (hd s) # LowerASCII (drop 1 s)
            else take n s @ LowerASCII (drop n s)))"
  by pat_completeness auto
termination by (relation "measure length") auto

text \<open>The text before and after the last \<open>@\<close>.\<close>

definition cut_at :: "string \<Rightarrow> (string \<times> string) option" where
  "cut_at s =
     (if CHR ''@'' \<in> set s
      then Some (rev (tl (dropWhile (\<lambda>c. c \<noteq> CHR ''@'') (rev s))), rev (takeWhile (\<lambda>c. c \<noteq> CHR ''@'') (rev s))) else None)"

fun split_dots :: "string \<Rightarrow> string \<Rightarrow> string list" where
  "split_dots acc [] = [acc]"
| "split_dots acc (c # cs) = (if c = CHR ''.'' then acc # split_dots [] cs else split_dots (acc @ [c]) cs)"

definition atoms :: "string \<Rightarrow> (char \<Rightarrow> bool) \<Rightarrow> bool" where
  "atoms s ok \<longleftrightarrow> list_all (\<lambda>a. a \<noteq> [] \<and> list_all ok a) (split_dots [] s)"

definition atext :: "char \<Rightarrow> bool" where
  "atext c \<longleftrightarrow> is_lower c \<or> is_upper c \<or> is_digit c \<or> c \<in> set ''!#$%&*+/=?^_`{|}~-'' \<or> byte c = 39"

definition ValidSender :: "string \<Rightarrow> bool" where
  "ValidSender s \<longleftrightarrow>
     s = [] \<or>
     (case cut_at s of
        None \<Rightarrow> False
      | Some (local, domain) \<Rightarrow>
          valid_utf8 s \<and> length s \<le> 320 \<and> local \<noteq> [] \<and> atoms local (\<lambda>c. atext c \<or> byte c \<ge> 128) \<and>
          atoms (LowerASCII domain) (\<lambda>c. atext c \<and> \<not> is_upper c))"

datatype wire_block = WireAddress string "int option" | WireDomain string "int option"

definition ValidBlock :: "wire_block \<Rightarrow> bool" where
  "ValidBlock w =
     (let until_ok = (\<lambda>u. case u of None \<Rightarrow> True | Some t \<Rightarrow> t \<ge> (1 :: int)) in
      case w of
        WireAddress v u \<Rightarrow> v \<noteq> [] \<and> v = LowerASCII v \<and> ValidSender v \<and> until_ok u
      | WireDomain v u \<Rightarrow> v \<noteq> [] \<and> v = LowerASCII v \<and> ValidSender (''x@'' @ v) \<and> until_ok u)"

text \<open>Sizes in the JSON text: quotes and backslashes take two bytes, controls two or six, \<open>&\<close>, \<open><\<close>, \<open>>\<close>, U+2028 and U+2029 six.\<close>

fun json_bytes :: "nat list \<Rightarrow> nat" where
  "json_bytes [] = 0"
| "json_bytes (b # bs) =
     (if b = 226 \<and> take 1 bs = [128] \<and> (take 1 (drop 1 bs) = [168] \<or> take 1 (drop 1 bs) = [169]) then 6 + json_bytes (drop 2 bs)
      else if b = 34 \<or> b = 92 \<or> b \<in> {8, 9, 10, 12, 13} then 2 + json_bytes bs
      else if b < 32 \<or> b \<in> {38, 60, 62} then 6 + json_bytes bs
      else 1 + json_bytes bs)"

function decimal_len :: "nat \<Rightarrow> nat" where
  "decimal_len n = (if n < 10 then 1 else 1 + decimal_len (n div 10))"
  by pat_completeness auto
termination by (relation "measure id") auto

definition until_len :: "int option \<Rightarrow> nat" where
  "until_len u = (case u of None \<Rightarrow> 4 | Some t \<Rightarrow> (if t < 0 then 1 else 0) + decimal_len (nat \<bar>t\<bar>))"

definition BlockWireBytes :: "wire_block \<Rightarrow> nat" where
  "BlockWireBytes w =
     (case w of
        WireAddress v u \<Rightarrow> length ''{address:'' + 2 + (2 + json_bytes (map byte v)) + length '',until:'' + 2 + until_len u + 1 + 1
      | WireDomain v u \<Rightarrow> length ''{domain:'' + 2 + (2 + json_bytes (map byte v)) + length '',until:'' + 2 + until_len u + 1 + 1)"

section \<open>Blocks\<close>

record sender_block =
  sb_ID :: string
  sb_Kind :: string
  sb_Value :: string
  sb_Until :: "int option"
  sb_Source :: string
  sb_Level :: int
  sb_CreatedAt :: int
  sb_Actor :: string
  sb_Reason :: string

datatype block_error =
  ErrBlockInvalid | ErrBlockOwn | ErrBlockFull | ErrBlockStore | ErrMalformed | ErrAutomaticFull | ErrManualCovers |
  ErrUnblockNotRecorded | BlockIoError | BlockPanic

definition MaxBlocks :: nat where "MaxBlocks = 5000"
definition maxBlockWire :: nat where "maxBlockWire = 512 * 1024"
definition maxOneBlockWire :: nat where "maxOneBlockWire = 2048"

definition blockReasons :: "string list" where
  "blockReasons = [''spam'', ''phishing'', ''abuse'', ''other'']"

definition active :: "int \<Rightarrow> sender_block \<Rightarrow> bool" where
  "active now b = (case sb_Until b of None \<Rightarrow> True | Some t \<Rightarrow> t > now)"

definition BlockID :: "(string \<Rightarrow> string) \<Rightarrow> string \<Rightarrow> string \<Rightarrow> string" where
  "BlockID hash kind value = hash (kind @ '':'' @ value)"

definition NormalizeBlock :: "string \<Rightarrow> string \<Rightarrow> string option" where
  "NormalizeBlock kind value =
     (let v = LowerASCII value in
      if kind = ''address'' \<and> ValidBlock (WireAddress v None) \<or> kind = ''domain'' \<and> ValidBlock (WireDomain v None) then Some v else None)"

definition Wire :: "sender_block \<Rightarrow> wire_block" where
  "Wire b = (if sb_Kind b = ''domain'' then WireDomain (sb_Value b) (sb_Until b) else WireAddress (sb_Value b) (sb_Until b))"

definition block_valid :: "(string \<Rightarrow> string) \<Rightarrow> sender_block \<Rightarrow> bool" where
  "block_valid hash b \<longleftrightarrow>
     NormalizeBlock (sb_Kind b) (sb_Value b) = Some (sb_Value b) \<and> sb_ID b = BlockID hash (sb_Kind b) (sb_Value b) \<and>
     (case sb_Until b of None \<Rightarrow> True | Some t \<Rightarrow> t \<ge> 1 \<and> t \<le> 2 ^ 53 - 1) \<and>
     (sb_Source b = ''manual'' \<and> sb_Level b = 0 \<or> sb_Source b = ''automatic'' \<and> sb_Level b \<ge> 1) \<and> sb_CreatedAt b \<ge> 1 \<and>
     ValidIdentifier (sb_Actor b) \<and> length (sb_Actor b) \<le> 128 \<and> sb_Reason b \<in> set blockReasons"

datatype block_file = NoBlocks | DamagedBlocks | Blocks "sender_block list"

fun parse_loop :: "(string \<Rightarrow> string) \<Rightarrow> string list \<Rightarrow> nat \<Rightarrow> sender_block list \<Rightarrow> bool" where
  "parse_loop hash seen w [] = True"
| "parse_loop hash seen w (b # bs) =
     (let w' = w + BlockWireBytes (Wire b) in
      if \<not> block_valid hash b \<or> sb_ID b \<in> set seen \<or> w' > maxBlockWire then False else parse_loop hash (sb_ID b # seen) w' bs)"

definition ParseBlocks :: "(string \<Rightarrow> string) \<Rightarrow> sender_block list \<Rightarrow> bool" where
  "ParseBlocks hash bs \<longleftrightarrow> length bs \<le> MaxBlocks \<and> parse_loop hash [] 0 bs"

record block_env =
  be_now :: int
  be_dir :: bool
  be_lock :: bool
  be_read :: bool
  be_write :: bool

definition load_blocks :: "(string \<Rightarrow> string) \<Rightarrow> bool \<Rightarrow> block_file \<Rightarrow> (block_error, sender_block list) result" where
  "load_blocks hash readable f =
     (case f of
        NoBlocks \<Rightarrow> Inr []
      | DamagedBlocks \<Rightarrow> if readable then Inl ErrMalformed else Inl BlockIoError
      | Blocks bs \<Rightarrow> if \<not> readable then Inl BlockIoError else if ParseBlocks hash bs then Inr bs else Inl ErrMalformed)"

definition List_blocks :: "(string \<Rightarrow> string) \<Rightarrow> bool \<Rightarrow> int \<Rightarrow> block_file \<Rightarrow> (block_error, sender_block list) result" where
  "List_blocks hash readable now f =
     (case load_blocks hash readable f of
        Inl e \<Rightarrow> Inl e
      | Inr bs \<Rightarrow> Inr (sort_key (\<lambda>b. sb_Kind b @ '':'' @ sb_Value b) (filter (active now) bs)))"

definition matches :: "string \<Rightarrow> string \<Rightarrow> sender_block \<Rightarrow> bool" where
  "matches addr domain b \<longleftrightarrow> sb_Kind b = ''address'' \<and> sb_Value b = addr \<or> sb_Kind b = ''domain'' \<and> sb_Value b = domain"

text \<open>The domain is cut from the lowered sender where the last \<open>@\<close> of the given one is.\<close>

definition Blocked :: "(string \<Rightarrow> string) \<Rightarrow> bool \<Rightarrow> string \<Rightarrow> int \<Rightarrow> block_file \<Rightarrow> (block_error, bool) result" where
  "Blocked hash readable sender now f =
     (case cut_at sender of
        None \<Rightarrow> Inr False
      | Some (local, _) \<Rightarrow>
          (case List_blocks hash readable now f of
             Inl e \<Rightarrow> Inl e
           | Inr bs \<Rightarrow> Inr (list_ex (matches (LowerASCII sender) (drop (length local + 1) (LowerASCII sender))) bs)))"

section \<open>Adding and removing\<close>

definition wire_sum :: "sender_block list \<Rightarrow> nat" where
  "wire_sum bs = (\<Sum>b \<leftarrow> bs. BlockWireBytes (Wire b))"

definition automatic :: "sender_block \<Rightarrow> bool" where "automatic b \<longleftrightarrow> sb_Source b = ''automatic''"

definition fits :: "sender_block list \<Rightarrow> bool" where
  "fits bs \<longleftrightarrow>
     length bs \<le> MaxBlocks \<and> wire_sum bs \<le> maxBlockWire \<and>
     length (filter automatic bs) \<le> MaxBlocks div 2 \<and> wire_sum (filter automatic bs) \<le> maxBlockWire div 2"

definition automaticFull :: "sender_block list \<Rightarrow> bool" where
  "automaticFull bs \<longleftrightarrow>
     length (filter automatic bs) \<ge> MaxBlocks div 2 \<or> wire_sum (filter automatic bs) > maxBlockWire div 2 - maxOneBlockWire"

text \<open>
  The automatic block that expires first, the earliest in the list of those: the loop compares each with the one
  found so far, and dereferences the two times it compares.
\<close>

fun find_victim :: "sender_block list \<Rightarrow> nat \<Rightarrow> (nat \<times> sender_block) option \<Rightarrow> (nat \<times> sender_block) option option" where
  "find_victim [] i v = Some v"
| "find_victim (x # xs) i v =
     (if \<not> automatic x then find_victim xs (i + 1) v
      else (case v of
              None \<Rightarrow> find_victim xs (i + 1) (Some (i, x))
            | Some (j, y) \<Rightarrow>
                (case (sb_Until x, sb_Until y) of
                   (Some s, Some t) \<Rightarrow> find_victim xs (i + 1) (if s < t then Some (i, x) else v)
                 | _ \<Rightarrow> None)))"

lemma find_victim_bound: "find_victim xs i v = Some (Some (j, y)) \<Longrightarrow> v = Some (j, y) \<or> i \<le> j \<and> j < i + length xs \<and> xs ! (j - i) = y \<and> automatic y"
proof (induction xs arbitrary: i v)
  case (Cons x xs)
  have shift: "Suc i \<le> j \<and> j < Suc i + length xs \<and> xs ! (j - Suc i) = y \<Longrightarrow> i \<le> j \<and> j < i + length (x # xs) \<and> (x # xs) ! (j - i) = y"
    by (auto simp: nth_Cons split: nat.split intro!: arg_cong [of _ _ "(!) xs"])
  from Cons.prems show ?case
    by (cases v) (auto dest!: Cons.IH shift split: if_splits option.splits)
qed simp

text \<open>A manual block makes room for itself among the automatic ones.\<close>

function make_room :: "sender_block list \<Rightarrow> (block_error, sender_block list) result" where
  "make_room bs =
     (if fits bs then Inr bs
      else (case find_victim bs 0 None of
              None \<Rightarrow> Inl BlockPanic
            | Some None \<Rightarrow> Inl ErrBlockFull
            | Some (Some (j, _)) \<Rightarrow> make_room (take j bs @ drop (j + 1) bs)))"
  by pat_completeness auto
termination by (relation "measure length") (auto dest!: find_victim_bound)

definition change_blocks ::
  "(string \<Rightarrow> string) \<Rightarrow> block_env \<Rightarrow> (sender_block list \<Rightarrow> (block_error, sender_block list) result) \<Rightarrow> block_file
     \<Rightarrow> (block_error, unit) result \<times> block_file" where
  "change_blocks hash env edit f =
     (if \<not> be_dir env then (Inl ErrBlockStore, f)
      else if \<not> be_lock env then (Inl BlockIoError, f)
      else
        (case List_blocks hash (be_read env) (be_now env) f of
           Inl e \<Rightarrow> (Inl e, f)
         | Inr bs \<Rightarrow>
             (case edit bs of
                Inl e \<Rightarrow> (Inl e, f)
              | Inr bs' \<Rightarrow> if be_write env then (Inr (), Blocks bs') else (Inl BlockIoError, f))))"

definition domain_part :: "string \<Rightarrow> string" where
  "domain_part v = (case cut_at v of None \<Rightarrow> v | Some (_, domain) \<Rightarrow> domain)"

definition covered :: "sender_block \<Rightarrow> sender_block \<Rightarrow> bool" where
  "covered b x \<longleftrightarrow>
     sb_Source x = ''manual'' \<and>
     (sb_ID x = sb_ID b \<or> cut_at (sb_Value b) \<noteq> None \<and> sb_Kind x = ''domain'' \<and> sb_Value x = domain_part (sb_Value b))"

definition put_edit :: "sender_block \<Rightarrow> sender_block list \<Rightarrow> (block_error, sender_block list) result" where
  "put_edit b bs =
     (if automatic b \<and> list_ex (covered b) bs then Inl ErrManualCovers
      else
        (let bs' = filter (\<lambda>x. sb_ID x \<noteq> sb_ID b) bs @ [b] in
         if fits bs' then Inr bs' else if automatic b then Inl ErrAutomaticFull else make_room bs'))"

definition Put ::
  "(string \<Rightarrow> string) \<Rightarrow> block_env \<Rightarrow> sender_block \<Rightarrow> string list \<Rightarrow> block_file \<Rightarrow> (block_error, sender_block) result \<times> block_file" where
  "Put hash env b own f =
     (case NormalizeBlock (sb_Kind b) (sb_Value b) of
        None \<Rightarrow> (Inl ErrBlockInvalid, f)
      | Some value \<Rightarrow>
          (let b' = b\<lparr>sb_Reason := (if sb_Reason b = [] then ''other'' else sb_Reason b), sb_Value := value,
                      sb_ID := BlockID hash (sb_Kind b) value, sb_CreatedAt := be_now env\<rparr> in
           if \<not> block_valid hash b' \<or> \<not> active (be_now env) b' then (Inl ErrBlockInvalid, f)
           else if domain_part value \<in> set own then (Inl ErrBlockOwn, f)
           else (case change_blocks hash env (put_edit b') f of
                   (Inl e, f') \<Rightarrow> (Inl e, f')
                 | (Inr _, f') \<Rightarrow> (Inr b', f'))))"

declare valid_utf8.simps [simp del] LowerASCII.simps [simp del] decimal_len.simps [simp del] make_room.simps [simp del]

end
