(* ===== verification/Sender_Evidence.thy ===== *)
theory Sender_Evidence
  imports Sender_Blocks
begin

text \<open>
  Automatic sender blocks, \<open>backend/internal/ingress/autoblocks.go\<close>: the evidence file with the counted verdicts, the
  domains that have sent authenticated mail and the administrator's unblocks, and the operations on it.

  A Go map is a table; the order in which a loop ranges over one is an input, \<open>ee_order\<close>. The size of the JSON text
  is an input too, \<open>ee_size\<close>.
\<close>

section \<open>Identities\<close>

record Authentication =
  au_Sender :: string
  au_From :: string
  au_SPF :: bool
  au_DKIM :: "string list"

definition Identity :: "Authentication \<Rightarrow> string option" where
  "Identity a =
     (let sender = LowerASCII (au_Sender a) in
      case cut_at sender of
        None \<Rightarrow> None
      | Some (local, domain) \<Rightarrow>
          if \<not> au_SPF a \<or> local = [] \<or> \<not> ValidSender (au_Sender a) \<or> sender \<noteq> LowerASCII (au_From a) \<or> domain \<notin> set (au_DKIM a) then None
          else Some sender)"

section \<open>The evidence file\<close>

definition autoHits :: nat where "autoHits = 5"
definition autoWindow :: int where "autoWindow = 60 * 60 * 1000"
definition domainHits :: nat where "domainHits = 5"
definition domainWindow :: int where "domainWindow = 24 * 60 * 60 * 1000"
definition cleanPeriod :: int where "cleanPeriod = 30 * 24 * 60 * 60 * 1000"
definition UnblockWindow :: int where "UnblockWindow = cleanPeriod"
definition domainWarmUp :: int where "domainWarmUp = 30 * 24 * 60 * 60 * 1000"
definition MaxEvidence :: nat where "MaxEvidence = 4096"
definition MaxGoodDomains :: nat where "MaxGoodDomains = 50000"
definition maxGoodPerParent :: int where "maxGoodPerParent = 50"
definition MaxEvidenceBytes :: nat where "MaxEvidenceBytes = 8 * 1024 * 1024"

definition autoCooldown :: "int list" where
  "autoCooldown = [60 * 60 * 1000, 24 * 60 * 60 * 1000, 7 * 24 * 60 * 60 * 1000]"

record evidence_record =
  er_Domain :: string
  er_Hits :: "int list"
  er_Level :: nat
  er_Last :: int
  er_Blocked :: int

record evidence =
  ev_Addresses :: "evidence_record table"
  ev_Domains :: "evidence_record table"
  ev_Good :: "int table"
  ev_Parents :: "int table"
  ev_GoodSince :: int
  ev_Unblocked :: "int table"
  ev_ResetAt :: int

definition new_evidence :: evidence where
  "new_evidence = \<lparr>ev_Addresses = [], ev_Domains = [], ev_Good = [], ev_Parents = [], ev_GoodSince = 0, ev_Unblocked = [], ev_ResetAt = 0\<rparr>"

definition hex_digit :: "char \<Rightarrow> bool" where
  "hex_digit c \<longleftrightarrow> is_digit c \<or> c \<in> set ''abcdef''"

definition validID :: "string \<Rightarrow> bool" where
  "validID i \<longleftrightarrow> length i = 16 \<and> list_all hex_digit i"

definition record_ok :: "bool \<Rightarrow> string \<times> evidence_record \<Rightarrow> bool" where
  "record_ok addr ir \<longleftrightarrow>
     (case ir of (i, r) \<Rightarrow>
        \<not> (\<not> validID i \<or> addr \<noteq> validID (er_Domain r) \<or> \<not> addr \<and> er_Domain r \<noteq> [] \<or> length (er_Hits r) \<ge> autoHits \<or>
           er_Level r > length autoCooldown \<or> er_Last r < 1 \<or> er_Blocked r < 0 \<or> list_ex (\<lambda>t. t < 1) (er_Hits r)))"

definition times_ok :: "int table \<Rightarrow> bool" where
  "times_ok m \<longleftrightarrow> list_all (\<lambda>(i, t). validID i \<and> t \<ge> 1) m"

record evidence_env =
  ee_now :: int
  ee_dir :: bool
  ee_lock :: bool
  ee_read :: bool
  ee_rename :: bool
  ee_write :: bool
  ee_order :: "string list \<Rightarrow> string list"
  ee_size :: "evidence \<Rightarrow> nat"

definition parseEvidence :: "(evidence \<Rightarrow> nat) \<Rightarrow> evidence \<Rightarrow> bool" where
  "parseEvidence sz doc \<longleftrightarrow>
     \<not> (sz doc > MaxEvidenceBytes \<or> ev_GoodSince doc < 0 \<or> ev_ResetAt doc < 0 \<or> length (ev_Addresses doc) > MaxEvidence \<or>
        length (ev_Domains doc) > MaxEvidence \<or> length (ev_Unblocked doc) > MaxEvidence \<or> length (ev_Good doc) > MaxGoodDomains \<or>
        length (ev_Parents doc) > MaxGoodDomains) \<and>
     list_all (\<lambda>(i, n). validID i \<and> 1 \<le> n \<and> n \<le> maxGoodPerParent) (ev_Parents doc) \<and>
     list_all (record_ok True) (ev_Addresses doc) \<and> list_all (record_ok False) (ev_Domains doc) \<and> times_ok (ev_Good doc) \<and> times_ok (ev_Unblocked doc)"

datatype evidence_file = NoEvidence | DamagedEvidence | Evidence evidence

datatype evidence_read = ReadFails | ReadDamaged | ReadDoc evidence

definition load_evidence :: "bool \<Rightarrow> (evidence \<Rightarrow> nat) \<Rightarrow> evidence_file \<Rightarrow> evidence_read" where
  "load_evidence readable sz f =
     (case f of
        NoEvidence \<Rightarrow> ReadDoc new_evidence
      | DamagedEvidence \<Rightarrow> if readable then ReadDamaged else ReadFails
      | Evidence doc \<Rightarrow> if \<not> readable then ReadFails else if parseEvidence sz doc then ReadDoc doc else ReadDamaged)"

text \<open>The two files of the receiving directory.\<close>

record receiving =
  rv_Blocks :: block_file
  rv_Evidence :: evidence_file

section \<open>Changing it\<close>

text \<open>One entry at a time goes, the first of the least worth keeping in the order of the loop.\<close>

fun least_of :: "('v \<Rightarrow> int) \<Rightarrow> 'v table \<Rightarrow> string list \<Rightarrow> string \<Rightarrow> string" where
  "least_of keep m [] victim = victim"
| "least_of keep m (i # is) victim =
     (if victim = [] \<or> (case (map_of m i, map_of m victim) of (Some v, Some u) \<Rightarrow> keep v < keep u | _ \<Rightarrow> False)
      then least_of keep m is i else least_of keep m is victim)"

fun trim_loop :: "nat \<Rightarrow> (string list \<Rightarrow> string list) \<Rightarrow> nat \<Rightarrow> ('v \<Rightarrow> int) \<Rightarrow> 'v table \<Rightarrow> 'v table" where
  "trim_loop 0 ord limit keep m = m"
| "trim_loop (Suc n) ord limit keep m =
     (if length m > limit then trim_loop n ord limit keep (AList.delete (least_of keep m (ord (keys m)) []) m) else m)"

definition trim :: "(string list \<Rightarrow> string list) \<Rightarrow> nat \<Rightarrow> ('v \<Rightarrow> int) \<Rightarrow> 'v table \<Rightarrow> 'v table" where
  "trim ord limit keep m = trim_loop (length m) ord limit keep m"

definition keep_record :: "evidence_record \<Rightarrow> int" where
  "keep_record r = er_Last r + int (min (er_Level r) 1) * 2 ^ 61"

definition sweep :: "int \<Rightarrow> evidence \<Rightarrow> evidence" where
  "sweep now doc =
     doc\<lparr>ev_Addresses := drop_if (\<lambda>r. er_Last r \<le> now - cleanPeriod) (ev_Addresses doc),
         ev_Domains := drop_if (\<lambda>r. er_Last r \<le> now - cleanPeriod) (ev_Domains doc),
         ev_Unblocked := drop_if (\<lambda>t. t \<le> now) (ev_Unblocked doc)\<rparr>"

definition trim_all :: "(string list \<Rightarrow> string list) \<Rightarrow> evidence \<Rightarrow> evidence" where
  "trim_all ord doc =
     doc\<lparr>ev_Addresses := trim ord MaxEvidence keep_record (ev_Addresses doc), ev_Domains := trim ord MaxEvidence keep_record (ev_Domains doc),
         ev_Unblocked := trim ord MaxEvidence (\<lambda>t. t) (ev_Unblocked doc)\<rparr>"

text \<open>\<open>edit\<close> works on the document and may write the block list; what it gives back is the caller's.\<close>

definition change_evidence ::
  "evidence_env \<Rightarrow> (evidence \<Rightarrow> block_file \<Rightarrow> evidence \<times> block_file \<times> 'r) \<Rightarrow> 'r \<Rightarrow> receiving \<Rightarrow> (block_error option \<times> 'r) \<times> receiving" where
  "change_evidence env edit none s =
     (if \<not> ee_dir env then ((Some ErrBlockStore, none), s)
      else if \<not> ee_lock env then ((Some BlockIoError, none), s)
      else
        (let run = (\<lambda>doc f.
           case edit (sweep (ee_now env) doc) (rv_Blocks s) of (doc1, blocks, r) \<Rightarrow>
             let doc2 = trim_all (ee_order env) doc1 in
             if ee_size env doc2 > MaxEvidenceBytes then ((Some ErrMalformed, r), \<lparr>rv_Blocks = blocks, rv_Evidence = f\<rparr>)
             else if \<not> ee_write env then ((Some BlockIoError, r), \<lparr>rv_Blocks = blocks, rv_Evidence = f\<rparr>)
             else ((None, r), \<lparr>rv_Blocks = blocks, rv_Evidence = Evidence doc2\<rparr>)) in
         case load_evidence (ee_read env) (ee_size env) (rv_Evidence s) of
           ReadFails \<Rightarrow> ((Some BlockIoError, none), s)
         | ReadDamaged \<Rightarrow>
             if \<not> ee_rename env then ((Some BlockIoError, none), s)
             else run (new_evidence\<lparr>ev_ResetAt := ee_now env\<rparr>) NoEvidence
         | ReadDoc doc \<Rightarrow> run doc (rv_Evidence s)))"

section \<open>Verdicts\<close>

type_synonym putter = "sender_block \<Rightarrow> block_file \<Rightarrow> (block_error, sender_block) result \<times> block_file"

text \<open>
  The next level's block. The level climbs only if the block was made; a manual block that covers the sender is no
  error.
\<close>

definition escalate ::
  "putter \<Rightarrow> int \<Rightarrow> evidence_record \<Rightarrow> string \<Rightarrow> string \<Rightarrow> block_file \<Rightarrow> evidence_record \<times> block_file \<times> sender_block list \<times> block_error option" where
  "escalate put now r kind value f =
     (let level = min (er_Level r + 1) (length autoCooldown);
          until = now + autoCooldown ! (level - 1);
          r' = r\<lparr>er_Hits := [], er_Last := now\<rparr>;
          b = \<lparr>sb_ID = [], sb_Kind = kind, sb_Value = value, sb_Until = Some until, sb_Source = ''automatic'', sb_Level = int level,
               sb_CreatedAt = 0, sb_Actor = ''automatic'', sb_Reason = ''abuse''\<rparr> in
      case put b f of
        (Inr made, f') \<Rightarrow> (r'\<lparr>er_Level := level, er_Blocked := now\<rparr>, f', [made], None)
      | (Inl e, f') \<Rightarrow> (r', f', [], if e = ErrManualCovers then None else Some e))"

definition zero_record :: evidence_record where
  "zero_record = \<lparr>er_Domain = [], er_Hits = [], er_Level = 0, er_Last = 0, er_Blocked = 0\<rparr>"

definition lookup_record :: "evidence_record table \<Rightarrow> string \<Rightarrow> evidence_record" where
  "lookup_record m i = (case map_of m i of None \<Rightarrow> zero_record | Some r \<Rightarrow> r)"

definition lookup_time :: "int table \<Rightarrow> string \<Rightarrow> int" where
  "lookup_time m i = (case map_of m i of None \<Rightarrow> 0 | Some t \<Rightarrow> t)"

text \<open>Whether the addresses blocked on a domain are enough to block the domain.\<close>

definition domain_due :: "int \<Rightarrow> string \<Rightarrow> evidence \<Rightarrow> bool" where
  "domain_due now domainID doc \<longleftrightarrow>
     (let since = max (now - domainWindow) (er_Blocked (lookup_record (ev_Domains doc) domainID));
          count = length (filter (\<lambda>(i, x). er_Domain x = domainID \<and> er_Blocked x > since) (ev_Addresses doc)) in
      \<not> (count < domainHits \<or> map_of (ev_Good doc) domainID \<noteq> None \<or> ev_GoodSince doc = 0 \<or> now < ev_GoodSince doc + domainWarmUp \<or>
         lookup_time (ev_Unblocked doc) domainID > now))"

text \<open>One counted verdict against an address, and what a block of an address means for its domain.\<close>

definition address_verdict ::
  "putter \<Rightarrow> int \<Rightarrow> string \<Rightarrow> string \<Rightarrow> evidence_record \<Rightarrow> block_file \<Rightarrow> evidence_record \<times> block_file \<times> sender_block list \<times> block_error option" where
  "address_verdict put now addr domainID r f =
     (let r1 = r\<lparr>er_Domain := domainID, er_Hits := filter (\<lambda>t. \<not> t \<le> now - autoWindow) (er_Hits r) @ [now], er_Last := now\<rparr> in
      if length (er_Hits r1) \<ge> autoHits then escalate put now r1 ''address'' addr f else (r1, f, [], None))"

definition domain_verdict ::
  "putter \<Rightarrow> int \<Rightarrow> string \<Rightarrow> string \<Rightarrow> evidence \<Rightarrow> block_file \<Rightarrow> evidence \<times> block_file \<times> sender_block list \<times> block_error option" where
  "domain_verdict put now domain domainID doc f =
     (if \<not> domain_due now domainID doc then (doc, f, [], None)
      else
        (case escalate put now (lookup_record (ev_Domains doc) domainID) ''domain'' domain f of
           (d, f', made, err) \<Rightarrow> (doc\<lparr>ev_Domains := AList.update domainID d (ev_Domains doc)\<rparr>, f', made, err)))"

definition reject_edit ::
  "putter \<Rightarrow> putter \<Rightarrow> int \<Rightarrow> string \<Rightarrow> string \<Rightarrow> string \<Rightarrow> string \<Rightarrow> evidence \<Rightarrow> block_file \<Rightarrow> evidence \<times> block_file \<times> sender_block list \<times> block_error option" where
  "reject_edit put1 put2 now addr addressID domain domainID doc f =
     (if lookup_time (ev_Unblocked doc) addressID > now then (doc, f, [], None)
      else
        (case address_verdict put1 now addr domainID (lookup_record (ev_Addresses doc) addressID) f of
           (r, f1, made1, err1) \<Rightarrow>
             (let doc1 = doc\<lparr>ev_Addresses := AList.update addressID r (ev_Addresses doc)\<rparr> in
              if er_Blocked r \<noteq> now then (doc1, f1, made1, err1)
              else
                (case domain_verdict put2 now domain domainID doc1 f1 of
                   (doc2, f2, made2, err2) \<Rightarrow> (doc2, f2, made1 @ made2, if err2 = None then err1 else err2)))))"

definition Reject ::
  "(string \<Rightarrow> string) \<Rightarrow> evidence_env \<Rightarrow> block_env \<Rightarrow> block_env \<Rightarrow> Authentication \<Rightarrow> string list \<Rightarrow> receiving
     \<Rightarrow> (block_error option \<times> sender_block list) \<times> receiving" where
  "Reject hash env penv1 penv2 auth own s =
     (case Identity auth of
        None \<Rightarrow> ((None, []), s)
      | Some addr \<Rightarrow>
          (let domain = domain_part addr; now = ee_now env in
           if domain \<in> set own then ((None, []), s)
           else
             (case change_evidence env
                     (reject_edit (\<lambda>b. Put hash (penv1\<lparr>be_now := now\<rparr>) b own) (\<lambda>b. Put hash (penv2\<lparr>be_now := now\<rparr>) b own) now
                        addr (BlockID hash ''address'' addr) domain (BlockID hash ''domain'' domain)) ([], None) s of
                ((err, made, putErr), s') \<Rightarrow> ((if err = None then putErr else err, made), s'))))"

fun last_two :: "string list \<Rightarrow> string list" where
  "last_two xs = drop (length xs - 2) xs"

definition accepted_edit :: "int \<Rightarrow> string \<Rightarrow> string \<Rightarrow> evidence \<Rightarrow> evidence" where
  "accepted_edit now i parent doc =
     (let doc1 = (if ev_GoodSince doc = 0 then doc\<lparr>ev_GoodSince := now\<rparr> else doc) in
      if lookup_time (ev_Good doc1) i > 0 \<or> length (ev_Good doc1) \<ge> MaxGoodDomains \<or> lookup_time (ev_Parents doc1) parent \<ge> maxGoodPerParent then doc1
      else doc1\<lparr>ev_Good := AList.update i now (ev_Good doc1), ev_Parents := AList.update parent (lookup_time (ev_Parents doc1) parent + 1) (ev_Parents doc1)\<rparr>)"

definition Accepted :: "(string \<Rightarrow> string) \<Rightarrow> evidence_env \<Rightarrow> Authentication \<Rightarrow> receiving \<Rightarrow> block_error option \<times> receiving" where
  "Accepted hash env auth s =
     (case Identity auth of
        None \<Rightarrow> (None, s)
      | Some addr \<Rightarrow>
          (let domain = domain_part addr; i = BlockID hash ''domain'' domain;
               parent = BlockID hash ''domain'' (join ''.'' (last_two (split_dots [] domain))) in
           if (case load_evidence (ee_read env) (ee_size env) (rv_Evidence s) of ReadDoc doc \<Rightarrow> lookup_time (ev_Good doc) i > 0 | _ \<Rightarrow> False) then (None, s)
           else (case change_evidence env (\<lambda>doc f. (accepted_edit (ee_now env) i parent doc, f, ())) () s of ((err, _), s') \<Rightarrow> (err, s'))))"

definition unblocked :: "evidence_env \<Rightarrow> string \<Rightarrow> receiving \<Rightarrow> block_error option \<times> receiving" where
  "unblocked env i s =
     (case change_evidence env (\<lambda>doc f. (doc\<lparr>ev_Unblocked := AList.update i (ee_now env + UnblockWindow) (ev_Unblocked doc)\<rparr>, f, ())) () s of
        ((err, _), s') \<Rightarrow> (err, s'))"

section \<open>Removing a block\<close>

definition Remove ::
  "(string \<Rightarrow> string) \<Rightarrow> block_env \<Rightarrow> evidence_env \<Rightarrow> string \<Rightarrow> receiving \<Rightarrow> (bool \<times> block_error option) \<times> receiving" where
  "Remove hash env eenv i s =
     (if \<not> validID i then ((False, Some ErrBlockInvalid), s)
      else
        (let listed = (case List_blocks hash (be_read env) (be_now env) (rv_Blocks s) of Inl _ \<Rightarrow> False | Inr bs \<Rightarrow> i \<in> sb_ID ` set bs) in
         case (if listed then unblocked (eenv\<lparr>ee_now := be_now env\<rparr>) i s else (None, s)) of
           (suppressed, s1) \<Rightarrow>
             (let found = (be_dir env \<and> be_lock env \<and>
                    (case List_blocks hash (be_read env) (be_now env) (rv_Blocks s1) of Inl _ \<Rightarrow> False | Inr bs \<Rightarrow> i \<in> sb_ID ` set bs)) in
              case change_blocks hash env (\<lambda>bs. Inr (filter (\<lambda>x. sb_ID x \<noteq> i) bs)) (rv_Blocks s1) of
                (Inl e, f) \<Rightarrow> ((found, Some e), s1\<lparr>rv_Blocks := f\<rparr>)
              | (Inr _, f) \<Rightarrow> ((found, if found \<and> suppressed \<noteq> None then Some ErrUnblockNotRecorded else None), s1\<lparr>rv_Blocks := f\<rparr>))))"

end
