(* ===== verification/Sender_Properties.thy ===== *)
theory Sender_Properties
  imports Sender_Evidence "HOL-Library.Multiset"
begin

text \<open>
  What the sender blocks promise: the list stays one that loads and fits, blocks do what they say, an
  administrator's blocks stand whatever is blocked automatically, the deployment's own domains pass, and
  automatic blocks rest on counted, authenticated rejections.
\<close>

section \<open>Senders in lower case\<close>

lemma rune_len_le: "rune_len bs \<le> length bs"
  by (cases bs rule: rune_len.cases) auto

lemma rune_len_high:
  assumes "1 < rune_len bs" "b \<in> set (take (rune_len bs) bs)"
  shows "128 \<le> b"
  using assms by (cases bs rule: rune_len.cases) (auto simp: cont_def split: if_splits)

lemma lower_high: "128 \<le> byte c \<Longrightarrow> lower_char c = c"
  by (simp add: lower_char_def is_upper_def)

lemma LowerASCII_Nil [simp]: "LowerASCII [] = []"
  by (simp add: LowerASCII.simps)

text \<open>On valid UTF-8 only the letters A to Z change, and no byte moves.\<close>

lemma LowerASCII_valid: "valid_utf8 s \<Longrightarrow> LowerASCII s = to_lower s"
proof (induction s rule: valid_utf8.induct)
  case (1 s)
  show ?case
  proof (cases "s = []")
    case False
    let ?n = "rune_len (map byte s)"
    have n: "0 < ?n" "valid_utf8 (drop (max 1 ?n) s)" using "1.prems" False valid_utf8.simps [of s] by auto
    hence ih: "LowerASCII (drop ?n s) = to_lower (drop ?n s)" using "1.IH" False by (simp add: max_def split: if_splits)
    have le: "?n \<le> length s" using rune_len_le [of "map byte s"] by simp
    show ?thesis
    proof (cases "?n = 1")
      case True
      thus ?thesis using False ih by (cases s) (simp_all add: LowerASCII.simps [of "_ # _"] to_lower_def)
    next
      case big: False
      hence "\<forall>c \<in> set (take ?n s). lower_char c = c"
        using rune_len_high [of "map byte s"] n(1) by (force simp: take_map intro!: lower_high)
      hence "to_lower (take ?n s) = take ?n s" by (simp add: to_lower_def map_idI)
      hence "LowerASCII s = to_lower (take ?n s) @ to_lower (drop ?n s)"
        using False big n(1) ih by (simp add: LowerASCII.simps [of s] Let_def)
      thus ?thesis by (simp flip: to_lower_append)
    qed
  qed simp
qed

lemma lower_at: "lower_char c = CHR ''@'' \<longleftrightarrow> c = CHR ''@''"
proof
  assume a: "lower_char c = CHR ''@''"
  show "c = CHR ''@''"
  proof (cases "is_upper c")
    case True
    hence "byte (lower_char c) = byte c + 32" "65 \<le> byte c" by (auto simp: lower_char_def is_upper_def)
    thus ?thesis using a by simp
  qed (use a in \<open>simp add: lower_char_def\<close>)
qed (simp add: lower_char_def is_upper_def)

lemma cut_at_Some: "cut_at s = Some (l, d) \<longleftrightarrow> s = l @ CHR ''@'' # d \<and> CHR ''@'' \<notin> set d"
proof
  assume "cut_at s = Some (l, d)"
  hence at: "CHR ''@'' \<in> set (rev s)" and l: "l = rev (tl (dropWhile (\<lambda>c. c \<noteq> CHR ''@'') (rev s)))" and d: "d = rev (takeWhile (\<lambda>c. c \<noteq> CHR ''@'') (rev s))"
    by (auto simp: cut_at_def split: if_splits)
  have ne: "dropWhile (\<lambda>c. c \<noteq> CHR ''@'') (rev s) \<noteq> []" using at by (auto simp: dropWhile_eq_Nil_conv)
  hence "hd (dropWhile (\<lambda>c. c \<noteq> CHR ''@'') (rev s)) = CHR ''@''" using hd_dropWhile [OF ne] by simp
  hence "rev s = rev d @ CHR ''@'' # rev l" using ne takeWhile_dropWhile_id [of "\<lambda>c. c \<noteq> CHR ''@''" "rev s"] unfolding l d by (metis list.collapse rev_rev_ident)
  hence "rev (rev s) = rev (rev d @ CHR ''@'' # rev l)" by (rule arg_cong)
  moreover have "CHR ''@'' \<notin> set d" unfolding d by (auto dest: set_takeWhileD)
  ultimately show "s = l @ CHR ''@'' # d \<and> CHR ''@'' \<notin> set d" by simp
next
  assume s: "s = l @ CHR ''@'' # d \<and> CHR ''@'' \<notin> set d"
  hence "takeWhile (\<lambda>c. c \<noteq> CHR ''@'') (rev s) = rev d" "dropWhile (\<lambda>c. c \<noteq> CHR ''@'') (rev s) = CHR ''@'' # rev l"
    by (auto simp: takeWhile_append takeWhile_eq_all_conv dropWhile_append)
  thus "cut_at s = Some (l, d)" using s by (simp add: cut_at_def)
qed

lemma cut_at_None: "cut_at s = None \<longleftrightarrow> CHR ''@'' \<notin> set s"
  by (simp add: cut_at_def)

lemma cut_at_lower: "cut_at s = Some (l, d) \<Longrightarrow> cut_at (to_lower s) = Some (to_lower l, to_lower d)"
proof -
  assume "cut_at s = Some (l, d)"
  moreover from this have "CHR ''@'' \<notin> set (to_lower d)" using lower_at by (force simp: cut_at_Some to_lower_def)
  moreover have "lower_char (CHR ''@'') = CHR ''@''" using lower_at by blast
  ultimately show ?thesis by (simp add: cut_at_Some to_lower_def)
qed

lemma valid_sender_cut:
  assumes "ValidSender s" "s \<noteq> []"
  obtains l d where "cut_at s = Some (l, d)" "LowerASCII s = to_lower s" "cut_at (LowerASCII s) = Some (to_lower l, to_lower d)"
  using assms LowerASCII_valid [of s] cut_at_lower [of s] that by (auto simp: ValidSender_def split: option.splits)

section \<open>The list\<close>

lemma wire_sum_simps [simp]:
  "wire_sum [] = 0" "wire_sum (b # bs) = BlockWireBytes (Wire b) + wire_sum bs" "wire_sum (bs @ cs) = wire_sum bs + wire_sum cs"
  by (simp_all add: wire_sum_def)

lemma wire_sum_filter: "wire_sum (filter P bs) \<le> wire_sum bs"
  by (induction bs) auto

lemma wire_sum_filter_sub: "(\<And>x. P x \<Longrightarrow> Q x) \<Longrightarrow> wire_sum (filter P bs) \<le> wire_sum (filter Q bs)"
  by (induction bs) auto

text \<open>The file rule says what the loop checks.\<close>

lemma parse_loop_iff:
  "parse_loop hash seen w bs \<longleftrightarrow>
     (\<forall>b \<in> set bs. block_valid hash b) \<and> distinct (map sb_ID bs) \<and> set (map sb_ID bs) \<inter> set seen = {} \<and> (bs = [] \<or> w + wire_sum bs \<le> maxBlockWire)"
proof (induction bs arbitrary: seen w)
  case (Cons b bs)
  show ?case unfolding parse_loop.simps(2) Let_def Cons.IH by auto
qed simp

definition list_ok :: "(string \<Rightarrow> string) \<Rightarrow> sender_block list \<Rightarrow> bool" where
  "list_ok hash bs \<longleftrightarrow>
     (\<forall>b \<in> set bs. block_valid hash b) \<and> distinct (map sb_ID bs) \<and> fits bs \<and> (\<forall>b \<in> set bs. automatic b \<longrightarrow> sb_Until b \<noteq> None)"

lemma list_ok_parses: "list_ok hash bs \<Longrightarrow> ParseBlocks hash bs"
  by (auto simp: list_ok_def ParseBlocks_def parse_loop_iff fits_def)

lemma fits_filter: "fits bs \<Longrightarrow> fits (filter P bs)"
proof -
  assume f: "fits bs"
  have "filter automatic (filter P bs) = filter P (filter automatic bs)" by (simp add: conj_commute)
  thus ?thesis using f wire_sum_filter [of P bs] wire_sum_filter [of P "filter automatic bs"]
    unfolding fits_def by (metis length_filter_le order_trans)
qed

lemma fits_perm:
  assumes "mset bs = mset cs"
  shows "fits bs = fits cs"
proof -
  have sum: "wire_sum xs = (\<Sum>x \<in># mset xs. BlockWireBytes (Wire x))" for xs by (simp add: wire_sum_def flip: sum_mset_sum_list)
  have f: "mset (filter automatic bs) = mset (filter automatic cs)" using assms by simp
  have "wire_sum bs = wire_sum cs" "wire_sum (filter automatic bs) = wire_sum (filter automatic cs)" unfolding sum by (simp_all add: assms)
  moreover have "length bs = length cs" "length (filter automatic bs) = length (filter automatic cs)" using assms f by (metis mset_eq_length)+
  ultimately show ?thesis by (simp add: fits_def)
qed

lemma list_ok_filter: "list_ok hash bs \<Longrightarrow> list_ok hash (filter P bs)"
  by (auto simp: list_ok_def fits_filter distinct_map_filter)

lemma list_ok_sort: "list_ok hash bs \<Longrightarrow> list_ok hash (sort_key f bs)"
  unfolding list_ok_def using fits_perm [of "sort_key f bs" bs]
  by (metis distinct_map distinct_sort mset_sort set_sort)

definition file_ok :: "(string \<Rightarrow> string) \<Rightarrow> block_file \<Rightarrow> bool" where
  "file_ok hash f = (case f of NoBlocks \<Rightarrow> True | DamagedBlocks \<Rightarrow> False | Blocks bs \<Rightarrow> list_ok hash bs)"

definition stored :: "block_file \<Rightarrow> sender_block list" where
  "stored f = (case f of Blocks bs \<Rightarrow> bs | _ \<Rightarrow> [])"

lemma List_blocks_ok:
  assumes "file_ok hash f"
  shows "List_blocks hash True now f = Inr (sort_key (\<lambda>b. sb_Kind b @ '':'' @ sb_Value b) (filter (active now) (stored f)))"
  using assms by (cases f) (auto simp: List_blocks_def load_blocks_def file_ok_def stored_def list_ok_parses)

lemma List_blocks_Inr:
  assumes "file_ok hash f" "List_blocks hash r now f = Inr bs"
  shows "list_ok hash bs" "set bs = {b \<in> set (stored f). active now b}"
proof -
  have "bs = sort_key (\<lambda>b. sb_Kind b @ '':'' @ sb_Value b) (filter (active now) (stored f))"
    using assms by (cases f) (auto simp: List_blocks_def load_blocks_def file_ok_def stored_def split: if_splits)
  moreover have "list_ok hash (stored f)" using assms(1) by (cases f) (auto simp: file_ok_def stored_def list_ok_def fits_def)
  ultimately show "list_ok hash bs" "set bs = {b \<in> set (stored f). active now b}" by (auto intro: list_ok_sort list_ok_filter)
qed

subsection \<open>Making room\<close>

text \<open>Only automatic blocks go, and only while there are any.\<close>

lemma drop_nth_set:
  assumes "j < length bs"
  shows "set bs = insert (bs ! j) (set (take j bs @ drop (j + 1) bs))" "distinct (map f bs) \<Longrightarrow> distinct (map f (take j bs @ drop (j + 1) bs))"
proof -
  have bs: "bs = take j bs @ bs ! j # drop (j + 1) bs" using id_take_nth_drop [OF assms] by simp
  have "set bs = set (take j bs @ bs ! j # drop (j + 1) bs)" using bs by (rule arg_cong)
  thus "set bs = insert (bs ! j) (set (take j bs @ drop (j + 1) bs))" by auto
  assume "distinct (map f bs)"
  hence "distinct (map f (take j bs @ bs ! j # drop (j + 1) bs))" using bs by metis
  thus "distinct (map f (take j bs @ drop (j + 1) bs))" by (simp del: take_map drop_map)
qed

lemma make_room_spec:
  assumes "make_room bs = Inr cs"
  shows "fits cs \<and> (\<forall>x \<in> set bs. \<not> automatic x \<longrightarrow> x \<in> set cs) \<and> set cs \<subseteq> set bs \<and> (distinct (map sb_ID bs) \<longrightarrow> distinct (map sb_ID cs))"
  using assms
proof (induction bs rule: make_room.induct)
  case (1 bs)
  show ?case
  proof (cases "fits bs")
    case True
    thus ?thesis using 1(2) by (auto simp: make_room.simps [of bs])
  next
    case False
    then obtain j y where v: "find_victim bs 0 None = Some (Some (j, y))" and rest: "make_room (take j bs @ drop (j + 1) bs) = Inr cs"
      using 1(2) by (auto simp: make_room.simps [of bs] split: option.splits prod.splits)
    have j: "j < length bs" "bs ! j = y" "automatic y" using find_victim_bound [OF v] by auto
    show ?thesis using 1(1) [OF False v refl refl rest] drop_nth_set(1) [OF j(1)] drop_nth_set(2) [OF j(1), of sb_ID] j(2,3) by auto
  qed
qed

lemma find_victim_none: "find_victim bs i v = Some None \<Longrightarrow> v = None \<and> (\<forall>b \<in> set bs. \<not> automatic b)"
  by (induction bs arbitrary: i v) (auto split: if_splits option.splits, blast+)

lemma find_victim_total:
  assumes "\<forall>b \<in> set bs. automatic b \<longrightarrow> sb_Until b \<noteq> None" "case v of None \<Rightarrow> True | Some (j, y) \<Rightarrow> sb_Until y \<noteq> None"
  shows "find_victim bs i v \<noteq> None"
  using assms by (induction bs arbitrary: i v) (auto split: option.splits)

text \<open>A list is full only when its manual blocks alone do not fit, and no expiry time is missing.\<close>

lemma make_room_error:
  assumes "make_room bs = Inl e" "\<forall>b \<in> set bs. automatic b \<longrightarrow> sb_Until b \<noteq> None"
  shows "e = ErrBlockFull \<and> \<not> fits (filter (\<lambda>b. \<not> automatic b) bs)"
  using assms
proof (induction bs rule: make_room.induct)
  case (1 bs)
  have nf: "\<not> fits bs" using 1(2) by (auto simp: make_room.simps [of bs] split: if_splits)
  obtain v where v: "find_victim bs 0 None = Some v" using find_victim_total [of bs None 0] 1(3) by auto
  show ?case
  proof (cases v)
    case None
    hence "filter (\<lambda>b. \<not> automatic b) bs = bs" using find_victim_none v by (auto simp: filter_id_conv)
    thus ?thesis using nf 1(2) v None by (simp add: make_room.simps [of bs])
  next
    case (Some p)
    obtain j y where p: "p = (j, y)" by (cases p)
    hence j: "j < length bs" "bs ! j = y" "automatic y" using find_victim_bound v Some by fastforce+
    have rest: "make_room (take j bs @ drop (j + 1) bs) = Inl e" using 1(2) nf v Some p by (simp add: make_room.simps [of bs])
    have "e = ErrBlockFull \<and> \<not> fits (filter (\<lambda>b. \<not> automatic b) (take j bs @ drop (j + 1) bs))"
      using 1(1) [OF nf v [unfolded Some p] refl refl rest] 1(3) by (auto dest: in_set_takeD in_set_dropD)
    moreover have "bs = take j bs @ y # drop (j + 1) bs" using id_take_nth_drop [OF j(1)] j(2) by simp
    hence "filter (\<lambda>b. \<not> automatic b) bs = filter (\<lambda>b. \<not> automatic b) (take j bs @ drop (j + 1) bs)"
      using j(3) by (metis (no_types, lifting) filter.simps(2) filter_append)
    ultimately show ?thesis by simp
  qed
qed

section \<open>Writing the list\<close>

definition manual :: "sender_block \<Rightarrow> bool" where "manual b \<longleftrightarrow> sb_Source b = ''manual''"

lemma valid_source: "block_valid hash b \<Longrightarrow> manual b \<longleftrightarrow> \<not> automatic b"
  by (auto simp: block_valid_def manual_def automatic_def)

lemma put_edit_spec:
  assumes "put_edit b bs = Inr cs" "list_ok hash bs" "block_valid hash b" "automatic b \<longrightarrow> sb_Until b \<noteq> None"
  shows "list_ok hash cs \<and> b \<in> set cs \<and> set cs \<subseteq> insert b (set bs) \<and> (\<forall>x \<in> set bs. manual x \<and> sb_ID x \<noteq> sb_ID b \<longrightarrow> x \<in> set cs) \<and>
    (automatic b \<longrightarrow> (\<forall>x \<in> set bs. manual x \<or> sb_ID x \<noteq> sb_ID b \<longrightarrow> x \<in> set cs))"
proof -
  let ?bs = "filter (\<lambda>x. sb_ID x \<noteq> sb_ID b) bs @ [b]"
  have d: "distinct (map sb_ID ?bs)" using assms(2) by (auto simp: list_ok_def distinct_map_filter)
  have un: "\<forall>x \<in> set ?bs. block_valid hash x \<and> (automatic x \<longrightarrow> sb_Until x \<noteq> None)" using assms(2-4) by (auto simp: list_ok_def)
  consider (fits) "fits ?bs" "cs = ?bs" | (room) "\<not> automatic b" "make_room ?bs = Inr cs"
    using assms(1) by (auto simp: put_edit_def Let_def split: if_splits)
  thus ?thesis
  proof cases
    case fits
    have "\<forall>x \<in> set bs. manual x \<longrightarrow> sb_ID x \<noteq> sb_ID b" if "automatic b"
      using that assms(1) by (auto simp: put_edit_def list_ex_iff covered_def manual_def split: if_splits)
    thus ?thesis using fits d un by (auto simp: list_ok_def)
  next
    case room
    note m = make_room_spec [OF room(2)]
    have "\<forall>x \<in> set ?bs. manual x \<longrightarrow> x \<in> set cs" "b \<in> set cs" using m un room(1) valid_source by fastforce+
    thus ?thesis using m d un room(1) by (auto simp: list_ok_def)
  qed
qed

lemma change_blocks_spec:
  assumes "change_blocks hash env edit f = (Inr u, f')"
  obtains bs cs where "List_blocks hash (be_read env) (be_now env) f = Inr bs" "edit bs = Inr cs" "f' = Blocks cs"
  using assms by (auto simp: change_blocks_def split: if_splits sum.splits)

lemma change_blocks_error: "change_blocks hash env edit f = (Inl e, f') \<Longrightarrow> f' = f"
  by (auto simp: change_blocks_def split: if_splits sum.splits)

text \<open>The block that \<open>Put\<close> stores for a request.\<close>

definition normalized :: "(string \<Rightarrow> string) \<Rightarrow> int \<Rightarrow> sender_block \<Rightarrow> string \<Rightarrow> sender_block" where
  "normalized hash now b value =
     b\<lparr>sb_Reason := (if sb_Reason b = [] then ''other'' else sb_Reason b), sb_Value := value, sb_ID := BlockID hash (sb_Kind b) value, sb_CreatedAt := now\<rparr>"

lemma Put_spec:
  assumes "Put hash env b own f = (Inr b', f')" "file_ok hash f" "automatic b \<longrightarrow> sb_Until b \<noteq> None"
  shows "\<exists>v. NormalizeBlock (sb_Kind b) (sb_Value b) = Some v \<and> b' = normalized hash (be_now env) b v \<and> block_valid hash b' \<and>
      active (be_now env) b' \<and> domain_part v \<notin> set own \<and>
      (\<exists>cs. f' = Blocks cs \<and> list_ok hash cs \<and> b' \<in> set cs \<and> set cs \<subseteq> insert b' (set (stored f)) \<and>
         (\<forall>x \<in> set (stored f). active (be_now env) x \<and> manual x \<and> sb_ID x \<noteq> sb_ID b' \<longrightarrow> x \<in> set cs) \<and>
         (automatic b \<longrightarrow> (\<forall>x \<in> set (stored f). active (be_now env) x \<and> (manual x \<or> sb_ID x \<noteq> sb_ID b') \<longrightarrow> x \<in> set cs)))"
proof -
  obtain v where v: "NormalizeBlock (sb_Kind b) (sb_Value b) = Some v" and b': "b' = normalized hash (be_now env) b v"
    and g: "block_valid hash b'" "active (be_now env) b'" "domain_part v \<notin> set own" and c: "change_blocks hash env (put_edit b') f = (Inr (), f')"
    using assms(1) by (auto simp: Put_def Let_def normalized_def split: option.splits if_splits prod.splits sum.splits)
  obtain bs cs where l: "List_blocks hash (be_read env) (be_now env) f = Inr bs" and e: "put_edit b' bs = Inr cs" and f': "f' = Blocks cs"
    using change_blocks_spec [OF c] .
  have u: "automatic b' \<longrightarrow> sb_Until b' \<noteq> None" "automatic b' = automatic b" using assms(3) by (auto simp: b' normalized_def automatic_def)
  show ?thesis using put_edit_spec [OF e List_blocks_Inr(1) [OF assms(2) l] g(1) u(1)] List_blocks_Inr(2) [OF assms(2) l] v b' g f' u(2) by blast
qed

lemma Put_error: "Put hash env b own f = (Inl e, f') \<Longrightarrow> f' = f"
  by (auto simp: Put_def Let_def split: option.splits if_splits prod.splits sum.splits dest: change_blocks_error)

section \<open>Runs\<close>

datatype block_op =
  PutOp block_env sender_block
| RemoveOp block_env evidence_env string
| RejectOp evidence_env block_env block_env Authentication
| AcceptedOp evidence_env Authentication

text \<open>The callers of \<open>Put\<close> outside the package add manual blocks.\<close>

fun block_step :: "(string \<Rightarrow> string) \<Rightarrow> string list \<Rightarrow> block_op \<Rightarrow> receiving \<Rightarrow> receiving" where
  "block_step hash own (PutOp env b) s = s\<lparr>rv_Blocks := snd (Put hash env (b\<lparr>sb_Source := ''manual''\<rparr>) own (rv_Blocks s))\<rparr>"
| "block_step hash own (RemoveOp env eenv i) s = snd (Remove hash env eenv i s)"
| "block_step hash own (RejectOp env penv1 penv2 auth) s = snd (Reject hash env penv1 penv2 auth own s)"
| "block_step hash own (AcceptedOp env auth) s = snd (Accepted hash env auth s)"

definition new_receiving :: receiving where
  "new_receiving = \<lparr>rv_Blocks = NoBlocks, rv_Evidence = NoEvidence\<rparr>"

definition block_run :: "(string \<Rightarrow> string) \<Rightarrow> string list \<Rightarrow> block_op list \<Rightarrow> receiving \<Rightarrow> receiving" where
  "block_run hash own ops s = fold (block_step hash own) ops s"

lemma change_evidence_blocks:
  "rv_Blocks (snd (change_evidence env edit none s)) = rv_Blocks s \<or>
   (\<exists>doc. rv_Blocks (snd (change_evidence env edit none s)) = fst (snd (edit doc (rv_Blocks s))))"
  by (auto simp: change_evidence_def Let_def split: evidence_read.split prod.split) (metis fst_conv snd_conv)+

text \<open>
  What \<open>Put\<close> and deletion keep, every operation keeps: \<open>ok\<close> says which blocks may be put at a time, \<open>gone\<close> which may be
  deleted.
\<close>

fun permitted :: "(int \<Rightarrow> sender_block \<Rightarrow> bool) \<Rightarrow> (int \<Rightarrow> string \<Rightarrow> bool) \<Rightarrow> block_op \<Rightarrow> bool" where
  "permitted ok gone (PutOp env b) = ok (be_now env) (b\<lparr>sb_Source := ''manual''\<rparr>)"
| "permitted ok gone (RemoveOp env eenv i) = gone (be_now env) i"
| "permitted ok gone (RejectOp env penv1 penv2 auth) = (\<forall>b. automatic b \<and> sb_Until b \<noteq> None \<longrightarrow> ok (ee_now env) b)"
| "permitted ok gone (AcceptedOp env auth) = True"

definition autos :: "(int \<Rightarrow> sender_block \<Rightarrow> bool) \<Rightarrow> int \<Rightarrow> bool" where
  "autos ok now \<longleftrightarrow> (\<forall>b. automatic b \<and> sb_Until b \<noteq> None \<longrightarrow> ok now b)"

locale block_list_invariant =
  fixes hash :: "string \<Rightarrow> string" and own :: "string list" and I :: "block_file \<Rightarrow> bool"
    and ok :: "int \<Rightarrow> sender_block \<Rightarrow> bool" and gone :: "int \<Rightarrow> string \<Rightarrow> bool"
  assumes put: "I f \<Longrightarrow> ok (be_now env) b \<Longrightarrow> I (snd (Put hash env b own f))"
    and delete: "I f \<Longrightarrow> gone (be_now env) i \<Longrightarrow> I (snd (change_blocks hash env (\<lambda>bs. Inr (filter (\<lambda>x. sb_ID x \<noteq> i) bs)) f))"
begin

lemma escalate_inv:
  assumes "I f" "\<And>b f. put' b f = Put hash env b own f" "autos ok (be_now env)"
  shows "I (fst (snd (escalate put' now r kind val f)))"
proof -
  have "I f'" if "put' b f = (q, f')" "sb_Until b \<noteq> None" "automatic b" for b q f'
    using put [OF assms(1), of env b] that assms(2,3) by (simp add: autos_def)
  thus ?thesis by (auto simp: escalate_def Let_def automatic_def split: prod.split sum.split)
qed

lemma address_inv:
  assumes "I f" "\<And>b f. put' b f = Put hash env b own f" "autos ok (be_now env)"
  shows "I (fst (snd (address_verdict put' now addr did r f)))"
  using escalate_inv [OF assms] assms(1) by (simp add: address_verdict_def Let_def)

lemma domain_inv:
  assumes "I f" "\<And>b f. put' b f = Put hash env b own f" "autos ok (be_now env)"
  shows "I (fst (snd (domain_verdict put' now domain did doc f)))"
  using escalate_inv [OF assms, of now "lookup_record (ev_Domains doc) did" "''domain''" domain] assms(1)
  by (auto simp: domain_verdict_def split: prod.splits)

lemma reject_inv:
  assumes "I f" "autos ok now"
  shows "I (fst (snd (reject_edit (\<lambda>b. Put hash (penv1\<lparr>be_now := now\<rparr>) b own) (\<lambda>b. Put hash (penv2\<lparr>be_now := now\<rparr>) b own) now addr aid domain did doc f)))"
proof -
  let ?put1 = "\<lambda>b. Put hash (penv1\<lparr>be_now := now\<rparr>) b own" and ?put2 = "\<lambda>b. Put hash (penv2\<lparr>be_now := now\<rparr>) b own"
  obtain r f1 made1 err1 where a: "address_verdict ?put1 now addr did (lookup_record (ev_Addresses doc) aid) f = (r, f1, made1, err1)"
    by (metis prod_cases4)
  obtain doc2 f2 made2 err2 where d: "domain_verdict ?put2 now domain did (doc\<lparr>ev_Addresses := AList.update aid r (ev_Addresses doc)\<rparr>) f1 = (doc2, f2, made2, err2)"
    by (metis prod_cases4)
  have 1: "I f1" using address_inv [OF assms(1) refl, of "penv1\<lparr>be_now := now\<rparr>" now addr did "lookup_record (ev_Addresses doc) aid"] a assms(2) by simp
  have "I f2"
    using domain_inv [OF 1 refl, of "penv2\<lparr>be_now := now\<rparr>" now domain did "doc\<lparr>ev_Addresses := AList.update aid r (ev_Addresses doc)\<rparr>"] d assms(2) by simp
  thus ?thesis using assms(1) 1 by (simp add: reject_edit_def a d Let_def)
qed

lemma step_inv:
  assumes "I (rv_Blocks s)" "permitted ok gone op"
  shows "I (rv_Blocks (block_step hash own op s))"
proof (cases op)
  case (PutOp env b)
  thus ?thesis using put [OF assms(1), of env "b\<lparr>sb_Source := ''manual''\<rparr>"] assms(2) by simp
next
  case (RemoveOp env eenv i)
  have u: "rv_Blocks (snd (unblocked e i s)) = rv_Blocks s" for e
    using change_evidence_blocks [of e "\<lambda>doc f. (doc\<lparr>ev_Unblocked := AList.update i (ee_now e + UnblockWindow) (ev_Unblocked doc)\<rparr>, f, ())" "()" s]
    by (auto simp: unblocked_def split: prod.split)
  have "rv_Blocks (snd (Remove hash env eenv i s)) \<in>
      {rv_Blocks s, snd (change_blocks hash env (\<lambda>bs. Inr (filter (\<lambda>x. sb_ID x \<noteq> i) bs)) (rv_Blocks s))}"
  proof (cases "validID i")
    case True
    obtain q s1 where s1: "(if (case List_blocks hash (be_read env) (be_now env) (rv_Blocks s) of Inl _ \<Rightarrow> False | Inr bs \<Rightarrow> i \<in> sb_ID ` set bs)
        then unblocked (eenv\<lparr>ee_now := be_now env\<rparr>) i s else (None, s)) = (q, s1)" by fastforce
    hence "rv_Blocks s1 = rv_Blocks s" using u [of "eenv\<lparr>ee_now := be_now env\<rparr>"] by (auto split: if_splits)
    thus ?thesis using True unfolding Remove_def Let_def s1 by (simp split: prod.split sum.split)
  qed (simp add: Remove_def)
  thus ?thesis using RemoveOp assms delete [OF assms(1), of env i] by auto
next
  case (RejectOp env penv1 penv2 auth)
  let ?edit = "reject_edit (\<lambda>b. Put hash (penv1\<lparr>be_now := ee_now env\<rparr>) b own) (\<lambda>b. Put hash (penv2\<lparr>be_now := ee_now env\<rparr>) b own) (ee_now env)"
  have "autos ok (ee_now env)" using assms(2) RejectOp by (simp add: autos_def)
  hence "I (rv_Blocks (snd (change_evidence env (?edit addr aid domain did) none s)))" for addr aid domain did none
    using change_evidence_blocks [of env "?edit addr aid domain did" none s] reject_inv [OF assms(1), of "ee_now env" penv1 penv2 addr aid domain did] assms(1)
    by auto
  thus ?thesis using RejectOp assms(1) by (auto simp: Reject_def Let_def split: option.split prod.split) (metis snd_conv)
next
  case (AcceptedOp env auth)
  have "rv_Blocks (snd (change_evidence env (\<lambda>doc f. (accepted_edit (ee_now env) i parent doc, f, ())) () s)) = rv_Blocks s" for i parent
    using change_evidence_blocks [of env "\<lambda>doc f. (accepted_edit (ee_now env) i parent doc, f, ())" "()" s] by auto
  thus ?thesis using AcceptedOp assms(1) by (auto simp: Accepted_def Let_def split: option.split prod.split) (metis snd_conv)+
qed

lemma run_inv: "I (rv_Blocks s) \<Longrightarrow> \<forall>op \<in> set ops. permitted ok gone op \<Longrightarrow> I (rv_Blocks (block_run hash own ops s))"
  unfolding block_run_def by (induction ops arbitrary: s) (auto intro: step_inv simp del: block_step.simps)

end

section \<open>Two invariants\<close>

text \<open>The list is well-formed and names no domain of the deployment.\<close>

definition clear_of :: "(string \<Rightarrow> string) \<Rightarrow> string list \<Rightarrow> block_file \<Rightarrow> bool" where
  "clear_of hash own f \<longleftrightarrow> file_ok hash f \<and> (\<forall>b \<in> set (stored f). domain_part (sb_Value b) \<notin> set own)"

lemma Put_cases:
  obtains (kept) "snd (Put hash env b own f) = f" | (made) b' where "Put hash env b own f = (Inr b', snd (Put hash env b own f))"
  using Put_error [of hash env b own f] by (cases "Put hash env b own f"; cases "fst (Put hash env b own f)") auto

lemma delete_cases:
  assumes "file_ok hash f"
  obtains (kept) "snd (change_blocks hash env (\<lambda>bs. Inr (filter P bs)) f) = f"
  | (gone) cs where "snd (change_blocks hash env (\<lambda>bs. Inr (filter P bs)) f) = Blocks cs" "list_ok hash cs"
      "set cs = {b \<in> set (stored f). active (be_now env) b \<and> P b}"
proof (cases "change_blocks hash env (\<lambda>bs. Inr (filter P bs)) f")
  case (Pair q f')
  show ?thesis
  proof (cases q)
    case (Inr u)
    then obtain bs where l: "List_blocks hash (be_read env) (be_now env) f = Inr bs" and f': "f' = Blocks (filter P bs)"
      using change_blocks_spec [of hash env "\<lambda>bs. Inr (filter P bs)" f u f'] Pair by auto
    show ?thesis using List_blocks_Inr [OF assms l] Pair f' by (intro gone [of "filter P bs"]) (auto intro: list_ok_filter)
  qed (use kept Pair change_blocks_error in auto)
qed

interpretation clear_list: block_list_invariant hash own "clear_of hash own" "\<lambda>now b. automatic b \<longrightarrow> sb_Until b \<noteq> None" "\<lambda>now i. True" for hash own
proof
  fix f b and env :: block_env
  assume "clear_of hash own f" and u: "automatic b \<longrightarrow> sb_Until b \<noteq> None"
  hence f: "file_ok hash f" "\<forall>x \<in> set (stored f). domain_part (sb_Value x) \<notin> set own" by (auto simp: clear_of_def)
  show "clear_of hash own (snd (Put hash env b own f))"
  proof (cases rule: Put_cases [of hash env b own f])
    case (made b')
    from Put_spec [OF made f(1) u] f(2) show ?thesis by (auto simp: clear_of_def file_ok_def stored_def normalized_def split: block_file.splits)
  qed (use f in \<open>simp add: clear_of_def\<close>)
next
  fix f i and env :: block_env
  assume "clear_of hash own f"
  hence f: "file_ok hash f" "\<forall>x \<in> set (stored f). domain_part (sb_Value x) \<notin> set own" by (auto simp: clear_of_def)
  show "clear_of hash own (snd (change_blocks hash env (\<lambda>bs. Inr (filter (\<lambda>x. sb_ID x \<noteq> i) bs)) f))"
    using f by (cases rule: delete_cases [OF f(1), of env "\<lambda>x. sb_ID x \<noteq> i"]) (auto simp: clear_of_def file_ok_def stored_def)
qed

text \<open>A manual block stands until it expires, is removed or is put anew.\<close>

definition standing :: "(string \<Rightarrow> string) \<Rightarrow> sender_block \<Rightarrow> block_file \<Rightarrow> bool" where
  "standing hash x f \<longleftrightarrow> file_ok hash f \<and> x \<in> set (stored f)"

definition may_put :: "(string \<Rightarrow> string) \<Rightarrow> sender_block \<Rightarrow> int \<Rightarrow> sender_block \<Rightarrow> bool" where
  "may_put hash x now b \<longleftrightarrow>
     active now x \<and> (automatic b \<longrightarrow> sb_Until b \<noteq> None) \<and>
     (automatic b \<or> (\<forall>v. NormalizeBlock (sb_Kind b) (sb_Value b) = Some v \<longrightarrow> BlockID hash (sb_Kind b) v \<noteq> sb_ID x))"

interpretation standing_list: block_list_invariant hash own "\<lambda>f. manual x \<and> standing hash x f" "may_put hash x" "\<lambda>now i. active now x \<and> i \<noteq> sb_ID x" for hash own x
proof
  fix f b and env :: block_env
  assume m: "manual x \<and> standing hash x f" and u: "may_put hash x (be_now env) b"
  hence f: "file_ok hash f" "x \<in> set (stored f)" by (auto simp: standing_def)
  show "manual x \<and> standing hash x (snd (Put hash env b own f))"
  proof (cases rule: Put_cases [of hash env b own f])
    case (made b')
    have u': "automatic b \<longrightarrow> sb_Until b \<noteq> None" using u by (simp add: may_put_def)
    from Put_spec [OF made f(1) u'] m f(2) u show ?thesis
      by (auto simp: standing_def file_ok_def stored_def normalized_def may_put_def split: block_file.splits)
  qed (use m in simp)
next
  fix f i and env :: block_env
  assume m: "manual x \<and> standing hash x f" and i: "active (be_now env) x \<and> i \<noteq> sb_ID x"
  hence f: "file_ok hash f" "x \<in> set (stored f)" by (auto simp: standing_def)
  show "manual x \<and> standing hash x (snd (change_blocks hash env (\<lambda>bs. Inr (filter (\<lambda>x. sb_ID x \<noteq> i) bs)) f))"
    using m f i by (cases rule: delete_cases [OF f(1), of env "\<lambda>x. sb_ID x \<noteq> i"]) (auto simp: standing_def file_ok_def stored_def)
qed

end
