(* ===== verification/Sender_Claims.thy ===== *)
theory Sender_Claims
  imports Sender_Properties
begin

text \<open>The properties of sender blocks, manual and automatic.\<close>

section \<open>The list of blocks\<close>

lemma permitted_clear: "permitted (\<lambda>now b. automatic b \<longrightarrow> sb_Until b \<noteq> None) (\<lambda>now i. True) op"
  by (cases op) (simp_all add: automatic_def)

lemma run_clear: "clear_of hash own (rv_Blocks (block_run hash own ops new_receiving))"
  using permitted_clear by (intro clear_list.run_inv) (auto simp: clear_of_def file_ok_def stored_def new_receiving_def)

lemma run_file: "file_ok hash (rv_Blocks (block_run hash own ops new_receiving))"
  using run_clear by (auto simp: clear_of_def)


text \<open>
  C13: An administrator's block stands. As long as it has not expired, it stays in the list, unchanged, through every run of
  verdicts, of additions of other blocks and of removals of other blocks: no automatic block replaces or evicts it.
\<close>

theorem manual_blocks_stand:
  assumes "s = block_run hash own ops new_receiving" and "x \<in> set (stored (rv_Blocks s))" and "manual x"
    and "\<forall>op \<in> set ops'. permitted (may_put hash x) (\<lambda>now i. active now x \<and> i \<noteq> sb_ID x) op"
  shows "x \<in> set (stored (rv_Blocks (block_run hash own ops' s)))"
proof -
  have "standing hash x (rv_Blocks s)" using assms(2) run_file by (simp add: standing_def assms(1))
  thus ?thesis using standing_list.run_inv [of x hash s ops' own] assms(3,4) by (simp add: standing_def)
qed

text \<open>
  C19: A block refuses its sender. After \<open>Put\<close> has answered, every sender the block names, by its address or by exactly its
  domain, in whatever case, is refused until the block expires.
\<close>

theorem put_blocks_sender:
  assumes "file_ok hash f" and "Put hash env b own f = (Inr b', f')" and "automatic b \<longrightarrow> sb_Until b \<noteq> None"
    and "ValidSender sender" and "cut_at sender = Some (local, domain)"
    and "sb_Kind b' = ''address'' \<and> sb_Value b' = to_lower sender \<or> sb_Kind b' = ''domain'' \<and> sb_Value b' = to_lower domain"
    and "active now b'"
  shows "Blocked hash True sender now f' = Inr True"
proof -
  obtain cs where f': "f' = Blocks cs" "list_ok hash cs" "b' \<in> set cs" using Put_spec [OF assms(2,1,3)] by blast
  hence list: "List_blocks hash True now f' = Inr (sort_key (\<lambda>b. sb_Kind b @ '':'' @ sb_Value b) (filter (active now) cs))"
    by (simp add: List_blocks_ok file_ok_def stored_def)
  have s: "sender = local @ CHR ''@'' # domain" using assms(5) by (simp add: cut_at_Some)
  hence low: "LowerASCII sender = to_lower sender" using assms(4) valid_sender_cut [of sender] by blast
  have "drop (length local + 1) (to_lower sender) = to_lower domain" by (simp add: s to_lower_def)
  hence "matches (LowerASCII sender) (drop (length local + 1) (LowerASCII sender)) b'" using assms(6) low by (auto simp: matches_def)
  thus ?thesis using assms(5,7) f'(3) list by (auto simp: Blocked_def list_ex_iff)
qed

text \<open>
  C18: The deployment's own domains and bounces pass: whatever has been blocked, by hand or automatically, the null sender
  and every valid sender on one of the own domains, those every block was checked against, are not blocked.
\<close>

theorem own_domains_pass:
  assumes "ValidSender sender" and "sender = [] \<or> domain_part (LowerASCII sender) \<in> set own"
  shows "Blocked hash True sender now (rv_Blocks (block_run hash own ops new_receiving)) = Inr False"
proof (cases "sender = []")
  case True
  thus ?thesis by (simp add: Blocked_def cut_at_def)
next
  case False
  let ?f = "rv_Blocks (block_run hash own ops new_receiving)"
  obtain l d where c: "cut_at sender = Some (l, d)" and low: "LowerASCII sender = to_lower sender" and cl: "cut_at (LowerASCII sender) = Some (to_lower l, to_lower d)"
    using valid_sender_cut [OF assms(1) False] .
  hence own: "to_lower d \<in> set own" using assms(2) False by (simp add: domain_part_def)
  have "drop (length l + 1) (to_lower sender) = to_lower d" using c by (auto simp: cut_at_Some to_lower_def)
  hence "drop (length l + 1) (LowerASCII sender) = to_lower d" by (simp add: low)
  moreover have "CHR ''@'' \<notin> set (to_lower d)" using cl by (simp add: cut_at_Some)
  ultimately have "\<not> matches (LowerASCII sender) (drop (length l + 1) (LowerASCII sender)) b" if "b \<in> set (stored ?f)" for b
    using run_clear [of hash own ops] that own cl by (auto simp: clear_of_def matches_def domain_part_def cut_at_None [THEN iffD2])
  thus ?thesis using c run_file [of hash own ops] by (auto simp: Blocked_def List_blocks_ok list_ex_iff)
qed

text \<open>Why \<open>put_edit\<close> refuses a manual block.\<close>

lemma manual_put_refused:
  assumes "file_ok hash f" and "List_blocks hash readable now f = Inr bs" and "\<not> automatic b" and "put_edit b bs = Inl e"
  shows "e = ErrBlockFull \<and> \<not> fits (filter (\<lambda>x. manual x \<and> active now x \<and> sb_ID x \<noteq> sb_ID b) (stored f) @ [b])"
proof -
  note bs = List_blocks_Inr [OF assms(1,2)]
  let ?bs = "filter (\<lambda>x. sb_ID x \<noteq> sb_ID b) bs @ [b]"
  have m: "\<forall>x \<in> set ?bs. automatic x \<longrightarrow> sb_Until x \<noteq> None" using bs(1) assms(3) by (auto simp: list_ok_def)
  have ms: "\<forall>x \<in> set bs. (\<not> automatic x) = manual x" using bs(1) valid_source by (auto simp: list_ok_def)
  have room: "make_room ?bs = Inl e" using assms(3,4) by (auto simp: put_edit_def Let_def split: if_splits)
  have "filter (\<lambda>x. \<not> automatic x) ?bs = filter (\<lambda>x. manual x \<and> sb_ID x \<noteq> sb_ID b) bs @ [b]"
    using ms assms(3) by (auto intro!: filter_cong)
  hence full: "e = ErrBlockFull" "\<not> fits (filter (\<lambda>x. manual x \<and> sb_ID x \<noteq> sb_ID b) bs @ [b])" using make_room_error [OF room m] by auto
  have "mset bs = mset (filter (active now) (stored f))"
    using assms(1,2) by (cases f) (auto simp: List_blocks_def load_blocks_def stored_def split: if_splits)
  hence "mset (filter (\<lambda>x. manual x \<and> sb_ID x \<noteq> sb_ID b) bs) = mset (filter (\<lambda>x. manual x \<and> active now x \<and> sb_ID x \<noteq> sb_ID b) (stored f))"
    unfolding mset_filter by (simp add: filter_filter_mset ac_simps)
  thus ?thesis using full by (subst fits_perm) auto
qed


section \<open>Counting verdicts\<close>

text \<open>Every outcome of a change of the evidence comes from one edit of a loaded or a new document.\<close>

definition readable_doc :: "evidence_env \<Rightarrow> receiving \<Rightarrow> evidence \<Rightarrow> bool" where
  "readable_doc env s doc \<longleftrightarrow>
     doc = new_evidence \<or> doc = new_evidence\<lparr>ev_ResetAt := ee_now env\<rparr> \<or> rv_Evidence s = Evidence doc"

lemma change_evidence_cases:
  assumes "change_evidence env edit none s = ((err, r), s')"
  obtains (idle) "r = none" "s' = s"
  | (ran) doc doc1 where "readable_doc env s doc" "edit (sweep (ee_now env) doc) (rv_Blocks s) = (doc1, rv_Blocks s', r)"
      "rv_Evidence s' \<in> {rv_Evidence s, NoEvidence, Evidence (trim_all (ee_order env) doc1)}"
proof -
  let ?run = "\<lambda>doc f. case edit (sweep (ee_now env) doc) (rv_Blocks s) of (doc1, blocks, r) \<Rightarrow>
             let doc2 = trim_all (ee_order env) doc1 in
             if ee_size env doc2 > MaxEvidenceBytes then ((Some ErrMalformed, r), \<lparr>rv_Blocks = blocks, rv_Evidence = f\<rparr>)
             else if \<not> ee_write env then ((Some BlockIoError, r), \<lparr>rv_Blocks = blocks, rv_Evidence = f\<rparr>)
             else ((None, r), \<lparr>rv_Blocks = blocks, rv_Evidence = Evidence doc2\<rparr>)"
  have ran': thesis if "?run doc f = ((err, r), s')" "readable_doc env s doc" "f \<in> {rv_Evidence s, NoEvidence}" for doc f
    using that by (cases "edit (sweep (ee_now env) doc) (rv_Blocks s)") (auto simp: Let_def split: if_splits intro: ran)
  show thesis
  proof (cases "load_evidence (ee_read env) (ee_size env) (rv_Evidence s)")
    case ReadFails
    thus thesis using assms idle by (auto simp: change_evidence_def Let_def split: if_splits)
  next
    case ReadDamaged
    hence "s' = s \<and> r = none \<or> ?run (new_evidence\<lparr>ev_ResetAt := ee_now env\<rparr>) NoEvidence = ((err, r), s')"
      using assms unfolding change_evidence_def Let_def by (auto split: if_splits)
    thus thesis using idle ran' [where doc = "new_evidence\<lparr>ev_ResetAt := ee_now env\<rparr>" and f = NoEvidence] by (auto simp: readable_doc_def)
  next
    case (ReadDoc doc)
    hence "s' = s \<and> r = none \<or> ?run doc (rv_Evidence s) = ((err, r), s')"
      using assms unfolding change_evidence_def Let_def by (auto split: if_splits)
    moreover have "readable_doc env s doc"
      using ReadDoc by (auto simp: load_evidence_def readable_doc_def split: evidence_file.splits if_splits)
    ultimately show thesis using idle ran' [where doc = doc and f = "rv_Evidence s"] by auto
  qed
qed

lemma set_update: "set (AList.update k v xs) \<subseteq> insert (k, v) (set xs)"
  by (induction xs) auto

lemma set_delete: "set (AList.delete k xs) \<subseteq> set xs"
  by (auto simp: AList.delete_eq)

lemma set_trim: "set (trim ord limit keep m) \<subseteq> set m"
proof -
  have "set (trim_loop n ord limit keep m) \<subseteq> set m" for n
    by (induction n arbitrary: m) (auto dest: set_delete [THEN subsetD] subsetD)
  thus ?thesis by (simp add: trim_def)
qed

lemma set_drop_if: "set (drop_if P m) \<subseteq> set m"
  by (auto simp: drop_if_def)

text \<open>The times of the verdicts against the address with an identifier.\<close>

fun reject_time :: "(string \<Rightarrow> string) \<Rightarrow> string \<Rightarrow> block_op \<Rightarrow> int list" where
  "reject_time hash i (RejectOp env penv1 penv2 auth) =
     (case Identity auth of Some addr \<Rightarrow> if BlockID hash ''address'' addr = i then [ee_now env] else [] | None \<Rightarrow> [])"
| "reject_time hash i op = []"

definition reject_times :: "(string \<Rightarrow> string) \<Rightarrow> string \<Rightarrow> block_op list \<Rightarrow> int list" where
  "reject_times hash i ops = concat (map (reject_time hash i) ops)"

lemma reject_times_simps [simp]:
  "reject_times hash i [] = []" "reject_times hash i (ops @ [op]) = reject_times hash i ops @ reject_time hash i op"
  by (simp_all add: reject_times_def)

text \<open>Every hit on record is a verdict that was given.\<close>

definition counted :: "(string \<Rightarrow> int list) \<Rightarrow> evidence \<Rightarrow> bool" where
  "counted T doc \<longleftrightarrow> (\<forall>(i, r) \<in> set (ev_Addresses doc). mset (er_Hits r) \<subseteq># mset (T i))"

definition counted_file :: "(string \<Rightarrow> int list) \<Rightarrow> evidence_file \<Rightarrow> bool" where
  "counted_file T f = (case f of Evidence doc \<Rightarrow> counted T doc | _ \<Rightarrow> True)"

lemma counted_sub: "counted T doc \<Longrightarrow> set (ev_Addresses doc') \<subseteq> set (ev_Addresses doc) \<Longrightarrow> counted T doc'"
  by (auto simp: counted_def)

lemma counted_sweep: "counted T doc \<Longrightarrow> counted T (sweep now doc)"
  by (erule counted_sub) (simp add: sweep_def set_drop_if)

lemma counted_trim: "counted T doc \<Longrightarrow> counted T (trim_all ord doc)"
  by (erule counted_sub) (simp add: trim_all_def set_trim)

lemma counted_more: "counted T doc \<Longrightarrow> (\<And>i. mset (T i) \<subseteq># mset (T' i)) \<Longrightarrow> counted T' doc"
  unfolding counted_def by (force intro: subset_mset.order_trans)

lemma counted_readable: "counted_file T (rv_Evidence s) \<Longrightarrow> readable_doc env s doc \<Longrightarrow> counted T (sweep now doc)"
  by (auto simp: readable_doc_def counted_file_def new_evidence_def intro!: counted_sweep) (simp_all add: counted_def)

lemma counted_lookup: "counted T doc \<Longrightarrow> mset (er_Hits (lookup_record (ev_Addresses doc) i)) \<subseteq># mset (T i)"
  by (auto simp: counted_def lookup_record_def zero_record_def split: option.split dest!: map_of_SomeD)

lemma escalate_hits: "escalate put now r kind val f = (r', f', made, err) \<Longrightarrow> er_Hits r' = []"
  by (auto simp: escalate_def Let_def split: prod.splits sum.splits)

lemma address_hits:
  "address_verdict put now addr did r f = (r', f', made, err) \<Longrightarrow> mset (er_Hits r') \<subseteq># add_mset now (mset (er_Hits r))"
  by (auto simp: address_verdict_def Let_def dest: escalate_hits split: if_splits)

lemma reject_counted:
  assumes "counted T doc" "reject_edit put1 put2 now addr aid domain did doc f = (doc', f', r)"
    and "\<And>i. mset (T i) \<subseteq># mset (T' i)" "add_mset now (mset (T aid)) \<subseteq># mset (T' aid)"
  shows "counted T' doc'"
proof -
  obtain r1 f1 made1 err1 where a: "address_verdict put1 now addr did (lookup_record (ev_Addresses doc) aid) f = (r1, f1, made1, err1)"
    by (metis prod_cases4)
  have "mset (er_Hits r1) \<subseteq># mset (T' aid)"
    using address_hits [OF a] counted_lookup [OF assms(1), of aid] assms(4) by (meson mset_subset_eq_add_mset_cancel subset_mset.order_trans)
  hence c: "counted T' (doc\<lparr>ev_Addresses := AList.update aid r1 (ev_Addresses doc)\<rparr>)"
    using counted_more [OF assms(1,3)] set_update [of aid r1 "ev_Addresses doc"] unfolding counted_def by auto
  have "ev_Addresses doc' \<in> {ev_Addresses doc, AList.update aid r1 (ev_Addresses doc)}"
    using assms(2) a by (auto simp: reject_edit_def domain_verdict_def Let_def split: if_splits prod.splits)
  thus ?thesis using c counted_more [OF assms(1,3)] by (auto simp: counted_def)
qed

lemma counted_step:
  assumes "counted_file T (rv_Evidence s)"
  shows "counted_file (\<lambda>i. T i @ reject_time hash i op) (rv_Evidence (block_step hash own op s))"
proof -
  have more: "counted_file (\<lambda>i. T i @ reject_time hash i op) f" if "counted_file T f" for f
    using that by (auto simp: counted_file_def intro: counted_more split: evidence_file.splits)
  have keep: "counted_file T (rv_Evidence s')"
    if "change_evidence env edit none s = ((err, r), s')" "\<And>doc f. ev_Addresses (fst (edit doc f)) = ev_Addresses doc" for env edit none err r s'
    using that(1)
  proof (cases rule: change_evidence_cases)
    case (ran doc doc1)
    have "ev_Addresses doc1 = ev_Addresses (sweep (ee_now env) doc)" using that(2) [of "sweep (ee_now env) doc" "rv_Blocks s"] ran(2) by simp
    hence "counted T doc1" using counted_readable [OF assms ran(1), of "ee_now env"] by (simp add: counted_def)
    thus ?thesis using ran(3) assms by (auto simp: counted_file_def counted_trim)
  qed (use assms in simp)
  show ?thesis
  proof (cases op)
    case (RejectOp env penv1 penv2 auth)
    show ?thesis
    proof (cases "Identity auth")
      case (Some addr)
      let ?T = "\<lambda>i. T i @ reject_time hash i op"
      let ?edit = "reject_edit (\<lambda>b. Put hash (penv1\<lparr>be_now := ee_now env\<rparr>) b own) (\<lambda>b. Put hash (penv2\<lparr>be_now := ee_now env\<rparr>) b own) (ee_now env)
        addr (BlockID hash ''address'' addr) (domain_part addr) (BlockID hash ''domain'' (domain_part addr))"
      have "counted_file ?T (rv_Evidence s')" if "change_evidence env ?edit ([], None) s = ((err, r), s')" for err r s'
        using that
      proof (cases rule: change_evidence_cases)
        case (ran doc doc1)
        have "counted ?T doc1"
          by (rule reject_counted [OF counted_readable [OF assms ran(1)] ran(2)]) (simp_all add: RejectOp Some)
        thus ?thesis using ran(3) more [OF assms] by (auto simp: counted_file_def counted_trim)
      qed (use more [OF assms] in simp)
      thus ?thesis using RejectOp Some more [OF assms] by (auto simp: Reject_def Let_def split: prod.split)
    qed (use RejectOp more [OF assms] in \<open>simp add: Reject_def\<close>)
  next
    case (AcceptedOp env auth)
    have "ev_Addresses (accepted_edit now i parent doc) = ev_Addresses doc" for now i parent doc by (simp add: accepted_edit_def Let_def)
    thus ?thesis using AcceptedOp more keep [of env "\<lambda>doc f. (accepted_edit (ee_now env) i parent doc, f, ())" "()" for i parent] assms
      by (auto simp: Accepted_def Let_def split: option.split prod.split)
  next
    case (RemoveOp env eenv i)
    have "counted_file T (rv_Evidence s')" if "unblocked e i s = (err, s')" for e err s'
      using that keep [of e "\<lambda>doc f. (doc\<lparr>ev_Unblocked := AList.update i (ee_now e + UnblockWindow) (ev_Unblocked doc)\<rparr>, f, ())" "()"]
      by (auto simp: unblocked_def split: prod.splits)
    thus ?thesis using RemoveOp more assms by (auto simp: Remove_def Let_def split: prod.split sum.split if_splits)
  qed (use more [OF assms] in simp)
qed

lemma counted_run: "counted_file (\<lambda>i. reject_times hash i ops) (rv_Evidence (block_run hash own ops new_receiving))"
proof (induction ops rule: rev_induct)
  case Nil
  show ?case by (simp add: block_run_def new_receiving_def counted_file_def)
next
  case (snoc op ops)
  thus ?case using counted_step [OF snoc, of hash op own] by (simp add: block_run_def del: block_step.simps)
qed

section \<open>Automatic blocks are earned\<close>

lemma Put_made:
  assumes "Put hash env b own f = (Inr b', f')"
  shows "sb_Kind b' = sb_Kind b \<and> sb_Until b' = sb_Until b \<and> sb_Level b' = sb_Level b \<and> sb_Value b' = LowerASCII (sb_Value b)"
  using assms by (auto simp: Put_def Let_def NormalizeBlock_def split: option.splits if_splits prod.splits sum.splits)

lemma escalate_made:
  assumes "escalate (\<lambda>b. Put hash env b own) now r kind val f = (r', f', made, err)" "b \<in> set made"
  shows "sb_Kind b = kind \<and> sb_Value b = LowerASCII val \<and> (\<exists>c \<in> set autoCooldown. sb_Until b = Some (now + c)) \<and> 1 \<le> sb_Level b \<and> sb_Level b \<le> 3"
proof -
  let ?l = "min (er_Level r + 1) (length autoCooldown)"
  define b0 where "b0 = \<lparr>sb_ID = [], sb_Kind = kind, sb_Value = val, sb_Until = Some (now + autoCooldown ! (?l - 1)), sb_Source = ''automatic'',
    sb_Level = int ?l, sb_CreatedAt = 0, sb_Actor = ''automatic'', sb_Reason = ''abuse''\<rparr>"
  have p: "fst (Put hash env b0 own f) = Inr b"
    using assms unfolding escalate_def Let_def b0_def [symmetric] by (auto split: prod.splits sum.splits)
  have b0: "sb_Kind b0 = kind" "sb_Value b0 = val" "sb_Until b0 = Some (now + autoCooldown ! (?l - 1))" "sb_Level b0 = int ?l" by (simp_all add: b0_def)
  have "autoCooldown ! (?l - 1) \<in> set autoCooldown" by (rule nth_mem) (simp add: autoCooldown_def)
  thus ?thesis using Put_made [of hash env b0 own f b "snd (Put hash env b0 own f)"] p b0 by (auto simp: prod_eq_iff autoCooldown_def)
qed

lemma reject_made:
  assumes "reject_edit (\<lambda>b. Put hash env1 b own) (\<lambda>b. Put hash env2 b own) now addr aid domain did doc f = (doc', f', made, err)" "b \<in> set made"
  obtains (address) r where "r = lookup_record (ev_Addresses doc) aid" "autoHits \<le> length (filter (\<lambda>t. \<not> t \<le> now - autoWindow) (er_Hits r) @ [now])"
      "sb_Kind b = ''address''" "sb_Value b = LowerASCII addr" "\<exists>c \<in> set autoCooldown. sb_Until b = Some (now + c)" "1 \<le> sb_Level b" "sb_Level b \<le> 3"
    "lookup_time (ev_Unblocked doc) aid \<le> now"
  | (domain) r where "domain_due now did (doc\<lparr>ev_Addresses := AList.update aid r (ev_Addresses doc)\<rparr>)" "sb_Kind b = ''domain''" "sb_Value b = LowerASCII domain"
proof -
  let ?r = "lookup_record (ev_Addresses doc) aid"
  obtain r f1 made1 err1 where a: "address_verdict (\<lambda>b. Put hash env1 b own) now addr did ?r f = (r, f1, made1, err1)" by (metis prod_cases4)
  let ?doc = "doc\<lparr>ev_Addresses := AList.update aid r (ev_Addresses doc)\<rparr>"
  obtain doc2 f2 made2 err2 where d: "domain_verdict (\<lambda>b. Put hash env2 b own) now domain did ?doc f1 = (doc2, f2, made2, err2)" by (metis prod_cases4)
  have un: "lookup_time (ev_Unblocked doc) aid \<le> now" using assms by (auto simp: reject_edit_def split: if_splits)
  have "b \<in> set made1 \<or> b \<in> set made2" using assms by (auto simp: reject_edit_def a d Let_def split: if_splits)
  thus thesis
  proof
    assume b: "b \<in> set made1"
    let ?r1 = "?r\<lparr>er_Domain := did, er_Hits := filter (\<lambda>t. \<not> t \<le> now - autoWindow) (er_Hits ?r) @ [now], er_Last := now\<rparr>"
    have hits: "autoHits \<le> length (filter (\<lambda>t. \<not> t \<le> now - autoWindow) (er_Hits ?r) @ [now])"
      and e: "escalate (\<lambda>b. Put hash env1 b own) now ?r1 ''address'' addr f = (r, f1, made1, err1)"
      using a b unfolding address_verdict_def Let_def by (auto split: if_splits)
    show thesis using address [OF refl hits] escalate_made [OF e b] un by blast
  next
    assume b: "b \<in> set made2"
    have due: "domain_due now did ?doc" using d b by (auto simp: domain_verdict_def split: if_splits)
    obtain q where e: "escalate (\<lambda>b. Put hash env2 b own) now (lookup_record (ev_Domains ?doc) did) ''domain'' domain f1 = (q, f2, made2, err2)"
      using d due by (auto simp: domain_verdict_def split: prod.splits)
    show thesis using domain [OF due] escalate_made [OF e b] by blast
  qed
qed

lemma Reject_cases:
  assumes "Reject hash env penv1 penv2 auth own s = ((err, made), s')" "b \<in> set made"
  obtains addr doc doc1 e where "Identity auth = Some addr" "domain_part addr \<notin> set own" "readable_doc env s doc"
    "reject_edit (\<lambda>b. Put hash (penv1\<lparr>be_now := ee_now env\<rparr>) b own) (\<lambda>b. Put hash (penv2\<lparr>be_now := ee_now env\<rparr>) b own) (ee_now env)
        addr (BlockID hash ''address'' addr) (domain_part addr) (BlockID hash ''domain'' (domain_part addr)) (sweep (ee_now env) doc) (rv_Blocks s) =
      (doc1, rv_Blocks s', made, e)"
proof -
  obtain addr err1 e where a: "Identity auth = Some addr" "domain_part addr \<notin> set own"
    and c: "change_evidence env (reject_edit (\<lambda>b. Put hash (penv1\<lparr>be_now := ee_now env\<rparr>) b own) (\<lambda>b. Put hash (penv2\<lparr>be_now := ee_now env\<rparr>) b own) (ee_now env)
        addr (BlockID hash ''address'' addr) (domain_part addr) (BlockID hash ''domain'' (domain_part addr))) ([], None) s = ((err1, made, e), s')"
    using assms by (auto simp: Reject_def Let_def split: option.splits if_splits prod.splits)
  from c show thesis
  proof (cases rule: change_evidence_cases)
    case (ran doc doc1)
    thus ?thesis using that a by blast
  qed (use assms(2) in auto)
qed



section \<open>Examples\<close>

definition demo_hash :: "string \<Rightarrow> string" where
  "demo_hash s = map (\<lambda>c. if hex_digit c then c else CHR ''0'') (take 16 (s @ replicate 16 (CHR ''0'')))"

definition demo_benv :: "int \<Rightarrow> block_env" where
  "demo_benv t = \<lparr>be_now = t, be_dir = True, be_lock = True, be_read = True, be_write = True\<rparr>"

definition demo_eenv :: "int \<Rightarrow> evidence_env" where
  "demo_eenv t = \<lparr>ee_now = t, ee_dir = True, ee_lock = True, ee_read = True, ee_rename = True, ee_write = True, ee_order = id, ee_size = (\<lambda>_. 0)\<rparr>"

definition demo_auth :: Authentication where
  "demo_auth = \<lparr>au_Sender = ''a@B'', au_From = ''a@b'', au_SPF = True, au_DKIM = [''b'']\<rparr>"

definition demo_block :: sender_block where
  "demo_block = \<lparr>sb_ID = [], sb_Kind = ''domain'', sb_Value = ''B'', sb_Until = None, sb_Source = ''manual'', sb_Level = 0, sb_CreatedAt = 0,
     sb_Actor = ''root'', sb_Reason = ''spam''\<rparr>"

definition demo_put :: sender_block where
  "demo_put = normalized demo_hash 7 demo_block ''b''"

lemma demo_put_facts:
  "NormalizeBlock ''domain'' ''B'' = Some ''b''" "block_valid demo_hash demo_put" "active 7 demo_put" "domain_part ''b'' = ''b''"
  "BlockWireBytes (Wire demo_put) = 28" "automatic demo_put = False" "sb_Kind demo_put = ''domain''" "sb_Value demo_put = ''b''"
  by code_simp+

lemma demo_Put: "Put demo_hash (demo_benv 7) demo_block [''own''] NoBlocks = (Inr demo_put, Blocks [demo_put])"
proof -
  have n: "normalized demo_hash (be_now (demo_benv 7)) demo_block ''b'' = demo_put" by (simp add: demo_put_def demo_benv_def)
  have "change_blocks demo_hash (demo_benv 7) (put_edit demo_put) NoBlocks = (Inr (), Blocks [demo_put])"
    using demo_put_facts
    by (simp add: change_blocks_def demo_benv_def List_blocks_def load_blocks_def put_edit_def Let_def fits_def MaxBlocks_def maxBlockWire_def)
  moreover have "NormalizeBlock (sb_Kind demo_block) (sb_Value demo_block) = Some ''b''" using demo_put_facts by (simp add: demo_block_def)
  ultimately show ?thesis using demo_put_facts n unfolding Put_def normalized_def Let_def by (simp add: demo_benv_def)
qed

theorem put_blocks_sender_witness: "Blocked demo_hash True ''Spam@B'' 9 (Blocks [demo_put]) = Inr True"
proof -
  have f: "file_ok demo_hash NoBlocks" by (simp add: file_ok_def)
  have s: "ValidSender ''Spam@B''" "cut_at ''Spam@B'' = Some (''Spam'', ''B'')" "active 9 demo_put" "to_lower ''B'' = ''b''" by code_simp+
  show ?thesis
    by (rule put_blocks_sender [OF f demo_Put _ s(1,2)]) (use demo_put_facts s in \<open>simp_all add: demo_block_def automatic_def\<close>)
qed

lemma demo_run: "rv_Blocks (block_run demo_hash [''own''] [PutOp (demo_benv 7) demo_block] new_receiving) = Blocks [demo_put]"
proof -
  have "demo_block\<lparr>sb_Source := ''manual''\<rparr> = demo_block" by (simp add: demo_block_def)
  thus ?thesis using demo_Put by (simp add: block_run_def new_receiving_def)
qed

theorem manual_blocks_stand_witness:
  "demo_put \<in> set (stored (rv_Blocks (block_run demo_hash [''own''] [RejectOp (demo_eenv 8) (demo_benv 8) (demo_benv 8) demo_auth, RemoveOp (demo_benv 9) (demo_eenv 9) ''x'']
     (block_run demo_hash [''own''] [PutOp (demo_benv 7) demo_block] new_receiving))))"
proof -
  have "active t demo_put" for t by (simp add: demo_put_def demo_block_def normalized_def active_def)
  moreover have "''x'' \<noteq> sb_ID demo_put" by code_simp
  moreover have "manual demo_put" by code_simp
  ultimately show ?thesis
    by (intro manual_blocks_stand [OF refl]) (auto simp: demo_run stored_def may_put_def)
qed

theorem own_domains_pass_witness:
  "Blocked demo_hash True ''me@OWN'' 9 (rv_Blocks (block_run demo_hash [''own''] [PutOp (demo_benv 7) demo_block] new_receiving)) = Inr False"
proof -
  have "ValidSender ''me@OWN''" "domain_part (LowerASCII ''me@OWN'') \<in> set [''own'']" by code_simp+
  thus ?thesis by (intro own_domains_pass) auto
qed


definition demo_aid :: string where "demo_aid = BlockID demo_hash ''address'' ''a@b''"
definition demo_did :: string where "demo_did = BlockID demo_hash ''domain'' ''b''"

lemma demo_ids: "Identity demo_auth = Some ''a@b''" "domain_part ''a@b'' = ''b''" "validID demo_aid" "validID demo_did"
  by code_simp+

text \<open>The record of an address with some hits, beside other records.\<close>

definition demo_doc :: "int list \<Rightarrow> evidence_record table \<Rightarrow> int \<Rightarrow> evidence" where
  "demo_doc hits others since =
     new_evidence\<lparr>ev_Addresses := (if hits = [] then others
        else (demo_aid, \<lparr>er_Domain = demo_did, er_Hits = hits, er_Level = 0, er_Last = last hits, er_Blocked = 0\<rparr>) # others), ev_GoodSince := since\<rparr>"

lemma demo_eenv_sel [simp]:
  "ee_now (demo_eenv t) = t" "ee_dir (demo_eenv t)" "ee_lock (demo_eenv t)" "ee_read (demo_eenv t)" "ee_write (demo_eenv t)" "ee_order (demo_eenv t) = id"
  "ee_size (demo_eenv t) = (\<lambda>_. 0)" "be_now (demo_benv t) = t"
  by (simp_all add: demo_eenv_def demo_benv_def)

lemmas demo_eval = Reject_def demo_ids Let_def change_evidence_def load_evidence_def reject_edit_def address_verdict_def lookup_time_def lookup_record_def
  zero_record_def new_evidence_def sweep_def drop_if_def trim_all_def trim_def parseEvidence_def record_ok_def times_ok_def
  autoHits_def autoWindow_def cleanPeriod_def autoCooldown_def MaxEvidence_def MaxGoodDomains_def MaxEvidenceBytes_def
  demo_aid_def [symmetric] demo_did_def [symmetric]

lemma demo_first:
  "snd (Reject demo_hash (demo_eenv 1001) (demo_benv 1001) (demo_benv 1001) demo_auth [''own''] new_receiving) = \<lparr>rv_Blocks = NoBlocks, rv_Evidence = Evidence (demo_doc [1001] [] 0)\<rparr>"
  by (simp add: demo_eval demo_doc_def new_receiving_def)

lemma demo_more:
  "snd (Reject demo_hash (demo_eenv 1002) (demo_benv 1002) (demo_benv 1002) demo_auth [''own''] \<lparr>rv_Blocks = NoBlocks, rv_Evidence = Evidence (demo_doc [1001] [] 0)\<rparr>) =
     \<lparr>rv_Blocks = NoBlocks, rv_Evidence = Evidence (demo_doc [1001, 1002] [] 0)\<rparr>"
  "snd (Reject demo_hash (demo_eenv 1003) (demo_benv 1003) (demo_benv 1003) demo_auth [''own''] \<lparr>rv_Blocks = NoBlocks, rv_Evidence = Evidence (demo_doc [1001, 1002] [] 0)\<rparr>) =
     \<lparr>rv_Blocks = NoBlocks, rv_Evidence = Evidence (demo_doc [1001, 1002, 1003] [] 0)\<rparr>"
  "snd (Reject demo_hash (demo_eenv 1004) (demo_benv 1004) (demo_benv 1004) demo_auth [''own''] \<lparr>rv_Blocks = NoBlocks, rv_Evidence = Evidence (demo_doc [1001, 1002, 1003] [] 0)\<rparr>) =
     \<lparr>rv_Blocks = NoBlocks, rv_Evidence = Evidence (demo_doc [1001, 1002, 1003, 1004] [] 0)\<rparr>"
  by (simp_all add: demo_eval demo_doc_def)

text \<open>The fifth verdict blocks the address.\<close>

definition demo_auto :: "int \<Rightarrow> string \<Rightarrow> string \<Rightarrow> sender_block" where
  "demo_auto now kind v = \<lparr>sb_ID = BlockID demo_hash kind v, sb_Kind = kind, sb_Value = v, sb_Until = Some (now + 60 * 60 * 1000), sb_Source = ''automatic'',
     sb_Level = 1, sb_CreatedAt = now, sb_Actor = ''automatic'', sb_Reason = ''abuse''\<rparr>"

lemma demo_auto_facts:
  "NormalizeBlock ''address'' ''a@b'' = Some ''a@b''" "NormalizeBlock ''domain'' ''b'' = Some ''b''" "domain_part ''b'' = ''b''"
  "ValidIdentifier ''automatic''" "''abuse'' \<in> set blockReasons"
  by code_simp+

lemma demo_text: "json_bytes (map byte ''a@b'') = 3" "json_bytes (map byte ''b'') = 1"
  by code_simp+

lemma demo_auto_wire:
  "BlockWireBytes (Wire (demo_auto 1005 ''address'' ''a@b'')) \<le> 100"
  "BlockWireBytes (Wire (demo_auto 2592001005 ''address'' ''a@b'')) \<le> 100"
  "BlockWireBytes (Wire (demo_auto 2592001005 ''domain'' ''b'')) \<le> 100"
  by (simp_all add: demo_auto_def Wire_def BlockWireBytes_def demo_text until_len_def decimal_len.simps)

lemma demo_auto_valid:
  assumes "1 \<le> now" "now \<le> 10000000000" "NormalizeBlock kind v = Some v"
  shows "block_valid demo_hash (demo_auto now kind v)" "active now (demo_auto now kind v)"
  using assms demo_auto_facts by (simp_all add: block_valid_def active_def demo_auto_def)

lemma demo_escalate:
  assumes "er_Level r = 0" "1 \<le> now" "now \<le> 10000000000" "NormalizeBlock kind v = Some v" "domain_part v = ''b''"
    "List_blocks demo_hash True now f = Inr bs" "put_edit (demo_auto now kind v) bs = Inr cs"
  shows "escalate (\<lambda>b. Put demo_hash ((demo_benv t)\<lparr>be_now := now\<rparr>) b [''own'']) now r kind v f =
    (r\<lparr>er_Hits := [], er_Last := now, er_Level := 1, er_Blocked := now\<rparr>, Blocks cs, [demo_auto now kind v], None)"
proof -
  have v: "block_valid demo_hash (demo_auto now kind v)" "active now (demo_auto now kind v)" using demo_auto_valid assms by blast+
  have "change_blocks demo_hash ((demo_benv t)\<lparr>be_now := now\<rparr>) (put_edit (demo_auto now kind v)) f = (Inr (), Blocks cs)"
    using assms by (simp add: change_blocks_def demo_benv_def)
  with v assms show ?thesis
    by (simp add: escalate_def Put_def Let_def autoCooldown_def demo_auto_def demo_benv_def)
qed

lemma demo_put_edit:
  assumes "BlockWireBytes (Wire (demo_auto now ''address'' ''a@b'')) \<le> 100"
  shows "put_edit (demo_auto now ''address'' ''a@b'') [] = Inr [demo_auto now ''address'' ''a@b'']"
  using assms by (simp add: put_edit_def Let_def fits_def wire_sum_def MaxBlocks_def maxBlockWire_def)

lemma demo_fifth:
  "Reject demo_hash (demo_eenv 1005) (demo_benv 1005) (demo_benv 1005) demo_auth [''own''] \<lparr>rv_Blocks = NoBlocks, rv_Evidence = Evidence (demo_doc [1001, 1002, 1003, 1004] [] 0)\<rparr> =
     ((None, [demo_auto 1005 ''address'' ''a@b'']), \<lparr>rv_Blocks = Blocks [demo_auto 1005 ''address'' ''a@b''],
        rv_Evidence = Evidence (new_evidence\<lparr>ev_Addresses := [(demo_aid, \<lparr>er_Domain = demo_did, er_Hits = [], er_Level = 1, er_Last = 1005, er_Blocked = 1005\<rparr>)]\<rparr>)\<rparr>)"
proof -
  have "List_blocks demo_hash True 1005 NoBlocks = Inr []" by (simp add: List_blocks_def load_blocks_def)
  note e = demo_escalate [OF _ _ _ demo_auto_facts(1) demo_ids(2) this demo_put_edit [OF demo_auto_wire(1)]]
  show ?thesis by (simp add: demo_eval demo_doc_def e domain_verdict_def domain_due_def domainHits_def)
qed

definition demo_ops :: "block_op list" where
  "demo_ops = map (\<lambda>t. RejectOp (demo_eenv t) (demo_benv t) (demo_benv t) demo_auth) [1001, 1002, 1003, 1004]"

lemma demo_ops_run: "block_run demo_hash [''own''] demo_ops new_receiving = \<lparr>rv_Blocks = NoBlocks, rv_Evidence = Evidence (demo_doc [1001, 1002, 1003, 1004] [] 0)\<rparr>"
  by (simp add: block_run_def demo_ops_def demo_first demo_more)


text \<open>The same with four more addresses of the domain blocked a moment before, and a deployment that has known good mail for thirty days.\<close>

definition demo_others :: "evidence_record table" where
  "demo_others = map (\<lambda>c. (replicate 15 (CHR ''f'') @ [c], \<lparr>er_Domain = demo_did, er_Hits = [], er_Level = 1, er_Last = 2592001000, er_Blocked = 2592001000\<rparr>)) ''1234''"

definition demo_full :: receiving where
  "demo_full = \<lparr>rv_Blocks = NoBlocks, rv_Evidence = Evidence (demo_doc [2592001001, 2592001002, 2592001003, 2592001004] demo_others 1)\<rparr>"

lemma demo_others_ids: "list_all (\<lambda>c. demo_aid \<noteq> replicate 15 (CHR ''f'') @ [c] \<and> validID (replicate 15 (CHR ''f'') @ [c])) ''1234''"
  by code_simp

lemma demo_domain_edit:
  "List_blocks demo_hash True 2592001005 (Blocks [demo_auto 2592001005 ''address'' ''a@b'']) = Inr [demo_auto 2592001005 ''address'' ''a@b'']"
  "put_edit (demo_auto 2592001005 ''domain'' ''b'') [demo_auto 2592001005 ''address'' ''a@b''] =
     Inr [demo_auto 2592001005 ''address'' ''a@b'', demo_auto 2592001005 ''domain'' ''b'']"
proof -
  let ?a = "demo_auto 2592001005 ''address'' ''a@b''" and ?d = "demo_auto 2592001005 ''domain'' ''b''"
  have v: "block_valid demo_hash ?a" "active 2592001005 ?a" using demo_auto_facts by (auto intro!: demo_auto_valid)
  have "ParseBlocks demo_hash [?a]" using v demo_auto_wire(2) by (simp add: ParseBlocks_def MaxBlocks_def maxBlockWire_def Let_def)
  thus "List_blocks demo_hash True 2592001005 (Blocks [?a]) = Inr [?a]" using v by (simp add: List_blocks_def load_blocks_def)
  have "BlockID demo_hash ''address'' ''a@b'' \<noteq> BlockID demo_hash ''domain'' ''b''" by code_simp
  hence "sb_ID ?a \<noteq> sb_ID ?d" by (simp add: demo_auto_def)
  moreover have "automatic ?d" "automatic ?a" "\<not> covered ?d ?a" by (simp_all add: automatic_def covered_def demo_auto_def)
  ultimately show "put_edit ?d [?a] = Inr [?a, ?d]" using demo_auto_wire(2,3)
    by (simp add: put_edit_def Let_def fits_def wire_sum_def MaxBlocks_def maxBlockWire_def)
qed

lemma demo_domain:
  "fst (Reject demo_hash (demo_eenv 2592001005) (demo_benv 2592001005) (demo_benv 2592001005) demo_auth [''own''] demo_full) =
     (None, [demo_auto 2592001005 ''address'' ''a@b'', demo_auto 2592001005 ''domain'' ''b''])"
proof -
  have l: "List_blocks demo_hash True 2592001005 NoBlocks = Inr []" by (simp add: List_blocks_def load_blocks_def)
  note e = demo_escalate [OF _ _ _ demo_auto_facts(1) demo_ids(2) l demo_put_edit [OF demo_auto_wire(2)]]
    demo_escalate [OF _ _ _ demo_auto_facts(2,3) demo_domain_edit]
  show ?thesis using demo_others_ids
    by (simp add: demo_eval demo_doc_def demo_full_def demo_others_def e domain_verdict_def domain_due_def domainHits_def domainWindow_def domainWarmUp_def)
qed


end
