(* ===== verification/Spec2Isabelle.thy ===== *)
theory Spec2Isabelle
  imports Rule_Run Login_Verify Mfa_Challenge Single_Use Send_Ledger Outbox Group_Store Atomic_Write
    Contact_Properties Scheduled_Properties Mailbox_Properties Mailbox_Transfer Ingress_Claims Sender_Claims
begin

text \<open>
  KyPost Server: a verification development of the Go backend under \<open>src/backend/internal\<close>.

  The program is a self-hosted mail server with a web interface. The development models the parts of it
  that carry its own logic: the users' mail rules (a small Sieve dialect with an editor, a validator, an
  evaluator and a store), the address book with its deduplication and sync feed, the guards that stand
  before every sign-in, the second factor, the queue of outgoing mail with its quotas, scheduled mail, the
  native mailbox, the inbound gateway that feeds it, and the file and message primitives these rest on.

  \<^bold>\<open>Foundations.\<close> \<open>Go_Prelude\<close>: Go strings as character lists (case folding and trimming on ASCII; bytes
  above 127 are letters of no case), results as sums, sequences of calls (\<open>run_calls\<close>) and the contract of
  a cache (locale \<open>memo_table\<close>). \<open>Go_Table\<close>: Go maps that are counted or swept, as association lists with
  distinct keys; times as integers in nanoseconds; clock-driven objects (locale \<open>timed_system\<close>) and claims
  that relate a state to the calls that led to it (locale \<open>history_system\<close>). A method that runs under its
  object's mutex is one step; a run is any sequence of steps, which covers every interleaving.

  \<^bold>\<open>Mail rules\<close> (\<open>rules/\<close>, \<open>api/rules_handlers.go\<close>). \<open>Rule_Model\<close> has the data of \<open>model.go\<close>.
  \<open>Rule_Regex\<close> is \<open>regexcache.go\<close>: the \<open>regexp\<close> package is the parameter \<open>regexp_lib\<close>, and the cache is an
  interpretation of \<open>memo_table\<close>. \<open>Rule_Engine\<close> is \<open>engine.go\<close>: a context is the number of polls after which
  it ends; \<open>Evaluate\<close> is proved equal to Kleene's three-valued semantics of the match trees, and under a
  context that ends to compute a prefix of it. \<open>Rule_Apply\<close> is what surrounds an evaluation: the headers
  and bodies to fetch, and the actions, which stop at the first failure. \<open>Rule_Validate\<close> is
  \<open>validate.go\<close> with the shape bounds of \<open>sieve.go\<close>; \<open>Protocol_Safety\<close> the guards of
  \<open>adapters/imap/protocol_safety.go\<close>. \<open>Sieve_Print\<close>, \<open>Sieve_Lex\<close>, \<open>Sieve_Parse\<close> are the script printer,
  lexer and recursive-descent parser of \<open>sieve.go\<close>; the parser's loops take fuel, the number of tokens,
  which \<open>Sieve_Total\<close> proves to be enough (locale \<open>token_item\<close>); \<open>Sieve_Text\<close>, \<open>Sieve_Roundtrip\<close> and
  \<open>Sieve_Canonical\<close> prove that printing and parsing are inverse on canonical rules and that whatever the
  parser returns is one. \<open>Rule_Store\<close> is \<open>store.go\<close> over \<open>File_Store\<close>, \<open>Rule_Handlers\<close> the endpoints,
  whose reachable stores hold only valid rules, and \<open>Rule_Run\<close> the manual run, proved to do to a folder
  what the rules say of the whole messages.

  \<^bold>\<open>Sign-in.\<close> \<open>Keyed_Limiter\<close>: the token buckets of \<open>api/keyed_limiter.go\<close> (\<open>float64\<close> balances are
  rationals) and their instances, by a locale \<open>token_bucket\<close> over \<open>timed_system\<close>. \<open>Failure_Lockout\<close>:
  \<open>api/login_lockout.go\<close>, where Go's map order in an eviction is a parameter \<open>rank\<close>. \<open>Pow_Escalation\<close>:
  \<open>api/pow_escalation.go\<close>. \<open>Login_Verify\<close> composes them into \<open>verifyLogin\<close> of
  \<open>api/server_auth_session.go\<close>; the user store, the captcha and the password derivation are inputs.
  \<open>Mfa_Challenge\<close>: \<open>mfa/mfa.go\<close> and \<open>mfa/number_match.go\<close>, with random answers as inputs. \<open>Single_Use\<close>:
  \<open>api/single_use.go\<close>.

  \<^bold>\<open>Outgoing mail.\<close> \<open>Smtp_Message\<close>: \<open>NormalizeSMTPMessage\<close>. \<open>Send_Ledger\<close>: \<open>state/send_ledger.go\<close> and
  \<open>api/send_quota.go\<close>, each SQL statement one function on the list of rows. \<open>Outbox\<close>:
  \<open>mailbox/outbox.go\<close>, each transaction one step that the database may refuse; every delivery is shown to
  follow the claim protocol, and the usage counters to be exact.

  \<^bold>\<open>Scheduled mail.\<close> \<open>Scheduled_Table\<close>: the statements of \<open>state/scheduled_sends.go\<close> on the list of rows; the
  order in which the database meets rows is a parameter. \<open>Scheduled_Send\<close>: \<open>api/scheduled_send.go\<close> with the
  authority checks of \<open>sso/native_outbound.go\<close> and the relay loop of \<open>api/pgp_send_client.go\<close>; it charges the
  ledger of \<open>Send_Ledger\<close>, and takes the answers of accounts, devices, queue and relay as inputs.
  \<open>Scheduled_System\<close>: the sweeper as a step relation (claim, decide, write back, save the draft) interleaved
  with users, crashes, restarts, backups and restores; the locale \<open>table_invariant\<close> says what an invariant of
  the table must survive, and is interpreted for typed rows and for the limits per user.
  \<open>Scheduled_Properties\<close>: ownership of rows in flight, messages that are settled for good, and from them the
  properties of every run.

  \<^bold>\<open>Native mailbox\<close> (\<open>mailbox/\<close>). \<open>Mailbox_Store\<close> has the tables of \<open>store.go\<close> with their triggers and foreign
  keys, and the ways in which mail is stored; \<open>Mailbox_Folders\<close> the other methods of \<open>store.go\<close> and
  \<open>client_store.go\<close>; \<open>Mailbox_Client\<close> the operations of \<open>client.go\<close> and the replacement of incoming mail by its
  ciphertext, \<open>incoming_encryption.go\<close>. \<open>Mailbox_System\<close> takes a run to be any sequence of transactions and shows
  that each is a chain of a few elementary changes; the paged loop that empties a folder is proved equal to one
  pass. An invariant is then shown for the elementary changes only (locale \<open>mailbox_invariant\<close>);
  \<open>Mailbox_Properties\<close> interprets it for the folders, the change feed and the usage counters, and proves what a
  follower of the feed, a repeated delivery, a repeated replacement and a client's action can rely on. The filing
  of a sent copy belongs to \<open>Outbox\<close>. \<open>Mailbox_Transfer\<close> is the export of \<open>export.go\<close> and the mbox reader of
  \<open>import.go\<close>, buffer by buffer, and proves that what is written is read back.

  \<^bold>\<open>Inbound gateway: holding\<close> (\<open>ingress/store.go\<close>, \<open>capacity.go\<close>, \<open>import.go\<close>). \<open>Ingress_Store\<close> has the tables of the
  holding store and every method on them: routes, admission by the space on disk, binding and acceptance of mail,
  quarantine, leases, acknowledgement, discarding, tombstones. An input \<open>ingress_env\<close> holds the clock, the state of
  the disk and whether the database works. \<open>Ingress_Import\<close> is \<open>deliver\<close>, and a world in which the holding store,
  the mailboxes of \<open>Mailbox_Store\<close> and any number of importers move one transaction at a time, each importer free
  to stop after every one; \<open>deliver\<close> is proved to be a run of its stages. \<open>Ingress_System\<close> reduces the methods to a
  few elementary steps on a row and proves the invariant of the tables; \<open>Ingress_Properties\<close> adds what an importer
  under way has already stored (receipts never go away, by an interpretation of \<open>mailbox_invariant\<close>).
  \<open>Ingress_Claims\<close> holds the properties: accepted mail is held, ended by an administrator or in every owner's
  mailbox; limits; replays; completion of an undisturbed import; the arithmetic of the reserve.

  \<^bold>\<open>Inbound gateway: sender blocks\<close> (\<open>ingress/blocks.go\<close>, \<open>autoblocks.go\<close>, the sender rules of \<open>cfreceiving/wire.go\<close>).
  \<open>Sender_Blocks\<close> is the block list with its rules, budgets and evictions, over strings as UTF-8 bytes;
  \<open>Sender_Evidence\<close> the evidence file and the verdicts that make blocks. Inputs are the digest, the clock, the
  answers of the file system, the order of a Go map and the size of the evidence as JSON. \<open>Sender_Properties\<close> proves
  once, in the locale \<open>block_list_invariant\<close>, that a property kept by \<open>Put\<close> and by removal holds along every run,
  and interprets it for well-formed lists clear of the own domains and for lists in which a given block stands.
  \<open>Sender_Claims\<close> holds the properties. \<open>Remove\<close> and \<open>Reject\<close> lock the evidence and the list one after the other and
  are one step each here.

  \<^bold>\<open>Address book\<close> (\<open>contacts/\<close>). \<open>Contact_Model\<close> has the data of \<open>contacts.go\<close>. \<open>Union_Find\<close> is the
  union-find of \<open>dedupe.go\<close>: \<open>find\<close> is a partial function, shown to return on every forest, and the
  structure to represent the connected components of the pairs united. \<open>Contact_Groups\<close> is the search for
  duplicates, proved equal to the components of the graph of shared emails, phones and names;
  \<open>Contact_Merge\<close> the merge of a group. \<open>Contact_Store\<close> is \<open>store.go\<close>, every operation a body of the file
  store. Its parameters are the OpenPGP library (\<open>lib_key\<close>), the order of a map (\<open>lib_rng\<close>, any permutation)
  and \<open>sort.Slice\<close> (\<open>lib_srt\<close>, any sorting function, stable or not). \<open>Contact_Invariant\<close> states what an
  invariant of the book must survive as the locale \<open>contact_invariant\<close> (\<open>contact_invariant_photo\<close> adds photo
  uploads) and proves once that every operation keeps it; \<open>Contact_Sync\<close> interprets it for well-formed
  books and for the relation between a book and a sync client's copy. \<open>Contact_Dedupe\<close> and
  \<open>Contact_Idempotent\<close> are the theory of a deduplication run; \<open>Contact_Properties\<close> holds the properties and
  a concrete library on which they are tried.

  \<^bold>\<open>Files.\<close> \<open>File_Store\<close>: the shape of every per-user JSON store (lock, re-read, change, write back), with
  the locale \<open>file_store\<close> that \<open>Rule_Store\<close> and \<open>Group_Store\<close> (\<open>groups/store.go\<close>) interpret.
  \<open>Atomic_Write\<close>: \<open>AtomicWriteFile\<close> system call by system call, with what a crash may leave.

  \<^bold>\<open>Not modelled.\<close> Network I/O (IMAP, SMTP, HTTP, webhooks), the SQL access layer, cryptography (OpenPGP,
  password hashing, sealing, single sign-on), goroutine scheduling beyond the order of locked steps, send-as
  aliases, snoozes, agent tokens, the signing and polling of the inbound gateway, the front end and the
  TypeScript workers. Unicode case folding, rounding of \<open>float64\<close> and overflow of 64-bit counters and times are
  outside the model.
\<close>

end
